(* ===== verification/JS_Prelude.thy ===== *)
theory JS_Prelude
  imports Complex_Main "HOL-Library.Multiset" "HOL-Library.List_Lexorder" "HOL-Library.Char_ord"
begin

text \<open>
  The part of the JavaScript language and of its standard library that the modelled
  TypeScript modules use, and the generic lemmas the component theories share.

  \<^item> Numbers: \<open>jsnum\<close> is the number type with its infinities and \<open>NaN\<close>; finite values
    are rationals, so the sign of a difference is exact while rounding is not modelled.
  \<^item> Strings are lists of code units below 256 (\<open>string\<close>), ordered lexicographically,
    which is what \<open><\<close> does on JavaScript strings.
  \<^item> \<open>Map\<close> objects keep insertion order: \<open>jsmap\<close> is an association list, with \<open>set\<close>
    replacing a value in place and appending a new key.
  \<^item> \<open>Array.prototype.sort\<close> is a stable sort by a comparator: \<open>js_sort\<close>. The locale
    \<open>sort_order\<close> states what a comparator has to satisfy for the result not to depend on
    the sorting algorithm, and holds the lemmas the components use.
  \<^item> \<open>json\<close> is the type of values that arrive from the backend untyped.
\<close>

named_theorems jsmap_simps "laws of insertion-ordered maps"
named_theorems cmp_defs "definitions of the program's comparators"


section \<open>Numbers\<close>

datatype jsnum = Fin rat | PInf | NInf | NaN

fun js_minus :: "jsnum \<Rightarrow> jsnum \<Rightarrow> jsnum" where
  "js_minus NaN _ = NaN"
| "js_minus _ NaN = NaN"
| "js_minus (Fin a) (Fin b) = Fin (a - b)"
| "js_minus (Fin _) PInf = NInf"
| "js_minus (Fin _) NInf = PInf"
| "js_minus PInf PInf = NaN"
| "js_minus PInf _ = PInf"
| "js_minus NInf NInf = NaN"
| "js_minus NInf _ = NInf"

text \<open>\<open>||\<close> on numbers: 0 and \<open>NaN\<close> are falsy.\<close>

fun js_or :: "jsnum \<Rightarrow> jsnum \<Rightarrow> jsnum" where
  "js_or NaN y = y"
| "js_or (Fin a) y = (if a = 0 then y else Fin a)"
| "js_or x _ = x"

fun js_neg :: "jsnum \<Rightarrow> bool" where
  "js_neg (Fin a) = (a < 0)"
| "js_neg NInf = True"
| "js_neg _ = False"

fun js_pos :: "jsnum \<Rightarrow> bool" where
  "js_pos (Fin a) = (0 < a)"
| "js_pos PInf = True"
| "js_pos _ = False"

fun js_less :: "jsnum \<Rightarrow> jsnum \<Rightarrow> bool" where
  "js_less (Fin a) (Fin b) = (a < b)"
| "js_less (Fin _) PInf = True"
| "js_less NInf (Fin _) = True"
| "js_less NInf PInf = True"
| "js_less _ _ = False"

text \<open>\<open>===\<close> on numbers: \<open>NaN\<close> differs from itself.\<close>

definition js_eq :: "jsnum \<Rightarrow> jsnum \<Rightarrow> bool" where
  "js_eq x y = (x = y \<and> x \<noteq> NaN)"

fun js_plus :: "jsnum \<Rightarrow> jsnum \<Rightarrow> jsnum" where
  "js_plus NaN _ = NaN"
| "js_plus _ NaN = NaN"
| "js_plus (Fin a) (Fin b) = Fin (a + b)"
| "js_plus PInf NInf = NaN"
| "js_plus NInf PInf = NaN"
| "js_plus PInf _ = PInf"
| "js_plus _ PInf = PInf"
| "js_plus NInf _ = NInf"
| "js_plus _ NInf = NInf"

text \<open>\<open>x / 2\<close>\<close>

fun js_half :: "jsnum \<Rightarrow> jsnum" where
  "js_half (Fin a) = Fin (a / 2)"
| "js_half x = x"

text \<open>\<open>a < b ? -1 : a > b ? 1 : 0\<close>, the comparator idiom of the code.\<close>

definition cmp3 :: "'a::linorder \<Rightarrow> 'a \<Rightarrow> jsnum" where
  "cmp3 a b = (if a < b then Fin (-1) else if b < a then Fin 1 else Fin 0)"


section \<open>Untyped values\<close>

datatype json =
    JNull
  | JBool bool
  | JNum jsnum
  | JStr string
  | JArr "json list"
  | JObj "(string \<times> json) list"

text \<open>Property access; \<open>None\<close> is \<open>undefined\<close>.\<close>

fun jfield :: "json \<Rightarrow> string \<Rightarrow> json option" where
  "jfield (JObj kvs) k = map_of kvs k"
| "jfield _ _ = None"

fun jstr :: "json option \<Rightarrow> string option" where
  "jstr (Some (JStr s)) = Some s"
| "jstr _ = None"

fun jnum :: "json option \<Rightarrow> jsnum option" where
  "jnum (Some (JNum n)) = Some n"
| "jnum _ = None"

text \<open>\<open>Array.isArray\<close>, truthiness of any value, and writing or deleting a property of an object.\<close>

fun jarr :: "json option \<Rightarrow> json list option" where
  "jarr (Some (JArr xs)) = Some xs"
| "jarr _ = None"

fun json_truthy :: "json option \<Rightarrow> bool" where
  "json_truthy None = False"
| "json_truthy (Some JNull) = False"
| "json_truthy (Some (JBool b)) = b"
| "json_truthy (Some (JNum n)) = (n \<noteq> Fin 0 \<and> n \<noteq> NaN)"
| "json_truthy (Some (JStr s)) = (s \<noteq> [])"
| "json_truthy (Some _) = True"

text \<open>A nested value is smaller than the object that holds it.\<close>

lemma size_json_pair: "(k, v) \<in> set kvs \<Longrightarrow> size v < Suc (size_list (size_prod (\<lambda>_. 0) size) kvs)"
  by (induction kvs) auto

lemma size_json_elem: "x \<in> set xs \<Longrightarrow> size x < Suc (size_list size xs)"
  by (auto simp: less_Suc_eq_le intro: size_list_estimation')

lemma size_jfield: "jfield v k = Some w \<Longrightarrow> size w < size v"
  by (cases v) (auto dest: map_of_SomeD size_json_pair)

text \<open>The decimal digits of a natural number.\<close>

definition digit_char :: "nat \<Rightarrow> char" where
  "digit_char d = char_of (48 + d)"

fun show_nat :: "nat \<Rightarrow> string" where
  "show_nat n = (if n < 10 then [digit_char n] else show_nat (n div 10) @ [digit_char (n mod 10)])"

declare show_nat.simps [simp del]

definition read_digits :: "string \<Rightarrow> nat" where
  "read_digits s = foldl (\<lambda>n c. 10 * n + (of_char c - 48)) 0 s"

lemma of_digit_char: "d < 10 \<Longrightarrow> of_char (digit_char d) = (48 + d :: nat)"
  by (simp add: digit_char_def)

lemma read_show_nat: "read_digits (show_nat n) = n"
proof (induction n rule: show_nat.induct)
  case (1 n)
  show ?case
  proof (cases "n < 10")
    case True
    then show ?thesis by (subst show_nat.simps) (simp add: read_digits_def of_digit_char)
  next
    case False
    have d: "of_char (digit_char (n mod 10)) = (48 + n mod 10 :: nat)" by (simp add: of_digit_char)
    have "read_digits (show_nat n) = 10 * read_digits (show_nat (n div 10)) + n mod 10"
      using False d by (subst show_nat.simps) (simp add: read_digits_def)
    then show ?thesis using 1 [OF False] by simp
  qed
qed

lemma show_nat_inject [simp]: "show_nat m = show_nat n \<longleftrightarrow> m = n"
  by (metis read_show_nat)

text \<open>Truthiness of a string that may be null or undefined: the empty string is falsy.\<close>

fun js_truthy :: "string option \<Rightarrow> bool" where
  "js_truthy (Some s) = (s \<noteq> [])"
| "js_truthy None = False"

text \<open>\<open>s.split(c)\<close> for a one-character separator; never empty.\<close>

fun js_split :: "char \<Rightarrow> string \<Rightarrow> string list" where
  "js_split c [] = [[]]"
| "js_split c (x # xs) = (if x = c then [] # js_split c xs
     else case js_split c xs of p # ps \<Rightarrow> (x # p) # ps | [] \<Rightarrow> [[x]])"

text \<open>A string or null as a JSON value.\<close>

fun jopt :: "string option \<Rightarrow> json" where
  "jopt None = JNull"
| "jopt (Some s) = JStr s"


section \<open>Insertion-ordered maps\<close>

type_synonym ('k, 'v) jsmap = "('k \<times> 'v) list"

abbreviation jm_get :: "('k, 'v) jsmap \<Rightarrow> 'k \<Rightarrow> 'v option" where
  "jm_get m k \<equiv> map_of m k"

fun jm_set :: "'k \<Rightarrow> 'v \<Rightarrow> ('k, 'v) jsmap \<Rightarrow> ('k, 'v) jsmap" where
  "jm_set k v [] = [(k, v)]"
| "jm_set k v ((k', v') # m) = (if k = k' then (k, v) # m else (k', v') # jm_set k v m)"

definition jm_has :: "('k, 'v) jsmap \<Rightarrow> 'k \<Rightarrow> bool" where
  "jm_has m k = (map_of m k \<noteq> None)"

definition jm_delete :: "'k \<Rightarrow> ('k, 'v) jsmap \<Rightarrow> ('k, 'v) jsmap" where
  "jm_delete k m = filter (\<lambda>p. fst p \<noteq> k) m"

definition jm_keys :: "('k, 'v) jsmap \<Rightarrow> 'k list" where
  "jm_keys m = map fst m"

definition jm_values :: "('k, 'v) jsmap \<Rightarrow> 'v list" where
  "jm_values m = map snd m"

text \<open>Every map built by \<open>set\<close> and \<open>delete\<close> from the empty one has distinct keys.\<close>

definition jm_ok :: "('k, 'v) jsmap \<Rightarrow> bool" where
  "jm_ok m = distinct (map fst m)"

text \<open>\<open>new Map(xs.map((x) => [key(x), x]))\<close>: later entries overwrite earlier ones.\<close>

definition jm_from :: "('a \<Rightarrow> 'k) \<Rightarrow> ('a \<Rightarrow> 'v) \<Rightarrow> 'a list \<Rightarrow> ('k, 'v) jsmap \<Rightarrow> ('k, 'v) jsmap" where
  "jm_from key val xs m = fold (\<lambda>x. jm_set (key x) (val x)) xs m"

text \<open>\<open>Map<K, V[]>\<close> used to group: push onto the list of the key, or start it.\<close>

definition jm_push :: "'k \<Rightarrow> 'v \<Rightarrow> ('k, 'v list) jsmap \<Rightarrow> ('k, 'v list) jsmap" where
  "jm_push k v m = jm_set k (case jm_get m k of Some vs \<Rightarrow> vs @ [v] | None \<Rightarrow> [v]) m"

text \<open>A \<open>Set\<close> as the list of its members in insertion order.\<close>

definition js_add :: "'a \<Rightarrow> 'a list \<Rightarrow> 'a list" where
  "js_add x xs = (if x \<in> set xs then xs else xs @ [x])"

text \<open>\<open>[...new Set(xs)]\<close>: the members in the order of their first occurrence.\<close>

definition js_unique :: "'a list \<Rightarrow> 'a list" where
  "js_unique xs = fold js_add xs []"


section \<open>Arrays\<close>

text \<open>Stable insertion of an element into a sorted array; \<open>sort\<close> with a comparator.\<close>

fun js_insert :: "('a \<Rightarrow> 'a \<Rightarrow> jsnum) \<Rightarrow> 'a \<Rightarrow> 'a list \<Rightarrow> 'a list" where
  "js_insert cmp x [] = [x]"
| "js_insert cmp x (y # ys) = (if js_pos (cmp x y) then y # js_insert cmp x ys else x # y # ys)"

fun js_sort :: "('a \<Rightarrow> 'a \<Rightarrow> jsnum) \<Rightarrow> 'a list \<Rightarrow> 'a list" where
  "js_sort cmp [] = []"
| "js_sort cmp (x # xs) = js_insert cmp x (js_sort cmp xs)"

fun js_findIndex :: "('a \<Rightarrow> bool) \<Rightarrow> 'a list \<Rightarrow> nat option" where
  "js_findIndex P [] = None"
| "js_findIndex P (x # xs) = (if P x then Some 0 else map_option Suc (js_findIndex P xs))"

text \<open>Indexed read; \<open>None\<close> is \<open>undefined\<close>.\<close>

definition js_at :: "'a list \<Rightarrow> int \<Rightarrow> 'a option" where
  "js_at xs i = (if 0 \<le> i \<and> i < int (length xs) then Some (xs ! nat i) else None)"

definition js_last :: "'a list \<Rightarrow> 'a option" where
  "js_last xs = js_at xs (int (length xs) - 1)"


section \<open>Laws of insertion-ordered maps\<close>

lemma jm_set_get [simp, jsmap_simps]: "map_of (jm_set k v m) = (map_of m)(k \<mapsto> v)"
  by (induction k v m rule: jm_set.induct) auto

lemma jm_set_get_apply [simp]: "map_of (jm_set k v m) k' = (if k = k' then Some v else map_of m k')"
  by simp

lemma jm_delete_get [simp, jsmap_simps]: "map_of (jm_delete k m) = (map_of m)(k := None)"
proof
  fix k' show "map_of (jm_delete k m) k' = ((map_of m)(k := None)) k'"
    by (induction m) (auto simp: jm_delete_def)
qed

lemma jm_has_set [simp, jsmap_simps]: "jm_has (jm_set k v m) k' = (k = k' \<or> jm_has m k')"
  by (auto simp: jm_has_def)

lemma jm_has_delete [simp, jsmap_simps]: "jm_has (jm_delete k m) k' = (k \<noteq> k' \<and> jm_has m k')"
  by (auto simp: jm_has_def)

lemma jm_has_Nil [simp]: "\<not> jm_has [] k"
  by (simp add: jm_has_def)

lemma jm_has_iff: "jm_has m k \<longleftrightarrow> k \<in> fst ` set m"
  by (simp add: jm_has_def map_of_eq_None_iff)

lemma jm_set_keys: "fst ` set (jm_set k v m) = insert k (fst ` set m)"
  by (induction k v m rule: jm_set.induct) auto

lemma jm_set_fresh: "k \<notin> fst ` set m \<Longrightarrow> jm_set k v m = m @ [(k, v)]"
  by (induction k v m rule: jm_set.induct) auto

lemma jm_ok_Nil [simp]: "jm_ok []"
  by (simp add: jm_ok_def)

lemma jm_ok_set [simp, intro]: "jm_ok m \<Longrightarrow> jm_ok (jm_set k v m)"
  by (induction k v m rule: jm_set.induct) (auto simp: jm_ok_def jm_set_keys)

lemma jm_ok_delete [simp, intro]: "jm_ok m \<Longrightarrow> jm_ok (jm_delete k m)"
  by (simp add: jm_ok_def jm_delete_def distinct_map_filter)

lemma jm_ok_from [simp, intro]: "jm_ok m \<Longrightarrow> jm_ok (jm_from key val xs m)"
  unfolding jm_from_def by (induction xs arbitrary: m) auto

lemma jm_ok_push [simp, intro]: "jm_ok m \<Longrightarrow> jm_ok (jm_push k v m)"
  by (simp add: jm_push_def)

lemma jm_mem_get: "jm_ok m \<Longrightarrow> (k, v) \<in> set m \<longleftrightarrow> map_of m k = Some v"
  by (simp add: jm_ok_def)

lemma jm_values_get: "jm_ok m \<Longrightarrow> v \<in> set (jm_values m) \<longleftrightarrow> (\<exists>k. map_of m k = Some v)"
  by (force simp: jm_values_def jm_mem_get [symmetric])

lemma jm_push_get: "map_of (jm_push k v m) k' =
    (if k = k' then Some (case map_of m k of Some vs \<Rightarrow> vs @ [v] | None \<Rightarrow> [v]) else map_of m k')"
  by (simp add: jm_push_def)

text \<open>
  Grouping an array by a key with \<open>jm_push\<close> collects, for every key, the members with that
  key in their original order.
\<close>

lemma jm_push_fold_get:
  "map_of (fold (\<lambda>x. jm_push (key x) (val x)) xs m) k =
     (case map_of m k of
        Some vs \<Rightarrow> Some (vs @ map val (filter (\<lambda>x. key x = k) xs))
      | None \<Rightarrow> (if \<exists>x\<in>set xs. key x = k then Some (map val (filter (\<lambda>x. key x = k) xs)) else None))"
  by (induction xs arbitrary: m) (auto simp: jm_push_get split: option.splits)

lemma jm_push_fold_Nil:
  "(case map_of (fold (\<lambda>x. jm_push (key x) (val x)) xs []) k of Some vs \<Rightarrow> vs | None \<Rightarrow> []) =
     map val (filter (\<lambda>x. key x = k) xs)"
  by (auto simp: jm_push_fold_get filter_empty_conv)

lemma jm_from_get: "map_of (jm_from key val xs m) k =
    (case find (\<lambda>x. key x = k) (rev xs) of Some x \<Rightarrow> Some (val x) | None \<Rightarrow> map_of m k)"
  unfolding jm_from_def
  by (induction xs arbitrary: m rule: rev_induct) (auto split: option.splits)

lemma find_SomeD: "find P xs = Some x \<Longrightarrow> x \<in> set xs \<and> P x"
  by (auto simp: find_Some_iff)

lemma find_split: "find P xs = Some x \<Longrightarrow> \<exists>ys zs. xs = ys @ x # zs \<and> (\<forall>y\<in>set ys. \<not> P y) \<and> P x"
proof (induction xs)
  case (Cons a xs)
  show ?case
  proof (cases "P a")
    case True
    then show ?thesis using Cons.prems by (intro exI [of _ "[]"] exI [of _ xs]) auto
  next
    case False
    then obtain ys zs where "xs = ys @ x # zs" "\<forall>y\<in>set ys. \<not> P y" "P x" using Cons by auto
    then show ?thesis using False by (intro exI [of _ "a # ys"] exI [of _ zs]) auto
  qed
qed simp

lemma js_findIndex_Some: "js_findIndex P xs = Some n \<Longrightarrow> n < length xs \<and> P (xs ! n)"
  by (induction xs arbitrary: n) (auto split: if_splits)

lemma js_findIndex_None: "js_findIndex P xs = None \<longleftrightarrow> (\<forall>x\<in>set xs. \<not> P x)"
  by (induction xs) auto

lemma js_findIndex_less: "js_findIndex P xs = Some n \<Longrightarrow> n < length xs"
  by (simp add: js_findIndex_Some)

lemma set_js_add [simp]: "set (js_add x xs) = insert x (set xs)"
  by (auto simp: js_add_def)

lemma distinct_js_add [simp]: "distinct xs \<Longrightarrow> distinct (js_add x xs)"
  by (simp add: js_add_def)

lemma fold_js_add [simp]: "set (fold js_add xs ys) = set ys \<union> set xs" "distinct ys \<Longrightarrow> distinct (fold js_add xs ys)"
  by (induction xs arbitrary: ys) auto

lemma set_js_unique [simp]: "set (js_unique xs) = set xs"
  by (simp add: js_unique_def)

lemma distinct_js_unique [simp]: "distinct (js_unique xs)"
  by (simp add: js_unique_def)

lemma fold_js_add_fresh: "distinct (ys @ xs) \<Longrightarrow> fold js_add xs ys = ys @ xs"
  by (induction xs arbitrary: ys) (auto simp: js_add_def)

lemma js_unique_distinct: "distinct xs \<Longrightarrow> js_unique xs = xs"
  by (simp add: js_unique_def fold_js_add_fresh)

text \<open>Splitting an array into the groups of a list of distinct keys loses and duplicates nothing.\<close>

lemma mset_filter_split: "mset (filter P xs) + mset (filter (\<lambda>x. \<not> P x) xs) = mset xs"
  by (induction xs) auto

lemma mset_group:
  assumes "distinct ks" and "\<forall>x\<in>set xs. key x \<in> set ks"
  shows "mset (concat (map (\<lambda>k. filter (\<lambda>x. key x = k) xs) ks)) = mset xs"
  using assms
proof (induction ks arbitrary: xs)
  case Nil
  then show ?case by simp
next
  case (Cons k ks)
  let ?rest = "filter (\<lambda>x. key x \<noteq> k) xs"
  have "map (\<lambda>k'. filter (\<lambda>x. key x = k') ?rest) ks = map (\<lambda>k'. filter (\<lambda>x. key x = k') xs) ks"
    using Cons.prems(1) by (auto intro!: filter_cong)
  moreover have "mset (concat (map (\<lambda>k'. filter (\<lambda>x. key x = k') ?rest) ks)) = mset ?rest"
    using Cons.prems by (intro Cons.IH) auto
  ultimately have "mset (concat (map (\<lambda>k'. filter (\<lambda>x. key x = k') xs) ks)) = mset ?rest"
    by (simp only:)
  then show ?case
    using mset_filter_split [of "\<lambda>x. key x = k" xs] by simp
qed

lemma mset_concat_cong: "(\<And>x. x \<in> set xs \<Longrightarrow> mset (f x) = mset (g x)) \<Longrightarrow>
    mset (concat (map f xs)) = mset (concat (map g xs))"
  by (induction xs) auto

lemma mset_concat_perm: "mset xs = mset ys \<Longrightarrow> mset (concat (map f xs)) = mset (concat (map f ys))"
proof -
  assume eq: "mset xs = mset ys"
  have sum: "mset (concat (map f zs)) = (\<Sum>z\<in>#mset zs. mset (f z))" for zs
    by (induction zs) auto
  show ?thesis by (simp add: sum eq)
qed

lemma distinct_map_mset: "mset xs = mset ys \<Longrightarrow> distinct (map f xs) = distinct (map f ys)"
  by (metis mset_map mset_eq_imp_distinct_iff)

text \<open>A relation between every key of a map and its value.\<close>

definition jm_all :: "('k \<Rightarrow> 'v \<Rightarrow> bool) \<Rightarrow> ('k, 'v) jsmap \<Rightarrow> bool" where
  "jm_all P m = list_all (\<lambda>(k, v). P k v) m"

lemma jm_all_Nil [simp]: "jm_all P []"
  by (simp add: jm_all_def)

lemma jm_all_set [simp, intro]: "jm_all P m \<Longrightarrow> P k v \<Longrightarrow> jm_all P (jm_set k v m)"
  by (induction k v m rule: jm_set.induct) (auto simp: jm_all_def)

lemma jm_all_delete [simp, intro]: "jm_all P m \<Longrightarrow> jm_all P (jm_delete k m)"
  by (auto simp: jm_all_def jm_delete_def list_all_iff)

lemma jm_all_get: "jm_all P m \<Longrightarrow> map_of m k = Some v \<Longrightarrow> P k v"
  by (auto simp: jm_all_def list_all_iff dest: map_of_SomeD)

lemma jm_all_mem: "jm_all P m \<Longrightarrow> (k, v) \<in> set m \<Longrightarrow> P k v"
  by (auto simp: jm_all_def list_all_iff)

lemma fold_invariant: "P s \<Longrightarrow> (\<And>x s. x \<in> set xs \<Longrightarrow> P s \<Longrightarrow> P (f x s)) \<Longrightarrow> P (fold f xs s)"
  by (induction xs arbitrary: s) auto


section \<open>Copies of objects\<close>

text \<open>\<open>{...o}\<close>, \<open>{...o, k: v}\<close> and \<open>delete o.k\<close> on a copy.\<close>

fun obj_kvs :: "json \<Rightarrow> (string \<times> json) list" where
  "obj_kvs (JObj kvs) = kvs"
| "obj_kvs _ = []"

definition with_field :: "string \<Rightarrow> json \<Rightarrow> json \<Rightarrow> json" where
  "with_field k v obj = JObj (jm_set k v (obj_kvs obj))"

definition without_field :: "string \<Rightarrow> json \<Rightarrow> json" where
  "without_field k obj = JObj (jm_delete k (obj_kvs obj))"

lemma jm_set_same: "map_of m k = Some v \<Longrightarrow> jm_set k v m = m"
  by (induction k v m rule: jm_set.induct) (auto split: if_splits)

lemma jm_delete_fresh: "k \<notin> fst ` set m \<Longrightarrow> jm_delete k m = m"
  unfolding jm_delete_def by (rule filter_True) force

lemma jm_delete_keys [simp]: "fst ` set (jm_delete k m) = fst ` set m - {k}"
  by (auto simp: jm_delete_def)

lemma jm_delete_append [simp]: "jm_delete k (xs @ ys) = jm_delete k xs @ jm_delete k ys"
  by (simp add: jm_delete_def)

lemma jm_delete_Cons [simp]: "jm_delete k (p # m) = (if fst p = k then jm_delete k m else p # jm_delete k m)" "jm_delete k [] = []"
  by (simp_all add: jm_delete_def)

lemma jfield_with_field [simp]: "jfield (with_field k v obj) k' = (if k = k' then Some v else map_of (obj_kvs obj) k')"
  by (simp add: with_field_def)

lemma jfield_without_field [simp]: "jfield (without_field k obj) k' = (if k = k' then None else map_of (obj_kvs obj) k')"
  by (simp add: without_field_def)

lemma obj_kvs_fields [simp]: "obj_kvs (with_field k v obj) = jm_set k v (obj_kvs obj)" "obj_kvs (without_field k obj) = jm_delete k (obj_kvs obj)"
  by (simp_all add: with_field_def without_field_def)

lemma jfield_obj_kvs: "map_of (obj_kvs obj) k = jfield obj k"
  by (cases obj) auto

end
