(* ===== verification/JS_Sort.thy ===== *)
theory JS_Sort
  imports JS_Prelude
begin

text \<open>
  \<open>Array.prototype.sort\<close> with the program's comparators. The language fixes the result of a
  sort only for consistent comparators (a total preorder on the array's elements); the locale
  \<open>sort_order\<close> is that contract and \<open>key_order\<close> its refinement for comparators whose ties
  have equal keys. Every comparator of the modelled code interprets one of them, so that its
  sorted arrays are permutations, ordered, stable and independent of the sorting algorithm.
\<close>

definition cmp_le :: "('a \<Rightarrow> 'a \<Rightarrow> jsnum) \<Rightarrow> 'a \<Rightarrow> 'a \<Rightarrow> bool" where
  "cmp_le cmp x y = (\<not> js_pos (cmp x y))"

text \<open>\<open>(a, b) => a.position - b.position || compareId(a.id, b.id)\<close>\<close>

definition pos_id_cmp :: "('a \<Rightarrow> jsnum) \<Rightarrow> ('a \<Rightarrow> 'i::linorder) \<Rightarrow> 'a \<Rightarrow> 'a \<Rightarrow> jsnum" where
  "pos_id_cmp pos ident a b = js_or (js_minus (pos a) (pos b)) (cmp3 (ident a) (ident b))"

text \<open>\<open>(a, b) => a.position - b.position\<close>\<close>

definition pos_cmp :: "('a \<Rightarrow> jsnum) \<Rightarrow> 'a \<Rightarrow> 'a \<Rightarrow> jsnum" where
  "pos_cmp pos a b = js_minus (pos a) (pos b)"

lemma mset_js_insert [simp]: "mset (js_insert cmp x xs) = add_mset x (mset xs)"
  by (induction cmp x xs rule: js_insert.induct) auto

lemma mset_js_sort [simp]: "mset (js_sort cmp xs) = mset xs"
  by (induction xs) auto

lemma set_js_sort [simp]: "set (js_sort cmp xs) = set xs"
  using mset_js_sort by (metis set_mset_mset)

lemma set_js_insert [simp]: "set (js_insert cmp x xs) = insert x (set xs)"
  using mset_js_insert by (metis set_mset_mset set_mset_add_mset_insert)

lemma length_js_sort [simp]: "length (js_sort cmp xs) = length xs"
  using mset_js_sort by (metis size_mset)

lemma js_sort_Nil_iff [simp]: "js_sort cmp xs = [] \<longleftrightarrow> xs = []"
  by (metis length_js_sort length_0_conv)

lemma distinct_map_js_sort [simp]: "distinct (map f (js_sort cmp xs)) = distinct (map f xs)"
  by (metis mset_js_sort mset_map mset_eq_imp_distinct_iff)

locale sort_order =
  fixes cmp :: "'a \<Rightarrow> 'a \<Rightarrow> jsnum"
    and ok :: "'a \<Rightarrow> bool"
  assumes cmp_refl: "ok x \<Longrightarrow> cmp_le cmp x x"
    and cmp_total: "ok x \<Longrightarrow> ok y \<Longrightarrow> \<not> cmp_le cmp x y \<Longrightarrow> cmp_le cmp y x"
    and cmp_trans: "ok x \<Longrightarrow> ok y \<Longrightarrow> ok z \<Longrightarrow> cmp_le cmp x y \<Longrightarrow> cmp_le cmp y z \<Longrightarrow> cmp_le cmp x z"
begin

lemma insert_sorted:
  "sorted_wrt (cmp_le cmp) ys \<Longrightarrow> ok x \<Longrightarrow> \<forall>y\<in>set ys. ok y \<Longrightarrow>
     sorted_wrt (cmp_le cmp) (js_insert cmp x ys)"
proof (induction ys)
  case Nil
  then show ?case by simp
next
  case (Cons y ys)
  then show ?case
    using cmp_total [of x y] cmp_trans [of x y]
    by (auto simp: cmp_le_def)
qed

lemma sort_sorted: "\<forall>x\<in>set xs. ok x \<Longrightarrow> sorted_wrt (cmp_le cmp) (js_sort cmp xs)"
  by (induction xs) (auto simp: insert_sorted)

text \<open>Stability: elements the comparator does not separate keep their order.\<close>

lemma insert_filter_other:
  "\<not> P x \<Longrightarrow> filter P (js_insert cmp x ys) = filter P ys"
  by (induction ys) auto

lemma insert_stable:
  assumes "ok x" and "\<forall>y\<in>set ys. ok y" and "ok z" and "sorted_wrt (cmp_le cmp) ys"
    and eq: "cmp_le cmp x z" "cmp_le cmp z x"
  shows "filter (\<lambda>y. cmp_le cmp y z \<and> cmp_le cmp z y) (js_insert cmp x ys) =
         x # filter (\<lambda>y. cmp_le cmp y z \<and> cmp_le cmp z y) ys"
  using assms(2,4)
proof (induction ys)
  case Nil
  then show ?case using eq by simp
next
  case (Cons y ys)
  show ?case
  proof (cases "js_pos (cmp x y)")
    case True
    then have "\<not> cmp_le cmp x y" by (simp add: cmp_le_def)
    then have "\<not> cmp_le cmp z y"
      using cmp_trans [of x z y] assms(1,3) Cons.prems(1) eq by auto
    then show ?thesis using Cons True by simp
  next
    case False
    then show ?thesis using eq by simp
  qed
qed

lemma sort_stable:
  assumes "\<forall>x\<in>set xs. ok x" and "ok z"
  shows "filter (\<lambda>y. cmp_le cmp y z \<and> cmp_le cmp z y) (js_sort cmp xs) =
         filter (\<lambda>y. cmp_le cmp y z \<and> cmp_le cmp z y) xs"
  using assms(1)
proof (induction xs)
  case Nil
  then show ?case by simp
next
  case (Cons x xs)
  then have ih: "filter (\<lambda>y. cmp_le cmp y z \<and> cmp_le cmp z y) (js_sort cmp xs) =
         filter (\<lambda>y. cmp_le cmp y z \<and> cmp_le cmp z y) xs" by simp
  have srt: "sorted_wrt (cmp_le cmp) (js_sort cmp xs)"
    using Cons.prems by (simp add: sort_sorted)
  show ?case
  proof (cases "cmp_le cmp x z \<and> cmp_le cmp z x")
    case True
    then show ?thesis
      using insert_stable [of x "js_sort cmp xs" z] Cons.prems assms(2) srt ih by simp
  next
    case False
    then show ?thesis
      using insert_filter_other [of "\<lambda>y. cmp_le cmp y z \<and> cmp_le cmp z y"] ih by simp
  qed
qed

lemma sort_id: "sorted_wrt (cmp_le cmp) xs \<Longrightarrow> js_sort cmp xs = xs"
proof (induction xs)
  case Nil
  then show ?case by simp
next
  case (Cons x xs)
  then show ?case by (cases xs) (auto simp: cmp_le_def)
qed

lemma sort_idem: "\<forall>x\<in>set xs. ok x \<Longrightarrow> js_sort cmp (js_sort cmp xs) = js_sort cmp xs"
  by (simp add: sort_id sort_sorted)

text \<open>A filtered sorted array is the sorted filtered array.\<close>

lemma insert_least: "\<forall>z\<in>set ys. cmp_le cmp x z \<Longrightarrow> js_insert cmp x ys = x # ys"
  by (cases ys) (auto simp: cmp_le_def)

lemma insert_filter:
  "P x \<Longrightarrow> sorted_wrt (cmp_le cmp) ys \<Longrightarrow> ok x \<Longrightarrow> \<forall>y\<in>set ys. ok y \<Longrightarrow>
     filter P (js_insert cmp x ys) = js_insert cmp x (filter P ys)"
proof (induction ys)
  case Nil
  then show ?case by simp
next
  case (Cons y ys)
  show ?case
  proof (cases "js_pos (cmp x y)")
    case True
    then show ?thesis using Cons by simp
  next
    case False
    then have "\<forall>z\<in>set (y # ys). cmp_le cmp x z"
      using Cons.prems cmp_trans [of x y] by (auto simp: cmp_le_def)
    then have "js_insert cmp x (filter P (y # ys)) = x # filter P (y # ys)"
      by (intro insert_least) (auto split: if_splits)
    then show ?thesis using False Cons.prems(1) by simp
  qed
qed

lemma sort_filter: "\<forall>x\<in>set xs. ok x \<Longrightarrow> filter P (js_sort cmp xs) = js_sort cmp (filter P xs)"
  by (induction xs) (auto simp: insert_filter insert_filter_other sort_sorted)

end

locale key_order = sort_order cmp ok
  for cmp :: "'a \<Rightarrow> 'a \<Rightarrow> jsnum" and ok :: "'a \<Rightarrow> bool" +
  fixes key :: "'a \<Rightarrow> 'k"
  assumes cmp_tie: "ok x \<Longrightarrow> ok y \<Longrightarrow> cmp_le cmp x y \<Longrightarrow> cmp_le cmp y x \<Longrightarrow> key x = key y"
begin

text \<open>
  With distinct keys the sorted array is determined by the set of its elements: it depends
  neither on the order they arrived in nor on the sorting algorithm.
\<close>

lemma sorted_unique:
  assumes "mset xs = mset ys" and "sorted_wrt (cmp_le cmp) xs" and "sorted_wrt (cmp_le cmp) ys"
    and "\<forall>x\<in>set xs. ok x" and "distinct (map key xs)"
  shows "xs = ys"
  using assms
proof (induction xs arbitrary: ys)
  case Nil
  then show ?case by simp
next
  case (Cons x xs)
  then obtain y ys' where ys: "ys = y # ys'" by (cases ys) auto
  have sets: "set (x # xs) = set (y # ys')"
    using Cons.prems(1) ys by (metis set_mset_mset)
  have "x = y"
  proof (rule ccontr)
    assume "x \<noteq> y"
    then have "x \<in> set ys'" and "y \<in> set xs" using sets by auto
    then have "cmp_le cmp x y" and "cmp_le cmp y x" using Cons.prems(2,3) ys by auto
    then have "key x = key y" using cmp_tie Cons.prems(4) \<open>y \<in> set xs\<close> by auto
    then show False using \<open>y \<in> set xs\<close> Cons.prems(5) by (auto simp: image_iff)
  qed
  then show ?case using Cons ys by auto
qed

lemma sort_perm:
  assumes "mset xs = mset ys" and "\<forall>x\<in>set xs. ok x" and "distinct (map key xs)"
  shows "js_sort cmp xs = js_sort cmp ys"
proof (rule sorted_unique)
  have "set xs = set ys" using assms(1) by (metis set_mset_mset)
  then show "sorted_wrt (cmp_le cmp) (js_sort cmp ys)" using assms(2) by (simp add: sort_sorted)
qed (use assms sort_sorted in simp_all)

end


section \<open>The program's comparators\<close>

lemma js_pos_cmp3 [simp]: "js_pos (cmp3 a b) = (b < a)"
  by (auto simp: cmp3_def)

lemma cmp_le_cmp3 [simp]: "cmp_le cmp3 a b = (a \<le> b)"
  by (auto simp: cmp_le_def)

text \<open>Positions that are not \<open>NaN\<close> are linearly ordered by \<open>js_less\<close>.\<close>

lemma js_pos_minus: "x \<noteq> NaN \<Longrightarrow> y \<noteq> NaN \<Longrightarrow> js_pos (js_minus x y) = js_less y x"
  by (cases x; cases y) auto

lemma js_minus_tie: "x \<noteq> NaN \<Longrightarrow> y \<noteq> NaN \<Longrightarrow> js_or (js_minus x y) z = z \<or> js_less x y \<or> js_less y x"
  by (cases x; cases y) auto

lemma js_pos_or_minus: "x \<noteq> NaN \<Longrightarrow> y \<noteq> NaN \<Longrightarrow>
    js_pos (js_or (js_minus x y) z) = (js_less y x \<or> x = y \<and> js_pos z)"
  by (cases x; cases y) auto

lemma js_less_irrefl [simp]: "\<not> js_less x x"
  by (cases x) auto

lemma js_less_trans: "js_less x y \<Longrightarrow> js_less y z \<Longrightarrow> js_less x z"
  by (cases x; cases y; cases z) auto

lemma js_less_asym: "js_less x y \<Longrightarrow> \<not> js_less y x"
  by (cases x; cases y) auto

lemma js_less_total: "x \<noteq> NaN \<Longrightarrow> y \<noteq> NaN \<Longrightarrow> js_less x y \<or> x = y \<or> js_less y x"
  by (cases x; cases y) auto

lemma cmp_le_pos_id: "pos x \<noteq> NaN \<Longrightarrow> pos y \<noteq> NaN \<Longrightarrow>
    cmp_le (pos_id_cmp pos ident) x y = (js_less (pos x) (pos y) \<or> pos x = pos y \<and> ident x \<le> ident y)"
  using js_less_total [of "pos x" "pos y"] js_less_asym [of "pos x" "pos y"]
  by (auto simp: cmp_le_def pos_id_cmp_def js_pos_or_minus)

lemma cmp_le_pos: "pos x \<noteq> NaN \<Longrightarrow> pos y \<noteq> NaN \<Longrightarrow>
    cmp_le (pos_cmp pos) x y = (js_less (pos x) (pos y) \<or> pos x = pos y)"
  using js_less_total [of "pos x" "pos y"] js_less_asym [of "pos x" "pos y"]
  by (auto simp: cmp_le_def pos_cmp_def js_pos_minus)

interpretation pos_id: key_order "pos_id_cmp pos ident" "\<lambda>x. pos x \<noteq> NaN" ident for pos ident
proof
  fix x y z
  show "pos x \<noteq> NaN \<Longrightarrow> cmp_le (pos_id_cmp pos ident) x x"
    by (simp add: cmp_le_pos_id)
  show "pos x \<noteq> NaN \<Longrightarrow> pos y \<noteq> NaN \<Longrightarrow> \<not> cmp_le (pos_id_cmp pos ident) x y \<Longrightarrow>
          cmp_le (pos_id_cmp pos ident) y x"
    using js_less_total [of "pos x" "pos y"] by (auto simp: cmp_le_pos_id)
  show "pos x \<noteq> NaN \<Longrightarrow> pos y \<noteq> NaN \<Longrightarrow> pos z \<noteq> NaN \<Longrightarrow> cmp_le (pos_id_cmp pos ident) x y \<Longrightarrow>
          cmp_le (pos_id_cmp pos ident) y z \<Longrightarrow> cmp_le (pos_id_cmp pos ident) x z"
    using js_less_trans [of "pos x" "pos y" "pos z"] by (auto simp: cmp_le_pos_id)
  show "pos x \<noteq> NaN \<Longrightarrow> pos y \<noteq> NaN \<Longrightarrow> cmp_le (pos_id_cmp pos ident) x y \<Longrightarrow>
          cmp_le (pos_id_cmp pos ident) y x \<Longrightarrow> ident x = ident y"
    using js_less_asym [of "pos x" "pos y"] by (metis cmp_le_pos_id js_less_irrefl order_antisym)
qed

interpretation pos: key_order "pos_cmp pos" "\<lambda>x. pos x \<noteq> NaN" pos for pos
proof
  fix x y z
  show "pos x \<noteq> NaN \<Longrightarrow> cmp_le (pos_cmp pos) x x"
    by (simp add: cmp_le_pos)
  show "pos x \<noteq> NaN \<Longrightarrow> pos y \<noteq> NaN \<Longrightarrow> \<not> cmp_le (pos_cmp pos) x y \<Longrightarrow> cmp_le (pos_cmp pos) y x"
    using js_less_total [of "pos x" "pos y"] by (auto simp: cmp_le_pos)
  show "pos x \<noteq> NaN \<Longrightarrow> pos y \<noteq> NaN \<Longrightarrow> pos z \<noteq> NaN \<Longrightarrow> cmp_le (pos_cmp pos) x y \<Longrightarrow>
          cmp_le (pos_cmp pos) y z \<Longrightarrow> cmp_le (pos_cmp pos) x z"
    using js_less_trans [of "pos x" "pos y" "pos z"] by (auto simp: cmp_le_pos)
  show "pos x \<noteq> NaN \<Longrightarrow> pos y \<noteq> NaN \<Longrightarrow> cmp_le (pos_cmp pos) x y \<Longrightarrow>
          cmp_le (pos_cmp pos) y x \<Longrightarrow> pos x = pos y"
    using js_less_asym [of "pos x" "pos y"] by (metis cmp_le_pos)
qed

interpretation str: key_order "\<lambda>a b. cmp3 (f a) (f b)" "\<lambda>_. True" f for f :: "'a \<Rightarrow> 'k::linorder"
  by unfold_locales (auto simp: cmp_le_def)

end
