(* ===== verification/JS_Date.thy ===== *)
theory JS_Date
  imports JS_Prelude
begin

text \<open>
  \<open>Date.parse(iso)\<close> and \<open>new Date(iso).getTime()\<close> on the date-time string format of the
  language (\<open>YYYY-MM-DDTHH:mm:ss.sssZ\<close> and its shortened forms), which is what the backend
  sends: the milliseconds since the epoch, \<open>None\<close> for \<open>NaN\<close>. A date-time without an offset
  is read in the time zone of the host, which is taken to be UTC.
\<close>

definition digit_val :: "char \<Rightarrow> int option" where
  "digit_val c = (let n = of_char c :: int in if 48 \<le> n \<and> n \<le> 57 then Some (n - 48) else None)"

fun num_acc :: "int \<Rightarrow> string \<Rightarrow> int option" where
  "num_acc acc [] = Some acc"
| "num_acc acc (c # cs) = (case digit_val c of None \<Rightarrow> None | Some d \<Rightarrow> num_acc (10 * acc + d) cs)"

definition num_of :: "string \<Rightarrow> int option" where
  "num_of s = (if s = [] then None else num_acc 0 s)"

definition in_range :: "int \<Rightarrow> int \<Rightarrow> int option \<Rightarrow> int option" where
  "in_range lo hi v = (case v of Some n \<Rightarrow> (if lo \<le> n \<and> n \<le> hi then Some n else None) | None \<Rightarrow> None)"

definition leap_year :: "int \<Rightarrow> bool" where
  "leap_year y = (y mod 4 = 0 \<and> (y mod 100 \<noteq> 0 \<or> y mod 400 = 0))"

definition month_days :: "int \<Rightarrow> int \<Rightarrow> int" where
  "month_days y m = (if m = 2 then (if leap_year y then 29 else 28)
     else if m \<in> {4, 6, 9, 11} then 30 else 31)"

text \<open>Days from the epoch to a date of the proleptic Gregorian calendar.\<close>

definition days_from_civil :: "int \<Rightarrow> int \<Rightarrow> int \<Rightarrow> int" where
  "days_from_civil y0 m d = (let y = (if m \<le> 2 then y0 - 1 else y0);
      era = y div 400; yoe = y - era * 400;
      doy = (153 * (if m > 2 then m - 3 else m + 9) + 2) div 5 + d - 1;
      doe = yoe * 365 + yoe div 4 - yoe div 100 + doy
    in era * 146097 + doe - 719468)"

definition parse_day :: "string \<Rightarrow> int option" where
  "parse_day s = (let n = length s;
      y = num_of (take 4 s);
      m = (if n = 4 then Some 1 else if s ! 4 = CHR ''-'' then in_range 1 12 (num_of (take 2 (drop 5 s))) else None);
      d = (if n = 4 \<or> n = 7 then Some 1
           else if s ! 7 = CHR ''-'' then in_range 1 31 (num_of (drop 8 s)) else None)
    in if n \<noteq> 4 \<and> n \<noteq> 7 \<and> n \<noteq> 10 then None
       else case (y, m, d) of
         (Some y', Some m', Some d') \<Rightarrow>
           if d' \<le> month_days y' m' then Some (days_from_civil y' m' d') else None
       | _ \<Rightarrow> None)"

text \<open>Milliseconds of a time of day; digits after the third of the fraction are dropped.\<close>

definition parse_time :: "string \<Rightarrow> int option" where
  "parse_time s = (let n = length s;
      h = in_range 0 24 (num_of (take 2 s));
      m = (if n \<ge> 5 \<and> s ! 2 = CHR '':'' then in_range 0 59 (num_of (take 2 (drop 3 s))) else None);
      sec = (if n = 5 then Some 0 else if n \<ge> 8 \<and> s ! 5 = CHR '':'' then in_range 0 59 (num_of (take 2 (drop 6 s))) else None);
      ms = (if n \<le> 8 then Some 0
            else if s ! 8 = CHR ''.'' \<and> num_of (drop 9 s) \<noteq> None then num_of (take 3 (drop 9 s @ ''00'')) else None)
    in case (h, m, sec, ms) of
         (Some h', Some m', Some s', Some ms') \<Rightarrow>
           if h' = 24 \<and> (m' \<noteq> 0 \<or> s' \<noteq> 0 \<or> ms' \<noteq> 0) then None
           else Some (h' * 3600000 + m' * 60000 + s' * 1000 + ms')
       | _ \<Rightarrow> None)"

text \<open>The offset from UTC in milliseconds and the text before it.\<close>

definition split_offset :: "string \<Rightarrow> (string \<times> int) option" where
  "split_offset s = (let n = length s in
     if n \<ge> 1 \<and> last s = CHR ''Z'' then Some (butlast s, 0)
     else if n \<ge> 6 \<and> (s ! (n - 6) = CHR ''+'' \<or> s ! (n - 6) = CHR ''-'') then
       (case (in_range 0 23 (num_of (take 2 (drop (n - 5) s))), in_range 0 59 (num_of (drop (n - 2) s))) of
          (Some h, Some m) \<Rightarrow>
            if s ! (n - 3) = CHR '':'' then
              Some (take (n - 6) s, (if s ! (n - 6) = CHR ''-'' then -1 else 1) * (h * 3600000 + m * 60000))
            else None
        | _ \<Rightarrow> None)
     else Some (s, 0))"

definition date_parse :: "string \<Rightarrow> int option" where
  "date_parse s = (let dp = takeWhile (\<lambda>c. c \<noteq> CHR ''T'') s; tp = drop (length dp) s in
     if tp = [] then map_option (\<lambda>d. d * 86400000) (parse_day dp)
     else case (parse_day dp, split_offset (tl tp)) of
       (Some d, Some (t, off)) \<Rightarrow> map_option (\<lambda>ms. d * 86400000 + ms - off) (parse_time t)
     | _ \<Rightarrow> None)"

lemma date_parse_epoch: "date_parse ''1970-01-01T00:00:00.000Z'' = Some 0"
  by code_simp

lemma date_parse_offset: "date_parse ''2026-03-01T12:30:05.250417+02:00'' = Some 1772361005250"
  by code_simp

end
