(* ===== verification/Timeline_Types.thy ===== *)
theory Timeline_Types
  imports JS_Sort JS_Date
begin

text \<open>
  The data of the timeline feature (\<open>features/timeline/types.ts\<close> and
  \<open>types/activity.ts\<close>): entity snapshots, timeline events, the board baseline and the
  reconstructed frame. Classifier fields (card type, priority, status, role, action and entity
  type) are opaque strings, as in the source.

  A snapshot that arrives on an event is a card snapshot, a column snapshot or any other
  object. The source casts it with \<open>as CardSnapshot\<close> or \<open>as ColumnSnapshot\<close>, which changes
  nothing at run time: \<open>as_card\<close> and \<open>as_column\<close> read the fields of the object under the
  cast's type, a field the object does not have reading as empty, null or \<open>NaN\<close>. On a card event that
  carries a card snapshot, and on a column event that carries a column snapshot, the cast is the
  identity; the backend sends no other combination.
\<close>

record participant_snapshot =
  ps_user_id :: string
  ps_agent_id :: "string option"
  ps_name :: string
  ps_role :: string
  ps_avatar_url :: "string option"

record card_snapshot =
  cs_id :: string
  cs_title :: string
  cs_card_type :: string
  cs_priority :: string
  cs_column_id :: "string option"
  cs_position :: jsnum
  cs_status :: "string option"
  cs_labels :: "string list option"
  cs_participants :: "participant_snapshot list"
  cs_created_at :: "string option option" \<comment> \<open>\<open>None\<close>: the field is absent\<close>

record column_snapshot =
  cl_id :: string
  cl_name :: string
  cl_column_type :: "string option"
  cl_position :: jsnum

datatype entity_snapshot =
    CardSnap card_snapshot
  | ColumnSnap column_snapshot
  | OtherSnap "(string \<times> json) list"

record timeline_event =
  ev_id :: string
  entity_type :: string
  entity_id :: string
  action :: string
  actor_id :: string
  actor_name :: "string option"
  agent_id :: "string option"
  summary :: string
  entity_title :: "string option"
  message_params :: "(string \<times> json) list option"
  before_state :: "entity_snapshot option"
  after_state :: "entity_snapshot option"
  changes :: "(string \<times> json) list option"
  created_at :: string

record board_baseline =
  bl_columns :: "column_snapshot list"
  bl_cards :: "card_snapshot list"

record frame_card =
  fc_snapshot :: card_snapshot
  fc_legacy :: bool

record frame_column =
  fl_snapshot :: column_snapshot
  fl_cards :: "frame_card list"

record board_frame =
  fr_columns :: "frame_column list"
  fr_partial :: bool

definition UNKNOWN_COLUMN_ID :: string where
  "UNKNOWN_COLUMN_ID = ''__timeline_unknown__''"

definition UNKNOWN_COLUMN :: column_snapshot where
  "UNKNOWN_COLUMN = \<lparr>cl_id = UNKNOWN_COLUMN_ID, cl_name = ''Unknown'', cl_column_type = None, cl_position = PInf\<rparr>"

text \<open>The entries of a snapshot seen as a plain object (\<open>Object.entries\<close>, \<open>key in snapshot\<close>).\<close>

definition participant_json :: "participant_snapshot \<Rightarrow> json" where
  "participant_json p = JObj [(''user_id'', JStr (ps_user_id p)), (''agent_id'', jopt (ps_agent_id p)),
     (''name'', JStr (ps_name p)), (''role'', JStr (ps_role p)), (''avatar_url'', jopt (ps_avatar_url p))]"

fun snapshot_fields :: "entity_snapshot \<Rightarrow> (string \<times> json) list" where
  "snapshot_fields (CardSnap c) =
     [(''id'', JStr (cs_id c)), (''title'', JStr (cs_title c)), (''card_type'', JStr (cs_card_type c)),
      (''priority'', JStr (cs_priority c)), (''column_id'', jopt (cs_column_id c)),
      (''position'', JNum (cs_position c)), (''status'', jopt (cs_status c)),
      (''labels'', case cs_labels c of None \<Rightarrow> JNull | Some ls \<Rightarrow> JArr (map JStr ls)),
      (''participants'', JArr (map participant_json (cs_participants c)))] @
     (case cs_created_at c of None \<Rightarrow> [] | Some t \<Rightarrow> [(''created_at'', jopt t)])"
| "snapshot_fields (ColumnSnap c) =
     [(''id'', JStr (cl_id c)), (''name'', JStr (cl_name c)), (''column_type'', jopt (cl_column_type c)),
      (''position'', JNum (cl_position c))]"
| "snapshot_fields (OtherSnap kvs) = kvs"

definition snap_str :: "entity_snapshot \<Rightarrow> string \<Rightarrow> string option" where
  "snap_str s k = jstr (map_of (snapshot_fields s) k)"

definition snap_num :: "entity_snapshot \<Rightarrow> string \<Rightarrow> jsnum" where
  "snap_num s k = (case jnum (map_of (snapshot_fields s) k) of Some n \<Rightarrow> n | None \<Rightarrow> NaN)"

definition text_or_empty :: "string option \<Rightarrow> string" where
  "text_or_empty v = (case v of Some s \<Rightarrow> s | None \<Rightarrow> '''')"

fun as_card :: "entity_snapshot \<Rightarrow> card_snapshot" where
  "as_card (CardSnap c) = c"
| "as_card s = \<lparr>cs_id = text_or_empty (snap_str s ''id''), cs_title = text_or_empty (snap_str s ''title''),
     cs_card_type = text_or_empty (snap_str s ''card_type''), cs_priority = text_or_empty (snap_str s ''priority''),
     cs_column_id = snap_str s ''column_id'', cs_position = snap_num s ''position'',
     cs_status = snap_str s ''status'', cs_labels = None, cs_participants = [],
     cs_created_at = None\<rparr>"

fun as_column :: "entity_snapshot \<Rightarrow> column_snapshot" where
  "as_column (ColumnSnap c) = c"
| "as_column s = \<lparr>cl_id = text_or_empty (snap_str s ''id''), cl_name = text_or_empty (snap_str s ''name''),
     cl_column_type = snap_str s ''column_type'', cl_position = snap_num s ''position''\<rparr>"

text \<open>\<open>Date.parse\<close> as a number.\<close>

definition date_num :: "string \<Rightarrow> jsnum" where
  "date_num s = (case date_parse s of Some ms \<Rightarrow> Fin (of_int ms) | None \<Rightarrow> NaN)"

definition js_le :: "jsnum \<Rightarrow> jsnum \<Rightarrow> bool" where
  "js_le a b = (js_less a b \<or> (a = b \<and> a \<noteq> NaN))"

lemma UNKNOWN_COLUMN_simps [simp]:
  "cl_id UNKNOWN_COLUMN = UNKNOWN_COLUMN_ID" "cl_position UNKNOWN_COLUMN = PInf"
  by (simp_all add: UNKNOWN_COLUMN_def)

lemma date_num_not_inf [simp]: "date_num s \<noteq> PInf" "date_num s \<noteq> NInf"
  by (auto simp: date_num_def split: option.splits)

lemma snap_str_simps [simp]:
  "snap_str (CardSnap c) ''id'' = Some (cs_id c)"
  "snap_str (ColumnSnap d) ''id'' = Some (cl_id d)"
  "snap_str (CardSnap c) ''column_id'' = cs_column_id c"
  by (simp_all add: snap_str_def) (cases "cs_column_id c", simp_all)

lemma as_card_id: "snap_str s ''id'' = Some k \<Longrightarrow> cs_id (as_card s) = k"
  by (cases s) (auto simp: text_or_empty_def)

lemma as_column_id: "snap_str s ''id'' = Some k \<Longrightarrow> cl_id (as_column s) = k"
  by (cases s) (auto simp: text_or_empty_def)

lemma as_card_column: "cs_column_id (as_card s) = snap_str s ''column_id''"
  by (cases s) auto

end
