(* ===== verification/Replay_Engine.thy ===== *)
theory Replay_Engine
  imports Timeline_Types
begin

text \<open>
  Board reconstruction (\<open>features/timeline/utils/replay-engine.ts\<close>): the events of a board's
  log up to a frame are folded, over the state seeded from the board's current baseline, into
  the frame the player shows. The maps of cards and columns and the \<open>partial\<close> flag of
  \<open>reconstructState\<close> are the record \<open>replay_state\<close>; the maps and lists its first half fills
  are the record \<open>replay_seed\<close>.
\<close>

named_theorems replay_defs "definitions of the replay engine"

definition changeStr :: "(string \<times> json) list option \<Rightarrow> string \<Rightarrow> string \<Rightarrow> string option" where
  "changeStr chs field side = (case chs of None \<Rightarrow> None | Some kvs \<Rightarrow>
     (case map_of kvs field of Some (JObj entry) \<Rightarrow> jstr (map_of entry side) | _ \<Rightarrow> None))"

definition changeNum :: "(string \<times> json) list option \<Rightarrow> string \<Rightarrow> string \<Rightarrow> jsnum option" where
  "changeNum chs field side = (case chs of None \<Rightarrow> None | Some kvs \<Rightarrow>
     (case map_of kvs field of Some (JObj entry) \<Rightarrow> jnum (map_of entry side) | _ \<Rightarrow> None))"

definition syntheticCard :: "string \<Rightarrow> string option \<Rightarrow> card_snapshot" where
  "syntheticCard i columnId = \<lparr>cs_id = i, cs_title = '''', cs_card_type = '''', cs_priority = '''',
     cs_column_id = columnId, cs_position = PInf, cs_status = None, cs_labels = None,
     cs_participants = [], cs_created_at = None\<rparr>"

abbreviation modern :: "card_snapshot \<Rightarrow> frame_card" where
  "modern c \<equiv> \<lparr>fc_snapshot = c, fc_legacy = False\<rparr>"

fun birth_scan :: "card_snapshot \<Rightarrow> timeline_event list \<Rightarrow> frame_card option" where
  "birth_scan crd [] = None"
| "birth_scan crd (evt # evts) =
     (if action evt = ''created'' \<and> after_state evt \<noteq> None then Some (modern (as_card (the (after_state evt))))
      else if before_state evt \<noteq> None then Some (modern (as_card (the (before_state evt))))
      else case changeStr (changes evt) ''column_id'' ''old'' of
             Some oldCol \<Rightarrow> Some \<lparr>fc_snapshot = crd\<lparr>cs_column_id := Some oldCol\<rparr>, fc_legacy = True\<rparr>
           | None \<Rightarrow> birth_scan crd evts)"

definition birthEvidence :: "card_snapshot \<Rightarrow> timeline_event list option \<Rightarrow> frame_card option" where
  "birthEvidence crd evts = (case evts of None \<Rightarrow> Some (modern crd) | Some es \<Rightarrow> birth_scan crd es)"

record replay_state =
  rs_cards :: "(string, frame_card) jsmap"
  rs_columns :: "(string, column_snapshot) jsmap"
  rs_partial :: bool

record replay_seed =
  sd_cards :: "(string, frame_card) jsmap"
  sd_columns :: "(string, column_snapshot) jsmap"
  sd_deferred :: "(string, frame_card) jsmap"
  sd_deferredColumns :: "(string, column_snapshot) jsmap"
  sd_born :: "(string \<times> jsnum) list"

text \<open>The index of the log built before the fold: each card's events, the columns it creates.\<close>

definition cardEvents :: "timeline_event list \<Rightarrow> (string, timeline_event list) jsmap" where
  "cardEvents events = fold (\<lambda>e m. if entity_type e = ''card'' then jm_push (entity_id e) e m else m) events []"

definition columnCreatedInLog :: "timeline_event list \<Rightarrow> string \<Rightarrow> bool" where
  "columnCreatedInLog events cid =
     list_ex (\<lambda>e. entity_type e = ''column'' \<and> action e = ''created'' \<and> entity_id e = cid) events"

definition firstEventAtMs :: "timeline_event list \<Rightarrow> jsnum" where
  "firstEventAtMs events = (case events of e # _ \<Rightarrow> date_num (created_at e) | [] \<Rightarrow> PInf)"

definition bornAtMs :: "card_snapshot \<Rightarrow> jsnum" where
  "bornAtMs crd = (case cs_created_at crd of Some (Some t) \<Rightarrow> (if t = '''' then NaN else date_num t) | _ \<Rightarrow> NaN)"

definition createWitnessed :: "timeline_event list option \<Rightarrow> bool" where
  "createWitnessed evts = (case evts of Some es \<Rightarrow> list_ex (\<lambda>e. action e = ''created'') es | None \<Rightarrow> False)"

definition seed_column :: "timeline_event list \<Rightarrow> column_snapshot \<Rightarrow> replay_seed \<Rightarrow> replay_seed" where
  "seed_column events col sd =
     (if columnCreatedInLog events (cl_id col)
      then sd\<lparr>sd_deferredColumns := jm_set (cl_id col) col (sd_deferredColumns sd)\<rparr>
      else sd\<lparr>sd_columns := jm_set (cl_id col) col (sd_columns sd)\<rparr>)"

definition seed_card :: "timeline_event list \<Rightarrow> card_snapshot \<Rightarrow> replay_seed \<Rightarrow> replay_seed" where
  "seed_card events crd sd =
     (let evts = jm_get (cardEvents events) (cs_id crd);
          evidence = birthEvidence crd evts;
          born = bornAtMs crd;
          fallback = (case evidence of Some fc \<Rightarrow> fc | None \<Rightarrow> modern crd)
      in if createWitnessed evts \<or> (born \<noteq> NaN \<and> js_le (firstEventAtMs events) born)
         then sd\<lparr>sd_deferred := jm_set (cs_id crd) fallback (sd_deferred sd),
                sd_born := (if evidence \<noteq> None \<and> born \<noteq> NaN then sd_born sd @ [(cs_id crd, born)] else sd_born sd)\<rparr>
         else sd\<lparr>sd_cards := jm_set (cs_id crd) fallback (sd_cards sd)\<rparr>)"

definition empty_seed :: replay_seed where
  "empty_seed = \<lparr>sd_cards = [], sd_columns = [], sd_deferred = [], sd_deferredColumns = [], sd_born = []\<rparr>"

definition seed :: "timeline_event list \<Rightarrow> board_baseline option \<Rightarrow> replay_seed" where
  "seed events baseline = (case baseline of None \<Rightarrow> empty_seed
     | Some b \<Rightarrow> fold (seed_card events) (bl_cards b) (fold (seed_column events) (bl_columns b) empty_seed))"

definition structural :: "string \<Rightarrow> bool" where
  "structural a = (a = ''created'' \<or> a = ''updated'' \<or> a = ''moved'')"

definition legacy_move :: "replay_seed \<Rightarrow> timeline_event \<Rightarrow> replay_state \<Rightarrow> replay_state" where
  "legacy_move sd event st =
     (let i = entity_id event;
          newCol = changeStr (changes event) ''column_id'' ''new'';
          newPos = changeNum (changes event) ''position'' ''new'';
          base = (case jm_get (rs_cards st) i of
                    Some existing \<Rightarrow> fc_snapshot existing
                  | None \<Rightarrow> (case jm_get (sd_deferred sd) i of
                               Some seeded \<Rightarrow> fc_snapshot seeded
                             | None \<Rightarrow> syntheticCard i newCol));
          base' = base\<lparr>cs_column_id := newCol\<rparr>;
          base'' = (case newPos of Some p \<Rightarrow> base'\<lparr>cs_position := p\<rparr> | None \<Rightarrow> base')
      in st\<lparr>rs_cards := jm_set i \<lparr>fc_snapshot = base'', fc_legacy = True\<rparr> (rs_cards st)\<rparr>)"

definition legacy_create :: "replay_seed \<Rightarrow> timeline_event \<Rightarrow> replay_state \<Rightarrow> replay_state" where
  "legacy_create sd event st =
     (let i = entity_id event in
      if jm_has (rs_cards st) i then st
      else st\<lparr>rs_cards := jm_set i (case jm_get (sd_deferred sd) i of
                 Some seeded \<Rightarrow> seeded
               | None \<Rightarrow> \<lparr>fc_snapshot = syntheticCard i None, fc_legacy = True\<rparr>) (rs_cards st)\<rparr>)"

definition fold_card :: "replay_seed \<Rightarrow> timeline_event \<Rightarrow> replay_state \<Rightarrow> replay_state" where
  "fold_card sd event st =
     (if action event = ''deleted'' then st\<lparr>rs_cards := jm_delete (entity_id event) (rs_cards st)\<rparr>
      else if structural (action event) then
        (case after_state event of
           Some s \<Rightarrow> st\<lparr>rs_cards := jm_set (entity_id event) (modern (as_card s)) (rs_cards st)\<rparr>
         | None \<Rightarrow> (let st' = st\<lparr>rs_partial := True\<rparr> in
             if action event = ''moved'' then legacy_move sd event st'
             else if action event = ''created'' then legacy_create sd event st'
             else st'))
      else st)"

definition fold_column :: "replay_seed \<Rightarrow> timeline_event \<Rightarrow> replay_state \<Rightarrow> replay_state" where
  "fold_column sd event st =
     (if action event = ''deleted'' then st\<lparr>rs_columns := jm_delete (entity_id event) (rs_columns st)\<rparr>
      else if structural (action event) then
        (case after_state event of
           Some s \<Rightarrow> st\<lparr>rs_columns := jm_set (entity_id event) (as_column s) (rs_columns st)\<rparr>
         | None \<Rightarrow> (let st' = st\<lparr>rs_partial := True\<rparr> in
             case jm_get (sd_deferredColumns sd) (entity_id event) of
               Some seeded \<Rightarrow>
                 (if action event = ''created'' \<and> \<not> jm_has (rs_columns st) (entity_id event)
                  then st'\<lparr>rs_columns := jm_set (entity_id event) seeded (rs_columns st)\<rparr> else st')
             | None \<Rightarrow> st'))
      else st)"

definition fold_event :: "replay_seed \<Rightarrow> timeline_event \<Rightarrow> replay_state \<Rightarrow> replay_state" where
  "fold_event sd event st =
     (if entity_type event = ''card'' then fold_card sd event st
      else if entity_type event = ''column'' then fold_column sd event st
      else st)"

definition resolve_column :: "(string, column_snapshot) jsmap \<Rightarrow> frame_card \<Rightarrow> string" where
  "resolve_column columns fc = (case cs_column_id (fc_snapshot fc) of
     Some c \<Rightarrow> (if jm_has columns c then c else UNKNOWN_COLUMN_ID) | None \<Rightarrow> UNKNOWN_COLUMN_ID)"

definition buildFrame :: "(string, frame_card) jsmap \<Rightarrow> (string, column_snapshot) jsmap \<Rightarrow> bool \<Rightarrow> board_frame" where
  "buildFrame cards columns isPartial =
     (let cardsByColumn = fold (\<lambda>fc. jm_push (resolve_column columns fc) fc) (jm_values cards) [];
          usedUnknown = list_ex (\<lambda>fc. resolve_column columns fc = UNKNOWN_COLUMN_ID) (jm_values cards);
          columnSnapshots = jm_values columns @ (if usedUnknown then [UNKNOWN_COLUMN] else [])
      in \<lparr>fr_columns = map (\<lambda>snapshot. \<lparr>fl_snapshot = snapshot,
             fl_cards = js_sort (pos_id_cmp (cs_position \<circ> fc_snapshot) (cs_id \<circ> fc_snapshot))
               (case jm_get cardsByColumn (cl_id snapshot) of Some fcs \<Rightarrow> fcs | None \<Rightarrow> [])\<rparr>)
           (js_sort (pos_id_cmp cl_position cl_id) columnSnapshots),
         fr_partial = isPartial\<rparr>)"

definition last_index :: "timeline_event list \<Rightarrow> int \<Rightarrow> int" where
  "last_index events frameIndex = min frameIndex (int (length events) - 1)"

definition playheadAtMs :: "timeline_event list \<Rightarrow> int \<Rightarrow> jsnum" where
  "playheadAtMs events lst = (case js_at events lst of Some e \<Rightarrow> date_num (created_at e) | None \<Rightarrow> NInf)"

definition materialize :: "replay_seed \<Rightarrow> bool \<Rightarrow> jsnum \<Rightarrow> string \<times> jsnum \<Rightarrow> (string, frame_card) jsmap \<Rightarrow> (string, frame_card) jsmap" where
  "materialize sd atEnd playhead b cards =
     (if \<not> jm_has cards (fst b) \<and> (atEnd \<or> js_le (snd b) playhead)
      then (case jm_get (sd_deferred sd) (fst b) of Some fc \<Rightarrow> jm_set (fst b) fc cards | None \<Rightarrow> cards)
      else cards)"

definition folded_state :: "timeline_event list \<Rightarrow> int \<Rightarrow> replay_seed \<Rightarrow> replay_state" where
  "folded_state events lst sd =
     fold (fold_event sd) (take (nat (lst + 1)) events)
       \<lparr>rs_cards = sd_cards sd, rs_columns = sd_columns sd, rs_partial = False\<rparr>"

definition final_cards :: "timeline_event list \<Rightarrow> int \<Rightarrow> replay_seed \<Rightarrow> (string, frame_card) jsmap" where
  "final_cards events lst sd =
     fold (materialize sd (lst = int (length events) - 1) (playheadAtMs events lst)) (sd_born sd)
       (rs_cards (folded_state events lst sd))"

definition reconstructState :: "timeline_event list \<Rightarrow> int \<Rightarrow> board_baseline option \<Rightarrow> board_frame" where
  "reconstructState events frameIndex baseline =
     (if frameIndex < 0 then \<lparr>fr_columns = [], fr_partial = False\<rparr>
      else let lst = last_index events frameIndex;
               sd = seed events baseline;
               st = folded_state events lst sd
           in buildFrame (final_cards events lst sd) (rs_columns st) (rs_partial st))"



section \<open>Well-formed logs\<close>

text \<open>
  What the backend guarantees of a log: a snapshot carried by a card or column event is a
  snapshot of the entity the event names, its position is a number, and no column uses the
  reserved id of the holding column.
\<close>

definition card_ok :: "string \<Rightarrow> card_snapshot \<Rightarrow> bool" where
  "card_ok i c = (cs_id c = i \<and> cs_position c \<noteq> NaN)"

definition column_ok :: "string \<Rightarrow> column_snapshot \<Rightarrow> bool" where
  "column_ok i c = (cl_id c = i \<and> cl_position c \<noteq> NaN \<and> i \<noteq> UNKNOWN_COLUMN_ID)"

definition state_ok :: "string \<Rightarrow> string \<Rightarrow> entity_snapshot option \<Rightarrow> bool" where
  "state_ok ty i s = (case s of None \<Rightarrow> True | Some s' \<Rightarrow>
     (ty = ''card'' \<longrightarrow> card_ok i (as_card s')) \<and> (ty = ''column'' \<longrightarrow> column_ok i (as_column s')))"

definition wf_event :: "timeline_event \<Rightarrow> bool" where
  "wf_event e = (state_ok (entity_type e) (entity_id e) (before_state e) \<and>
     state_ok (entity_type e) (entity_id e) (after_state e) \<and>
     changeNum (changes e) ''position'' ''new'' \<noteq> Some NaN)"

definition wf_baseline :: "board_baseline option \<Rightarrow> bool" where
  "wf_baseline b = (case b of None \<Rightarrow> True | Some b' \<Rightarrow>
     list_all (\<lambda>c. column_ok (cl_id c) c) (bl_columns b') \<and> list_all (\<lambda>c. card_ok (cs_id c) c) (bl_cards b'))"

definition cards_keyed :: "(string, frame_card) jsmap \<Rightarrow> bool" where
  "cards_keyed m = (jm_ok m \<and> jm_all (\<lambda>k fc. card_ok k (fc_snapshot fc)) m)"

definition columns_keyed :: "(string, column_snapshot) jsmap \<Rightarrow> bool" where
  "columns_keyed m = (jm_ok m \<and> jm_all column_ok m)"

definition seed_ok :: "replay_seed \<Rightarrow> bool" where
  "seed_ok sd = (cards_keyed (sd_cards sd) \<and> columns_keyed (sd_columns sd) \<and>
     cards_keyed (sd_deferred sd) \<and> columns_keyed (sd_deferredColumns sd) \<and>
     list_all (\<lambda>b. jm_has (sd_deferred sd) (fst b)) (sd_born sd))"

definition replay_ok :: "replay_state \<Rightarrow> bool" where
  "replay_ok st = (cards_keyed (rs_cards st) \<and> columns_keyed (rs_columns st))"

definition frame_cards :: "board_frame \<Rightarrow> frame_card list" where
  "frame_cards fr = concat (map fl_cards (fr_columns fr))"

lemmas keyed_defs = cards_keyed_def columns_keyed_def

lemma cards_keyed_set [intro]: "cards_keyed m \<Longrightarrow> card_ok k (fc_snapshot fc) \<Longrightarrow> cards_keyed (jm_set k fc m)"
  by (simp add: keyed_defs)

lemma columns_keyed_set [intro]: "columns_keyed m \<Longrightarrow> column_ok k c \<Longrightarrow> columns_keyed (jm_set k c m)"
  by (simp add: keyed_defs)

lemma keyed_delete [intro]:
  "cards_keyed m \<Longrightarrow> cards_keyed (jm_delete k m)"
  "columns_keyed n \<Longrightarrow> columns_keyed (jm_delete k n)"
  by (simp_all add: keyed_defs)

lemma cards_keyed_get: "cards_keyed m \<Longrightarrow> jm_get m k = Some fc \<Longrightarrow> card_ok k (fc_snapshot fc)"
  by (auto simp: keyed_defs dest: jm_all_get)

lemma columns_keyed_get: "columns_keyed m \<Longrightarrow> jm_get m k = Some c \<Longrightarrow> column_ok k c"
  by (auto simp: keyed_defs dest: jm_all_get)


section \<open>The invariant of the fold\<close>

lemma cardEvents_get:
  "jm_get (cardEvents events) i =
     (let es = filter (\<lambda>e. entity_type e = ''card'' \<and> entity_id e = i) events
      in if es = [] then None else Some es)"
proof -
  have gen: "map_of (fold (\<lambda>e m. if entity_type e = ''card'' then jm_push (entity_id e) e m else m) events m) i =
      (let es = filter (\<lambda>e. entity_type e = ''card'' \<and> entity_id e = i) events
       in case map_of m i of Some vs \<Rightarrow> Some (vs @ es) | None \<Rightarrow> (if es = [] then None else Some es))" for m
    by (induction events arbitrary: m) (auto simp: jm_push_get Let_def split: option.splits)
  show ?thesis unfolding cardEvents_def by (subst gen) (simp add: Let_def)
qed

lemma wf_event_card: "wf_event e \<Longrightarrow> entity_type e = ''card'' \<Longrightarrow>
    after_state e = Some s \<or> before_state e = Some s \<Longrightarrow> card_ok (entity_id e) (as_card s)"
  by (auto simp: wf_event_def state_ok_def)

lemma wf_event_column: "wf_event e \<Longrightarrow> entity_type e = ''column'' \<Longrightarrow>
    after_state e = Some s \<or> before_state e = Some s \<Longrightarrow> column_ok (entity_id e) (as_column s)"
  by (auto simp: wf_event_def state_ok_def)

lemma birth_scan_ok:
  "\<forall>e\<in>set es. wf_event e \<and> entity_type e = ''card'' \<and> entity_id e = cs_id c \<Longrightarrow> card_ok (cs_id c) c \<Longrightarrow>
     birth_scan c es = Some fc \<Longrightarrow> card_ok (cs_id c) (fc_snapshot fc)"
proof (induction es)
  case Nil
  then show ?case by simp
next
  case (Cons e es)
  then show ?case
    using wf_event_card [of e "the (after_state e)"] wf_event_card [of e "the (before_state e)"]
    by (auto simp: card_ok_def split: if_splits option.splits)
qed

lemma birthEvidence_ok:
  assumes "\<forall>e\<in>set events. wf_event e" and "card_ok (cs_id c) c"
    and "birthEvidence c (jm_get (cardEvents events) (cs_id c)) = Some fc"
  shows "card_ok (cs_id c) (fc_snapshot fc)"
proof -
  let ?es = "filter (\<lambda>e. entity_type e = ''card'' \<and> entity_id e = cs_id c) events"
  have "birth_scan c ?es = Some fc \<Longrightarrow> ?thesis"
    using assms(1,2) by (intro birth_scan_ok [of ?es]) auto
  then show ?thesis
    using assms(2,3) by (auto simp: birthEvidence_def cardEvents_get Let_def split: if_splits)
qed

lemma list_all_has_set: "list_all (\<lambda>b. jm_has m (fst b)) bs \<Longrightarrow> list_all (\<lambda>b. k = fst b \<or> jm_has m (fst b)) bs"
  by (auto simp: list_all_iff)

lemma seed_card_ok:
  assumes "\<forall>e\<in>set events. wf_event e" and "card_ok (cs_id c) c" and "seed_ok sd"
  shows "seed_ok (seed_card events c sd)"
proof -
  let ?ev = "birthEvidence c (jm_get (cardEvents events) (cs_id c))"
  have "card_ok (cs_id c) (fc_snapshot (case ?ev of Some fc \<Rightarrow> fc | None \<Rightarrow> modern c))"
    using assms birthEvidence_ok [OF assms(1,2)] by (auto split: option.splits)
  then show ?thesis
    using assms(3) by (auto simp: seed_card_def Let_def seed_ok_def list_all_has_set)
qed

lemma seed_column_ok: "column_ok (cl_id c) c \<Longrightarrow> seed_ok sd \<Longrightarrow> seed_ok (seed_column events c sd)"
  by (auto simp: seed_column_def seed_ok_def)

lemma empty_seed_ok [simp]: "seed_ok empty_seed"
  by (simp add: seed_ok_def empty_seed_def keyed_defs)

lemma seed_seed_ok:
  assumes "\<forall>e\<in>set events. wf_event e" and "wf_baseline b"
  shows "seed_ok (seed events b)"
proof (cases b)
  case None
  then show ?thesis by (simp add: seed_def)
next
  case (Some b')
  have "seed_ok (fold (seed_column events) (bl_columns b') empty_seed)"
    using assms(2) Some
    by (intro fold_invariant [where P = seed_ok]) (auto simp: wf_baseline_def list_all_iff intro: seed_column_ok)
  then have "seed_ok (fold (seed_card events) (bl_cards b') (fold (seed_column events) (bl_columns b') empty_seed))"
    using assms Some
    by (intro fold_invariant [where P = seed_ok]) (auto simp: wf_baseline_def list_all_iff intro: seed_card_ok seed_column_ok)
  then show ?thesis by (simp add: seed_def Some)
qed

lemma legacy_move_ok:
  assumes "seed_ok sd" and "replay_ok st" and "wf_event e"
  shows "replay_ok (legacy_move sd e st)"
proof -
  let ?base = "case jm_get (rs_cards st) (entity_id e) of Some x \<Rightarrow> fc_snapshot x | None \<Rightarrow>
      (case jm_get (sd_deferred sd) (entity_id e) of Some x \<Rightarrow> fc_snapshot x
       | None \<Rightarrow> syntheticCard (entity_id e) (changeStr (changes e) ''column_id'' ''new''))"
  have "card_ok (entity_id e) ?base"
    using assms cards_keyed_get [of "rs_cards st"] cards_keyed_get [of "sd_deferred sd"]
    by (auto simp: replay_ok_def seed_ok_def syntheticCard_def card_ok_def split: option.splits)
  then show ?thesis
    using assms(2,3) unfolding legacy_move_def Let_def replay_ok_def
    by (auto simp: card_ok_def wf_event_def split: option.splits intro!: cards_keyed_set)
qed

lemma legacy_create_ok: "seed_ok sd \<Longrightarrow> replay_ok st \<Longrightarrow> replay_ok (legacy_create sd e st)"
  unfolding legacy_create_def Let_def replay_ok_def seed_ok_def
  by (auto simp: syntheticCard_def card_ok_def split: option.splits dest: cards_keyed_get intro!: cards_keyed_set)

lemma fold_event_ok: "seed_ok sd \<Longrightarrow> wf_event e \<Longrightarrow> replay_ok st \<Longrightarrow> replay_ok (fold_event sd e st)"
proof -
  assume a: "seed_ok sd" "wf_event e" "replay_ok st"
  then have "replay_ok (st\<lparr>rs_partial := True\<rparr>)" by (simp add: replay_ok_def)
  then have "entity_type e = ''card'' \<Longrightarrow> replay_ok (fold_card sd e st)"
    using a by (auto simp: fold_card_def Let_def legacy_move_ok legacy_create_ok split: option.splits)
      (auto simp: replay_ok_def wf_event_card)
  moreover have "entity_type e = ''column'' \<Longrightarrow> replay_ok (fold_column sd e st)"
    using a by (auto simp: fold_column_def replay_ok_def wf_event_column seed_ok_def Let_def
        split: option.splits dest: columns_keyed_get)
  ultimately show ?thesis using a by (simp add: fold_event_def)
qed


lemma folded_state_ok:
  assumes "\<forall>e\<in>set events. wf_event e" and "seed_ok sd"
  shows "replay_ok (folded_state events lst sd)"
  unfolding folded_state_def
proof (rule fold_invariant)
  show "replay_ok \<lparr>rs_cards = sd_cards sd, rs_columns = sd_columns sd, rs_partial = False\<rparr>"
    using assms(2) by (simp add: replay_ok_def seed_ok_def)
  fix e st assume "e \<in> set (take (nat (lst + 1)) events)" "replay_ok st"
  then show "replay_ok (fold_event sd e st)"
    using assms by (auto intro: fold_event_ok dest: in_set_takeD)
qed

lemma materialize_ok: "seed_ok sd \<Longrightarrow> cards_keyed m \<Longrightarrow> cards_keyed (materialize sd e p b m)"
  by (auto simp: materialize_def seed_ok_def split: option.splits dest: cards_keyed_get)

lemma final_cards_ok:
  assumes "\<forall>e\<in>set events. wf_event e" and "seed_ok sd"
  shows "cards_keyed (final_cards events lst sd)"
  unfolding final_cards_def
  by (rule fold_invariant [where P = cards_keyed])
    (use assms folded_state_ok in \<open>auto simp: replay_ok_def intro: materialize_ok\<close>)


section \<open>The frame\<close>

lemma resolve_in:
  "resolve_column columns fc \<in> insert UNKNOWN_COLUMN_ID (fst ` set columns)"
  by (auto simp: resolve_column_def jm_has_iff split: option.splits)

lemma columns_keyed_ids: "columns_keyed columns \<Longrightarrow> map cl_id (jm_values columns) = map fst columns"
  by (auto simp: keyed_defs jm_all_def list_all_iff jm_values_def column_ok_def)

lemma columns_keyed_unknown: "columns_keyed columns \<Longrightarrow> UNKNOWN_COLUMN_ID \<notin> fst ` set columns"
  by (auto simp: keyed_defs jm_all_def list_all_iff column_ok_def)

lemma buildFrame_columns:
  "map fl_snapshot (fr_columns (buildFrame cards columns p)) =
     js_sort (pos_id_cmp cl_position cl_id) (jm_values columns @
       (if list_ex (\<lambda>fc. resolve_column columns fc = UNKNOWN_COLUMN_ID) (jm_values cards) then [UNKNOWN_COLUMN] else []))"
  by (simp add: buildFrame_def Let_def comp_def)

lemma buildFrame_column_cards:
  "col \<in> set (fr_columns (buildFrame cards columns p)) \<Longrightarrow>
     fl_cards col = js_sort (pos_id_cmp (cs_position \<circ> fc_snapshot) (cs_id \<circ> fc_snapshot))
       (filter (\<lambda>fc. resolve_column columns fc = cl_id (fl_snapshot col)) (jm_values cards))"
  by (auto simp: buildFrame_def Let_def
      jm_push_fold_Nil [where val = "\<lambda>x. x", simplified])

lemma buildFrame_column_ids:
  assumes "columns_keyed columns"
  shows "distinct (map (cl_id \<circ> fl_snapshot) (fr_columns (buildFrame cards columns p)))"
proof -
  have "distinct (map cl_id (map fl_snapshot (fr_columns (buildFrame cards columns p))))"
    unfolding buildFrame_columns distinct_map_js_sort
    using assms columns_keyed_unknown [OF assms]
    by (auto simp: columns_keyed_ids keyed_defs jm_ok_def)
  then show ?thesis by simp
qed

lemma buildFrame_covers:
  assumes "columns_keyed columns" and fc: "fc \<in> set (jm_values cards)"
  shows "resolve_column columns fc \<in> set (map (cl_id \<circ> fl_snapshot) (fr_columns (buildFrame cards columns p)))"
proof -
  let ?cols = "fr_columns (buildFrame cards columns p)"
  let ?ids = "map (cl_id \<circ> fl_snapshot) ?cols"
  have "set ?ids = cl_id ` set (map fl_snapshot ?cols)" by auto
  also have "\<dots> \<supseteq> fst ` set columns"
    unfolding buildFrame_columns set_js_sort set_append
    using columns_keyed_ids [OF assms(1)] by (metis image_Un list.set_map Un_upper1)
  finally have "fst ` set columns \<subseteq> set ?ids" .
  moreover have "resolve_column columns fc = UNKNOWN_COLUMN_ID \<Longrightarrow> UNKNOWN_COLUMN_ID \<in> set ?ids"
  proof -
    assume "resolve_column columns fc = UNKNOWN_COLUMN_ID"
    then have "UNKNOWN_COLUMN \<in> set (map fl_snapshot ?cols)"
      unfolding buildFrame_columns using fc by (auto simp: list_ex_iff)
    then have "cl_id UNKNOWN_COLUMN \<in> cl_id ` set (map fl_snapshot ?cols)" by (rule imageI)
    then show ?thesis by (simp add: image_image)
  qed
  ultimately show ?thesis using resolve_in [of columns fc] by auto
qed

lemma buildFrame_mset:
  assumes "columns_keyed columns"
  shows "mset (frame_cards (buildFrame cards columns p)) = mset (jm_values cards)"
proof -
  let ?cols = "fr_columns (buildFrame cards columns p)"
  let ?ids = "map (cl_id \<circ> fl_snapshot) ?cols"
  let ?grp = "\<lambda>i. filter (\<lambda>fc. resolve_column columns fc = i) (jm_values cards)"
  have "mset (frame_cards (buildFrame cards columns p)) = mset (concat (map (?grp \<circ> (cl_id \<circ> fl_snapshot)) ?cols))"
    unfolding frame_cards_def
    by (rule mset_concat_cong) (simp add: buildFrame_column_cards)
  also have "\<dots> = mset (concat (map ?grp ?ids))" by simp
  also have "\<dots> = mset (jm_values cards)"
    using buildFrame_column_ids [OF assms] buildFrame_covers [OF assms] by (intro mset_group) blast+
  finally show ?thesis .
qed

section \<open>What the seed, the fold and the birth pass do to one card\<close>

definition in_window :: "timeline_event list \<Rightarrow> card_snapshot \<Rightarrow> bool" where
  "in_window events c = (createWitnessed (jm_get (cardEvents events) (cs_id c)) \<or>
     (bornAtMs c \<noteq> NaN \<and> js_le (firstEventAtMs events) (bornAtMs c)))"

definition evidence_of :: "timeline_event list \<Rightarrow> card_snapshot \<Rightarrow> frame_card option" where
  "evidence_of events c = birthEvidence c (jm_get (cardEvents events) (cs_id c))"

definition seed_value :: "timeline_event list \<Rightarrow> card_snapshot \<Rightarrow> frame_card" where
  "seed_value events c = (case evidence_of events c of Some fc \<Rightarrow> fc | None \<Rightarrow> modern c)"

lemma seed_card_eq:
  "seed_card events c sd =
     (if in_window events c
      then sd\<lparr>sd_deferred := jm_set (cs_id c) (seed_value events c) (sd_deferred sd),
             sd_born := (if evidence_of events c \<noteq> None \<and> bornAtMs c \<noteq> NaN
                         then sd_born sd @ [(cs_id c, bornAtMs c)] else sd_born sd)\<rparr>
      else sd\<lparr>sd_cards := jm_set (cs_id c) (seed_value events c) (sd_cards sd)\<rparr>)"
  by (simp add: seed_card_def in_window_def seed_value_def evidence_of_def Let_def)

lemma seed_cards_other: "i \<notin> cs_id ` set cs \<Longrightarrow>
    jm_get (sd_cards (fold (seed_card events) cs sd)) i = jm_get (sd_cards sd) i \<and>
    jm_get (sd_deferred (fold (seed_card events) cs sd)) i = jm_get (sd_deferred sd) i"
  by (induction cs arbitrary: sd) (auto simp: seed_card_eq)

lemma seed_cards_get:
  "distinct (map cs_id cs) \<Longrightarrow> c \<in> set cs \<Longrightarrow>
     jm_get (sd_cards (fold (seed_card events) cs sd)) (cs_id c) =
       (if in_window events c then jm_get (sd_cards sd) (cs_id c) else Some (seed_value events c)) \<and>
     jm_get (sd_deferred (fold (seed_card events) cs sd)) (cs_id c) =
       (if in_window events c then Some (seed_value events c) else jm_get (sd_deferred sd) (cs_id c))"
proof (induction cs arbitrary: sd)
  case Nil
  then show ?case by simp
next
  case (Cons d ds)
  show ?case
  proof (cases "c = d")
    case True
    then have "cs_id c \<notin> cs_id ` set ds" using Cons.prems(1) by simp
    then show ?thesis using True by (simp add: seed_cards_other seed_card_eq [of events d sd])
  next
    case False
    then have "cs_id d \<noteq> cs_id c" using Cons.prems by (auto simp: image_iff)
    then show ?thesis using Cons False by (auto simp: seed_card_eq [of events d sd])
  qed
qed

lemma seed_born_set:
  "set (sd_born (fold (seed_card events) cs sd)) = set (sd_born sd) \<union>
     {(cs_id c, bornAtMs c) |c. c \<in> set cs \<and> in_window events c \<and> evidence_of events c \<noteq> None \<and> bornAtMs c \<noteq> NaN}"
  by (induction cs arbitrary: sd) (auto simp: seed_card_eq)

lemma seed_column_frame [simp]:
  "sd_cards (fold (seed_column events) cols sd) = sd_cards sd"
  "sd_deferred (fold (seed_column events) cols sd) = sd_deferred sd"
  "sd_born (fold (seed_column events) cols sd) = sd_born sd"
  by (induction cols arbitrary: sd) (auto simp: seed_column_def)

lemma seed_get:
  assumes "distinct (map cs_id (bl_cards b))" and "c \<in> set (bl_cards b)"
  shows "jm_get (sd_cards (seed events (Some b))) (cs_id c) =
           (if in_window events c then None else Some (seed_value events c))"
    and "jm_get (sd_deferred (seed events (Some b))) (cs_id c) =
           (if in_window events c then Some (seed_value events c) else None)"
  using seed_cards_get [OF assms] by (simp_all add: seed_def empty_seed_def)

lemma seed_born:
  "set (sd_born (seed events (Some b))) =
     {(cs_id c, bornAtMs c) |c. c \<in> set (bl_cards b) \<and> in_window events c \<and> evidence_of events c \<noteq> None \<and> bornAtMs c \<noteq> NaN}"
  by (simp add: seed_def empty_seed_def seed_born_set)

lemma fold_event_other:
  "\<not> (entity_type e = ''card'' \<and> entity_id e = i) \<Longrightarrow>
     jm_get (rs_cards (fold_event sd e st)) i = jm_get (rs_cards st) i"
  by (auto simp: fold_event_def fold_card_def fold_column_def legacy_move_def legacy_create_def Let_def
      split: option.splits)

lemma fold_events_other:
  "\<forall>e\<in>set es. \<not> (entity_type e = ''card'' \<and> entity_id e = i) \<Longrightarrow>
     jm_get (rs_cards (fold (fold_event sd) es st)) i = jm_get (rs_cards st) i"
  by (induction es arbitrary: st) (auto simp: fold_event_other)

text \<open>Only a \<open>deleted\<close> event takes a card off the board.\<close>

lemma fold_event_keeps:
  "jm_has (rs_cards st) i \<Longrightarrow> \<not> (entity_type e = ''card'' \<and> entity_id e = i \<and> action e = ''deleted'') \<Longrightarrow>
     jm_has (rs_cards (fold_event sd e st)) i"
  by (auto simp: fold_event_def fold_card_def fold_column_def legacy_move_def legacy_create_def Let_def
      split: option.splits)

lemma fold_events_keep:
  "jm_has (rs_cards st) i \<Longrightarrow>
     \<forall>e\<in>set es. \<not> (entity_type e = ''card'' \<and> entity_id e = i \<and> action e = ''deleted'') \<Longrightarrow>
     jm_has (rs_cards (fold (fold_event sd) es st)) i"
  by (induction es arbitrary: st) (auto simp: fold_event_keeps)

lemma materialize_has: "jm_has cards i \<Longrightarrow> jm_get (materialize sd e p b cards) i = jm_get cards i"
  by (auto simp: materialize_def jm_has_def split: option.splits)

lemma materialize_fold_has: "jm_has cards i \<Longrightarrow> jm_get (fold (materialize sd e p) bs cards) i = jm_get cards i"
proof (induction bs arbitrary: cards)
  case (Cons b bs)
  then have "jm_has (materialize sd e p b cards) i" by (simp add: materialize_has jm_has_def)
  then show ?case using Cons by (simp add: materialize_has)
qed simp

lemma materialize_fold_other:
  "\<forall>b\<in>set bs. fst b = i \<longrightarrow> \<not> (e \<or> js_le (snd b) p) \<Longrightarrow>
     jm_get (fold (materialize sd e p) bs cards) i = jm_get cards i"
proof (induction bs arbitrary: cards)
  case (Cons b bs)
  have "jm_get (materialize sd e p b cards) i = jm_get cards i"
    using Cons.prems by (auto simp: materialize_def split: option.splits)
  then show ?case using Cons by simp
qed simp

lemma materialize_fold_reveals:
  assumes "(i, t) \<in> set bs" and "e \<or> js_le t p" and "jm_get (sd_deferred sd) i = Some fc"
  shows "jm_has (fold (materialize sd e p) bs cards) i"
  using assms(1)
proof (induction bs arbitrary: cards)
  case (Cons b bs)
  show ?case
  proof (cases "b = (i, t)")
    case True
    then have "jm_has (materialize sd e p b cards) i"
      using assms(2,3) by (auto simp: materialize_def)
    then show ?thesis by (simp add: materialize_fold_has jm_has_def)
  next
    case False
    then show ?thesis using Cons by simp
  qed
qed simp

lemma frame_ids:
  assumes "\<forall>e\<in>set events. wf_event e" and "wf_baseline b" and "0 \<le> i"
  shows "set (map (cs_id \<circ> fc_snapshot) (frame_cards (reconstructState events i b))) =
           fst ` set (final_cards events (last_index events i) (seed events b))"
    and "set (frame_cards (reconstructState events i b)) =
           set (jm_values (final_cards events (last_index events i) (seed events b)))"
proof -
  let ?sd = "seed events b" and ?l = "last_index events i"
  let ?m = "final_cards events ?l ?sd"
  have sd: "seed_ok ?sd" using assms by (simp add: seed_seed_ok)
  have cols: "columns_keyed (rs_columns (folded_state events ?l ?sd))"
    using folded_state_ok [OF assms(1) sd] by (simp add: replay_ok_def)
  show vals: "set (frame_cards (reconstructState events i b)) = set (jm_values ?m)"
    using buildFrame_mset [OF cols] assms(3)
    by (auto simp: reconstructState_def Let_def simp flip: set_mset_mset)
  have "map (cs_id \<circ> fc_snapshot) (jm_values ?m) = map fst ?m"
    using final_cards_ok [OF assms(1) sd, of ?l]
    by (auto simp: keyed_defs jm_all_def list_all_iff jm_values_def card_ok_def)
  then show "set (map (cs_id \<circ> fc_snapshot) (frame_cards (reconstructState events i b))) = fst ` set ?m"
    using vals by (metis list.set_map)
qed

lemma frame_id_iff:
  assumes "\<forall>e\<in>set events. wf_event e" and "wf_baseline b" and "0 \<le> i"
  shows "k \<in> (cs_id \<circ> fc_snapshot) ` set (frame_cards (reconstructState events i b)) \<longleftrightarrow>
           jm_has (final_cards events (last_index events i) (seed events b)) k"
  using frame_ids(1) [OF assms] by (simp add: jm_has_iff)

section \<open>A sample log\<close>

text \<open>
  The column exists before the log opens; the log creates the first card, moves it without a
  snapshot and touches the second card, born inside the window, with a bare \<open>updated\<close> row.
\<close>

definition sample_card :: "string \<Rightarrow> string \<Rightarrow> card_snapshot" where
  "sample_card i t = \<lparr>cs_id = i, cs_title = ''T'', cs_card_type = ''task'', cs_priority = ''low'',
     cs_column_id = Some ''todo'', cs_position = Fin 1024, cs_status = None, cs_labels = None,
     cs_participants = [], cs_created_at = Some (Some t)\<rparr>"

definition sample_event :: "string \<Rightarrow> string \<Rightarrow> string \<Rightarrow> entity_snapshot option \<Rightarrow> string \<Rightarrow> timeline_event" where
  "sample_event ty i act aft t = \<lparr>ev_id = ''e'', entity_type = ty, entity_id = i, action = act,
     actor_id = ''u'', actor_name = None, agent_id = None, summary = [], entity_title = None,
     message_params = None, before_state = None, after_state = aft, changes = None, created_at = t\<rparr>"

definition sample_log :: "timeline_event list" where
  "sample_log =
     [sample_event ''card'' ''c1'' ''created'' (Some (CardSnap (sample_card ''c1'' ''2026-01-01T00:00:00Z''))) ''2026-01-01T00:00:00Z'',
      sample_event ''card'' ''c1'' ''moved'' None ''2026-01-01T00:01:00Z'',
      sample_event ''card'' ''c2'' ''updated'' None ''2026-01-01T00:02:00Z'',
      sample_event ''board'' ''b'' ''updated'' None ''2026-01-01T00:03:00Z'']"

definition sample_baseline :: board_baseline where
  "sample_baseline = \<lparr>bl_columns = [\<lparr>cl_id = ''todo'', cl_name = ''To do'', cl_column_type = None, cl_position = Fin 1\<rparr>],
     bl_cards = [sample_card ''c1'' ''2026-01-01T00:00:00Z'', sample_card ''c2'' ''2026-01-01T00:00:30Z'',
       sample_card ''c3'' ''2026-01-01T00:02:30Z'']\<rparr>"

lemma sample_wf: "(\<forall>e\<in>set sample_log. wf_event e) \<and> wf_baseline (Some sample_baseline)"
  by code_simp

lemma sample_distinct: "distinct (map cs_id (bl_cards sample_baseline))"
  by code_simp


section \<open>Properties\<close>

definition frame_wellformed :: "board_frame \<Rightarrow> bool" where
  "frame_wellformed fr =
     (distinct (map (cs_id \<circ> fc_snapshot) (frame_cards fr)) \<and>
      distinct (map (cl_id \<circ> fl_snapshot) (fr_columns fr)) \<and>
      (\<forall>col\<in>set (fr_columns fr). \<forall>fc\<in>set (fl_cards col).
         cs_column_id (fc_snapshot fc) = Some (cl_id (fl_snapshot col)) \<or>
         cl_id (fl_snapshot col) = UNKNOWN_COLUMN_ID) \<and>
      sorted_wrt (cmp_le (pos_id_cmp cl_position cl_id)) (map fl_snapshot (fr_columns fr)) \<and>
      (\<forall>col\<in>set (fr_columns fr).
         sorted_wrt (cmp_le (pos_id_cmp (cs_position \<circ> fc_snapshot) (cs_id \<circ> fc_snapshot))) (fl_cards col)))"

lemma buildFrame_wellformed:
  assumes cards: "cards_keyed cards" and cols: "columns_keyed columns"
  shows "frame_wellformed (buildFrame cards columns p)"
proof -
  let ?fr = "buildFrame cards columns p"
  have vals: "\<forall>fc\<in>set (jm_values cards). cs_position (fc_snapshot fc) \<noteq> NaN"
    using cards by (auto simp: keyed_defs jm_all_def list_all_iff jm_values_def card_ok_def)
  have pos: "\<forall>c\<in>set (jm_values columns). cl_position c \<noteq> NaN"
    using cols by (auto simp: keyed_defs jm_all_def list_all_iff jm_values_def column_ok_def)
  have "map (cs_id \<circ> fc_snapshot) (jm_values cards) = map fst cards"
    using cards by (auto simp: keyed_defs jm_all_def list_all_iff jm_values_def card_ok_def)
  then have "distinct (map (cs_id \<circ> fc_snapshot) (jm_values cards))"
    using cards by (simp only: keyed_defs jm_ok_def)
  then have "distinct (map (cs_id \<circ> fc_snapshot) (frame_cards ?fr))"
    using distinct_map_mset [OF buildFrame_mset [OF cols]] by blast
  moreover have "\<forall>col\<in>set (fr_columns ?fr). \<forall>fc\<in>set (fl_cards col).
         cs_column_id (fc_snapshot fc) = Some (cl_id (fl_snapshot col)) \<or> cl_id (fl_snapshot col) = UNKNOWN_COLUMN_ID"
    by (auto simp: buildFrame_column_cards resolve_column_def split: option.splits if_splits)
  moreover have "sorted_wrt (cmp_le (pos_id_cmp cl_position cl_id)) (map fl_snapshot (fr_columns ?fr))"
    unfolding buildFrame_columns using pos by (intro pos_id.sort_sorted) auto
  moreover have "\<forall>col\<in>set (fr_columns ?fr).
         sorted_wrt (cmp_le (pos_id_cmp (cs_position \<circ> fc_snapshot) (cs_id \<circ> fc_snapshot))) (fl_cards col)"
    using vals by (auto simp: buildFrame_column_cards intro!: pos_id.sort_sorted)
  ultimately show ?thesis
    using buildFrame_column_ids [OF cols] by (simp add: frame_wellformed_def)
qed

text \<open>
  C16. Every frame of a well-formed log is a well-formed board: no card and no column occurs
  twice, each card lies in the column it names or in the holding column, and columns and the
  cards of a column are ordered by position, then id.
\<close>

theorem replay_frame_wellformed:
  assumes "\<forall>e\<in>set events. wf_event e" and "wf_baseline b"
  shows "frame_wellformed (reconstructState events i b)"
proof (cases "i < 0")
  case True
  then show ?thesis by (simp add: reconstructState_def frame_wellformed_def frame_cards_def)
next
  case False
  have sd: "seed_ok (seed events b)" using assms by (rule seed_seed_ok)
  show ?thesis
    using False final_cards_ok [OF assms(1) sd] folded_state_ok [OF assms(1) sd]
    by (auto simp: reconstructState_def Let_def replay_ok_def intro: buildFrame_wellformed)
qed

theorem replay_frame_wellformed_witness:
  "frame_wellformed (reconstructState sample_log 3 (Some sample_baseline))"
  using replay_frame_wellformed sample_wf by blast

text \<open>
  C17. Historical truth: when the event at the playhead is a create, an update or a move of a
  card with a snapshot, the frame shows exactly that snapshot, whatever the baseline, the
  earlier and the later events say.
\<close>

theorem replay_event_wins:
  assumes "\<forall>e\<in>set events. wf_event e" and "wf_baseline b"
    and "i < length events" and "entity_type (events ! i) = ''card''"
    and "structural (action (events ! i))" and "after_state (events ! i) = Some s"
  shows "modern (as_card s) \<in> set (frame_cards (reconstructState events (int i) b))"
proof -
  let ?sd = "seed events b" and ?l = "last_index events (int i)" and ?e = "events ! i"
  have l: "?l = int i" using assms(3) by (simp add: last_index_def)
  have "take (nat (int i + 1)) events = take i events @ [?e]"
    using assms(3) by (simp add: take_Suc_conv_app_nth nat_add_distrib)
  then have "folded_state events ?l ?sd = fold_event ?sd ?e (fold (fold_event ?sd) (take i events)
      \<lparr>rs_cards = sd_cards ?sd, rs_columns = sd_columns ?sd, rs_partial = False\<rparr>)"
    by (simp add: folded_state_def l)
  then have "jm_get (rs_cards (folded_state events ?l ?sd)) (entity_id ?e) = Some (modern (as_card s))"
    using assms(4-6) by (auto simp: fold_event_def fold_card_def structural_def)
  then have "jm_get (final_cards events ?l ?sd) (entity_id ?e) = Some (modern (as_card s))"
    by (simp add: final_cards_def materialize_fold_has jm_has_def)
  then show ?thesis
    using frame_ids(2) [OF assms(1,2), of "int i"]
    by (force simp: jm_values_def dest: map_of_SomeD)
qed

theorem replay_event_wins_witness:
  "modern (sample_card ''c1'' ''2026-01-01T00:00:00Z'') \<in> set (frame_cards (reconstructState sample_log 0 (Some sample_baseline)))"
  using replay_event_wins [of sample_log "Some sample_baseline" 0 "CardSnap (sample_card ''c1'' ''2026-01-01T00:00:00Z'')"] sample_wf
  by (simp add: sample_log_def sample_event_def structural_def)

text \<open>
  Causality: without a baseline, a frame depends on the events up to the playhead only.
\<close>

lemma replay_causal:
  "reconstructState events (int i) None = reconstructState (take (Suc i) events) (int i) None"
proof -
  have "take (nat (last_index events (int i) + 1)) events =
        take (nat (last_index (take (Suc i) events) (int i) + 1)) (take (Suc i) events)"
    by (auto simp: last_index_def min_def nat_add_distrib)
  then show ?thesis
    by (simp add: reconstructState_def Let_def final_cards_def folded_state_def seed_def empty_seed_def)
qed

text \<open>
  C18. No time travel: a baseline card born inside the window is in no frame before its birth:
  not before its first event when the playhead has not reached its birth time.
\<close>

theorem replay_no_time_travel:
  assumes "\<forall>e\<in>set events. wf_event e" and "wf_baseline (Some b)"
    and "distinct (map cs_id (bl_cards b))" and "c \<in> set (bl_cards b)" and "in_window events c"
    and "Suc i < length events"
    and "\<forall>e\<in>set (take (Suc i) events). \<not> (entity_type e = ''card'' \<and> entity_id e = cs_id c)"
    and "\<not> js_le (bornAtMs c) (date_num (created_at (events ! i)))"
  shows "cs_id c \<notin> (cs_id \<circ> fc_snapshot) ` set (frame_cards (reconstructState events (int i) (Some b)))"
proof -
  let ?sd = "seed events (Some b)" and ?l = "last_index events (int i)"
  have l: "?l = int i" using assms(6) by (simp add: last_index_def)
  have "nat (int i + 1) = Suc i" by simp
  then have "jm_get (rs_cards (folded_state events ?l ?sd)) (cs_id c) = None"
    using fold_events_other [OF assms(7)] seed_get(1) [OF assms(3,4)] assms(5)
    by (simp add: folded_state_def l)
  moreover have "\<forall>x\<in>set (sd_born ?sd). fst x = cs_id c \<longrightarrow> snd x = bornAtMs c"
    using assms(3,4) by (auto simp: seed_born distinct_map inj_on_def)
  then have "\<forall>x\<in>set (sd_born ?sd). fst x = cs_id c \<longrightarrow>
      \<not> (?l = int (length events) - 1 \<or> js_le (snd x) (playheadAtMs events ?l))"
    using assms(6,8) by (auto simp: l playheadAtMs_def js_at_def)
  ultimately have "\<not> jm_has (final_cards events ?l ?sd) (cs_id c)"
    by (simp add: final_cards_def materialize_fold_other jm_has_def)
  then show ?thesis using frame_id_iff [OF assms(1,2)] by simp
qed

theorem replay_no_time_travel_witness:
  "''c3'' \<notin> (cs_id \<circ> fc_snapshot) ` set (frame_cards (reconstructState sample_log 1 (Some sample_baseline)))"
proof -
  let ?c = "sample_card ''c3'' ''2026-01-01T00:02:30Z''"
  have "in_window sample_log ?c" by code_simp
  moreover have "\<not> js_le (bornAtMs ?c) (date_num (created_at (sample_log ! 1)))" by code_simp
  moreover have "\<forall>e\<in>set (take (Suc 1) sample_log). \<not> (entity_type e = ''card'' \<and> entity_id e = cs_id ?c)"
    by code_simp
  moreover have "Suc 1 < length sample_log" by (simp add: sample_log_def)
  moreover have "?c \<in> set (bl_cards sample_baseline)" by (simp add: sample_baseline_def)
  ultimately show ?thesis
    using replay_no_time_travel [of sample_log sample_baseline ?c 1] sample_wf sample_distinct
    by (simp add: sample_card_def)
qed

text \<open>
  Completeness of the last frame: every baseline card that the log never deletes is on the
  final board if it predates the window or the log holds evidence of its birth state.
\<close>

lemma replay_final_complete:
  assumes "\<forall>e\<in>set events. wf_event e" and "wf_baseline (Some b)"
    and "distinct (map cs_id (bl_cards b))" and "c \<in> set (bl_cards b)" and "events \<noteq> []"
    and "in_window events c \<longrightarrow> evidence_of events c \<noteq> None \<and> bornAtMs c \<noteq> NaN"
    and "\<forall>e\<in>set events. \<not> (entity_type e = ''card'' \<and> entity_id e = cs_id c \<and> action e = ''deleted'')"
    and "int (length events) - 1 \<le> i"
  shows "cs_id c \<in> (cs_id \<circ> fc_snapshot) ` set (frame_cards (reconstructState events i (Some b)))"
proof -
  let ?sd = "seed events (Some b)" and ?l = "last_index events i"
  have i: "0 \<le> i" using assms(5,8) by (cases events) auto
  have l: "?l = int (length events) - 1" using assms(8) by (simp add: last_index_def)
  have "jm_has (final_cards events ?l ?sd) (cs_id c)"
  proof (cases "in_window events c")
    case True
    then have "(cs_id c, bornAtMs c) \<in> set (sd_born ?sd)"
      using assms(4,6) by (auto simp: seed_born)
    then show ?thesis
      unfolding final_cards_def using seed_get(2) [OF assms(3,4)] True l
      by (intro materialize_fold_reveals) auto
  next
    case False
    then have "jm_has (sd_cards ?sd) (cs_id c)"
      using seed_get(1) [OF assms(3,4)] by (simp add: jm_has_def)
    then have "jm_has (rs_cards (folded_state events ?l ?sd)) (cs_id c)"
      unfolding folded_state_def using assms(7) by (intro fold_events_keep) (auto dest: in_set_takeD)
    then show ?thesis by (simp add: final_cards_def materialize_fold_has jm_has_def)
  qed
  then show ?thesis using frame_id_iff [OF assms(1,2) i] by simp
qed

text \<open>
  The condition of the completeness of the last frame is needed: a baseline card born inside
  the window that the log only touches with \<open>updated\<close> rows without snapshot is in no frame, not
  even the last one and not even after those rows are folded.
\<close>

lemma replay_unevidenced_never_shown:
  assumes "\<forall>e\<in>set events. wf_event e" and "wf_baseline (Some b)"
    and "distinct (map cs_id (bl_cards b))" and "c \<in> set (bl_cards b)"
    and "in_window events c" and "evidence_of events c = None"
    and "\<forall>e\<in>set events. entity_type e = ''card'' \<and> entity_id e = cs_id c \<longrightarrow>
           action e = ''updated'' \<and> after_state e = None"
  shows "cs_id c \<notin> (cs_id \<circ> fc_snapshot) ` set (frame_cards (reconstructState events i (Some b)))"
proof (cases "i < 0")
  case True
  then show ?thesis by (simp add: reconstructState_def frame_cards_def)
next
  case False
  let ?sd = "seed events (Some b)" and ?l = "last_index events i"
  have keep: "jm_get (rs_cards (fold_event ?sd e st)) (cs_id c) = jm_get (rs_cards st) (cs_id c)"
    if "e \<in> set events" for e st
    using that assms(7) fold_event_other [of e "cs_id c" ?sd st]
    by (cases "entity_type e = ''card'' \<and> entity_id e = cs_id c")
      (auto simp: fold_event_def fold_card_def structural_def Let_def)
  have "jm_get (rs_cards (folded_state events ?l ?sd)) (cs_id c) = None"
    unfolding folded_state_def
    by (rule fold_invariant [where P = "\<lambda>st. jm_get (rs_cards st) (cs_id c) = None"])
      (use seed_get(1) [OF assms(3,4)] assms(5) keep in \<open>auto dest: in_set_takeD\<close>)
  moreover have "\<forall>x\<in>set (sd_born ?sd). fst x \<noteq> cs_id c"
    using assms(3,4,6) by (auto simp: seed_born distinct_map inj_on_def)
  ultimately have "\<not> jm_has (final_cards events ?l ?sd) (cs_id c)"
    by (simp add: final_cards_def materialize_fold_other jm_has_def)
  then show ?thesis using False frame_id_iff [OF assms(1,2), of i] by simp
qed

end
