(* ===== verification/Window_Replay.thy ===== *)
theory Window_Replay
  imports Replay_Engine
begin

text \<open>
  Replay of a history window from a server-side anchor
  (\<open>features/timeline/utils/window-replay.ts\<close>). Unlike the replay engine it never guesses: an
  event without a complete snapshot of its entity removes the entity and marks the frame
  partial, and deleting a column takes its cards with it. The comparison of ids with
  \<open>localeCompare\<close> (the host's collation) is a parameter of the frame.
\<close>

record history_anchor =
  ha_state :: board_baseline
  ha_quality :: string

function sameEvidence :: "json \<Rightarrow> json \<Rightarrow> bool" where
  "sameEvidence JNull r = (r = JNull)"
| "sameEvidence (JBool b) r = (r = JBool b)"
| "sameEvidence (JNum n) r = (r = JNum n \<and> n \<noteq> NaN)"
| "sameEvidence (JStr s) r = (r = JStr s)"
| "sameEvidence (JArr xs) r = (case r of
     JArr ys \<Rightarrow> length xs = length ys \<and> list_all (\<lambda>(x, y). sameEvidence x y) (zip xs ys) | _ \<Rightarrow> False)"
| "sameEvidence (JObj kvs) r = (case r of
     JObj kvs' \<Rightarrow> length kvs = length kvs' \<and>
       list_all (\<lambda>(k, v). case map_of kvs' k of Some w \<Rightarrow> sameEvidence v w | None \<Rightarrow> False) kvs
   | _ \<Rightarrow> False)"
  by pat_completeness auto

lemma size_json_zip: "(x, y) \<in> set (zip xs ys) \<Longrightarrow> size x < Suc (size_list size xs)"
  by (drule set_zip_leftD) (auto simp: less_Suc_eq_le intro: size_list_estimation')

termination sameEvidence
  by (relation "measure (\<lambda>(l, r). size l)") (auto dest: size_json_pair size_json_zip)

record window_state =
  ws_columns :: "(string, entity_snapshot) jsmap"
  ws_cards :: "(string, entity_snapshot) jsmap"
  ws_partial :: bool

definition card_fields :: "string list" where
  "card_fields = [''id'', ''title'', ''card_type'', ''priority'', ''column_id'', ''position'', ''status'', ''labels'', ''participants'']"

definition column_fields :: "string list" where
  "column_fields = [''id'', ''name'', ''column_type'', ''position'']"

definition window_event :: "timeline_event \<Rightarrow> bool" where
  "window_event e = ((entity_type e = ''card'' \<or> entity_type e = ''column'') \<and>
     action e \<in> {''created'', ''updated'', ''moved'', ''deleted''})"

definition entities_of :: "timeline_event \<Rightarrow> window_state \<Rightarrow> (string, entity_snapshot) jsmap" where
  "entities_of e st = (if entity_type e = ''card'' then ws_cards st else ws_columns st)"

definition set_entities :: "timeline_event \<Rightarrow> (string, entity_snapshot) jsmap \<Rightarrow> window_state \<Rightarrow> window_state" where
  "set_entities e m st = (if entity_type e = ''card'' then st\<lparr>ws_cards := m\<rparr> else st\<lparr>ws_columns := m\<rparr>)"

text \<open>The snapshot before the event contradicts the event or the state replayed so far.\<close>

definition conflicting :: "timeline_event \<Rightarrow> entity_snapshot option \<Rightarrow> bool" where
  "conflicting e previous = (case before_state e of None \<Rightarrow> False | Some before \<Rightarrow>
     (map_of (snapshot_fields before) ''id'' \<noteq> None \<and>
      map_of (snapshot_fields before) ''id'' \<noteq> Some (JStr (entity_id e))) \<or>
     (case previous of None \<Rightarrow> False | Some prev \<Rightarrow>
        list_ex (\<lambda>(k, v). case map_of (snapshot_fields prev) k of
                   Some pv \<Rightarrow> \<not> sameEvidence pv v | None \<Rightarrow> False) (snapshot_fields before)))"

definition complete_after :: "timeline_event \<Rightarrow> bool" where
  "complete_after e = (case after_state e of None \<Rightarrow> False | Some s \<Rightarrow>
     map_of (snapshot_fields s) ''id'' = Some (JStr (entity_id e)) \<and>
     list_all (\<lambda>f. map_of (snapshot_fields s) f \<noteq> None)
       (if entity_type e = ''card'' then card_fields else column_fields))"

definition in_column :: "string \<Rightarrow> entity_snapshot \<Rightarrow> bool" where
  "in_column cid s = (map_of (snapshot_fields s) ''column_id'' = Some (JStr cid))"

definition window_step :: "timeline_event \<Rightarrow> window_state \<Rightarrow> window_state" where
  "window_step e st =
     (if \<not> window_event e then st
      else let previous = jm_get (entities_of e st) (entity_id e);
               st1 = (if conflicting e previous then st\<lparr>ws_partial := True\<rparr> else st);
               removed = set_entities e (jm_delete (entity_id e) (entities_of e st1)) st1
           in if action e = ''deleted'' then
                (if entity_type e = ''column''
                 then removed\<lparr>ws_cards := filter (\<lambda>(_, s). \<not> in_column (entity_id e) s) (ws_cards removed)\<rparr>
                 else removed)
              else if \<not> complete_after e then removed\<lparr>ws_partial := True\<rparr>
              else set_entities e (jm_set (entity_id e) (the (after_state e)) (entities_of e st1)) st1)"

definition anchor_state :: "history_anchor \<Rightarrow> window_state" where
  "anchor_state anchor =
     \<lparr>ws_columns = jm_from cl_id ColumnSnap (bl_columns (ha_state anchor)) [],
      ws_cards = jm_from cs_id CardSnap (bl_cards (ha_state anchor)) [],
      ws_partial = (ha_quality anchor = ''partial'')\<rparr>"

definition window_state_at :: "history_anchor \<Rightarrow> timeline_event list \<Rightarrow> int \<Rightarrow> window_state" where
  "window_state_at anchor events frameIndex =
     fold window_step (take (nat (max 0 (frameIndex + 1))) events) (anchor_state anchor)"

definition window_unknown :: column_snapshot where
  "window_unknown = \<lparr>cl_id = UNKNOWN_COLUMN_ID, cl_name = [], cl_column_type = None, cl_position = PInf\<rparr>"

fun push_into :: "string option \<Rightarrow> frame_card \<Rightarrow> frame_column list \<Rightarrow> frame_column list" where
  "push_into i fc [] = []"
| "push_into i fc (col # cols) =
     (if Some (cl_id (fl_snapshot col)) = i then col\<lparr>fl_cards := fl_cards col @ [fc]\<rparr> # cols
      else col # push_into i fc cols)"

definition place_card :: "entity_snapshot \<Rightarrow> frame_column list \<Rightarrow> frame_column list" where
  "place_card s cols =
     (let fc = modern (as_card s); cid = snap_str s ''column_id'' in
      if list_ex (\<lambda>col. Some (cl_id (fl_snapshot col)) = cid) cols then push_into cid fc cols
      else if list_ex (\<lambda>col. cl_id (fl_snapshot col) = UNKNOWN_COLUMN_ID) cols
        then push_into (Some UNKNOWN_COLUMN_ID) fc cols
      else cols @ [\<lparr>fl_snapshot = window_unknown, fl_cards = [fc]\<rparr>])"

definition window_cmp :: "(string \<Rightarrow> string \<Rightarrow> jsnum) \<Rightarrow> ('a \<Rightarrow> jsnum) \<Rightarrow> ('a \<Rightarrow> string) \<Rightarrow> 'a \<Rightarrow> 'a \<Rightarrow> jsnum" where
  "window_cmp localeCompare pos ident a b = js_or (js_minus (pos a) (pos b)) (localeCompare (ident a) (ident b))"

definition window_frame :: "(string \<Rightarrow> string \<Rightarrow> jsnum) \<Rightarrow> window_state \<Rightarrow> board_frame" where
  "window_frame localeCompare st =
     (let cols = map (\<lambda>s. \<lparr>fl_snapshot = as_column s, fl_cards = []\<rparr>) (jm_values (ws_columns st));
          placed = fold place_card (jm_values (ws_cards st)) cols;
          sorted = js_sort (window_cmp localeCompare (cl_position \<circ> fl_snapshot) (cl_id \<circ> fl_snapshot)) placed
      in \<lparr>fr_columns = map (\<lambda>col. col\<lparr>fl_cards :=
            js_sort (window_cmp localeCompare (cs_position \<circ> fc_snapshot) (cs_id \<circ> fc_snapshot)) (fl_cards col)\<rparr>) sorted,
          fr_partial = ws_partial st\<rparr>)"

definition reconstructWindowState :: "(string \<Rightarrow> string \<Rightarrow> jsnum) \<Rightarrow> history_anchor \<Rightarrow> timeline_event list \<Rightarrow> int \<Rightarrow> board_frame" where
  "reconstructWindowState localeCompare anchor events frameIndex =
     window_frame localeCompare (window_state_at anchor events frameIndex)"

section \<open>The invariant of the window state\<close>

definition snaps_keyed :: "(string, entity_snapshot) jsmap \<Rightarrow> bool" where
  "snaps_keyed m = (jm_ok m \<and> jm_all (\<lambda>k s. snap_str s ''id'' = Some k) m)"

definition window_ok :: "window_state \<Rightarrow> bool" where
  "window_ok st = (snaps_keyed (ws_columns st) \<and> snaps_keyed (ws_cards st))"

lemma complete_after_id: "complete_after e \<Longrightarrow> snap_str (the (after_state e)) ''id'' = Some (entity_id e)"
  by (auto simp: complete_after_def snap_str_def split: option.splits)

lemma snaps_keyed_set [intro]: "snaps_keyed m \<Longrightarrow> snap_str s ''id'' = Some k \<Longrightarrow> snaps_keyed (jm_set k s m)"
  by (simp add: snaps_keyed_def)

lemma snaps_keyed_delete [intro]: "snaps_keyed m \<Longrightarrow> snaps_keyed (jm_delete k m)"
  by (simp add: snaps_keyed_def)

lemma snaps_keyed_filter [intro]: "snaps_keyed m \<Longrightarrow> snaps_keyed (filter P m)"
  by (auto simp: snaps_keyed_def jm_ok_def distinct_map_filter jm_all_def list_all_iff)

lemma snaps_keyed_Nil [simp]: "snaps_keyed []"
  by (simp add: snaps_keyed_def)

lemma snaps_keyed_mem: "snaps_keyed m \<Longrightarrow> (k, s) \<in> set m \<Longrightarrow> snap_str s ''id'' = Some k"
  unfolding snaps_keyed_def by (elim conjE, drule (1) jm_all_mem)

lemma snaps_keyed_from:
  "snaps_keyed m \<Longrightarrow> (\<And>x. snap_str (val x) ''id'' = Some (key x)) \<Longrightarrow> snaps_keyed (jm_from key val xs m)"
  unfolding jm_from_def by (rule fold_invariant [where P = snaps_keyed]) auto

lemma anchor_state_ok: "window_ok (anchor_state a)"
  by (simp add: window_ok_def anchor_state_def snaps_keyed_from)

lemma set_entities_ok:
  "window_ok st \<Longrightarrow> snaps_keyed m \<Longrightarrow> window_ok (set_entities e m st)"
  by (simp add: window_ok_def set_entities_def)

lemma entities_of_ok: "window_ok st \<Longrightarrow> snaps_keyed (entities_of e st)"
  by (simp add: window_ok_def entities_of_def)

lemma window_step_ok: "window_ok st \<Longrightarrow> window_ok (window_step e st)"
proof -
  assume ok: "window_ok st"
  let ?st1 = "if conflicting e (jm_get (entities_of e st) (entity_id e)) then st\<lparr>ws_partial := True\<rparr> else st"
  have ok1: "window_ok ?st1" using ok by (simp add: window_ok_def)
  have removed: "window_ok (set_entities e (jm_delete (entity_id e) (entities_of e ?st1)) ?st1)"
    using ok1 by (intro set_entities_ok snaps_keyed_delete entities_of_ok)
  have stored: "complete_after e \<Longrightarrow> window_ok (set_entities e (jm_set (entity_id e) (the (after_state e)) (entities_of e ?st1)) ?st1)"
    using ok1 by (intro set_entities_ok snaps_keyed_set entities_of_ok complete_after_id)
  show ?thesis
    using ok removed stored unfolding window_step_def Let_def
    by (auto simp: window_ok_def)
qed

lemma window_state_at_ok: "window_ok (window_state_at a events i)"
  unfolding window_state_at_def
  by (rule fold_invariant [where P = window_ok]) (auto simp: anchor_state_ok window_step_ok)


section \<open>Placing the cards\<close>

abbreviation col_ids :: "frame_column list \<Rightarrow> string list" where
  "col_ids cols \<equiv> map (cl_id \<circ> fl_snapshot) cols"

lemma push_into_ids [simp]: "col_ids (push_into i fc cols) = col_ids cols"
  by (induction i fc cols rule: push_into.induct) auto

lemma push_into_mset:
  "list_ex (\<lambda>col. Some (cl_id (fl_snapshot col)) = i) cols \<Longrightarrow>
     mset (concat (map fl_cards (push_into i fc cols))) = add_mset fc (mset (concat (map fl_cards cols)))"
  by (induction i fc cols rule: push_into.induct) auto

lemma place_card_mset:
  "mset (concat (map fl_cards (place_card s cols))) = add_mset (modern (as_card s)) (mset (concat (map fl_cards cols)))"
  by (auto simp: place_card_def Let_def push_into_mset)

lemma place_cards_mset:
  "mset (concat (map fl_cards (fold place_card ss cols))) =
     mset (map (modern \<circ> as_card) ss) + mset (concat (map fl_cards cols))"
  by (induction ss arbitrary: cols) (auto simp: place_card_mset)

lemma place_card_distinct: "distinct (col_ids cols) \<Longrightarrow> distinct (col_ids (place_card s cols))"
  by (auto simp: place_card_def Let_def window_unknown_def list_ex_iff)

lemma place_cards_distinct: "distinct (col_ids cols) \<Longrightarrow> distinct (col_ids (fold place_card ss cols))"
  by (induction ss arbitrary: cols) (auto simp: place_card_distinct)

definition located :: "frame_column \<Rightarrow> bool" where
  "located col = (\<forall>fc\<in>set (fl_cards col). cs_column_id (fc_snapshot fc) = Some (cl_id (fl_snapshot col)) \<or>
     cl_id (fl_snapshot col) = UNKNOWN_COLUMN_ID)"

lemma push_into_located:
  "list_all located cols \<Longrightarrow> i = cs_column_id (fc_snapshot fc) \<or> i = Some UNKNOWN_COLUMN_ID \<Longrightarrow>
     list_all located (push_into i fc cols)"
  by (induction i fc cols rule: push_into.induct) (auto simp: located_def)

lemma place_card_located: "list_all located cols \<Longrightarrow> list_all located (place_card s cols)"
  by (auto simp: place_card_def Let_def push_into_located as_card_column)
    (simp add: located_def window_unknown_def)

lemma place_cards_located: "list_all located cols \<Longrightarrow> list_all located (fold place_card ss cols)"
  by (induction ss arbitrary: cols) (auto simp: place_card_located)

abbreviation bare_column :: "entity_snapshot \<Rightarrow> frame_column" where
  "bare_column s \<equiv> \<lparr>fl_snapshot = as_column s, fl_cards = []\<rparr>"

lemma snaps_keyed_cards: "snaps_keyed m \<Longrightarrow> map (cs_id \<circ> as_card) (jm_values m) = map fst m"
  by (auto simp: jm_values_def intro: as_card_id [OF snaps_keyed_mem])

lemma snaps_keyed_columns: "snaps_keyed m \<Longrightarrow> map (cl_id \<circ> as_column) (jm_values m) = map fst m"
  by (auto simp: jm_values_def intro: as_column_id [OF snaps_keyed_mem])

lemma window_frame_columns:
  "mset (col_ids (fr_columns (window_frame lc st))) =
     mset (col_ids (fold place_card (jm_values (ws_cards st)) (map bare_column (jm_values (ws_columns st)))))"
  by (simp add: window_frame_def Let_def comp_def)

lemma window_frame_cards:
  "mset (frame_cards (window_frame lc st)) = mset (map (modern \<circ> as_card) (jm_values (ws_cards st)))"
proof -
  let ?placed = "fold place_card (jm_values (ws_cards st)) (map bare_column (jm_values (ws_columns st)))"
  have "mset (frame_cards (window_frame lc st)) = mset (concat (map fl_cards ?placed))"
    unfolding frame_cards_def window_frame_def Let_def
    by (simp add: comp_def)
      (metis (no_types, lifting) mset_concat_cong mset_concat_perm mset_js_sort)
  then show ?thesis by (simp add: place_cards_mset comp_def)
qed

section \<open>Properties\<close>

definition window_frame_ok :: "board_frame \<Rightarrow> bool" where
  "window_frame_ok fr =
     (distinct (map (cs_id \<circ> fc_snapshot) (frame_cards fr)) \<and> distinct (col_ids (fr_columns fr)) \<and>
      list_all located (fr_columns fr))"

lemma window_frame_wf: "window_ok st \<Longrightarrow> window_frame_ok (window_frame lc st)"
proof -
  assume ok: "window_ok st"
  let ?cols = "map bare_column (jm_values (ws_columns st))"
  have "map (cs_id \<circ> fc_snapshot) (map (modern \<circ> as_card) (jm_values (ws_cards st))) = map fst (ws_cards st)"
    using ok snaps_keyed_cards [of "ws_cards st"] by (simp add: window_ok_def comp_def)
  then have "distinct (map (cs_id \<circ> fc_snapshot) (map (modern \<circ> as_card) (jm_values (ws_cards st))))"
    using ok by (simp only: window_ok_def snaps_keyed_def jm_ok_def)
  then have cards: "distinct (map (cs_id \<circ> fc_snapshot) (frame_cards (window_frame lc st)))"
    using distinct_map_mset [OF window_frame_cards] by blast
  have "col_ids ?cols = map fst (ws_columns st)"
    using ok snaps_keyed_columns [of "ws_columns st"] by (simp add: window_ok_def comp_def)
  then have "distinct (col_ids ?cols)" using ok by (simp only: window_ok_def snaps_keyed_def jm_ok_def)
  then have "distinct (col_ids (fr_columns (window_frame lc st)))"
    using mset_eq_imp_distinct_iff [OF window_frame_columns] place_cards_distinct by blast
  moreover have "list_all located (fold place_card (jm_values (ws_cards st)) ?cols)"
    by (rule place_cards_located) (simp add: list_all_iff located_def)
  then have "list_all located (fr_columns (window_frame lc st))"
    by (simp add: window_frame_def Let_def list_all_iff located_def)
  ultimately show ?thesis using cards by (simp add: window_frame_ok_def)
qed

text \<open>
  Whatever the anchor, the events and the collation, a window frame shows every card of the
  replayed state exactly once, in the column it names or in the holding column, and no column
  twice.
\<close>

lemma window_frame_wellformed:
  "window_frame_ok (reconstructWindowState lc anchor events i) \<and>
   mset (frame_cards (reconstructWindowState lc anchor events i)) =
     mset (map (modern \<circ> as_card) (jm_values (ws_cards (window_state_at anchor events i))))"
  by (simp only: reconstructWindowState_def window_frame_wf window_state_at_ok window_frame_cards)

lemma set_entities_partial [simp]: "ws_partial (set_entities e m st) = ws_partial st"
  by (simp add: set_entities_def)

lemma window_step_partial:
  "ws_partial (window_step e st) =
     (ws_partial st \<or> window_event e \<and> (conflicting e (jm_get (entities_of e st) (entity_id e)) \<or>
        action e \<noteq> ''deleted'' \<and> \<not> complete_after e))"
  by (auto simp: window_step_def Let_def)

lemma window_fold_partial:
  "\<not> ws_partial (fold window_step es st) \<Longrightarrow>
     \<not> ws_partial st \<and> (\<forall>e\<in>set es. window_event e \<and> action e \<noteq> ''deleted'' \<longrightarrow> complete_after e)"
proof (induction es arbitrary: st)
  case (Cons e es)
  then have "\<not> ws_partial (window_step e st) \<and>
      (\<forall>e\<in>set es. window_event e \<and> action e \<noteq> ''deleted'' \<longrightarrow> complete_after e)" by simp
  then show ?case by (auto simp: window_step_partial)
qed simp

text \<open>
  A frame that is not marked partial rests on complete evidence: its anchor is not partial,
  and every create, update and move replayed into it carried a full snapshot of the entity it
  names.
\<close>

lemma window_not_partial_complete:
  assumes "\<not> fr_partial (reconstructWindowState lc anchor events (int i))"
  shows "ha_quality anchor \<noteq> ''partial'' \<and>
    (\<forall>e\<in>set (take (Suc i) events). window_event e \<and> action e \<noteq> ''deleted'' \<longrightarrow> complete_after e)"
proof -
  have "nat (max 0 (int i + 1)) = Suc i" by simp
  then have "\<not> ws_partial (fold window_step (take (Suc i) events) (anchor_state anchor))"
    using assms by (simp add: reconstructWindowState_def window_frame_def Let_def window_state_at_def)
  from window_fold_partial [OF this] show ?thesis by (simp add: anchor_state_def)
qed

definition sample_anchor :: history_anchor where
  "sample_anchor = \<lparr>ha_state = sample_baseline, ha_quality = ''reconstructed''\<rparr>"

lemma place_card_ids: "set (col_ids (place_card s cols)) \<subseteq> insert UNKNOWN_COLUMN_ID (set (col_ids cols))"
proof -
  have "col_ids (place_card s cols) = col_ids cols \<or> col_ids (place_card s cols) = col_ids cols @ [UNKNOWN_COLUMN_ID]"
    by (simp add: place_card_def Let_def window_unknown_def)
  then show ?thesis by (elim disjE) (simp_all only: set_append, auto)
qed

lemma place_cards_ids: "set (col_ids (fold place_card ss cols)) \<subseteq> insert UNKNOWN_COLUMN_ID (set (col_ids cols))"
proof (induction ss arbitrary: cols)
  case (Cons s ss)
  show ?case using Cons [of "place_card s cols"] place_card_ids [of s cols] by auto
qed auto

lemma window_frame_ids:
  assumes "window_ok st"
  shows "set (col_ids (fr_columns (window_frame lc st))) \<subseteq> insert UNKNOWN_COLUMN_ID (fst ` set (ws_columns st))"
proof -
  have "col_ids (map bare_column (jm_values (ws_columns st))) = map fst (ws_columns st)"
    using assms snaps_keyed_columns [of "ws_columns st"] by (simp add: window_ok_def comp_def)
  then show ?thesis
    using place_cards_ids [of "jm_values (ws_cards st)" "map bare_column (jm_values (ws_columns st))"]
      mset_eq_setD [OF window_frame_columns [of lc st]] by (metis list.set_map)
qed

text \<open>
  Replaying the deletion of a column removes the column and every card in it: neither a
  column with its id nor a card that names it is left on the frame.
\<close>

lemma window_column_deleted:
  assumes "i < length events" and "entity_type (events ! i) = ''column''" and "action (events ! i) = ''deleted''"
    and "entity_id (events ! i) \<noteq> UNKNOWN_COLUMN_ID"
  shows "entity_id (events ! i) \<notin> set (col_ids (fr_columns (reconstructWindowState lc anchor events (int i)))) \<and>
     (\<forall>fc\<in>set (frame_cards (reconstructWindowState lc anchor events (int i))).
        cs_column_id (fc_snapshot fc) \<noteq> Some (entity_id (events ! i)))"
proof -
  let ?fr = "reconstructWindowState lc anchor events (int i)"
  let ?e = "events ! i"
  let ?st = "window_state_at anchor events (int i)"
  let ?pre = "fold window_step (take i events) (anchor_state anchor)"
  have "nat (max 0 (int i + 1)) = Suc i" by simp
  then have st: "?st = window_step ?e ?pre"
    using assms(1) by (simp add: window_state_at_def take_Suc_conv_app_nth)
  have "window_event ?e" using assms by (simp add: window_event_def)
  then have cols: "\<not> jm_has (ws_columns ?st) (entity_id ?e)"
    and cards: "\<forall>p\<in>set (ws_cards ?st). \<not> in_column (entity_id ?e) (snd p)"
    using assms(2,3) by (auto simp: st window_step_def Let_def set_entities_def entities_of_def)
  have "entity_id ?e \<notin> set (col_ids (fr_columns ?fr))"
    using window_frame_ids [OF window_state_at_ok, of lc anchor events "int i"] cols assms(4)
    by (auto simp: reconstructWindowState_def jm_has_iff)
  moreover have "\<forall>fc\<in>set (frame_cards ?fr). cs_column_id (fc_snapshot fc) \<noteq> Some (entity_id ?e)"
  proof
    fix fc assume "fc \<in> set (frame_cards ?fr)"
    then obtain s where "s \<in> snd ` set (ws_cards ?st)" and fc: "fc = modern (as_card s)"
      using mset_eq_setD [OF window_frame_cards [of lc ?st]]
      by (auto simp: reconstructWindowState_def jm_values_def)
    then have "\<not> in_column (entity_id ?e) s" using cards by auto
    then have "snap_str s ''column_id'' \<noteq> Some (entity_id ?e)"
      by (auto simp: in_column_def snap_str_def elim: jstr.elims)
    then show "cs_column_id (fc_snapshot fc) \<noteq> Some (entity_id ?e)"
      by (simp add: fc as_card_column)
  qed
  ultimately show ?thesis by blast
qed

end
