(* ===== verification/Display_Columns.thy ===== *)
theory Display_Columns
  imports Replay_Engine
begin

text \<open>
  The lanes of the replay (\<open>features/timeline/utils/display-columns.ts\<close>): one lane per column
  the board ever had, so that only cards move while the player scrubs.
\<close>

definition remember_column :: "timeline_event \<Rightarrow> (string, column_snapshot) jsmap \<Rightarrow> (string, column_snapshot) jsmap" where
  "remember_column e known =
     (if entity_type e \<noteq> ''column'' then known
      else case (case after_state e of Some s \<Rightarrow> Some s | None \<Rightarrow> before_state e) of
             Some s \<Rightarrow> (case snap_str s ''id'' of Some i \<Rightarrow> jm_set i (as_column s) known | None \<Rightarrow> known)
           | None \<Rightarrow> known)"

definition known_columns :: "timeline_event list \<Rightarrow> board_baseline option \<Rightarrow> (string, column_snapshot) jsmap" where
  "known_columns events baseline =
     fold remember_column events
       (jm_from cl_id (\<lambda>c. c) (case baseline of Some b \<Rightarrow> bl_columns b | None \<Rightarrow> []) [])"

definition needs_unknown :: "board_frame \<Rightarrow> bool" where
  "needs_unknown fr = list_ex (\<lambda>col. cl_id (fl_snapshot col) = UNKNOWN_COLUMN_ID \<and> fl_cards col \<noteq> []) (fr_columns fr)"

definition buildDisplayColumns :: "timeline_event list \<Rightarrow> board_frame \<Rightarrow> board_baseline option \<Rightarrow> frame_column list" where
  "buildDisplayColumns events fr baseline =
     (let known = known_columns events baseline;
          cardsByColumn = jm_from (cl_id \<circ> fl_snapshot) fl_cards (fr_columns fr) [];
          lanes = jm_values known @ (if needs_unknown fr \<and> \<not> jm_has known UNKNOWN_COLUMN_ID then [UNKNOWN_COLUMN] else [])
      in map (\<lambda>snapshot. \<lparr>fl_snapshot = snapshot,
             fl_cards = (case jm_get cardsByColumn (cl_id snapshot) of Some fcs \<Rightarrow> fcs | None \<Rightarrow> [])\<rparr>)
           (js_sort (pos_id_cmp cl_position cl_id) lanes))"


section \<open>The lanes cover every frame\<close>

definition columns_within :: "(string, column_snapshot) jsmap \<Rightarrow> (string, column_snapshot) jsmap \<Rightarrow> bool" where
  "columns_within m known = (fst ` set m \<subseteq> fst ` set known)"

lemma jm_from_keys: "fst ` set (jm_from key val xs m) = fst ` set m \<union> key ` set xs"
  unfolding jm_from_def by (induction xs arbitrary: m) (auto simp: jm_set_keys)

lemma remember_column_keys: "fst ` set known \<subseteq> fst ` set (remember_column e known)"
  by (auto simp: remember_column_def jm_set_keys split: option.splits)

lemma remember_columns_keys: "fst ` set known \<subseteq> fst ` set (fold remember_column es known)"
proof (induction es arbitrary: known)
  case (Cons e es)
  have "fst ` set known \<subseteq> fst ` set (remember_column e known)" by (rule remember_column_keys)
  also have "\<dots> \<subseteq> fst ` set (fold remember_column es (remember_column e known))" by (rule Cons)
  finally show ?case by simp
qed simp

lemma known_baseline: "baseline = Some b \<Longrightarrow> cl_id ` set (bl_columns b) \<subseteq> fst ` set (known_columns events baseline)"
  unfolding known_columns_def using remember_columns_keys by (fastforce simp: jm_from_keys)

lemma snap_column_id: "column_ok i (as_column s) \<Longrightarrow> i \<noteq> [] \<Longrightarrow> snap_str s ''id'' = Some i"
  by (cases s) (auto simp: column_ok_def snap_str_def text_or_empty_def split: option.splits)

lemma known_event:
  assumes "e \<in> set events" and "entity_type e = ''column''" and "after_state e = Some s"
    and "snap_str s ''id'' = Some i"
  shows "i \<in> fst ` set (known_columns events baseline)"
proof -
  obtain es1 es2 where "events = es1 @ e # es2" using assms(1) by (meson split_list)
  then have "known_columns events baseline =
      fold remember_column es2 (jm_set i (as_column s) (fold remember_column es1
        (jm_from cl_id (\<lambda>c. c) (case baseline of Some b \<Rightarrow> bl_columns b | None \<Rightarrow> []) [])))"
    using assms(2-4) by (simp add: known_columns_def remember_column_def)
  then show ?thesis using remember_columns_keys by (fastforce simp: jm_set_keys)
qed

definition lanes_keyed :: "(string, column_snapshot) jsmap \<Rightarrow> bool" where
  "lanes_keyed m = (jm_ok m \<and> jm_all (\<lambda>k c. cl_id c = k) m)"

lemma remember_column_keyed: "lanes_keyed m \<Longrightarrow> lanes_keyed (remember_column e m)"
  by (auto simp: remember_column_def lanes_keyed_def as_column_id split: option.splits)

lemma known_keyed: "lanes_keyed (known_columns events b)"
proof -
  have "lanes_keyed (jm_from cl_id (\<lambda>c. c) cs [])" for cs
    unfolding jm_from_def
    by (rule fold_invariant [where P = lanes_keyed]) (auto simp: lanes_keyed_def)
  then show ?thesis
    unfolding known_columns_def by (intro fold_invariant [where P = lanes_keyed] remember_column_keyed)
qed

lemma lanes_keyed_ids: "lanes_keyed m \<Longrightarrow> map cl_id (jm_values m) = map fst m"
  by (auto simp: lanes_keyed_def jm_all_def list_all_iff jm_values_def)

text \<open>Every column of a reconstructed frame is known to the lanes.\<close>

definition named_ids :: "timeline_event list \<Rightarrow> bool" where
  "named_ids events = list_all (\<lambda>e. entity_id e \<noteq> []) events"

lemma seed_columns_known:
  "fst ` set (sd_columns (seed events b)) \<union> fst ` set (sd_deferredColumns (seed events b)) \<subseteq>
     fst ` set (known_columns events b)"
proof (cases b)
  case None
  then show ?thesis by (simp add: seed_def empty_seed_def)
next
  case (Some b')
  have cards: "sd_columns (fold (seed_card events) cs sd) = sd_columns sd \<and>
      sd_deferredColumns (fold (seed_card events) cs sd) = sd_deferredColumns sd" for cs sd
    by (induction cs arbitrary: sd) (auto simp: seed_card_def Let_def)
  have cols: "fst ` set (sd_columns (fold (seed_column events) cs sd)) \<union>
        fst ` set (sd_deferredColumns (fold (seed_column events) cs sd)) =
      fst ` set (sd_columns sd) \<union> fst ` set (sd_deferredColumns sd) \<union> cl_id ` set cs" for cs sd
    by (induction cs arbitrary: sd) (auto simp: seed_column_def jm_set_keys)
  show ?thesis
    using known_baseline [OF Some, of events] cols [of "bl_columns b'" empty_seed]
    by (simp add: seed_def Some cards empty_seed_def)
qed

lemma folded_columns_known:
  assumes "\<forall>e\<in>set events. wf_event e" and "named_ids events"
  shows "fst ` set (rs_columns (folded_state events l (seed events b))) \<subseteq> fst ` set (known_columns events b)"
  unfolding folded_state_def
proof (rule fold_invariant)
  let ?K = "fst ` set (known_columns events b)"
  show "fst ` set (rs_columns \<lparr>rs_cards = sd_cards (seed events b), rs_columns = sd_columns (seed events b), rs_partial = False\<rparr>) \<subseteq> ?K"
    using seed_columns_known [of events b] by simp
  fix e and st :: replay_state assume e: "e \<in> set (take (nat (l + 1)) events)" and st: "fst ` set (rs_columns st) \<subseteq> ?K"
  have ev: "e \<in> set events" using e by (rule in_set_takeD)
  have new: "entity_id e \<in> ?K" if "entity_type e = ''column''" "after_state e = Some s" for s
  proof -
    have "snap_str s ''id'' = Some (entity_id e)"
      using wf_event_column [of e s] that assms ev by (intro snap_column_id) (auto simp: named_ids_def list_all_iff)
    then show ?thesis using known_event [OF ev that] by simp
  qed
  have "entity_id e \<in> ?K" if "jm_get (sd_deferredColumns (seed events b)) (entity_id e) = Some c" for c
    using seed_columns_known [of events b] that by (force dest: map_of_SomeD)
  then show "fst ` set (rs_columns (fold_event (seed events b) e st)) \<subseteq> ?K"
    using st new
    by (auto simp: fold_event_def fold_card_def fold_column_def legacy_move_def legacy_create_def Let_def
        jm_set_keys jm_delete_def split: option.splits if_splits)
qed

lemma lane_cards_mset:
  assumes "columns_keyed columns"
  shows "mset (case jm_get (jm_from (cl_id \<circ> fl_snapshot) fl_cards (fr_columns (buildFrame cards columns p)) []) k of
            Some fcs \<Rightarrow> fcs | None \<Rightarrow> []) = mset (filter (\<lambda>fc. resolve_column columns fc = k) (jm_values cards))"
proof -
  let ?cols = "fr_columns (buildFrame cards columns p)"
  show ?thesis
  proof (cases "find (\<lambda>x. (cl_id \<circ> fl_snapshot) x = k) (rev ?cols)")
    case None
    then have "k \<notin> set (map (cl_id \<circ> fl_snapshot) ?cols)" by (auto simp: find_None_iff)
    then have "\<forall>fc\<in>set (jm_values cards). resolve_column columns fc \<noteq> k"
      using buildFrame_covers [OF assms, of _ cards p] by metis
    then have "filter (\<lambda>fc. resolve_column columns fc = k) (jm_values cards) = []"
      by (simp add: filter_empty_conv)
    then show ?thesis using None by (simp add: jm_from_get)
  next
    case (Some col)
    then have "col \<in> set ?cols" and "cl_id (fl_snapshot col) = k"
      using find_SomeD [OF Some] by simp_all
    then show ?thesis using Some by (simp add: jm_from_get buildFrame_column_cards)
  qed
qed

lemma displayed_mset:
  assumes cols: "columns_keyed columns" and known: "fst ` set columns \<subseteq> fst ` set (known_columns events b)"
    and fr: "fr = buildFrame cards columns p"
  shows "mset (concat (map fl_cards (buildDisplayColumns events fr b))) = mset (frame_cards fr)"
proof -
  let ?known = "known_columns events b"
  let ?lanes = "jm_values ?known @ (if needs_unknown fr \<and> \<not> jm_has ?known UNKNOWN_COLUMN_ID then [UNKNOWN_COLUMN] else [])"
  let ?grp = "\<lambda>k. filter (\<lambda>fc. resolve_column columns fc = k) (jm_values cards)"
  let ?get = "\<lambda>k. case jm_get (jm_from (cl_id \<circ> fl_snapshot) fl_cards (fr_columns fr) []) k of Some fcs \<Rightarrow> fcs | None \<Rightarrow> []"
  have ids: "map cl_id (jm_values ?known) = map fst ?known" by (rule lanes_keyed_ids [OF known_keyed])
  have dist: "distinct (map cl_id ?lanes)"
    using known_keyed [of events b] unfolding map_append ids by (auto simp: lanes_keyed_def jm_ok_def jm_has_iff)
  have cover: "\<forall>fc\<in>set (jm_values cards). resolve_column columns fc \<in> set (map cl_id ?lanes)"
  proof
    fix fc assume fc: "fc \<in> set (jm_values cards)"
    show "resolve_column columns fc \<in> set (map cl_id ?lanes)"
    proof (cases "resolve_column columns fc \<in> fst ` set columns")
      case True
      then show ?thesis unfolding map_append ids using known by auto
    next
      case False
      then have unk: "resolve_column columns fc = UNKNOWN_COLUMN_ID"
        using resolve_in [of columns fc] by auto
      obtain col where col: "col \<in> set (fr_columns fr)" "cl_id (fl_snapshot col) = UNKNOWN_COLUMN_ID"
        using buildFrame_covers [OF cols fc, of p] unk by (auto simp: fr)
      then have "fc \<in> set (fl_cards col)" using fc unk fr by (simp add: buildFrame_column_cards)
      then have "needs_unknown fr" using col by (auto simp: needs_unknown_def list_ex_iff)
      then show ?thesis unfolding map_append ids using unk by (auto simp: jm_has_iff)
    qed
  qed
  have "mset (concat (map fl_cards (buildDisplayColumns events fr b))) =
        mset (concat (map (?get \<circ> cl_id) (js_sort (pos_id_cmp cl_position cl_id) ?lanes)))"
    by (simp add: buildDisplayColumns_def Let_def comp_def)
  also have "\<dots> = mset (concat (map (?get \<circ> cl_id) ?lanes))"
    by (rule mset_concat_perm) (rule mset_js_sort)
  also have "\<dots> = mset (concat (map (?grp \<circ> cl_id) ?lanes))"
    by (rule mset_concat_cong) (simp add: fr lane_cards_mset [OF cols])
  also have "\<dots> = mset (concat (map ?grp (map cl_id ?lanes)))" by (simp only: map_map)
  also have "\<dots> = mset (jm_values cards)" using dist cover by (rule mset_group)
  also have "\<dots> = mset (frame_cards fr)" by (simp add: fr buildFrame_mset [OF cols])
  finally show ?thesis .
qed


section \<open>Properties\<close>

text \<open>
  The lanes show every card of a reconstructed frame, and nothing else: the cards of all
  lanes are the cards of the frame.
\<close>

lemma display_shows_frame:
  assumes "\<forall>e\<in>set events. wf_event e" and "wf_baseline b" and "named_ids events"
  shows "mset (concat (map fl_cards (buildDisplayColumns events (reconstructState events i b) b))) =
         mset (frame_cards (reconstructState events i b))"
proof (cases "i < 0")
  case True
  then have "reconstructState events i b = \<lparr>fr_columns = [], fr_partial = False\<rparr>"
    by (simp add: reconstructState_def)
  then show ?thesis
    by (simp add: buildDisplayColumns_def Let_def jm_from_def frame_cards_def comp_def)
next
  case False
  have sd: "seed_ok (seed events b)" using assms(1,2) by (rule seed_seed_ok)
  have cols: "columns_keyed (rs_columns (folded_state events (last_index events i) (seed events b)))"
    using folded_state_ok [OF assms(1) sd] by (simp add: replay_ok_def)
  show ?thesis
    using False displayed_mset [OF cols folded_columns_known [OF assms(1,3)]]
    by (simp add: reconstructState_def Let_def)
qed

text \<open>
  The lanes do not depend on the playhead: two frames of a log have the same lanes in the
  same order, up to the holding lane.
\<close>

lemma display_lanes_stable:
  assumes "\<forall>c\<in>set (jm_values (known_columns events b)). cl_position c \<noteq> NaN \<and> cl_id c \<noteq> UNKNOWN_COLUMN_ID"
  shows "filter (\<lambda>c. cl_id c \<noteq> UNKNOWN_COLUMN_ID) (map fl_snapshot (buildDisplayColumns events fr b)) =
         js_sort (pos_id_cmp cl_position cl_id) (jm_values (known_columns events b))"
proof -
  let ?k = "jm_values (known_columns events b)"
  have "filter (\<lambda>c. cl_id c \<noteq> UNKNOWN_COLUMN_ID) ?k = ?k" using assms by (simp add: filter_id_conv)
  then show ?thesis
    using assms by (simp add: buildDisplayColumns_def Let_def comp_def pos_id.sort_filter)
qed

end
