(* ===== verification/Playback.thy ===== *)
theory Playback
  imports JS_Prelude
begin

text \<open>
  The transport of the timeline player: the pure reducer
  (\<open>features/timeline/utils/playback-reducer.ts\<close>) and the hook that drives it from user
  callbacks, an interval timer and changes of the frame count
  (\<open>features/timeline/hooks/use-playback.ts\<close>), as a step relation.
\<close>

record playback_state =
  frameIndex :: int
  playing :: bool
  speed :: rat

datatype playback_action = Play | Pause | Toggle | Step int | Seek int | SetSpeed rat | Tick

definition SPEEDS :: "rat list" where
  "SPEEDS = [1 / 2, 1, 2, 4]"

definition BASE_INTERVAL_MS :: rat where
  "BASE_INTERVAL_MS = 1100"

definition initialPlaybackState :: playback_state where
  "initialPlaybackState = \<lparr>frameIndex = 0, playing = False, speed = 1\<rparr>"

definition isLadderSpeed :: "rat \<Rightarrow> bool" where
  "isLadderSpeed s = (s \<in> set SPEEDS)"

definition last_frame :: "int \<Rightarrow> int" where
  "last_frame frameCount = max 0 (frameCount - 1)"

definition clamp :: "int \<Rightarrow> int \<Rightarrow> int" where
  "clamp frameCount i = min (last_frame frameCount) (max 0 i)"

definition startPlaying :: "int \<Rightarrow> playback_state \<Rightarrow> playback_state" where
  "startPlaying frameCount st = st\<lparr>playing := True,
     frameIndex := (if last_frame frameCount \<le> frameIndex st then 0 else clamp frameCount (frameIndex st))\<rparr>"

fun reducer :: "int \<Rightarrow> playback_state \<Rightarrow> playback_action \<Rightarrow> playback_state" where
  "reducer frameCount st Play = startPlaying frameCount st"
| "reducer frameCount st Pause = st\<lparr>playing := False\<rparr>"
| "reducer frameCount st Toggle = (if playing st then st\<lparr>playing := False\<rparr> else startPlaying frameCount st)"
| "reducer frameCount st (Step delta) =
     st\<lparr>playing := False, frameIndex := clamp frameCount (frameIndex st + delta)\<rparr>"
| "reducer frameCount st (Seek index) = st\<lparr>frameIndex := clamp frameCount index\<rparr>"
| "reducer frameCount st (SetSpeed s) = (if isLadderSpeed s then st\<lparr>speed := s\<rparr> else st)"
| "reducer frameCount st Tick =
     (if \<not> playing st then st
      else if last_frame frameCount < frameIndex st + 1
        then st\<lparr>frameIndex := last_frame frameCount, playing := False\<rparr>
      else st\<lparr>frameIndex := frameIndex st + 1\<rparr>)"

definition nextSpeed :: "rat \<Rightarrow> rat" where
  "nextSpeed s = (let fromIndex = (case js_findIndex (\<lambda>x. x = s) SPEEDS of Some i \<Rightarrow> i | None \<Rightarrow> 0)
     in SPEEDS ! ((fromIndex + 1) mod length SPEEDS))"

text \<open>
  The hook. Its state is the reducer's state, the frame count of the current render and the
  number of \<open>onEnd\<close> calls. The timer callback pauses and reports the end once the playhead is
  on the last frame; otherwise it dispatches \<open>tick\<close>. The timer exists only while playing. A new
  frame count makes a new reducer and re-clamps the playhead with a \<open>seek\<close>.
\<close>

record hook_state =
  hk_count :: int
  hk_state :: playback_state
  hk_ended :: nat

definition dispatch :: "playback_action \<Rightarrow> hook_state \<Rightarrow> hook_state" where
  "dispatch a h = h\<lparr>hk_state := reducer (hk_count h) (hk_state h) a\<rparr>"

definition timer :: "hook_state \<Rightarrow> hook_state" where
  "timer h = (if last_frame (hk_count h) \<le> frameIndex (hk_state h)
     then (dispatch Pause h)\<lparr>hk_ended := Suc (hk_ended h)\<rparr> else dispatch Tick h)"

definition cycleSpeed :: "hook_state \<Rightarrow> hook_state" where
  "cycleSpeed h = dispatch (SetSpeed (nextSpeed (speed (hk_state h)))) h"

definition set_frame_count :: "int \<Rightarrow> hook_state \<Rightarrow> hook_state" where
  "set_frame_count n h = dispatch (Seek (frameIndex (hk_state h))) (h\<lparr>hk_count := n\<rparr>)"

definition hook_init :: "int \<Rightarrow> hook_state" where
  "hook_init n = \<lparr>hk_count = n, hk_state = initialPlaybackState, hk_ended = 0\<rparr>"

inductive hook_step :: "hook_state \<Rightarrow> hook_state \<Rightarrow> bool" where
  user: "a \<in> {Play, Pause, Toggle, Step 1, Step (-1)} \<Longrightarrow> hook_step h (dispatch a h)"
| seek: "hook_step h (dispatch (Seek i) h)"
| cycle: "hook_step h (cycleSpeed h)"
| tick: "playing (hk_state h) \<Longrightarrow> hook_step h (timer h)"
| recount: "hook_step h (set_frame_count n h)"

inductive hook_reachable :: "hook_state \<Rightarrow> bool" where
  init: "hook_reachable (hook_init n)"
| step: "hook_reachable h \<Longrightarrow> hook_step h h' \<Longrightarrow> hook_reachable h'"

inductive_cases hook_stepE: "hook_step h h'"

definition playback_ok :: "int \<Rightarrow> playback_state \<Rightarrow> bool" where
  "playback_ok n st = (0 \<le> frameIndex st \<and> frameIndex st \<le> last_frame n \<and> isLadderSpeed (speed st))"

lemma last_frame_nonneg [simp]: "0 \<le> last_frame n"
  by (simp add: last_frame_def)

lemma clamp_bounds [simp]: "0 \<le> clamp n i" "clamp n i \<le> last_frame n"
  by (auto simp: clamp_def)

lemma clamp_id: "0 \<le> i \<Longrightarrow> i \<le> last_frame n \<Longrightarrow> clamp n i = i"
  by (simp add: clamp_def)

lemma nextSpeed_ladder [simp]: "isLadderSpeed (nextSpeed s)"
  unfolding isLadderSpeed_def nextSpeed_def Let_def by (rule nth_mem) (simp add: SPEEDS_def)

lemma reducer_ok: "playback_ok n st \<Longrightarrow> playback_ok n (reducer n st a)"
  by (cases a) (auto simp: playback_ok_def startPlaying_def)

lemma hook_step_ok: "hook_step h h' \<Longrightarrow> playback_ok (hk_count h) (hk_state h) \<Longrightarrow> playback_ok (hk_count h') (hk_state h')"
proof (induction rule: hook_step.induct)
  case (recount h n)
  then show ?case by (simp add: set_frame_count_def dispatch_def playback_ok_def)
qed (auto simp: dispatch_def timer_def cycleSpeed_def reducer_ok simp del: reducer.simps)

text \<open>The timer alone, as the browser fires it while the player plays.\<close>

fun play_out :: "nat \<Rightarrow> hook_state \<Rightarrow> hook_state" where
  "play_out 0 h = h"
| "play_out (Suc k) h = (if playing (hk_state h) then play_out k (timer h) else h)"

lemma play_out_paused: "\<not> playing (hk_state h) \<Longrightarrow> play_out k h = h"
  by (cases k) auto

lemma timer_mid:
  "playing (hk_state h) \<Longrightarrow> frameIndex (hk_state h) < last_frame (hk_count h) \<Longrightarrow>
     timer h = h\<lparr>hk_state := (hk_state h)\<lparr>frameIndex := frameIndex (hk_state h) + 1\<rparr>\<rparr>"
  by (simp add: timer_def dispatch_def)


section \<open>Properties\<close>

text \<open>
  In every state the player can reach by user actions, timer ticks and changes of the frame
  count, the playhead is on a frame of the log (frame 0 of an empty one) and the speed is one of
  the ladder.
\<close>

lemma playback_reachable_ok: "hook_reachable h \<Longrightarrow> playback_ok (hk_count h) (hk_state h)"
proof (induction rule: hook_reachable.induct)
  case (init n)
  then show ?case
    by (simp add: hook_init_def playback_ok_def initialPlaybackState_def isLadderSpeed_def SPEEDS_def)
next
  case (step h h')
  then show ?case by (blast intro: hook_step_ok)
qed

text \<open>
  Playback ends: left alone, a playing player visits the remaining frames one by one, stops
  on the last frame and reports the end exactly once, after as many timer ticks as frames remain
  and one more.
\<close>

lemma playback_terminates:
  assumes "playing (hk_state h)" and "playback_ok (hk_count h) (hk_state h)"
    and "k > nat (last_frame (hk_count h) - frameIndex (hk_state h))"
  shows "play_out k h = h\<lparr>hk_state := (hk_state h)\<lparr>frameIndex := last_frame (hk_count h), playing := False\<rparr>,
            hk_ended := Suc (hk_ended h)\<rparr>"
  using assms
proof (induction k arbitrary: h)
  case 0
  then show ?case by simp
next
  case (Suc k)
  show ?case
  proof (cases "frameIndex (hk_state h) < last_frame (hk_count h)")
    case True
    let ?h = "timer h"
    have "?h = h\<lparr>hk_state := (hk_state h)\<lparr>frameIndex := frameIndex (hk_state h) + 1\<rparr>\<rparr>"
      using Suc.prems(1) True by (rule timer_mid)
    then show ?thesis using Suc True by (simp add: playback_ok_def)
  next
    case False
    then have "frameIndex (hk_state h) = last_frame (hk_count h)"
      using Suc.prems(2) by (simp add: playback_ok_def)
    then show ?thesis using Suc.prems(1) by (simp add: timer_def dispatch_def play_out_paused)
  qed
qed

lemma nextSpeed_ladder_order:
  "nextSpeed (1 / 2) = 1 \<and> nextSpeed 1 = 2 \<and> nextSpeed 2 = 4 \<and> nextSpeed 4 = 1 / 2"
  by code_simp

end
