(* ===== verification/Card_Analytics.thy ===== *)
theory Card_Analytics
  imports Timeline_Types
begin

text \<open>
  Per-card analytics (\<open>features/timeline/utils/analytics.ts\<close>): the time a card spent in each
  column and who held it for how long, from its events up to an end time. The filter of
  \<open>computeCardAnalytics\<close> keeps only events whose time is a number, so times are integers
  (milliseconds) from there on; an event is paired with its time.
\<close>

record card_holder =
  ch_key :: string
  ch_name :: string
  ch_role :: string
  ch_ms :: int

record card_analytics =
  ca_cardId :: string
  ca_dwellByColumn :: "(string, int) jsmap"
  ca_holders :: "card_holder list"

definition legacy_column :: "timeline_event \<Rightarrow> string option" where
  "legacy_column event = (case changes event of None \<Rightarrow> None | Some kvs \<Rightarrow>
     (case map_of kvs ''column_id'' of Some (JObj entry) \<Rightarrow> jstr (map_of entry ''new'') | _ \<Rightarrow> None))"

definition resolvedColumn :: "timeline_event \<Rightarrow> string option" where
  "resolvedColumn event = (case after_state event of
     Some s \<Rightarrow> (case map_of (snapshot_fields s) ''column_id'' of
                  Some v \<Rightarrow> jstr (Some v) | None \<Rightarrow> legacy_column event)
   | None \<Rightarrow> legacy_column event)"

definition holderKey :: "participant_snapshot \<Rightarrow> string" where
  "holderKey p = (case ps_agent_id p of Some a \<Rightarrow> a | None \<Rightarrow> ps_user_id p)"

definition analytics_events :: "timeline_event list \<Rightarrow> string \<Rightarrow> string \<Rightarrow> (timeline_event \<times> int) list" where
  "analytics_events events cardId endTime = (case date_parse endTime of None \<Rightarrow> [] | Some endMs \<Rightarrow>
     concat (map (\<lambda>e. case date_parse (created_at e) of
        Some t \<Rightarrow> (if entity_type e = ''card'' \<and> entity_id e = cardId \<and> t \<le> endMs then [(e, t)] else [])
      | None \<Rightarrow> []) events))"

record dwell_state =
  dw_column :: "string option"
  dw_start :: int
  dw_deleted :: bool
  dw_dwell :: "(string, int) jsmap"

definition addDwell :: "string \<Rightarrow> int \<Rightarrow> int \<Rightarrow> (string, int) jsmap \<Rightarrow> (string, int) jsmap" where
  "addDwell column from to dwell =
     jm_set column ((case jm_get dwell column of Some d \<Rightarrow> d | None \<Rightarrow> 0) + max 0 (to - from)) dwell"

definition dwell_step :: "timeline_event \<times> int \<Rightarrow> dwell_state \<Rightarrow> dwell_state" where
  "dwell_step et st = (let event = fst et; eventMs = snd et in
     if action event = ''deleted'' then
       (case dw_column st of
          Some c \<Rightarrow> st\<lparr>dw_dwell := addDwell c (dw_start st) eventMs (dw_dwell st), dw_column := None, dw_deleted := True\<rparr>
        | None \<Rightarrow> st\<lparr>dw_deleted := True\<rparr>)
     else case resolvedColumn event of
       None \<Rightarrow> st
     | Some column \<Rightarrow>
         (case dw_column st of
            None \<Rightarrow> st\<lparr>dw_column := Some column, dw_start := eventMs\<rparr>
          | Some c \<Rightarrow>
              (if column \<noteq> c
               then st\<lparr>dw_dwell := addDwell c (dw_start st) eventMs (dw_dwell st), dw_column := Some column, dw_start := eventMs\<rparr>
               else st)))"

definition dwell_init :: dwell_state where
  "dwell_init = \<lparr>dw_column = None, dw_start = 0, dw_deleted = False, dw_dwell = []\<rparr>"

definition dwell_close :: "int \<Rightarrow> dwell_state \<Rightarrow> (string, int) jsmap" where
  "dwell_close endMs st = (case dw_column st of
     Some c \<Rightarrow> (if dw_deleted st then dw_dwell st else addDwell c (dw_start st) endMs (dw_dwell st))
   | None \<Rightarrow> dw_dwell st)"

record holder_state =
  hs_holders :: "(string, card_holder) jsmap"
  hs_active :: "participant_snapshot list"
  hs_start :: "int option"

definition credit :: "int \<Rightarrow> participant_snapshot \<Rightarrow> (string, card_holder) jsmap \<Rightarrow> (string, card_holder) jsmap" where
  "credit sp p holders = (let key = holderKey p in
     jm_set key \<lparr>ch_key = key, ch_name = ps_name p, ch_role = ps_role p,
       ch_ms = (case jm_get holders key of Some h \<Rightarrow> ch_ms h + sp | None \<Rightarrow> sp)\<rparr> holders)"

definition flushSpan :: "int \<Rightarrow> holder_state \<Rightarrow> holder_state" where
  "flushSpan to st = (case hs_start st of None \<Rightarrow> st
     | Some spanStart \<Rightarrow> st\<lparr>hs_holders := fold (credit (max 0 (to - spanStart))) (hs_active st) (hs_holders st)\<rparr>)"

definition holder_step :: "timeline_event \<times> int \<Rightarrow> holder_state \<Rightarrow> holder_state" where
  "holder_step et st = (let event = fst et; eventMs = snd et in
     if action event = ''deleted'' then (flushSpan eventMs st)\<lparr>hs_active := [], hs_start := None\<rparr>
     else case after_state event of
       Some s \<Rightarrow> (flushSpan eventMs st)\<lparr>hs_active := cs_participants (as_card s), hs_start := Some eventMs\<rparr>
     | None \<Rightarrow> (if hs_start st = None \<and> hs_active st \<noteq> [] then st\<lparr>hs_start := Some eventMs\<rparr> else st))"

definition holder_init :: holder_state where
  "holder_init = \<lparr>hs_holders = [], hs_active = [], hs_start = None\<rparr>"

definition holder_cmp :: "card_holder \<Rightarrow> card_holder \<Rightarrow> jsnum" where
  "holder_cmp a b = js_or (js_minus (Fin (of_int (ch_ms b))) (Fin (of_int (ch_ms a)))) (cmp3 (ch_key a) (ch_key b))"

definition computeCardAnalytics :: "timeline_event list \<Rightarrow> string \<Rightarrow> string \<Rightarrow> card_analytics" where
  "computeCardAnalytics events cardId endTime =
     (let ets = analytics_events events cardId endTime in
      if ets = [] then \<lparr>ca_cardId = cardId, ca_dwellByColumn = [], ca_holders = []\<rparr>
      else let endMs = the (date_parse endTime) in
        \<lparr>ca_cardId = cardId,
         ca_dwellByColumn = dwell_close endMs (fold dwell_step ets dwell_init),
         ca_holders = js_sort holder_cmp (jm_values (hs_holders (flushSpan endMs (fold holder_step ets holder_init))))\<rparr>)"

section \<open>Dwell times\<close>

abbreviation total :: "(string, int) jsmap \<Rightarrow> int" where
  "total m \<equiv> sum_list (jm_values m)"

lemma total_set: "total (jm_set k v m) = total m + v - (case jm_get m k of Some d \<Rightarrow> d | None \<Rightarrow> 0)"
  by (induction k v m rule: jm_set.induct) (auto simp: jm_values_def)

lemma total_addDwell [simp]: "total (addDwell c a b m) = total m + max 0 (b - a)"
  by (simp add: addDwell_def total_set)

lemma dwell_run:
  assumes "sorted (dw_start st # map snd ets)" and "\<forall>et\<in>set ets. action (fst et) \<noteq> ''deleted''"
    and "dw_column st = Some c" and "\<not> dw_deleted st" and "\<forall>et\<in>set ets. snd et \<le> endMs" and "dw_start st \<le> endMs"
  shows "total (dwell_close endMs (fold dwell_step ets st)) = total (dw_dwell st) + (endMs - dw_start st)"
  using assms
proof (induction ets arbitrary: st c)
  case Nil
  then show ?case by (simp add: dwell_close_def)
next
  case (Cons et ets)
  have srt: "sorted (map snd ets)" "dw_start st \<le> snd et" "\<forall>x\<in>set ets. snd et \<le> snd x"
    using Cons.prems(1) by auto
  have nd: "action (fst et) \<noteq> ''deleted''" using Cons.prems(2) by simp
  show ?case
  proof (cases "resolvedColumn (fst et) = None \<or> resolvedColumn (fst et) = Some c")
    case True
    then have "dwell_step et st = st" using nd Cons.prems(3) by (auto simp: dwell_step_def Let_def)
    then show ?thesis using Cons by (auto simp: Cons.IH [of st c])
  next
    case False
    then obtain d where d: "resolvedColumn (fst et) = Some d" "d \<noteq> c" by auto
    let ?st = "st\<lparr>dw_dwell := addDwell c (dw_start st) (snd et) (dw_dwell st), dw_column := Some d, dw_start := snd et\<rparr>"
    have "dwell_step et st = ?st" using nd d Cons.prems(3) by (auto simp: dwell_step_def Let_def)
    moreover have "total (dwell_close endMs (fold dwell_step ets ?st)) = total (dw_dwell ?st) + (endMs - dw_start ?st)"
      using Cons.prems srt by (intro Cons.IH [where c = d]) auto
    ultimately show ?thesis using srt(2) by simp
  qed
qed

lemma dwell_before_first:
  "\<forall>et\<in>set ets. action (fst et) \<noteq> ''deleted'' \<and> resolvedColumn (fst et) = None \<Longrightarrow> dw_column st = None \<Longrightarrow>
     fold dwell_step ets st = st"
  by (induction ets arbitrary: st) (auto simp: dwell_step_def Let_def)


section \<open>Holders\<close>

lemma holder_cmp_eq: "holder_cmp = pos_id_cmp (\<lambda>h. Fin (- of_int (ch_ms h))) ch_key"
  by (auto simp: fun_eq_iff holder_cmp_def pos_id_cmp_def)

interpretation holders: key_order holder_cmp "\<lambda>_. True" ch_key
  unfolding holder_cmp_eq using pos_id.key_order_axioms [of "\<lambda>h. Fin (- of_int (ch_ms h))" ch_key] by simp

definition holder_map_ok :: "int \<Rightarrow> (string, card_holder) jsmap \<Rightarrow> bool" where
  "holder_map_ok bound m = (jm_ok m \<and> jm_all (\<lambda>k h. ch_key h = k \<and> 0 \<le> ch_ms h \<and> ch_ms h \<le> bound) m)"

lemma holder_map_get: "holder_map_ok b m \<Longrightarrow> jm_get m k = Some h \<Longrightarrow> ch_key h = k \<and> 0 \<le> ch_ms h \<and> ch_ms h \<le> b"
  unfolding holder_map_ok_def by (elim conjE, drule (1) jm_all_get)

lemma holder_map_mono: "holder_map_ok b m \<Longrightarrow> b \<le> b' \<Longrightarrow> holder_map_ok b' m"
  by (auto simp: holder_map_ok_def jm_all_def list_all_iff)

text \<open>Crediting a set of distinct holders adds the span to each of them once.\<close>

lemma credit_fold_ok:
  assumes "distinct (map holderKey ps)" and "0 \<le> s" and "0 \<le> b"
    and "jm_ok m" and "jm_all (\<lambda>k h. ch_key h = k \<and> 0 \<le> ch_ms h \<and>
           ch_ms h \<le> (if k \<in> holderKey ` set ps then b else b + s)) m"
  shows "holder_map_ok (b + s) (fold (credit s) ps m)"
  using assms
proof (induction ps arbitrary: m)
  case Nil
  then show ?case by (simp add: holder_map_ok_def)
next
  case (Cons p ps)
  let ?P = "\<lambda>qs k h. ch_key h = k \<and> 0 \<le> ch_ms h \<and> ch_ms h \<le> (if k \<in> holderKey ` set qs then b else b + s)"
  have new: "holderKey p \<notin> holderKey ` set ps" using Cons.prems(1) by simp
  have get: "case jm_get m (holderKey p) of Some h \<Rightarrow> 0 \<le> ch_ms h \<and> ch_ms h \<le> b | None \<Rightarrow> True"
    using jm_all_get [OF Cons.prems(5), of "holderKey p"] by (auto split: option.splits)
  have "jm_all (?P ps) m"
    using Cons.prems(2,5) by (auto simp: jm_all_def list_all_iff split: if_splits)
  then have "jm_all (?P ps) (credit s p m)"
    using new get Cons.prems(2,3) unfolding credit_def Let_def by (intro jm_all_set) (auto split: option.splits)
  then show ?case
    using Cons by (simp add: credit_def Let_def)
qed

lemma flushSpan_ok:
  assumes "holder_map_ok (s - t0) (hs_holders st)" and "hs_start st = Some s" and "t0 \<le> s" and "s \<le> t"
    and "distinct (map holderKey (hs_active st))"
  shows "holder_map_ok (t - t0) (hs_holders (flushSpan t st))"
proof -
  have "holder_map_ok ((s - t0) + (t - s)) (fold (credit (t - s)) (hs_active st) (hs_holders st))"
    using assms by (intro credit_fold_ok) (auto simp: holder_map_ok_def jm_all_def list_all_iff)
  then show ?thesis using assms by (simp add: flushSpan_def)
qed

definition holders_inv :: "int \<Rightarrow> int \<Rightarrow> holder_state \<Rightarrow> bool" where
  "holders_inv t0 t st = (t0 \<le> t \<and> distinct (map holderKey (hs_active st)) \<and>
     (case hs_start st of
        Some s \<Rightarrow> t0 \<le> s \<and> s \<le> t \<and> holder_map_ok (s - t0) (hs_holders st)
      | None \<Rightarrow> hs_active st = [] \<and> holder_map_ok (t - t0) (hs_holders st)))"

lemma holders_inv_flush:
  assumes "holders_inv t0 t st" and "t \<le> t'"
  shows "holder_map_ok (t' - t0) (hs_holders (flushSpan t' st))"
proof (cases "hs_start st")
  case None
  then show ?thesis using assms by (auto simp: holders_inv_def flushSpan_def intro: holder_map_mono)
next
  case (Some s)
  then show ?thesis using assms by (intro flushSpan_ok [of s]) (auto simp: holders_inv_def)
qed

lemma flushSpan_frame [simp]: "hs_active (flushSpan t st) = hs_active st" "hs_start (flushSpan t st) = hs_start st"
  by (auto simp: flushSpan_def split: option.splits)

text \<open>A snapshot whose participants are distinct holders.\<close>

definition holders_distinct :: "timeline_event \<Rightarrow> bool" where
  "holders_distinct e = (case after_state e of None \<Rightarrow> True | Some s \<Rightarrow> distinct (map holderKey (cs_participants (as_card s))))"

lemma holder_step_inv:
  assumes "holders_inv t0 t st" and "t \<le> snd et" and "holders_distinct (fst et)"
  shows "holders_inv t0 (snd et) (holder_step et st)"
proof -
  have t0: "t0 \<le> snd et" using assms(1,2) by (simp add: holders_inv_def)
  have ok: "holder_map_ok (snd et - t0) (hs_holders (flushSpan (snd et) st))"
    using assms(1,2) by (rule holders_inv_flush)
  have keep: "holders_inv t0 (snd et) st"
    using assms(1,2) by (auto simp: holders_inv_def split: option.splits intro: holder_map_mono)
  have "hs_start st = None \<Longrightarrow> hs_active st = []" using assms(1) by (simp add: holders_inv_def)
  then show ?thesis
    using ok t0 keep assms(3)
    by (auto simp: holder_step_def Let_def holders_inv_def holders_distinct_def split: option.splits)
qed

lemma holder_run_inv:
  "sorted (t # map snd ets) \<Longrightarrow> \<forall>et\<in>set ets. holders_distinct (fst et) \<Longrightarrow> holders_inv t0 t st \<Longrightarrow>
     holders_inv t0 (last (t # map snd ets)) (fold holder_step ets st)"
proof (induction ets arbitrary: t st)
  case (Cons et ets)
  then have "holders_inv t0 (snd et) (holder_step et st)" by (intro holder_step_inv [of t0 t]) auto
  then have "holders_inv t0 (last (snd et # map snd ets)) (fold holder_step ets (holder_step et st))"
    using Cons.prems by (intro Cons.IH) auto
  then show ?case by simp
qed simp

lemma analytics_events_bound: "et \<in> set (analytics_events events cid endTime) \<Longrightarrow> snd et \<le> the (date_parse endTime)"
  by (cases "date_parse endTime") (auto simp: analytics_events_def split: option.splits if_splits)


section \<open>Properties\<close>

text \<open>
  Dwell times partition a card's life: for a log in time order without a deletion of the
  card, the dwell times of all columns add up to the time from the first event that names a
  column to the end time.
\<close>

lemma dwell_partition:
  assumes "sorted (map snd (analytics_events events cid endTime))"
    and "\<forall>et\<in>set (analytics_events events cid endTime). action (fst et) \<noteq> ''deleted''"
    and "find (\<lambda>et. resolvedColumn (fst et) \<noteq> None) (analytics_events events cid endTime) = Some (e, t)"
  shows "sum_list (jm_values (ca_dwellByColumn (computeCardAnalytics events cid endTime))) = the (date_parse endTime) - t"
proof -
  let ?ets = "analytics_events events cid endTime" and ?stop = "the (date_parse endTime)"
  from find_split [OF assms(3)] obtain pre post where
    ets: "?ets = pre @ (e, t) # post" and pre: "\<forall>et\<in>set pre. resolvedColumn (fst et) = None"
    and col: "resolvedColumn e \<noteq> None" by auto
  have bound: "\<forall>et\<in>set ?ets. snd et \<le> ?stop" using analytics_events_bound by blast
  let ?st = "dwell_init\<lparr>dw_column := resolvedColumn e, dw_start := t\<rparr>"
  have "fold dwell_step pre dwell_init = dwell_init"
    using assms(2) pre ets by (intro dwell_before_first) (auto simp: dwell_init_def)
  then have "fold dwell_step ?ets dwell_init = fold dwell_step post ?st"
    using assms(2) col by (auto simp: ets dwell_step_def dwell_init_def Let_def split: option.splits)
  moreover have "total (dwell_close ?stop (fold dwell_step post ?st)) = total (dw_dwell ?st) + (?stop - dw_start ?st)"
    using assms(1,2) bound col
    by (intro dwell_run [where c = "the (resolvedColumn e)"]) (auto simp: ets sorted_append dwell_init_def)
  ultimately show ?thesis
    using ets by (simp add: computeCardAnalytics_def Let_def dwell_init_def jm_values_def)
qed

text \<open>
  Holders are listed once each, in order of decreasing time (then key), and nobody holds a
  card for a negative time or for longer than from its first event to the end time, for a log
  in time order whose snapshots list each participant once.
\<close>

lemma holders_sound:
  assumes "sorted (map snd (analytics_events events cid endTime))"
    and "\<forall>et\<in>set (analytics_events events cid endTime). holders_distinct (fst et)"
    and "analytics_events events cid endTime = (e, t) # rest"
  shows "distinct (map ch_key (ca_holders (computeCardAnalytics events cid endTime))) \<and>
    sorted_wrt (cmp_le holder_cmp) (ca_holders (computeCardAnalytics events cid endTime)) \<and>
    (\<forall>h\<in>set (ca_holders (computeCardAnalytics events cid endTime)). 0 \<le> ch_ms h \<and> ch_ms h \<le> the (date_parse endTime) - t)"
proof -
  let ?ets = "analytics_events events cid endTime" and ?stop = "the (date_parse endTime)"
  let ?m = "hs_holders (flushSpan ?stop (fold holder_step ?ets holder_init))"
  have "holders_inv t t holder_init" by (simp add: holders_inv_def holder_init_def holder_map_ok_def)
  then have "holders_inv t (last (t # map snd ?ets)) (fold holder_step ?ets holder_init)"
    using assms by (intro holder_run_inv) auto
  moreover have "last (t # map snd ?ets) \<le> ?stop"
  proof -
    have "last ?ets \<in> set ?ets" using assms(3) by (intro last_in_set) simp
    then have "snd (last ?ets) \<le> ?stop" by (rule analytics_events_bound)
    then show ?thesis using assms(3) by (auto simp: last_map split: if_splits)
  qed
  ultimately have m: "holder_map_ok (?stop - t) ?m" by (rule holders_inv_flush)
  have hs: "ca_holders (computeCardAnalytics events cid endTime) = js_sort holder_cmp (jm_values ?m)"
    using assms(3) by (simp add: computeCardAnalytics_def Let_def)
  have "map ch_key (jm_values ?m) = map fst ?m"
    using m by (auto simp: holder_map_ok_def jm_all_def list_all_iff jm_values_def)
  then have "distinct (map ch_key (jm_values ?m))" using m by (simp add: holder_map_ok_def jm_ok_def)
  moreover have "\<forall>h\<in>set (jm_values ?m). 0 \<le> ch_ms h \<and> ch_ms h \<le> ?stop - t"
    using m by (auto simp: holder_map_ok_def jm_all_def list_all_iff jm_values_def)
  ultimately show ?thesis by (simp add: hs holders.sort_sorted)
qed

definition sample_holder :: "string \<Rightarrow> participant_snapshot" where
  "sample_holder i = \<lparr>ps_user_id = i, ps_agent_id = None, ps_name = i, ps_role = ''hero'', ps_avatar_url = None\<rparr>"

definition sample_move :: "string \<Rightarrow> string \<Rightarrow> string \<Rightarrow> timeline_event" where
  "sample_move col who t = \<lparr>ev_id = ''e'', entity_type = ''card'', entity_id = ''c1'', action = ''moved'',
     actor_id = ''u'', actor_name = None, agent_id = None, summary = [], entity_title = None,
     message_params = None, before_state = None,
     after_state = Some (CardSnap \<lparr>cs_id = ''c1'', cs_title = ''T'', cs_card_type = ''task'', cs_priority = ''low'',
       cs_column_id = Some col, cs_position = Fin 1024, cs_status = None, cs_labels = None,
       cs_participants = [sample_holder who], cs_created_at = None\<rparr>),
     changes = None, created_at = t\<rparr>"

definition sample_moves :: "timeline_event list" where
  "sample_moves = [sample_move ''todo'' ''ann'' ''2026-01-01T00:00:00Z'', sample_move ''done'' ''bob'' ''2026-01-01T00:00:05Z'']"

end
