(* ===== verification/Kanban_Types.thy ===== *)
theory Kanban_Types
  imports JS_Sort
begin

text \<open>
  The kanban data model (\<open>types/kanban.ts\<close>) with the fields the modelled modules read or
  carry along, the websocket event (\<open>lib/websocket.ts\<close>), and the well-formedness of a board
  detail: what a freshly fetched board satisfies and what every cache patch has to keep.
  Optional and nullable fields are options: the code reads \<open>undefined\<close> and \<open>null\<close> alike.
\<close>

datatype card_type = Task | Bug | Feature | Issue

datatype priority = PNone | PLow | PMedium | PHigh | PUrgent

datatype participant_role = Hero | Viewer | Stakeholder | Helper

datatype column_type = Backlog | ActiveCol | ReviewCol | DoneCol | BlockedCol

datatype presence = NoPresence | Eligible | Touched | Suspended | Active

datatype dependency_status = DepReady | DepBlocked | DepUnblocked

record user_ref =
  u_id :: string
  u_name :: string
  u_email :: string
  u_avatar_url :: "string option"

record agent_ref =
  a_id :: string
  a_name :: string
  a_agent_type :: string

record card_participant =
  pt_user_id :: string
  pt_agent_id :: "string option"
  pt_role :: participant_role
  pt_added_at :: string
  pt_user :: user_ref
  pt_agent :: "agent_ref option"

record card_row =
  c_id :: string
  c_title :: string
  c_description :: string
  c_type :: card_type
  c_priority :: priority
  c_position :: jsnum
  c_column_id :: string
  c_participants :: "card_participant list"
  c_due_date :: "string option"
  c_status :: "string option"
  c_labels :: "string list option"
  has_pending_approval :: "bool option"
  pending_approval_id :: "string option"
  agent_presence :: "presence option"
  active_execution_id :: "string option"
  last_agent_activity_at :: "string option"
  pr_url :: "string option"
  branch_name :: "string option"
  depends_on_count :: "jsnum option"
  blocks_count :: "jsnum option"
  dependency_status :: "dependency_status option"
  c_created_at :: string
  c_updated_at :: string

record dependency_edge =
  e_card_id :: string
  e_depends_on :: string

record column_row =
  col_id :: string
  col_name :: string
  col_position :: jsnum
  col_board_id :: string
  col_type :: "column_type option"
  col_cards :: "card_row list"
  col_created_at :: string
  col_updated_at :: string

record board =
  b_id :: string
  b_slug :: "string option"
  b_name :: string
  b_description :: string
  b_tags :: "string list"
  b_workspace_id :: string
  is_frozen :: "bool option"
  b_frozen_at :: "string option"
  b_created_at :: string
  b_updated_at :: string
  card_count :: "jsnum option"
  column_count :: "jsnum option"
  last_activity_at :: "string option"
  loop_configured :: "bool option"
  has_definition :: "bool option"
  enforce_done_merge_gate :: "bool option"

record board_detail = board +
  bd_columns :: "column_row list"

record websocket_event =
  ws_event :: string
  ws_timestamp :: string
  ws_event_id :: string
  ws_payload :: "(string \<times> json) list"

record card_move_request =
  mv_card_id :: string
  mv_column_id :: string
  mv_position :: jsnum

definition payload :: "websocket_event \<Rightarrow> string \<Rightarrow> json option" where
  "payload e k = map_of (ws_payload e) k"

abbreviation card_cmp :: "card_row \<Rightarrow> card_row \<Rightarrow> jsnum" where
  "card_cmp \<equiv> pos_cmp c_position"

text \<open>All cards of a board, column by column, and the card with an id.\<close>

definition board_cards :: "board_detail \<Rightarrow> card_row list" where
  "board_cards b = concat (map col_cards (bd_columns b))"

definition card_at :: "board_detail \<Rightarrow> string \<Rightarrow> card_row option" where
  "card_at b i = find (\<lambda>c. c_id c = i) (board_cards b)"

definition column_ok :: "column_row \<Rightarrow> bool" where
  "column_ok col = (list_all (\<lambda>c. c_column_id c = col_id col \<and> c_position c \<noteq> NaN) (col_cards col) \<and>
     sorted_wrt (cmp_le card_cmp) (col_cards col))"

definition board_ok :: "board_detail \<Rightarrow> bool" where
  "board_ok b = (distinct (map col_id (bd_columns b)) \<and> distinct (map c_id (board_cards b)) \<and>
     list_all column_ok (bd_columns b))"

lemma find_mem_iff: "distinct (map f xs) \<Longrightarrow> find (\<lambda>x. f x = i) xs = Some x \<longleftrightarrow> x \<in> set xs \<and> f x = i"
proof (induction xs)
  case (Cons a xs)
  then show ?case by (auto simp: image_iff)
qed simp

lemma card_at_iff: "board_ok b \<Longrightarrow> card_at b i = Some c \<longleftrightarrow> c \<in> set (board_cards b) \<and> c_id c = i"
  by (simp add: card_at_def board_ok_def find_mem_iff)

lemma card_at_None: "card_at b i = None \<longleftrightarrow> i \<notin> c_id ` set (board_cards b)"
  by (auto simp: card_at_def find_None_iff)

lemma board_cards_mem: "c \<in> set (board_cards b) \<longleftrightarrow> (\<exists>col\<in>set (bd_columns b). c \<in> set (col_cards col))"
  by (auto simp: board_cards_def)

lemma column_ok_mem: "column_ok col \<Longrightarrow> c \<in> set (col_cards col) \<Longrightarrow> c_column_id c = col_id col"
  by (simp add: column_ok_def list_all_iff)

lemma board_ok_columns: "board_ok b \<Longrightarrow> col \<in> set (bd_columns b) \<Longrightarrow> column_ok col"
  by (simp add: board_ok_def list_all_iff)

text \<open>In a well-formed board a card sits in the one column it names.\<close>

lemma board_ok_home:
  "board_ok b \<Longrightarrow> col \<in> set (bd_columns b) \<Longrightarrow> c \<in> set (board_cards b) \<Longrightarrow>
     c \<in> set (col_cards col) \<longleftrightarrow> c_column_id c = col_id col"
  unfolding board_cards_mem board_ok_def
  by (metis column_ok_mem distinct_map inj_on_def list_all_iff)

end
