(* ===== verification/Board_Cache.thy ===== *)
theory Board_Cache
  imports Kanban_Types
begin

text \<open>
  The patches that keep the cached board live: the websocket reconciler
  (\<open>board-event-reconciler.ts\<close>), the single-card merge (\<open>card-cache-patcher.ts\<close>), the
  execution presence patch (\<open>execution-presence-patcher.ts\<close>), the optimistic card move
  (\<open>use-optimistic-card-move.ts\<close>), the optimistic column reorder (\<open>use-reorder-columns.ts\<close>)
  and the scope test for events (\<open>board-event-scope.ts\<close>).

  The locale \<open>board_patcher\<close> is the contract the cache relies on: a patch keeps the board
  well-formed and touches no card but its subject. The reconciler, the merge and the presence
  patch interpret it.
\<close>

section \<open>Event fields\<close>

text \<open>\<open>payload.action\<close>, or the last segment of the event name.\<close>

definition actionOf :: "websocket_event \<Rightarrow> string" where
  "actionOf e = (case jstr (payload e ''action'') of Some a \<Rightarrow> a
     | None \<Rightarrow> last (js_split (CHR ''.'') (ws_event e)))"

definition cardIdOf :: "websocket_event \<Rightarrow> string option" where
  "cardIdOf e = jstr (payload e ''entity_id'')"

record move_target =
  mt_columnId :: string
  mt_position :: "jsnum option"

definition moveTargetOf :: "websocket_event \<Rightarrow> move_target option" where
  "moveTargetOf e =
     (let after = payload e ''after_state'';
          changes = payload e ''changes'' in
      case jstr (Option.bind after (\<lambda>a. jfield a ''column_id'')) of
        Some cid \<Rightarrow> Some \<lparr>mt_columnId = cid, mt_position = jnum (Option.bind after (\<lambda>a. jfield a ''position''))\<rparr>
      | None \<Rightarrow>
         (case jstr (Option.bind (Option.bind changes (\<lambda>c. jfield c ''column_id'')) (\<lambda>c. jfield c ''new'')) of
            Some newCol \<Rightarrow> Some \<lparr>mt_columnId = newCol, mt_position = None\<rparr>
          | None \<Rightarrow> None))"

definition eventTargetsBoard :: "websocket_event \<Rightarrow> string \<Rightarrow> string option \<Rightarrow> bool" where
  "eventTargetsBoard e routeParam boardUuid =
     (case payload e ''board_id'' of None \<Rightarrow> False | Some JNull \<Rightarrow> False
      | Some v \<Rightarrow> Some v = map_option JStr boardUuid \<or> v = JStr routeParam)"

section \<open>The reconciler\<close>

datatype reconcile_result = Patched board_detail | Consistent | Refetch

fun find_card :: "string \<Rightarrow> column_row list \<Rightarrow> card_row option" where
  "find_card i [] = None"
| "find_card i (col # cols) = (case find (\<lambda>c. c_id c = i) (col_cards col) of Some c \<Rightarrow> Some c | None \<Rightarrow> find_card i cols)"

definition without_card :: "string \<Rightarrow> column_row \<Rightarrow> card_row list" where
  "without_card i col = filter (\<lambda>c. c_id c \<noteq> i) (col_cards col)"

text \<open>An untouched column keeps its identity.\<close>

definition drop_card :: "string \<Rightarrow> column_row \<Rightarrow> column_row" where
  "drop_card i col = (if length (without_card i col) = length (col_cards col) then col
     else col\<lparr>col_cards := without_card i col\<rparr>)"

definition relocate :: "card_row \<Rightarrow> column_row \<Rightarrow> column_row" where
  "relocate c col = (if col_id col \<noteq> c_column_id c then drop_card (c_id c) col
     else col\<lparr>col_cards := js_sort card_cmp (without_card (c_id c) col @ [c])\<rparr>)"

definition moved_card :: "move_target \<Rightarrow> card_row \<Rightarrow> card_row" where
  "moved_card target existing = existing\<lparr>c_column_id := mt_columnId target,
     c_position := (case mt_position target of Some p \<Rightarrow> p | None \<Rightarrow> c_position existing)\<rparr>"

definition applyMove :: "board_detail \<Rightarrow> websocket_event \<Rightarrow> reconcile_result" where
  "applyMove b e =
     (case (cardIdOf e, moveTargetOf e) of
        (Some cardId, Some target) \<Rightarrow>
          if cardId = [] then Refetch else
          (case find_card cardId (bd_columns b) of
             None \<Rightarrow> Refetch
           | Some existing \<Rightarrow>
               (case find (\<lambda>c. col_id c = mt_columnId target) (bd_columns b) of
                  None \<Rightarrow> Refetch
                | Some _ \<Rightarrow>
                    let movedCard = moved_card target existing in
                    if c_column_id existing = mt_columnId target \<and> js_eq (c_position existing) (c_position movedCard)
                    then Consistent
                    else Patched (b\<lparr>bd_columns := map (relocate movedCard) (bd_columns b)\<rparr>)))
      | _ \<Rightarrow> Refetch)"

definition applyDelete :: "board_detail \<Rightarrow> websocket_event \<Rightarrow> reconcile_result" where
  "applyDelete b e =
     (case cardIdOf e of
        None \<Rightarrow> Refetch
      | Some cardId \<Rightarrow>
          if cardId = [] then Refetch
          else if list_ex (\<lambda>col. length (without_card cardId col) \<noteq> length (col_cards col)) (bd_columns b)
          then Patched (b\<lparr>bd_columns := map (drop_card cardId) (bd_columns b)\<rparr>)
          else Consistent)"

definition reconcileBoardEvent :: "board_detail \<Rightarrow> websocket_event \<Rightarrow> reconcile_result" where
  "reconcileBoardEvent b e =
     (if actionOf e = ''moved'' then applyMove b e
      else if actionOf e = ''deleted'' then applyDelete b e
      else Refetch)"


section \<open>The single-card merge\<close>

definition mergeCardIntoBoard :: "board_detail \<Rightarrow> card_row \<Rightarrow> board_detail option" where
  "mergeCardIntoBoard b c =
     (case find (\<lambda>col. col_id col = c_column_id c) (bd_columns b) of
        None \<Rightarrow> None
      | Some _ \<Rightarrow> Some (b\<lparr>bd_columns := map (relocate c) (bd_columns b)\<rparr>))"


section \<open>The optimistic move\<close>

text \<open>The card that leaves is the last one with the id.\<close>

definition optimisticMove :: "card_move_request \<Rightarrow> board_detail \<Rightarrow> board_detail" where
  "optimisticMove mv old =
     (let columnsWithout = map (\<lambda>col. col\<lparr>col_cards := without_card (mv_card_id mv) col\<rparr>) (bd_columns old) in
      case find (\<lambda>c. c_id c = mv_card_id mv) (rev (board_cards old)) of
        None \<Rightarrow> old
      | Some movedCard \<Rightarrow>
          let updated = movedCard\<lparr>c_column_id := mv_column_id mv, c_position := mv_position mv\<rparr> in
          old\<lparr>bd_columns := map (\<lambda>col. if col_id col \<noteq> mv_column_id mv then col
                 else col\<lparr>col_cards := js_sort card_cmp (col_cards col @ [updated])\<rparr>) columnsWithout\<rparr>)"


section \<open>The presence patch\<close>

definition BUDGET_SUSPENDED_LABEL :: string where
  "BUDGET_SUSPENDED_LABEL = ''budget-suspended''"

definition TERMINAL_EVENTS :: "string list" where
  "TERMINAL_EVENTS = [''execution.completed'']"

definition ACTIVATING_EVENTS :: "string list" where
  "ACTIVATING_EVENTS = [''execution.started'']"

definition INERT_EVENTS :: "string list" where
  "INERT_EVENTS = [''execution.warning'']"

definition presenceAfterTerminal :: "card_row \<Rightarrow> presence" where
  "presenceAfterTerminal c =
     (if BUDGET_SUSPENDED_LABEL \<in> set (case c_labels c of Some ls \<Rightarrow> ls | None \<Rightarrow> []) then Suspended else Touched)"

definition stringField :: "websocket_event \<Rightarrow> string \<Rightarrow> string option" where
  "stringField e key = jstr (payload e key)"

definition nextPresence :: "websocket_event \<Rightarrow> card_row \<Rightarrow> (presence \<times> string option) option" where
  "nextPresence e c =
     (let executionId = stringField e ''execution_id'' in
      if ws_event e \<in> set ACTIVATING_EVENTS then
        (if \<not> js_truthy executionId then None else Some (Active, executionId))
      else if ws_event e \<in> set TERMINAL_EVENTS then
        (if js_truthy (active_execution_id c) \<and> js_truthy executionId \<and> active_execution_id c \<noteq> executionId then None
         else Some (presenceAfterTerminal c, None))
      else None)"

definition set_presence :: "presence \<times> string option \<Rightarrow> card_row \<Rightarrow> card_row" where
  "set_presence p c = c\<lparr>agent_presence := Some (fst p), active_execution_id := snd p\<rparr>"

fun find_in_columns :: "string \<Rightarrow> column_row list \<Rightarrow> (column_row \<times> nat) option" where
  "find_in_columns i [] = None"
| "find_in_columns i (col # cols) = (case js_findIndex (\<lambda>c. c_id c = i) (col_cards col) of
     Some n \<Rightarrow> Some (col, n) | None \<Rightarrow> find_in_columns i cols)"

definition patchExecutionPresence :: "board_detail \<Rightarrow> websocket_event \<Rightarrow> board_detail option" where
  "patchExecutionPresence b e =
     (if ws_event e \<in> set INERT_EVENTS then Some b else
      case stringField e ''card_id'' of
        None \<Rightarrow> None
      | Some cardId \<Rightarrow>
          if cardId = [] then None else
          (case find_in_columns cardId (bd_columns b) of
             None \<Rightarrow> None
           | Some (column, index) \<Rightarrow>
               (let c = col_cards column ! index in
                case nextPresence e c of
                  None \<Rightarrow> None
                | Some patch \<Rightarrow>
                    if agent_presence c = Some (fst patch) \<and> active_execution_id c = snd patch then Some b
                    else
                      let cards = (col_cards column)[index := set_presence patch c] in
                      Some (b\<lparr>bd_columns := map (\<lambda>col. if col_id col = col_id column then col\<lparr>col_cards := cards\<rparr> else col)
                              (bd_columns b)\<rparr>))))"


section \<open>The optimistic column reorder\<close>

definition reorderColumns :: "string list \<Rightarrow> board_detail \<Rightarrow> board_detail" where
  "reorderColumns column_ids old =
     (let byId = jm_from col_id (\<lambda>c. c) (bd_columns old) [];
          ordered = List.map_filter (jm_get byId) column_ids;
          leftover = filter (\<lambda>col. col_id col \<notin> set column_ids) (bd_columns old);
          positions = js_sort (pos_cmp (\<lambda>p. p)) (map col_position (bd_columns old))
      in old\<lparr>bd_columns := map (\<lambda>(index, col). col\<lparr>col_position :=
           (case js_at positions (int index) of Some p \<Rightarrow> p | None \<Rightarrow> Fin (of_nat (index + 1) * 1024))\<rparr>)
           (enumerate 0 (ordered @ leftover))\<rparr>)"


section \<open>Relocating a card\<close>

lemma filter_same_length: "length (filter P xs) = length xs \<Longrightarrow> filter P xs = xs"
  by (metis filter_True length_filter_less less_irrefl)

lemma length_filter_all: "length (filter P xs) = length xs \<longleftrightarrow> (\<forall>x\<in>set xs. P x)"
  by (metis filter_id_conv filter_same_length)

lemma drop_card_cards [simp]: "col_cards (drop_card i col) = filter (\<lambda>c. c_id c \<noteq> i) (col_cards col)"
  by (simp add: drop_card_def without_card_def filter_same_length)

lemma drop_card_eq: "drop_card i col = col\<lparr>col_cards := filter (\<lambda>c. c_id c \<noteq> i) (col_cards col)\<rparr>"
  by (cases col) (simp add: drop_card_def without_card_def filter_same_length)

lemma relocate_id [simp]: "col_id (relocate c col) = col_id col" "col_id (drop_card i col) = col_id col"
  by (simp_all add: relocate_def drop_card_def)

lemma relocate_cards: "mset (col_cards (relocate c col)) =
    mset (filter (\<lambda>x. c_id x \<noteq> c_id c) (col_cards col)) + (if col_id col = c_column_id c then {#c#} else {#})"
  by (simp add: relocate_def without_card_def)

lemma relocate_other: "c_column_id c \<notin> col_id ` set cols \<Longrightarrow>
    mset (concat (map (col_cards \<circ> relocate c) cols)) = mset (filter (\<lambda>x. c_id x \<noteq> c_id c) (concat (map col_cards cols)))"
  by (induction cols) (auto simp: relocate_cards)

lemma relocate_columns_cards:
  "distinct (map col_id cols) \<Longrightarrow> c_column_id c \<in> col_id ` set cols \<Longrightarrow>
     mset (concat (map (col_cards \<circ> relocate c) cols)) =
     add_mset c (mset (filter (\<lambda>x. c_id x \<noteq> c_id c) (concat (map col_cards cols))))"
proof (induction cols)
  case (Cons col cols)
  show ?case
  proof (cases "col_id col = c_column_id c")
    case True
    then have "c_column_id c \<notin> col_id ` set cols" using Cons.prems(1) by auto
    from relocate_other [OF this] show ?thesis using True by (simp add: relocate_cards comp_def)
  next
    case False
    then show ?thesis using Cons by (auto simp: relocate_cards comp_def)
  qed
qed simp

lemma sorted_filter: "sorted_wrt R xs \<Longrightarrow> sorted_wrt R (filter P xs)"
  by (rule sorted_wrt_filter)

lemma drop_card_ok: "column_ok col \<Longrightarrow> column_ok (drop_card i col)"
  by (auto simp: column_ok_def list_all_iff sorted_filter)

lemma relocate_ok: "column_ok col \<Longrightarrow> c_position c \<noteq> NaN \<Longrightarrow> column_ok (relocate c col)"
  by (cases "col_id col = c_column_id c")
     (auto simp: relocate_def drop_card_ok column_ok_def [of "col_cards_update f col" for f] without_card_def
        column_ok_def [of col] list_all_iff intro!: pos.sort_sorted)

definition relocated :: "card_row \<Rightarrow> board_detail \<Rightarrow> board_detail" where
  "relocated c b = b\<lparr>bd_columns := map (relocate c) (bd_columns b)\<rparr>"

lemma relocated_cards:
  assumes "board_ok b" and "c_column_id c \<in> col_id ` set (bd_columns b)"
  shows "mset (board_cards (relocated c b)) = add_mset c (mset (filter (\<lambda>x. c_id x \<noteq> c_id c) (board_cards b)))"
  using relocate_columns_cards [of "bd_columns b" c] assms
  by (simp add: board_cards_def relocated_def board_ok_def)

lemma distinct_ids_add: "distinct (map f xs) \<Longrightarrow> mset ys = add_mset c (mset (filter (\<lambda>x. f x \<noteq> f c) xs)) \<Longrightarrow>
    distinct (map f ys)"
proof -
  assume d: "distinct (map f xs)" and "mset ys = add_mset c (mset (filter (\<lambda>x. f x \<noteq> f c) xs))"
  then have "mset ys = mset (c # filter (\<lambda>x. f x \<noteq> f c) xs)" by simp
  moreover have "distinct (map f (c # filter (\<lambda>x. f x \<noteq> f c) xs))" using d by (auto simp: distinct_map_filter)
  ultimately show ?thesis by (metis distinct_map_mset)
qed

lemma relocated_ok:
  assumes "board_ok b" and "c_column_id c \<in> col_id ` set (bd_columns b)" and "c_position c \<noteq> NaN"
  shows "board_ok (relocated c b)"
proof -
  have "distinct (map c_id (board_cards (relocated c b)))"
    using distinct_ids_add [OF _ relocated_cards [OF assms(1,2)]] assms(1) by (simp add: board_ok_def)
  then show ?thesis
    using assms(1,3) by (auto simp: board_ok_def relocated_def list_all_iff relocate_ok comp_def)
qed

lemma card_at_eqI: "board_ok b \<Longrightarrow> board_ok b' \<Longrightarrow>
    (\<And>c. c \<in> set (board_cards b') \<longleftrightarrow> m (c_id c) = Some c) \<Longrightarrow> (\<And>i c. m i = Some c \<Longrightarrow> c_id c = i) \<Longrightarrow> card_at b' = m"
proof
  fix i
  assume ok: "board_ok b'" and mem: "\<And>c. c \<in> set (board_cards b') \<longleftrightarrow> m (c_id c) = Some c"
    and key: "\<And>i c. m i = Some c \<Longrightarrow> c_id c = i"
  show "card_at b' i = m i"
  proof (cases "m i")
    case None
    then have "i \<notin> c_id ` set (board_cards b')" using mem by auto
    then show ?thesis using None by (simp add: card_at_None)
  next
    case (Some c)
    then show ?thesis using mem key ok by (simp add: card_at_iff)
  qed
qed

lemma card_at_relocated:
  assumes "board_ok b" and "c_column_id c \<in> col_id ` set (bd_columns b)" and "c_position c \<noteq> NaN"
  shows "card_at (relocated c b) = (card_at b)(c_id c \<mapsto> c)"
proof (rule card_at_eqI [OF assms(1) relocated_ok [OF assms]])
  fix x
  have "set (board_cards (relocated c b)) = insert c {x \<in> set (board_cards b). c_id x \<noteq> c_id c}"
    using mset_eq_setD [of "board_cards (relocated c b)" "c # filter (\<lambda>x. c_id x \<noteq> c_id c) (board_cards b)"]
      relocated_cards [OF assms(1,2)] by simp
  then show "x \<in> set (board_cards (relocated c b)) \<longleftrightarrow> ((card_at b)(c_id c \<mapsto> c)) (c_id x) = Some x"
    using card_at_iff [OF assms(1)] by auto
next
  fix i x
  assume "((card_at b)(c_id c \<mapsto> c)) i = Some x"
  then show "c_id x = i" using card_at_iff [OF assms(1)] by (auto split: if_splits)
qed

text \<open>Dropping a card by id.\<close>

definition dropped :: "string \<Rightarrow> board_detail \<Rightarrow> board_detail" where
  "dropped i b = b\<lparr>bd_columns := map (drop_card i) (bd_columns b)\<rparr>"

lemma dropped_cards: "board_cards (dropped i b) = filter (\<lambda>c. c_id c \<noteq> i) (board_cards b)"
  by (simp add: board_cards_def dropped_def filter_concat comp_def)

lemma dropped_ok: "board_ok b \<Longrightarrow> board_ok (dropped i b)"
  using dropped_cards [of i b]
  by (auto simp: board_ok_def distinct_map_filter) (auto simp: dropped_def list_all_iff drop_card_ok comp_def)

lemma card_at_dropped: "board_ok b \<Longrightarrow> card_at (dropped i b) = (card_at b)(i := None)"
proof (rule card_at_eqI [OF _ dropped_ok])
  fix x
  assume "board_ok b"
  then show "x \<in> set (board_cards (dropped i b)) \<longleftrightarrow> ((card_at b)(i := None)) (c_id x) = Some x"
    using card_at_iff by (auto simp: dropped_cards)
next
  fix j x
  assume "board_ok b" and "((card_at b)(i := None)) j = Some x"
  then show "c_id x = j" using card_at_iff by (auto split: if_splits)
qed



section \<open>Rewriting a card in place\<close>

definition map_card :: "string \<Rightarrow> (card_row \<Rightarrow> card_row) \<Rightarrow> board_detail \<Rightarrow> board_detail" where
  "map_card i f b = b\<lparr>bd_columns := map (\<lambda>col. col\<lparr>col_cards := map (\<lambda>c. if c_id c = i then f c else c) (col_cards col)\<rparr>)
     (bd_columns b)\<rparr>"

lemma map_card_cards: "board_cards (map_card i f b) = map (\<lambda>c. if c_id c = i then f c else c) (board_cards b)"
  by (simp add: board_cards_def map_card_def map_concat comp_def)

lemma map_card_ok:
  assumes "board_ok b" and keep: "\<And>c. c_id (f c) = c_id c \<and> c_column_id (f c) = c_column_id c \<and> c_position (f c) = c_position c"
  shows "board_ok (map_card i f b)"
proof -
  let ?g = "\<lambda>c. if c_id c = i then f c else c"
  have ids: "c_id \<circ> ?g = c_id" using keep by (auto simp: comp_def)
  have "cmp_le card_cmp (?g c) (?g d) = cmp_le card_cmp c d" for c d
    using keep by (simp add: cmp_le_def pos_cmp_def)
  then have "column_ok col \<Longrightarrow> column_ok (col\<lparr>col_cards := map ?g (col_cards col)\<rparr>)" for col
    using keep by (auto simp: column_ok_def list_all_iff sorted_wrt_map)
  then show ?thesis
    using assms(1) ids map_card_cards [of i f b]
    by (simp add: board_ok_def) (simp add: map_card_def list_all_iff comp_def)
qed

lemma card_at_map_card:
  assumes "board_ok b" and keep: "\<And>c. c_id (f c) = c_id c \<and> c_column_id (f c) = c_column_id c \<and> c_position (f c) = c_position c"
  shows "card_at (map_card i f b) = (card_at b)(i := map_option f (card_at b i))"
proof (rule card_at_eqI [OF assms(1) map_card_ok [OF assms]])
  fix x
  have look: "card_at b j = Some c \<longleftrightarrow> c \<in> set (board_cards b) \<and> c_id c = j" for j c
    using card_at_iff [OF assms(1)] .
  have "x \<in> set (board_cards (map_card i f b)) \<longleftrightarrow>
      (\<exists>c\<in>set (board_cards b). c_id c = i \<and> x = f c) \<or> x \<in> set (board_cards b) \<and> c_id x \<noteq> i"
    by (auto simp: map_card_cards)
  also have "\<dots> \<longleftrightarrow> (if c_id x = i then (\<exists>c. card_at b i = Some c \<and> x = f c) else card_at b (c_id x) = Some x)"
    using keep look by metis
  also have "\<dots> \<longleftrightarrow> ((card_at b)(i := map_option f (card_at b i))) (c_id x) = Some x"
    by (cases "card_at b i") auto
  finally show "x \<in> set (board_cards (map_card i f b)) \<longleftrightarrow>
      ((card_at b)(i := map_option f (card_at b i))) (c_id x) = Some x" .
next
  fix j x
  assume "((card_at b)(i := map_option f (card_at b i))) j = Some x"
  then show "c_id x = j" using keep card_at_iff [OF assms(1)] by (auto split: if_splits)
qed

lemma find_in_columns_Some: "find_in_columns i cols = Some (col, n) \<Longrightarrow>
    col \<in> set cols \<and> n < length (col_cards col) \<and> c_id (col_cards col ! n) = i"
  by (induction cols) (auto split: option.splits dest: js_findIndex_Some)

lemma find_in_columns_None: "find_in_columns i (bd_columns b) = None \<longleftrightarrow> card_at b i = None"
proof -
  have "find_in_columns i cols = None \<longleftrightarrow> (\<forall>col\<in>set cols. \<forall>c\<in>set (col_cards col). c_id c \<noteq> i)" for cols
    by (induction cols) (auto simp: js_findIndex_None split: option.splits dest!: js_findIndex_Some intro: nth_mem)
  note * = this [of "bd_columns b"]
  show ?thesis unfolding * by (simp add: card_at_None image_iff board_cards_def) blast
qed

lemma list_update_map:
  "distinct (map h xs) \<Longrightarrow> n < length xs \<Longrightarrow> xs[n := f (xs ! n)] = map (\<lambda>x. if h x = h (xs ! n) then f x else x) xs"
  by (rule nth_equalityI) (auto simp: nth_list_update distinct_conv_nth)

lemma replaced_eq_map_card:
  assumes "board_ok b" and "col \<in> set (bd_columns b)" and "n < length (col_cards col)" and "i = c_id (col_cards col ! n)"
  shows "b\<lparr>bd_columns := map (\<lambda>k. if col_id k = col_id col then k\<lparr>col_cards := (col_cards col)[n := f (col_cards col ! n)]\<rparr> else k)
      (bd_columns b)\<rparr> = map_card i f b"
proof -
  let ?c = "col_cards col ! n"
  have ids: "distinct (map c_id (board_cards b))" and cols: "distinct (map col_id (bd_columns b))"
    using assms(1) by (auto simp: board_ok_def)
  have "distinct (map c_id (col_cards col))"
    using ids assms(2) by (auto simp: board_cards_def map_concat distinct_concat_iff)
  from list_update_map [OF this assms(3)]
  have upd: "(col_cards col)[n := f ?c] = map (\<lambda>x. if c_id x = i then f x else x) (col_cards col)"
    by (simp add: assms(4))
  have "(if col_id k = col_id col then k\<lparr>col_cards := (col_cards col)[n := f ?c]\<rparr> else k) =
      k\<lparr>col_cards := map (\<lambda>x. if c_id x = i then f x else x) (col_cards k)\<rparr>" if k: "k \<in> set (bd_columns b)" for k
  proof (cases "col_id k = col_id col")
    case True
    then have "k = col" using cols k assms(2) by (auto simp: distinct_map inj_on_def)
    then show ?thesis using upd by simp
  next
    case False
    have "?c \<in> set (board_cards b)" using assms(2,3) by (auto simp: board_cards_mem intro!: bexI [of _ col])
    have "c_id x \<noteq> i" if "x \<in> set (col_cards k)" for x
    proof
      assume "c_id x = i"
      moreover have "x \<in> set (board_cards b)" using that k by (auto simp: board_cards_mem)
      ultimately have "x = ?c" using ids \<open>?c \<in> set (board_cards b)\<close> assms(4) by (auto simp: distinct_map inj_on_def)
      moreover have "c_column_id x = col_id k" "c_column_id ?c = col_id col"
        using column_ok_mem board_ok_columns [OF assms(1)] that k assms(2,3) by auto
      ultimately show False using False by simp
    qed
    then have "map (\<lambda>x. if c_id x = i then f x else x) (col_cards k) = col_cards k" by (simp add: map_idI)
    then show ?thesis using False by simp
  qed
  then show ?thesis by (simp add: map_card_def cong: map_cong)
qed



section \<open>The contract of a cache patch\<close>

text \<open>Apply a series of patches, keeping the board where a patch does not apply.\<close>

fun patch_all :: "(board_detail \<Rightarrow> 'e \<Rightarrow> board_detail option) \<Rightarrow> 'e list \<Rightarrow> board_detail \<Rightarrow> board_detail" where
  "patch_all patch [] b = b"
| "patch_all patch (e # es) b = patch_all patch es (case patch b e of Some b' \<Rightarrow> b' | None \<Rightarrow> b)"

locale board_patcher =
  fixes patch :: "board_detail \<Rightarrow> 'e \<Rightarrow> board_detail option"
    and subject :: "'e \<Rightarrow> string option"
    and valid :: "'e \<Rightarrow> bool"
  assumes patch_ok: "board_ok b \<Longrightarrow> valid e \<Longrightarrow> patch b e = Some b' \<Longrightarrow> board_ok b'"
    and patch_frame: "board_ok b \<Longrightarrow> valid e \<Longrightarrow> patch b e = Some b' \<Longrightarrow> subject e \<noteq> Some i \<Longrightarrow> card_at b' i = card_at b i"
    and patch_columns: "patch b e = Some b' \<Longrightarrow> map col_id (bd_columns b') = map col_id (bd_columns b)"
begin

lemma patch_all_ok: "board_ok b \<Longrightarrow> list_all valid es \<Longrightarrow> board_ok (patch_all patch es b)"
  by (induction es arbitrary: b) (auto split: option.splits intro: patch_ok)

lemma patch_all_frame:
  "board_ok b \<Longrightarrow> list_all valid es \<Longrightarrow> Some i \<notin> subject ` set es \<Longrightarrow> card_at (patch_all patch es b) i = card_at b i"
proof (induction es arbitrary: b)
  case (Cons e es)
  then show ?case
    using patch_ok [of b e] patch_frame [of b e _ i] by (auto split: option.splits)
qed simp

lemma patch_all_columns: "map col_id (bd_columns (patch_all patch es b)) = map col_id (bd_columns b)"
  by (induction es arbitrary: b) (auto simp: patch_columns split: option.splits)

end

definition reconcile_patch :: "board_detail \<Rightarrow> websocket_event \<Rightarrow> board_detail option" where
  "reconcile_patch b e = (case reconcileBoardEvent b e of Patched b' \<Rightarrow> Some b' | Consistent \<Rightarrow> Some b | Refetch \<Rightarrow> None)"

text \<open>Numbers of a parsed message are never \<open>NaN\<close>.\<close>

definition numeric_event :: "websocket_event \<Rightarrow> bool" where
  "numeric_event e = (case moveTargetOf e of Some t \<Rightarrow> mt_position t \<noteq> Some NaN | None \<Rightarrow> True)"

text \<open>What a moved or deleted event does to the map from ids to cards.\<close>

definition event_spec :: "websocket_event \<Rightarrow> (string \<rightharpoonup> card_row) \<Rightarrow> (string \<rightharpoonup> card_row)" where
  "event_spec e m =
     (case cardIdOf e of None \<Rightarrow> m | Some i \<Rightarrow>
        if actionOf e = ''deleted'' then m(i := None)
        else case moveTargetOf e of None \<Rightarrow> m | Some t \<Rightarrow>
          m(i := map_option (moved_card t) (m i)))"

lemma find_card_at: "find_card i (bd_columns b) = card_at b i"
proof -
  have "find P (xs @ ys) = (case find P xs of Some x \<Rightarrow> Some x | None \<Rightarrow> find P ys)" for P and xs ys :: "card_row list"
    by (induction xs) auto
  then have "find_card i cols = find (\<lambda>c. c_id c = i) (concat (map col_cards cols))" for cols
    by (induction cols) (auto split: option.splits)
  then show ?thesis by (simp add: card_at_def board_cards_def)
qed

lemma applyMove_Patched:
  assumes "applyMove b e = Patched b'"
  obtains i t c where "cardIdOf e = Some i" and "i \<noteq> []" and "moveTargetOf e = Some t" and "card_at b i = Some c"
    and "mt_columnId t \<in> col_id ` set (bd_columns b)" and "b' = relocated (moved_card t c) b"
proof -
  obtain i t where i: "cardIdOf e = Some i" "i \<noteq> []" and t: "moveTargetOf e = Some t"
    using assms by (auto simp: applyMove_def split: option.splits if_splits)
  obtain c col where c: "card_at b i = Some c" and "find (\<lambda>col. col_id col = mt_columnId t) (bd_columns b) = Some col"
    and b': "b' = relocated (moved_card t c) b"
    using assms i t by (auto simp: applyMove_def find_card_at relocated_def Let_def split: option.splits if_splits)
  then have "mt_columnId t \<in> col_id ` set (bd_columns b)"
    by (metis (mono_tags, lifting) find_SomeD image_eqI)
  then show thesis using that i t c b' by blast
qed

lemma applyDelete_Patched:
  "applyDelete b e = Patched b' \<Longrightarrow> \<exists>i. cardIdOf e = Some i \<and> b' = dropped i b"
  by (auto simp: applyDelete_def dropped_def split: option.splits if_splits)

lemma card_position: "board_ok b \<Longrightarrow> card_at b i = Some c \<Longrightarrow> c_position c \<noteq> NaN"
  by (auto simp: card_at_iff board_cards_mem dest!: board_ok_columns simp: column_ok_def list_all_iff)

lemma reconcile_Patched:
  assumes "board_ok b" and "numeric_event e" and "reconcileBoardEvent b e = Patched b'"
  shows "board_ok b' \<and> card_at b' = event_spec e (card_at b)"
proof (cases "actionOf e = ''moved''")
  case True
  then have "applyMove b e = Patched b'" using assms(3) by (simp add: reconcileBoardEvent_def)
  then show ?thesis
  proof (rule applyMove_Patched)
    fix i and t :: move_target and c
    let ?m = "moved_card t c"
    assume i: "cardIdOf e = Some i" and t: "moveTargetOf e = Some t" and c: "card_at b i = Some c"
      and col: "mt_columnId t \<in> col_id ` set (bd_columns b)" and b': "b' = relocated ?m b"
    have "c_position ?m \<noteq> NaN" using assms(2) t card_position [OF assms(1) c]
      by (auto simp: numeric_event_def moved_card_def split: option.splits)
    moreover have "c_id ?m = i" using c assms(1) by (simp add: card_at_iff moved_card_def)
    moreover have "c_column_id ?m = mt_columnId t" by (simp add: moved_card_def)
    ultimately show ?thesis
      using relocated_ok [OF assms(1), of ?m] card_at_relocated [OF assms(1), of ?m] col b' i t c True
      by (simp add: event_spec_def)
  qed
next
  case False
  then have "actionOf e = ''deleted''" and "applyDelete b e = Patched b'"
    using assms(3) by (auto simp: reconcileBoardEvent_def split: if_splits)
  then show ?thesis
    using applyDelete_Patched [of b e b'] dropped_ok [OF assms(1)] card_at_dropped [OF assms(1)]
    by (auto simp: event_spec_def)
qed

lemma relocated_columns [simp]: "map col_id (bd_columns (relocated c b)) = map col_id (bd_columns b)"
  by (simp add: relocated_def)

lemma dropped_columns [simp]: "map col_id (bd_columns (dropped i b)) = map col_id (bd_columns b)"
  by (simp add: dropped_def)

lemma reconcile_columns: "reconcileBoardEvent b e = Patched b' \<Longrightarrow> map col_id (bd_columns b') = map col_id (bd_columns b)"
  by (auto simp: reconcileBoardEvent_def split: if_splits elim!: applyMove_Patched dest!: applyDelete_Patched)

interpretation reconciler: board_patcher reconcile_patch cardIdOf numeric_event
proof
  fix b e b' i
  show "board_ok b \<Longrightarrow> numeric_event e \<Longrightarrow> reconcile_patch b e = Some b' \<Longrightarrow> board_ok b'"
    using reconcile_Patched [of b e b'] by (auto simp: reconcile_patch_def split: reconcile_result.splits)
  show "board_ok b \<Longrightarrow> numeric_event e \<Longrightarrow> reconcile_patch b e = Some b' \<Longrightarrow> cardIdOf e \<noteq> Some i \<Longrightarrow>
      card_at b' i = card_at b i"
    using reconcile_Patched [of b e b']
    by (auto simp: reconcile_patch_def event_spec_def split: reconcile_result.splits option.splits if_splits)
  show "reconcile_patch b e = Some b' \<Longrightarrow> map col_id (bd_columns b') = map col_id (bd_columns b)"
    using reconcile_columns by (auto simp: reconcile_patch_def split: reconcile_result.splits)
qed


lemma merge_Some:
  "mergeCardIntoBoard b c = Some b' \<Longrightarrow> c_column_id c \<in> col_id ` set (bd_columns b) \<and> b' = relocated c b"
  by (auto simp: mergeCardIntoBoard_def relocated_def split: option.splits)
     (metis (mono_tags, lifting) find_SomeD image_eqI)

interpretation merge: board_patcher mergeCardIntoBoard "\<lambda>c. Some (c_id c)" "\<lambda>c. c_position c \<noteq> NaN"
proof
  fix b c b' i
  show "board_ok b \<Longrightarrow> c_position c \<noteq> NaN \<Longrightarrow> mergeCardIntoBoard b c = Some b' \<Longrightarrow> board_ok b'"
    using relocated_ok by (auto dest: merge_Some)
  show "board_ok b \<Longrightarrow> c_position c \<noteq> NaN \<Longrightarrow> mergeCardIntoBoard b c = Some b' \<Longrightarrow> Some (c_id c) \<noteq> Some i \<Longrightarrow>
      card_at b' i = card_at b i"
    using card_at_relocated [of b c] by (auto dest: merge_Some)
  show "mergeCardIntoBoard b c = Some b' \<Longrightarrow> map col_id (bd_columns b') = map col_id (bd_columns b)"
    by (auto dest: merge_Some)
qed

lemma patchPresence_Some:
  assumes "board_ok b" and "patchExecutionPresence b e = Some b'"
  shows "b' = b \<or> (\<exists>i c p. stringField e ''card_id'' = Some i \<and> card_at b i = Some c \<and> nextPresence e c = Some p \<and>
    b' = map_card i (set_presence p) b)"
proof (cases "b' = b")
  case False
  then have ne: "ws_event e \<notin> set INERT_EVENTS" using assms(2) by (auto simp: patchExecutionPresence_def)
  then obtain i col n where i: "stringField e ''card_id'' = Some i" "i \<noteq> []" and fi: "find_in_columns i (bd_columns b) = Some (col, n)"
    using assms(2) by (auto simp: patchExecutionPresence_def split: option.splits if_splits)
  from find_in_columns_Some [OF fi] have col: "col \<in> set (bd_columns b)" "n < length (col_cards col)" "c_id (col_cards col ! n) = i" by auto
  let ?c = "col_cards col ! n"
  obtain p where p: "nextPresence e ?c = Some p" and b': "b' = b\<lparr>bd_columns := map (\<lambda>k. if col_id k = col_id col
      then k\<lparr>col_cards := (col_cards col)[n := set_presence p ?c]\<rparr> else k) (bd_columns b)\<rparr>"
    using assms(2) False ne i fi by (auto simp: patchExecutionPresence_def Let_def split: option.splits if_splits)
  have "b' = map_card i (set_presence p) b"
    using b' replaced_eq_map_card [OF assms(1) col(1,2) col(3) [symmetric], of "set_presence p"] by simp
  moreover have "card_at b i = Some ?c"
    using col assms(1) by (auto simp: card_at_iff board_cards_mem intro!: bexI [of _ col])
  ultimately show ?thesis using i p by blast
qed simp

lemma set_presence_keeps: "c_id (set_presence p c) = c_id c \<and> c_column_id (set_presence p c) = c_column_id c \<and>
    c_position (set_presence p c) = c_position c"
  by (simp add: set_presence_def)

interpretation presence: board_patcher patchExecutionPresence "\<lambda>e. stringField e ''card_id''" "\<lambda>_. True"
proof
  fix b e b' i
  assume ok: "board_ok b"
  show "patchExecutionPresence b e = Some b' \<Longrightarrow> board_ok b'"
    using patchPresence_Some [OF ok, of e b'] map_card_ok [OF ok set_presence_keeps] ok by auto
  show "patchExecutionPresence b e = Some b' \<Longrightarrow> stringField e ''card_id'' \<noteq> Some i \<Longrightarrow> card_at b' i = card_at b i"
    using patchPresence_Some [OF ok, of e b'] card_at_map_card [OF ok set_presence_keeps] by auto
next
  fix b e b'
  show "patchExecutionPresence b e = Some b' \<Longrightarrow> map col_id (bd_columns b') = map col_id (bd_columns b)"
    by (auto simp: patchExecutionPresence_def Let_def comp_def if_distrib [of col_id] cong: if_cong split: option.splits if_splits prod.splits)
qed



section \<open>Properties of the patches\<close>

lemma moved_card_fix: "c_column_id c = mt_columnId t \<Longrightarrow> c_position (moved_card t c) = c_position c \<Longrightarrow> moved_card t c = c"
  by (cases c) (simp add: moved_card_def)

lemma applyMove_Consistent:
  assumes "applyMove b e = Consistent"
  shows "\<exists>i t c. cardIdOf e = Some i \<and> moveTargetOf e = Some t \<and> card_at b i = Some c \<and> moved_card t c = c"
proof -
  obtain i t c where i: "cardIdOf e = Some i" and t: "moveTargetOf e = Some t" and c: "card_at b i = Some c"
    and ne: "i \<noteq> []"
    using assms by (auto simp: applyMove_def find_card_at split: option.splits if_splits)
  obtain col where "find (\<lambda>col. col_id col = mt_columnId t) (bd_columns b) = Some col"
    using assms i t c ne by (auto simp: applyMove_def find_card_at split: option.splits)
  then have "c_column_id c = mt_columnId t \<and> js_eq (c_position c) (c_position (moved_card t c))"
    using assms i t c ne by (simp add: applyMove_def find_card_at Let_def split: if_splits)
  then have "c_column_id c = mt_columnId t" and "c_position (moved_card t c) = c_position c"
    by (simp_all only: js_eq_def)
  then show ?thesis using i t c moved_card_fix by blast
qed

lemma drop_absent: "list_all (\<lambda>col. length (without_card i col) = length (col_cards col)) (bd_columns b) \<longleftrightarrow> card_at b i = None"
proof -
  have "length (without_card i col) = length (col_cards col) \<longleftrightarrow> (\<forall>c\<in>set (col_cards col). c_id c \<noteq> i)" for col
    unfolding without_card_def by (rule length_filter_all)
  then show ?thesis by (simp add: card_at_None image_iff board_cards_def list_all_iff) blast
qed

lemma applyDelete_Consistent:
  "applyDelete b e = Consistent \<longleftrightarrow> (\<exists>i. cardIdOf e = Some i \<and> i \<noteq> [] \<and> card_at b i = None)"
proof -
  have "\<not> list_ex (\<lambda>col. length (without_card i col) \<noteq> length (col_cards col)) (bd_columns b) \<longleftrightarrow> card_at b i = None" for i
    unfolding drop_absent [symmetric] by (auto simp: list_ex_iff list_all_iff)
  then show ?thesis by (auto simp: applyDelete_def split: option.splits if_splits)
qed

text \<open>
  C1. The reconciler refines its specification on the map from ids to cards: a patched board is
  well-formed and its cards are those the event prescribes (the card rewritten to the target
  column and position, or removed), every other card unchanged; and it answers that the cache is
  consistent only where the event prescribes no change.
\<close>

theorem reconcile_refines:
  assumes "board_ok b" and "numeric_event e"
  shows "case reconcileBoardEvent b e of
      Patched b' \<Rightarrow> board_ok b' \<and> card_at b' = event_spec e (card_at b)
    | Consistent \<Rightarrow> event_spec e (card_at b) = card_at b
    | Refetch \<Rightarrow> True"
proof (cases "reconcileBoardEvent b e")
  case (Patched b')
  then show ?thesis using reconcile_Patched [OF assms] by simp
next
  case Consistent
  show ?thesis
  proof (cases "actionOf e = ''moved''")
    case True
    then have "applyMove b e = Consistent" using Consistent by (simp add: reconcileBoardEvent_def)
    then obtain i t c where "cardIdOf e = Some i" "moveTargetOf e = Some t" "card_at b i = Some c" "moved_card t c = c"
      using applyMove_Consistent by blast
    then show ?thesis using Consistent True by (auto simp: event_spec_def)
  next
    case False
    then have "applyDelete b e = Consistent" and "actionOf e = ''deleted''"
      using Consistent by (auto simp: reconcileBoardEvent_def split: if_splits)
    then show ?thesis using Consistent by (auto simp: applyDelete_Consistent event_spec_def)
  qed
qed simp

lemma moved_card_idem: "moved_card t (moved_card t c) = moved_card t c"
  by (simp add: moved_card_def split: option.split)

lemma applyMove_settled:
  assumes "board_ok b" and "cardIdOf e = Some i" and "i \<noteq> []" and "moveTargetOf e = Some t" and "card_at b i = Some c"
    and "moved_card t c = c" and "mt_columnId t \<in> col_id ` set (bd_columns b)"
  shows "applyMove b e = Consistent"
proof -
  have "c_column_id (moved_card t c) = mt_columnId t" by (simp add: moved_card_def)
  moreover have "c_position c \<noteq> NaN" using assms(1,5) by (rule card_position)
  moreover have "find (\<lambda>col. col_id col = mt_columnId t) (bd_columns b) \<noteq> None"
    using assms(7) by (auto simp: find_None_iff)
  ultimately show ?thesis
    using assms by (auto simp: applyMove_def find_card_at js_eq_def Let_def)
qed

text \<open>
  Duplicate delivery is harmless: an event that patched the cached board finds it consistent
  when its twin arrives.
\<close>

lemma reconcile_idempotent:
  assumes "board_ok b" and "numeric_event e" and "reconcileBoardEvent b e = Patched b'"
  shows "reconcileBoardEvent b' e = Consistent"
proof (cases "actionOf e = ''moved''")
  case True
  then have "applyMove b e = Patched b'" using assms(3) by (simp add: reconcileBoardEvent_def)
  then obtain i t c where i: "cardIdOf e = Some i" "i \<noteq> []" and t: "moveTargetOf e = Some t" and c: "card_at b i = Some c"
    and col: "mt_columnId t \<in> col_id ` set (bd_columns b)" by (rule applyMove_Patched)
  have ok: "board_ok b'" and "card_at b' = event_spec e (card_at b)" using reconcile_Patched [OF assms] by auto
  then have "card_at b' i = Some (moved_card t c)" using True i t c by (simp add: event_spec_def)
  moreover have "mt_columnId t \<in> col_id ` set (bd_columns b')"
    using col reconcile_columns [OF assms(3)] by (metis list.set_map)
  ultimately have "applyMove b' e = Consistent"
    using applyMove_settled [OF ok i t] moved_card_idem by blast
  then show ?thesis using True by (simp add: reconcileBoardEvent_def)
next
  case False
  then have del: "actionOf e = ''deleted''" and patched: "applyDelete b e = Patched b'"
    using assms(3) by (auto simp: reconcileBoardEvent_def split: if_splits)
  then obtain i where "cardIdOf e = Some i" "i \<noteq> []"
    by (auto simp: applyDelete_def split: option.splits if_splits)
  moreover have "card_at b' = event_spec e (card_at b)" using reconcile_Patched [OF assms] by auto
  ultimately have "applyDelete b' e = Consistent"
    using del by (simp add: applyDelete_Consistent event_spec_def)
  then show ?thesis using del by (simp add: reconcileBoardEvent_def)
qed


definition sample_row :: "string \<Rightarrow> string \<Rightarrow> rat \<Rightarrow> card_row" where
  "sample_row i col p = \<lparr>c_id = i, c_title = i, c_description = [], c_type = Task, c_priority = PNone, c_position = Fin p,
     c_column_id = col, c_participants = [], c_due_date = None, c_status = None, c_labels = None,
     has_pending_approval = None, pending_approval_id = None, agent_presence = None, active_execution_id = None,
     last_agent_activity_at = None, pr_url = None, branch_name = None, depends_on_count = None, blocks_count = None,
     dependency_status = None, c_created_at = ''2026-01-01'', c_updated_at = ''2026-01-01''\<rparr>"

definition sample_column :: "string \<Rightarrow> rat \<Rightarrow> card_row list \<Rightarrow> column_row" where
  "sample_column i p cs = \<lparr>col_id = i, col_name = i, col_position = Fin p, col_board_id = ''b'', col_type = None,
     col_cards = cs, col_created_at = ''2026-01-01'', col_updated_at = ''2026-01-01''\<rparr>"

definition sample_board :: "column_row list \<Rightarrow> board_detail" where
  "sample_board cols = \<lparr>b_id = ''b'', b_slug = None, b_name = ''b'', b_description = [], b_tags = [], b_workspace_id = ''w'',
     is_frozen = None, b_frozen_at = None, b_created_at = ''2026-01-01'', b_updated_at = ''2026-01-01'', card_count = None,
     column_count = None, last_activity_at = None, loop_configured = None, has_definition = None,
     enforce_done_merge_gate = None, bd_columns = cols\<rparr>"

definition sample_kanban :: board_detail where
  "sample_kanban = sample_board [sample_column ''todo'' 1 [sample_row ''a'' ''todo'' 1, sample_row ''b'' ''todo'' 2],
     sample_column ''done'' 2 [sample_row ''c'' ''done'' 5]]"

definition sample_moved :: websocket_event where
  "sample_moved = \<lparr>ws_event = ''card.moved'', ws_timestamp = [], ws_event_id = ''1'', ws_payload =
     [(''entity_id'', JStr ''a''), (''after_state'', JObj [(''column_id'', JStr ''done''), (''position'', JNum (Fin 9))])]\<rparr>"

lemma sample_kanban_ok: "board_ok sample_kanban"
  by code_simp

lemma sample_moved_numeric: "numeric_event sample_moved"
  by code_simp

theorem reconcile_refines_witness:
  "board_ok (sample_board [sample_column ''todo'' 1 [sample_row ''b'' ''todo'' 2],
     sample_column ''done'' 2 [sample_row ''c'' ''done'' 5, sample_row ''a'' ''done'' 9]])"
proof -
  have "reconcileBoardEvent sample_kanban sample_moved = Patched (sample_board [sample_column ''todo'' 1 [sample_row ''b'' ''todo'' 2],
     sample_column ''done'' 2 [sample_row ''c'' ''done'' 5, sample_row ''a'' ''done'' 9]])" by code_simp
  then show ?thesis using reconcile_refines [OF sample_kanban_ok sample_moved_numeric] by simp
qed

lemma find_rev_unique: "distinct (map f xs) \<Longrightarrow> find (\<lambda>x. f x = i) (rev xs) = find (\<lambda>x. f x = i) xs"
proof -
  assume d: "distinct (map f xs)"
  have "find (\<lambda>x. f x = i) (rev xs) = Some x \<longleftrightarrow> find (\<lambda>x. f x = i) xs = Some x" for x
    using d find_mem_iff [of f "rev xs"] by (simp add: find_mem_iff rev_map [symmetric])
  then show ?thesis by (metis option.exhaust)
qed

lemma optimisticMove_relocated:
  assumes "board_ok b" and "card_at b (mv_card_id mv) = Some c"
  shows "optimisticMove mv b = relocated (c\<lparr>c_column_id := mv_column_id mv, c_position := mv_position mv\<rparr>) b"
proof -
  have "find (\<lambda>c. c_id c = mv_card_id mv) (rev (board_cards b)) = Some c"
    using assms find_rev_unique [of c_id "board_cards b"] by (simp add: board_ok_def card_at_def)
  moreover have "c_id c = mv_card_id mv" using assms by (simp add: card_at_iff)
  ultimately show ?thesis
    by (simp add: optimisticMove_def relocated_def relocate_def without_card_def drop_card_eq comp_def)
qed

text \<open>
  C4. The optimistic move agrees with the reconciler: moving a cached card locally leaves the
  board well-formed with the cards the server's event will prescribe, and the echo of that event
  is recognised as already applied.
\<close>

theorem optimistic_echo:
  assumes "board_ok b" and "card_at b (mv_card_id mv) = Some c" and "mv_card_id mv \<noteq> []"
    and "mv_column_id mv \<in> col_id ` set (bd_columns b)" and "mv_position mv \<noteq> NaN"
    and "actionOf e = ''moved''" and "cardIdOf e = Some (mv_card_id mv)"
    and "moveTargetOf e = Some \<lparr>mt_columnId = mv_column_id mv, mt_position = Some (mv_position mv)\<rparr>"
  shows "board_ok (optimisticMove mv b) \<and> card_at (optimisticMove mv b) = event_spec e (card_at b) \<and>
    reconcileBoardEvent (optimisticMove mv b) e = Consistent"
proof -
  let ?t = "\<lparr>mt_columnId = mv_column_id mv, mt_position = Some (mv_position mv)\<rparr>"
  let ?c = "moved_card ?t c"
  have b': "optimisticMove mv b = relocated ?c b"
    using optimisticMove_relocated [OF assms(1,2)] by (simp add: moved_card_def)
  have id: "c_id ?c = mv_card_id mv" using assms(1,2) by (simp add: card_at_iff moved_card_def)
  have ok: "board_ok (relocated ?c b)" and look: "card_at (relocated ?c b) = (card_at b)(mv_card_id mv \<mapsto> ?c)"
    using relocated_ok [OF assms(1), of ?c] card_at_relocated [OF assms(1), of ?c] assms(4,5) id by (auto simp: moved_card_def)
  have "mt_columnId ?t \<in> col_id ` set (bd_columns (relocated ?c b))"
    using assms(4) relocated_columns [of ?c b] by (metis list.set_map move_target.select_convs(1))
  then have "applyMove (relocated ?c b) e = Consistent"
    using applyMove_settled [OF ok assms(7,3,8)] look moved_card_idem by simp
  then show ?thesis
    using b' ok look assms(2,6,7,8) by (simp add: event_spec_def reconcileBoardEvent_def)
qed

theorem optimistic_echo_witness:
  "reconcileBoardEvent (optimisticMove \<lparr>mv_card_id = ''a'', mv_column_id = ''done'', mv_position = Fin 9\<rparr> sample_kanban) sample_moved = Consistent"
proof -
  let ?mv = "\<lparr>mv_card_id = ''a'', mv_column_id = ''done'', mv_position = Fin 9\<rparr>"
  have "card_at sample_kanban (mv_card_id ?mv) = Some (sample_row ''a'' ''todo'' 1)" by code_simp
  moreover have "mv_card_id ?mv \<noteq> []" "mv_position ?mv \<noteq> NaN" by simp_all
  moreover have "mv_column_id ?mv \<in> col_id ` set (bd_columns sample_kanban)" by code_simp
  moreover have "actionOf sample_moved = ''moved''" "cardIdOf sample_moved = Some (mv_card_id ?mv)"
    "moveTargetOf sample_moved = Some \<lparr>mt_columnId = mv_column_id ?mv, mt_position = Some (mv_position ?mv)\<rparr>" by code_simp+
  ultimately show ?thesis using optimistic_echo [OF sample_kanban_ok] by blast
qed



section \<open>Presence over a series of events\<close>

definition shows_run :: "board_detail \<Rightarrow> string \<Rightarrow> string \<Rightarrow> bool" where
  "shows_run b i r = (case card_at b i of None \<Rightarrow> False
     | Some c \<Rightarrow> active_execution_id c = Some r \<and> agent_presence c = Some Active)"

text \<open>Events that say nothing about the run \<open>r\<close> on card \<open>i\<close>: a later run has not started on it,
  and a terminal event belongs to some other run.\<close>

definition other_run :: "string \<Rightarrow> string \<Rightarrow> websocket_event \<Rightarrow> bool" where
  "other_run i r e = (stringField e ''card_id'' = Some i \<longrightarrow>
     ws_event e \<notin> set ACTIVATING_EVENTS \<and>
     (ws_event e \<in> set TERMINAL_EVENTS \<longrightarrow> js_truthy (stringField e ''execution_id'') \<and> stringField e ''execution_id'' \<noteq> Some r))"

lemma presence_step_other:
  assumes "board_ok b" and "shows_run b i r" and "r \<noteq> []" and "other_run i r e" and "patchExecutionPresence b e = Some b'"
  shows "shows_run b' i r"
proof (cases "stringField e ''card_id'' = Some i")
  case True
  obtain c where c: "card_at b i = Some c" "active_execution_id c = Some r"
    using assms(2) by (auto simp: shows_run_def split: option.splits)
  have "nextPresence e c = None"
    using assms(3,4) True c by (auto simp: nextPresence_def other_run_def Let_def)
  then have "b' = b" using patchPresence_Some [OF assms(1,5)] True c by auto
  then show ?thesis using assms(2) by simp
next
  case False
  then have "card_at b' i = card_at b i" using presence.patch_frame [OF assms(1) _ assms(5)] by simp
  then show ?thesis using assms(2) by (simp add: shows_run_def)
qed

lemma presence_run_other:
  "board_ok b \<Longrightarrow> shows_run b i r \<Longrightarrow> r \<noteq> [] \<Longrightarrow> list_all (other_run i r) es \<Longrightarrow>
     shows_run (patch_all patchExecutionPresence es b) i r"
proof (induction es arbitrary: b)
  case (Cons e es)
  then show ?case
    using presence_step_other [of b i r e] presence.patch_ok [of b e] by (auto split: option.splits)
qed simp

lemma patchPresence_eq:
  assumes "board_ok b" and "card_at b i = Some c" and "i \<noteq> []" and "stringField e ''card_id'' = Some i"
    and "ws_event e \<notin> set INERT_EVENTS" and "nextPresence e c = Some p"
  shows "patchExecutionPresence b e = Some (if agent_presence c = Some (fst p) \<and> active_execution_id c = snd p then b
           else map_card i (set_presence p) b)"
proof -
  obtain col n where fi: "find_in_columns i (bd_columns b) = Some (col, n)"
    using assms(2) find_in_columns_None [of i b] by (metis option.distinct(1) old.prod.exhaust option.exhaust)
  note col = find_in_columns_Some [OF fi]
  have cn: "col_cards col ! n = c"
    using col assms(1,2) by (auto simp: card_at_iff board_ok_def board_cards_def distinct_map inj_on_def)
  have "b\<lparr>bd_columns := map (\<lambda>k. if col_id k = col_id col then k\<lparr>col_cards := (col_cards col)[n := set_presence p c]\<rparr> else k)
      (bd_columns b)\<rparr> = map_card i (set_presence p) b"
    using replaced_eq_map_card [OF assms(1), of col n i "set_presence p"] col unfolding cn by simp
  then show ?thesis using cn assms(3-6) fi by (simp add: patchExecutionPresence_def Let_def)
qed

lemma started_event:
  assumes "board_ok b" and "card_at b i = Some c" and "i \<noteq> []" and "stringField e ''card_id'' = Some i"
    and "ws_event e = ''execution.started''" and "stringField e ''execution_id'' = Some r" and "r \<noteq> []"
  shows "\<exists>b'. patchExecutionPresence b e = Some b' \<and> shows_run b' i r"
proof -
  have "nextPresence e c = Some (Active, Some r)"
    using assms(5-7) by (simp add: nextPresence_def ACTIVATING_EVENTS_def Let_def)
  moreover have "ws_event e \<notin> set INERT_EVENTS" using assms(5) by (simp add: INERT_EVENTS_def)
  ultimately show ?thesis
    using patchPresence_eq [OF assms(1-4)] assms(2) card_at_map_card [OF assms(1) set_presence_keeps, of i "\<lambda>_. (Active, Some r)"]
    by (auto simp: shows_run_def) (simp_all add: set_presence_def)
qed

text \<open>
  A run's indicator is not lost to late or foreign events: once \<open>execution.started\<close> of a run
  has been applied to a cached card, the card shows that run after any series of execution events
  that contains neither a new start on this card nor the end of this very run.
\<close>

lemma presence_run_tracked:
  assumes "board_ok b" and "card_at b i = Some c" and "i \<noteq> []" and "stringField e ''card_id'' = Some i"
    and "ws_event e = ''execution.started''" and "stringField e ''execution_id'' = Some r" and "r \<noteq> []"
    and "list_all (other_run i r) es"
  shows "board_ok (patch_all patchExecutionPresence (e # es) b) \<and> shows_run (patch_all patchExecutionPresence (e # es) b) i r"
proof -
  obtain b' where b': "patchExecutionPresence b e = Some b'" and run: "shows_run b' i r"
    using started_event [OF assms(1-7)] by blast
  have "board_ok b'" using presence.patch_ok [OF assms(1) _ b'] by simp
  then show ?thesis
    using presence_run_other [OF _ run assms(7,8)] presence.patch_all_ok [of b' es] b' by (simp add: list_all_iff)
qed

definition sample_execution :: "string \<Rightarrow> string \<Rightarrow> string \<Rightarrow> websocket_event" where
  "sample_execution name i r = \<lparr>ws_event = name, ws_timestamp = [], ws_event_id = ''2'',
     ws_payload = [(''card_id'', JStr i), (''execution_id'', JStr r)]\<rparr>"

section \<open>Column order\<close>

lemma map_filter_ids:
  assumes "distinct (map col_id cols)"
  shows "map col_id (List.map_filter (jm_get (jm_from col_id (\<lambda>c. c) cols [])) ids) = filter (\<lambda>i. i \<in> col_id ` set cols) ids"
proof -
  have get: "jm_get (jm_from col_id (\<lambda>c. c) cols []) i = find (\<lambda>c. col_id c = i) cols" for i
    using find_rev_unique [OF assms, of i] by (simp add: jm_from_get split: option.split)
  have "find (\<lambda>c. col_id c = i) cols = None \<longleftrightarrow> i \<notin> col_id ` set cols" for i
    by (auto simp: find_None_iff)
  then show ?thesis
    by (induction ids) (auto simp: get List.map_filter_simps split: option.split dest: find_SomeD)
qed

lemma map_filter_columns:
  assumes "distinct (map col_id cols)"
  shows "set (List.map_filter (jm_get (jm_from col_id (\<lambda>c. c) cols [])) ids) = {col \<in> set cols. col_id col \<in> set ids}"
proof -
  have get: "jm_get (jm_from col_id (\<lambda>c. c) cols []) i = Some c \<longleftrightarrow> c \<in> set cols \<and> col_id c = i" for i c
    using find_rev_unique [OF assms, of i] find_mem_iff [OF assms, of i c]
    by (cases "find (\<lambda>x. col_id x = i) cols") (auto simp: jm_from_get)
  then show ?thesis by (auto simp: List.map_filter_def image_iff) (metis get option.sel)+
qed


lemma enumerate_zip: "length ps = length xs \<Longrightarrow>
    map (\<lambda>(n, x). g x (case js_at ps (int n) of Some p \<Rightarrow> p | None \<Rightarrow> d n)) (enumerate 0 xs) = map2 g xs ps"
  by (rule nth_equalityI) (auto simp: nth_enumerate_eq js_at_def)

definition ordered_columns :: "string list \<Rightarrow> board_detail \<Rightarrow> column_row list" where
  "ordered_columns column_ids old = List.map_filter (jm_get (jm_from col_id (\<lambda>c. c) (bd_columns old) [])) column_ids @
     filter (\<lambda>col. col_id col \<notin> set column_ids) (bd_columns old)"

lemma ordered_columns_mset:
  assumes "distinct (map col_id (bd_columns b))" and "distinct ids"
  shows "mset (ordered_columns ids b) = mset (bd_columns b)"
proof (rule set_eq_iff_mset_eq_distinct [THEN iffD1])
  have "map col_id (ordered_columns ids b) = filter (\<lambda>i. i \<in> col_id ` set (bd_columns b)) ids @ filter (\<lambda>i. i \<notin> set ids) (map col_id (bd_columns b))"
    using map_filter_ids [OF assms(1)] by (simp add: ordered_columns_def filter_map comp_def)
  then have "distinct (map col_id (ordered_columns ids b))" using assms by (auto simp: distinct_filter)
  then show "distinct (ordered_columns ids b)" by (simp add: distinct_map)
  show "distinct (bd_columns b)" using assms(1) by (simp add: distinct_map)
  show "set (ordered_columns ids b) = set (bd_columns b)"
    using map_filter_columns [OF assms(1)] by (auto simp: ordered_columns_def)
qed

lemma reorder_eq:
  assumes "distinct (map col_id (bd_columns b))" and "distinct ids"
  shows "bd_columns (reorderColumns ids b) = map2 (\<lambda>col p. col\<lparr>col_position := p\<rparr>) (ordered_columns ids b)
           (js_sort (pos_cmp (\<lambda>p. p)) (map col_position (bd_columns b)))"
proof -
  have "length (js_sort (pos_cmp (\<lambda>p. p)) (map col_position (bd_columns b))) = length (ordered_columns ids b)"
    using ordered_columns_mset [OF assms] by (metis length_js_sort length_map size_mset)
  from enumerate_zip [OF this] show ?thesis
    by (simp add: reorderColumns_def ordered_columns_def Let_def)
qed

lemma map2_fst: "length xs = length ys \<Longrightarrow> (\<And>x y. f (g x y) = f x) \<Longrightarrow> map f (map2 g xs ys) = map f xs"
  by (induction xs ys rule: list_induct2) auto

lemma map2_snd: "length xs = length ys \<Longrightarrow> (\<And>x y. f (g x y) = y) \<Longrightarrow> map f (map2 g xs ys) = ys"
  by (induction xs ys rule: list_induct2) auto

text \<open>
  Reordering columns shows the requested order at once and loses nothing: the known columns
  come in the order asked for, columns the caller did not know of follow in their old order, the
  positions ascend, so that sorting by position keeps this order, and the board stays well-formed
  with the same cards.
\<close>

lemma reorder_columns_order:
  assumes "board_ok b" and "distinct ids" and "\<forall>col\<in>set (bd_columns b). col_position col \<noteq> NaN"
  shows "map col_id (bd_columns (reorderColumns ids b)) =
      filter (\<lambda>i. i \<in> col_id ` set (bd_columns b)) ids @ filter (\<lambda>i. i \<notin> set ids) (map col_id (bd_columns b)) \<and>
    js_sort (pos_cmp col_position) (bd_columns (reorderColumns ids b)) = bd_columns (reorderColumns ids b) \<and>
    mset (board_cards (reorderColumns ids b)) = mset (board_cards b) \<and> board_ok (reorderColumns ids b)"
proof -
  let ?ps = "js_sort (pos_cmp (\<lambda>p. p)) (map col_position (bd_columns b))" and ?oc = "ordered_columns ids b"
  let ?new = "bd_columns (reorderColumns ids b)"
  have dc: "distinct (map col_id (bd_columns b))" using assms(1) by (simp add: board_ok_def)
  note new = reorder_eq [OF dc assms(2)] and ms = ordered_columns_mset [OF dc assms(2)]
  have len: "length ?oc = length ?ps" using ms by (metis length_js_sort length_map size_mset)
  have ids: "map col_id ?new = map col_id ?oc" using len by (simp add: new map2_fst del: map_map)
  have cards: "map col_cards ?new = map col_cards ?oc" using len by (simp add: new map2_fst del: map_map)
  have "map col_position ?new = ?ps" using len by (simp add: new map2_snd del: map_map)
  moreover have "sorted_wrt (cmp_le (pos_cmp (\<lambda>p. p))) ?ps" using assms(3) by (intro pos.sort_sorted) auto
  ultimately have "sorted_wrt (cmp_le (pos_cmp (\<lambda>p. p))) (map col_position ?new)" by simp
  then have "sorted_wrt (cmp_le (pos_cmp col_position)) ?new"
    unfolding sorted_wrt_map by (rule sorted_wrt_mono_rel [rotated]) (simp add: cmp_le_def pos_cmp_def)
  then have srt: "js_sort (pos_cmp col_position) ?new = ?new" by (rule pos.sort_id)
  have order: "map col_id ?new = filter (\<lambda>i. i \<in> col_id ` set (bd_columns b)) ids @ filter (\<lambda>i. i \<notin> set ids) (map col_id (bd_columns b))"
    using ids map_filter_ids [OF dc] by (simp add: ordered_columns_def filter_map comp_def)
  have same: "mset (board_cards (reorderColumns ids b)) = mset (board_cards b)"
    using mset_concat_perm [OF ms, of col_cards] cards by (simp add: board_cards_def)
  have "column_ok col" if "col \<in> set ?new" for col
  proof -
    from that obtain k p where "k \<in> set ?oc" and col: "col = k\<lparr>col_position := p\<rparr>" using new by (auto dest: set_zip_leftD)
    then have "column_ok k" using ms board_ok_columns [OF assms(1)] by (metis mset_eq_setD)
    then show ?thesis by (simp add: col column_ok_def)
  qed
  moreover have "distinct (map c_id (board_cards (reorderColumns ids b)))"
    using same assms(1) by (metis board_ok_def distinct_map_mset)
  moreover have "distinct (map col_id ?new)" using ids ms dc by (metis distinct_map_mset)
  ultimately have "board_ok (reorderColumns ids b)" by (simp add: board_ok_def list_all_iff)
  then show ?thesis using order srt same by blast
qed

end
