(* ===== verification/Websocket_Service.thy ===== *)
theory Websocket_Service
  imports Kanban_Types
begin

text \<open>
  The websocket client (\<open>lib/websocket.ts\<close>): connection life cycle with reconnection and
  backoff, the subscription set it sends to the server, and the routing of events to handlers.

  The state holds the service's fields together with the browser's side of them: the sockets it
  opened, each with its ready state and the last subscription frame sent on it, the pending
  timers, and the log of calls and effects. Handlers are numbers. The handler set of a pattern is
  an object that closures keep hold of, so sets live in a store (\<open>wv_sets\<close>) and the
  subscription map and the unsubscribe closures refer to them by index. Handlers are called but
  their effects on the service during a dispatch are not followed.
\<close>

datatype connection_status = Connecting | Connected | Disconnected | Reconnecting

datatype ready_state = SConnecting | SOpen | SClosing | SClosed

record subscription_denial =
  sd_patterns :: "json list"
  sd_errorCode :: string

datatype ws_output =
    StatusCalled nat connection_status
  | DenialCalled nat subscription_denial
  | HeartbeatCalled nat int
  | RevokedCalled nat
  | EventCalled nat json
  | CloseCalled nat "int option"

record socket =
  sk_ready :: ready_state
  sk_sent :: "string list option"

record ws_state =
  wv_ws :: "nat option"
  wv_handlers :: "(string, nat) jsmap"
  wv_sets :: "nat list list"
  statusHandlers :: "nat list"
  denialHandlers :: "nat list"
  heartbeatHandlers :: "nat list"
  accessRevokedHandlers :: "nat list"
  lastHeartbeatAt :: "int option"
  wv_status :: connection_status
  reconnectAttempt :: nat
  reconnectTimer :: "nat option"
  intentionalClose :: bool
  wv_sockets :: "socket list"
  wv_timers :: "(nat \<times> int) list"
  wv_next_timer :: nat
  wv_out :: "ws_output list"

definition RECONNECT_BASE :: int where "RECONNECT_BASE = 1000"

definition RECONNECT_MAX :: int where "RECONNECT_MAX = 30000"

definition ACCESS_REVOKED_CLOSE_CODES :: "int list" where
  "ACCESS_REVOKED_CLOSE_CODES = [4001, 4002]"

definition ws_init :: ws_state where
  "ws_init = \<lparr>wv_ws = None, wv_handlers = [], wv_sets = [], statusHandlers = [], denialHandlers = [], heartbeatHandlers = [],
     accessRevokedHandlers = [], lastHeartbeatAt = None, wv_status = Disconnected, reconnectAttempt = 0,
     reconnectTimer = None, intentionalClose = False, wv_sockets = [], wv_timers = [], wv_next_timer = 0, wv_out = []\<rparr>"

text \<open>The constructor's endpoint.\<close>

definition ws_url :: "string \<Rightarrow> string \<Rightarrow> string option \<Rightarrow> string" where
  "ws_url baseURL workspaceSlug authParam =
     (let wsBase = (if take 4 baseURL = ''http'' then ''ws'' @ drop 4 baseURL else baseURL);
          url = wsBase @ ''/ws/workspaces/'' @ workspaceSlug @ ''/events'' in
      if js_truthy authParam then url @ ''?token='' @ the authParam else url)"

definition emit :: "ws_output list \<Rightarrow> ws_state \<Rightarrow> ws_state" where
  "emit os st = st\<lparr>wv_out := wv_out st @ os\<rparr>"

definition setStatus :: "connection_status \<Rightarrow> ws_state \<Rightarrow> ws_state" where
  "setStatus s st = emit (map (\<lambda>h. StatusCalled h s) (statusHandlers st)) (st\<lparr>wv_status := s\<rparr>)"

definition sock_ready :: "ws_state \<Rightarrow> nat \<Rightarrow> ready_state" where
  "sock_ready st s = (if s < length (wv_sockets st) then sk_ready (wv_sockets st ! s) else SClosed)"

definition set_ready :: "nat \<Rightarrow> ready_state \<Rightarrow> ws_state \<Rightarrow> ws_state" where
  "set_ready s r st = st\<lparr>wv_sockets := (wv_sockets st)[s := (wv_sockets st ! s)\<lparr>sk_ready := r\<rparr>]\<rparr>"

text \<open>The whole pattern set goes out when the current socket is open.\<close>

definition sendSubscriptions :: "ws_state \<Rightarrow> ws_state" where
  "sendSubscriptions st = (case wv_ws st of None \<Rightarrow> st | Some s \<Rightarrow>
     if sock_ready st s = SOpen
     then st\<lparr>wv_sockets := (wv_sockets st)[s := (wv_sockets st ! s)\<lparr>sk_sent := Some (jm_keys (wv_handlers st))\<rparr>]\<rparr>
     else st)"

definition connect :: "ws_state \<Rightarrow> ws_state" where
  "connect st =
     (let st1 = setStatus Connecting (st\<lparr>intentionalClose := False\<rparr>) in
      st1\<lparr>wv_sockets := wv_sockets st1 @ [\<lparr>sk_ready = SConnecting, sk_sent = None\<rparr>], wv_ws := Some (length (wv_sockets st1))\<rparr>)"

definition ws_onopen :: "nat \<Rightarrow> ws_state \<Rightarrow> ws_state" where
  "ws_onopen s st =
     (if wv_ws st \<noteq> Some s then st else
      let st1 = setStatus Connected (st\<lparr>reconnectAttempt := 0\<rparr>) in
      if wv_handlers st1 \<noteq> [] then sendSubscriptions st1 else st1)"

definition notifyDenial :: "json \<Rightarrow> ws_state \<Rightarrow> ws_state" where
  "notifyDenial frame st =
     (let denial = \<lparr>sd_patterns = (case jfield frame ''patterns'' of Some (JArr ps) \<Rightarrow> ps | _ \<Rightarrow> []),
                    sd_errorCode = (case jfield frame ''error_code'' of Some (JStr c) \<Rightarrow> c | _ \<Rightarrow> ''unknown'')\<rparr> in
      emit (map (\<lambda>h. DenialCalled h denial) (denialHandlers st)) st)"

definition notifyHeartbeat :: "int \<Rightarrow> ws_state \<Rightarrow> ws_state" where
  "notifyHeartbeat now st = emit (map (\<lambda>h. HeartbeatCalled h now) (heartbeatHandlers st)) (st\<lparr>lastHeartbeatAt := Some now\<rparr>)"

definition notifyAccessRevoked :: "ws_state \<Rightarrow> ws_state" where
  "notifyAccessRevoked st = emit (map RevokedCalled (accessRevokedHandlers st)) st"

definition ends_with :: "string \<Rightarrow> string \<Rightarrow> bool" where
  "ends_with suf s = (length suf \<le> length s \<and> drop (length s - length suf) s = suf)"

definition matchesPattern :: "string \<Rightarrow> string \<Rightarrow> bool" where
  "matchesPattern pattern eventType =
     (if pattern = ''*'' then True
      else if ends_with ''.*'' pattern
      then take (length pattern - 1) eventType = butlast pattern
      else pattern = eventType)"

definition routeEvent :: "json \<Rightarrow> ws_state \<Rightarrow> ws_state" where
  "routeEvent event st = (case jfield event ''event'' of
     Some (JStr name) \<Rightarrow>
       emit (concat (map (\<lambda>(pattern, sid). if matchesPattern pattern name
              then map (\<lambda>h. EventCalled h event) (wv_sets st ! sid) else []) (wv_handlers st))) st
   | _ \<Rightarrow> st)"

text \<open>A frame is \<open>None\<close> when it is not JSON.\<close>

definition ws_onmessage :: "nat \<Rightarrow> json option \<Rightarrow> int \<Rightarrow> ws_state \<Rightarrow> ws_state" where
  "ws_onmessage s data now st =
     (if wv_ws st \<noteq> Some s then st else
      case data of
        None \<Rightarrow> st
      | Some frame \<Rightarrow>
          if jfield frame ''type'' = Some (JStr ''subscription_denied'') then notifyDenial frame st
          else if jfield frame ''type'' = Some (JStr ''ping'') then notifyHeartbeat now st
          else routeEvent frame st)"

definition reconnect_delay :: "nat \<Rightarrow> int" where
  "reconnect_delay attempt = min (RECONNECT_BASE * 2 ^ attempt) RECONNECT_MAX"

definition scheduleReconnect :: "ws_state \<Rightarrow> ws_state" where
  "scheduleReconnect st =
     (let st1 = setStatus Reconnecting st;
          t = wv_next_timer st1 in
      st1\<lparr>reconnectAttempt := reconnectAttempt st1 + 1, reconnectTimer := Some t,
          wv_timers := wv_timers st1 @ [(t, reconnect_delay (reconnectAttempt st1))], wv_next_timer := t + 1\<rparr>)"

definition reconnect_fires :: "nat \<Rightarrow> ws_state \<Rightarrow> ws_state" where
  "reconnect_fires t st = connect (st\<lparr>wv_timers := filter (\<lambda>p. fst p \<noteq> t) (wv_timers st), reconnectTimer := None\<rparr>)"

definition ws_onclose :: "nat \<Rightarrow> int \<Rightarrow> ws_state \<Rightarrow> ws_state" where
  "ws_onclose s code st =
     (if wv_ws st \<noteq> Some s then st
      else if intentionalClose st \<or> code = 1000 then setStatus Disconnected st
      else scheduleReconnect (if code \<in> set ACCESS_REVOKED_CLOSE_CODES then notifyAccessRevoked st else st))"

definition disconnect :: "ws_state \<Rightarrow> ws_state" where
  "disconnect st =
     (let st1 = st\<lparr>intentionalClose := True\<rparr>;
          st2 = (case reconnectTimer st1 of None \<Rightarrow> st1
                 | Some t \<Rightarrow> st1\<lparr>wv_timers := filter (\<lambda>p. fst p \<noteq> t) (wv_timers st1), reconnectTimer := None\<rparr>);
          st3 = (case wv_ws st2 of None \<Rightarrow> st2
                 | Some s \<Rightarrow>
                     let closing = (if sock_ready st2 s = SClosed then st2 else set_ready s SClosing st2) in
                     emit [CloseCalled s (if sock_ready st2 s = SOpen then Some 1000 else None)] (closing\<lparr>wv_ws := None\<rparr>))
      in setStatus Disconnected st3)"

text \<open>\<open>subscribe\<close> returns the closure that undoes it: the pattern, the handler set and the handler.\<close>

definition subscribe :: "string \<Rightarrow> nat \<Rightarrow> ws_state \<Rightarrow> ws_state \<times> (string \<times> nat \<times> nat)" where
  "subscribe pattern h st =
     (case jm_get (wv_handlers st) pattern of
        Some sid \<Rightarrow> (st\<lparr>wv_sets := (wv_sets st)[sid := js_add h (wv_sets st ! sid)]\<rparr>, (pattern, sid, h))
      | None \<Rightarrow>
          let sid = length (wv_sets st) in
          (sendSubscriptions (st\<lparr>wv_sets := wv_sets st @ [[h]], wv_handlers := jm_set pattern sid (wv_handlers st)\<rparr>), (pattern, sid, h)))"

definition unsubscribe :: "string \<times> nat \<times> nat \<Rightarrow> ws_state \<Rightarrow> ws_state" where
  "unsubscribe closure st =
     (let pattern = fst closure; sid = fst (snd closure); h = snd (snd closure);
          st1 = st\<lparr>wv_sets := (wv_sets st)[sid := filter (\<lambda>x. x \<noteq> h) (wv_sets st ! sid)]\<rparr> in
      if wv_sets st1 ! sid = [] then sendSubscriptions (st1\<lparr>wv_handlers := jm_delete pattern (wv_handlers st1)\<rparr>) else st1)"

text \<open>The other listener sets; a new heartbeat listener first gets the last ping.\<close>

definition onStatusChange :: "nat \<Rightarrow> ws_state \<Rightarrow> ws_state" where
  "onStatusChange h st = st\<lparr>statusHandlers := js_add h (statusHandlers st)\<rparr>"

definition onSubscriptionDenied :: "nat \<Rightarrow> ws_state \<Rightarrow> ws_state" where
  "onSubscriptionDenied h st = st\<lparr>denialHandlers := js_add h (denialHandlers st)\<rparr>"

definition onAccessRevoked :: "nat \<Rightarrow> ws_state \<Rightarrow> ws_state" where
  "onAccessRevoked h st = st\<lparr>accessRevokedHandlers := js_add h (accessRevokedHandlers st)\<rparr>"

definition onHeartbeat :: "nat \<Rightarrow> ws_state \<Rightarrow> ws_state" where
  "onHeartbeat h st = (let st1 = st\<lparr>heartbeatHandlers := js_add h (heartbeatHandlers st)\<rparr> in
     case lastHeartbeatAt st1 of None \<Rightarrow> st1 | Some t \<Rightarrow> emit [HeartbeatCalled h t] st1)"

definition offStatusChange :: "nat \<Rightarrow> ws_state \<Rightarrow> ws_state" where
  "offStatusChange h st = st\<lparr>statusHandlers := filter (\<lambda>x. x \<noteq> h) (statusHandlers st)\<rparr>"

definition offSubscriptionDenied :: "nat \<Rightarrow> ws_state \<Rightarrow> ws_state" where
  "offSubscriptionDenied h st = st\<lparr>denialHandlers := filter (\<lambda>x. x \<noteq> h) (denialHandlers st)\<rparr>"

definition offAccessRevoked :: "nat \<Rightarrow> ws_state \<Rightarrow> ws_state" where
  "offAccessRevoked h st = st\<lparr>accessRevokedHandlers := filter (\<lambda>x. x \<noteq> h) (accessRevokedHandlers st)\<rparr>"

definition offHeartbeat :: "nat \<Rightarrow> ws_state \<Rightarrow> ws_state" where
  "offHeartbeat h st = st\<lparr>heartbeatHandlers := filter (\<lambda>x. x \<noteq> h) (heartbeatHandlers st)\<rparr>"



section \<open>Runs of the service\<close>

text \<open>
  A run interleaves the provider's calls (connect when disconnected, disconnect), the browser's
  socket events and timers, and subscriptions. Each handler is subscribed once and each
  unsubscribe closure is used once: \<open>cf_live\<close> holds the closures still to be used.
\<close>

record ws_config =
  cf_ws :: ws_state
  cf_live :: "(string \<times> nat \<times> nat) list"

inductive ws_step :: "ws_config \<Rightarrow> ws_config \<Rightarrow> bool" where
  connect: "wv_status (cf_ws c) = Disconnected \<Longrightarrow> ws_step c (c\<lparr>cf_ws := connect (cf_ws c)\<rparr>)"
| disconnect: "ws_step c (c\<lparr>cf_ws := disconnect (cf_ws c)\<rparr>)"
| socket_open: "sock_ready (cf_ws c) s = SConnecting \<Longrightarrow> ws_step c (c\<lparr>cf_ws := ws_onopen s (set_ready s SOpen (cf_ws c))\<rparr>)"
| message: "sock_ready (cf_ws c) s = SOpen \<Longrightarrow> ws_step c (c\<lparr>cf_ws := ws_onmessage s data now (cf_ws c)\<rparr>)"
| socket_close: "sock_ready (cf_ws c) s \<noteq> SClosed \<Longrightarrow> ws_step c (c\<lparr>cf_ws := ws_onclose s code (set_ready s SClosed (cf_ws c))\<rparr>)"
| timer: "t \<in> fst ` set (wv_timers (cf_ws c)) \<Longrightarrow> ws_step c (c\<lparr>cf_ws := reconnect_fires t (cf_ws c)\<rparr>)"
| subscribe: "h \<notin> (snd \<circ> snd) ` set (cf_live c) \<Longrightarrow> subscribe pattern h (cf_ws c) = (st', closure) \<Longrightarrow>
    ws_step c (c\<lparr>cf_ws := st', cf_live := cf_live c @ [closure]\<rparr>)"
| unsubscribe: "closure \<in> set (cf_live c) \<Longrightarrow>
    ws_step c (c\<lparr>cf_ws := unsubscribe closure (cf_ws c), cf_live := filter (\<lambda>x. x \<noteq> closure) (cf_live c)\<rparr>)"

inductive ws_reachable :: "ws_config \<Rightarrow> bool" where
  init: "ws_reachable \<lparr>cf_ws = ws_init, cf_live = []\<rparr>"
| step: "ws_reachable c \<Longrightarrow> ws_step c c' \<Longrightarrow> ws_reachable c'"

text \<open>
  The connection invariant: the status tells what the service waits for (an opening socket, an
  open one, or exactly one timer), no other timer is pending, and an open current socket has
  been sent exactly the current pattern set.
\<close>

definition cur_ready :: "ws_state \<Rightarrow> ready_state" where
  "cur_ready st = (case wv_ws st of None \<Rightarrow> SClosed | Some s \<Rightarrow> sock_ready st s)"

definition link_ok :: "ws_state \<Rightarrow> bool" where
  "link_ok st =
     (cur_ready st = (case wv_status st of Connecting \<Rightarrow> SConnecting | Connected \<Rightarrow> SOpen | _ \<Rightarrow> SClosed) \<and>
      (if wv_status st = Reconnecting
       then \<exists>t d. reconnectTimer st = Some t \<and> wv_timers st = [(t, d)] \<and> RECONNECT_BASE \<le> d \<and> d \<le> RECONNECT_MAX
       else reconnectTimer st = None \<and> wv_timers st = []))"

definition sent_keys :: "ws_state \<Rightarrow> string list" where
  "sent_keys st = (case wv_ws st of None \<Rightarrow> [] | Some s \<Rightarrow> (case sk_sent (wv_sockets st ! s) of None \<Rightarrow> [] | Some ks \<Rightarrow> ks))"

definition subs_ok :: "ws_state \<Rightarrow> bool" where
  "subs_ok st = ((cur_ready st = SOpen \<longrightarrow> sent_keys st = jm_keys (wv_handlers st)) \<and>
     (cur_ready st = SConnecting \<longrightarrow> sent_keys st = []))"

text \<open>The subscription map serves exactly the live subscriptions.\<close>

definition table_ok :: "ws_state \<Rightarrow> (string \<times> nat \<times> nat) list \<Rightarrow> bool" where
  "table_ok st live = (jm_ok (wv_handlers st) \<and> distinct (map snd (wv_handlers st)) \<and>
     (\<forall>p sid. (p, sid) \<in> set (wv_handlers st) \<longrightarrow> sid < length (wv_sets st) \<and> distinct (wv_sets st ! sid) \<and>
        wv_sets st ! sid \<noteq> [] \<and> (\<forall>h. h \<in> set (wv_sets st ! sid) \<longleftrightarrow> (p, sid, h) \<in> set live)) \<and>
     (\<forall>p sid h. (p, sid, h) \<in> set live \<longrightarrow> (p, sid) \<in> set (wv_handlers st)) \<and>
     distinct (map (snd \<circ> snd) live))"

definition ws_ok :: "ws_config \<Rightarrow> bool" where
  "ws_ok c = (link_ok (cf_ws c) \<and> subs_ok (cf_ws c) \<and> table_ok (cf_ws c) (cf_live c))"

lemmas ws_defs = connect_def disconnect_def ws_onopen_def ws_onmessage_def ws_onclose_def reconnect_fires_def
  scheduleReconnect_def setStatus_def emit_def notifyDenial_def notifyHeartbeat_def notifyAccessRevoked_def
  routeEvent_def sendSubscriptions_def set_ready_def Let_def

lemma sock_ready_update [simp]:
  "sock_ready (st\<lparr>wv_sockets := ss\<rparr>) s = (if s < length ss then sk_ready (ss ! s) else SClosed)"
  by (simp add: sock_ready_def)

lemma sock_ready_bound: "sock_ready st s \<noteq> SClosed \<Longrightarrow> s < length (wv_sockets st)"
  by (auto simp: sock_ready_def split: if_splits)

lemma reconnect_delay_bounds: "RECONNECT_BASE \<le> reconnect_delay n \<and> reconnect_delay n \<le> RECONNECT_MAX"
proof -
  have "(1::int) \<le> 2 ^ n" by simp
  then show ?thesis by (simp add: reconnect_delay_def RECONNECT_BASE_def RECONNECT_MAX_def)
qed

text \<open>Operations that leave the link, the sockets and the table alone.\<close>

definition same_link :: "ws_state \<Rightarrow> ws_state \<Rightarrow> bool" where
  "same_link st st' = (wv_status st' = wv_status st \<and> wv_ws st' = wv_ws st \<and> wv_sockets st' = wv_sockets st \<and>
     wv_timers st' = wv_timers st \<and> reconnectTimer st' = reconnectTimer st)"

definition same_table :: "ws_state \<Rightarrow> ws_state \<Rightarrow> bool" where
  "same_table st st' = (wv_handlers st' = wv_handlers st \<and> wv_sets st' = wv_sets st)"

lemma cur_ready_same: "same_link st st' \<Longrightarrow> cur_ready st' = cur_ready st \<and> sent_keys st' = sent_keys st"
  by (simp add: same_link_def cur_ready_def sock_ready_def sent_keys_def split: option.split)

lemma link_ok_same: "same_link st st' \<Longrightarrow> link_ok st \<Longrightarrow> link_ok st'"
  using cur_ready_same [of st st'] by (auto simp: same_link_def link_ok_def split: if_splits)

lemma subs_ok_same: "same_link st st' \<Longrightarrow> same_table st st' \<Longrightarrow> subs_ok st \<Longrightarrow> subs_ok st'"
  using cur_ready_same [of st st'] by (simp add: same_table_def subs_ok_def)

lemma table_ok_same: "same_table st st' \<Longrightarrow> table_ok st live \<Longrightarrow> table_ok st' live"
  by (simp add: same_table_def table_ok_def)

lemma ws_onmessage_same: "same_link st (ws_onmessage s data now st) \<and> same_table st (ws_onmessage s data now st)"
  by (simp add: same_link_def same_table_def ws_defs split: option.split json.split)

lemma table_same [simp]:
  "same_table st (connect st)" "same_table st (disconnect st)" "same_table st (set_ready s r st)"
  "same_table st (reconnect_fires t st)"
  by (simp_all add: same_table_def ws_defs split: option.split)

lemma onclose_table: "same_table st (ws_onclose s code (set_ready s SClosed st))"
  by (simp add: same_table_def ws_defs)

lemma onopen_table: "same_table st (ws_onopen s (set_ready s SOpen st))"
  by (simp add: same_table_def ws_defs split: option.split)


text \<open>Sending brings the sent set up to date and changes nothing else.\<close>

lemma send_fields [simp]:
  "wv_status (sendSubscriptions st) = wv_status st" "wv_ws (sendSubscriptions st) = wv_ws st"
  "wv_handlers (sendSubscriptions st) = wv_handlers st" "wv_sets (sendSubscriptions st) = wv_sets st"
  "wv_timers (sendSubscriptions st) = wv_timers st" "reconnectTimer (sendSubscriptions st) = reconnectTimer st"
  by (simp_all add: sendSubscriptions_def split: option.split)

lemma send_ready [simp]: "cur_ready (sendSubscriptions st) = cur_ready st"
  by (auto simp: sendSubscriptions_def cur_ready_def sock_ready_def nth_list_update split: option.split)

lemma send_subs_ok: "(cur_ready st = SConnecting \<longrightarrow> sent_keys st = []) \<Longrightarrow> subs_ok (sendSubscriptions st)"
  by (auto simp: subs_ok_def sendSubscriptions_def cur_ready_def sent_keys_def sock_ready_def nth_list_update split: option.splits if_splits)

lemma send_link_ok [simp]: "link_ok (sendSubscriptions st) = link_ok st"
  by (simp add: link_ok_def)

lemma setStatus_fields [simp]:
  "wv_status (setStatus s st) = s" "wv_ws (setStatus s st) = wv_ws st" "wv_handlers (setStatus s st) = wv_handlers st"
  "wv_sockets (setStatus s st) = wv_sockets st" "wv_timers (setStatus s st) = wv_timers st"
  "reconnectTimer (setStatus s st) = reconnectTimer st" "reconnectAttempt (setStatus s st) = reconnectAttempt st"
  "intentionalClose (setStatus s st) = intentionalClose st" "wv_next_timer (setStatus s st) = wv_next_timer st"
  "cur_ready (setStatus s st) = cur_ready st" "sent_keys (setStatus s st) = sent_keys st"
  by (simp_all add: setStatus_def emit_def cur_ready_def sock_ready_def sent_keys_def split: option.split)

lemma bookkeeping_same [simp]:
  "cur_ready (st\<lparr>reconnectAttempt := n\<rparr>) = cur_ready st" "sent_keys (st\<lparr>reconnectAttempt := n\<rparr>) = sent_keys st"
  "cur_ready (st\<lparr>wv_sets := ss\<rparr>) = cur_ready st" "sent_keys (st\<lparr>wv_sets := ss\<rparr>) = sent_keys st"
  "cur_ready (st\<lparr>wv_handlers := hs\<rparr>) = cur_ready st" "sent_keys (st\<lparr>wv_handlers := hs\<rparr>) = sent_keys st"
  by (simp_all add: cur_ready_def sock_ready_def sent_keys_def split: option.split)

lemma bookkeeping_link [simp]:
  "link_ok (st\<lparr>wv_sets := ss\<rparr>) = link_ok st" "link_ok (st\<lparr>wv_handlers := hs\<rparr>) = link_ok st"
  by (simp_all add: link_ok_def)

lemma connect_ok:
  assumes "wv_timers st = []" and "reconnectTimer st = None"
  shows "link_ok (connect st) \<and> subs_ok (connect st)"
proof -
  have "cur_ready (connect st) = SConnecting" "sent_keys (connect st) = []"
    by (simp_all add: connect_def Let_def cur_ready_def sock_ready_def sent_keys_def)
  then show ?thesis using assms by (simp add: link_ok_def subs_ok_def) (simp add: connect_def Let_def)
qed

lemma disconnect_ok:
  assumes "link_ok st"
  shows "link_ok (disconnect st) \<and> subs_ok (disconnect st)"
proof -
  have ws: "wv_ws (disconnect st) = None" and st: "wv_status (disconnect st) = Disconnected"
    by (simp_all add: disconnect_def Let_def emit_def split: option.split)
  have "reconnectTimer (disconnect st) = None \<and> wv_timers (disconnect st) = []"
    using assms by (auto simp: disconnect_def Let_def emit_def set_ready_def link_ok_def split: option.split if_splits)
  then show ?thesis using ws st by (simp add: link_ok_def subs_ok_def cur_ready_def)
qed

lemma other_socket_same:
  "wv_ws st \<noteq> Some s \<Longrightarrow> cur_ready (set_ready s r st) = cur_ready st \<and> sent_keys (set_ready s r st) = sent_keys st"
  by (auto simp: set_ready_def cur_ready_def sent_keys_def sock_ready_def split: option.split)

lemma set_ready_fields [simp]:
  "wv_ws (set_ready s r st) = wv_ws st" "wv_status (set_ready s r st) = wv_status st"
  "wv_timers (set_ready s r st) = wv_timers st" "reconnectTimer (set_ready s r st) = reconnectTimer st"
  "wv_handlers (set_ready s r st) = wv_handlers st" "intentionalClose (set_ready s r st) = intentionalClose st"
  by (simp_all add: set_ready_def)

lemma set_ready_cur: "wv_ws st = Some s \<Longrightarrow> s < length (wv_sockets st) \<Longrightarrow>
    cur_ready (set_ready s r st) = r \<and> sent_keys (set_ready s r st) = sent_keys st"
  by (simp add: set_ready_def cur_ready_def sent_keys_def sock_ready_def)

lemma other_socket_ok: "wv_ws st \<noteq> Some s \<Longrightarrow> link_ok st \<Longrightarrow> subs_ok st \<Longrightarrow> link_ok (set_ready s r st) \<and> subs_ok (set_ready s r st)"
  using other_socket_same [of st s r] by (auto simp: link_ok_def subs_ok_def split: if_splits)

lemma onopen_ok:
  assumes "link_ok st" and "subs_ok st" and "sock_ready st s = SConnecting"
  shows "link_ok (ws_onopen s (set_ready s SOpen st)) \<and> subs_ok (ws_onopen s (set_ready s SOpen st))"
proof (cases "wv_ws st = Some s")
  case True
  let ?up = "setStatus Connected (set_ready s SOpen st\<lparr>reconnectAttempt := 0\<rparr>)"
  have cur: "cur_ready st = SConnecting" using True assms(3) by (simp add: cur_ready_def)
  then have "wv_status st = Connecting" using assms(1) by (auto simp: link_ok_def split: connection_status.splits)
  then have timers: "reconnectTimer st = None" "wv_timers st = []" using assms(1) by (simp_all add: link_ok_def)
  have up: "cur_ready ?up = SOpen" "sent_keys ?up = []"
    using set_ready_cur [OF True sock_ready_bound, of SOpen] assms(2,3) cur by (simp_all add: subs_ok_def)
  have link: "link_ok ?up" using up timers by (simp add: link_ok_def)
  show ?thesis
  proof (cases "wv_handlers st = []")
    case empty: True
    then show ?thesis using True link up by (simp add: ws_onopen_def Let_def subs_ok_def jm_keys_def)
  next
    case False
    then show ?thesis using True link send_subs_ok up by (simp add: ws_onopen_def Let_def)
  qed
next
  case False
  then show ?thesis using other_socket_ok [OF False assms(1,2)] by (simp add: ws_onopen_def)
qed

lemma scheduleReconnect_ok:
  "cur_ready st = SClosed \<Longrightarrow> wv_timers st = [] \<Longrightarrow> link_ok (scheduleReconnect st) \<and> subs_ok (scheduleReconnect st)"
proof -
  assume closed: "cur_ready st = SClosed" and none: "wv_timers st = []"
  have "cur_ready (scheduleReconnect st) = SClosed"
    using closed by (auto simp: scheduleReconnect_def Let_def cur_ready_def sock_ready_def split: option.splits)
  then show ?thesis
    using none reconnect_delay_bounds by (simp add: link_ok_def subs_ok_def) (simp add: scheduleReconnect_def Let_def)
qed

lemma onclose_ok:
  assumes "link_ok st" and "subs_ok st" and "sock_ready st s \<noteq> SClosed"
  shows "link_ok (ws_onclose s code (set_ready s SClosed st)) \<and> subs_ok (ws_onclose s code (set_ready s SClosed st))"
proof (cases "wv_ws st = Some s")
  case True
  let ?st = "set_ready s SClosed st"
  have closed: "cur_ready ?st = SClosed" using set_ready_cur [OF True sock_ready_bound [OF assms(3)]] by simp
  have "cur_ready st \<noteq> SClosed" using True assms(3) by (simp add: cur_ready_def)
  then have timers: "reconnectTimer st = None" "wv_timers st = []"
    using assms(1) by (auto simp: link_ok_def split: connection_status.splits if_splits)
  have "link_ok (setStatus Disconnected ?st) \<and> subs_ok (setStatus Disconnected ?st)"
    using closed timers by (simp add: link_ok_def subs_ok_def)
  moreover have "cur_ready (notifyAccessRevoked ?st) = SClosed" "wv_timers (notifyAccessRevoked ?st) = []"
    using closed timers by (auto simp: notifyAccessRevoked_def emit_def cur_ready_def sock_ready_def split: option.splits)
  ultimately show ?thesis
    using True closed timers scheduleReconnect_ok [of ?st] scheduleReconnect_ok [of "notifyAccessRevoked ?st"]
    by (simp add: ws_onclose_def)
next
  case False
  then show ?thesis using other_socket_ok [OF False assms(1,2)] by (simp add: ws_onclose_def)
qed

lemma timer_ok: "link_ok st \<Longrightarrow> t \<in> fst ` set (wv_timers st) \<Longrightarrow> link_ok (reconnect_fires t st) \<and> subs_ok (reconnect_fires t st)"
  unfolding reconnect_fires_def by (rule connect_ok) (auto simp: link_ok_def split: if_splits)

lemma subscribe_link:
  assumes "link_ok st" and "subs_ok st" and "subscribe p h st = (st', k)"
  shows "link_ok st' \<and> subs_ok st'"
proof (cases "jm_get (wv_handlers st) p")
  case None
  let ?st = "st\<lparr>wv_sets := wv_sets st @ [[h]], wv_handlers := jm_set p (length (wv_sets st)) (wv_handlers st)\<rparr>"
  have "link_ok ?st" using assms(1) by simp
  moreover have "subs_ok (sendSubscriptions ?st)" by (rule send_subs_ok) (use assms(2) in \<open>simp add: subs_ok_def\<close>)
  moreover have "st' = sendSubscriptions ?st" using assms(3) None by (simp add: subscribe_def Let_def)
  ultimately show ?thesis by simp
next
  case (Some sid)
  then show ?thesis using assms by (auto simp: subscribe_def subs_ok_def)
qed

lemma unsubscribe_link:
  assumes "link_ok st" and "subs_ok st"
  shows "link_ok (unsubscribe k st) \<and> subs_ok (unsubscribe k st)"
proof -
  obtain p sid h where k: "k = (p, sid, h)" by (cases k)
  let ?st = "st\<lparr>wv_sets := (wv_sets st)[sid := filter (\<lambda>x. x \<noteq> h) (wv_sets st ! sid)]\<rparr>"
  have "link_ok ?st \<and> subs_ok ?st" using assms by (simp add: subs_ok_def)
  moreover have "subs_ok (sendSubscriptions (?st\<lparr>wv_handlers := jm_delete p (wv_handlers st)\<rparr>))"
    by (rule send_subs_ok) (use assms(2) in \<open>simp add: subs_ok_def\<close>)
  moreover have "link_ok (?st\<lparr>wv_handlers := jm_delete p (wv_handlers st)\<rparr>)" using assms(1) by simp
  ultimately show ?thesis by (simp add: k unsubscribe_def Let_def)
qed


text \<open>The subscription table.\<close>

lemma table_live: "table_ok st live \<Longrightarrow> (p, sid, h) \<in> set live \<Longrightarrow> (p, sid) \<in> set (wv_handlers st)"
  unfolding table_ok_def by blast

lemma distinct_map_eq: "distinct (map f xs) \<Longrightarrow> x \<in> set xs \<Longrightarrow> y \<in> set xs \<Longrightarrow> f x = f y \<Longrightarrow> x = y"
  by (simp add: distinct_map inj_on_def)

lemma table_unique:
  assumes "table_ok st live"
  shows "(p, sid) \<in> set (wv_handlers st) \<Longrightarrow> (q, sid) \<in> set (wv_handlers st) \<Longrightarrow> q = p"
    and "(p, sid) \<in> set (wv_handlers st) \<Longrightarrow> (p, s) \<in> set (wv_handlers st) \<Longrightarrow> s = sid"
    and "(p, sid, h) \<in> set live \<Longrightarrow> (q, s, h) \<in> set live \<Longrightarrow> s = sid"
  using assms distinct_map_eq [of snd "wv_handlers st" "(p, sid)" "(q, sid)"]
    distinct_map_eq [of fst "wv_handlers st" "(p, sid)" "(p, s)"]
    distinct_map_eq [of "snd \<circ> snd" live "(p, sid, h)" "(q, s, h)"]
  by (simp_all add: table_ok_def jm_ok_def)

lemma subscribe_table:
  assumes ok: "table_ok st live" and fresh: "h \<notin> (snd \<circ> snd) ` set live" and sub: "subscribe p h st = (st', k)"
  shows "table_ok st' (live @ [k])"
proof (cases "jm_get (wv_handlers st) p")
  case None
  let ?n = "length (wv_sets st)"
  have pk: "p \<notin> fst ` set (wv_handlers st)" using None by (simp add: map_of_eq_None_iff)
  then have hs: "wv_handlers st' = wv_handlers st @ [(p, ?n)]" and ss: "wv_sets st' = wv_sets st @ [[h]]" and k: "k = (p, ?n, h)"
    using sub None by (auto simp: subscribe_def Let_def jm_set_fresh)
  have old: "sid < ?n" if "(q, sid) \<in> set (wv_handlers st)" for q sid using ok that by (simp add: table_ok_def)
  have sids: "?n \<notin> snd ` set (wv_handlers st)" using old by fastforce
  have livep: "(q, sid) \<in> set (wv_handlers st)" if "(q, sid, x) \<in> set live" for q sid x using ok that by (rule table_live)
  have "p \<notin> fst ` set live" "?n \<notin> (fst \<circ> snd) ` set live" using livep pk sids by force+
  then show ?thesis
    using ok fresh pk sids old unfolding table_ok_def hs ss k
    by (auto simp: jm_ok_def nth_append image_iff intro: less_SucI)
next
  case (Some sid)
  then have mem: "(p, sid) \<in> set (wv_handlers st)" by (rule map_of_SomeD)
  then have sid: "sid < length (wv_sets st)" "distinct (wv_sets st ! sid)" and
    set: "\<And>x. x \<in> set (wv_sets st ! sid) \<longleftrightarrow> (p, sid, x) \<in> set live" using ok by (auto simp: table_ok_def)
  have hs: "wv_handlers st' = wv_handlers st" and k: "k = (p, sid, h)"
    and ss: "wv_sets st' = (wv_sets st)[sid := js_add h (wv_sets st ! sid)]" using sub Some by (auto simp: subscribe_def)
  have uniq: "q = p" if "(q, sid) \<in> set (wv_handlers st)" for q
    using table_unique(1) [OF ok mem that] .
  have js: "js_add h xs \<noteq> []" for xs by (auto simp: js_add_def)
  let ?ss = "(wv_sets st)[sid := js_add h (wv_sets st ! sid)]"
  have entry: "s < length ?ss \<and> distinct (?ss ! s) \<and> ?ss ! s \<noteq> [] \<and> (\<forall>x. x \<in> set (?ss ! s) \<longleftrightarrow> (q, s, x) \<in> set (live @ [k]))"
    if q: "(q, s) \<in> set (wv_handlers st)" for q s
  proof (cases "s = sid")
    case True
    then have "q = p" using uniq q by blast
    then show ?thesis using True sid set js by (auto simp: k)
  next
    case False
    have "s < length (wv_sets st) \<and> distinct (wv_sets st ! s) \<and> wv_sets st ! s \<noteq> [] \<and> (\<forall>x. x \<in> set (wv_sets st ! s) \<longleftrightarrow> (q, s, x) \<in> set live)"
      using ok q unfolding table_ok_def by blast
    then show ?thesis using False by (simp add: k)
  qed
  have old: "jm_ok (wv_handlers st)" "distinct (map snd (wv_handlers st))" using ok by (simp_all add: table_ok_def)
  have d: "distinct (map (snd \<circ> snd) (live @ [k]))" using ok fresh by (auto simp: table_ok_def k)
  have live: "(q, s) \<in> set (wv_handlers st)" if "(q, s, x) \<in> set (live @ [k])" for q s x
    using that table_live [OF ok] mem by (auto simp: k)
  show ?thesis unfolding table_ok_def hs ss using old entry d live by blast
qed

lemma unsubscribe_table:
  assumes ok: "table_ok st live" and live: "k \<in> set live"
  shows "table_ok (unsubscribe k st) (filter (\<lambda>x. x \<noteq> k) live)"
proof -
  obtain p sid h where k: "k = (p, sid, h)" by (cases k)
  have mem: "(p, sid) \<in> set (wv_handlers st)" using ok live [unfolded k] by (rule table_live)
  then have sid: "sid < length (wv_sets st)" "distinct (wv_sets st ! sid)" and
    set: "\<And>x. x \<in> set (wv_sets st ! sid) \<longleftrightarrow> (p, sid, x) \<in> set live" using ok by (auto simp: table_ok_def)
  have uniq: "q = p" if "(q, sid) \<in> set (wv_handlers st)" for q
    using table_unique(1) [OF ok mem that] .
  have uniq2: "s = sid" if "(p, s) \<in> set (wv_handlers st)" for s
    using table_unique(2) [OF ok mem that] .
  have d: "distinct (map (snd \<circ> snd) (filter (\<lambda>x. x \<noteq> k) live))" using ok by (auto simp: table_ok_def distinct_map_filter)
  let ?ss = "(wv_sets st)[sid := filter (\<lambda>x. x \<noteq> h) (wv_sets st ! sid)]"
  have ss: "wv_sets (unsubscribe k st) = ?ss" by (simp add: k unsubscribe_def Let_def)
  have bound: "s < length (wv_sets st)" if "(q, s) \<in> set (wv_handlers st)" for q s
    using ok that unfolding table_ok_def by blast
  show ?thesis
  proof (cases "filter (\<lambda>x. x \<noteq> h) (wv_sets st ! sid) = []")
    case True
    then have hs: "wv_handlers (unsubscribe k st) = jm_delete p (wv_handlers st)" using sid by (simp add: k unsubscribe_def Let_def)
    have only: "x = h" if "(p, sid, x) \<in> set live" for x using True set that by (auto simp: filter_empty_conv)
    have del: "(q, s) \<in> set (jm_delete p (wv_handlers st)) \<longleftrightarrow> (q, s) \<in> set (wv_handlers st) \<and> q \<noteq> p" for q s
      by (auto simp: jm_delete_def)
    have entry: "distinct (?ss ! s) \<and> ?ss ! s \<noteq> [] \<and> (\<forall>x. x \<in> set (?ss ! s) \<longleftrightarrow> (q, s, x) \<in> set (filter (\<lambda>x. x \<noteq> k) live))"
      if q: "(q, s) \<in> set (wv_handlers st)" "q \<noteq> p" for q s
    proof -
      have "s \<noteq> sid" using uniq q by blast
      moreover have "distinct (wv_sets st ! s) \<and> wv_sets st ! s \<noteq> [] \<and> (\<forall>x. x \<in> set (wv_sets st ! s) \<longleftrightarrow> (q, s, x) \<in> set live)"
        using ok q(1) unfolding table_ok_def by blast
      ultimately show ?thesis by (simp add: k)
    qed
    have gone: "q \<noteq> p" if "(q, s, x) \<in> set live" "(q, s, x) \<noteq> k" for q s x
    proof
      assume "q = p"
      then have "s = sid" using uniq2 table_live [OF ok that(1)] by blast
      then show False using only that \<open>q = p\<close> k by blast
    qed
    have old: "jm_ok (jm_delete p (wv_handlers st))" "distinct (map snd (jm_delete p (wv_handlers st)))"
      using ok by (simp_all add: table_ok_def jm_delete_def distinct_map_filter jm_ok_def)
    show ?thesis
      unfolding table_ok_def hs ss using old entry bound d table_live [OF ok] gone by (simp only: length_list_update set_filter del) blast
  next
    case False
    then have hs: "wv_handlers (unsubscribe k st) = wv_handlers st" using sid by (simp add: k unsubscribe_def Let_def)
    have entry: "distinct (?ss ! s) \<and> ?ss ! s \<noteq> [] \<and> (\<forall>x. x \<in> set (?ss ! s) \<longleftrightarrow> (q, s, x) \<in> set (filter (\<lambda>x. x \<noteq> k) live))"
      if q: "(q, s) \<in> set (wv_handlers st)" for q s
    proof (cases "s = sid")
      case True
      then have "q = p" using uniq q by blast
      then show ?thesis using True False sid set by (simp add: k)
    next
      case other: False
      have "distinct (wv_sets st ! s) \<and> wv_sets st ! s \<noteq> [] \<and> (\<forall>x. x \<in> set (wv_sets st ! s) \<longleftrightarrow> (q, s, x) \<in> set live)"
        using ok q unfolding table_ok_def by blast
      then show ?thesis using other by (simp add: k)
    qed
    have old: "jm_ok (wv_handlers st)" "distinct (map snd (wv_handlers st))" using ok by (simp_all add: table_ok_def)
    show ?thesis
      unfolding table_ok_def hs ss using old entry bound d table_live [OF ok] by (simp only: length_list_update set_filter) blast
  qed
qed


lemma ws_step_ok: "ws_step c c' \<Longrightarrow> ws_ok c \<Longrightarrow> ws_ok c'"
proof (induction rule: ws_step.induct)
  case (connect c)
  then have "wv_timers (cf_ws c) = []" "reconnectTimer (cf_ws c) = None" by (simp_all add: ws_ok_def link_ok_def)
  then show ?case using connect.prems table_ok_same [OF table_same(1)] by (simp add: ws_ok_def connect_ok)
next
  case (disconnect c)
  then show ?case using table_ok_same [OF table_same(2)] by (simp add: ws_ok_def disconnect_ok)
next
  case (socket_open c s)
  then show ?case using table_ok_same [OF onopen_table] by (simp add: ws_ok_def onopen_ok)
next
  case (message c s data now)
  then show ?case using ws_onmessage_same link_ok_same subs_ok_same table_ok_same by (simp add: ws_ok_def) blast
next
  case (socket_close c s code)
  then show ?case using table_ok_same [OF onclose_table] by (simp add: ws_ok_def onclose_ok)
next
  case (timer t c)
  then show ?case using table_ok_same [OF table_same(4)] by (simp add: ws_ok_def timer_ok)
next
  case (subscribe h c p st' k)
  then show ?case using subscribe_link subscribe_table by (simp add: ws_ok_def) blast
next
  case (unsubscribe k c)
  then show ?case using unsubscribe_link unsubscribe_table by (simp add: ws_ok_def)
qed

lemma ws_reachable_inv: "ws_reachable c \<Longrightarrow> ws_ok c"
proof (induction rule: ws_reachable.induct)
  case init
  then show ?case by (simp add: ws_ok_def link_ok_def subs_ok_def table_ok_def ws_init_def cur_ready_def)
qed (rule ws_step_ok)


section \<open>Properties\<close>

text \<open>
  C5. In every reachable state the connection is where its status says: connecting and connected
  states have an opening or open current socket and no timer; a reconnecting one has exactly one
  pending timer, due in one to thirty seconds; a disconnected one has neither socket nor timer
  left, so it stays disconnected. And an open connection has been sent exactly the set of
  patterns that have handlers.
\<close>

theorem ws_connection_invariant:
  assumes "ws_reachable c"
  shows "cur_ready (cf_ws c) = (case wv_status (cf_ws c) of Connecting \<Rightarrow> SConnecting | Connected \<Rightarrow> SOpen | _ \<Rightarrow> SClosed) \<and>
    (if wv_status (cf_ws c) = Reconnecting
     then \<exists>t d. reconnectTimer (cf_ws c) = Some t \<and> wv_timers (cf_ws c) = [(t, d)] \<and> 1000 \<le> d \<and> d \<le> 30000
     else wv_timers (cf_ws c) = []) \<and>
    (wv_status (cf_ws c) = Connected \<longrightarrow> sent_keys (cf_ws c) = jm_keys (wv_handlers (cf_ws c)))"
proof -
  have ok: "link_ok (cf_ws c)" "subs_ok (cf_ws c)" using ws_reachable_inv [OF assms] by (simp_all add: ws_ok_def)
  then show ?thesis
    by (auto simp: link_ok_def subs_ok_def RECONNECT_BASE_def RECONNECT_MAX_def split: if_splits)
qed

definition ws_sample :: ws_config where
  "ws_sample = \<lparr>cf_ws = ws_onclose 0 1006 (set_ready 0 SClosed (connect ws_init)), cf_live = []\<rparr>"

lemma ws_sample_reachable: "ws_reachable ws_sample"
proof -
  let ?c0 = "\<lparr>cf_ws = ws_init, cf_live = []\<rparr>" and ?c1 = "\<lparr>cf_ws = connect ws_init, cf_live = []\<rparr>"
  have "ws_step ?c0 ?c1" using ws_step.connect [of ?c0] by (simp add: ws_init_def)
  moreover have "sock_ready (cf_ws ?c1) 0 \<noteq> SClosed" by code_simp
  then have "ws_step ?c1 ws_sample" using ws_step.socket_close [of ?c1 0 1006] by (simp add: ws_sample_def)
  ultimately show ?thesis using ws_reachable.init ws_reachable.step by blast
qed

theorem ws_connection_invariant_witness:
  "\<exists>t d. reconnectTimer (cf_ws ws_sample) = Some t \<and> wv_timers (cf_ws ws_sample) = [(t, d)] \<and> 1000 \<le> d \<and> d \<le> 30000"
proof -
  have "wv_status (cf_ws ws_sample) = Reconnecting" by code_simp
  then show ?thesis using ws_connection_invariant [OF ws_sample_reachable] by simp
qed

text \<open>The handlers an output calls with an event.\<close>

fun called :: "ws_output \<Rightarrow> nat list" where
  "called (EventCalled h e) = [h]"
| "called _ = []"

definition event_calls :: "json \<Rightarrow> ws_state \<Rightarrow> nat list" where
  "event_calls event st = (case jfield event ''event'' of
     Some (JStr name) \<Rightarrow> concat (map (\<lambda>(p, sid). if matchesPattern p name then wv_sets st ! sid else []) (wv_handlers st))
   | _ \<Rightarrow> [])"

lemma routeEvent_calls: "\<exists>os. wv_out (routeEvent e st) = wv_out st @ os \<and> concat (map called os) = event_calls e st"
proof -
  have "concat (map called (map (\<lambda>h. EventCalled h e) hs)) = hs" for hs by (induction hs) auto
  then have "concat (map called (concat (map (\<lambda>(p, sid). if matchesPattern p name then map (\<lambda>h. EventCalled h e) (wv_sets st ! sid) else []) hs))) =
      concat (map (\<lambda>(p, sid). if matchesPattern p name then wv_sets st ! sid else []) hs)" for hs name
    by (induction hs) auto
  then show ?thesis by (auto simp: routeEvent_def event_calls_def emit_def split: option.split json.split)
qed

lemma event_calls_distinct:
  assumes "table_ok st live"
  shows "distinct (event_calls e st)"
proof -
  have "distinct (concat (map (\<lambda>(p, sid). if P p then wv_sets st ! sid else []) hs))"
    if "set hs \<subseteq> set (wv_handlers st)" "distinct (map snd hs)" for P and hs :: "(string, nat) jsmap"
    using that
  proof (induction hs)
    case (Cons x hs)
    obtain p sid where x: "x = (p, sid)" by (cases x)
    have mem: "(p, sid) \<in> set (wv_handlers st)" using Cons.prems(1) x by simp
    then have d: "distinct (wv_sets st ! sid)" and set: "\<And>h. h \<in> set (wv_sets st ! sid) \<longleftrightarrow> (p, sid, h) \<in> set live"
      using assms by (auto simp: table_ok_def)
    have "h \<notin> set (wv_sets st ! s)" if "(q, s) \<in> set hs" "h \<in> set (wv_sets st ! sid)" for h q s
    proof
      assume "h \<in> set (wv_sets st ! s)"
      moreover have "(q, s) \<in> set (wv_handlers st)" using Cons.prems(1) that(1) by auto
      ultimately have "(q, s, h) \<in> set live" using assms by (auto simp: table_ok_def)
      moreover have "(p, sid, h) \<in> set live" using set that(2) by simp
      ultimately have "s = sid" using table_unique(3) [OF assms] by blast
      then show False using Cons.prems(2) that(1) x by force
    qed
    moreover have "distinct (concat (map (\<lambda>(p, sid). if P p then wv_sets st ! sid else []) hs))"
      using Cons by simp
    ultimately show ?case using d x by (auto split: if_splits)
  qed simp
  then show ?thesis using assms by (auto simp: event_calls_def table_ok_def split: option.split json.split)
qed

text \<open>
  C6. Events reach their subscribers: in a reachable state, a domain event arriving on the open
  current socket calls exactly the handlers whose live subscription pattern matches the event's
  name, each once.
\<close>

theorem ws_delivery:
  assumes "ws_reachable c" and "wv_ws (cf_ws c) = Some s"
    and "jfield e ''event'' = Some (JStr name)" and "jfield e ''type'' = None"
  shows "\<exists>os. wv_out (ws_onmessage s (Some e) now (cf_ws c)) = wv_out (cf_ws c) @ os \<and> distinct (concat (map called os)) \<and>
    set (concat (map called os)) = {h. \<exists>p sid. (p, sid, h) \<in> set (cf_live c) \<and> matchesPattern p name}"
proof -
  let ?st = "cf_ws c"
  have ok: "table_ok ?st (cf_live c)" using ws_reachable_inv [OF assms(1)] by (simp add: ws_ok_def)
  have step: "ws_onmessage s (Some e) now ?st = routeEvent e ?st" using assms(2,4) by (simp add: ws_onmessage_def)
  obtain os where os: "wv_out (routeEvent e ?st) = wv_out ?st @ os" and calls: "concat (map called os) = event_calls e ?st"
    using routeEvent_calls by blast
  have "set (event_calls e ?st) = {h. \<exists>p sid. (p, sid) \<in> set (wv_handlers ?st) \<and> h \<in> set (wv_sets ?st ! sid) \<and> matchesPattern p name}"
    by (force simp: event_calls_def assms(3) split: if_splits)
  also have "\<dots> = {h. \<exists>p sid. (p, sid, h) \<in> set (cf_live c) \<and> matchesPattern p name}"
  proof -
    have "(p, sid) \<in> set (wv_handlers ?st) \<and> h \<in> set (wv_sets ?st ! sid) \<longleftrightarrow> (p, sid, h) \<in> set (cf_live c)" for p sid h
      using ok unfolding table_ok_def by blast
    then show ?thesis by blast
  qed
  finally show ?thesis using os calls step event_calls_distinct [OF ok] by (intro exI [of _ os]) simp
qed


definition ws_sample2 :: ws_config where
  "ws_sample2 = \<lparr>cf_ws = ws_onopen 0 (set_ready 0 SOpen (connect (fst (subscribe ''card.*'' 7 ws_init)))), cf_live = [(''card.*'', 0, 7)]\<rparr>"

lemma ws_sample2_reachable: "ws_reachable ws_sample2"
proof -
  let ?c0 = "\<lparr>cf_ws = ws_init, cf_live = []\<rparr>"
  let ?c1 = "\<lparr>cf_ws = fst (subscribe ''card.*'' 7 ws_init), cf_live = [(''card.*'', 0, 7)]\<rparr>"
  let ?c2 = "\<lparr>cf_ws = connect (fst (subscribe ''card.*'' 7 ws_init)), cf_live = [(''card.*'', 0, 7)]\<rparr>"
  have "subscribe ''card.*'' 7 ws_init = (fst (subscribe ''card.*'' 7 ws_init), (''card.*'', 0, 7))" by code_simp
  then have "ws_step ?c0 ?c1" using ws_step.subscribe [of 7 ?c0 "''card.*''"] by simp
  moreover have "wv_status (cf_ws ?c1) = Disconnected" by code_simp
  then have "ws_step ?c1 ?c2" using ws_step.connect [of ?c1] by simp
  moreover have "sock_ready (cf_ws ?c2) 0 = SConnecting" by code_simp
  then have "ws_step ?c2 ws_sample2" using ws_step.socket_open [of ?c2 0] by (simp add: ws_sample2_def)
  ultimately show ?thesis using ws_reachable.init ws_reachable.step by blast
qed

theorem ws_delivery_witness:
  "\<exists>os. wv_out (ws_onmessage 0 (Some (JObj [(''event'', JStr ''card.moved'')])) 5 (cf_ws ws_sample2)) = wv_out (cf_ws ws_sample2) @ os \<and>
     7 \<in> set (concat (map called os))"
proof -
  let ?e = "JObj [(''event'', JStr ''card.moved'')]"
  have "wv_ws (cf_ws ws_sample2) = Some 0" "jfield ?e ''event'' = Some (JStr ''card.moved'')" "jfield ?e ''type'' = None"
    "cf_live ws_sample2 = [(''card.*'', 0, 7)]" "matchesPattern ''card.*'' ''card.moved''" by code_simp+
  then show ?thesis using ws_delivery [OF ws_sample2_reachable, of 0 ?e "''card.moved''" 5] by fastforce
qed

text \<open>
  An unsubscribe closure must be used once only: called again after its pattern has been
  subscribed anew, the first closure deletes the new subscriber's handler set from the map, so
  that the second handler misses every later event.
\<close>

lemma unsubscribe_twice_drops_other:
  "jfield e ''event'' = Some (JStr ''card.moved'') \<Longrightarrow>
   (let (st1, k1) = subscribe ''card.*'' 3 ws_init;
        st2 = unsubscribe k1 st1;
        (st3, k2) = subscribe ''card.*'' 4 st2 in
      event_calls e st3 = [4] \<and> event_calls e (unsubscribe k1 st3) = [])"
proof -
  assume e: "jfield e ''event'' = Some (JStr ''card.moved'')"
  have k: "snd (subscribe ''card.*'' 3 ws_init) = (''card.*'', 0, 3)" by code_simp
  have hs: "wv_handlers (fst (subscribe ''card.*'' 4 (unsubscribe (''card.*'', 0, 3) (fst (subscribe ''card.*'' 3 ws_init))))) = [(''card.*'', 1)]"
    "wv_sets (fst (subscribe ''card.*'' 4 (unsubscribe (''card.*'', 0, 3) (fst (subscribe ''card.*'' 3 ws_init))))) = [[], [4]]"
    "wv_handlers (unsubscribe (''card.*'', 0, 3) (fst (subscribe ''card.*'' 4 (unsubscribe (''card.*'', 0, 3) (fst (subscribe ''card.*'' 3 ws_init)))))) = []"
    "matchesPattern ''card.*'' ''card.moved''" by code_simp+
  show ?thesis by (simp add: Let_def split_beta k hs event_calls_def e)
qed

end
