(* ===== verification/Board_Sync.thy ===== *)
theory Board_Sync
  imports Board_Cache Websocket_Service
begin

text \<open>
  How a mounted board stays in step with the server (\<open>api/use-boards.ts\<close>: \<open>useBoard\<close>,
  \<open>hooks/useDomainSync.ts\<close>, \<open>utils/dependency-events.ts\<close>): every websocket event is filtered,
  offered to a cache patcher, and otherwise starts the debounced invalidation of the board query;
  created and updated cards are read one by one.

  The state is what the hook keeps: the cached board, the ids of the single-card reads in
  flight, the subscriptions whose debounce timer is pending, and whether the query has been
  invalidated. The world around it adds the server's board, the events on their way, and for each
  read in flight what the server answered, so that reads and writes interleave.
\<close>

section \<open>The hook\<close>

record sync_state =
  sy_cache :: "board_detail option"
  sy_inflight :: "string list"
  sy_timers :: "nat list"
  sy_invalidated :: bool

definition SINGLE_CARD_FETCH_ACTIONS :: "string list" where
  "SINGLE_CARD_FETCH_ACTIONS = [''created'', ''updated'']"

definition DEP_EVENTS :: "string list" where
  "DEP_EVENTS = [''activity.card.dependency_added'', ''activity.card.dependency_removed'', ''activity.card.dependencies_replaced'']"

definition isDependencyEvent :: "string \<Rightarrow> bool" where
  "isDependencyEvent eventName = (eventName \<in> set DEP_EVENTS)"

definition isThisBoard :: "string \<Rightarrow> sync_state \<Rightarrow> websocket_event \<Rightarrow> bool" where
  "isThisBoard boardId st e = eventTargetsBoard e boardId (map_option b_id (sy_cache st))"

text \<open>Whether the event was handled, and the state with the read it may have started.\<close>

definition patchOneCard :: "websocket_event \<Rightarrow> sync_state \<Rightarrow> bool \<times> sync_state" where
  "patchOneCard e st =
     (if actionOf e \<notin> set SINGLE_CARD_FETCH_ACTIONS then (False, st)
      else case cardIdOf e of
        None \<Rightarrow> (False, st)
      | Some cardId \<Rightarrow>
          if cardId \<in> set (sy_inflight st) then (True, st)
          else (True, st\<lparr>sy_inflight := sy_inflight st @ [cardId]\<rparr>))"

definition patchBoardCache :: "websocket_event \<Rightarrow> sync_state \<Rightarrow> bool \<times> sync_state" where
  "patchBoardCache e st =
     (case sy_cache st of
        None \<Rightarrow> (False, st)
      | Some current \<Rightarrow>
          (case reconcileBoardEvent current e of
             Consistent \<Rightarrow> (True, st)
           | Patched b \<Rightarrow> (True, st\<lparr>sy_cache := Some b\<rparr>)
           | Refetch \<Rightarrow> patchOneCard e st))"

definition patchPresence :: "websocket_event \<Rightarrow> sync_state \<Rightarrow> bool \<times> sync_state" where
  "patchPresence e st =
     (case sy_cache st of
        None \<Rightarrow> (False, st)
      | Some current \<Rightarrow>
          (case patchExecutionPresence current e of
             None \<Rightarrow> (False, st)
           | Some b \<Rightarrow> (True, st\<lparr>sy_cache := Some b\<rparr>)))"

definition no_patch :: "websocket_event \<Rightarrow> sync_state \<Rightarrow> bool \<times> sync_state" where
  "no_patch e st = (False, st)"

text \<open>A settled single-card read: the card, or \<open>None\<close> when the request failed.\<close>

definition card_response :: "string \<Rightarrow> card_row option \<Rightarrow> sync_state \<Rightarrow> sync_state" where
  "card_response cardId data st =
     (let st1 = (case data of
            None \<Rightarrow> st\<lparr>sy_invalidated := True\<rparr>
          | Some c \<Rightarrow> (case sy_cache st of
                None \<Rightarrow> st
              | Some b \<Rightarrow> (case mergeCardIntoBoard b c of
                    Some merged \<Rightarrow> st\<lparr>sy_cache := Some merged\<rparr>
                  | None \<Rightarrow> st\<lparr>sy_invalidated := True\<rparr>)))
      in st1\<lparr>sy_inflight := filter (\<lambda>i. i \<noteq> cardId) (sy_inflight st1)\<rparr>)"

record domain_subscription =
  ds_pattern :: string
  ds_filter :: "sync_state \<Rightarrow> websocket_event \<Rightarrow> bool"
  ds_patch :: "websocket_event \<Rightarrow> sync_state \<Rightarrow> bool \<times> sync_state"

text \<open>One \<open>useDomainSync\<close> subscriber: filter, patch, or (re)start its debounce timer.\<close>

definition domain_sync :: "nat \<Rightarrow> domain_subscription \<Rightarrow> websocket_event \<Rightarrow> sync_state \<Rightarrow> sync_state" where
  "domain_sync k d e st =
     (if \<not> ds_filter d st e then st
      else let (handled, st') = ds_patch d e st in
           if handled then st' else st'\<lparr>sy_timers := js_add k (sy_timers st')\<rparr>)"

definition debounce_fires :: "nat \<Rightarrow> sync_state \<Rightarrow> sync_state" where
  "debounce_fires k st = st\<lparr>sy_timers := filter (\<lambda>j. j \<noteq> k) (sy_timers st), sy_invalidated := True\<rparr>"

definition board_subscriptions :: "string \<Rightarrow> domain_subscription list" where
  "board_subscriptions boardId =
     [\<lparr>ds_pattern = ''card.*'', ds_filter = isThisBoard boardId, ds_patch = patchBoardCache\<rparr>,
      \<lparr>ds_pattern = ''activity.card.*'', ds_filter = isThisBoard boardId, ds_patch = patchBoardCache\<rparr>,
      \<lparr>ds_pattern = ''column.*'', ds_filter = isThisBoard boardId, ds_patch = no_patch\<rparr>,
      \<lparr>ds_pattern = ''completion.*'', ds_filter = isThisBoard boardId, ds_patch = no_patch\<rparr>,
      \<lparr>ds_pattern = ''activity.board.*'', ds_filter = isThisBoard boardId, ds_patch = no_patch\<rparr>,
      \<lparr>ds_pattern = ''activity.card.*'', ds_filter = (\<lambda>st e. isDependencyEvent (ws_event e) \<and> isThisBoard boardId st e), ds_patch = no_patch\<rparr>,
      \<lparr>ds_pattern = ''execution.*'', ds_filter = isThisBoard boardId, ds_patch = patchPresence\<rparr>]"

definition on_board_event :: "string \<Rightarrow> websocket_event \<Rightarrow> sync_state \<Rightarrow> sync_state" where
  "on_board_event boardId e st =
     fold (\<lambda>(k, d) st. if matchesPattern (ds_pattern d) (ws_event e) then domain_sync k d e st else st)
       (enumerate 0 (board_subscriptions boardId)) st"

text \<open>A board read answers with the server's board and clears the invalidation.\<close>

definition board_loaded :: "board_detail \<Rightarrow> sync_state \<Rightarrow> sync_state" where
  "board_loaded b st = st\<lparr>sy_cache := Some b, sy_invalidated := False\<rparr>"


section \<open>The hook and the server\<close>

record sync_world =
  sw_hook :: sync_state
  sw_server :: board_detail
  sw_events :: "websocket_event list"
  sw_answers :: "(string \<times> card_row option) list"

text \<open>
  The server writes a card and publishes the event; events arrive in order; the server answers a
  read in flight with the card it holds at that moment; answers arrive; debounce timers fire; an
  invalidated board is read again.
\<close>

inductive sync_step :: "string \<Rightarrow> sync_world \<Rightarrow> sync_world \<Rightarrow> bool" for boardId where
  server_write: "mergeCardIntoBoard (sw_server w) c = Some b \<Longrightarrow> c_position c \<noteq> NaN \<Longrightarrow> cardIdOf e = Some (c_id c) \<Longrightarrow> numeric_event e \<Longrightarrow>
    sync_step boardId w (w\<lparr>sw_server := b, sw_events := sw_events w @ [e]\<rparr>)"
| deliver: "sw_events w = e # es \<Longrightarrow>
    sync_step boardId w (w\<lparr>sw_hook := on_board_event boardId e (sw_hook w), sw_events := es\<rparr>)"
| answer: "i \<in> set (sy_inflight (sw_hook w)) \<Longrightarrow> i \<notin> fst ` set (sw_answers w) \<Longrightarrow>
    sync_step boardId w (w\<lparr>sw_answers := sw_answers w @ [(i, card_at (sw_server w) i)]\<rparr>)"
| arrive: "(i, r) \<in> set (sw_answers w) \<Longrightarrow>
    sync_step boardId w (w\<lparr>sw_hook := card_response i r (sw_hook w), sw_answers := filter (\<lambda>p. fst p \<noteq> i) (sw_answers w)\<rparr>)"
| debounce: "k \<in> set (sy_timers (sw_hook w)) \<Longrightarrow> sync_step boardId w (w\<lparr>sw_hook := debounce_fires k (sw_hook w)\<rparr>)"
| reload: "sy_invalidated (sw_hook w) \<Longrightarrow> sync_step boardId w (w\<lparr>sw_hook := board_loaded (sw_server w) (sw_hook w)\<rparr>)"

inductive sync_reachable :: "string \<Rightarrow> sync_world \<Rightarrow> sync_world \<Rightarrow> bool" for boardId where
  refl: "sync_reachable boardId w w"
| step: "sync_reachable boardId w w' \<Longrightarrow> sync_step boardId w' w'' \<Longrightarrow> sync_reachable boardId w w''"

definition quiet :: "sync_world \<Rightarrow> bool" where
  "quiet w = (sw_events w = [] \<and> sw_answers w = [] \<and> sy_inflight (sw_hook w) = [] \<and> sy_timers (sw_hook w) = [] \<and>
     \<not> sy_invalidated (sw_hook w))"

definition sync_ok :: "sync_world \<Rightarrow> bool" where
  "sync_ok w = (board_ok (sw_server w) \<and> (case sy_cache (sw_hook w) of None \<Rightarrow> True | Some b \<Rightarrow> board_ok b) \<and>
     list_all numeric_event (sw_events w) \<and>
     list_all (\<lambda>(i, r). case r of None \<Rightarrow> True | Some c \<Rightarrow> c_id c = i \<and> c_position c \<noteq> NaN) (sw_answers w) \<and>
     distinct (sy_inflight (sw_hook w)) \<and> distinct (map fst (sw_answers w)) \<and> fst ` set (sw_answers w) \<subseteq> set (sy_inflight (sw_hook w)))"



section \<open>What every step keeps\<close>

definition hook_ok :: "sync_state \<Rightarrow> bool" where
  "hook_ok st = ((case sy_cache st of None \<Rightarrow> True | Some b \<Rightarrow> board_ok b) \<and> distinct (sy_inflight st))"

definition keeps_hook :: "websocket_event \<Rightarrow> (websocket_event \<Rightarrow> sync_state \<Rightarrow> bool \<times> sync_state) \<Rightarrow> bool" where
  "keeps_hook e patch = (\<forall>st. hook_ok st \<longrightarrow> hook_ok (snd (patch e st)) \<and> set (sy_inflight st) \<subseteq> set (sy_inflight (snd (patch e st))))"

lemma patchOneCard_hook: "hook_ok st \<Longrightarrow> hook_ok (snd (patchOneCard e st)) \<and> set (sy_inflight st) \<subseteq> set (sy_inflight (snd (patchOneCard e st)))"
  by (auto simp: patchOneCard_def hook_ok_def split: option.splits)

lemma patchBoardCache_keeps: "numeric_event e \<Longrightarrow> keeps_hook e patchBoardCache"
proof -
  assume num: "numeric_event e"
  have "hook_ok (snd (patchBoardCache e st)) \<and> set (sy_inflight st) \<subseteq> set (sy_inflight (snd (patchBoardCache e st)))"
    if ok: "hook_ok st" for st
  proof (cases "sy_cache st")
    case None
    then show ?thesis using ok by (simp add: patchBoardCache_def)
  next
    case (Some b)
    then have "board_ok b" using ok by (simp add: hook_ok_def)
    then show ?thesis
      using Some ok patchOneCard_hook [OF ok, of e] reconcile_Patched [OF _ num, of b]
      by (cases "reconcileBoardEvent b e") (auto simp: patchBoardCache_def hook_ok_def)
  qed
  then show ?thesis by (simp add: keeps_hook_def)
qed

lemma patchPresence_keeps: "keeps_hook e patchPresence"
  using presence.patch_ok
  by (auto simp: keeps_hook_def patchPresence_def hook_ok_def split: option.splits)

lemma no_patch_keeps: "keeps_hook e no_patch"
  by (simp add: keeps_hook_def no_patch_def)

lemma domain_sync_hook:
  assumes "keeps_hook e (ds_patch d)" and "hook_ok st"
  shows "hook_ok (domain_sync k d e st) \<and> set (sy_inflight st) \<subseteq> set (sy_inflight (domain_sync k d e st))"
proof -
  obtain handled st' where p: "ds_patch d e st = (handled, st')" by (cases "ds_patch d e st")
  then have "hook_ok st' \<and> set (sy_inflight st) \<subseteq> set (sy_inflight st')" using assms by (auto simp: keeps_hook_def dest!: spec [of _ st])
  then show ?thesis using assms(2) p by (auto simp: domain_sync_def hook_ok_def)
qed

lemma on_board_event_hook:
  assumes "numeric_event e" and "hook_ok st"
  shows "hook_ok (on_board_event boardId e st) \<and> set (sy_inflight st) \<subseteq> set (sy_inflight (on_board_event boardId e st))"
proof -
  let ?P = "\<lambda>st'. hook_ok st' \<and> set (sy_inflight st) \<subseteq> set (sy_inflight st')"
  have keeps: "keeps_hook e (ds_patch d)" if "d \<in> set (board_subscriptions boardId)" for d
    using that patchBoardCache_keeps [OF assms(1)] patchPresence_keeps no_patch_keeps by (auto simp: board_subscriptions_def)
  have one: "?P (if matchesPattern (ds_pattern d) (ws_event e) then domain_sync k d e s else s)"
    if "?P s" and "d \<in> set (board_subscriptions boardId)" for k d s
    using that domain_sync_hook [OF keeps [OF that(2)], of s k] by auto
  have "?P (fold (\<lambda>(k, d) st. if matchesPattern (ds_pattern d) (ws_event e) then domain_sync k d e st else st) xs s)"
    if "?P s" and "snd ` set xs \<subseteq> set (board_subscriptions boardId)" for xs s
    using that
  proof (induction xs arbitrary: s)
    case (Cons x xs)
    obtain k d where x: "x = (k, d)" by (cases x)
    then have "?P (if matchesPattern (ds_pattern d) (ws_event e) then domain_sync k d e s else s)"
      using Cons.prems by (intro one) auto
    from Cons.IH [OF this] show ?case using Cons.prems(2) x by simp
  qed simp
  moreover have "snd ` set (enumerate 0 (board_subscriptions boardId)) \<subseteq> set (board_subscriptions boardId)"
    by (metis list.set_map map_snd_enumerate order_refl)
  ultimately show ?thesis using assms(2) unfolding on_board_event_def by blast
qed

lemma card_response_hook:
  assumes "hook_ok st" and "case r of None \<Rightarrow> True | Some c \<Rightarrow> c_position c \<noteq> NaN"
  shows "hook_ok (card_response i r st)"
  using assms merge.patch_ok
  by (auto simp: card_response_def hook_ok_def Let_def split: option.splits)

lemma card_response_inflight [simp]: "sy_inflight (card_response i r st) = filter (\<lambda>j. j \<noteq> i) (sy_inflight st)"
  by (simp add: card_response_def Let_def split: option.split)

lemma sync_step_ok: "sync_step boardId w w' \<Longrightarrow> sync_ok w \<Longrightarrow> sync_ok w'"
proof (induction rule: sync_step.induct)
  case (server_write w c b e)
  then show ?case using merge.patch_ok by (auto simp: sync_ok_def)
next
  case (deliver w e es)
  then have "numeric_event e" and "hook_ok (sw_hook w)" by (auto simp: sync_ok_def hook_ok_def)
  from on_board_event_hook [OF this, of boardId] show ?case using deliver by (auto simp: sync_ok_def hook_ok_def)
next
  case (answer i w)
  then show ?case
    using card_position [of "sw_server w" i] card_at_iff [of "sw_server w" i]
    by (auto simp: sync_ok_def split: option.split)
next
  case (arrive i r w)
  then have r: "case r of None \<Rightarrow> True | Some c \<Rightarrow> c_position c \<noteq> NaN"
    by (auto simp: sync_ok_def list_all_iff split: option.splits)
  have "hook_ok (card_response i r (sw_hook w))"
    using arrive r by (intro card_response_hook) (simp_all add: sync_ok_def hook_ok_def)
  then show ?case using arrive by (auto simp: sync_ok_def hook_ok_def list_all_iff distinct_map_filter)
next
  case (debounce k w)
  then show ?case by (simp add: sync_ok_def debounce_fires_def)
next
  case (reload w)
  then show ?case by (simp add: sync_ok_def board_loaded_def)
qed

lemma sync_reachable_ok: "sync_reachable boardId w w' \<Longrightarrow> sync_ok w \<Longrightarrow> sync_ok w'"
  by (induction rule: sync_reachable.induct) (auto intro: sync_step_ok)


section \<open>Properties\<close>

text \<open>
  C7. Whatever the interleaving of writes, events, reads and reloads, the cached board stays
  well-formed (each card once, in the column it names, columns in position order) and at most one
  read per card is in flight.
\<close>

theorem sync_cache_wellformed:
  assumes "sync_ok w" and "sync_reachable boardId w w'"
  shows "(case sy_cache (sw_hook w') of None \<Rightarrow> True | Some b \<Rightarrow> board_ok b) \<and> distinct (sy_inflight (sw_hook w'))"
  using sync_reachable_ok [OF assms(2,1)] by (simp add: sync_ok_def)


lemma card_patterns:
  assumes "ws_event e = ''card.'' @ rest"
  shows "on_board_event boardId e st = domain_sync 0 \<lparr>ds_pattern = ''card.*'', ds_filter = isThisBoard boardId, ds_patch = patchBoardCache\<rparr> e st"
  by (simp add: on_board_event_def board_subscriptions_def matchesPattern_def ends_with_def assms)

lemma other_board_ignored: "\<not> isThisBoard boardId st e \<Longrightarrow> on_board_event boardId e st = st"
  by (simp add: on_board_event_def board_subscriptions_def domain_sync_def)

text \<open>
  No card event of the viewed board is lost at the door: it has been applied to the cached
  board, or the cache already reflects it, or a read of the card is in flight, or the invalidation
  of the board query is pending; and an event of another board changes nothing.
\<close>

lemma card_event_accounted:
  assumes "sy_cache st = Some b" and "ws_event e = ''card.'' @ rest"
  shows "if isThisBoard boardId st e
    then (case reconcileBoardEvent b e of
        Patched b' \<Rightarrow> sy_cache (on_board_event boardId e st) = Some b'
      | Consistent \<Rightarrow> on_board_event boardId e st = st
      | Refetch \<Rightarrow> sy_cache (on_board_event boardId e st) = Some b \<and>
          ((\<exists>i. cardIdOf e = Some i \<and> i \<in> set (sy_inflight (on_board_event boardId e st))) \<or>
           0 \<in> set (sy_timers (on_board_event boardId e st))))
    else on_board_event boardId e st = st"
proof (cases "isThisBoard boardId st e")
  case True
  have "patchOneCard e st = (True, st\<lparr>sy_inflight := js_add i (sy_inflight st)\<rparr>)"
    if "actionOf e \<in> set SINGLE_CARD_FETCH_ACTIONS" "cardIdOf e = Some i" for i
    using that by (auto simp: patchOneCard_def js_add_def)
  then show ?thesis
    using True assms(1) unfolding card_patterns [OF assms(2)]
    by (cases "actionOf e \<in> set SINGLE_CARD_FETCH_ACTIONS"; cases "cardIdOf e")
       (auto simp: domain_sync_def patchBoardCache_def patchOneCard_def split: reconcile_result.split)
next
  case False
  then show ?thesis by (simp add: other_board_ignored)
qed

definition sample_updated :: websocket_event where
  "sample_updated = \<lparr>ws_event = ''card.updated'', ws_timestamp = [], ws_event_id = ''3'',
     ws_payload = [(''entity_id'', JStr ''a''), (''board_id'', JStr ''b'')]\<rparr>"

definition sample_hook :: sync_state where
  "sample_hook = \<lparr>sy_cache = Some sample_kanban, sy_inflight = [], sy_timers = [], sy_invalidated = False\<rparr>"

definition sample_world :: sync_world where
  "sample_world = \<lparr>sw_hook = sample_hook, sw_server = sample_kanban, sw_events = [], sw_answers = []\<rparr>"

lemma sample_world_ok: "sync_ok sample_world"
  by code_simp

definition titled :: "string \<Rightarrow> card_row" where
  "titled t = (sample_row ''a'' ''todo'' 1)\<lparr>c_title := t\<rparr>"

text \<open>A write whose read has been answered but has not arrived when a second write happens.\<close>

definition run1 :: sync_world where
  "run1 = sample_world\<lparr>sw_server := relocated (titled ''first'') sample_kanban, sw_events := [sample_updated]\<rparr>"

definition run2 :: sync_world where
  "run2 = run1\<lparr>sw_hook := on_board_event ''b'' sample_updated (sw_hook run1), sw_events := []\<rparr>"

definition run3 :: sync_world where
  "run3 = run2\<lparr>sw_answers := [(''a'', card_at (sw_server run2) ''a'')]\<rparr>"

definition run4 :: sync_world where
  "run4 = run3\<lparr>sw_server := relocated (titled ''second'') (sw_server run3), sw_events := [sample_updated]\<rparr>"

definition run5 :: sync_world where
  "run5 = run4\<lparr>sw_hook := on_board_event ''b'' sample_updated (sw_hook run4), sw_events := []\<rparr>"

definition run6 :: sync_world where
  "run6 = run5\<lparr>sw_hook := card_response ''a'' (card_at (sw_server run2) ''a'') (sw_hook run5), sw_answers := []\<rparr>"

lemma run_steps:
  "sync_step ''b'' sample_world run1" "sync_step ''b'' run1 run2" "sync_step ''b'' run2 run3"
  "sync_step ''b'' run3 run4" "sync_step ''b'' run4 run5" "sync_step ''b'' run5 run6"
proof -
  have ev: "cardIdOf sample_updated = Some (c_id (titled t))" "numeric_event sample_updated" "c_position (titled t) \<noteq> NaN" for t
    by (simp add: cardIdOf_def payload_def sample_updated_def titled_def sample_row_def, code_simp, simp add: titled_def sample_row_def)
  have "mergeCardIntoBoard (sw_server sample_world) (titled ''first'') = Some (relocated (titled ''first'') sample_kanban)"
    "sw_events sample_world = []" by code_simp+
  from sync_step.server_write [OF this(1) ev(3,1,2), of "''b''"] this(2)
  show "sync_step ''b'' sample_world run1" by (simp add: run1_def)
  show "sync_step ''b'' run1 run2" using sync_step.deliver [of run1 sample_updated "[]" "''b''"] by (simp add: run1_def run2_def)
  have "''a'' \<in> set (sy_inflight (sw_hook run2))" "sw_answers run2 = []" by code_simp+
  then show "sync_step ''b'' run2 run3" using sync_step.answer [of "''a''" run2 "''b''"] by (simp add: run3_def)
  have "mergeCardIntoBoard (sw_server run3) (titled ''second'') = Some (relocated (titled ''second'') (sw_server run3))"
    "sw_events run3 = []" by code_simp+
  from sync_step.server_write [OF this(1) ev(3,1,2), of "''b''"] this(2)
  show "sync_step ''b'' run3 run4" by (simp add: run4_def)
  show "sync_step ''b'' run4 run5" using sync_step.deliver [of run4 sample_updated "[]" "''b''"] by (simp add: run4_def run5_def)
  have ans: "sw_answers run5 = [(''a'', card_at (sw_server run2) ''a'')]" by (simp add: run5_def run4_def run3_def)
  then show "sync_step ''b'' run5 run6"
    using sync_step.arrive [of "''a''" "card_at (sw_server run2) ''a''" run5 "''b''"] by (simp add: run6_def)
qed

theorem sync_cache_wellformed_witness: "case sy_cache (sw_hook run2) of None \<Rightarrow> True | Some b \<Rightarrow> board_ok b"
proof -
  have "sync_reachable ''b'' sample_world run2"
    using run_steps sync_reachable.refl sync_reachable.step by metis
  from sync_cache_wellformed [OF sample_world_ok this] show ?thesis by blast
qed

text \<open>
  An update can be lost for good: when a second write's event arrives while the answer of the
  first write's read is still on its way, the event is taken for the duplicate of the first, and
  the board settles, with nothing pending, on the card as it was before the second write.
\<close>

lemma update_lost_in_flight:
  "\<exists>w. sync_reachable ''b'' sample_world w \<and> quiet w \<and>
     Option.bind (sy_cache (sw_hook w)) (\<lambda>b. card_at b ''a'') = Some (titled ''first'') \<and>
     card_at (sw_server w) ''a'' = Some (titled ''second'')"
proof (intro exI conjI)
  show "sync_reachable ''b'' sample_world run6"
    using run_steps sync_reachable.refl sync_reachable.step by metis
  show "quiet run6" by code_simp
  show "Option.bind (sy_cache (sw_hook run6)) (\<lambda>b. card_at b ''a'') = Some (titled ''first'')" by code_simp
  show "card_at (sw_server run6) ''a'' = Some (titled ''second'')" by code_simp
qed



end
