(* ===== verification/Kanban_Moves.thy ===== *)
theory Kanban_Moves
  imports Board_Cache
begin

text \<open>
  Deciding where a dragged card or column lands: fractional positions (\<open>position.ts\<close>), the list
  view's column change (\<open>list-move.ts\<close>) and the board's drag and drop (\<open>use-kanban-dnd.ts\<close>).
  The drag library is a parameter: its collision algorithms take the droppable containers and
  return the ids hit, and \<open>arrayMove\<close> moves an element of an array.
\<close>

section \<open>Positions\<close>

definition calculatePosition :: "jsnum option \<Rightarrow> jsnum option \<Rightarrow> jsnum" where
  "calculatePosition before after =
     (case (before, after) of
        (Some b, Some a) \<Rightarrow> js_half (js_plus b a)
      | (None, Some a) \<Rightarrow> js_half a
      | (Some b, None) \<Rightarrow> js_plus b (Fin 1024)
      | (None, None) \<Rightarrow> Fin 1024)"

definition POSITION_STEP :: jsnum where
  "POSITION_STEP = Fin 1024"

definition computeColumnMove :: "string \<Rightarrow> string \<Rightarrow> string \<Rightarrow> column_row list \<Rightarrow> card_move_request option" where
  "computeColumnMove cardId cardColumnId targetColumnId columns =
     (if targetColumnId = cardColumnId then None
      else case find (\<lambda>c. col_id c = targetColumnId) columns of
        None \<Rightarrow> None
      | Some target \<Rightarrow>
          let others = filter (\<lambda>c. c_id c \<noteq> cardId) (col_cards target);
              maxPosition = foldl (\<lambda>mx c. if js_less mx (c_position c) then c_position c else mx) NInf others;
              position = (if others = [] then POSITION_STEP else js_plus maxPosition POSITION_STEP)
          in Some \<lparr>mv_card_id = cardId, mv_column_id = targetColumnId, mv_position = position\<rparr>)"


section \<open>Drag and drop\<close>

text \<open>What is dragged: the data attached to the active element.\<close>

datatype drag_data = DragCard card_row | DragColumn column_row

text \<open>What lies under it: a column body, a card with its column, a column header, or something else.\<close>

datatype over_data = OverColumn | OverCard string | OverHeader column_row | OverOther

record drop_target =
  dt_id :: string
  dt_data :: over_data

record dnd_state =
  activeCard :: "card_row option"
  activeColumn :: "column_row option"
  overColumnId :: "string option"

datatype dnd_mutation = MoveCard card_move_request | ReorderColumns "string list"

record droppable =
  dr_id :: string
  dr_is_header :: bool

text \<open>The collision strategy of the board.\<close>

definition kanbanCollisions ::
  "(droppable list \<Rightarrow> string list) \<Rightarrow> (droppable list \<Rightarrow> string list) \<Rightarrow> (droppable list \<Rightarrow> string list) \<Rightarrow>
   string list \<Rightarrow> string option \<Rightarrow> bool \<Rightarrow> droppable list \<Rightarrow> string list" where
  "kanbanCollisions pointerWithin rectIntersection closestCenter columnIds activeId isColumnDrag containers =
     (if isColumnDrag then closestCenter (filter dr_is_header containers)
      else
        let withoutActive = filter (\<lambda>c. Some (dr_id c) \<noteq> activeId \<and> \<not> dr_is_header c) containers;
            pointerCollisions = pointerWithin withoutActive;
            rectCollisions = rectIntersection withoutActive
        in if pointerCollisions \<noteq> [] then pointerCollisions
           else if rectCollisions \<noteq> [] then rectCollisions
           else closestCenter (filter (\<lambda>c. dr_id c \<in> set columnIds) withoutActive))"

definition handleDragStart :: "drag_data option \<Rightarrow> dnd_state \<Rightarrow> dnd_state" where
  "handleDragStart data st = (case data of
     Some (DragColumn col) \<Rightarrow> st\<lparr>activeColumn := Some col\<rparr>
   | Some (DragCard c) \<Rightarrow> st\<lparr>activeCard := Some c\<rparr>
   | None \<Rightarrow> st)"

definition handleDragOver :: "drop_target option \<Rightarrow> dnd_state \<Rightarrow> dnd_state" where
  "handleDragOver over st = (case over of
     None \<Rightarrow> st
   | Some t \<Rightarrow> if dt_id t = [] then st else
       (case dt_data t of
          OverColumn \<Rightarrow> st\<lparr>overColumnId := Some (dt_id t)\<rparr>
        | OverCard cid \<Rightarrow> st\<lparr>overColumnId := Some cid\<rparr>
        | _ \<Rightarrow> st))"

definition dnd_reset :: "dnd_state \<Rightarrow> dnd_state" where
  "dnd_reset st = st\<lparr>activeCard := None, activeColumn := None, overColumnId := None\<rparr>"

definition indexOf :: "'a \<Rightarrow> 'a list \<Rightarrow> nat option" where
  "indexOf x xs = js_findIndex (\<lambda>y. y = x) xs"

definition column_drop :: "(string list \<Rightarrow> nat \<Rightarrow> nat \<Rightarrow> string list) \<Rightarrow> board_detail \<Rightarrow> column_row \<Rightarrow> drop_target \<Rightarrow> dnd_mutation option" where
  "column_drop arrayMove b col over =
     (let sourceId = col_id col;
          targetId = (case dt_data over of OverHeader k \<Rightarrow> Some (col_id k) | OverColumn \<Rightarrow> Some (dt_id over) | _ \<Rightarrow> None) in
      if \<not> js_truthy targetId \<or> targetId = Some sourceId then None
      else
        let orderedIds = map col_id (js_sort (pos_cmp col_position) (bd_columns b)) in
        case (indexOf sourceId orderedIds, indexOf (the targetId) orderedIds) of
          (Some from, Some to) \<Rightarrow> if from = to then None else Some (ReorderColumns (arrayMove orderedIds from to))
        | _ \<Rightarrow> None)"

definition position_at :: "card_row list \<Rightarrow> int \<Rightarrow> jsnum option" where
  "position_at cards i = map_option c_position (js_at cards i)"

text \<open>The landing position among the target column's other cards, in position order.\<close>

definition drop_position :: "card_row \<Rightarrow> string \<Rightarrow> string option \<Rightarrow> card_row list \<Rightarrow> jsnum" where
  "drop_position c targetColumnId targetCardId sortedCards =
     (let atEnd = calculatePosition (position_at sortedCards (int (length sortedCards) - 1)) None in
      if js_truthy targetCardId then
        (case js_findIndex (\<lambda>x. Some (c_id x) = targetCardId) sortedCards of
           None \<Rightarrow> atEnd
         | Some overIndex \<Rightarrow>
             let isSameColumn = (c_column_id c = targetColumnId);
                 isDraggingDown = (isSameColumn \<and> js_less (c_position c) (c_position (sortedCards ! overIndex))) in
             if isDraggingDown
             then calculatePosition (position_at sortedCards (int overIndex)) (position_at sortedCards (int overIndex + 1))
             else calculatePosition (position_at sortedCards (int overIndex - 1)) (position_at sortedCards (int overIndex)))
      else atEnd)"

definition card_drop :: "board_detail \<Rightarrow> card_row \<Rightarrow> drop_target \<Rightarrow> dnd_mutation option" where
  "card_drop b c over =
     (case (case dt_data over of OverColumn \<Rightarrow> Some (dt_id over, None) | OverCard cid \<Rightarrow> Some (cid, Some (dt_id over)) | _ \<Rightarrow> None) of
        None \<Rightarrow> None
      | Some (targetColumnId, targetCardId) \<Rightarrow>
          (case find (\<lambda>col. col_id col = targetColumnId) (bd_columns b) of
             None \<Rightarrow> None
           | Some targetColumn \<Rightarrow>
               let sortedCards = js_sort card_cmp (filter (\<lambda>x. c_id x \<noteq> c_id c) (col_cards targetColumn));
                   position = drop_position c targetColumnId targetCardId sortedCards in
               if c_column_id c = targetColumnId \<and>
                  (\<not> js_truthy targetCardId \<or> targetCardId = Some (c_id c) \<or> js_eq (c_position c) position)
               then None
               else Some (MoveCard \<lparr>mv_card_id = c_id c, mv_column_id = targetColumnId, mv_position = position\<rparr>)))"

definition handleDragEnd ::
  "(string list \<Rightarrow> nat \<Rightarrow> nat \<Rightarrow> string list) \<Rightarrow> board_detail option \<Rightarrow> drag_data option \<Rightarrow> drop_target option \<Rightarrow> dnd_state \<Rightarrow>
   dnd_state \<times> dnd_mutation option" where
  "handleDragEnd arrayMove board active over st =
     (dnd_reset st,
      case (over, board, active) of
        (Some t, Some b, Some data) \<Rightarrow>
          if is_frozen b = Some True then None
          else (case data of DragColumn col \<Rightarrow> column_drop arrayMove b col t | DragCard c \<Rightarrow> card_drop b c t)
      | _ \<Rightarrow> None)"

definition handleDragCancel :: "dnd_state \<Rightarrow> dnd_state" where
  "handleDragCancel st = dnd_reset st"



section \<open>Landing between neighbours\<close>

definition finite_pos :: "card_row \<Rightarrow> bool" where
  "finite_pos c = (\<exists>r. c_position c = Fin r)"

definition strictly_placed :: "card_row list \<Rightarrow> bool" where
  "strictly_placed cs = (sorted_wrt (\<lambda>x y. js_less (c_position x) (c_position y)) cs \<and> (\<forall>c\<in>set cs. finite_pos c))"

lemma strictly_placed_num: "strictly_placed cs \<Longrightarrow> c \<in> set cs \<Longrightarrow> c_position c \<noteq> NaN"
  by (auto simp: strictly_placed_def finite_pos_def dest!: bspec)

lemma strictly_placed_distinct: "strictly_placed cs \<Longrightarrow> distinct (map c_position cs)"
proof -
  assume "strictly_placed cs"
  then have "sorted_wrt (\<lambda>x y. js_less (c_position x) (c_position y)) cs" by (simp add: strictly_placed_def)
  then show ?thesis by (induction cs) (auto simp: image_iff dest!: bspec)
qed

lemma js_sort_between:
  assumes "strictly_placed (xs @ ys)" and "c_position c \<noteq> NaN"
    and "\<forall>x\<in>set xs. js_less (c_position x) (c_position c)" and "\<forall>y\<in>set ys. js_less (c_position c) (c_position y)"
  shows "js_sort card_cmp (xs @ ys @ [c]) = xs @ c # ys"
proof (rule pos.sorted_unique [symmetric])
  let ?less = "\<lambda>x y. js_less (c_position x) (c_position y)"
  have srt: "sorted_wrt ?less (xs @ c # ys)"
    using assms by (auto simp: strictly_placed_def sorted_wrt_append)
  have num: "c_position x \<noteq> NaN" if "x \<in> set (xs @ c # ys)" for x
    using assms(2) strictly_placed_num [OF assms(1)] that by auto
  show "mset (xs @ c # ys) = mset (js_sort card_cmp (xs @ ys @ [c]))" by simp
  have le: "cmp_le card_cmp x y" if "x \<in> set (xs @ c # ys)" "y \<in> set (xs @ c # ys)" "?less x y" for x y
    using that num cmp_le_pos [of c_position x y] by blast
  show "sorted_wrt (cmp_le card_cmp) (xs @ c # ys)"
    by (rule sorted_wrt_mono_rel [OF le srt])
  show "sorted_wrt (cmp_le card_cmp) (js_sort card_cmp (xs @ ys @ [c]))"
    using num by (intro pos.sort_sorted) auto
  show "\<forall>x\<in>set (xs @ c # ys). c_position x \<noteq> NaN" using num by blast
  have "distinct (map c_position zs)" if "sorted_wrt ?less zs" for zs
    using that by (induction zs) (auto simp: image_iff dest!: bspec)
  then show "distinct (map c_position (xs @ c # ys))" using srt by blast
qed

definition neighbour_before :: "card_row list \<Rightarrow> jsnum option" where
  "neighbour_before xs = (if xs = [] then None else Some (c_position (last xs)))"

definition neighbour_after :: "card_row list \<Rightarrow> jsnum option" where
  "neighbour_after ys = (if ys = [] then None else Some (c_position (hd ys)))"

lemma strictly_placed_last: "strictly_placed (xs @ ys) \<Longrightarrow> x \<in> set xs \<Longrightarrow> x = last xs \<or> js_less (c_position x) (c_position (last xs))"
  by (induction xs rule: rev_induct) (auto simp: strictly_placed_def sorted_wrt_append)

lemma strictly_placed_hd: "strictly_placed (xs @ ys) \<Longrightarrow> y \<in> set ys \<Longrightarrow> y = hd ys \<or> js_less (c_position (hd ys)) (c_position y)"
  by (cases ys) (auto simp: strictly_placed_def sorted_wrt_append)

lemma rat_half: "\<exists>p::rat. a + b = p * 2 \<and> (a < b \<longrightarrow> a < p \<and> p < b)"
  by (rule exI [of _ "(a + b) / 2"]) auto

lemma calculatePosition_between:
  assumes "strictly_placed (xs @ ys)" and first: "xs = [] \<and> ys \<noteq> [] \<longrightarrow> js_less (Fin 0) (c_position (hd ys))"
  shows "\<exists>p. calculatePosition (neighbour_before xs) (neighbour_after ys) = Fin p \<and>
     (\<forall>x\<in>set xs. js_less (c_position x) (Fin p)) \<and> (\<forall>y\<in>set ys. js_less (Fin p) (c_position y))"
proof -
  let ?p = "calculatePosition (neighbour_before xs) (neighbour_after ys)"
  have fin: "\<exists>r. c_position c = Fin r" if "c \<in> set (xs @ ys)" for c
    using assms(1) that by (auto simp: strictly_placed_def finite_pos_def)
  have step: "js_less (c_position (last xs)) (c_position (hd ys))" if "xs \<noteq> []" "ys \<noteq> []"
    using assms(1) that by (auto simp: strictly_placed_def sorted_wrt_append)
  have "\<exists>p. ?p = Fin p \<and> (xs \<noteq> [] \<longrightarrow> js_less (c_position (last xs)) (Fin p)) \<and> (ys \<noteq> [] \<longrightarrow> js_less (Fin p) (c_position (hd ys)))"
    using fin [of "last xs"] fin [of "hd ys"] step first
    by (cases "xs = []"; cases "ys = []")
       (auto simp: calculatePosition_def neighbour_before_def neighbour_after_def, metis add_0 rat_half, metis rat_half)
  then obtain p where p: "?p = Fin p" and lo: "xs \<noteq> [] \<longrightarrow> js_less (c_position (last xs)) (Fin p)"
    and hi: "ys \<noteq> [] \<longrightarrow> js_less (Fin p) (c_position (hd ys))" by blast
  have "js_less (c_position x) (Fin p)" if "x \<in> set xs" for x
    using strictly_placed_last [OF assms(1) that] lo that js_less_trans by fastforce
  moreover have "js_less (Fin p) (c_position y)" if "y \<in> set ys" for y
    using strictly_placed_hd [OF assms(1) that] hi that js_less_trans by fastforce
  ultimately show ?thesis using p by blast
qed

text \<open>The board after the mutation a drop asks for.\<close>

definition apply_drop :: "dnd_mutation option \<Rightarrow> board_detail \<Rightarrow> board_detail" where
  "apply_drop d b = (case d of Some (MoveCard mv) \<Rightarrow> optimisticMove mv b | Some (ReorderColumns ids) \<Rightarrow> reorderColumns ids b | None \<Rightarrow> b)"

definition column_cards :: "board_detail \<Rightarrow> string \<Rightarrow> card_row list" where
  "column_cards b cid = (case find (\<lambda>col. col_id col = cid) (bd_columns b) of Some col \<Rightarrow> col_cards col | None \<Rightarrow> [])"

lemma find_map_column: "(\<And>col. col_id (f col) = col_id col) \<Longrightarrow>
    find (\<lambda>col. col_id col = cid) (map f cols) = map_option f (find (\<lambda>col. col_id col = cid) cols)"
  by (induction cols) auto

lemma column_cards_relocated:
  assumes "find (\<lambda>col. col_id col = c_column_id c) (bd_columns b) = Some col"
  shows "column_cards (relocated c b) (c_column_id c) = js_sort card_cmp (filter (\<lambda>x. c_id x \<noteq> c_id c) (col_cards col) @ [c])"
  using assms find_map_column [of "relocate c" "c_column_id c" "bd_columns b"] find_SomeD [OF assms]
  by (simp add: column_cards_def relocated_def relocate_def without_card_def)

lemma move_between:
  assumes "board_ok b" and "card_at b i = Some c" and "find (\<lambda>col. col_id col = cid) (bd_columns b) = Some col"
    and "filter (\<lambda>x. c_id x \<noteq> i) (col_cards col) = xs @ ys" and "strictly_placed (xs @ ys)"
    and "\<forall>x\<in>set xs. js_less (c_position x) (Fin p)" and "\<forall>y\<in>set ys. js_less (Fin p) (c_position y)"
  shows "map c_id (column_cards (optimisticMove \<lparr>mv_card_id = i, mv_column_id = cid, mv_position = Fin p\<rparr> b) cid) =
    map c_id xs @ i # map c_id ys"
proof -
  let ?c = "c\<lparr>c_column_id := cid, c_position := Fin p\<rparr>"
  have id: "c_id c = i" using assms(1,2) by (simp add: card_at_iff)
  have "optimisticMove \<lparr>mv_card_id = i, mv_column_id = cid, mv_position = Fin p\<rparr> b = relocated ?c b"
    using optimisticMove_relocated [OF assms(1), of "\<lparr>mv_card_id = i, mv_column_id = cid, mv_position = Fin p\<rparr>" c] assms(2) by simp
  moreover have "column_cards (relocated ?c b) cid = js_sort card_cmp ((xs @ ys) @ [?c])"
    using column_cards_relocated [of ?c b col] assms(3,4) id by simp
  moreover have "js_sort card_cmp (xs @ ys @ [?c]) = xs @ ?c # ys"
    by (rule js_sort_between) (use assms(5-7) in simp_all)
  ultimately show ?thesis using id by simp
qed


lemma column_filter_sorted:
  "board_ok b \<Longrightarrow> find (\<lambda>col. col_id col = cid) (bd_columns b) = Some col \<Longrightarrow>
     js_sort card_cmp (filter P (col_cards col)) = filter P (col_cards col)"
  by (rule pos.sort_id) (auto dest!: find_SomeD board_ok_columns simp: column_ok_def sorted_filter)

lemma js_findIndex_unique: "distinct (map f (xs @ t # ys)) \<Longrightarrow> js_findIndex (\<lambda>x. Some (f x) = Some (f t)) (xs @ t # ys) = Some (length xs)"
  by (induction xs) auto

lemma position_at_split:
  "position_at (xs @ t # ys) (int (length xs)) = Some (c_position t)"
  "position_at (xs @ t # ys) (int (length xs) - 1) = neighbour_before xs"
  "position_at (xs @ t # ys) (int (length xs) + 1) = neighbour_after ys"
proof -
  show "position_at (xs @ t # ys) (int (length xs)) = Some (c_position t)" by (simp add: position_at_def js_at_def)
  have "nat (int (length xs) - 1) = length xs - 1" by simp
  then show "position_at (xs @ t # ys) (int (length xs) - 1) = neighbour_before xs"
    by (cases xs rule: rev_cases) (auto simp: position_at_def js_at_def neighbour_before_def nth_append)
  have "nat (int (length xs) + 1) = Suc (length xs)" by simp
  then show "position_at (xs @ t # ys) (int (length xs) + 1) = neighbour_after ys"
    by (cases ys) (auto simp: position_at_def js_at_def neighbour_after_def nth_append)
qed

lemma filter_unique: "distinct (map f xs) \<Longrightarrow> x \<in> set xs \<Longrightarrow> filter (\<lambda>y. f y = f x) xs = [x]"
  by (induction xs) (auto simp: filter_empty_conv image_iff)

lemma already_between:
  assumes "board_ok b" and "card_at b i = Some c" and "find (\<lambda>col. col_id col = cid) (bd_columns b) = Some col"
    and "filter (\<lambda>x. c_id x \<noteq> i) (col_cards col) = xs @ ys" and "strictly_placed (xs @ ys)"
    and "\<forall>x\<in>set xs. js_less (c_position x) (c_position c)" and "\<forall>y\<in>set ys. js_less (c_position c) (c_position y)"
    and "c_column_id c = cid"
  shows "col_cards col = xs @ c # ys"
proof -
  have col: "col \<in> set (bd_columns b)" "col_id col = cid" using find_SomeD [OF assms(3)] by auto
  have cin: "c \<in> set (board_cards b)" and id: "c_id c = i" using assms(1,2) by (simp_all add: card_at_iff)
  then have c: "c \<in> set (col_cards col)" using board_ok_home [OF assms(1) col(1)] assms(8) col(2) by simp
  have d: "distinct (map c_id (col_cards col))"
    using assms(1) col(1) by (auto simp: board_ok_def board_cards_def map_concat distinct_concat_iff)
  have ms: "mset (xs @ ys @ [c]) = mset (col_cards col)"
  proof -
    have "filter (\<lambda>x. \<not> c_id x \<noteq> i) (col_cards col) = [c]"
      using filter_unique [OF d c] id by simp
    then show ?thesis using mset_filter_split [of "\<lambda>x. c_id x \<noteq> i" "col_cards col"] assms(4) by (simp add: union_commute)
  qed
  have num: "c_position c \<noteq> NaN" using card_position [OF assms(1,2)] .
  note sorted = js_sort_between [OF assms(5) num assms(6,7)]
  have "\<forall>x\<in>set (xs @ ys @ [c]). c_position x \<noteq> NaN" using strictly_placed_num [OF assms(5)] num by auto
  moreover have "distinct (map c_position (xs @ ys @ [c]))"
  proof -
    have "c_position c \<notin> c_position ` set (xs @ ys)" using assms(6,7) js_less_irrefl by fastforce
    then show ?thesis using strictly_placed_distinct [OF assms(5)] by auto
  qed
  ultimately have "js_sort card_cmp (xs @ ys @ [c]) = js_sort card_cmp (col_cards col)" using ms by (intro pos.sort_perm)
  also have "\<dots> = col_cards col" using column_filter_sorted [OF assms(1,3), of "\<lambda>_. True"] by simp
  finally show ?thesis using sorted by simp
qed



section \<open>Properties\<close>

lemma card_drop_on_card:
  assumes "find (\<lambda>col. col_id col = cid) (bd_columns b) = Some col"
    and "js_sort card_cmp (filter (\<lambda>x. c_id x \<noteq> c_id c) (col_cards col)) = cards" and "j \<noteq> []" and "j \<noteq> c_id c"
  shows "card_drop b c \<lparr>dt_id = j, dt_data = OverCard cid\<rparr> =
    (let p = drop_position c cid (Some j) cards in
     if c_column_id c = cid \<and> js_eq (c_position c) p then None
     else Some (MoveCard \<lparr>mv_card_id = c_id c, mv_column_id = cid, mv_position = p\<rparr>))"
  using assms by (simp add: card_drop_def Let_def)

text \<open>
  A card dropped on another card lands next to it: above it, or below it when it was dragged
  down within its own column. This holds for the board the drop leaves behind, whether the drop
  moved the card or found it in place, with distinct finite positions and the first one positive.
\<close>

lemma drop_on_card_lands:
  assumes "board_ok b" and "is_frozen b \<noteq> Some True" and "card_at b (c_id c) = Some c"
    and "find (\<lambda>col. col_id col = cid) (bd_columns b) = Some col"
    and "filter (\<lambda>x. c_id x \<noteq> c_id c) (col_cards col) = xs @ t # ys" and "strictly_placed (xs @ t # ys)"
    and "js_less (Fin 0) (c_position (hd (xs @ t # ys)))" and "c_id t \<noteq> []"
  shows "map c_id (column_cards (apply_drop (snd (handleDragEnd arrayMove (Some b) (Some (DragCard c))
            (Some \<lparr>dt_id = c_id t, dt_data = OverCard cid\<rparr>) st)) b) cid) =
    (if c_column_id c = cid \<and> js_less (c_position c) (c_position t)
     then map c_id xs @ c_id t # c_id c # map c_id ys
     else map c_id xs @ c_id c # c_id t # map c_id ys)"
proof -
  let ?down = "c_column_id c = cid \<and> js_less (c_position c) (c_position t)"
  define pre where "pre = (if ?down then xs @ [t] else xs)"
  define post where "post = (if ?down then ys else t # ys)"
  let ?cards = "xs @ t # ys"
  have split: "pre @ post = ?cards" by (simp add: pre_def post_def)
  have tc: "c_id t \<noteq> c_id c"
  proof -
    have "t \<in> set (filter (\<lambda>x. c_id x \<noteq> c_id c) (col_cards col))" unfolding assms(5) by simp
    then show ?thesis by simp
  qed
  have col: "col \<in> set (bd_columns b)" using find_SomeD [OF assms(4)] by simp
  have "distinct (map c_id (col_cards col))"
    using assms(1) col by (auto simp: board_ok_def board_cards_def map_concat distinct_concat_iff)
  then have "distinct (map c_id ?cards)" by (metis assms(5) distinct_map_filter)
  from js_findIndex_unique [OF this]
  have pos: "drop_position c cid (Some (c_id t)) ?cards = calculatePosition (neighbour_before pre) (neighbour_after post)"
    using assms(8) position_at_split [of xs t ys]
    by (auto simp: drop_position_def Let_def neighbour_before_def neighbour_after_def pre_def post_def)
  have "\<exists>p. calculatePosition (neighbour_before pre) (neighbour_after post) = Fin p \<and>
     (\<forall>x\<in>set pre. js_less (c_position x) (Fin p)) \<and> (\<forall>y\<in>set post. js_less (Fin p) (c_position y))"
    by (rule calculatePosition_between) (use assms(6,7) split in \<open>auto simp: pre_def post_def hd_append split: if_splits\<close>)
  then obtain p where p: "drop_position c cid (Some (c_id t)) ?cards = Fin p"
    and lo: "\<forall>x\<in>set pre. js_less (c_position x) (Fin p)" and hi: "\<forall>y\<in>set post. js_less (Fin p) (c_position y)"
    using pos by auto
  have rest: "filter (\<lambda>x. c_id x \<noteq> c_id c) (col_cards col) = pre @ post" and placed: "strictly_placed (pre @ post)"
    using assms(5,6) split by simp_all
  have cards: "js_sort card_cmp (filter (\<lambda>x. c_id x \<noteq> c_id c) (col_cards col)) = ?cards"
    using column_filter_sorted [OF assms(1,4), of "\<lambda>x. c_id x \<noteq> c_id c"] unfolding assms(5) .
  have drop: "snd (handleDragEnd arrayMove (Some b) (Some (DragCard c)) (Some \<lparr>dt_id = c_id t, dt_data = OverCard cid\<rparr>) st) =
      (if c_column_id c = cid \<and> js_eq (c_position c) (Fin p) then None
       else Some (MoveCard \<lparr>mv_card_id = c_id c, mv_column_id = cid, mv_position = Fin p\<rparr>))"
    using card_drop_on_card [OF assms(4) cards assms(8) tc] assms(2) p by (simp add: handleDragEnd_def Let_def)
  have "map c_id (column_cards (apply_drop (if c_column_id c = cid \<and> js_eq (c_position c) (Fin p) then None
       else Some (MoveCard \<lparr>mv_card_id = c_id c, mv_column_id = cid, mv_position = Fin p\<rparr>)) b) cid) = map c_id pre @ c_id c # map c_id post"
  proof (cases "c_column_id c = cid \<and> js_eq (c_position c) (Fin p)")
    case True
    then have "c_position c = Fin p" by (simp add: js_eq_def)
    then have "col_cards col = pre @ c # post"
      using already_between [OF assms(1,3,4) rest placed] lo hi True by metis
    then show ?thesis using assms(4) unfolding if_P [OF True] by (simp add: apply_drop_def column_cards_def)
  next
    case False
    show ?thesis using move_between [OF assms(1,3,4) rest placed lo hi] unfolding if_not_P [OF False] by (simp add: apply_drop_def)
  qed
  then show ?thesis unfolding drop pre_def post_def by (cases ?down) (simp_all only: if_True if_False refl simp_thms map_append append_assoc append_Cons append_Nil list.map if_P if_not_P)
qed

lemma fold_max_position:
  assumes "strictly_placed (xs @ [l])"
  shows "foldl (\<lambda>mx c. if js_less mx (c_position c) then c_position c else mx) NInf (xs @ [l]) = c_position l"
proof -
  have less: "js_less NInf (c_position c) \<and> c_position c \<noteq> NaN" if "finite_pos c" for c using that by (auto simp: finite_pos_def)
  have "foldl (\<lambda>mx c. if js_less mx (c_position c) then c_position c else mx) NInf zs = (if zs = [] then NInf else c_position (last zs))"
    if "strictly_placed zs" for zs
    using that
  proof (induction zs rule: rev_induct)
    case (snoc z zs)
    then have "strictly_placed zs" by (auto simp: strictly_placed_def sorted_wrt_append)
    then show ?case using snoc less [of z] by (auto simp: strictly_placed_def sorted_wrt_append)
  qed simp
  from this [OF assms] show ?thesis by simp
qed

text \<open>
  A card sent to another column from the list view becomes the last card of that column, and
  the move is refused for its own column and for a column that does not exist.
\<close>

lemma list_move_lands_last:
  assumes "board_ok b" and "card_at b i = Some c" and "find (\<lambda>col. col_id col = cid) (bd_columns b) = Some col"
    and "strictly_placed (filter (\<lambda>x. c_id x \<noteq> i) (col_cards col))" and "c_column_id c \<noteq> cid"
  shows "\<exists>mv. computeColumnMove i (c_column_id c) cid (bd_columns b) = Some mv \<and>
    map c_id (column_cards (optimisticMove mv b) cid) = map c_id (filter (\<lambda>x. c_id x \<noteq> i) (col_cards col)) @ [i] \<and>
    computeColumnMove i cid cid (bd_columns b) = None"
proof -
  let ?rest = "filter (\<lambda>x. c_id x \<noteq> i) (col_cards col)"
  have "\<exists>p. computeColumnMove i (c_column_id c) cid (bd_columns b) = Some \<lparr>mv_card_id = i, mv_column_id = cid, mv_position = Fin p\<rparr> \<and>
      (\<forall>x\<in>set ?rest. js_less (c_position x) (Fin p))"
  proof (cases ?rest rule: rev_cases)
    case Nil
    then show ?thesis using assms(3,5) unfolding Nil by (simp add: computeColumnMove_def POSITION_STEP_def Nil)
  next
    case (snoc zs l)
    have l: "finite_pos l" using assms(4) snoc by (auto simp: strictly_placed_def)
    then obtain r where r: "c_position l = Fin r" by (auto simp: finite_pos_def)
    have mx: "foldl (\<lambda>mx c. if js_less mx (c_position c) then c_position c else mx) NInf ?rest = Fin r"
      using fold_max_position [of zs l] assms(4) snoc r by simp
    have "js_less (c_position x) (Fin (r + 1024))" if "x \<in> set ?rest" for x
    proof -
      have "x = l \<or> js_less (c_position x) (c_position l)" using strictly_placed_last [of ?rest "[]" x] assms(4) that snoc by auto
      then show ?thesis using r js_less_trans [of "c_position x" "Fin r" "Fin (r + 1024)"] by auto
    qed
    moreover have "?rest \<noteq> []" using snoc by simp
    ultimately show ?thesis using assms(3,5) mx by (intro exI [of _ "r + 1024"]) (simp add: computeColumnMove_def POSITION_STEP_def Let_def)
  qed
  then obtain p where mv: "computeColumnMove i (c_column_id c) cid (bd_columns b) = Some \<lparr>mv_card_id = i, mv_column_id = cid, mv_position = Fin p\<rparr>"
    and lo: "\<forall>x\<in>set ?rest. js_less (c_position x) (Fin p)" by blast
  from move_between [OF assms(1-3), of ?rest "[]" p] assms(4) lo mv show ?thesis
    by (simp add: computeColumnMove_def)
qed


text \<open>
  A drag ends with the drag state cleared, and its mutation fits what was dragged: a column
  drag never moves a card, a card drag never reorders columns, and a drop on nothing or on a
  frozen board does nothing.
\<close>

lemma drag_end_guarded:
  "fst (handleDragEnd arrayMove board active over st) = \<lparr>activeCard = None, activeColumn = None, overColumnId = None\<rparr> \<and>
   (case snd (handleDragEnd arrayMove board active over st) of
      None \<Rightarrow> True
    | Some (MoveCard mv) \<Rightarrow> (\<exists>b c t. board = Some b \<and> is_frozen b \<noteq> Some True \<and> active = Some (DragCard c) \<and> over = Some t \<and>
        mv_card_id mv = c_id c \<and> mv_column_id mv \<in> col_id ` set (bd_columns b))
    | Some (ReorderColumns ids) \<Rightarrow> (\<exists>b col from to. board = Some b \<and> is_frozen b \<noteq> Some True \<and> active = Some (DragColumn col) \<and>
        from \<noteq> to \<and> ids = arrayMove (map col_id (js_sort (pos_cmp col_position) (bd_columns b))) from to))"
proof -
  have card: "\<exists>mv. d = MoveCard mv \<and> mv_card_id mv = c_id c \<and> mv_column_id mv \<in> col_id ` set (bd_columns b)"
    if "card_drop b c t = Some d" for b c t d
    using that by (auto simp: card_drop_def Let_def split: option.splits if_splits over_data.splits)
      (metis (mono_tags, lifting) find_SomeD image_eqI)+
  have col: "\<exists>from to. from \<noteq> to \<and> d = ReorderColumns (arrayMove (map col_id (js_sort (pos_cmp col_position) (bd_columns b))) from to)"
    if "column_drop arrayMove b k t = Some d" for b k t d
    using that by (auto simp: column_drop_def Let_def split: option.splits if_splits over_data.splits)
  have reset: "fst (handleDragEnd arrayMove board active over st) = \<lparr>activeCard = None, activeColumn = None, overColumnId = None\<rparr>"
    by (simp add: handleDragEnd_def dnd_reset_def)
  show ?thesis
  proof (cases "snd (handleDragEnd arrayMove board active over st)")
    case None
    then show ?thesis using reset by simp
  next
    case (Some d)
    then obtain b data t where f: "over = Some t" "board = Some b" "active = Some data" "is_frozen b \<noteq> Some True"
      by (auto simp: handleDragEnd_def split: option.splits if_splits)
    show ?thesis
    proof (cases data)
      case (DragCard c)
      then have "card_drop b c t = Some d" using Some f by (simp add: handleDragEnd_def)
      from card [OF this] show ?thesis using f DragCard reset Some by auto
    next
      case (DragColumn k)
      then have "column_drop arrayMove b k t = Some d" using Some f by (simp add: handleDragEnd_def)
      from col [OF this] show ?thesis using f DragColumn reset Some by (elim exE conjE) (simp, blast)
    qed
  qed
qed

text \<open>
  The collision strategy never targets the dragged card itself or, for a card, a column header,
  whichever of the library's algorithms answers, as these return ids of the containers they get.
\<close>

lemma collisions_targets:
  assumes "\<And>cs. set (pointerWithin cs) \<subseteq> dr_id ` set cs" and "\<And>cs. set (rectIntersection cs) \<subseteq> dr_id ` set cs"
    and "\<And>cs. set (closestCenter cs) \<subseteq> dr_id ` set cs"
    and "i \<in> set (kanbanCollisions pointerWithin rectIntersection closestCenter columnIds (Some act) isColumnDrag containers)"
  shows "\<exists>d\<in>set containers. dr_id d = i \<and> (if isColumnDrag then dr_is_header d else i \<noteq> act \<and> \<not> dr_is_header d)"
proof (cases isColumnDrag)
  case True
  then show ?thesis using assms(3) [of "filter dr_is_header containers"] assms(4) by (auto simp: kanbanCollisions_def)
next
  case False
  let ?cs = "filter (\<lambda>c. Some (dr_id c) \<noteq> Some act \<and> \<not> dr_is_header c) containers"
  have "i \<in> dr_id ` set ?cs"
    using False assms(1) [of ?cs] assms(2) [of ?cs] assms(3) [of "filter (\<lambda>c. dr_id c \<in> set columnIds) ?cs"] assms(4)
    by (auto simp: kanbanCollisions_def Let_def split: if_splits)
  then show ?thesis using False by auto
qed

end
