(* ===== verification/Event_System.thy ===== *)
theory Event_System
  imports JS_Prelude
begin

text \<open>
  Stateful modules as event systems. An event is a call of the module or the settling of a promise
  it waits for; \<open>step e s\<close> is the state after the event, \<open>None\<close> when the event cannot happen in
  \<open>s\<close> (no such promise is pending). \<open>run_events\<close> executes a sequence of events, so that a scenario is
  evaluated, and the locale \<open>event_invariant\<close> carries an invariant along every sequence. The
  locale \<open>event_monotone\<close> is for facts about the past: a relation between the states before and after
  an event that composes.
\<close>

primrec run_events :: "('e \<Rightarrow> 's \<Rightarrow> 's option) \<Rightarrow> 'e list \<Rightarrow> 's \<Rightarrow> 's option" where
  "run_events step [] s = Some s"
| "run_events step (e # es) s = (case step e s of None \<Rightarrow> None | Some s' \<Rightarrow> run_events step es s')"

lemma run_events_append:
  "run_events step (es @ fs) s = (case run_events step es s of None \<Rightarrow> None | Some s' \<Rightarrow> run_events step fs s')"
  by (induction es arbitrary: s) (auto split: option.split)

text \<open>A promise that is pending can settle; nothing else happens for it.\<close>

definition given :: "bool \<Rightarrow> 's \<Rightarrow> 's option" where
  "given enabled s = (if enabled then Some s else None)"

lemma given_Some [simp]: "given enabled s = Some s' \<longleftrightarrow> enabled \<and> s' = s"
  by (auto simp: given_def)

lemma given_simps [simp]: "given True s = Some s" "given False s = None"
  by (simp_all add: given_def)

locale event_invariant =
  fixes step :: "'e \<Rightarrow> 's \<Rightarrow> 's option" and start :: 's and inv :: "'s \<Rightarrow> bool"
  assumes start_inv: "inv start"
    and step_inv: "inv s \<Longrightarrow> step e s = Some s' \<Longrightarrow> inv s'"
begin

lemma run_keeps: "inv s \<Longrightarrow> run_events step es s = Some s' \<Longrightarrow> inv s'"
  by (induction es arbitrary: s) (auto split: option.splits dest: step_inv)

lemma run_inv: "run_events step es start = Some s \<Longrightarrow> inv s"
  using run_keeps [OF start_inv] .

end

locale event_monotone = event_invariant step start inv for step :: "'e \<Rightarrow> 's \<Rightarrow> 's option" and start :: 's and inv :: "'s \<Rightarrow> bool" +
  fixes grows :: "'s \<Rightarrow> 's \<Rightarrow> bool"
  assumes grows_refl: "inv s \<Longrightarrow> grows s s"
    and grows_trans: "inv s \<Longrightarrow> inv s' \<Longrightarrow> grows s s' \<Longrightarrow> grows s' s'' \<Longrightarrow> grows s s''"
    and step_grows: "inv s \<Longrightarrow> step e s = Some s' \<Longrightarrow> grows s s'"
begin

lemma run_grows: "inv s \<Longrightarrow> run_events step es s = Some s' \<Longrightarrow> grows s s'"
proof (induction es arbitrary: s)
  case (Cons e es)
  then obtain s1 where s1: "step e s = Some s1" "run_events step es s1 = Some s'" by (auto split: option.splits)
  have "inv s1" by (rule step_inv [OF Cons.prems(1) s1(1)])
  then show ?case using grows_trans [OF Cons.prems(1) _ step_grows [OF Cons.prems(1) s1(1)]] Cons.IH s1(2) by blast
qed (simp add: grows_refl)

end

end
