(* ===== verification/Card_Edits.thy ===== *)
theory Card_Edits
  imports Board_Cache Event_System
begin

text \<open>
  Creating, editing, moving and deleting a card and reordering the columns with an optimistic cache
  (\<open>features/kanban/api/use-cards.ts\<close>, \<open>hooks/use-optimistic-card-move.ts\<close>, \<open>hooks/use-reorder-columns.ts\<close>): each mutation
  changes the cached board when it starts, puts back what it found when it fails, and has the board read again when it
  is settled; an edit and a move also take care of the cached detail of their card. The world around the hooks is the query cache
  as its library documents it (reads that can be cancelled, invalidation) for a board that is on the screen, and the
  server's board.
\<close>


section \<open>Requests\<close>

record new_card =
  nc_title :: string
  nc_column_id :: string
  nc_type :: card_type
  nc_priority :: priority
  nc_position :: jsnum
  nc_description :: "string option"
  nc_due_date :: "string option"
  nc_status :: "string option"
  nc_labels :: "string list option"

text \<open>The fields that an edit sends; the nullable ones can be sent as null.\<close>

record card_update =
  cu_title :: "string option"
  cu_description :: "string option"
  cu_type :: "card_type option"
  cu_priority :: "priority option"
  cu_due_date :: "string option option"
  cu_status :: "string option option"
  cu_labels :: "string list option option"

datatype edit_request =
    CreateCard new_card
  | UpdateCard string card_update
  | MoveCard card_move_request
  | DeleteCard string
  | ReorderColumns "string list"

text \<open>The card whose cached detail the mutation writes to.\<close>

definition detail_of :: "edit_request \<Rightarrow> string option" where
  "detail_of r = (case r of UpdateCard i _ \<Rightarrow> Some i | MoveCard mv \<Rightarrow> Some (mv_card_id mv) | _ \<Rightarrow> None)"

definition sent :: "'a option \<Rightarrow> 'a \<Rightarrow> 'a" where
  "sent new old = (case new of Some v \<Rightarrow> v | None \<Rightarrow> old)"

definition merge_fields :: "card_update \<Rightarrow> card_row \<Rightarrow> card_row" where
  "merge_fields u c = c\<lparr>c_title := sent (cu_title u) (c_title c), c_description := sent (cu_description u) (c_description c),
     c_type := sent (cu_type u) (c_type c), c_priority := sent (cu_priority u) (c_priority c),
     c_due_date := sent (cu_due_date u) (c_due_date c), c_status := sent (cu_status u) (c_status c),
     c_labels := sent (cu_labels u) (c_labels c)\<rparr>"

text \<open>\<open>Object.keys(fields).map((field) => [field, saved[field]])\<close>\<close>

definition committed_fields :: "card_update \<Rightarrow> card_row \<Rightarrow> card_update" where
  "committed_fields u saved =
     \<lparr>cu_title = map_option (\<lambda>_. c_title saved) (cu_title u), cu_description = map_option (\<lambda>_. c_description saved) (cu_description u),
      cu_type = map_option (\<lambda>_. c_type saved) (cu_type u), cu_priority = map_option (\<lambda>_. c_priority saved) (cu_priority u),
      cu_due_date = map_option (\<lambda>_. c_due_date saved) (cu_due_date u), cu_status = map_option (\<lambda>_. c_status saved) (cu_status u),
      cu_labels = map_option (\<lambda>_. c_labels saved) (cu_labels u)\<rparr>"


section \<open>Optimistic boards\<close>

definition temp_card :: "string \<Rightarrow> string \<Rightarrow> new_card \<Rightarrow> card_row" where
  "temp_card tempId now p =
     \<lparr>c_id = tempId, c_title = nc_title p, c_description = (case nc_description p of Some d \<Rightarrow> d | None \<Rightarrow> ''''), c_type = nc_type p,
      c_priority = nc_priority p, c_position = nc_position p, c_column_id = nc_column_id p, c_participants = [],
      c_due_date = nc_due_date p, c_status = nc_status p, c_labels = nc_labels p, has_pending_approval = None,
      pending_approval_id = None, agent_presence = None, active_execution_id = None, last_agent_activity_at = None,
      pr_url = None, branch_name = None, depends_on_count = None, blocks_count = None, dependency_status = None,
      c_created_at = now, c_updated_at = now\<rparr>"

definition optimistic_create :: "string \<Rightarrow> string \<Rightarrow> new_card \<Rightarrow> board_detail \<Rightarrow> board_detail" where
  "optimistic_create tempId now p old = old\<lparr>bd_columns := map (\<lambda>col.
     if col_id col \<noteq> nc_column_id p then col
     else col\<lparr>col_cards := js_sort card_cmp (col_cards col @ [temp_card tempId now p])\<rparr>) (bd_columns old)\<rparr>"

definition optimistic_update :: "string \<Rightarrow> string \<Rightarrow> card_update \<Rightarrow> board_detail \<Rightarrow> board_detail" where
  "optimistic_update cardId now u old = old\<lparr>bd_columns := map (\<lambda>col. col\<lparr>col_cards :=
     map (\<lambda>c. if c_id c = cardId then (merge_fields u c)\<lparr>c_updated_at := now\<rparr> else c) (col_cards col)\<rparr>) (bd_columns old)\<rparr>"

definition optimistic_delete :: "string \<Rightarrow> board_detail \<Rightarrow> board_detail" where
  "optimistic_delete cardId old = old\<lparr>bd_columns := map (\<lambda>col. col\<lparr>col_cards :=
     filter (\<lambda>c. c_id c \<noteq> cardId) (col_cards col)\<rparr>) (bd_columns old)\<rparr>"

fun optimistic :: "string \<Rightarrow> string \<Rightarrow> edit_request \<Rightarrow> board_detail \<Rightarrow> board_detail" where
  "optimistic tempId now (CreateCard p) = optimistic_create tempId now p"
| "optimistic tempId now (UpdateCard cardId u) = optimistic_update cardId now u"
| "optimistic tempId now (MoveCard mv) = optimisticMove mv"
| "optimistic tempId now (DeleteCard cardId) = optimistic_delete cardId"
| "optimistic tempId now (ReorderColumns column_ids) = reorderColumns column_ids"


section \<open>The query cache\<close>

datatype board_fetch = NoFetch | Reading | ReadDone board_detail

text \<open>
  The cached detail of a card. The flag \<open>cd_owed\<close> is no part of the program: it says that a read that was wanted was
  lost or that the card changed, so that the detail has to be read again.
\<close>

record card_detail =
  cd_data :: "card_row option"
  cd_fetching :: bool
  cd_invalidated :: bool
  cd_owed :: bool

definition no_detail :: card_detail where
  "no_detail = \<lparr>cd_data = None, cd_fetching = False, cd_invalidated = False, cd_owed = False\<rparr>"

datatype edit_phase = Begun | Applied "board_detail option"

record card_edit =
  ce_request :: edit_request
  ce_phase :: edit_phase
  ce_needsDetailRefresh :: bool
  ce_committed :: bool

record edits_world =
  ew_cache :: "board_detail option"
  ew_invalidated :: bool
  ew_fetch :: board_fetch
  ew_details :: "string \<Rightarrow> card_detail"
  ew_edits :: "(nat, card_edit) jsmap"
  ew_server :: board_detail

definition set_board :: "board_detail \<Rightarrow> edits_world \<Rightarrow> edits_world" where
  "set_board b w = w\<lparr>ew_cache := Some b, ew_invalidated := False\<rparr>"

definition invalidate_board :: "edits_world \<Rightarrow> edits_world" where
  "invalidate_board w = w\<lparr>ew_invalidated := True, ew_fetch := Reading\<rparr>"

definition on_detail :: "string \<Rightarrow> (card_detail \<Rightarrow> card_detail) \<Rightarrow> edits_world \<Rightarrow> edits_world" where
  "on_detail i f w = w\<lparr>ew_details := (ew_details w)(i := f (ew_details w i))\<rparr>"

definition cancel_read :: "card_detail \<Rightarrow> card_detail" where
  "cancel_read d = d\<lparr>cd_fetching := False, cd_owed := cd_owed d \<or> cd_fetching d\<rparr>"

definition read_lost :: "card_detail \<Rightarrow> bool" where
  "read_lost d = (cd_fetching d \<or> cd_invalidated d)"


section \<open>The mutations\<close>

text \<open>
  \<open>onMutate\<close> runs up to its \<open>await\<close> when the mutation starts, and the rest when the cancelled reads are gone.
\<close>

definition begin_edit :: "nat \<Rightarrow> edit_request \<Rightarrow> edits_world \<Rightarrow> edits_world" where
  "begin_edit n r w =
     (let needs = (case detail_of r of Some i \<Rightarrow> read_lost (ew_details w i) | None \<Rightarrow> False);
          w1 = (case detail_of r of Some i \<Rightarrow> on_detail i cancel_read w | None \<Rightarrow> w)
      in w1\<lparr>ew_fetch := NoFetch,
            ew_edits := jm_set n \<lparr>ce_request = r, ce_phase = Begun, ce_needsDetailRefresh = needs, ce_committed = False\<rparr> (ew_edits w1)\<rparr>)"

definition apply_edit :: "nat \<Rightarrow> card_edit \<Rightarrow> string \<Rightarrow> string \<Rightarrow> edits_world \<Rightarrow> edits_world" where
  "apply_edit n e tempId now w =
     (let w1 = (case ew_cache w of Some old \<Rightarrow> set_board (optimistic tempId now (ce_request e) old) w | None \<Rightarrow> w)
      in w1\<lparr>ew_edits := jm_set n (e\<lparr>ce_phase := Applied (ew_cache w)\<rparr>) (ew_edits w1)\<rparr>)"

text \<open>Only the fields that were sent are taken over from the answer.\<close>

fun acknowledged :: "edit_request \<Rightarrow> card_row \<Rightarrow> card_row \<Rightarrow> card_row" where
  "acknowledged (UpdateCard i u) saved current = merge_fields (committed_fields u saved) current"
| "acknowledged (MoveCard mv) saved current = current\<lparr>c_column_id := c_column_id saved, c_position := c_position saved\<rparr>"
| "acknowledged _ saved current = current"

definition acknowledge :: "edit_request \<Rightarrow> card_row \<Rightarrow> card_detail \<Rightarrow> card_detail" where
  "acknowledge r saved d = (let d1 = cancel_read d in
     case cd_data d1 of Some current \<Rightarrow> d1\<lparr>cd_data := Some (acknowledged r saved current), cd_invalidated := False\<rparr> | None \<Rightarrow> d1)"

definition edit_succeeded :: "edit_request \<Rightarrow> card_row \<Rightarrow> bool \<Rightarrow> edits_world \<Rightarrow> bool \<times> edits_world" where
  "edit_succeeded r saved needs w = (case detail_of r of
     Some i \<Rightarrow> (needs \<or> read_lost (ew_details w i), on_detail i (acknowledge r saved) w)
   | None \<Rightarrow> (needs, case r of DeleteCard i \<Rightarrow> on_detail i (\<lambda>_. no_detail) w | _ \<Rightarrow> w))"

definition edit_failed :: "edit_phase \<Rightarrow> edits_world \<Rightarrow> edits_world" where
  "edit_failed phase w = (case phase of Applied (Some snapshot) \<Rightarrow> set_board snapshot w | _ \<Rightarrow> w)"

definition edit_settled :: "nat \<Rightarrow> edit_request \<Rightarrow> bool \<Rightarrow> edits_world \<Rightarrow> edits_world" where
  "edit_settled n r needs w =
     (let w1 = invalidate_board w;
          w2 = (case detail_of r of Some i \<Rightarrow> if needs then on_detail i (\<lambda>d. d\<lparr>cd_invalidated := True\<rparr>) w1 else w1 | None \<Rightarrow> w1)
      in w2\<lparr>ew_edits := jm_delete n (ew_edits w2)\<rparr>)"


section \<open>Events\<close>

datatype edit_event =
    BeginEdit nat edit_request
  | ApplyEdit nat string string
  | ServerCommits nat board_detail
  | EditSucceeds nat card_row
  | EditFails nat
  | StartBoardRead
  | ServerAnswersBoard
  | BoardFetched
  | BoardReadFails
  | StartDetailRead string
  | DetailFetched string card_row
  | InvalidateDetail string

text \<open>A temporary card needs an id that is not taken, and positions are numbers.\<close>

fun can_apply :: "edit_request \<Rightarrow> string \<Rightarrow> board_detail option \<Rightarrow> bool" where
  "can_apply (CreateCard p) tempId (Some b) = (tempId \<notin> c_id ` set (board_cards b) \<and> nc_position p \<noteq> NaN)"
| "can_apply (MoveCard mv) tempId (Some b) = (mv_position mv \<noteq> NaN)"
| "can_apply (ReorderColumns ids) tempId (Some b) = (distinct ids \<and> list_all (\<lambda>col. col_position col \<noteq> NaN) (bd_columns b))"
| "can_apply _ _ _ = True"

fun edits_step :: "edit_event \<Rightarrow> edits_world \<Rightarrow> edits_world option" where
  "edits_step (BeginEdit n r) w = given (\<not> jm_has (ew_edits w) n) (begin_edit n r w)"
| "edits_step (ApplyEdit n tempId now) w = (case jm_get (ew_edits w) n of
     Some e \<Rightarrow> given (ce_phase e = Begun \<and> can_apply (ce_request e) tempId (ew_cache w)) (apply_edit n e tempId now w)
   | None \<Rightarrow> None)"
| "edits_step (ServerCommits n b) w = (case jm_get (ew_edits w) n of
     Some e \<Rightarrow> given (ce_phase e \<noteq> Begun \<and> \<not> ce_committed e \<and> board_ok b)
       (w\<lparr>ew_server := b, ew_edits := jm_set n (e\<lparr>ce_committed := True\<rparr>) (ew_edits w)\<rparr>)
   | None \<Rightarrow> None)"
| "edits_step (EditSucceeds n saved) w = (case jm_get (ew_edits w) n of
     Some e \<Rightarrow> given (ce_committed e) (case edit_succeeded (ce_request e) saved (ce_needsDetailRefresh e) w of
       (needs, w1) \<Rightarrow> edit_settled n (ce_request e) needs w1)
   | None \<Rightarrow> None)"
| "edits_step (EditFails n) w = (case jm_get (ew_edits w) n of
     Some e \<Rightarrow> given (ce_phase e \<noteq> Begun) (edit_settled n (ce_request e) (ce_needsDetailRefresh e) (edit_failed (ce_phase e) w))
   | None \<Rightarrow> None)"
| "edits_step StartBoardRead w = given (ew_fetch w = NoFetch) (w\<lparr>ew_fetch := Reading\<rparr>)"
| "edits_step ServerAnswersBoard w = given (ew_fetch w = Reading) (w\<lparr>ew_fetch := ReadDone (ew_server w)\<rparr>)"
| "edits_step BoardFetched w = (case ew_fetch w of ReadDone b \<Rightarrow> Some (set_board b (w\<lparr>ew_fetch := NoFetch\<rparr>)) | _ \<Rightarrow> None)"
| "edits_step BoardReadFails w = given (ew_fetch w \<noteq> NoFetch) (w\<lparr>ew_fetch := NoFetch\<rparr>)"
| "edits_step (StartDetailRead i) w = Some (on_detail i (\<lambda>d. d\<lparr>cd_fetching := True\<rparr>) w)"
| "edits_step (DetailFetched i c) w = given (cd_fetching (ew_details w i))
     (on_detail i (\<lambda>d. \<lparr>cd_data = Some c, cd_fetching = False, cd_invalidated = False, cd_owed = False\<rparr>) w)"
| "edits_step (InvalidateDetail i) w = Some (on_detail i (\<lambda>d. d\<lparr>cd_invalidated := True, cd_owed := True\<rparr>) w)"

definition edits_start :: "board_detail \<Rightarrow> edits_world" where
  "edits_start b = \<lparr>ew_cache = Some b, ew_invalidated = False, ew_fetch = NoFetch, ew_details = (\<lambda>_. no_detail), ew_edits = [], ew_server = b\<rparr>"

section \<open>Optimistic boards are boards\<close>

lemma optimistic_delete_eq: "optimistic_delete i b = dropped i b"
  by (simp add: optimistic_delete_def dropped_def drop_card_eq)

lemma optimistic_update_eq: "optimistic_update i now u b = map_card i (\<lambda>c. (merge_fields u c)\<lparr>c_updated_at := now\<rparr>) b"
  by (simp add: optimistic_update_def map_card_def)

lemma merge_fields_keeps: "c_id (merge_fields u c) = c_id c \<and> c_column_id (merge_fields u c) = c_column_id c \<and> c_position (merge_fields u c) = c_position c"
  by (simp add: merge_fields_def)

lemma without_fresh: "tempId \<notin> c_id ` set (board_cards b) \<Longrightarrow> col \<in> set (bd_columns b) \<Longrightarrow> without_card tempId col = col_cards col"
  unfolding without_card_def by (rule filter_True) (auto simp: board_cards_def)

lemma optimistic_create_eq:
  assumes "tempId \<notin> c_id ` set (board_cards b)"
  shows "optimistic_create tempId now p b = relocated (temp_card tempId now p) b"
proof -
  have "(if col_id col \<noteq> nc_column_id p then col else col\<lparr>col_cards := js_sort card_cmp (col_cards col @ [temp_card tempId now p])\<rparr>) =
      relocate (temp_card tempId now p) col" if "col \<in> set (bd_columns b)" for col
    using without_fresh [OF assms that] by (simp add: relocate_def drop_card_def temp_card_def)
  then show ?thesis by (simp add: optimistic_create_def relocated_def)
qed

lemma relocated_nowhere: "c_column_id c \<notin> col_id ` set (bd_columns b) \<Longrightarrow> relocated c b = dropped (c_id c) b"
proof -
  assume "c_column_id c \<notin> col_id ` set (bd_columns b)"
  then have "col \<in> set (bd_columns b) \<Longrightarrow> col_id col \<noteq> c_column_id c" for col by (metis imageI)
  then have "col \<in> set (bd_columns b) \<Longrightarrow> relocate c col = drop_card (c_id c) col" for col by (simp add: relocate_def)
  then show ?thesis by (simp add: relocated_def dropped_def)
qed

lemma optimistic_move_ok:
  assumes "board_ok b" "mv_position mv \<noteq> NaN"
  shows "board_ok (optimisticMove mv b)"
proof (cases "card_at b (mv_card_id mv)")
  case None
  then have "find (\<lambda>c. c_id c = mv_card_id mv) (rev (board_cards b)) = None"
    by (auto simp: card_at_def find_None_iff)
  then show ?thesis using assms(1) by (simp add: optimisticMove_def Let_def)
next
  case (Some c)
  let ?c = "c\<lparr>c_column_id := mv_column_id mv, c_position := mv_position mv\<rparr>"
  show ?thesis unfolding optimisticMove_relocated [OF assms(1) Some]
    using relocated_ok [OF assms(1), of ?c] relocated_nowhere [of ?c b] dropped_ok [OF assms(1)] assms(2)
    by (cases "mv_column_id mv \<in> col_id ` set (bd_columns b)") auto
qed

lemma optimistic_ok: "board_ok b \<Longrightarrow> can_apply r tempId (Some b) \<Longrightarrow> board_ok (optimistic tempId now r b)"
proof (cases r)
  case (CreateCard p)
  assume "board_ok b" "can_apply r tempId (Some b)"
  then show ?thesis using CreateCard relocated_ok [of b "temp_card tempId now p"] dropped_ok [of b tempId]
    by (cases "nc_column_id p \<in> col_id ` set (bd_columns b)") (simp_all add: optimistic_create_eq relocated_nowhere temp_card_def)
next
  case (UpdateCard i u)
  assume "board_ok b"
  then show ?thesis using UpdateCard by (simp add: optimistic_update_eq) (rule map_card_ok, simp_all add: merge_fields_keeps)
next
  case (MoveCard mv)
  assume "board_ok b" "can_apply r tempId (Some b)"
  then show ?thesis using MoveCard by (simp add: optimistic_move_ok)
next
  case (DeleteCard i)
  assume "board_ok b"
  then show ?thesis using DeleteCard by (simp add: optimistic_delete_eq dropped_ok)
next
  case (ReorderColumns ids)
  assume "board_ok b" "can_apply r tempId (Some b)"
  then show ?thesis using ReorderColumns reorder_columns_order [of b ids] by (simp add: list_all_iff)
qed


section \<open>Invariants\<close>

lemma jm_set_ne [simp]: "jm_set k v m \<noteq> []"
  by (cases m) (auto split: if_splits)

lemma on_detail_simps [simp]:
  "ew_cache (on_detail i f w) = ew_cache w" "ew_invalidated (on_detail i f w) = ew_invalidated w" "ew_fetch (on_detail i f w) = ew_fetch w"
  "ew_edits (on_detail i f w) = ew_edits w" "ew_server (on_detail i f w) = ew_server w"
  "ew_details (on_detail i f w) = (ew_details w)(i := f (ew_details w i))"
  by (simp_all add: on_detail_def)

lemma set_board_simps [simp]:
  "ew_cache (set_board b w) = Some b" "ew_invalidated (set_board b w) = False" "ew_fetch (set_board b w) = ew_fetch w"
  "ew_edits (set_board b w) = ew_edits w" "ew_server (set_board b w) = ew_server w" "ew_details (set_board b w) = ew_details w"
  by (simp_all add: set_board_def)

lemma settled_simps [simp]:
  "ew_cache (edit_settled n r needs w) = ew_cache w" "ew_invalidated (edit_settled n r needs w)" "ew_fetch (edit_settled n r needs w) = Reading"
  "ew_edits (edit_settled n r needs w) = jm_delete n (ew_edits w)" "ew_server (edit_settled n r needs w) = ew_server w"
  by (simp_all add: edit_settled_def invalidate_board_def Let_def split: option.split)

lemma succeeded_simps [simp]:
  "ew_cache (snd (edit_succeeded r saved needs w)) = ew_cache w" "ew_server (snd (edit_succeeded r saved needs w)) = ew_server w"
  "ew_edits (snd (edit_succeeded r saved needs w)) = ew_edits w"
  by (simp_all add: edit_succeeded_def split: option.split edit_request.split)

lemma failed_simps [simp]:
  "ew_server (edit_failed phase w) = ew_server w" "ew_edits (edit_failed phase w) = ew_edits w" "ew_details (edit_failed phase w) = ew_details w"
  by (simp_all add: edit_failed_def split: edit_phase.split option.split)

definition snapshot_ok :: "edit_phase \<Rightarrow> bool" where
  "snapshot_ok phase = (case phase of Applied (Some snapshot) \<Rightarrow> board_ok snapshot | _ \<Rightarrow> True)"

lemma snapshot_ok_Begun [simp]: "snapshot_ok Begun"
  by (simp add: snapshot_ok_def)

definition boards_ok :: "edits_world \<Rightarrow> bool" where
  "boards_ok w = ((\<forall>b. ew_cache w = Some b \<longrightarrow> board_ok b) \<and> board_ok (ew_server w) \<and> (\<forall>b. ew_fetch w = ReadDone b \<longrightarrow> board_ok b) \<and>
     (\<forall>n e. jm_get (ew_edits w) n = Some e \<longrightarrow> snapshot_ok (ce_phase e)))"

definition board_synced :: "edits_world \<Rightarrow> bool" where
  "board_synced w = (ew_edits w = [] \<longrightarrow> (ew_invalidated w \<or> ew_cache w = Some (ew_server w)) \<and> (\<forall>b. ew_fetch w = ReadDone b \<longrightarrow> b = ew_server w))"

lemma begin_simps [simp]:
  "ew_cache (begin_edit n r w) = ew_cache w" "ew_server (begin_edit n r w) = ew_server w" "ew_fetch (begin_edit n r w) = NoFetch"
  "ew_edits (begin_edit n r w) = jm_set n \<lparr>ce_request = r, ce_phase = Begun,
     ce_needsDetailRefresh = (case detail_of r of Some i \<Rightarrow> read_lost (ew_details w i) | None \<Rightarrow> False), ce_committed = False\<rparr> (ew_edits w)"
  by (simp_all add: begin_edit_def Let_def split: option.split)

lemma apply_simps [simp]:
  "ew_server (apply_edit n e tempId now w) = ew_server w" "ew_fetch (apply_edit n e tempId now w) = ew_fetch w"
  "ew_details (apply_edit n e tempId now w) = ew_details w"
  "ew_cache (apply_edit n e tempId now w) = map_option (optimistic tempId now (ce_request e)) (ew_cache w)"
  "ew_edits (apply_edit n e tempId now w) = jm_set n (e\<lparr>ce_phase := Applied (ew_cache w)\<rparr>) (ew_edits w)"
  by (simp_all add: apply_edit_def Let_def split: option.split)

lemma failed_ok: "boards_ok w \<Longrightarrow> jm_get (ew_edits w) n = Some e \<Longrightarrow> ew_cache (edit_failed (ce_phase e) w) = Some b \<Longrightarrow> board_ok b"
  by (auto simp: boards_ok_def edit_failed_def snapshot_ok_def split: edit_phase.splits option.splits)

lemma boards_step: "boards_ok w \<Longrightarrow> edits_step ev w = Some w' \<Longrightarrow> boards_ok w'"
proof (cases ev)
  case (ApplyEdit n tempId now)
  assume "boards_ok w" "edits_step ev w = Some w'"
  then obtain e where e: "jm_get (ew_edits w) n = Some e" "can_apply (ce_request e) tempId (ew_cache w)" "w' = apply_edit n e tempId now w"
    using ApplyEdit by (auto split: option.splits)
  then show ?thesis using \<open>boards_ok w\<close> optimistic_ok
    by (auto simp: boards_ok_def snapshot_ok_def split: option.split)
next
  case (EditFails n)
  assume w: "boards_ok w" "edits_step ev w = Some w'"
  then obtain e where e: "jm_get (ew_edits w) n = Some e"
    "w' = edit_settled n (ce_request e) (ce_needsDetailRefresh e) (edit_failed (ce_phase e) w)"
    using EditFails by (auto split: option.splits)
  then show ?thesis using failed_ok [OF w(1) e(1)] w(1) by (auto simp: boards_ok_def split: if_splits)
next
  case (EditSucceeds n saved)
  assume w: "boards_ok w" "edits_step ev w = Some w'"
  then obtain e needs w1 where e: "jm_get (ew_edits w) n = Some e" "edit_succeeded (ce_request e) saved (ce_needsDetailRefresh e) w = (needs, w1)"
    "w' = edit_settled n (ce_request e) needs w1"
    using EditSucceeds by (auto split: option.splits prod.splits)
  then have "ew_cache w1 = ew_cache w" "ew_server w1 = ew_server w" "ew_edits w1 = ew_edits w" using succeeded_simps [of "ce_request e" saved "ce_needsDetailRefresh e" w] by auto
  then show ?thesis using w(1) e(3) by (auto simp: boards_ok_def split: if_splits)
qed (auto simp: boards_ok_def split: option.splits if_splits board_fetch.splits)

lemma synced_step: "board_synced w \<Longrightarrow> edits_step ev w = Some w' \<Longrightarrow> board_synced w'"
proof (cases ev)
  case (EditSucceeds n saved)
  assume "edits_step ev w = Some w'"
  then show ?thesis using EditSucceeds by (auto simp: board_synced_def split: option.splits prod.splits)
next
  case (EditFails n)
  assume "edits_step ev w = Some w'"
  then show ?thesis using EditFails by (auto simp: board_synced_def split: option.splits)
qed (auto simp: board_synced_def split: option.splits board_fetch.splits)

interpretation boards: event_invariant edits_step "edits_start b" "\<lambda>w. board_ok b \<longrightarrow> boards_ok w" for b
proof unfold_locales
  show "board_ok b \<longrightarrow> boards_ok (edits_start b)" by (simp add: boards_ok_def edits_start_def)
qed (use boards_step in blast)

interpretation synced: event_invariant edits_step "edits_start b" board_synced for b
proof unfold_locales
  show "board_synced (edits_start b)" by (simp add: board_synced_def edits_start_def)
qed (rule synced_step)

section \<open>Reads that are owed\<close>

text \<open>An edit that has to have the detail of a card read again.\<close>

definition refreshes :: "string \<Rightarrow> card_edit \<Rightarrow> bool" where
  "refreshes i e = (ce_needsDetailRefresh e \<and> detail_of (ce_request e) = Some i)"

definition read_kept :: "string \<Rightarrow> edits_world \<Rightarrow> bool" where
  "read_kept i w = (cd_owed (ew_details w i) \<longrightarrow> read_lost (ew_details w i) \<or> (\<exists>n e. jm_get (ew_edits w) n = Some e \<and> refreshes i e))"

lemma refreshing_other:
  assumes "\<exists>m f. jm_get edits m = Some f \<and> refreshes i f" "jm_get edits n = Some e"
  shows "refreshes i e \<or> (\<exists>m f. m \<noteq> n \<and> jm_get edits m = Some f \<and> refreshes i f)"
  using assms by (metis option.inject)

lemma read_kept_edit:
  assumes "read_kept i w" "jm_get (ew_edits w) n = Some e" "refreshes i e' = refreshes i e"
    and "ew_details w' = ew_details w" "ew_edits w' = jm_set n e' (ew_edits w)"
  shows "read_kept i w'"
proof (cases "\<exists>m f. jm_get (ew_edits w) m = Some f \<and> refreshes i f")
  case True
  then have "\<exists>m f. jm_get (ew_edits w') m = Some f \<and> refreshes i f"
    using assms(2,3,5) by (metis jm_set_get_apply option.inject)
  then show ?thesis by (simp add: read_kept_def)
next
  case False
  then show ?thesis using assms(1,4) by (auto simp: read_kept_def)
qed

lemma read_kept_begin:
  assumes "read_kept i w" "\<not> jm_has (ew_edits w) n"
  shows "read_kept i (begin_edit n r w)"
proof -
  let ?w = "begin_edit n r w"
  have "jm_get (ew_edits w) m = Some f \<Longrightarrow> jm_get (ew_edits ?w) m = Some f" for m f
    using assms(2) by (auto simp: jm_has_def)
  then have old: "\<exists>m f. jm_get (ew_edits w) m = Some f \<and> refreshes i f \<Longrightarrow> \<exists>m f. jm_get (ew_edits ?w) m = Some f \<and> refreshes i f" by blast
  show ?thesis
  proof (cases "detail_of r = Some i")
    case r: True
    have d: "ew_details ?w i = cancel_read (ew_details w i)" by (simp add: begin_edit_def r Let_def)
    show ?thesis
    proof (cases "read_lost (ew_details w i)")
      case True
      then have "refreshes i \<lparr>ce_request = r, ce_phase = Begun, ce_needsDetailRefresh = True, ce_committed = False\<rparr>" by (simp add: refreshes_def r)
      then show ?thesis using True r by (auto simp: read_kept_def)
    next
      case False
      then show ?thesis using assms(1) old unfolding read_kept_def d by (simp add: cancel_read_def read_lost_def del: begin_simps)
    qed
  next
    case False
    then have "ew_details ?w i = ew_details w i" by (auto simp: begin_edit_def Let_def split: option.split)
    then show ?thesis using assms(1) old unfolding read_kept_def by metis
  qed
qed

text \<open>Settling an edit leaves the others, and invalidates the detail when the edit had to.\<close>

lemma settled_details: "ew_details (edit_settled n r needs w) i =
    (if needs \<and> detail_of r = Some i then (ew_details w i)\<lparr>cd_invalidated := True\<rparr> else ew_details w i)"
  by (auto simp: edit_settled_def invalidate_board_def Let_def split: option.split)

lemma read_kept_settled:
  assumes "cd_owed (ew_details w1 i) \<longrightarrow> read_lost (ew_details w1 i) \<or> needs \<and> detail_of r = Some i
     \<or> (\<exists>m f. m \<noteq> n \<and> jm_get (ew_edits w1) m = Some f \<and> refreshes i f)"
  shows "read_kept i (edit_settled n r needs w1)"
  using assms by (auto simp: read_kept_def settled_details read_lost_def)

lemma read_kept_fail:
  assumes "read_kept i w" "jm_get (ew_edits w) n = Some e"
  shows "read_kept i (edit_settled n (ce_request e) (ce_needsDetailRefresh e) (edit_failed (ce_phase e) w))"
proof (rule read_kept_settled)
  show "cd_owed (ew_details (edit_failed (ce_phase e) w) i) \<longrightarrow> read_lost (ew_details (edit_failed (ce_phase e) w) i) \<or>
      ce_needsDetailRefresh e \<and> detail_of (ce_request e) = Some i \<or>
      (\<exists>m f. m \<noteq> n \<and> jm_get (ew_edits (edit_failed (ce_phase e) w)) m = Some f \<and> refreshes i f)"
    using assms(1) refreshing_other [OF _ assms(2), of i] unfolding read_kept_def failed_simps refreshes_def [of i e] by blast
qed

lemma read_kept_succeed:
  assumes "read_kept i w" "jm_get (ew_edits w) n = Some e" "edit_succeeded (ce_request e) saved (ce_needsDetailRefresh e) w = (needs, w1)"
  shows "read_kept i (edit_settled n (ce_request e) needs w1)"
proof (rule read_kept_settled)
  have edits: "ew_edits w1 = ew_edits w" using succeeded_simps(3) [of "ce_request e" saved "ce_needsDetailRefresh e" w] assms(3) by simp
  show "cd_owed (ew_details w1 i) \<longrightarrow> read_lost (ew_details w1 i) \<or> needs \<and> detail_of (ce_request e) = Some i
     \<or> (\<exists>m f. m \<noteq> n \<and> jm_get (ew_edits w1) m = Some f \<and> refreshes i f)"
  proof (cases "detail_of (ce_request e) = Some i")
    case r: True
    then have needs: "needs \<longleftrightarrow> ce_needsDetailRefresh e \<or> read_lost (ew_details w i)"
      and owed: "cd_owed (ew_details w1 i) \<Longrightarrow> cd_owed (ew_details w i) \<or> cd_fetching (ew_details w i)"
      using assms(3) by (auto simp: edit_succeeded_def acknowledge_def Let_def cancel_read_def split: option.splits)
    have "refreshes i e \<Longrightarrow> ce_needsDetailRefresh e" by (simp add: refreshes_def)
    with needs owed show ?thesis
      using assms(1) refreshing_other [OF _ assms(2), of i] unfolding edits read_kept_def r by (auto simp: read_lost_def)
  next
    case False
    show ?thesis
    proof (cases "ce_request e = DeleteCard i")
      case True
      then show ?thesis using assms(3) by (auto simp: edit_succeeded_def detail_of_def no_detail_def)
    next
      case other: False
      then have "ew_details w1 i = ew_details w i" using assms(3) False
        by (auto simp: edit_succeeded_def split: option.splits edit_request.splits)
      moreover have "\<not> refreshes i e" using False by (simp add: refreshes_def)
      ultimately show ?thesis using assms(1) refreshing_other [OF _ assms(2), of i] unfolding edits read_kept_def by metis
    qed
  qed
qed

lemma read_kept_step: "read_kept i w \<Longrightarrow> edits_step ev w = Some w' \<Longrightarrow> read_kept i w'"
proof (cases ev)
  case (BeginEdit n r)
  assume "read_kept i w" "edits_step ev w = Some w'"
  then show ?thesis using BeginEdit read_kept_begin by auto
next
  case (ApplyEdit n tempId now)
  assume w: "read_kept i w" "edits_step ev w = Some w'"
  then obtain e where e: "jm_get (ew_edits w) n = Some e" "w' = apply_edit n e tempId now w"
    using ApplyEdit by (auto split: option.splits)
  show ?thesis unfolding e(2)
    by (rule read_kept_edit [OF w(1) e(1), of "e\<lparr>ce_phase := Applied (ew_cache w)\<rparr>"]) (simp_all add: refreshes_def)
next
  case (ServerCommits n b)
  assume w: "read_kept i w" "edits_step ev w = Some w'"
  then obtain e where e: "jm_get (ew_edits w) n = Some e"
    "w' = w\<lparr>ew_server := b, ew_edits := jm_set n (e\<lparr>ce_committed := True\<rparr>) (ew_edits w)\<rparr>"
    using ServerCommits by (auto split: option.splits)
  show ?thesis unfolding e(2)
    by (rule read_kept_edit [OF w(1) e(1), of "e\<lparr>ce_committed := True\<rparr>"]) (simp_all add: refreshes_def)
next
  case (EditSucceeds n saved)
  assume w: "read_kept i w" "edits_step ev w = Some w'"
  then obtain e needs w1 where e: "jm_get (ew_edits w) n = Some e" "edit_succeeded (ce_request e) saved (ce_needsDetailRefresh e) w = (needs, w1)"
    "w' = edit_settled n (ce_request e) needs w1"
    using EditSucceeds by (auto split: option.splits prod.splits)
  show ?thesis unfolding e(3) by (rule read_kept_succeed [OF w(1) e(1,2)])
next
  case (EditFails n)
  assume w: "read_kept i w" "edits_step ev w = Some w'"
  then obtain e where e: "jm_get (ew_edits w) n = Some e"
    "w' = edit_settled n (ce_request e) (ce_needsDetailRefresh e) (edit_failed (ce_phase e) w)"
    using EditFails by (auto split: option.splits)
  show ?thesis unfolding e(2) by (rule read_kept_fail [OF w(1) e(1)])
qed (auto simp: read_kept_def read_lost_def split: option.splits board_fetch.splits)

interpretation owed: event_invariant edits_step "edits_start b" "read_kept i" for b i
proof unfold_locales
  show "read_kept i (edits_start b)" by (simp add: read_kept_def edits_start_def no_detail_def)
qed (rule read_kept_step)

section \<open>What the edits leave\<close>

lemma next_board_read:
  assumes "\<forall>b. ew_fetch w = ReadDone b \<longrightarrow> b = ew_server w"
  shows "\<exists>reads w'. set reads \<subseteq> {StartBoardRead, ServerAnswersBoard, BoardFetched} \<and> run_events edits_step reads w = Some w' \<and>
     ew_cache w' = Some (ew_server w) \<and> \<not> ew_invalidated w' \<and> ew_edits w' = ew_edits w"
proof (cases "ew_fetch w")
  case NoFetch
  then show ?thesis by (intro exI [of _ "[StartBoardRead, ServerAnswersBoard, BoardFetched]"]) simp
next
  case Reading
  then show ?thesis by (intro exI [of _ "[ServerAnswersBoard, BoardFetched]"]) simp
next
  case (ReadDone b)
  then show ?thesis using assms by (intro exI [of _ "[BoardFetched]"]) simp
qed

text \<open>
  C2. Whatever the order in which cards are created, edited, moved and deleted, in which the server commits, answers or fails,
  and in which reads are started, answered, fail or are cancelled: the cached board stays well-formed; when no mutation
  is under way it is the server's board or marked to be read again; and the next read of the board that is answered
  makes it the server's. No optimistic change and no rollback outlives that.
\<close>

theorem card_edits_converge:
  assumes "board_ok b" and "run_events edits_step events (edits_start b) = Some w"
  shows "(\<forall>c. ew_cache w = Some c \<longrightarrow> board_ok c)
    \<and> (ew_edits w = [] \<longrightarrow> ew_invalidated w \<or> ew_cache w = Some (ew_server w))
    \<and> (ew_edits w = [] \<longrightarrow> (\<exists>reads w'. set reads \<subseteq> {StartBoardRead, ServerAnswersBoard, BoardFetched} \<and>
        run_events edits_step reads w = Some w' \<and> ew_cache w' = Some (ew_server w) \<and> \<not> ew_invalidated w' \<and> ew_edits w' = []))"
proof -
  have "boards_ok w" using boards.run_inv [OF assms(2)] assms(1) by blast
  moreover have "board_synced w" by (rule synced.run_inv [OF assms(2)])
  ultimately show ?thesis using next_board_read [of w] unfolding boards_ok_def board_synced_def by metis
qed

definition edit_title :: "string \<Rightarrow> edit_request" where
  "edit_title s = UpdateCard ''a'' \<lparr>cu_title = Some s, cu_description = None, cu_type = None, cu_priority = None, cu_due_date = None, cu_status = None, cu_labels = None\<rparr>"

definition two_rejected :: "edit_event list" where
  "two_rejected = [BeginEdit 0 (edit_title ''first''), ApplyEdit 0 '''' '''', BeginEdit 1 (edit_title ''second''), ApplyEdit 1 '''' '''', EditFails 0, EditFails 1]"

definition title_shown :: "edits_world option \<Rightarrow> string option" where
  "title_shown w = Option.bind w (\<lambda>w. Option.bind (ew_cache w) (\<lambda>b. map_option c_title (card_at b ''a'')))"

lemma rejected_edit_shown:
  "title_shown (run_events edits_step two_rejected (edits_start sample_kanban)) = Some ''first''"
  by code_simp

lemma shown_ran: "title_shown w = Some s \<Longrightarrow> \<exists>v. w = Some v"
  by (cases w) (simp_all add: title_shown_def)

theorem card_edits_converge_witness:
  "\<exists>w. run_events edits_step two_rejected (edits_start sample_kanban) = Some w \<and> (\<forall>c. ew_cache w = Some c \<longrightarrow> board_ok c)"
  using shown_ran [OF rejected_edit_shown] card_edits_converge [OF sample_kanban_ok, of two_rejected] by blast

text \<open>
  A mutation that fails alone leaves the cache as it was. Two that overlap do not: the second one's snapshot holds the
  first one's change, so that after both were rejected the board shows a title that the server never had, until the
  read that both of them ask for (\<open>rejected_edit_shown\<close>).
\<close>

lemma failed_edit_restores:
  assumes "ew_cache w = Some b" "\<not> jm_has (ew_edits w) n" "can_apply r tempId (Some b)"
  shows "map_option ew_cache (run_events edits_step [BeginEdit n r, ApplyEdit n tempId now, EditFails n] w) = Some (Some b)"
  using assms by (simp add: edit_failed_def split: option.split)


definition cancelled_read :: "edit_event list" where
  "cancelled_read = [StartDetailRead ''a'', BeginEdit 0 (edit_title ''first''), ApplyEdit 0 '''' '''', EditFails 0]"

lemma cancelled_read_owed:
  "\<exists>w. run_events edits_step cancelled_read (edits_start sample_kanban) = Some w \<and> ew_edits w = [] \<and> cd_owed (ew_details w ''a'')"
proof -
  have "map_option (\<lambda>w. ew_edits w = [] \<and> cd_owed (ew_details w ''a'')) (run_events edits_step cancelled_read (edits_start sample_kanban)) = Some True"
    by code_simp
  then show ?thesis by auto
qed


end
