(* ===== verification/Dependency_Tree.thy ===== *)
theory Dependency_Tree
  imports Board_Cache
begin

text \<open>
  The dependency forest of a column (\<open>dependency-tree.ts\<close>): blockers first, dependents nested.
  The shared sets \<open>expanded\<close> and \<open>path\<close> are passed along; \<open>path\<close> is back to what it was when a
  node is done, since a card on the path is already expanded. The recursion is given fuel: it
  descends only into cards not expanded before, so one more than the number of cards of the
  column is enough.
\<close>

record dep_env =
  de_cards :: "card_row list"
  de_edges :: "dependency_edge list"
  de_titles :: "(string, string option) jsmap"

datatype tree_node = Node (nd_card: card_row) (nd_depth: nat) (nd_children: "tree_node list")
  (nd_cross: "(string \<times> string option) list") (nd_repeat: bool) (nd_others: "string list")

definition inColumn :: "dep_env \<Rightarrow> string \<Rightarrow> bool" where
  "inColumn env i = (i \<in> set (map c_id (de_cards env)))"

definition byId :: "dep_env \<Rightarrow> string \<Rightarrow> card_row option" where
  "byId env i = jm_get (jm_from c_id (\<lambda>c. c) (de_cards env) []) i"

definition dependentsOf :: "dep_env \<Rightarrow> string \<Rightarrow> string list" where
  "dependentsOf env i = (case jm_get (fold (\<lambda>e. jm_push (e_depends_on e) (e_card_id e)) (de_edges env) []) i of Some ds \<Rightarrow> ds | None \<Rightarrow> [])"

definition blockersOf :: "dep_env \<Rightarrow> string \<Rightarrow> string list" where
  "blockersOf env i = (case jm_get (fold (\<lambda>e. jm_push (e_card_id e) (e_depends_on e)) (de_edges env) []) i of Some bs \<Rightarrow> bs | None \<Rightarrow> [])"

definition title_of :: "dep_env \<Rightarrow> string \<Rightarrow> string option" where
  "title_of env i = Option.bind (jm_get (de_titles env) i) (\<lambda>t. t)"

definition inColumnBlockerTitles :: "dep_env \<Rightarrow> string \<Rightarrow> string \<Rightarrow> string list" where
  "inColumnBlockerTitles env cardId except =
     List.map_filter (\<lambda>b. case title_of env b of Some t \<Rightarrow> Some t | None \<Rightarrow> map_option c_title (byId env b))
       (filter (\<lambda>b. b \<noteq> except \<and> inColumn env b) (blockersOf env cardId))"

definition dep_roots :: "dep_env \<Rightarrow> card_row list" where
  "dep_roots env = filter (\<lambda>c. \<not> list_ex (inColumn env) (blockersOf env (c_id c))) (de_cards env)"

function (sequential) build :: "dep_env \<Rightarrow> nat \<Rightarrow> card_row \<Rightarrow> nat \<Rightarrow> string option \<Rightarrow> string list \<Rightarrow> string list \<Rightarrow> (tree_node \<times> string list) option"
  and build_deps :: "dep_env \<Rightarrow> nat \<Rightarrow> card_row \<Rightarrow> nat \<Rightarrow> string list \<Rightarrow> string list \<Rightarrow> string list \<Rightarrow>
    (tree_node list \<times> (string \<times> string option) list \<times> string list) option" where
  "build env 0 c depth parentId path expanded = None"
| "build env (Suc fuel) c depth parentId path expanded =
     (let otherBlockerTitles = (case parentId of Some p \<Rightarrow> inColumnBlockerTitles env (c_id c) p | None \<Rightarrow> []) in
      if c_id c \<in> set expanded then Some (Node c depth [] [] True otherBlockerTitles, expanded)
      else (case build_deps env fuel c depth (c_id c # path) (dependentsOf env (c_id c)) (expanded @ [c_id c]) of
              None \<Rightarrow> None
            | Some (children, cross, expanded') \<Rightarrow> Some (Node c depth children cross False otherBlockerTitles, expanded')))"
| "build_deps env fuel c depth path [] expanded = Some ([], [], expanded)"
| "build_deps env fuel c depth path (depId # deps) expanded =
     (if inColumn env depId then
        (if depId \<in> set path then build_deps env fuel c depth path deps expanded
         else (case byId env depId of
                 None \<Rightarrow> build_deps env fuel c depth path deps expanded
               | Some child \<Rightarrow>
                   (case build env fuel child (depth + 1) (Some (c_id c)) path expanded of
                      None \<Rightarrow> None
                    | Some (node, expanded') \<Rightarrow>
                        (case build_deps env fuel c depth path deps expanded' of
                           None \<Rightarrow> None
                         | Some (children, cross, expanded'') \<Rightarrow> Some (node # children, cross, expanded'')))))
      else (case build_deps env fuel c depth path deps expanded of
              None \<Rightarrow> None
            | Some (children, cross, expanded') \<Rightarrow> Some (children, (depId, title_of env depId) # cross, expanded')))"
  by pat_completeness auto
termination
  by (relation "measures [\<lambda>x. case x of Inl (_, fuel, _) \<Rightarrow> 2 * fuel | Inr (_, fuel, _) \<Rightarrow> 2 * fuel + 1,
        \<lambda>x. case x of Inl _ \<Rightarrow> 0 | Inr (_, _, _, _, _, deps, _) \<Rightarrow> length deps]") auto

fun build_list :: "dep_env \<Rightarrow> nat \<Rightarrow> card_row list \<Rightarrow> string list \<Rightarrow> (tree_node list \<times> string list) option" where
  "build_list env fuel [] expanded = Some ([], expanded)"
| "build_list env fuel (c # cs) expanded =
     (case build env fuel c 0 None [] expanded of
        None \<Rightarrow> None
      | Some (node, expanded') \<Rightarrow>
          (case build_list env fuel cs expanded' of None \<Rightarrow> None | Some (nodes, expanded'') \<Rightarrow> Some (node # nodes, expanded'')))"

text \<open>Cards not reached from a root become roots of their own.\<close>

fun build_rest :: "dep_env \<Rightarrow> nat \<Rightarrow> card_row list \<Rightarrow> string list \<Rightarrow> (tree_node list \<times> string list) option" where
  "build_rest env fuel [] expanded = Some ([], expanded)"
| "build_rest env fuel (c # cs) expanded =
     (if c_id c \<in> set expanded then build_rest env fuel cs expanded
      else (case build env fuel c 0 None [] expanded of
        None \<Rightarrow> None
      | Some (node, expanded') \<Rightarrow>
          (case build_rest env fuel cs expanded' of None \<Rightarrow> None | Some (nodes, expanded'') \<Rightarrow> Some (node # nodes, expanded''))))"

definition buildColumnDependencyForest :: "dep_env \<Rightarrow> tree_node list option" where
  "buildColumnDependencyForest env =
     (let fuel = length (de_cards env) + 1 in
      case build_list env fuel (dep_roots env) [] of
        None \<Rightarrow> None
      | Some (forest, expanded) \<Rightarrow>
          (case build_rest env fuel (de_cards env) expanded of None \<Rightarrow> None | Some (rest, _) \<Rightarrow> Some (forest @ rest)))"

fun walk :: "tree_node \<Rightarrow> tree_node list" where
  "walk (Node c d children cross r os) = Node c d children cross r os # concat (map walk children)"

definition flattenForest :: "tree_node list \<Rightarrow> tree_node list" where
  "flattenForest forest = concat (map walk forest)"


section \<open>Every card is laid out once\<close>

definition fresh_ids :: "tree_node list \<Rightarrow> string list" where
  "fresh_ids nodes = map (c_id \<circ> nd_card) (filter (\<lambda>n. \<not> nd_repeat n) (flattenForest nodes))"

lemma fresh_ids_Cons: "fresh_ids (n # ns) = fresh_ids [n] @ fresh_ids ns"
  by (simp add: fresh_ids_def flattenForest_def)

lemma fresh_ids_simps [simp]:
  "fresh_ids [] = []" "fresh_ids (ms @ ns) = fresh_ids ms @ fresh_ids ns"
  "fresh_ids [Node c d children cross r os] = (if r then [] else [c_id c]) @ fresh_ids children"
  by (auto simp: fresh_ids_def flattenForest_def)

definition left_over :: "dep_env \<Rightarrow> string list \<Rightarrow> nat" where
  "left_over env expanded = card (set (map c_id (de_cards env)) - set expanded)"

lemma left_over_mono: "set ex \<subseteq> set ex' \<Longrightarrow> left_over env ex' \<le> left_over env ex"
  unfolding left_over_def by (intro card_mono) auto

lemma left_over_step: "inColumn env i \<Longrightarrow> i \<notin> set ex \<Longrightarrow> left_over env (ex @ [i]) < left_over env ex"
  unfolding left_over_def inColumn_def by (intro psubset_card_mono) auto

lemma byId_Some: "byId env i = Some c \<Longrightarrow> c_id c = i \<and> c \<in> set (de_cards env)"
  by (auto simp: byId_def jm_from_get split: option.splits dest: find_SomeD)

text \<open>
  With enough fuel a node is built, and the expanded set grows by exactly the cards laid out
  below it, in the order of the flattened tree.
\<close>

definition grows :: "dep_env \<Rightarrow> tree_node list \<Rightarrow> string list \<Rightarrow> string list \<Rightarrow> bool" where
  "grows env nodes ex ex' = (ex' = ex @ fresh_ids nodes \<and> distinct ex' \<and> list_all (inColumn env) (fresh_ids nodes))"

lemma grows_Cons: "grows env [n] ex ex' \<Longrightarrow> grows env ns ex' ex'' \<Longrightarrow> grows env (n # ns) ex ex''"
  by (auto simp: grows_def fresh_ids_Cons [of n ns])

lemma grows_subset: "grows env ns ex ex' \<Longrightarrow> set ex \<subseteq> set ex' \<and> distinct ex'"
  by (auto simp: grows_def)

lemma build_total:
  "left_over env ex < fuel \<Longrightarrow> inColumn env (c_id c) \<Longrightarrow> distinct ex \<Longrightarrow>
     \<exists>node ex'. build env fuel c depth parent path ex = Some (node, ex') \<and> grows env [node] ex ex' \<and> c_id c \<in> set ex' \<and> nd_card node = c"
  "left_over env ex < fuel \<Longrightarrow> distinct ex \<Longrightarrow>
     \<exists>nodes cross ex'. build_deps env fuel c depth path deps ex = Some (nodes, cross, ex') \<and> grows env nodes ex ex'"
proof (induction env fuel c depth parent path ex and env fuel c depth path deps ex rule: build_build_deps.induct)
  case (1 env c depth parentId path expanded)
  then show ?case by simp
next
  case (2 env fuel c depth parentId path expanded)
  show ?case
  proof (cases "c_id c \<in> set expanded")
    case True
    then show ?thesis using "2.prems" by (simp add: grows_def)
  next
    case False
    let ?ex = "expanded @ [c_id c]"
    have "left_over env ?ex < fuel" using left_over_step [OF "2.prems"(2) False] "2.prems"(1) by simp
    moreover have "distinct ?ex" using "2.prems"(3) False by simp
    ultimately obtain nodes cross ex' where deps: "build_deps env fuel c depth (c_id c # path) (dependentsOf env (c_id c)) ?ex = Some (nodes, cross, ex')"
      and g: "grows env nodes ?ex ex'" using "2.IH" [OF refl False] by blast
    then show ?thesis using False "2.prems"(2) by (auto simp: grows_def)
  qed
next
  case (3 env fuel c depth path expanded)
  then show ?case by (simp add: grows_def)
next
  case (4 env fuel c depth path depId deps expanded)
  show ?case
  proof (cases "inColumn env depId \<and> depId \<notin> set path \<and> byId env depId \<noteq> None")
    case True
    then obtain child where child: "byId env depId = Some child" by blast
    then have id: "c_id child = depId" by (simp add: byId_Some)
    obtain node ex' where b: "build env fuel child (depth + 1) (Some (c_id c)) path expanded = Some (node, ex')"
      and g: "grows env [node] expanded ex'"
      using "4.IH"(3) [of child] True child id "4.prems" by auto
    have "set expanded \<subseteq> set ex'" "distinct ex'" using g by (auto simp: grows_def)
    then have "left_over env ex' < fuel" using left_over_mono [of expanded ex' env] "4.prems"(1) by simp
    then obtain nodes cross ex'' where bs: "build_deps env fuel c depth path deps ex' = Some (nodes, cross, ex'')"
      and gs: "grows env nodes ex' ex''"
      using "4.IH"(4) [of child "(node, ex')" node ex'] True child b \<open>distinct ex'\<close> by auto
    have "grows env (node # nodes) expanded ex''" using g gs by (rule grows_Cons)
    then show ?thesis using True child b bs by simp
  next
    case False
    then have "\<exists>nodes cross ex'. build_deps env fuel c depth path deps expanded = Some (nodes, cross, ex') \<and> grows env nodes expanded ex'"
      using "4.IH"(1) "4.IH"(2) "4.IH"(5) "4.prems" by blast
    then show ?thesis using False by (auto split: option.splits)
  qed
qed


lemma build_list_total:
  "left_over env ex < fuel \<Longrightarrow> distinct ex \<Longrightarrow> list_all (inColumn env \<circ> c_id) cs \<Longrightarrow>
     \<exists>nodes ex'. build_list env fuel cs ex = Some (nodes, ex') \<and> grows env nodes ex ex'"
proof (induction cs arbitrary: ex)
  case (Cons c cs)
  obtain node ex1 where b: "build env fuel c 0 None [] ex = Some (node, ex1)" and g: "grows env [node] ex ex1"
    using build_total(1) [OF Cons.prems(1) _ Cons.prems(2), of c 0 None "[]"] Cons.prems(3) by auto
  have "left_over env ex1 < fuel" using left_over_mono grows_subset [OF g] Cons.prems(1) le_less_trans by blast
  then obtain nodes ex2 where "build_list env fuel cs ex1 = Some (nodes, ex2)" and "grows env nodes ex1 ex2"
    using Cons.IH [of ex1] grows_subset [OF g] Cons.prems(3) by auto
  then show ?case using b grows_Cons [OF g] by simp
qed (simp add: grows_def)

lemma build_rest_total:
  "left_over env ex < fuel \<Longrightarrow> distinct ex \<Longrightarrow> list_all (inColumn env \<circ> c_id) cs \<Longrightarrow>
     \<exists>nodes ex'. build_rest env fuel cs ex = Some (nodes, ex') \<and> grows env nodes ex ex' \<and> c_id ` set cs \<subseteq> set ex'"
proof (induction cs arbitrary: ex)
  case (Cons c cs)
  show ?case
  proof (cases "c_id c \<in> set ex")
    case True
    obtain nodes ex' where "build_rest env fuel cs ex = Some (nodes, ex')" "grows env nodes ex ex'" "c_id ` set cs \<subseteq> set ex'"
      using Cons.IH [OF Cons.prems(1,2)] Cons.prems(3) by auto
    then show ?thesis using True grows_subset [of env nodes ex ex'] by auto
  next
    case False
    obtain node ex1 where b: "build env fuel c 0 None [] ex = Some (node, ex1)" and g: "grows env [node] ex ex1" and c: "c_id c \<in> set ex1"
      using build_total(1) [OF Cons.prems(1) _ Cons.prems(2), of c 0 None "[]"] Cons.prems(3) by auto
    have "left_over env ex1 < fuel" using left_over_mono grows_subset [OF g] Cons.prems(1) le_less_trans by blast
    then obtain nodes ex2 where r: "build_rest env fuel cs ex1 = Some (nodes, ex2)" "grows env nodes ex1 ex2" "c_id ` set cs \<subseteq> set ex2"
      using Cons.IH [of ex1] grows_subset [OF g] Cons.prems(3) by auto
    then show ?thesis using b False c grows_Cons [OF g] grows_subset [OF r(2)] by auto
  qed
qed (simp add: grows_def)

text \<open>
  C9. The forest is built for every edge list, cyclic ones included, and lays every card of the
  column out exactly once: the cards of the nodes that are not repeats are the cards of the
  column, each once.
\<close>

theorem forest_covers_column:
  "\<exists>forest. buildColumnDependencyForest env = Some forest \<and> distinct (fresh_ids forest) \<and>
     set (fresh_ids forest) = c_id ` set (de_cards env)"
proof -
  let ?fuel = "length (de_cards env) + 1"
  have fuel: "left_over env ex < ?fuel" for ex
  proof -
    have "left_over env ex \<le> card (set (map c_id (de_cards env)))" unfolding left_over_def by (intro card_mono) auto
    also have "\<dots> \<le> length (de_cards env)" by (metis card_length length_map)
    finally show ?thesis by simp
  qed
  have all: "list_all (inColumn env \<circ> c_id) (de_cards env)" by (simp add: list_all_iff inColumn_def)
  then have "list_all (inColumn env \<circ> c_id) (dep_roots env)" by (auto simp: dep_roots_def list_all_iff)
  then obtain forest ex where f: "build_list env ?fuel (dep_roots env) [] = Some (forest, ex)" and g: "grows env forest [] ex"
    using build_list_total [OF fuel] by (meson distinct.simps(1))
  obtain rest ex' where r: "build_rest env ?fuel (de_cards env) ex = Some (rest, ex')" and g': "grows env rest ex ex'"
    and cover: "c_id ` set (de_cards env) \<subseteq> set ex'"
    using build_rest_total [OF fuel _ all] grows_subset [OF g] by blast
  have ex': "ex' = fresh_ids (forest @ rest)" using g g' by (simp add: grows_def)
  have "set ex' \<subseteq> c_id ` set (de_cards env)" using g g' by (auto simp: grows_def list_all_iff inColumn_def)
  moreover have "distinct ex'" using grows_subset [OF g'] by simp
  moreover have "buildColumnDependencyForest env = Some (forest @ rest)"
    using f r by (simp add: buildColumnDependencyForest_def Let_def)
  ultimately show ?thesis using cover ex' by blast
qed


section \<open>Every dependency is shown\<close>

text \<open>A node lists below it all its dependents of the column.\<close>

definition full_node :: "dep_env \<Rightarrow> tree_node \<Rightarrow> bool" where
  "full_node env n = (nd_repeat n \<or> map (c_id \<circ> nd_card) (nd_children n) = filter (inColumn env) (dependentsOf env (c_id (nd_card n))))"

definition full_trees :: "dep_env \<Rightarrow> tree_node list \<Rightarrow> bool" where
  "full_trees env ns = list_all (full_node env) (flattenForest ns)"

lemma full_trees_simps [simp]:
  "full_trees env []" "full_trees env (ms @ ns) = (full_trees env ms \<and> full_trees env ns)"
  "full_trees env [Node c d children cross r os] = (full_node env (Node c d children cross r os) \<and> full_trees env children)"
  by (auto simp: full_trees_def flattenForest_def)

lemma full_trees_Cons: "full_trees env (n # ns) = (full_trees env [n] \<and> full_trees env ns)"
  by (simp add: full_trees_def flattenForest_def)

lemma dependentsOf_edges: "dependentsOf env i = map e_card_id (filter (\<lambda>e. e_depends_on e = i) (de_edges env))"
  unfolding dependentsOf_def by (rule jm_push_fold_Nil)

lemma byId_inColumn: "inColumn env i \<Longrightarrow> \<exists>c. byId env i = Some c \<and> c_id c = i"
proof -
  assume "inColumn env i"
  then have "find (\<lambda>c. c_id c = i) (rev (de_cards env)) \<noteq> None" by (auto simp: inColumn_def find_None_iff)
  then show ?thesis by (auto simp: byId_def jm_from_get dest: find_SomeD)
qed

definition ranked :: "dep_env \<Rightarrow> (string \<Rightarrow> nat) \<Rightarrow> bool" where
  "ranked env r = (\<forall>e\<in>set (de_edges env). r (e_depends_on e) < r (e_card_id e))"

lemma build_card: "build env fuel c depth parent path ex = Some (node, ex') \<Longrightarrow> nd_card node = c"
  by (cases fuel) (auto simp: Let_def split: if_splits option.splits)

lemma build_full:
  "ranked env r \<Longrightarrow> \<forall>p\<in>set path. r p < r (c_id c) \<Longrightarrow> build env fuel c depth parent path ex = Some (node, ex') \<Longrightarrow> full_trees env [node]"
  "ranked env r \<Longrightarrow> \<forall>p\<in>set path. r p \<le> r (c_id c) \<Longrightarrow> \<forall>d\<in>set deps. r (c_id c) < r d \<Longrightarrow>
     build_deps env fuel c depth path deps ex = Some (nodes, cross, ex') \<Longrightarrow>
     full_trees env nodes \<and> map (c_id \<circ> nd_card) nodes = filter (inColumn env) deps"
proof (induction env fuel c depth parent path ex and env fuel c depth path deps ex arbitrary: node ex' and nodes cross ex' rule: build_build_deps.induct)
  case (2 env fuel c depth parentId path expanded)
  show ?case
  proof (cases "c_id c \<in> set expanded")
    case True
    then show ?thesis using "2.prems" by (auto simp: full_node_def)
  next
    case False
    then obtain children cross where b: "build_deps env fuel c depth (c_id c # path) (dependentsOf env (c_id c)) (expanded @ [c_id c]) = Some (children, cross, ex')"
      and node: "\<exists>os. node = Node c depth children cross False os"
      using "2.prems"(3) by (auto simp: Let_def split: option.splits)
    have "\<forall>d\<in>set (dependentsOf env (c_id c)). r (c_id c) < r d" using "2.prems"(1) by (auto simp: dependentsOf_edges ranked_def)
    moreover have "\<forall>p\<in>set (c_id c # path). r p \<le> r (c_id c)" using "2.prems"(2) by auto
    ultimately show ?thesis using "2.IH" [OF refl False "2.prems"(1) _ _ b] node by (auto simp: full_node_def comp_def)
  qed
next
  case (4 env fuel c depth path depId deps expanded)
  have prem: "\<forall>d\<in>set deps. r (c_id c) < r d" "r (c_id c) < r depId" using "4.prems"(3) by auto
  then have np: "depId \<notin> set path" using "4.prems"(2) by auto
  show ?case
  proof (cases "inColumn env depId")
    case True
    obtain child where child: "byId env depId = Some child" "c_id child = depId" using byId_inColumn [OF True] by blast
    obtain node ex1 ns where b: "build env fuel child (depth + 1) (Some (c_id c)) path expanded = Some (node, ex1)"
      and bs: "build_deps env fuel c depth path deps ex1 = Some (ns, cross, ex')" and nodes: "nodes = node # ns"
      using "4.prems"(4) True np child by (auto split: option.splits)
    have "\<forall>p\<in>set path. r p < r (c_id child)" using "4.prems"(2) prem(2) child(2) by auto
    then have "full_trees env [node]" using "4.IH"(3) [OF True np child(1) "4.prems"(1) _ b] by blast
    moreover have "full_trees env ns \<and> map (c_id \<circ> nd_card) ns = filter (inColumn env) deps"
      using "4.IH"(4) [OF True np child(1) b refl "4.prems"(1,2) prem(1) bs] .
    moreover have "nd_card node = child" using build_card [OF b] .
    ultimately show ?thesis using nodes True child(2) full_trees_Cons [of env node ns] by (simp add: comp_def)
  next
    case False
    then obtain cross' where bs: "build_deps env fuel c depth path deps expanded = Some (nodes, cross', ex')"
      using "4.prems"(4) by (auto split: option.splits)
    show ?thesis using "4.IH"(5) [OF False "4.prems"(1,2) prem(1) bs] False by simp
  qed
qed (simp_all)


lemma build_list_full: "ranked env r \<Longrightarrow> build_list env fuel cs ex = Some (nodes, ex') \<Longrightarrow> full_trees env nodes"
proof (induction cs arbitrary: ex nodes)
  case (Cons c cs)
  then obtain node ex1 ns where b: "build env fuel c 0 None [] ex = Some (node, ex1)"
    and bs: "build_list env fuel cs ex1 = Some (ns, ex')" and nodes: "nodes = node # ns" by (auto split: option.splits)
  then show ?case using build_full(1) [OF Cons.prems(1) _ b] Cons.IH [OF Cons.prems(1) bs] full_trees_Cons [of env node ns] by simp
qed simp

lemma build_rest_full: "ranked env r \<Longrightarrow> build_rest env fuel cs ex = Some (nodes, ex') \<Longrightarrow> full_trees env nodes"
proof (induction cs arbitrary: ex nodes)
  case (Cons c cs)
  show ?case
  proof (cases "c_id c \<in> set ex")
    case True
    then show ?thesis using Cons by simp
  next
    case False
    then obtain node ex1 ns where b: "build env fuel c 0 None [] ex = Some (node, ex1)"
      and bs: "build_rest env fuel cs ex1 = Some (ns, ex')" and nodes: "nodes = node # ns" using Cons.prems(2) by (auto split: option.splits)
    then show ?thesis using build_full(1) [OF Cons.prems(1) _ b] Cons.IH [OF Cons.prems(1) bs] full_trees_Cons [of env node ns] by simp
  qed
qed simp

text \<open>
  With acyclic dependencies no edge is dropped: below every laid out card the tree nests, in
  edge order, one node for each card of the column that depends on it.
\<close>

lemma forest_shows_edges:
  assumes "ranked env r" and "buildColumnDependencyForest env = Some forest"
    and "n \<in> set (flattenForest forest)" and "\<not> nd_repeat n"
  shows "map (c_id \<circ> nd_card) (nd_children n) =
    map e_card_id (filter (\<lambda>e. e_depends_on e = c_id (nd_card n) \<and> inColumn env (e_card_id e)) (de_edges env))"
proof -
  obtain f ex rest ex' where "build_list env (length (de_cards env) + 1) (dep_roots env) [] = Some (f, ex)"
    and "build_rest env (length (de_cards env) + 1) (de_cards env) ex = Some (rest, ex')" and "forest = f @ rest"
    using assms(2) by (auto simp: buildColumnDependencyForest_def Let_def split: option.splits)
  then have "full_trees env forest" using build_list_full [OF assms(1)] build_rest_full [OF assms(1)] by simp
  then have "full_node env n" using assms(3) by (simp add: full_trees_def list_all_iff)
  then have "map (c_id \<circ> nd_card) (nd_children n) = filter (inColumn env) (map e_card_id (filter (\<lambda>e. e_depends_on e = c_id (nd_card n)) (de_edges env)))"
    using assms(4) by (simp add: full_node_def dependentsOf_edges)
  then show ?thesis by (simp add: filter_map comp_def conj_commute)
qed

definition sample_env :: dep_env where
  "sample_env = \<lparr>de_cards = [sample_row ''a'' ''t'' 1, sample_row ''b'' ''t'' 2, sample_row ''c'' ''t'' 3],
     de_edges = [\<lparr>e_card_id = ''b'', e_depends_on = ''a''\<rparr>, \<lparr>e_card_id = ''c'', e_depends_on = ''a''\<rparr>, \<lparr>e_card_id = ''c'', e_depends_on = ''b''\<rparr>],
     de_titles = []\<rparr>"

end
