(* ===== verification/JS_Text.thy ===== *)
theory JS_Text
  imports JS_Prelude
begin

text \<open>
  The text functions of the language that the modelled modules use: white space, lower case,
  searching, splitting and joining, and the encoding of a URL component.
\<close>


section \<open>Characters\<close>

text \<open>White space and lower case of the language, on the characters up to 255.\<close>

definition js_space :: "char \<Rightarrow> bool" where
  "js_space c = (of_char c \<in> set [9, 10, 11, 12, 13, 32, 160 :: nat])"

definition js_trim :: "string \<Rightarrow> string" where
  "js_trim s = rev (dropWhile js_space (rev (dropWhile js_space s)))"

definition js_lower_char :: "char \<Rightarrow> char" where
  "js_lower_char c = (let n = of_char c :: nat in
     if 65 \<le> n \<and> n \<le> 90 \<or> 192 \<le> n \<and> n \<le> 222 \<and> n \<noteq> 215 then char_of (n + 32) else c)"

definition js_toLowerCase :: "string \<Rightarrow> string" where
  "js_toLowerCase s = map js_lower_char s"

lemma js_trim_empty: "js_trim s = [] \<longleftrightarrow> (\<forall>c\<in>set s. js_space c)"
proof (cases "dropWhile js_space s")
  case Nil
  then have "\<forall>c\<in>set s. js_space c" by (simp add: dropWhile_eq_Nil_conv)
  then show ?thesis unfolding js_trim_def Nil by simp
next
  case (Cons x xs)
  then have "\<not> js_space x" by (simp add: dropWhile_eq_Cons_conv)
  then have "dropWhile js_space (rev (x # xs)) \<noteq> []" by (simp only: dropWhile_eq_Nil_conv) simp
  moreover have "x \<in> set s" using Cons set_dropWhileD [of x js_space s] by simp
  ultimately show ?thesis using Cons \<open>\<not> js_space x\<close> by (auto simp: js_trim_def)
qed


section \<open>Searching and splitting\<close>

text \<open>\<open>str.indexOf(needle)\<close> and \<open>str.split(needle)\<close> for a non-empty needle, left to right and without overlaps.\<close>

fun js_indexOf :: "string \<Rightarrow> string \<Rightarrow> nat option" where
  "js_indexOf needle [] = (if needle = [] then Some 0 else None)"
| "js_indexOf needle (c # cs) = (if take (length needle) (c # cs) = needle then Some 0 else map_option Suc (js_indexOf needle cs))"

definition js_slice :: "string \<Rightarrow> nat \<Rightarrow> nat \<Rightarrow> string" where
  "js_slice str a b = take (b - a) (drop a str)"

function split_on :: "string \<Rightarrow> string \<Rightarrow> string list" where
  "split_on needle str =
     (case js_indexOf needle str of
        None \<Rightarrow> [str]
      | Some i \<Rightarrow> if needle = [] then [str] else take i str # split_on needle (drop (i + length needle) str))"
  by pat_completeness auto

lemma js_indexOf_bound: "js_indexOf needle str = Some i \<Longrightarrow> i + length needle \<le> length str"
proof (induction str arbitrary: i)
  case (Cons c cs)
  show ?case
  proof (cases "take (length needle) (c # cs) = needle")
    case True
    then have "length needle \<le> length (c # cs)" by (metis length_take min.cobounded1)
    then show ?thesis using Cons.prems True by simp
  qed (use Cons in auto)
qed (simp split: if_splits)

termination split_on
proof (relation "measure (length \<circ> snd)")
  fix needle str i
  assume "js_indexOf needle str = Some i" and "needle \<noteq> []"
  then show "((needle, drop (i + length needle) str), (needle, str)) \<in> measure (length \<circ> snd)"
    using js_indexOf_bound by (cases needle) fastforce+
qed simp

declare split_on.simps [simp del]

fun js_join :: "string \<Rightarrow> string list \<Rightarrow> string" where
  "js_join sep [] = []"
| "js_join sep [p] = p"
| "js_join sep (p # q # ps) = p @ sep @ js_join sep (q # ps)"

definition occurs :: "string \<Rightarrow> string \<Rightarrow> bool" where
  "occurs needle str \<longleftrightarrow> (\<exists>pre post. str = pre @ needle @ post)"

lemma occurs_Cons: "occurs needle (c # cs) \<longleftrightarrow> take (length needle) (c # cs) = needle \<or> occurs needle cs"
proof
  assume "occurs needle (c # cs)"
  then obtain pre post where "c # cs = pre @ needle @ post" by (auto simp: occurs_def)
  then show "take (length needle) (c # cs) = needle \<or> occurs needle cs"
    by (cases pre) (auto simp: occurs_def)
next
  assume "take (length needle) (c # cs) = needle \<or> occurs needle cs"
  then show "occurs needle (c # cs)"
  proof
    assume "take (length needle) (c # cs) = needle"
    then have "c # cs = [] @ needle @ drop (length needle) (c # cs)" by (metis append_Nil append_take_drop_id)
    then show ?thesis unfolding occurs_def by blast
  next
    assume "occurs needle cs"
    then show ?thesis unfolding occurs_def by (metis append_Cons)
  qed
qed

lemma js_indexOf_None: "js_indexOf needle str = None \<longleftrightarrow> \<not> occurs needle str"
proof (induction str)
  case Nil
  then show ?case by (simp add: occurs_def)
next
  case (Cons c cs)
  then show ?case by (simp add: occurs_Cons)
qed

lemma js_indexOf_Some: "js_indexOf needle str = Some i \<Longrightarrow> str = take i str @ needle @ drop (i + length needle) str"
proof (induction str arbitrary: i)
  case (Cons c cs)
  show ?case
  proof (cases "take (length needle) (c # cs) = needle")
    case True
    then show ?thesis using Cons.prems by simp (metis append_take_drop_id)
  next
    case False
    then obtain j where "i = Suc j" "js_indexOf needle cs = Some j" using Cons.prems by auto
    then show ?thesis using Cons.IH by simp
  qed
qed (simp split: if_splits)

lemma js_indexOf_slice: "js_indexOf needle str = Some i \<Longrightarrow> js_slice str i (i + length needle) = needle \<and> i + length needle \<le> length str"
proof -
  assume i: "js_indexOf needle str = Some i"
  have "drop i (take i str @ needle @ drop (i + length needle) str) = needle @ drop (i + length needle) str"
    using js_indexOf_bound [OF i] by simp
  then have "drop i str = needle @ drop (i + length needle) str" using js_indexOf_Some [OF i] by simp
  then show ?thesis using js_indexOf_bound [OF i] by (simp add: js_slice_def)
qed

lemma split_on_join: "needle \<noteq> [] \<Longrightarrow> js_join needle (split_on needle str) = str"
proof (induction str rule: length_induct)
  case (1 str)
  show ?case
  proof (cases "js_indexOf needle str")
    case None
    then show ?thesis by (simp add: split_on.simps [of needle str])
  next
    case (Some i)
    let ?rest = "drop (i + length needle) str"
    have "length ?rest < length str" using js_indexOf_bound [OF Some] \<open>needle \<noteq> []\<close> by (cases needle) auto
    then have IH: "js_join needle (split_on needle ?rest) = ?rest" using 1 by blast
    have "split_on needle ?rest \<noteq> []" by (subst split_on.simps) (simp split: option.split)
    then obtain p ps where "split_on needle ?rest = p # ps" by (cases "split_on needle ?rest") auto
    then have "js_join needle (split_on needle str) = take i str @ needle @ ?rest"
      using IH Some \<open>needle \<noteq> []\<close> by (simp add: split_on.simps [of needle str])
    then show ?thesis using js_indexOf_Some [OF Some] by simp
  qed
qed

lemma split_on_count: "needle \<noteq> [] \<Longrightarrow> 0 < length (split_on needle str) - 1 \<longleftrightarrow> occurs needle str"
proof (cases "js_indexOf needle str")
  case None
  then show ?thesis using js_indexOf_None [of needle str] by (simp add: split_on.simps [of needle str])
next
  case (Some i)
  assume "needle \<noteq> []"
  have "split_on needle (drop (i + length needle) str) \<noteq> []" by (subst split_on.simps) (simp split: option.split)
  then show ?thesis using Some \<open>needle \<noteq> []\<close> js_indexOf_None [of needle str] by (simp add: split_on.simps [of needle str])
qed

lemma js_split_ne [simp]: "js_split c s \<noteq> []"
  by (induction s) (auto split: list.split)

lemma js_split_join: "js_join [c] (js_split c s) = s"
proof (induction s)
  case (Cons x xs)
  obtain p ps where ps: "js_split c xs = p # ps" using js_split_ne [of c xs] by (cases "js_split c xs") auto
  then show ?case using Cons by (cases ps) auto
qed simp

lemma js_join_drop:
  assumes "k < length ps"
  shows "js_join sep ps = concat (map (\<lambda>p. p @ sep) (take k ps)) @ js_join sep (drop k ps)"
  using assms
proof (induction sep ps arbitrary: k rule: js_join.induct)
  case (3 sep p q ps)
  then show ?case by (cases k) auto
qed auto

lemma js_join_head: "ps \<noteq> [] \<Longrightarrow> \<exists>rest. js_join sep ps = hd ps @ rest"
  by (induction sep ps rule: js_join.induct) auto

lemma js_split_chars: "x \<in> set s \<Longrightarrow> x \<noteq> c \<Longrightarrow> \<exists>line\<in>set (js_split c s). x \<in> set line"
  by (induction s) (auto split: list.split)


section \<open>ASCII classes\<close>

definition is_upper :: "char \<Rightarrow> bool" where
  "is_upper c = (65 \<le> (of_char c :: nat) \<and> (of_char c :: nat) \<le> 90)"

definition is_digit :: "char \<Rightarrow> bool" where
  "is_digit c = (48 \<le> (of_char c :: nat) \<and> (of_char c :: nat) \<le> 57)"

definition is_lower :: "char \<Rightarrow> bool" where
  "is_lower c = (97 \<le> (of_char c :: nat) \<and> (of_char c :: nat) \<le> 122)"


section \<open>URL components\<close>

text \<open>
  \<open>encodeURIComponent\<close>: every character but the unreserved ones as the percent-encoded bytes of its
  UTF-8 form, which has two bytes for the characters from 128 to 255.
\<close>

definition unreserved :: "char \<Rightarrow> bool" where
  "unreserved c = (c \<in> set ''ABCDEFGHIJKLMNOPQRSTUVWXYZabcdefghijklmnopqrstuvwxyz0123456789-_.!~*'()'')"

definition hex_digit :: "nat \<Rightarrow> char" where
  "hex_digit n = ''0123456789ABCDEF'' ! n"

definition percent :: "nat \<Rightarrow> string" where
  "percent n = [CHR ''%'', hex_digit (n div 16), hex_digit (n mod 16)]"

definition encode_char :: "char \<Rightarrow> string" where
  "encode_char c = (let n = of_char c :: nat in
     if unreserved c then [c]
     else if n < 128 then percent n
     else percent (192 + n div 64) @ percent (128 + n mod 64))"

definition encodeURIComponent :: "string \<Rightarrow> string" where
  "encodeURIComponent s = concat (map encode_char s)"

lemma hex_digit_unreserved: "n < 16 \<Longrightarrow> unreserved (hex_digit n)"
proof -
  assume "n < 16"
  then have "hex_digit n \<in> set ''0123456789ABCDEF''" unfolding hex_digit_def by (intro nth_mem) simp
  then show ?thesis by (auto simp: unreserved_def)
qed

lemma percent_chars: "n < 256 \<Longrightarrow> c \<in> set (percent n) \<Longrightarrow> unreserved c \<or> c = CHR ''%''"
  using hex_digit_unreserved [of "n div 16"] hex_digit_unreserved [of "n mod 16"] by (auto simp: percent_def)

lemma encode_char_chars: "c' \<in> set (encode_char c) \<Longrightarrow> unreserved c' \<or> c' = CHR ''%''"
proof -
  have "of_char c < (256 :: nat)" by (rule nat_of_char_less_256)
  then have "(192 + of_char c div 64 :: nat) < 256" "(128 + of_char c mod 64 :: nat) < 256" by linarith+
  then show "c' \<in> set (encode_char c) \<Longrightarrow> unreserved c' \<or> c' = CHR ''%''"
    using percent_chars [of "of_char c" c'] percent_chars [of "192 + of_char c div 64" c'] percent_chars [of "128 + of_char c mod 64" c']
    by (auto simp: encode_char_def Let_def split: if_splits)
qed

lemma encodeURIComponent_chars: "c \<in> set (encodeURIComponent s) \<Longrightarrow> unreserved c \<or> c = CHR ''%''"
  using encode_char_chars by (auto simp: encodeURIComponent_def)

lemma encodeURIComponent_nonempty: "s \<noteq> [] \<Longrightarrow> encodeURIComponent s \<noteq> []"
  by (cases s) (simp_all add: encodeURIComponent_def encode_char_def percent_def Let_def)

end
