(* ===== verification/Collection_View.thy ===== *)
theory Collection_View
  imports JS_Sort JS_Text
begin

text \<open>
  The collection view (\<open>components/collection/use-collection-view.ts\<close>): search, filters, sort
  order and view mode of a list of items, and their persistence. Filter values are untyped
  values. The store holds what the view wrote last, or a view mode of an earlier release as a
  bare string. The search term is the one the debounce has let through. The locale \<open>comparator\<close> is the contract a sort option has to satisfy for the
  sorted view, in either direction, not to depend on the sorting algorithm.
\<close>

section \<open>Strings\<close>

fun js_includes :: "string \<Rightarrow> string \<Rightarrow> bool" where
  "js_includes [] pat = (pat = [])"
| "js_includes (c # s) pat = (take (length pat) (c # s) = pat \<or> js_includes s pat)"

text \<open>Negation of a number.\<close>

fun js_negate :: "jsnum \<Rightarrow> jsnum" where
  "js_negate (Fin a) = Fin (- a)"
| "js_negate PInf = NInf"
| "js_negate NInf = PInf"
| "js_negate NaN = NaN"


section \<open>Options and state\<close>

datatype view_mode = GridView | CompactView | ListView

datatype sort_direction = Asc | Desc

record 'a sort_option =
  so_id :: string
  so_label :: string
  so_compare :: "'a \<Rightarrow> 'a \<Rightarrow> jsnum"

record 'a filter_option =
  fo_id :: string
  fo_label :: string
  fo_defaultValue :: json
  fo_predicate :: "'a \<Rightarrow> json option \<Rightarrow> bool"
  fo_isActive :: "(json option \<Rightarrow> bool) option"

record 'a view_config =
  vc_items :: "'a list option"
  vc_searchFields :: "'a \<Rightarrow> string list"
  vc_sorters :: "'a sort_option list"
  vc_filters :: "'a filter_option list"
  vc_defaultSortId :: "string option"
  vc_defaultSortDirection :: sort_direction
  vc_defaultViewMode :: view_mode
  vc_persistenceKey :: "string option"

record persisted_state =
  pv_viewMode :: "string option"
  pv_sortId :: "string option"
  pv_sortDirection :: "sort_direction option"
  pv_filters :: "(string, json) jsmap option"

record view_state =
  vs_viewMode :: view_mode
  vs_search :: string
  vs_sortId :: string
  vs_sortDirection :: sort_direction
  vs_filterValues :: "(string, json) jsmap"

definition mode_name :: "view_mode \<Rightarrow> string" where
  "mode_name m = (case m of GridView \<Rightarrow> ''grid'' | CompactView \<Rightarrow> ''compact'' | ListView \<Rightarrow> ''list'')"

definition isViewMode :: "string option \<Rightarrow> view_mode option" where
  "isViewMode v = (if v = Some ''grid'' then Some GridView else if v = Some ''compact'' then Some CompactView
     else if v = Some ''list'' then Some ListView else None)"

definition STORAGE_PREFIX :: string where
  "STORAGE_PREFIX = ''collection-view:''"

definition empty_persisted :: persisted_state where
  "empty_persisted = \<lparr>pv_viewMode = None, pv_sortId = None, pv_sortDirection = None, pv_filters = None\<rparr>"

definition readPersisted :: "(string, persisted_state) jsmap \<Rightarrow> string option \<Rightarrow> persisted_state" where
  "readPersisted store key =
     (if \<not> js_truthy key then empty_persisted
      else case jm_get store (STORAGE_PREFIX @ the key) of
        None \<Rightarrow> empty_persisted
      | Some parsed \<Rightarrow> if isViewMode (pv_viewMode parsed) = None then parsed\<lparr>pv_viewMode := None\<rparr> else parsed)"

definition writePersisted :: "string option \<Rightarrow> persisted_state \<Rightarrow> (string, persisted_state) jsmap \<Rightarrow> (string, persisted_state) jsmap" where
  "writePersisted key st store = (if \<not> js_truthy key then store else jm_set (STORAGE_PREFIX @ the key) st store)"

definition default_filters :: "'a view_config \<Rightarrow> (string, json) jsmap" where
  "default_filters cfg = jm_from fo_id fo_defaultValue (vc_filters cfg) []"

definition view_init :: "'a view_config \<Rightarrow> (string, persisted_state) jsmap \<Rightarrow> view_state" where
  "view_init cfg store =
     (let persisted = readPersisted store (vc_persistenceKey cfg);
          firstSorter = (case vc_sorters cfg of s # _ \<Rightarrow> so_id s | [] \<Rightarrow> []) in
      \<lparr>vs_viewMode = (case isViewMode (pv_viewMode persisted) of Some m \<Rightarrow> m | None \<Rightarrow> vc_defaultViewMode cfg),
       vs_search = [],
       vs_sortId = (case pv_sortId persisted of Some i \<Rightarrow> i | None \<Rightarrow>
                      (case vc_defaultSortId cfg of Some i \<Rightarrow> i | None \<Rightarrow> firstSorter)),
       vs_sortDirection = (case pv_sortDirection persisted of Some d \<Rightarrow> d | None \<Rightarrow> vc_defaultSortDirection cfg),
       vs_filterValues = jm_from fst snd (case pv_filters persisted of Some fs \<Rightarrow> fs | None \<Rightarrow> []) (default_filters cfg)\<rparr>)"

text \<open>The effect that runs after every change of the persisted fields.\<close>

definition persist_effect :: "'a view_config \<Rightarrow> view_state \<Rightarrow> (string, persisted_state) jsmap \<Rightarrow> (string, persisted_state) jsmap" where
  "persist_effect cfg st store = writePersisted (vc_persistenceKey cfg)
     \<lparr>pv_viewMode = Some (mode_name (vs_viewMode st)), pv_sortId = Some (vs_sortId st),
      pv_sortDirection = Some (vs_sortDirection st), pv_filters = Some (vs_filterValues st)\<rparr> store"

definition setViewMode :: "view_mode \<Rightarrow> view_state \<Rightarrow> view_state" where
  "setViewMode m st = st\<lparr>vs_viewMode := m\<rparr>"

definition setSortId :: "string \<Rightarrow> view_state \<Rightarrow> view_state" where
  "setSortId i st = st\<lparr>vs_sortId := i\<rparr>"

definition setSortDirection :: "sort_direction \<Rightarrow> view_state \<Rightarrow> view_state" where
  "setSortDirection d st = st\<lparr>vs_sortDirection := d\<rparr>"

definition toggleSortDirection :: "view_state \<Rightarrow> view_state" where
  "toggleSortDirection st = st\<lparr>vs_sortDirection := (if vs_sortDirection st = Asc then Desc else Asc)\<rparr>"

definition setSearch :: "string \<Rightarrow> view_state \<Rightarrow> view_state" where
  "setSearch s st = st\<lparr>vs_search := s\<rparr>"

definition setFilterValue :: "string \<Rightarrow> json \<Rightarrow> view_state \<Rightarrow> view_state" where
  "setFilterValue i v st = st\<lparr>vs_filterValues := jm_set i v (vs_filterValues st)\<rparr>"

definition resetFilters :: "'a view_config \<Rightarrow> view_state \<Rightarrow> view_state" where
  "resetFilters cfg st = st\<lparr>vs_filterValues := default_filters cfg, vs_search := []\<rparr>"

definition filter_active :: "'a filter_option \<Rightarrow> json option \<Rightarrow> bool" where
  "filter_active f v = (case fo_isActive f of Some isActive \<Rightarrow> isActive v | None \<Rightarrow> v \<noteq> Some (fo_defaultValue f))"

definition item_visible :: "'a view_config \<Rightarrow> view_state \<Rightarrow> string \<Rightarrow> 'a \<Rightarrow> bool" where
  "item_visible cfg st trimmed item =
     (list_all (\<lambda>f. let v = jm_get (vs_filterValues st) (fo_id f) in filter_active f v \<longrightarrow> fo_predicate f item v) (vc_filters cfg) \<and>
      (trimmed = [] \<or> list_ex (\<lambda>field. js_includes (js_toLowerCase field) trimmed) (vc_searchFields cfg item)))"

definition chosen_sorter :: "'a view_config \<Rightarrow> view_state \<Rightarrow> 'a sort_option option" where
  "chosen_sorter cfg st = (case find (\<lambda>s. so_id s = vs_sortId st) (vc_sorters cfg) of
     Some s \<Rightarrow> Some s | None \<Rightarrow> (case vc_sorters cfg of s # _ \<Rightarrow> Some s | [] \<Rightarrow> None))"

definition signed :: "sort_direction \<Rightarrow> ('a \<Rightarrow> 'a \<Rightarrow> jsnum) \<Rightarrow> 'a \<Rightarrow> 'a \<Rightarrow> jsnum" where
  "signed d cmp a b = (if d = Asc then cmp a b else js_negate (cmp a b))"

definition visibleItems :: "'a view_config \<Rightarrow> view_state \<Rightarrow> 'a list" where
  "visibleItems cfg st = (case vc_items cfg of
     None \<Rightarrow> []
   | Some items \<Rightarrow>
       let trimmed = js_toLowerCase (js_trim (vs_search st));
           result = filter (item_visible cfg st trimmed) items in
       case chosen_sorter cfg st of
         Some s \<Rightarrow> js_sort (signed (vs_sortDirection st) (so_compare s)) result
       | None \<Rightarrow> result)"

definition activeFilterCount :: "'a view_config \<Rightarrow> view_state \<Rightarrow> nat" where
  "activeFilterCount cfg st = length (filter (\<lambda>f. filter_active f (jm_get (vs_filterValues st) (fo_id f))) (vc_filters cfg))"

definition totalCount :: "'a view_config \<Rightarrow> nat" where
  "totalCount cfg = (case vc_items cfg of Some items \<Rightarrow> length items | None \<Rightarrow> 0)"



section \<open>Sort options\<close>

locale comparator = sort_order cmp ok for cmp :: "'a \<Rightarrow> 'a \<Rightarrow> jsnum" and ok :: "'a \<Rightarrow> bool" +
  assumes cmp_sym: "ok x \<Longrightarrow> ok y \<Longrightarrow> js_pos (cmp y x) = js_neg (cmp x y)"
begin

lemma pos_negate: "js_pos (js_negate n) = js_neg n"
  by (cases n) auto

lemma flipped_le: "ok x \<Longrightarrow> ok y \<Longrightarrow> cmp_le (\<lambda>a b. js_negate (cmp a b)) x y = cmp_le cmp y x"
  by (simp add: cmp_le_def pos_negate cmp_sym)

end

text \<open>The reversed order of a comparator is an order again.\<close>

sublocale comparator \<subseteq> flipped: sort_order "\<lambda>a b. js_negate (cmp a b)" ok
proof
  fix x y z
  show "ok x \<Longrightarrow> cmp_le (\<lambda>a b. js_negate (cmp a b)) x x" by (simp add: flipped_le cmp_refl)
  show "ok x \<Longrightarrow> ok y \<Longrightarrow> \<not> cmp_le (\<lambda>a b. js_negate (cmp a b)) x y \<Longrightarrow> cmp_le (\<lambda>a b. js_negate (cmp a b)) y x"
    using cmp_total [of y x] by (simp add: flipped_le)
  show "ok x \<Longrightarrow> ok y \<Longrightarrow> ok z \<Longrightarrow> cmp_le (\<lambda>a b. js_negate (cmp a b)) x y \<Longrightarrow> cmp_le (\<lambda>a b. js_negate (cmp a b)) y z \<Longrightarrow>
      cmp_le (\<lambda>a b. js_negate (cmp a b)) x z"
    using cmp_trans [of z y x] by (simp add: flipped_le)
qed

context comparator
begin

lemma signed_sorted: "\<forall>x\<in>set xs. ok x \<Longrightarrow> sorted_wrt (cmp_le (signed d cmp)) (js_sort (signed d cmp) xs)"
proof (cases d)
  case Asc
  then have "signed d cmp = cmp" by (intro ext) (simp add: signed_def)
  then show "\<forall>x\<in>set xs. ok x \<Longrightarrow> ?thesis" by (simp add: sort_sorted)
next
  case Desc
  then have "signed d cmp = (\<lambda>a b. js_negate (cmp a b))" by (intro ext) (simp add: signed_def)
  then show "\<forall>x\<in>set xs. ok x \<Longrightarrow> ?thesis" by (simp add: flipped.sort_sorted)
qed

lemma signed_le: "ok x \<Longrightarrow> ok y \<Longrightarrow> cmp_le (signed d cmp) x y = (if d = Asc then cmp_le cmp x y else cmp_le cmp y x)"
  using flipped_le [of x y] by (cases d) (simp_all add: cmp_le_def signed_def)

end

interpretation pos_cmp: comparator "pos_cmp pos" "\<lambda>x. pos x \<noteq> NaN" for pos :: "'a \<Rightarrow> jsnum"
proof
  fix x y
  show "pos x \<noteq> NaN \<Longrightarrow> pos y \<noteq> NaN \<Longrightarrow> js_pos (pos_cmp pos y x) = js_neg (pos_cmp pos x y)"
    by (cases "pos x"; cases "pos y") (auto simp: pos_cmp_def)
qed

interpretation key_cmp: comparator "\<lambda>a b. cmp3 (f a) (f b)" "\<lambda>_. True" for f :: "'a \<Rightarrow> 'k::linorder"
  by unfold_locales (auto simp: cmp3_def)


section \<open>Persistence\<close>

text \<open>The states a view reaches from its initial state by its controls.\<close>

inductive view_reachable :: "'a view_config \<Rightarrow> (string, persisted_state) jsmap \<Rightarrow> view_state \<Rightarrow> bool"
  for cfg :: "'a view_config" and store where
  init: "view_reachable cfg store (view_init cfg store)"
| mode: "view_reachable cfg store st \<Longrightarrow> view_reachable cfg store (setViewMode m st)"
| sort: "view_reachable cfg store st \<Longrightarrow> view_reachable cfg store (setSortId i st)"
| direction: "view_reachable cfg store st \<Longrightarrow> view_reachable cfg store (setSortDirection d st)"
| toggle: "view_reachable cfg store st \<Longrightarrow> view_reachable cfg store (toggleSortDirection st)"
| search: "view_reachable cfg store st \<Longrightarrow> view_reachable cfg store (setSearch s st)"
| filter: "view_reachable cfg store st \<Longrightarrow> view_reachable cfg store (setFilterValue i v st)"
| reset: "view_reachable cfg store st \<Longrightarrow> view_reachable cfg store (resetFilters cfg st)"

lemma jm_set_key_list: "map fst (jm_set k v m) = (if k \<in> fst ` set m then map fst m else map fst m @ [k])"
  by (induction k v m rule: jm_set.induct) auto

text \<open>The filter values start with the keys of the declared filters.\<close>

definition extends :: "(string, json) jsmap \<Rightarrow> (string, json) jsmap \<Rightarrow> bool" where
  "extends base m = (jm_ok m \<and> (\<exists>ks. map fst m = map fst base @ ks))"

lemma extends_set: "extends base m \<Longrightarrow> extends base (jm_set k v m)"
  by (auto simp: extends_def jm_set_key_list)

lemma extends_from: "extends base m \<Longrightarrow> extends base (jm_from key val xs m)"
  unfolding jm_from_def by (induction xs arbitrary: m) (auto intro: extends_set)

lemma default_filters_ok: "jm_ok (default_filters cfg)"
  by (simp add: default_filters_def)

lemma view_reachable_extends: "view_reachable cfg store st \<Longrightarrow> extends (default_filters cfg) (vs_filterValues st)"
proof (induction rule: view_reachable.induct)
  case init
  have "extends (default_filters cfg) (default_filters cfg)" by (simp add: extends_def default_filters_ok)
  then show ?case by (simp add: view_init_def Let_def extends_from)
qed (simp_all add: setViewMode_def setSortId_def setSortDirection_def toggleSortDirection_def setSearch_def setFilterValue_def
      resetFilters_def extends_set, simp add: extends_def default_filters_ok)

lemma jm_from_prefix: "jm_ok (ys @ zs) \<Longrightarrow> map fst base = map fst ys \<Longrightarrow> jm_from fst snd zs (jm_from fst snd ys base) = ys @ zs"
proof -
  have overwrite: "jm_ok (pre @ ys) \<Longrightarrow> map fst base = map fst ys \<Longrightarrow> jm_from fst snd ys (pre @ base) = pre @ ys" for pre base
  proof (induction ys arbitrary: pre base)
    case (Cons y ys)
    obtain b bs where base: "base = b # bs" "fst b = fst y" "map fst bs = map fst ys" using Cons.prems(2) by (cases base) auto
    have "fst y \<notin> fst ` set pre" using Cons.prems(1) by (auto simp: jm_ok_def)
    then have "jm_set (fst y) (snd y) (pre @ base) = (pre @ [y]) @ bs"
      using base by (induction pre) (cases b; cases y; auto)+
    then show ?case using Cons.IH [of "pre @ [y]" bs] Cons.prems(1) base by (simp add: jm_from_def)
  qed (simp add: jm_from_def)
  have append: "jm_ok (m @ zs) \<Longrightarrow> jm_from fst snd zs m = m @ zs" for m
  proof (induction zs arbitrary: m)
    case (Cons z zs)
    then have "jm_set (fst z) (snd z) m = m @ [z]" by (auto simp: jm_ok_def jm_set_fresh)
    then show ?case using Cons.IH [of "m @ [z]"] Cons.prems by (simp add: jm_from_def)
  qed (simp add: jm_from_def)
  assume ok: "jm_ok (ys @ zs)" and keys: "map fst base = map fst ys"
  then have "jm_from fst snd ys base = ys" using overwrite [of "[]" base] by (simp add: jm_ok_def)
  then show ?thesis using append [of ys] ok by simp
qed

lemma jm_from_append: "jm_from key val (xs @ ys) m = jm_from key val ys (jm_from key val xs m)"
  by (simp add: jm_from_def)

lemma extends_from_id: "extends base m \<Longrightarrow> jm_from fst snd m base = m"
proof -
  assume "extends base m"
  then obtain ks where ok: "jm_ok m" and ks: "map fst m = map fst base @ ks" by (auto simp: extends_def)
  let ?ys = "take (length base) m" and ?zs = "drop (length base) m"
  have "map fst base = map fst ?ys" using ks by (metis append_eq_conv_conj length_map take_map)
  moreover have "jm_from fst snd m base = jm_from fst snd ?zs (jm_from fst snd ?ys base)"
    using jm_from_append [of fst snd ?ys ?zs base] by simp
  ultimately show ?thesis using jm_from_prefix [of ?ys ?zs base] ok by simp
qed

text \<open>
  The view comes back as it was left: writing any reachable state and mounting the view anew
  restores mode, sort, direction and filters, and only the search is cleared.
\<close>

lemma view_persistence_roundtrip:
  assumes "view_reachable cfg store st" and "js_truthy (vc_persistenceKey cfg)"
  shows "view_init cfg (persist_effect cfg st store') = st\<lparr>vs_search := []\<rparr>"
proof -
  have mode: "isViewMode (Some (mode_name m)) = Some m" for m by (cases m) (simp_all add: isViewMode_def mode_name_def)
  have "jm_from fst snd (vs_filterValues st) (default_filters cfg) = vs_filterValues st"
    using extends_from_id [OF view_reachable_extends [OF assms(1)]] .
  then show ?thesis
    using assms(2) by (cases st) (simp add: view_init_def persist_effect_def writePersisted_def readPersisted_def mode Let_def)
qed


definition sample_view :: "nat view_config" where
  "sample_view = \<lparr>vc_items = Some [3, 1, 2], vc_searchFields = (\<lambda>_. []),
     vc_sorters = [\<lparr>so_id = ''size'', so_label = ''size'', so_compare = pos_cmp (\<lambda>n. Fin (of_nat n))\<rparr>],
     vc_filters = [\<lparr>fo_id = ''small'', fo_label = ''small'', fo_defaultValue = JBool False,
        fo_predicate = (\<lambda>n v. n < 3), fo_isActive = None\<rparr>],
     vc_defaultSortId = None, vc_defaultSortDirection = Desc, vc_defaultViewMode = GridView, vc_persistenceKey = Some ''sizes''\<rparr>"

text \<open>
  The visible items are the matching items, each as often as it occurs, in the chosen order:
  ascending or descending by the chosen sort option, for every comparator that is consistent on
  the items.
\<close>

lemma visible_items_sorted:
  assumes "vc_items cfg = Some items" and "chosen_sorter cfg st = Some s" and "comparator (so_compare s) ok"
    and "\<forall>x\<in>set items. ok x"
  shows "mset (visibleItems cfg st) = mset (filter (item_visible cfg st (js_toLowerCase (js_trim (vs_search st)))) items) \<and>
    sorted_wrt (\<lambda>x y. if vs_sortDirection st = Asc then cmp_le (so_compare s) x y else cmp_le (so_compare s) y x) (visibleItems cfg st)"
proof -
  let ?r = "filter (item_visible cfg st (js_toLowerCase (js_trim (vs_search st)))) items"
  let ?cmp = "signed (vs_sortDirection st) (so_compare s)"
  have vis: "visibleItems cfg st = js_sort ?cmp ?r" using assms(1,2) by (simp add: visibleItems_def Let_def)
  have ok: "\<forall>x\<in>set ?r. ok x" using assms(4) by auto
  have "sorted_wrt (cmp_le ?cmp) (js_sort ?cmp ?r)" using comparator.signed_sorted [OF assms(3) ok] .
  then have "sorted_wrt (\<lambda>x y. if vs_sortDirection st = Asc then cmp_le (so_compare s) x y else cmp_le (so_compare s) y x) (js_sort ?cmp ?r)"
    by (rule sorted_wrt_mono_rel [rotated]) (use comparator.signed_le [OF assms(3)] assms(4) in auto)
  then show ?thesis using vis by simp
qed

lemma default_filters_get:
  "distinct (map fo_id fs) \<Longrightarrow> f \<in> set fs \<Longrightarrow> jm_get (jm_from fo_id fo_defaultValue fs []) (fo_id f) = Some (fo_defaultValue f)"
proof (induction fs rule: rev_induct)
  case (snoc g fs)
  then show ?case by (auto simp: jm_from_def) (metis image_eqI)
qed simp

text \<open>After a reset no filter is active and every item is visible, when defaults count as inactive.\<close>

lemma reset_shows_all:
  assumes "vc_items cfg = Some items" and "distinct (map fo_id (vc_filters cfg))"
    and "\<forall>f\<in>set (vc_filters cfg). \<not> filter_active f (Some (fo_defaultValue f))"
  shows "activeFilterCount cfg (resetFilters cfg st) = 0 \<and> mset (visibleItems cfg (resetFilters cfg st)) = mset items"
proof -
  have off: "\<not> filter_active f (jm_get (vs_filterValues (resetFilters cfg st)) (fo_id f))" if "f \<in> set (vc_filters cfg)" for f
    using default_filters_get [OF assms(2) that] assms(3) that by (simp add: resetFilters_def default_filters_def)
  then have "activeFilterCount cfg (resetFilters cfg st) = 0" by (simp add: activeFilterCount_def filter_empty_conv)
  moreover have "item_visible cfg (resetFilters cfg st) [] x" for x
    using off by (simp add: item_visible_def list_all_iff Let_def)
  then have "mset (visibleItems cfg (resetFilters cfg st)) = mset items"
    using assms(1) by (simp add: visibleItems_def resetFilters_def js_trim_def js_toLowerCase_def split: option.split)
  ultimately show ?thesis by blast
qed

end
