(* ===== verification/Board_Filters.thy ===== *)
theory Board_Filters
  imports Collection_View Board_Cache
begin

text \<open>
  The filter bar of a board (\<open>hooks/use-board-filters.ts\<close>) over the collection view, and the
  sort orders of cards in a column (\<open>hooks/use-column-sort.ts\<close>) and of the boards grid
  (\<open>hooks/use-board-sort.ts\<close>). Title collation (\<open>localeCompare\<close>) and the plain text of a rich
  description are parameters. Object identity of cards is equality here.
\<close>

section \<open>Board filters\<close>

definition BOARD_SORT_IDS :: "string list" where
  "BOARD_SORT_IDS = [''manual'', ''position'', ''priority'', ''created'', ''updated'', ''title'', ''due_date'', ''dependency'']"

fun PRIORITY_RANK :: "priority \<Rightarrow> rat" where
  "PRIORITY_RANK PUrgent = 0"
| "PRIORITY_RANK PHigh = 1"
| "PRIORITY_RANK PMedium = 2"
| "PRIORITY_RANK PLow = 3"
| "PRIORITY_RANK PNone = 4"

fun priority_name :: "priority \<Rightarrow> string" where
  "priority_name PNone = ''none''"
| "priority_name PLow = ''low''"
| "priority_name PMedium = ''medium''"
| "priority_name PHigh = ''high''"
| "priority_name PUrgent = ''urgent''"

fun card_type_name :: "card_type \<Rightarrow> string" where
  "card_type_name Task = ''task''"
| "card_type_name Bug = ''bug''"
| "card_type_name Feature = ''feature''"
| "card_type_name Issue = ''issue''"

fun presence_name :: "presence \<Rightarrow> string" where
  "presence_name NoPresence = ''none''"
| "presence_name Eligible = ''eligible''"
| "presence_name Touched = ''touched''"
| "presence_name Suspended = ''suspended''"
| "presence_name Active = ''active''"

definition compareNullableStringDesc :: "string option \<Rightarrow> string option \<Rightarrow> jsnum" where
  "compareNullableStringDesc a b =
     (if a = b then Fin 0 else
      case (a, b) of (None, _) \<Rightarrow> Fin 1 | (_, None) \<Rightarrow> Fin (-1) | (Some x, Some y) \<Rightarrow> if x < y then Fin (-1) else Fin 1)"

definition flatCards :: "column_row list \<Rightarrow> card_row list" where
  "flatCards columns = concat (map col_cards columns)"

definition card_labels :: "card_row \<Rightarrow> string list" where
  "card_labels c = (case c_labels c of Some ls \<Rightarrow> ls | None \<Rightarrow> [])"

definition labelOptions :: "column_row list \<Rightarrow> string list" where
  "labelOptions columns = js_sort cmp3 (fold js_add (concat (map card_labels (flatCards columns))) [])"

definition assigneeOptions :: "(string \<Rightarrow> string \<Rightarrow> jsnum) \<Rightarrow> column_row list \<Rightarrow> (string \<times> string) list" where
  "assigneeOptions localeCompare columns =
     js_sort (\<lambda>a b. localeCompare (snd a) (snd b))
       (jm_from (\<lambda>p. u_id (pt_user p)) (\<lambda>p. if u_name (pt_user p) \<noteq> [] then u_name (pt_user p) else u_email (pt_user p))
          (concat (map c_participants (flatCards columns))) [])"

definition sorters :: "(string \<Rightarrow> string \<Rightarrow> jsnum) \<Rightarrow> card_row sort_option list" where
  "sorters localeCompare =
     [\<lparr>so_id = ''manual'', so_label = ''manual'', so_compare = pos_cmp c_position\<rparr>,
      \<lparr>so_id = ''position'', so_label = ''position'', so_compare = pos_cmp c_position\<rparr>,
      \<lparr>so_id = ''priority'', so_label = ''priority'', so_compare = pos_cmp (\<lambda>c. Fin (PRIORITY_RANK (c_priority c)))\<rparr>,
      \<lparr>so_id = ''created'', so_label = ''created'', so_compare = (\<lambda>a b. cmp3 (c_created_at a) (c_created_at b))\<rparr>,
      \<lparr>so_id = ''updated'', so_label = ''updated'', so_compare = (\<lambda>a b. cmp3 (c_updated_at a) (c_updated_at b))\<rparr>,
      \<lparr>so_id = ''title'', so_label = ''title'', so_compare = (\<lambda>a b. localeCompare (c_title a) (c_title b))\<rparr>,
      \<lparr>so_id = ''due_date'', so_label = ''due_date'', so_compare = (\<lambda>a b. compareNullableStringDesc (c_due_date a) (c_due_date b))\<rparr>,
      \<lparr>so_id = ''dependency'', so_label = ''dependency'', so_compare = pos_cmp c_position\<rparr>]"

text \<open>A filter value that is an array of strings; anything else selects nothing.\<close>

definition filter_strings :: "json option \<Rightarrow> string list" where
  "filter_strings v = (case v of Some (JArr xs) \<Rightarrow> List.map_filter (\<lambda>x. jstr (Some x)) xs | _ \<Rightarrow> [])"

definition array_active :: "json option \<Rightarrow> bool" where
  "array_active v = (case v of Some (JArr xs) \<Rightarrow> xs \<noteq> [] | _ \<Rightarrow> False)"

definition array_filter :: "string \<Rightarrow> (card_row \<Rightarrow> string list \<Rightarrow> bool) \<Rightarrow> card_row filter_option" where
  "array_filter i matches = \<lparr>fo_id = i, fo_label = i, fo_defaultValue = JArr [],
     fo_predicate = (\<lambda>c v. filter_strings v = [] \<or> matches c (filter_strings v)), fo_isActive = Some array_active\<rparr>"

definition filters :: "card_row filter_option list" where
  "filters =
     [array_filter ''types'' (\<lambda>c v. card_type_name (c_type c) \<in> set v),
      array_filter ''priorities'' (\<lambda>c v. priority_name (c_priority c) \<in> set v),
      array_filter ''labels'' (\<lambda>c v. list_ex (\<lambda>l. l \<in> set (card_labels c)) v),
      array_filter ''assignees'' (\<lambda>c v. list_ex (\<lambda>p. u_id (pt_user p) \<in> set v) (c_participants c)),
      array_filter ''agentPresence'' (\<lambda>c v. presence_name (case agent_presence c of Some p \<Rightarrow> p | None \<Rightarrow> NoPresence) \<in> set v),
      \<lparr>fo_id = ''pendingApproval'', fo_label = ''pendingApproval'', fo_defaultValue = JBool False,
       fo_predicate = (\<lambda>c v. if v = Some (JBool True) then has_pending_approval c = Some True else True), fo_isActive = None\<rparr>]"

definition searchFields :: "(string \<Rightarrow> string) \<Rightarrow> card_row \<Rightarrow> string list" where
  "searchFields plainText c = [c_title c, plainText (c_description c)] @ card_labels c"

definition board_view :: "(string \<Rightarrow> string \<Rightarrow> jsnum) \<Rightarrow> (string \<Rightarrow> string) \<Rightarrow> string \<Rightarrow> column_row list \<Rightarrow> card_row view_config" where
  "board_view localeCompare plainText boardId columns =
     \<lparr>vc_items = Some (flatCards columns), vc_searchFields = searchFields plainText, vc_sorters = sorters localeCompare,
      vc_filters = filters, vc_defaultSortId = Some ''manual'', vc_defaultSortDirection = Asc, vc_defaultViewMode = GridView,
      vc_persistenceKey = Some (''kanban:'' @ boardId)\<rparr>"

definition boardSortActive :: "view_state \<Rightarrow> bool" where
  "boardSortActive st = (vs_sortId st \<noteq> ''manual'')"

text \<open>One column of the result: the prior object where its visible cards and its name, type and
  position are unchanged, otherwise a fresh one.\<close>

definition resolve_filtered :: "(string, column_row) jsmap \<Rightarrow> (string, card_row list) jsmap \<Rightarrow> column_row \<Rightarrow> column_row" where
  "resolve_filtered previous visibleByColumn col =
     (let cards = (case jm_get visibleByColumn (col_id col) of Some cs \<Rightarrow> cs | None \<Rightarrow> []) in
      case jm_get previous (col_id col) of
        Some prior \<Rightarrow>
          if col_cards prior = cards \<and> col_name prior = col_name col \<and> col_type prior = col_type col \<and> js_eq (col_position prior) (col_position col)
          then prior else col\<lparr>col_cards := cards\<rparr>
      | None \<Rightarrow> col\<lparr>col_cards := cards\<rparr>)"

definition filteredColumns :: "(string, column_row) jsmap \<Rightarrow> card_row list \<Rightarrow> column_row list \<Rightarrow> column_row list \<times> (string, column_row) jsmap" where
  "filteredColumns previous visible columns =
     (let visibleByColumn = fold (\<lambda>c. jm_push (c_column_id c) c) visible [];
          result = map (resolve_filtered previous visibleByColumn) columns in
      (result, jm_from fst snd (zip (map col_id columns) result) []))"

definition columnCounts :: "card_row list \<Rightarrow> column_row list \<Rightarrow> (string, nat \<times> nat) jsmap" where
  "columnCounts visible columns =
     fold (\<lambda>c out. case jm_get out (c_column_id c) of Some (v, t) \<Rightarrow> jm_set (c_column_id c) (v + 1, t) out | None \<Rightarrow> out) visible
       (jm_from col_id (\<lambda>col. (0, length (col_cards col))) columns [])"


section \<open>Sorting a column\<close>

datatype column_sort_mode = ByPosition | ByUpdated | ByAgentActivity

definition mode_of_string :: "string option \<Rightarrow> column_sort_mode" where
  "mode_of_string raw = (if raw = Some ''updated'' then ByUpdated else if raw = Some ''agent_activity'' then ByAgentActivity else ByPosition)"

definition byUpdatedDesc :: "card_row \<Rightarrow> card_row \<Rightarrow> jsnum" where
  "byUpdatedDesc a b = (if c_updated_at a = c_updated_at b then pos_cmp c_position a b
     else if c_updated_at a < c_updated_at b then Fin 1 else Fin (-1))"

definition byAgentActivityDesc :: "card_row \<Rightarrow> card_row \<Rightarrow> jsnum" where
  "byAgentActivityDesc a b = (case (last_agent_activity_at a, last_agent_activity_at b) of
     (None, None) \<Rightarrow> pos_cmp c_position a b
   | (None, Some _) \<Rightarrow> Fin 1
   | (Some _, None) \<Rightarrow> Fin (-1)
   | (Some x, Some y) \<Rightarrow> if x = y then pos_cmp c_position a b else if x < y then Fin 1 else Fin (-1))"

definition sortCards :: "card_row list \<Rightarrow> column_sort_mode \<Rightarrow> card_row list" where
  "sortCards cards mode = (case mode of
     ByUpdated \<Rightarrow> js_sort byUpdatedDesc cards
   | ByAgentActivity \<Rightarrow> js_sort byAgentActivityDesc cards
   | ByPosition \<Rightarrow> js_sort (pos_cmp c_position) cards)"


section \<open>Sorting the boards grid\<close>

datatype board_sort_mode = ByActivity | ByCreated | ByCards | ByName

fun NATURAL_DIRECTION :: "board_sort_mode \<Rightarrow> sort_direction" where
  "NATURAL_DIRECTION ByName = Asc"
| "NATURAL_DIRECTION _ = Desc"

definition activityKey :: "board \<Rightarrow> string" where
  "activityKey b = (case last_activity_at b of Some t \<Rightarrow> t | None \<Rightarrow> b_updated_at b)"

definition byNameAsc :: "(string \<Rightarrow> string \<Rightarrow> jsnum) \<Rightarrow> board \<Rightarrow> board \<Rightarrow> jsnum" where
  "byNameAsc localeCompare a b = localeCompare (b_name a) (b_name b)"

definition byActivityDesc :: "(string \<Rightarrow> string \<Rightarrow> jsnum) \<Rightarrow> board \<Rightarrow> board \<Rightarrow> jsnum" where
  "byActivityDesc lc a b = (if activityKey a = activityKey b then byNameAsc lc a b
     else if activityKey a < activityKey b then Fin 1 else Fin (-1))"

definition byCreatedDesc :: "(string \<Rightarrow> string \<Rightarrow> jsnum) \<Rightarrow> board \<Rightarrow> board \<Rightarrow> jsnum" where
  "byCreatedDesc lc a b = (if b_created_at a = b_created_at b then byNameAsc lc a b
     else if b_created_at a < b_created_at b then Fin 1 else Fin (-1))"

definition byCardCountDesc :: "(string \<Rightarrow> string \<Rightarrow> jsnum) \<Rightarrow> board \<Rightarrow> board \<Rightarrow> jsnum" where
  "byCardCountDesc lc a b =
     (let av = (case card_count a of Some n \<Rightarrow> n | None \<Rightarrow> Fin (-1));
          bv = (case card_count b of Some n \<Rightarrow> n | None \<Rightarrow> Fin (-1)) in
      if js_eq av bv then byNameAsc lc a b else js_minus bv av)"

fun baseComparator :: "(string \<Rightarrow> string \<Rightarrow> jsnum) \<Rightarrow> board_sort_mode \<Rightarrow> board \<Rightarrow> board \<Rightarrow> jsnum" where
  "baseComparator lc ByCreated = byCreatedDesc lc"
| "baseComparator lc ByCards = byCardCountDesc lc"
| "baseComparator lc ByName = byNameAsc lc"
| "baseComparator lc ByActivity = byActivityDesc lc"

definition sortBoards :: "(string \<Rightarrow> string \<Rightarrow> jsnum) \<Rightarrow> board list \<Rightarrow> board_sort_mode \<Rightarrow> sort_direction \<Rightarrow> board list" where
  "sortBoards lc boards mode direction =
     (let base = baseComparator lc mode;
          flipped = (direction \<noteq> NATURAL_DIRECTION mode) in
      js_sort (\<lambda>a b. if flipped then js_negate (base a b) else base a b) boards)"


text \<open>The persisted choice of the boards grid: two storage slots, read when the grid mounts.\<close>

record board_sort_state =
  bs_mode :: board_sort_mode
  bs_direction :: sort_direction

record board_sort_store =
  st_mode :: "string option"
  st_direction :: "string option"

fun sort_mode_name :: "board_sort_mode \<Rightarrow> string" where
  "sort_mode_name ByActivity = ''activity''"
| "sort_mode_name ByCreated = ''created''"
| "sort_mode_name ByCards = ''cards''"
| "sort_mode_name ByName = ''name''"

fun direction_name :: "sort_direction \<Rightarrow> string" where
  "direction_name Asc = ''asc''"
| "direction_name Desc = ''desc''"

definition readModeFromStorage :: "board_sort_store \<Rightarrow> board_sort_mode" where
  "readModeFromStorage s = (case find (\<lambda>m. Some (sort_mode_name m) = st_mode s) [ByActivity, ByCreated, ByCards, ByName] of
     Some m \<Rightarrow> m | None \<Rightarrow> ByActivity)"

definition readDirectionFromStorage :: "sort_direction \<Rightarrow> board_sort_store \<Rightarrow> sort_direction" where
  "readDirectionFromStorage fallback s =
     (if st_direction s = Some ''asc'' then Asc else if st_direction s = Some ''desc'' then Desc else fallback)"

definition board_sort_init :: "board_sort_store \<Rightarrow> board_sort_state" where
  "board_sort_init s = \<lparr>bs_mode = readModeFromStorage s, bs_direction = readDirectionFromStorage (NATURAL_DIRECTION (readModeFromStorage s)) s\<rparr>"

definition setMode :: "board_sort_mode \<Rightarrow> board_sort_state \<times> board_sort_store \<Rightarrow> board_sort_state \<times> board_sort_store" where
  "setMode m p = (\<lparr>bs_mode = m, bs_direction = NATURAL_DIRECTION m\<rparr>,
     (snd p)\<lparr>st_mode := Some (sort_mode_name m), st_direction := Some (direction_name (NATURAL_DIRECTION m))\<rparr>)"

definition toggleDirection :: "board_sort_state \<times> board_sort_store \<Rightarrow> board_sort_state \<times> board_sort_store" where
  "toggleDirection p = (let next = (if bs_direction (fst p) = Asc then Desc else Asc) in
     ((fst p)\<lparr>bs_direction := next\<rparr>, (snd p)\<lparr>st_direction := Some (direction_name next)\<rparr>))"


section \<open>Comparators of cards\<close>

lemma cmp_le_byUpdated: "c_position x \<noteq> NaN \<Longrightarrow> c_position y \<noteq> NaN \<Longrightarrow> cmp_le byUpdatedDesc x y =
    (c_updated_at y < c_updated_at x \<or> c_updated_at x = c_updated_at y \<and> (js_less (c_position x) (c_position y) \<or> c_position x = c_position y))"
  using cmp_le_pos [of c_position x y] by (auto simp: cmp_le_def byUpdatedDesc_def)

interpretation updated: key_order byUpdatedDesc "\<lambda>c. c_position c \<noteq> NaN" c_position
proof
  fix x y z :: card_row
  show "c_position x \<noteq> NaN \<Longrightarrow> cmp_le byUpdatedDesc x x" by (simp add: cmp_le_byUpdated)
  show "c_position x \<noteq> NaN \<Longrightarrow> c_position y \<noteq> NaN \<Longrightarrow> \<not> cmp_le byUpdatedDesc x y \<Longrightarrow> cmp_le byUpdatedDesc y x"
    using js_less_total [of "c_position x" "c_position y"] by (auto simp: cmp_le_byUpdated)
  show "c_position x \<noteq> NaN \<Longrightarrow> c_position y \<noteq> NaN \<Longrightarrow> c_position z \<noteq> NaN \<Longrightarrow> cmp_le byUpdatedDesc x y \<Longrightarrow>
      cmp_le byUpdatedDesc y z \<Longrightarrow> cmp_le byUpdatedDesc x z"
    using js_less_trans [of "c_position x" "c_position y" "c_position z"] by (auto simp: cmp_le_byUpdated)
  show "c_position x \<noteq> NaN \<Longrightarrow> c_position y \<noteq> NaN \<Longrightarrow> cmp_le byUpdatedDesc x y \<Longrightarrow> cmp_le byUpdatedDesc y x \<Longrightarrow> c_position x = c_position y"
    using js_less_asym [of "c_position x" "c_position y"] by (auto simp: cmp_le_byUpdated)
qed

text \<open>Last agent activity, newest first, none at all last.\<close>

definition newer :: "string option \<Rightarrow> string option \<Rightarrow> bool" where
  "newer a b = (case (a, b) of (Some x, Some y) \<Rightarrow> y < x | (Some _, None) \<Rightarrow> True | _ \<Rightarrow> False)"

lemma cmp_le_byAgent: "c_position x \<noteq> NaN \<Longrightarrow> c_position y \<noteq> NaN \<Longrightarrow> cmp_le byAgentActivityDesc x y =
    (newer (last_agent_activity_at x) (last_agent_activity_at y) \<or>
     last_agent_activity_at x = last_agent_activity_at y \<and> (js_less (c_position x) (c_position y) \<or> c_position x = c_position y))"
  using cmp_le_pos [of c_position x y]
  by (auto simp: cmp_le_def byAgentActivityDesc_def newer_def split: option.splits if_splits)

lemma newer_order: "newer a b \<Longrightarrow> newer b c \<Longrightarrow> newer a c" "newer a b \<or> a = b \<or> newer b a" "newer a b \<Longrightarrow> \<not> newer b a"
  by (auto simp: newer_def split: option.splits)

interpretation agent: key_order byAgentActivityDesc "\<lambda>c. c_position c \<noteq> NaN" c_position
proof
  fix x y z :: card_row
  show "c_position x \<noteq> NaN \<Longrightarrow> cmp_le byAgentActivityDesc x x" by (simp add: cmp_le_byAgent)
  show "c_position x \<noteq> NaN \<Longrightarrow> c_position y \<noteq> NaN \<Longrightarrow> \<not> cmp_le byAgentActivityDesc x y \<Longrightarrow> cmp_le byAgentActivityDesc y x"
    using js_less_total [of "c_position x" "c_position y"] newer_order(2) [of "last_agent_activity_at x" "last_agent_activity_at y"]
    by (auto simp: cmp_le_byAgent)
  show "c_position x \<noteq> NaN \<Longrightarrow> c_position y \<noteq> NaN \<Longrightarrow> c_position z \<noteq> NaN \<Longrightarrow> cmp_le byAgentActivityDesc x y \<Longrightarrow>
      cmp_le byAgentActivityDesc y z \<Longrightarrow> cmp_le byAgentActivityDesc x z"
    using js_less_trans [of "c_position x" "c_position y" "c_position z"]
      newer_order(1) [of "last_agent_activity_at x" "last_agent_activity_at y" "last_agent_activity_at z"]
    by (auto simp: cmp_le_byAgent)
  show "c_position x \<noteq> NaN \<Longrightarrow> c_position y \<noteq> NaN \<Longrightarrow> cmp_le byAgentActivityDesc x y \<Longrightarrow> cmp_le byAgentActivityDesc y x \<Longrightarrow> c_position x = c_position y"
    by (metis cmp_le_byAgent js_less_asym newer_order(3))
qed

interpretation due_date: comparator "\<lambda>a b. compareNullableStringDesc (f a) (f b)" "\<lambda>_. True" for f :: "'a \<Rightarrow> string option"
  by unfold_locales (auto simp: cmp_le_def compareNullableStringDesc_def split: option.splits if_splits)


section \<open>Properties\<close>

text \<open>
  The rendering order of a column depends on its cards only, not on the order they arrived
  in: for every sort mode, two arrays with the same cards in distinct positions sort alike.
\<close>

lemma sortCards_canonical:
  assumes "mset cards = mset cards'" and "\<forall>c\<in>set cards. c_position c \<noteq> NaN" and "distinct (map c_position cards)"
  shows "sortCards cards mode = sortCards cards' mode \<and> mset (sortCards cards mode) = mset cards"
  using updated.sort_perm [OF assms] agent.sort_perm [OF assms] pos.sort_perm [OF assms]
  by (cases mode) (simp_all add: sortCards_def assms(1) del: mset_js_sort, simp_all)


text \<open>The filtered columns of a sequence of renders.\<close>

definition keyed_columns :: "(string, column_row) jsmap \<Rightarrow> bool" where
  "keyed_columns m = (\<forall>i col. jm_get m i = Some col \<longrightarrow> col_id col = i)"

fun renders :: "(card_row list \<times> column_row list) list \<Rightarrow> (string, column_row) jsmap \<Rightarrow> (string, column_row) jsmap" where
  "renders [] previous = previous"
| "renders ((visible, columns) # rs) previous = renders rs (snd (filteredColumns previous visible columns))"

lemma visible_by_column:
  "(case jm_get (fold (\<lambda>c. jm_push (c_column_id c) c) visible []) i of Some cs \<Rightarrow> cs | None \<Rightarrow> []) = filter (\<lambda>c. c_column_id c = i) visible"
  using jm_push_fold_Nil [of c_column_id "\<lambda>c. c" visible i] by simp

lemma resolve_filtered_ok:
  "keyed_columns previous \<Longrightarrow>
     col_id (resolve_filtered previous (fold (\<lambda>c. jm_push (c_column_id c) c) visible []) col) = col_id col \<and>
     col_cards (resolve_filtered previous (fold (\<lambda>c. jm_push (c_column_id c) c) visible []) col) = filter (\<lambda>c. c_column_id c = col_id col) visible"
  by (auto simp: resolve_filtered_def visible_by_column keyed_columns_def Let_def split: option.split)

lemma keyed_columns_set: "keyed_columns m \<Longrightarrow> col_id c = i \<Longrightarrow> keyed_columns (jm_set i c m)"
  by (simp add: keyed_columns_def)

lemma filteredColumns_keyed:
  assumes "keyed_columns previous"
  shows "keyed_columns (snd (filteredColumns previous visible columns))"
proof -
  let ?f = "resolve_filtered previous (fold (\<lambda>c. jm_push (c_column_id c) c) visible [])"
  have upd: "keyed_columns (jm_from fst snd xs m)" if "keyed_columns m" "list_all (\<lambda>p. col_id (snd p) = fst p) xs" for xs m
    using that unfolding jm_from_def by (induction xs arbitrary: m) (simp_all add: keyed_columns_set)
  have "list_all (\<lambda>p. col_id (snd p) = fst p) (zip (map col_id columns) (map ?f columns))"
    using resolve_filtered_ok [OF assms] by (induction columns) auto
  then have "keyed_columns (jm_from fst snd (zip (map col_id columns) (map ?f columns)) [])"
    by (intro upd) (simp add: keyed_columns_def)
  then show ?thesis by (simp add: filteredColumns_def Let_def)
qed

lemma renders_keyed: "keyed_columns previous \<Longrightarrow> keyed_columns (renders rs previous)"
  by (induction rs previous rule: renders.induct) (auto simp: filteredColumns_keyed)

text \<open>
  The filter bar loses and duplicates nothing: after any renders before, the columns come in
  their order, each shows its own visible cards in the order of the view, and together they show
  exactly the visible cards.
\<close>

lemma filtered_columns_show_visible:
  assumes "distinct (map col_id columns)" and "list_all column_ok columns"
  shows "let visible = visibleItems (board_view lc plainText boardId columns) st;
             result = fst (filteredColumns (renders rs []) visible columns) in
    map col_id result = map col_id columns \<and>
    list_all (\<lambda>col. col_cards col = filter (\<lambda>c. c_column_id c = col_id col) visible) result \<and>
    mset (concat (map col_cards result)) = mset visible"
proof -
  let ?visible = "visibleItems (board_view lc plainText boardId columns) st"
  let ?r = "fst (filteredColumns (renders rs []) ?visible columns)"
  have keyed: "keyed_columns (renders rs [])" by (rule renders_keyed) (simp add: keyed_columns_def)
  note res = resolve_filtered_ok [OF keyed, of ?visible]
  have ids: "map col_id ?r = map col_id columns" using res by (simp add: filteredColumns_def Let_def comp_def)
  have cards: "list_all (\<lambda>col. col_cards col = filter (\<lambda>c. c_column_id c = col_id col) ?visible) ?r"
    using res by (auto simp: filteredColumns_def Let_def list_all_iff)
  have sub: "set ?visible \<subseteq> set (flatCards columns)"
    by (auto simp: visibleItems_def board_view_def Let_def split: option.splits)
  have home: "\<forall>c\<in>set ?visible. c_column_id c \<in> set (map col_id columns)"
  proof
    fix c assume "c \<in> set ?visible"
    then obtain col where "col \<in> set columns" "c \<in> set (col_cards col)" using sub by (auto simp: flatCards_def)
    then show "c_column_id c \<in> set (map col_id columns)" using assms(2) column_ok_mem by (auto simp: list_all_iff)
  qed
  have "map col_cards ?r = map (\<lambda>i. filter (\<lambda>c. c_column_id c = i) ?visible) (map col_id ?r)"
    using cards by (auto simp: list_all_iff)
  then have "mset (concat (map col_cards ?r)) = mset ?visible"
    using mset_group [OF assms(1) home] ids by simp
  then show ?thesis using ids cards by (simp add: Let_def)
qed

text \<open>
  Reversing the direction of the boards grid reverses the tie-break too: two boards created at
  the same time come in name order newest first, and in reverse name order oldest first.
\<close>

lemma sortBoards_flips_ties:
  assumes "b_created_at a = b_created_at b" and "js_neg (lc (b_name a) (b_name b))" and "js_pos (lc (b_name b) (b_name a))"
  shows "sortBoards lc [b, a] ByCreated Desc = [a, b] \<and> sortBoards lc [a, b] ByCreated Asc = [b, a]"
proof -
  have "js_pos (js_negate (lc (b_name a) (b_name b)))" using assms(2) by (cases "lc (b_name a) (b_name b)") auto
  then show ?thesis using assms by (simp add: sortBoards_def byCreatedDesc_def byNameAsc_def)
qed

definition sample_listed :: "string \<Rightarrow> board" where
  "sample_listed n = \<lparr>b_id = n, b_slug = None, b_name = n, b_description = [], b_tags = [], b_workspace_id = ''w'',
     is_frozen = None, b_frozen_at = None, b_created_at = ''2026-01-01'', b_updated_at = ''2026-01-01'', card_count = None,
     column_count = None, last_activity_at = None, loop_configured = None, has_definition = None, enforce_done_merge_gate = None\<rparr>"

text \<open>The persisted grid order: whatever was chosen last is what the next mount reads.\<close>

inductive grid_reachable :: "board_sort_state \<times> board_sort_store \<Rightarrow> bool" where
  init: "grid_reachable (board_sort_init s, s)"
| mode: "grid_reachable p \<Longrightarrow> grid_reachable (setMode m p)"
| toggle: "grid_reachable p \<Longrightarrow> grid_reachable (toggleDirection p)"

lemma board_sort_restored: "grid_reachable p \<Longrightarrow> board_sort_init (snd p) = fst p"
proof (induction rule: grid_reachable.induct)
  case (mode p m)
  then show ?case
    by (cases m) (simp_all add: setMode_def board_sort_init_def readModeFromStorage_def readDirectionFromStorage_def)
next
  case (toggle p)
  have "readModeFromStorage (snd p) = bs_mode (fst p)" using toggle.IH by (metis board_sort_init_def board_sort_state.select_convs(1))
  moreover have "readModeFromStorage ((snd p)\<lparr>st_direction := d\<rparr>) = readModeFromStorage (snd p)" for d by (simp add: readModeFromStorage_def)
  ultimately show ?case
    by (cases "fst p") (auto simp: toggleDirection_def board_sort_init_def readDirectionFromStorage_def Let_def)
qed simp

end
