(* ===== verification/Line_Diff.thy ===== *)
theory Line_Diff
  imports JS_Prelude
begin

text \<open>
  The in-house line diff of \<open>lib/line-diff.ts\<close>: the flat \<open>Int32Array\<close> of suffix LCS lengths
  filled backwards by two nested loops, the forward walk that emits the rows, and the size
  guard. The lemmas show the table equal to the recursive LCS length, so that no cell wraps
  around, and the walk to be a shortest edit script.
\<close>


section \<open>The diff\<close>

datatype diff_row_type = Eq | Add | Del

record diff_row =
  dr_type :: diff_row_type
  dr_line :: string

record line_diff =
  ld_rows :: "diff_row list"
  ld_added :: nat
  ld_removed :: nat
  ld_tooLarge :: bool

definition DIFF_LINE_LIMIT :: nat where
  "DIFF_LINE_LIMIT = 5000"

abbreviation LF :: char where "LF \<equiv> CHR 0x0A"
abbreviation CR :: char where "CR \<equiv> CHR 0x0D"

text \<open>\<open>text.replace(/\r\n?/g, "\n")\<close>\<close>

fun normalize_newlines :: "string \<Rightarrow> string" where
  "normalize_newlines [] = []"
| "normalize_newlines (c # cs) =
     (if c = CR then LF # normalize_newlines (if take 1 cs = [LF] then drop 1 cs else cs)
      else c # normalize_newlines cs)"

definition splitLines :: "string \<Rightarrow> string list" where
  "splitLines txt = js_split LF (normalize_newlines txt)"

text \<open>A write to an \<open>Int32Array\<close> keeps the low 32 bits, read as a signed integer.\<close>

definition to_int32 :: "int \<Rightarrow> int" where
  "to_int32 v = (v + 2 ^ 31) mod 2 ^ 32 - 2 ^ 31"

definition table_at :: "nat \<Rightarrow> int list \<Rightarrow> nat \<Rightarrow> nat \<Rightarrow> int" where
  "table_at width t i j = (if i * width + j < length t then t ! (i * width + j) else 0)"

definition cell_value :: "string list \<Rightarrow> string list \<Rightarrow> int list \<Rightarrow> nat \<Rightarrow> nat \<Rightarrow> int" where
  "cell_value a b t i j = (let width = length b + 1 in
     if a ! i = b ! j then table_at width t (i + 1) (j + 1) + 1
     else max (table_at width t (i + 1) j) (table_at width t i (j + 1)))"

fun fill_row :: "string list \<Rightarrow> string list \<Rightarrow> nat \<Rightarrow> nat \<Rightarrow> int list \<Rightarrow> int list" where
  "fill_row a b i 0 t = t"
| "fill_row a b i (Suc j) t = fill_row a b i j (t[i * (length b + 1) + j := to_int32 (cell_value a b t i j)])"

fun fill_table :: "string list \<Rightarrow> string list \<Rightarrow> nat \<Rightarrow> int list \<Rightarrow> int list" where
  "fill_table a b 0 t = t"
| "fill_table a b (Suc i) t = fill_table a b i (fill_row a b i (length b) t)"

definition lcs_table :: "string list \<Rightarrow> string list \<Rightarrow> int list" where
  "lcs_table a b = fill_table a b (length a) (replicate ((length a + 1) * (length b + 1)) 0)"

fun push_row :: "diff_row_type \<Rightarrow> string \<Rightarrow> line_diff \<Rightarrow> line_diff" where
  "push_row ty l d = d\<lparr>ld_rows := ld_rows d @ [\<lparr>dr_type = ty, dr_line = l\<rparr>],
     ld_added := ld_added d + (if ty = Add then 1 else 0), ld_removed := ld_removed d + (if ty = Del then 1 else 0)\<rparr>"

text \<open>The two loops that emit what is left of one side.\<close>

definition push_rest :: "diff_row_type \<Rightarrow> string list \<Rightarrow> nat \<Rightarrow> line_diff \<Rightarrow> line_diff" where
  "push_rest ty xs i d = fold (push_row ty) (drop i xs) d"

function diff_walk :: "string list \<Rightarrow> string list \<Rightarrow> int list \<Rightarrow> nat \<Rightarrow> nat \<Rightarrow> line_diff \<Rightarrow> line_diff" where
  "diff_walk a b t i j d =
     (if i < length a \<and> j < length b then
        if a ! i = b ! j then diff_walk a b t (i + 1) (j + 1) (push_row Eq (a ! i) d)
        else if table_at (length b + 1) t (i + 1) j \<ge> table_at (length b + 1) t i (j + 1)
        then diff_walk a b t (i + 1) j (push_row Del (a ! i) d)
        else diff_walk a b t i (j + 1) (push_row Add (b ! j) d)
      else push_rest Add b j (push_rest Del a i d))"
  by pat_completeness auto
termination
  by (relation "measure (\<lambda>(a, b, t, i, j, d). (length a - i) + (length b - j))") auto

declare diff_walk.simps [simp del]

definition empty_diff :: line_diff where
  "empty_diff = \<lparr>ld_rows = [], ld_added = 0, ld_removed = 0, ld_tooLarge = False\<rparr>"

definition diffLines :: "string \<Rightarrow> string \<Rightarrow> line_diff" where
  "diffLines before after =
     (let a = splitLines before; b = splitLines after in
      if length a > DIFF_LINE_LIMIT \<or> length b > DIFF_LINE_LIMIT then empty_diff\<lparr>ld_tooLarge := True\<rparr>
      else diff_walk a b (lcs_table a b) 0 0 empty_diff)"


section \<open>The table holds suffix LCS lengths\<close>

fun lcs :: "'a list \<Rightarrow> 'a list \<Rightarrow> nat" where
  "lcs [] ys = 0"
| "lcs xs [] = 0"
| "lcs (x # xs) (y # ys) = (if x = y then Suc (lcs xs ys) else max (lcs xs (y # ys)) (lcs (x # xs) ys))"

lemma lcs_Nil2 [simp]: "lcs xs [] = 0"
  by (cases xs) simp_all

lemma lcs_le: "lcs xs ys \<le> length xs"
  by (induction xs ys rule: lcs.induct) auto

lemma lcs_commute: "lcs xs ys = lcs ys xs"
  by (induction xs ys rule: lcs.induct) auto

lemma lcs_step: "lcs xs ys \<le> lcs (x # xs) ys \<and> lcs xs (y # ys) \<le> Suc (lcs xs ys)"
proof (induction "length xs + length ys" arbitrary: x y xs ys rule: less_induct)
  case less
  have grow: "lcs xs ys \<le> lcs (x # xs) ys"
  proof (cases ys)
    case (Cons y' ys')
    then show ?thesis using less.hyps [of xs ys'] by (auto intro: le_SucI)
  qed simp
  moreover have "lcs xs (y # ys) \<le> Suc (lcs xs ys)"
  proof (cases xs)
    case (Cons x' xs')
    then have "lcs xs' ys \<le> lcs (x' # xs') ys" "lcs xs' (y # ys) \<le> Suc (lcs xs' ys)"
      using less.hyps [of xs' ys] by auto
    then show ?thesis using Cons by auto
  qed simp
  ultimately show ?case ..
qed

lemma lcs_drop_l: "lcs xs ys \<le> lcs (x # xs) ys"
  using lcs_step [of xs ys x] by simp

lemma lcs_drop_r: "lcs xs ys \<le> lcs xs (y # ys)"
  using lcs_drop_l [of ys xs y] by (simp only: lcs_commute)

lemma to_int32_id: "0 \<le> v \<Longrightarrow> v < 2 ^ 31 \<Longrightarrow> to_int32 v = v"
  by (simp add: to_int32_def)

lemma flat_index_inject:
  assumes "i * w + j = i' * w + j'" and "j < w" and "j' < (w::nat)"
  shows "i = i' \<and> j = j'"
proof -
  have "(i * w + j) div w = i" "(i' * w + j') div w = i'" "(i * w + j) mod w = j" "(i' * w + j') mod w = j'"
    using assms(2,3) by auto
  then show ?thesis using assms(1) by metis
qed

lemma flat_index_less: "i \<le> n \<Longrightarrow> j < w \<Longrightarrow> i * w + j < (n + 1) * (w::nat)"
proof -
  assume "i \<le> n" "j < w"
  then have "i * w + j < i * w + w" by simp
  also have "\<dots> \<le> (n + 1) * w" using \<open>i \<le> n\<close> mult_le_mono1 [of "i + 1" "n + 1" w] by simp
  finally show ?thesis .
qed

text \<open>
  While row \<open>i\<close> is filled down to column \<open>j\<close>: every cell the loops have passed holds the LCS
  length of its two suffixes, and the last column is still zero.
\<close>

definition suffix_lcs :: "string list \<Rightarrow> string list \<Rightarrow> nat \<Rightarrow> nat \<Rightarrow> int" where
  "suffix_lcs a b i j = int (lcs (drop i a) (drop j b))"

definition filled :: "string list \<Rightarrow> string list \<Rightarrow> nat \<Rightarrow> nat \<Rightarrow> int list \<Rightarrow> bool" where
  "filled a b i j t \<longleftrightarrow> length t = (length a + 1) * (length b + 1) \<and>
     (\<forall>i' j'. i' \<le> length a \<longrightarrow> j' \<le> length b \<longrightarrow> i < i' \<or> i = i' \<and> j \<le> j' \<or> j' = length b \<longrightarrow>
        table_at (length b + 1) t i' j' = suffix_lcs a b i' j')"

lemma table_at_update:
  assumes "length t = (length a + 1) * (length b + 1)" and "i \<le> length a" and "j \<le> length b"
    and "i' \<le> length a" and "j' \<le> length b"
  shows "table_at (length b + 1) (t[i * (length b + 1) + j := v]) i' j' =
    (if i = i' \<and> j = j' then v else table_at (length b + 1) t i' j')"
proof -
  let ?w = "length b + 1"
  have "i' * ?w + j' < length t" using flat_index_less [OF assms(4), of j' ?w] assms(1,5) by simp
  moreover have "i * ?w + j = i' * ?w + j' \<longleftrightarrow> i = i' \<and> j = j'"
    using flat_index_inject [of i ?w j i' j'] assms(3,5) by auto
  ultimately show ?thesis unfolding table_at_def length_list_update by (simp add: nth_list_update)
qed

lemma cell_value_lcs:
  assumes "filled a b i (Suc j) t" and "i < length a" and "j < length b"
  shows "cell_value a b t i j = suffix_lcs a b i j"
proof -
  have cells: "table_at (length b + 1) t (i + 1) (j + 1) = suffix_lcs a b (i + 1) (j + 1)"
    "table_at (length b + 1) t (i + 1) j = suffix_lcs a b (i + 1) j"
    "table_at (length b + 1) t i (j + 1) = suffix_lcs a b i (j + 1)"
    using assms by (auto simp: filled_def)
  have drops: "drop i a = a ! i # drop (i + 1) a" "drop j b = b ! j # drop (j + 1) b"
    using assms(2,3) by (simp_all add: Cons_nth_drop_Suc)
  show ?thesis unfolding cell_value_def Let_def cells by (simp add: suffix_lcs_def drops of_nat_max)
qed

lemma fill_row_filled:
  assumes "filled a b i j t" and "i < length a" and "j \<le> length b" and "length a < 2 ^ 31"
  shows "filled a b i 0 (fill_row a b i j t)"
  using assms
proof (induction j arbitrary: t)
  case (Suc j)
  have v: "cell_value a b t i j = suffix_lcs a b i j" using cell_value_lcs Suc.prems by simp
  have "lcs (drop i a) (drop j b) < 2 ^ 31" using lcs_le [of "drop i a" "drop j b"] Suc.prems(4) by simp
  then have "to_int32 (suffix_lcs a b i j) = suffix_lcs a b i j"
    by (intro to_int32_id) (simp_all add: suffix_lcs_def)
  then have "filled a b i j (t[i * (length b + 1) + j := to_int32 (cell_value a b t i j)])"
    using Suc.prems table_at_update [of t a b i j] unfolding filled_def v by auto
  then show ?case using Suc.IH Suc.prems by simp
qed simp

lemma fill_table_filled:
  assumes "filled a b i 0 t" and "i \<le> length a" and "length a < 2 ^ 31"
  shows "filled a b 0 0 (fill_table a b i t)"
  using assms
proof (induction i arbitrary: t)
  case (Suc i)
  have "i < i' \<longleftrightarrow> Suc i < i' \<or> Suc i = i' \<and> 0 \<le> j'" for i' j' :: nat by auto
  then have "filled a b i (length b) t" using Suc.prems(1) unfolding filled_def by (metis le_antisym)
  then have "filled a b i 0 (fill_row a b i (length b) t)" using fill_row_filled Suc.prems by simp
  then show ?case using Suc.IH Suc.prems by simp
qed simp

lemma table_at_zero: "table_at w (replicate n 0) i j = 0"
  by (simp add: table_at_def)

lemma lcs_table_correct:
  assumes "length a < 2 ^ 31" and "i \<le> length a" and "j \<le> length b"
  shows "table_at (length b + 1) (lcs_table a b) i j = suffix_lcs a b i j"
proof -
  have "filled a b (length a) 0 (replicate ((length a + 1) * (length b + 1)) 0)"
    unfolding filled_def table_at_zero by (auto simp: suffix_lcs_def)
  then have "filled a b 0 0 (lcs_table a b)" unfolding lcs_table_def using fill_table_filled assms(1) by simp
  then show ?thesis using assms(2,3) by (auto simp: filled_def)
qed


section \<open>The walk is a shortest edit script\<close>

text \<open>What a diff says the two sides were, and how many lines it keeps.\<close>

definition old_lines :: "diff_row list \<Rightarrow> string list" where
  "old_lines rows = map dr_line (filter (\<lambda>r. dr_type r \<noteq> Add) rows)"

definition new_lines :: "diff_row list \<Rightarrow> string list" where
  "new_lines rows = map dr_line (filter (\<lambda>r. dr_type r \<noteq> Del) rows)"

definition rows_of :: "diff_row_type \<Rightarrow> diff_row list \<Rightarrow> nat" where
  "rows_of ty rows = length (filter (\<lambda>r. dr_type r = ty) rows)"

lemmas row_defs = old_lines_def new_lines_def rows_of_def

text \<open>The rows pushed after a state, with the counters in step.\<close>

definition extends_by :: "diff_row list \<Rightarrow> line_diff \<Rightarrow> line_diff \<Rightarrow> bool" where
  "extends_by rows d d' \<longleftrightarrow> d' = d\<lparr>ld_rows := ld_rows d @ rows,
     ld_added := ld_added d + rows_of Add rows, ld_removed := ld_removed d + rows_of Del rows\<rparr>"

lemma extends_by_Nil: "extends_by [] d d"
  by (simp add: extends_by_def rows_of_def)

lemma extends_by_push: "extends_by rows (push_row ty l d) d' \<Longrightarrow> extends_by (\<lparr>dr_type = ty, dr_line = l\<rparr> # rows) d d'"
  by (auto simp: extends_by_def rows_of_def)

lemma extends_by_trans: "extends_by xs d d' \<Longrightarrow> extends_by ys d' d'' \<Longrightarrow> extends_by (xs @ ys) d d''"
  by (simp add: extends_by_def rows_of_def)

lemma extends_by_rest: "extends_by (map (\<lambda>l. \<lparr>dr_type = ty, dr_line = l\<rparr>) (drop i xs)) d (push_rest ty xs i d)"
proof -
  have "extends_by (map (\<lambda>l. \<lparr>dr_type = ty, dr_line = l\<rparr>) ys) d (fold (push_row ty) ys d)" for ys
    by (induction ys arbitrary: d) (simp_all add: extends_by_Nil extends_by_push)
  then show ?thesis by (simp add: push_rest_def)
qed

text \<open>An edit script from \<open>xs\<close> to \<open>ys\<close> that keeps as many lines as possible.\<close>

definition best_script :: "string list \<Rightarrow> string list \<Rightarrow> diff_row list \<Rightarrow> bool" where
  "best_script xs ys rows \<longleftrightarrow> old_lines rows = xs \<and> new_lines rows = ys \<and> rows_of Eq rows = lcs xs ys"

lemma best_script_rest:
  "xs = [] \<or> ys = [] \<Longrightarrow> best_script xs ys
     (map (\<lambda>l. \<lparr>dr_type = Del, dr_line = l\<rparr>) xs @ map (\<lambda>l. \<lparr>dr_type = Add, dr_line = l\<rparr>) ys)"
  by (auto simp: best_script_def row_defs comp_def filter_map)

lemma best_script_Eq: "best_script xs ys rows \<Longrightarrow> best_script (x # xs) (x # ys) (\<lparr>dr_type = Eq, dr_line = x\<rparr> # rows)"
  by (simp add: best_script_def row_defs)

lemma best_script_Del: "best_script xs (y # ys) rows \<Longrightarrow> x \<noteq> y \<Longrightarrow> lcs (x # xs) ys \<le> lcs xs (y # ys) \<Longrightarrow>
    best_script (x # xs) (y # ys) (\<lparr>dr_type = Del, dr_line = x\<rparr> # rows)"
  by (simp add: best_script_def row_defs max_def)

lemma best_script_Add: "best_script (x # xs) ys rows \<Longrightarrow> x \<noteq> y \<Longrightarrow> lcs xs (y # ys) \<le> lcs (x # xs) ys \<Longrightarrow>
    best_script (x # xs) (y # ys) (\<lparr>dr_type = Add, dr_line = y\<rparr> # rows)"
  by (simp add: best_script_def row_defs max_def)

lemma diff_walk_best:
  assumes "\<And>i j. i \<le> length a \<Longrightarrow> j \<le> length b \<Longrightarrow> table_at (length b + 1) t i j = suffix_lcs a b i j"
  shows "\<exists>rows. extends_by rows d (diff_walk a b t i j d) \<and> best_script (drop i a) (drop j b) rows"
proof (induction "length a - i + (length b - j)" arbitrary: i j d rule: less_induct)
  case less
  show ?case
  proof (cases "i < length a \<and> j < length b")
    case False
    then have "diff_walk a b t i j d = push_rest Add b j (push_rest Del a i d)" by (subst diff_walk.simps) auto
    moreover have "drop i a = [] \<or> drop j b = []" using False by auto
    ultimately show ?thesis
      using extends_by_trans [OF extends_by_rest [of Del i a d] extends_by_rest [of Add j b]] best_script_rest [of "drop i a" "drop j b"] by auto
  next
    case True
    let ?xs = "drop (i + 1) a" and ?ys = "drop (j + 1) b"
    have drops: "drop i a = a ! i # ?xs" "drop j b = b ! j # ?ys" using True by (simp_all add: Cons_nth_drop_Suc)
    consider "a ! i = b ! j" | "a ! i \<noteq> b ! j" "lcs (a ! i # ?xs) ?ys \<le> lcs ?xs (b ! j # ?ys)"
      | "a ! i \<noteq> b ! j" "lcs ?xs (b ! j # ?ys) < lcs (a ! i # ?xs) ?ys" by linarith
    then show ?thesis
    proof cases
      case 1
      then have step: "diff_walk a b t i j d = diff_walk a b t (i + 1) (j + 1) (push_row Eq (a ! i) d)"
        using True by (simp add: diff_walk.simps [of a b t i j])
      have m: "length a - (i + 1) + (length b - (j + 1)) < length a - i + (length b - j)" using True by arith
      obtain rows where e: "extends_by rows (push_row Eq (a ! i) d) (diff_walk a b t i j d)" and bs: "best_script ?xs ?ys rows"
        using less [OF m, of "push_row Eq (a ! i) d"] unfolding step drops by blast
      show ?thesis unfolding drops using extends_by_push [OF e] best_script_Eq [OF bs, of "a ! i"] 1 by metis
    next
      case 2
      then have step: "diff_walk a b t i j d = diff_walk a b t (i + 1) j (push_row Del (a ! i) d)"
        using True assms [of "i + 1" j] assms [of i "j + 1"] drops by (simp add: diff_walk.simps [of a b t i j] suffix_lcs_def)
      have m: "length a - (i + 1) + (length b - j) < length a - i + (length b - j)" using True by arith
      obtain rows where e: "extends_by rows (push_row Del (a ! i) d) (diff_walk a b t i j d)" and bs: "best_script ?xs (b ! j # ?ys) rows"
        using less [OF m, of "push_row Del (a ! i) d"] unfolding step drops by blast
      show ?thesis unfolding drops using extends_by_push [OF e] best_script_Del [OF bs 2] by blast
    next
      case 3
      then have step: "diff_walk a b t i j d = diff_walk a b t i (j + 1) (push_row Add (b ! j) d)"
        using True assms [of "i + 1" j] assms [of i "j + 1"] drops by (simp add: diff_walk.simps [of a b t i j] suffix_lcs_def)
      have m: "length a - i + (length b - (j + 1)) < length a - i + (length b - j)" using True by arith
      obtain rows where e: "extends_by rows (push_row Add (b ! j) d) (diff_walk a b t i j d)" and bs: "best_script (a ! i # ?xs) ?ys rows"
        using less [OF m, of "push_row Add (b ! j) d"] unfolding step drops by blast
      show ?thesis unfolding drops using extends_by_push [OF e] best_script_Add [OF bs 3(1) less_imp_le [OF 3(2)]] by blast
    qed
  qed
qed

lemma diffLines_script:
  assumes "\<not> ld_tooLarge (diffLines before after)"
  shows "best_script (splitLines before) (splitLines after) (ld_rows (diffLines before after)) \<and>
    ld_added (diffLines before after) = rows_of Add (ld_rows (diffLines before after)) \<and>
    ld_removed (diffLines before after) = rows_of Del (ld_rows (diffLines before after))"
proof -
  let ?a = "splitLines before" and ?b = "splitLines after"
  have small: "length ?a \<le> 5000" "length ?b \<le> 5000"
    using assms by (auto simp: diffLines_def DIFF_LINE_LIMIT_def Let_def split: if_splits)
  then have "diffLines before after = diff_walk ?a ?b (lcs_table ?a ?b) 0 0 empty_diff"
    by (simp add: diffLines_def DIFF_LINE_LIMIT_def Let_def)
  moreover have "table_at (length ?b + 1) (lcs_table ?a ?b) i j = suffix_lcs ?a ?b i j"
    if "i \<le> length ?a" "j \<le> length ?b" for i j using lcs_table_correct that small(1) by simp
  ultimately obtain rows where "extends_by rows empty_diff (diffLines before after)" "best_script ?a ?b rows"
    using diff_walk_best [of ?a ?b "lcs_table ?a ?b" empty_diff 0 0] by auto
  then show ?thesis by (simp add: extends_by_def empty_diff_def)
qed

lemma script_keeps_at_most_lcs: "rows_of Eq rows \<le> lcs (old_lines rows) (new_lines rows)"
proof (induction rows)
  case (Cons r rows)
  then show ?case
    using lcs_drop_l [of "old_lines rows" "new_lines rows" "dr_line r"] lcs_drop_r [of "old_lines rows" "new_lines rows" "dr_line r"]
    by (cases "dr_type r") (simp_all add: row_defs)
qed (simp add: row_defs)

lemma script_length: "length (old_lines rows) = rows_of Eq rows + rows_of Del rows"
    "length (new_lines rows) = rows_of Eq rows + rows_of Add rows"
proof -
  have "length (old_lines rows) = rows_of Eq rows + rows_of Del rows \<and> length (new_lines rows) = rows_of Eq rows + rows_of Add rows"
  proof (induction rows)
    case (Cons r rows)
    then show ?case by (cases "dr_type r") (simp_all add: row_defs)
  qed (simp add: row_defs)
  then show "length (old_lines rows) = rows_of Eq rows + rows_of Del rows"
    "length (new_lines rows) = rows_of Eq rows + rows_of Add rows" by auto
qed


section \<open>Properties\<close>

text \<open>
  C19. A diff is lossless: unless it was refused for its size, its kept and removed rows read in
  order are the lines before, its kept and added rows the lines after, and the two counters
  count the rows of their kind.
\<close>

theorem diff_reconstructs:
  assumes "length (splitLines before) \<le> DIFF_LINE_LIMIT" and "length (splitLines after) \<le> DIFF_LINE_LIMIT"
  shows "old_lines (ld_rows (diffLines before after)) = splitLines before \<and>
    new_lines (ld_rows (diffLines before after)) = splitLines after \<and>
    ld_added (diffLines before after) = rows_of Add (ld_rows (diffLines before after)) \<and>
    ld_removed (diffLines before after) = rows_of Del (ld_rows (diffLines before after)) \<and>
    \<not> ld_tooLarge (diffLines before after)"
proof -
  have "\<not> ld_tooLarge (diffLines before after)"
  proof -
    have "ld_tooLarge (diff_walk a b t i j d) = ld_tooLarge d" for a b t i j d
    proof -
      have rest: "ld_tooLarge (push_rest ty xs k e) = ld_tooLarge e" for ty xs k e
        using extends_by_rest [of ty k xs e] by (simp add: extends_by_def)
      show ?thesis by (induction a b t i j d rule: diff_walk.induct) (subst diff_walk.simps, simp add: rest)
    qed
    then show ?thesis using assms by (simp add: diffLines_def empty_diff_def Let_def)
  qed
  then show ?thesis using diffLines_script [of before after] by (simp add: best_script_def)
qed

theorem diff_reconstructs_witness:
  "old_lines (ld_rows (diffLines ''a'' ''b'')) = [''a''] \<and> new_lines (ld_rows (diffLines ''a'' ''b'')) = [''b'']"
  using diff_reconstructs [of "''a''" "''b''"] by (simp add: splitLines_def DIFF_LINE_LIMIT_def)

text \<open>
  C20. The diff is minimal: no list of rows that turns the lines before into the lines after has
  fewer added and removed rows.
\<close>

theorem diff_minimal:
  assumes "\<not> ld_tooLarge (diffLines before after)"
    and "old_lines rows = splitLines before" and "new_lines rows = splitLines after"
  shows "ld_added (diffLines before after) + ld_removed (diffLines before after) \<le> rows_of Add rows + rows_of Del rows"
proof -
  let ?best = "ld_rows (diffLines before after)"
  have best: "best_script (splitLines before) (splitLines after) ?best"
    and counts: "ld_added (diffLines before after) = rows_of Add ?best" "ld_removed (diffLines before after) = rows_of Del ?best"
    using diffLines_script [OF assms(1)] by auto
  have "rows_of Eq rows \<le> rows_of Eq ?best"
    using script_keeps_at_most_lcs [of rows] assms(2,3) best by (simp add: best_script_def)
  then show ?thesis
    using script_length [of rows] script_length [of ?best] assms(2,3) best counts by (simp add: best_script_def)
qed

theorem diff_minimal_witness:
  "ld_added (diffLines ''a'' ''b'') + ld_removed (diffLines ''a'' ''b'') \<le> 2"
proof -
  have "\<not> ld_tooLarge (diffLines ''a'' ''b'')" by code_simp
  then show ?thesis
    using diff_minimal [of "''a''" "''b''" "[\<lparr>dr_type = Del, dr_line = ''a''\<rparr>, \<lparr>dr_type = Add, dr_line = ''b''\<rparr>]"]
    by (simp add: row_defs splitLines_def)
qed

end
