(* ===== verification/Pipeline_Config.thy ===== *)
theory Pipeline_Config
  imports JS_Prelude
begin

text \<open>
  The agent pipeline configuration as it arrives from the backend
  (\<open>features/agents/api/pipelineConfig.ts\<close>): an open JSON object with a list of stages, each
  with its legacy blocks and its lifecycle of named steps. The modules that read it go through
  the accessors of this theory. A field whose value has another type than its interface
  declares reads as missing. Objects keep the order of their keys, which the editor's dirty
  check depends on; keys that look like array indices are not considered.
  The starter lifecycles of \<open>utils/lifecycleTemplates.ts\<close> follow.
\<close>


section \<open>Reading a configuration\<close>

text \<open>A string field; a missing one is empty, which the code does not tell apart (both are falsy).\<close>

definition str_field :: "json \<Rightarrow> string \<Rightarrow> string" where
  "str_field v k = (case jstr (jfield v k) of Some s \<Rightarrow> s | None \<Rightarrow> [])"

definition list_field :: "json \<Rightarrow> string \<Rightarrow> json list" where
  "list_field v k = (case jarr (jfield v k) of Some xs \<Rightarrow> xs | None \<Rightarrow> [])"

text \<open>\<open>typeof v === "object"\<close> for a value that is not null.\<close>

fun is_object :: "json option \<Rightarrow> bool" where
  "is_object (Some (JObj _)) = True"
| "is_object (Some (JArr _)) = True"
| "is_object _ = False"

text \<open>\<open>Object.entries\<close>; the keys of an array are its indices.\<close>

fun obj_entries :: "json option \<Rightarrow> (string \<times> json) list" where
  "obj_entries (Some (JObj kvs)) = kvs"
| "obj_entries (Some (JArr xs)) = map (\<lambda>i. (show_nat i, xs ! i)) [0..<length xs]"
| "obj_entries _ = []"

text \<open>\<open>LifecycleStepBase\<close>: name, kind, and the three ways out of a step.\<close>

definition step_name :: "json \<Rightarrow> string" where "step_name s = str_field s ''name''"
definition step_kind :: "json \<Rightarrow> string" where "step_kind s = str_field s ''kind''"
definition step_next :: "json \<Rightarrow> string" where "step_next s = str_field s ''next''"
definition step_on_failure :: "json \<Rightarrow> string" where "step_on_failure s = str_field s ''on_failure''"

definition step_branches :: "json \<Rightarrow> (string \<times> string) list" where
  "step_branches s = map (\<lambda>(d, v). (d, case jstr (Some v) of Some t \<Rightarrow> t | None \<Rightarrow> [])) (obj_entries (jfield s ''branches''))"

text \<open>\<open>StageConfig\<close> and \<open>PipelineConfig\<close>.\<close>

definition stage_role :: "json \<Rightarrow> string" where "stage_role st = str_field st ''role''"
definition stage_lifecycle :: "json \<Rightarrow> json list" where "stage_lifecycle st = list_field st ''lifecycle''"
definition config_stages :: "json \<Rightarrow> json list" where "config_stages c = list_field c ''stages''"

text \<open>\<open>LifecycleKindName\<close>\<close>

definition LIFECYCLE_KINDS :: "string list" where
  "LIFECYCLE_KINDS = [''discover'', ''claim'', ''git_setup'', ''skills_setup'', ''llm'', ''sensor'', ''move_card'',
     ''apply_label'', ''remove_label'', ''create_note'', ''enqueue_for_merge'', ''mcp_call'', ''create_fix_cards'',
     ''branch'', ''wake_role'', ''create_pr'', ''enable_auto_merge'', ''merge_pr'', ''post_pr_review'', ''ship'', ''end'']"

text \<open>\<open>PipelineValidationError\<close>; the prose message repeats code, field and value and is left out.\<close>

record validation_error =
  ve_code :: string
  ve_field :: string
  ve_value :: "json option"

definition mk_error :: "string \<Rightarrow> string \<Rightarrow> json option \<Rightarrow> validation_error" where
  "mk_error code field val = \<lparr>ve_code = code, ve_field = field, ve_value = val\<rparr>"

text \<open>\<open>path[idx]\<close>\<close>

definition indexed :: "string \<Rightarrow> nat \<Rightarrow> string" where
  "indexed path i = path @ ''['' @ show_nat i @ '']''"

lemma size_obj_entries: "(k, v) \<in> set (obj_entries (Some w)) \<Longrightarrow> size v < size w"
  by (cases w) (auto dest: size_json_pair intro!: size_json_elem)


section \<open>Starter lifecycles\<close>

datatype lifecycle_template = Blank | CopyOrchestrator | CopyReviewer | CopyDocumentator

definition LIFECYCLE_TEMPLATE_KEYS :: "lifecycle_template list" where
  "LIFECYCLE_TEMPLATE_KEYS = [Blank, CopyOrchestrator, CopyReviewer, CopyDocumentator]"

definition mk_step :: "string \<Rightarrow> string \<Rightarrow> (string \<times> json) list \<Rightarrow> (string \<times> json) list \<Rightarrow> json" where
  "mk_step name kind params ways = JObj ([(''name'', JStr name), (''kind'', JStr kind), (''params'', JObj params)] @ ways)"

definition orchestratorTemplate :: "json list" where
  "orchestratorTemplate =
    [mk_step ''discover'' ''discover'' [(''strategy'', JStr ''unassigned_or_rework'')] [(''next'', JStr ''claim'')],
     mk_step ''claim'' ''claim'' [(''participant_role'', JStr ''hero''), (''execution_action'', JStr ''implement_card'')]
       [(''next'', JStr ''git_setup'')],
     mk_step ''git_setup'' ''git_setup'' [(''action'', JStr ''create_branch''), (''create_pr'', JBool True)]
       [(''next'', JStr ''implement_llm'')],
     mk_step ''implement_llm'' ''llm'' [(''stage'', JStr ''implement''), (''post_process_kind'', JStr ''writes_code''),
         (''inject_directives'', JBool True), (''approval_enabled'', JBool True)] [(''next'', JStr ''move_to_review'')],
     mk_step ''move_to_review'' ''move_card'' [(''to_column_type'', JStr ''review'')] []]"

definition reviewerTemplate :: "json list" where
  "reviewerTemplate =
    [mk_step ''discover'' ''discover'' [(''strategy'', JStr ''column_scan''), (''column_type'', JStr ''review'')]
       [(''next'', JStr ''claim'')],
     mk_step ''claim'' ''claim'' [(''participant_role'', JStr ''helper''), (''execution_action'', JStr ''review_card'')]
       [(''next'', JStr ''review_llm'')],
     mk_step ''review_llm'' ''llm'' [(''stage'', JStr ''review''), (''post_process_kind'', JStr ''produces_decision'')]
       [(''branches'', JObj [(''approve'', JStr ''approve_move''), (''request_changes'', JStr ''rework_move'')])],
     mk_step ''approve_move'' ''move_card'' [(''to_column_type'', JStr ''done'')] [],
     mk_step ''rework_move'' ''move_card'' [(''to_column_type'', JStr ''active'')] []]"

definition documentatorTemplate :: "json list" where
  "documentatorTemplate =
    [mk_step ''discover'' ''discover'' [(''strategy'', JStr ''column_scan''), (''column_type'', JStr ''done'')]
       [(''next'', JStr ''claim'')],
     mk_step ''claim'' ''claim'' [(''participant_role'', JStr ''helper''), (''execution_action'', JStr ''document_card'')]
       [(''next'', JStr ''document_llm'')],
     mk_step ''document_llm'' ''llm'' [(''stage'', JStr ''document''), (''post_process_kind'', JStr ''produces_note'')]
       [(''next'', JStr ''label_documented'')],
     mk_step ''label_documented'' ''apply_label'' [(''label'', JStr ''documented'')] []]"

fun buildLifecycleFromTemplate :: "lifecycle_template \<Rightarrow> json list" where
  "buildLifecycleFromTemplate CopyOrchestrator = orchestratorTemplate"
| "buildLifecycleFromTemplate CopyReviewer = reviewerTemplate"
| "buildLifecycleFromTemplate CopyDocumentator = documentatorTemplate"
| "buildLifecycleFromTemplate Blank = []"

definition buildEmptyStageLegacyBlocks :: "(string \<times> json) list" where
  "buildEmptyStageLegacyBlocks =
    [(''discover'', JObj [(''strategy'', JStr ''unassigned_or_rework''), (''column_type'', JStr []),
        (''column_type_exclude'', JStr []), (''filters'', JObj [])]),
     (''claim'', JObj [(''participant_role'', JStr ''hero''), (''execution_action'', JStr [])]),
     (''git'', JObj [(''action'', JStr ''none''), (''branch_prefix'', JStr []), (''create_pr'', JBool False),
        (''force_push_on_rework'', JBool False)]),
     (''llm'', JObj [(''enabled'', JBool False), (''stage'', JStr []), (''post_process_kind'', JStr []),
        (''tools'', JArr []), (''inject_directives'', JBool False), (''approval_enabled'', JBool False)]),
     (''sensors'', JArr []), (''on_success'', JObj []), (''on_failure'', JObj [])]"

end
