(* ===== verification/Pipeline_Validation.thy ===== *)
theory Pipeline_Validation
  imports Pipeline_Config
begin

text \<open>
  The client-side mirror of the pipeline validator (\<open>features/agents/lib/pipelineValidation.ts\<close>).
  Each check returns the errors it pushes, in order. The specification is a predicate on
  configurations; the theorem is that the validator reports nothing exactly for the
  configurations that satisfy it, nested branches included.
\<close>


section \<open>The validator\<close>

definition DISCOVER_STRATEGIES :: "string list" where
  "DISCOVER_STRATEGIES = [''unassigned_or_rework'', ''column_scan'']"

definition CLAIM_ROLES :: "string list" where
  "CLAIM_ROLES = [''hero'', ''helper'']"

definition GIT_ACTIONS :: "string list" where
  "GIT_ACTIONS = [''create_branch'', ''checkout_pr_branch'', ''none'', []]"

definition LLM_STAGES :: "string list" where
  "LLM_STAGES = [''implement'', ''review'', ''document'']"

definition POST_PROCESS_KINDS :: "string list" where
  "POST_PROCESS_KINDS = [[], ''writes_code'', ''produces_decision'', ''produces_note'', ''mutates_backlog'']"

definition COLUMN_TYPES :: "string list" where
  "COLUMN_TYPES = [''backlog'', ''active'', ''review'', ''done'', []]"

definition LEGACY_STAGE_TO_KIND :: "(string \<times> string) list" where
  "LEGACY_STAGE_TO_KIND = [(''implement'', ''writes_code''), (''review'', ''produces_decision''), (''document'', ''writes_code'')]"

text \<open>
  The keys every object literal inherits: \<open>k in table\<close> holds for them too, and the value read
  there is a function or object, which no string equals.
\<close>

definition OBJECT_PROTOTYPE_KEYS :: "string list" where
  "OBJECT_PROTOTYPE_KEYS = [''constructor'', ''hasOwnProperty'', ''isPrototypeOf'', ''propertyIsEnumerable'',
     ''toLocaleString'', ''toString'', ''valueOf'', ''__proto__'', ''__defineGetter__'', ''__defineSetter__'',
     ''__lookupGetter__'', ''__lookupSetter__'']"

text \<open>Membership of an untyped value in a set of strings.\<close>

definition in_set :: "json \<Rightarrow> string list \<Rightarrow> bool" where
  "in_set v xs = (\<exists>x\<in>set xs. v = JStr x)"

text \<open>\<open>if (v && !set.has(v)) errors.push(...)\<close> and its variant \<open>v != null\<close>.\<close>

definition check_truthy :: "json option \<Rightarrow> string list \<Rightarrow> string \<Rightarrow> string \<Rightarrow> validation_error list" where
  "check_truthy v allowed code field =
     (case v of Some x \<Rightarrow> if json_truthy v \<and> \<not> in_set x allowed then [mk_error code field v] else [] | None \<Rightarrow> [])"

definition check_present :: "json option \<Rightarrow> string list \<Rightarrow> string \<Rightarrow> string \<Rightarrow> validation_error list" where
  "check_present v allowed code field =
     (case v of Some x \<Rightarrow> if x \<noteq> JNull \<and> \<not> in_set x allowed then [mk_error code field v] else [] | None \<Rightarrow> [])"

text \<open>\<open>stage.block?.key\<close>\<close>

definition nested_field :: "json \<Rightarrow> string \<Rightarrow> string \<Rightarrow> json option" where
  "nested_field v block k = Option.bind (jfield v block) (\<lambda>b. jfield b k)"

definition validateDiscover :: "json \<Rightarrow> string \<Rightarrow> validation_error list" where
  "validateDiscover stage path = check_truthy (nested_field stage ''discover'' ''strategy'') DISCOVER_STRATEGIES
     ''unknown_discover_strategy'' (path @ ''.strategy'')"

definition validateClaim :: "json \<Rightarrow> string \<Rightarrow> validation_error list" where
  "validateClaim stage path = check_truthy (nested_field stage ''claim'' ''participant_role'') CLAIM_ROLES
     ''unknown_claim_role'' (path @ ''.participant_role'')"

definition validateGit :: "json \<Rightarrow> string \<Rightarrow> validation_error list" where
  "validateGit stage path = check_present (nested_field stage ''git'' ''action'') GIT_ACTIONS
     ''unknown_git_action'' (path @ ''.action'')"

text \<open>\<open>v ?? ""\<close>\<close>

definition or_empty :: "json option \<Rightarrow> json" where
  "or_empty v = (case v of None \<Rightarrow> JStr [] | Some JNull \<Rightarrow> JStr [] | Some x \<Rightarrow> x)"

definition stage_errors :: "json \<Rightarrow> bool \<Rightarrow> json \<Rightarrow> string \<Rightarrow> validation_error list" where
  "stage_errors llm hasKind stageName path =
     (if \<not> json_truthy (jfield llm ''enabled'') then []
      else if hasKind then (if \<not> json_truthy (Some stageName) then [mk_error ''unknown_llm_stage'' (path @ ''.stage'') (Some stageName)] else [])
      else if \<not> in_set stageName LLM_STAGES then [mk_error ''unknown_llm_stage'' (path @ ''.stage'') (Some stageName)] else [])"

definition legacy_errors :: "bool \<Rightarrow> json \<Rightarrow> json \<Rightarrow> string \<Rightarrow> validation_error list" where
  "legacy_errors hasKind kind stageName path =
     (case stageName of
        JStr s \<Rightarrow> if hasKind \<and> (s \<in> fst ` set LEGACY_STAGE_TO_KIND \<or> s \<in> set OBJECT_PROTOTYPE_KEYS) \<and>
            Some kind \<noteq> map_option JStr (map_of LEGACY_STAGE_TO_KIND s)
          then [mk_error ''mismatched_post_process_kind'' (path @ ''.post_process_kind'') (Some kind)] else []
      | _ \<Rightarrow> [])"

definition validateLLM :: "json \<Rightarrow> string \<Rightarrow> validation_error list" where
  "validateLLM stage path =
     (case jfield stage ''llm'' of
        None \<Rightarrow> []
      | Some llm \<Rightarrow> if \<not> json_truthy (Some llm) then [] else
          let kind = or_empty (jfield llm ''post_process_kind'');
              hasKind = (kind \<noteq> JStr []);
              stageName = or_empty (jfield llm ''stage'')
          in (if \<not> in_set kind POST_PROCESS_KINDS then [mk_error ''unknown_post_process_kind'' (path @ ''.post_process_kind'') (Some kind)] else []) @
             stage_errors llm hasKind stageName path @
             (if json_truthy (jfield llm ''approval_enabled'') \<and> stageName \<noteq> JStr ''implement''
              then [mk_error ''approval_not_supported_for_custom_stage'' (path @ ''.approval_enabled'') (Some stageName)] else []) @
             legacy_errors hasKind kind stageName path)"

definition unknown_roles :: "json option \<Rightarrow> json list \<Rightarrow> string \<Rightarrow> string \<Rightarrow> validation_error list" where
  "unknown_roles roles knownRoles code field =
     (case jarr roles of None \<Rightarrow> []
      | Some rs \<Rightarrow> map (\<lambda>r. mk_error code field (Some r)) (filter (\<lambda>r. json_truthy (Some r) \<and> r \<notin> set knownRoles) rs))"

function validateAction :: "json \<Rightarrow> string \<Rightarrow> json list \<Rightarrow> validation_error list" where
  "validateAction action path knownRoles =
     (if \<not> is_object (Some action) then [] else
        check_present (jfield action ''move_to_column_type'') COLUMN_TYPES ''invalid_move_to_column_type'' (path @ ''.move_to_column_type'') @
        unknown_roles (jfield action ''wake_roles'') knownRoles ''invalid_wake_role'' (path @ ''.wake_roles'') @
        concat (map (\<lambda>(name, branchAction). validateAction branchAction (path @ ''.branches.'' @ name) knownRoles)
          (obj_entries (jfield action ''branches''))))"
  by pat_completeness auto

lemma size_branch: "(k, v) \<in> set (obj_entries (jfield a b)) \<Longrightarrow> size v < size a"
proof (cases "jfield a b")
  case (Some w)
  assume "(k, v) \<in> set (obj_entries (jfield a b))"
  then have "size v < size w" using Some size_obj_entries by simp
  also have "size w < size a" using Some by (rule size_jfield)
  finally show ?thesis .
qed simp

termination validateAction
  by (relation "measure (\<lambda>(a, p, r). size a)") (auto dest: size_branch)

declare validateAction.simps [simp del]

definition validateSensors :: "json \<Rightarrow> string \<Rightarrow> string list \<Rightarrow> validation_error list" where
  "validateSensors stage path knownSensors =
     (case jarr (jfield stage ''sensors'') of None \<Rightarrow> []
      | Some sensors \<Rightarrow> concat (map (\<lambda>i. check_truthy (jfield (sensors ! i) ''name'') knownSensors ''unknown_sensor_name''
          (indexed path i @ ''.name'')) [0..<length sensors]))"

text \<open>The first pass: collect the roles, reporting missing and duplicate ones.\<close>

fun role_pass :: "json list \<Rightarrow> nat \<Rightarrow> json list \<Rightarrow> validation_error list \<times> json list" where
  "role_pass [] i seen = ([], seen)"
| "role_pass (stage # rest) i seen =
     (let field = indexed ''stages'' i @ ''.role''; role = jfield stage ''role'' in
      if \<not> json_truthy role then
        (case role_pass rest (i + 1) seen of (es, s) \<Rightarrow> (mk_error ''missing_stage_key'' field None # es, s))
      else if the role \<in> set seen then
        (case role_pass rest (i + 1) seen of (es, s) \<Rightarrow> (mk_error ''duplicate_stage_role'' field role # es, s))
      else role_pass rest (i + 1) (seen @ [the role]))"

definition action_errors :: "json option \<Rightarrow> string \<Rightarrow> json list \<Rightarrow> validation_error list" where
  "action_errors action path knownRoles =
     (case action of Some a \<Rightarrow> if json_truthy action then validateAction a path knownRoles else [] | None \<Rightarrow> [])"

definition validate_stage :: "json list \<Rightarrow> string list option \<Rightarrow> nat \<Rightarrow> json \<Rightarrow> validation_error list" where
  "validate_stage knownRoles knownSensors i stage =
     (let path = indexed ''stages'' i in
      validateDiscover stage (path @ ''.discover'') @
      validateClaim stage (path @ ''.claim'') @
      validateGit stage (path @ ''.git'') @
      validateLLM stage (path @ ''.llm'') @
      action_errors (jfield stage ''on_success'') (path @ ''.on_success'') knownRoles @
      action_errors (jfield stage ''on_failure'') (path @ ''.on_failure'') knownRoles @
      (case knownSensors of None \<Rightarrow> [] | Some ks \<Rightarrow> validateSensors stage (path @ ''.sensors'') ks))"

definition validatePipelineConfig :: "json option \<Rightarrow> string list option \<Rightarrow> validation_error list" where
  "validatePipelineConfig config knownSensors =
     (case config of
        None \<Rightarrow> [mk_error ''invalid_config_shape'' [] None]
      | Some c \<Rightarrow> if \<not> is_object config then [mk_error ''invalid_config_shape'' [] None] else
         (case jarr (jfield c ''stages'') of
            None \<Rightarrow> [mk_error ''missing_stage_key'' ''stages'' None]
          | Some stages \<Rightarrow>
              (case role_pass stages 0 [] of (roleErrors, knownRoles) \<Rightarrow>
                 roleErrors @
                 concat (map (\<lambda>i. validate_stage knownRoles knownSensors i (stages ! i)) [0..<length stages]) @
                 unknown_roles (nested_field c ''scheduling'' ''priority_order'') knownRoles
                   ''priority_order_unknown_role'' ''scheduling.priority_order'')))"

definition errorsByField :: "validation_error list \<Rightarrow> (string, validation_error list) jsmap" where
  "errorsByField errors = fold (\<lambda>err. jm_push (ve_field err) err) errors []"


section \<open>What a valid configuration is\<close>

text \<open>The nodes of an action's tree of branches.\<close>

inductive sub_action :: "json \<Rightarrow> json \<Rightarrow> bool" where
  self: "sub_action a a"
| branch: "sub_action a b \<Longrightarrow> is_object (Some a') \<Longrightarrow> (name, a) \<in> set (obj_entries (jfield a' ''branches'')) \<Longrightarrow> sub_action a' b"

definition optional_in :: "string list \<Rightarrow> json option \<Rightarrow> bool" where
  "optional_in allowed v = (\<forall>x. v = Some x \<longrightarrow> json_truthy v \<longrightarrow> in_set x allowed)"

definition present_in :: "string list \<Rightarrow> json option \<Rightarrow> bool" where
  "present_in allowed v = (\<forall>x. v = Some x \<longrightarrow> x \<noteq> JNull \<longrightarrow> in_set x allowed)"

definition roles_known :: "json list \<Rightarrow> json option \<Rightarrow> bool" where
  "roles_known roles v = (\<forall>rs. jarr v = Some rs \<longrightarrow> (\<forall>r\<in>set rs. json_truthy (Some r) \<longrightarrow> r \<in> set roles))"

definition action_ok :: "json list \<Rightarrow> json \<Rightarrow> bool" where
  "action_ok roles a = (is_object (Some a) \<longrightarrow>
     present_in COLUMN_TYPES (jfield a ''move_to_column_type'') \<and> roles_known roles (jfield a ''wake_roles''))"

definition action_tree_ok :: "json list \<Rightarrow> json option \<Rightarrow> bool" where
  "action_tree_ok roles v = (\<forall>a b. v = Some a \<longrightarrow> json_truthy v \<longrightarrow> sub_action a b \<longrightarrow> action_ok roles b)"

definition llm_ok :: "json \<Rightarrow> bool" where
  "llm_ok llm = (let kind = or_empty (jfield llm ''post_process_kind''); stage = or_empty (jfield llm ''stage'') in
     in_set kind POST_PROCESS_KINDS \<and>
     (json_truthy (jfield llm ''enabled'') \<longrightarrow> (if kind = JStr [] then in_set stage LLM_STAGES else json_truthy (Some stage))) \<and>
     (json_truthy (jfield llm ''approval_enabled'') \<longrightarrow> stage = JStr ''implement'') \<and>
     (\<forall>s. stage = JStr s \<longrightarrow> kind \<noteq> JStr [] \<longrightarrow> s \<notin> set OBJECT_PROTOTYPE_KEYS \<and>
        (\<forall>k. map_of LEGACY_STAGE_TO_KIND s = Some k \<longrightarrow> kind = JStr k)))"

definition stage_ok :: "json list \<Rightarrow> string list option \<Rightarrow> json \<Rightarrow> bool" where
  "stage_ok roles sensors stage \<longleftrightarrow>
     optional_in DISCOVER_STRATEGIES (nested_field stage ''discover'' ''strategy'') \<and>
     optional_in CLAIM_ROLES (nested_field stage ''claim'' ''participant_role'') \<and>
     present_in GIT_ACTIONS (nested_field stage ''git'' ''action'') \<and>
     (\<forall>llm. jfield stage ''llm'' = Some llm \<longrightarrow> json_truthy (Some llm) \<longrightarrow> llm_ok llm) \<and>
     action_tree_ok roles (jfield stage ''on_success'') \<and> action_tree_ok roles (jfield stage ''on_failure'') \<and>
     (\<forall>ks. sensors = Some ks \<longrightarrow> (\<forall>s\<in>set (list_field stage ''sensors''). optional_in ks (jfield s ''name'')))"

definition valid_config :: "json option \<Rightarrow> string list option \<Rightarrow> bool" where
  "valid_config config sensors \<longleftrightarrow> is_object config \<and>
     (\<exists>stages. jarr (jfield (the config) ''stages'') = Some stages \<and>
        list_all (\<lambda>s. json_truthy (jfield s ''role'')) stages \<and>
        distinct (map (\<lambda>s. jfield s ''role'') stages) \<and>
        (let roles = map (\<lambda>s. the (jfield s ''role'')) stages in
         list_all (stage_ok roles sensors) stages \<and>
         roles_known roles (nested_field (the config) ''scheduling'' ''priority_order'')))"


section \<open>The validator reports nothing exactly for valid configurations\<close>

lemma check_truthy_iff: "check_truthy v xs code f = [] \<longleftrightarrow> optional_in xs v"
  by (auto simp: check_truthy_def optional_in_def split: option.splits)

lemma check_present_iff: "check_present v xs code f = [] \<longleftrightarrow> present_in xs v"
  by (auto simp: check_present_def present_in_def split: option.splits)

lemma unknown_roles_iff: "unknown_roles v roles code f = [] \<longleftrightarrow> roles_known roles v"
  by (auto simp: unknown_roles_def roles_known_def filter_empty_conv split: option.splits)

lemma sub_action_step: "sub_action a b \<longleftrightarrow> a = b \<or> is_object (Some a) \<and>
    (\<exists>(name, c)\<in>set (obj_entries (jfield a ''branches'')). sub_action c b)"
  by (subst sub_action.simps) auto

lemma validateAction_iff: "validateAction a path roles = [] \<longleftrightarrow> (\<forall>b. sub_action a b \<longrightarrow> action_ok roles b)"
proof (induction a path roles rule: validateAction.induct)
  case (1 a path roles)
  show ?case
  proof (cases "is_object (Some a)")
    case False
    have "sub_action a b \<longleftrightarrow> b = a" for b using False sub_action_step [of a] by auto
    then show ?thesis using False by (auto simp: validateAction.simps [of a] action_ok_def)
  next
    case True
    have children: "validateAction c (path @ ''.branches.'' @ name) roles = [] \<longleftrightarrow> (\<forall>b. sub_action c b \<longrightarrow> action_ok roles b)"
      if "(name, c) \<in> set (obj_entries (jfield a ''branches''))" for name c
      using 1 [of "(name, c)" name c] True that by simp
    have nodes: "(\<forall>b. sub_action a b \<longrightarrow> action_ok roles b) \<longleftrightarrow> action_ok roles a \<and>
        (\<forall>(name, c)\<in>set (obj_entries (jfield a ''branches'')). \<forall>b. sub_action c b \<longrightarrow> action_ok roles b)"
      using True sub_action_step [of a] by fast
    show ?thesis
      unfolding nodes using True children
      by (auto simp: validateAction.simps [of a] check_present_iff unknown_roles_iff action_ok_def)
  qed
qed

lemma action_errors_iff: "action_errors v path roles = [] \<longleftrightarrow> action_tree_ok roles v"
  by (auto simp: action_errors_def action_tree_ok_def validateAction_iff split: option.splits)

lemma legacy_errors_iff:
  "legacy_errors hasKind kind stageName path = [] \<longleftrightarrow>
     (\<forall>s. stageName = JStr s \<longrightarrow> hasKind \<longrightarrow> s \<notin> set OBJECT_PROTOTYPE_KEYS \<and>
        (\<forall>k. map_of LEGACY_STAGE_TO_KIND s = Some k \<longrightarrow> kind = JStr k))"
proof -
  have "s \<in> set OBJECT_PROTOTYPE_KEYS \<Longrightarrow> map_of LEGACY_STAGE_TO_KIND s = None" for s
    by (auto simp: OBJECT_PROTOTYPE_KEYS_def LEGACY_STAGE_TO_KIND_def)
  moreover have "s \<in> fst ` set LEGACY_STAGE_TO_KIND \<longleftrightarrow> map_of LEGACY_STAGE_TO_KIND s \<noteq> None" for s
    by (simp add: map_of_eq_None_iff)
  ultimately show ?thesis
    unfolding legacy_errors_def by (cases stageName) auto
qed

lemma validateLLM_iff: "validateLLM stage path = [] \<longleftrightarrow>
    (\<forall>llm. jfield stage ''llm'' = Some llm \<longrightarrow> json_truthy (Some llm) \<longrightarrow> llm_ok llm)"
  by (cases "jfield stage ''llm''")
     (auto simp: validateLLM_def llm_ok_def Let_def legacy_errors_iff stage_errors_def)

lemma validateSensors_iff: "validateSensors stage path ks = [] \<longleftrightarrow>
    (\<forall>s\<in>set (list_field stage ''sensors''). optional_in ks (jfield s ''name''))"
  unfolding all_set_conv_all_nth by (auto simp: validateSensors_def list_field_def check_truthy_iff split: option.split)

lemma validate_stage_iff: "validate_stage roles sensors i stage = [] \<longleftrightarrow> stage_ok roles sensors stage"
  by (auto simp: validate_stage_def stage_ok_def Let_def validateDiscover_def validateClaim_def validateGit_def
      check_truthy_iff check_present_iff validateLLM_iff action_errors_iff validateSensors_iff split: option.split)

lemma role_pass_ok:
  "fst (role_pass stages i seen) = [] \<longleftrightarrow> list_all (\<lambda>s. json_truthy (jfield s ''role'')) stages \<and>
     distinct (map (\<lambda>s. jfield s ''role'') stages) \<and> (\<forall>s\<in>set stages. the (jfield s ''role'') \<notin> set seen)"
proof (induction stages i seen rule: role_pass.induct)
  case (2 stage rest i seen)
  show ?case
  proof (cases "json_truthy (jfield stage ''role'') \<and> the (jfield stage ''role'') \<notin> set seen")
    case True
    then obtain r where r: "jfield stage ''role'' = Some r" by (cases "jfield stage ''role''") auto
    have IH: "fst (role_pass rest (i + 1) (seen @ [r])) = [] \<longleftrightarrow> list_all (\<lambda>s. json_truthy (jfield s ''role'')) rest \<and>
        distinct (map (\<lambda>s. jfield s ''role'') rest) \<and> (\<forall>s\<in>set rest. the (jfield s ''role'') \<notin> set (seen @ [r]))"
      using 2(3) [OF refl refl] True r by simp
    have "the (jfield s ''role'') = r \<longleftrightarrow> jfield s ''role'' = Some r" if "json_truthy (jfield s ''role'')" for s
      using that by (cases "jfield s ''role''") auto
    then have new: "(\<forall>s\<in>set rest. the (jfield s ''role'') \<noteq> r) \<longleftrightarrow> Some r \<notin> (\<lambda>s. jfield s ''role'') ` set rest"
      if "list_all (\<lambda>s. json_truthy (jfield s ''role'')) rest" using that by (auto simp: list_all_iff image_iff)
    have "fst (role_pass (stage # rest) i seen) = fst (role_pass rest (i + 1) (seen @ [r]))" using True r by (simp add: Let_def)
    then show ?thesis using IH True r new by auto
  next
    case False
    then show ?thesis by (auto simp: Let_def split: prod.split)
  qed
qed simp

lemma role_pass_roles:
  "fst (role_pass stages i seen) = [] \<Longrightarrow> snd (role_pass stages i seen) = seen @ map (\<lambda>s. the (jfield s ''role'')) stages"
  by (induction stages i seen rule: role_pass.induct) (auto simp: Let_def split: if_splits prod.splits)


text \<open>Grouping the errors by field keeps all of them, in order.\<close>

lemma errorsByField_get:
  "(case jm_get (errorsByField errors) f of Some es \<Rightarrow> es | None \<Rightarrow> []) = filter (\<lambda>e. ve_field e = f) errors"
  unfolding errorsByField_def by (rule trans [OF jm_push_fold_Nil [where val = "\<lambda>e. e" and key = ve_field]]) simp

end
