(* ===== verification/Lifecycle_Graph.thy ===== *)
theory Lifecycle_Graph
  imports Pipeline_Config
begin

text \<open>
  The lifecycle graph of a role (\<open>features/agents/utils/lifecycle-graph.ts\<close>): steps as nodes,
  the walker's transitions as edges, the dead ends flagged, and the roll-up over a pipeline.
  The walker that executes a lifecycle is specified by its transitions; the theorem is that a
  pipeline the summary calls healthy never strands a card.
\<close>


section \<open>The analysis\<close>

record kind_semantics =
  producesDecision :: bool
  terminal :: bool

definition sem :: "bool \<Rightarrow> bool \<Rightarrow> kind_semantics" where
  "sem d t = \<lparr>producesDecision = d, terminal = t\<rparr>"

definition KIND_SEMANTICS :: "(string \<times> kind_semantics) list" where
  "KIND_SEMANTICS =
    [(''discover'', sem False False), (''claim'', sem False False), (''git_setup'', sem False False),
     (''skills_setup'', sem False False), (''llm'', sem True False), (''sensor'', sem True False),
     (''move_card'', sem False True), (''apply_label'', sem False False), (''remove_label'', sem False True),
     (''create_note'', sem False True), (''enqueue_for_merge'', sem False True), (''mcp_call'', sem False False),
     (''create_fix_cards'', sem False False), (''branch'', sem True False), (''wake_role'', sem False False),
     (''create_pr'', sem False False), (''enable_auto_merge'', sem False False), (''merge_pr'', sem False False),
     (''post_pr_review'', sem False False), (''ship'', sem False True), (''end'', sem False True)]"

definition kind_sem :: "string \<Rightarrow> kind_semantics" where
  "kind_sem kind = (case map_of KIND_SEMANTICS kind of Some s \<Rightarrow> s | None \<Rightarrow> sem False False)"

definition effectiveProducesDecision :: "json \<Rightarrow> bool" where
  "effectiveProducesDecision step =
     (if step_kind step = ''llm''
      then Option.bind (jfield step ''params'') (\<lambda>p. jfield p ''post_process_kind'') = Some (JStr ''produces_decision'')
      else producesDecision (kind_sem (step_kind step)))"

datatype edge_kind = NextEdge | BranchEdge | FailureEdge

fun edge_kind_name :: "edge_kind \<Rightarrow> string" where
  "edge_kind_name NextEdge = ''next''"
| "edge_kind_name BranchEdge = ''branch''"
| "edge_kind_name FailureEdge = ''on_failure''"

record graph_node =
  gn_id :: string
  gn_kind :: string
  gn_producesDecision :: bool
  gn_terminal :: bool
  gn_strand :: bool
  gn_missingFailureFallback :: bool

record graph_edge =
  ge_id :: string
  ge_source :: string
  ge_target :: string
  ge_kind :: edge_kind
  ge_label :: string
  ge_dangling :: bool

record lifecycle_analysis =
  la_role :: string
  la_nodes :: "graph_node list"
  la_edges :: "graph_edge list"
  la_strandedSteps :: "string list"
  la_danglingTargets :: "string list"

definition mk_edge :: "string list \<Rightarrow> string \<Rightarrow> string \<Rightarrow> edge_kind \<Rightarrow> string \<Rightarrow> graph_edge" where
  "mk_edge stepNames source target kind label =
     \<lparr>ge_id = source @ ''--'' @ edge_kind_name kind @ '':'' @ label @ ''-->'' @ target,
      ge_source = source, ge_target = target, ge_kind = kind, ge_label = label, ge_dangling = target \<notin> set stepNames\<rparr>"

definition step_edges :: "string list \<Rightarrow> json \<Rightarrow> graph_edge list" where
  "step_edges stepNames step =
     (if step_next step \<noteq> [] then [mk_edge stepNames (step_name step) (step_next step) NextEdge ''on_success''] else []) @
     map (\<lambda>(decision, target). mk_edge stepNames (step_name step) target BranchEdge decision) (step_branches step) @
     (if step_on_failure step \<noteq> [] then [mk_edge stepNames (step_name step) (step_on_failure step) FailureEdge ''on_failure''] else [])"

definition step_node :: "graph_edge list \<Rightarrow> json \<Rightarrow> graph_node" where
  "step_node edges step =
     (let s = kind_sem (step_kind step);
          decision = effectiveProducesDecision step;
          hasOutgoing = step_name step \<in> set (map ge_source edges) in
      \<lparr>gn_id = step_name step, gn_kind = step_kind step, gn_producesDecision = decision, gn_terminal = terminal s,
       gn_strand = (\<not> terminal s \<and> \<not> hasOutgoing),
       gn_missingFailureFallback = (decision \<and> step_branches step \<noteq> [] \<and> step_on_failure step = [])\<rparr>)"

definition analyzeRoleLifecycle :: "json \<Rightarrow> lifecycle_analysis" where
  "analyzeRoleLifecycle stage =
     (let lifecycle = stage_lifecycle stage;
          stepNames = map step_name lifecycle;
          edges = concat (map (step_edges stepNames) lifecycle);
          nodes = map (step_node edges) lifecycle in
      \<lparr>la_role = stage_role stage, la_nodes = nodes, la_edges = edges,
       la_strandedSteps = map gn_id (filter gn_strand nodes),
       la_danglingTargets = fold js_add (map ge_target (filter ge_dangling edges)) []\<rparr>)"

record health_summary =
  hs_ok :: bool
  hs_strandCount :: nat
  hs_danglingCount :: nat
  hs_missingFailureFallbackCount :: nat
  hs_affectedRoles :: "string list"

definition add_stage_health :: "json \<Rightarrow> health_summary \<Rightarrow> health_summary" where
  "add_stage_health stage h =
     (let a = analyzeRoleLifecycle stage;
          missing = length (filter gn_missingFailureFallback (la_nodes a)) in
      h\<lparr>hs_strandCount := hs_strandCount h + length (la_strandedSteps a),
        hs_danglingCount := hs_danglingCount h + length (la_danglingTargets a),
        hs_missingFailureFallbackCount := hs_missingFailureFallbackCount h + missing,
        hs_affectedRoles := (if la_strandedSteps a \<noteq> [] \<or> la_danglingTargets a \<noteq> [] \<or> missing \<noteq> 0
          then js_add (stage_role stage) (hs_affectedRoles h) else hs_affectedRoles h)\<rparr>)"

definition summarizePipelineHealth :: "json \<Rightarrow> health_summary" where
  "summarizePipelineHealth config =
     (let h = fold add_stage_health (config_stages config)
        \<lparr>hs_ok = True, hs_strandCount = 0, hs_danglingCount = 0, hs_missingFailureFallbackCount = 0, hs_affectedRoles = []\<rparr> in
      h\<lparr>hs_ok := (hs_strandCount h + hs_danglingCount h + hs_missingFailureFallbackCount h = 0)\<rparr>)"


section \<open>The walker\<close>

text \<open>
  The transitions of a step, as the runner takes them: \<open>next\<close>, the branch of the decision it
  produced, or the error route.
\<close>

inductive transition :: "json list \<Rightarrow> string \<Rightarrow> string \<Rightarrow> bool" for steps :: "json list" where
  on_next: "step \<in> set steps \<Longrightarrow> step_next step \<noteq> [] \<Longrightarrow> transition steps (step_name step) (step_next step)"
| on_decision: "step \<in> set steps \<Longrightarrow> (d, target) \<in> set (step_branches step) \<Longrightarrow> transition steps (step_name step) target"
| on_error: "step \<in> set steps \<Longrightarrow> step_on_failure step \<noteq> [] \<Longrightarrow> transition steps (step_name step) (step_on_failure step)"

text \<open>The names a walk that starts at the first step can reach.\<close>

inductive walk_reaches :: "json list \<Rightarrow> string \<Rightarrow> bool" for steps :: "json list" where
  start: "steps = step # rest \<Longrightarrow> walk_reaches steps (step_name step)"
| follow: "walk_reaches steps n \<Longrightarrow> transition steps n m \<Longrightarrow> walk_reaches steps m"

definition ways_out :: "json \<Rightarrow> string list" where
  "ways_out step = (if step_next step \<noteq> [] then [step_next step] else []) @ map snd (step_branches step) @
     (if step_on_failure step \<noteq> [] then [step_on_failure step] else [])"

lemma transition_ways: "transition steps n m \<longleftrightarrow> (\<exists>step\<in>set steps. n = step_name step \<and> m \<in> set (ways_out step))"
proof
  assume "transition steps n m"
  then show "\<exists>step\<in>set steps. n = step_name step \<and> m \<in> set (ways_out step)"
    by cases (force simp: ways_out_def)+
next
  assume "\<exists>step\<in>set steps. n = step_name step \<and> m \<in> set (ways_out step)"
  then show "transition steps n m" by (auto simp: ways_out_def split: if_splits intro: transition.intros)
qed

lemma step_edges_ways:
  "map ge_target (step_edges names step) = ways_out step"
  "e \<in> set (step_edges names step) \<Longrightarrow> ge_source e = step_name step \<and> (ge_dangling e \<longleftrightarrow> ge_target e \<notin> set names)"
  by (auto simp: step_edges_def mk_edge_def ways_out_def split: if_splits)

lemma transition_edge:
  "transition steps n m \<longleftrightarrow> (\<exists>e\<in>set (concat (map (step_edges names) steps)). ge_source e = n \<and> ge_target e = m)"
proof -
  have "(\<exists>e\<in>set (step_edges names step). ge_source e = n \<and> ge_target e = m) \<longleftrightarrow> n = step_name step \<and> m \<in> set (ways_out step)" for step
    unfolding step_edges_ways(1) [where names = names, symmetric] using step_edges_ways(2) by fastforce
  then show ?thesis unfolding transition_ways by simp
qed

lemma js_add_fold: "set (fold js_add xs ys) = set xs \<union> set ys"
  by (induction xs arbitrary: ys) auto

lemma dangling_targets:
  "m \<in> set (la_danglingTargets (analyzeRoleLifecycle stage)) \<longleftrightarrow>
     (\<exists>n. transition (stage_lifecycle stage) n m) \<and> m \<notin> step_name ` set (stage_lifecycle stage)"
proof -
  let ?names = "map step_name (stage_lifecycle stage)"
  let ?edges = "concat (map (step_edges ?names) (stage_lifecycle stage))"
  have "ge_dangling e \<longleftrightarrow> ge_target e \<notin> set ?names" if "e \<in> set ?edges" for e
    using that step_edges_ways(2) by auto
  moreover have "set (la_danglingTargets (analyzeRoleLifecycle stage)) = ge_target ` {e \<in> set ?edges. ge_dangling e}"
    by (simp add: analyzeRoleLifecycle_def Let_def js_add_fold)
  ultimately show ?thesis by (auto simp: transition_edge [where names = ?names])
qed

lemma stranded_steps:
  "n \<in> set (la_strandedSteps (analyzeRoleLifecycle stage)) \<longleftrightarrow>
     (\<exists>step\<in>set (stage_lifecycle stage). step_name step = n \<and> \<not> terminal (kind_sem (step_kind step))) \<and>
     (\<forall>m. \<not> transition (stage_lifecycle stage) n m)"
proof -
  let ?names = "map step_name (stage_lifecycle stage)"
  have "k \<in> set (map ge_source (concat (map (step_edges ?names) (stage_lifecycle stage)))) \<longleftrightarrow>
      (\<exists>m. transition (stage_lifecycle stage) k m)" for k
    by (auto simp: transition_edge [where names = ?names] image_iff)
  moreover have "set (la_strandedSteps (analyzeRoleLifecycle stage)) =
      {step_name step |step. step \<in> set (stage_lifecycle stage) \<and> \<not> terminal (kind_sem (step_kind step)) \<and>
         step_name step \<notin> set (map ge_source (concat (map (step_edges ?names) (stage_lifecycle stage))))}"
    unfolding analyzeRoleLifecycle_def Let_def by (auto simp: filter_map step_node_def Let_def comp_def)
  ultimately have "set (la_strandedSteps (analyzeRoleLifecycle stage)) =
      {step_name step |step. step \<in> set (stage_lifecycle stage) \<and> \<not> terminal (kind_sem (step_kind step)) \<and>
         (\<forall>m. \<not> transition (stage_lifecycle stage) (step_name step) m)}" by simp
  then show ?thesis by auto
qed

lemma health_fold:
  "hs_strandCount (fold add_stage_health stages h) = hs_strandCount h + (\<Sum>s\<leftarrow>stages. length (la_strandedSteps (analyzeRoleLifecycle s)))"
  "hs_danglingCount (fold add_stage_health stages h) = hs_danglingCount h + (\<Sum>s\<leftarrow>stages. length (la_danglingTargets (analyzeRoleLifecycle s)))"
  by (induction stages arbitrary: h) (simp_all add: add_stage_health_def Let_def)

lemma healthy_stage:
  assumes "hs_ok (summarizePipelineHealth config)" and "stage \<in> set (config_stages config)"
  shows "la_strandedSteps (analyzeRoleLifecycle stage) = []" and "la_danglingTargets (analyzeRoleLifecycle stage) = []"
  using assms by (auto simp: summarizePipelineHealth_def Let_def health_fold sum_list_eq_0_iff)

lemma walk_stays:
  assumes "walk_reaches steps n" and "\<And>n m. transition steps n m \<Longrightarrow> m \<in> step_name ` set steps"
  shows "n \<in> step_name ` set steps"
  using assms(1) by cases (auto intro: assms(2))


section \<open>Properties\<close>


definition sample_lifecycle_config :: json where
  "sample_lifecycle_config = JObj [(''stages'', JArr [JObj [(''role'', JStr ''r''), (''lifecycle'', JArr orchestratorTemplate)]])]"


text \<open>
  Of the starter lifecycles, the documentator template ends in a step that the analysis
  reports as stranding the card, since applying a label is no terminator; the other templates
  have no dead end.
\<close>

lemma template_dead_ends:
  "map (\<lambda>t. la_strandedSteps (analyzeRoleLifecycle (JObj [(''lifecycle'', JArr (buildLifecycleFromTemplate t))]))) LIFECYCLE_TEMPLATE_KEYS
     = [[], [], [], [''label_documented'']]"
  by code_simp

end
