(* ===== verification/Lifecycle_Draft.thy ===== *)
theory Lifecycle_Draft
  imports Lifecycle_Graph
begin

text \<open>
  The draft of the pipeline editor (\<open>features/agents/hooks/useLifecycleDraft.ts\<close> and
  \<open>components/pipeline-builder/lifecycleDraft.ts\<close>): cloning the server's configuration into a
  draft with drag-and-drop ids, editing it, serialising it back, the local checks, and saving
  under an optimistic version check with its conflict handling. A draft stage is a JSON object
  like the stage it came from. Deep cloning through JSON text is the identity here, and two
  values have the same JSON text when they are equal, key order included. The advisory
  prompt-wiring warnings of the hook are not modelled.
\<close>


section \<open>Draft and wire form\<close>

definition newDndId :: "string \<Rightarrow> nat \<Rightarrow> string" where
  "newDndId prefix counter = prefix @ ''-'' @ show_nat (counter + 1)"

fun clone_steps :: "json list \<Rightarrow> nat \<Rightarrow> json list \<times> nat" where
  "clone_steps [] n = ([], n)"
| "clone_steps (s # ss) n =
     (case clone_steps ss (n + 1) of (rest, n') \<Rightarrow> (with_field ''_dndId'' (JStr (newDndId ''lcstep'' n)) s # rest, n'))"

definition clone_stage :: "json \<Rightarrow> nat \<Rightarrow> json \<times> nat" where
  "clone_stage stage n =
     (case clone_steps (stage_lifecycle stage) n of (steps, n') \<Rightarrow>
        (with_field ''_dndId'' (JStr (newDndId ''lcrole'' n')) (with_field ''lifecycle'' (JArr steps) stage), n' + 1))"

fun clone_stages :: "json list \<Rightarrow> nat \<Rightarrow> json list \<times> nat" where
  "clone_stages [] n = ([], n)"
| "clone_stages (s # ss) n =
     (case clone_stage s n of (d, n1) \<Rightarrow> case clone_stages ss n1 of (ds, n2) \<Rightarrow> (d # ds, n2))"

definition cloneToDraft :: "json option \<Rightarrow> nat \<Rightarrow> json list \<times> nat" where
  "cloneToDraft c n = (case c of None \<Rightarrow> ([], n) | Some cfg \<Rightarrow> clone_stages (config_stages cfg) n)"

definition serialize_step :: "json \<Rightarrow> json" where
  "serialize_step step =
     (let wide = without_field ''_dndId'' step in
      if is_object (jfield wide ''branches'') \<and> obj_entries (jfield wide ''branches'') = []
      then without_field ''branches'' wide else wide)"

definition serialize_stage :: "json \<Rightarrow> json" where
  "serialize_stage d = with_field ''lifecycle'' (JArr (map serialize_step (stage_lifecycle d)))
     (without_field ''lifecycle'' (without_field ''_dndId'' d))"

text \<open>\<open>v ?? fallback\<close>\<close>

definition or_else :: "json option \<Rightarrow> json \<Rightarrow> json" where
  "or_else v d = (case v of None \<Rightarrow> d | Some JNull \<Rightarrow> d | Some x \<Rightarrow> x)"

definition serializePipeline :: "json list \<Rightarrow> json option \<Rightarrow> json" where
  "serializePipeline draft remote =
     (let preserved = (case remote of None \<Rightarrow> JObj [] | Some c \<Rightarrow> c) in
      with_field ''scheduling'' (or_else (jfield preserved ''scheduling'') (JObj [(''priority_order'', JArr []), (''mode'', JStr ''priority'')]))
       (with_field ''stages'' (JArr (map serialize_stage draft))
         (with_field ''version'' (or_else (jfield preserved ''version'') (JNum (Fin 1))) preserved)))"


section \<open>Local checks\<close>

definition repeated_names :: "json list \<Rightarrow> string list" where
  "repeated_names lifecycle = snd (fold (\<lambda>step (names, dups).
     (js_add (step_name step) names, if step_name step \<in> set names then js_add (step_name step) dups else dups)) lifecycle ([], []))"

definition local_step_errors :: "string list \<Rightarrow> string list \<Rightarrow> string \<Rightarrow> json \<Rightarrow> validation_error list" where
  "local_step_errors names dups path step =
     (if step_name step \<in> set dups then [mk_error ''duplicate_step_name'' (path @ ''.name'') None] else []) @
     (if step_next step \<noteq> [] \<and> step_branches step \<noteq> [] then [mk_error ''next_and_branches'' path None] else []) @
     (if step_next step \<noteq> [] \<and> step_next step \<notin> set names then [mk_error ''dangling_next'' (path @ ''.next'') None] else []) @
     map (\<lambda>(k, target). mk_error ''dangling_branch'' (path @ ''.branches.'' @ k) None)
       (filter (\<lambda>(k, target). target \<noteq> [] \<and> target \<notin> set names) (step_branches step))"

definition local_stage_errors :: "nat \<Rightarrow> json \<Rightarrow> validation_error list" where
  "local_stage_errors i stage =
     (let lifecycle = stage_lifecycle stage; names = map step_name lifecycle; dups = repeated_names lifecycle in
      concat (map (\<lambda>j. local_step_errors names dups (indexed (indexed ''stages'' i @ ''.lifecycle'') j) (lifecycle ! j))
        [0..<length lifecycle]))"

definition validateLocal :: "json list \<Rightarrow> validation_error list" where
  "validateLocal draft = concat (map (\<lambda>i. local_stage_errors i (draft ! i)) [0..<length draft])"


section \<open>Editing\<close>

text \<open>Each edit replaces the stage at an index, if there is one.\<close>

definition edit_stage :: "nat \<Rightarrow> (json \<Rightarrow> json) \<Rightarrow> json list \<Rightarrow> json list" where
  "edit_stage idx f prev = (if idx < length prev then prev[idx := f (prev ! idx)] else prev)"

definition setStageSteps :: "nat \<Rightarrow> json list \<Rightarrow> json list \<Rightarrow> json list" where
  "setStageSteps idx steps = edit_stage idx (with_field ''lifecycle'' (JArr steps))"

definition edit_llm :: "(json \<Rightarrow> json) \<Rightarrow> json \<Rightarrow> json" where
  "edit_llm f stage = with_field ''llm'' (f (case jfield stage ''llm'' of Some llm \<Rightarrow> llm | None \<Rightarrow> JObj [])) stage"

definition setStageContextSources :: "nat \<Rightarrow> json list \<Rightarrow> json list \<Rightarrow> json list" where
  "setStageContextSources idx sources = edit_stage idx (edit_llm (with_field ''context_sources'' (JArr sources)))"

definition setStageToolDeny :: "nat \<Rightarrow> string list \<Rightarrow> json list \<Rightarrow> json list" where
  "setStageToolDeny idx deny = edit_stage idx (edit_llm (\<lambda>llm.
     with_field ''tool_policy'' (with_field ''deny'' (JArr (map JStr deny))
       (case jfield llm ''tool_policy'' of Some p \<Rightarrow> p | None \<Rightarrow> JObj [])) llm))"

definition dnd_id :: "json \<Rightarrow> string" where
  "dnd_id stage = str_field stage ''_dndId''"

definition reorderRoles :: "string \<Rightarrow> string \<Rightarrow> json list \<Rightarrow> json list" where
  "reorderRoles fromDndId toDndId prev =
     (case (js_findIndex (\<lambda>s. dnd_id s = fromDndId) prev, js_findIndex (\<lambda>s. dnd_id s = toDndId) prev) of
        (Some oldIdx, Some newIdx) \<Rightarrow>
          let without = take oldIdx prev @ drop (oldIdx + 1) prev in
          take newIdx without @ [prev ! oldIdx] @ drop newIdx without
      | _ \<Rightarrow> prev)"

definition addRole :: "string \<Rightarrow> lifecycle_template \<Rightarrow> json list option \<Rightarrow> nat \<Rightarrow> json list \<times> nat" where
  "addRole name template prev n =
     (case clone_steps (buildLifecycleFromTemplate template) n of (lifecycle, n') \<Rightarrow>
        ((case prev of None \<Rightarrow> [] | Some base \<Rightarrow> base) @
           [JObj ([(''role'', JStr name)] @ buildEmptyStageLegacyBlocks @
              [(''lifecycle'', JArr lifecycle), (''_dndId'', JStr (newDndId ''lcrole'' n'))])], n' + 1))"

definition deleteRole :: "nat \<Rightarrow> json list \<Rightarrow> json list" where
  "deleteRole idx prev = take idx prev @ drop (idx + 1) prev"


section \<open>The hook\<close>

record workspace_config =
  wc_pipeline_config :: "json option"
  wc_version :: nat

record draft_conflict =
  dc_currentVersion :: "jsnum option"
  dc_expectedVersion :: "jsnum option"

record draft_state =
  ds_remote :: "workspace_config option"
  ds_draft :: "json list option"
  ds_serverErrors :: "json list"
  ds_conflict :: "draft_conflict option"
  ds_counter :: nat

record save_request =
  sr_payload :: json
  sr_expected :: nat

text \<open>A rejected save: an \<open>ApiError\<close> with its status, detail and context, or another error; the parsed message if it is JSON.\<close>

record save_error =
  se_api_status :: "int option"
  se_detail :: "json option"
  se_context :: "json option"
  se_message_json :: "json option"

definition parseConflictContext :: "json option \<Rightarrow> draft_conflict" where
  "parseConflictContext context = (case context of
     Some c \<Rightarrow> \<lparr>dc_currentVersion = jnum (jfield c ''current_version''), dc_expectedVersion = jnum (jfield c ''expected_version'')\<rparr>
   | None \<Rightarrow> \<lparr>dc_currentVersion = None, dc_expectedVersion = None\<rparr>)"

definition adopt :: "json option \<Rightarrow> draft_state \<Rightarrow> draft_state" where
  "adopt cfg st = (case cloneToDraft cfg (ds_counter st) of (d, n) \<Rightarrow> st\<lparr>ds_draft := Some d, ds_counter := n\<rparr>)"

definition hydrate :: "draft_state \<Rightarrow> draft_state" where
  "hydrate st = (case (ds_remote st, ds_draft st) of (Some r, None) \<Rightarrow> adopt (wc_pipeline_config r) st | _ \<Rightarrow> st)"

definition draft_dirty :: "draft_state \<Rightarrow> bool" where
  "draft_dirty st = (case ds_remote st of
     None \<Rightarrow> ds_draft st \<noteq> None
   | Some r \<Rightarrow> (case ds_draft st of
       None \<Rightarrow> False
     | Some d \<Rightarrow> wc_pipeline_config r \<noteq> Some (serializePipeline d (wc_pipeline_config r))))"

definition mutate :: "(json list \<Rightarrow> json list) \<Rightarrow> draft_state \<Rightarrow> draft_state" where
  "mutate fn st = st\<lparr>ds_draft := map_option fn (ds_draft st), ds_serverErrors := []\<rparr>"

definition add_role :: "string \<Rightarrow> lifecycle_template \<Rightarrow> draft_state \<Rightarrow> draft_state" where
  "add_role name template st = (case addRole name template (ds_draft st) (ds_counter st) of
     (d, n) \<Rightarrow> st\<lparr>ds_draft := Some d, ds_counter := n, ds_serverErrors := []\<rparr>)"

definition reset_draft :: "draft_state \<Rightarrow> draft_state" where
  "reset_draft st = (case ds_remote st of None \<Rightarrow> st
     | Some r \<Rightarrow> (adopt (wc_pipeline_config r) st)\<lparr>ds_serverErrors := [], ds_conflict := None\<rparr>)"

text \<open>The request \<open>runSave\<close> sends, built from the draft and the remote of the render it was created in.\<close>

definition runSave :: "draft_state \<Rightarrow> nat \<Rightarrow> save_request option" where
  "runSave st expectedVersion = (case (ds_draft st, ds_remote st) of
     (Some d, Some r) \<Rightarrow> Some \<lparr>sr_payload = serializePipeline d (wc_pipeline_config r), sr_expected = expectedVersion\<rparr>
   | _ \<Rightarrow> None)"

definition save :: "draft_state \<Rightarrow> save_request option" where
  "save st = (case ds_remote st of None \<Rightarrow> None | Some r \<Rightarrow> runSave st (wc_version r))"

definition save_succeeded :: "workspace_config \<Rightarrow> draft_state \<Rightarrow> draft_state" where
  "save_succeeded fresh st = (adopt (wc_pipeline_config fresh) st)\<lparr>ds_serverErrors := [], ds_conflict := None\<rparr>"

definition save_failed :: "save_error \<Rightarrow> draft_state \<Rightarrow> draft_state" where
  "save_failed err st =
     (if se_api_status err = Some 409 then st\<lparr>ds_conflict := Some (parseConflictContext (se_context err)), ds_serverErrors := []\<rparr>
      else (case jarr (if se_api_status err \<noteq> None then se_detail err else None) of
          Some errs \<Rightarrow> st\<lparr>ds_serverErrors := errs\<rparr>
        | None \<Rightarrow> (case jarr (se_message_json err) of Some errs \<Rightarrow> st\<lparr>ds_serverErrors := errs\<rparr> | None \<Rightarrow> st)))"

text \<open>After the refetch: the save of the render in which the button was pressed, with the fresh version.\<close>

definition overwriteConflict :: "draft_state \<Rightarrow> workspace_config \<Rightarrow> save_request option" where
  "overwriteConflict captured fresh = runSave captured (wc_version fresh)"

definition clearConflict :: "draft_state \<Rightarrow> draft_state" where
  "clearConflict st = st\<lparr>ds_conflict := None\<rparr>"


section \<open>A fresh draft is clean exactly for canonical configurations\<close>

text \<open>The form in which the editor itself writes a configuration.\<close>

definition canonical_step :: "json \<Rightarrow> bool" where
  "canonical_step s \<longleftrightarrow> (\<exists>kvs. s = JObj kvs \<and> ''_dndId'' \<notin> fst ` set kvs) \<and>
     \<not> (is_object (jfield s ''branches'') \<and> obj_entries (jfield s ''branches'') = [])"

definition canonical_stage :: "json \<Rightarrow> bool" where
  "canonical_stage s \<longleftrightarrow> (\<exists>kvs steps. s = JObj (kvs @ [(''lifecycle'', JArr steps)]) \<and>
     ''lifecycle'' \<notin> fst ` set kvs \<and> ''_dndId'' \<notin> fst ` set kvs \<and> list_all canonical_step steps)"

definition canonical_config :: "json \<Rightarrow> bool" where
  "canonical_config c \<longleftrightarrow> (\<exists>kvs stages. c = JObj kvs \<and> map_of kvs ''stages'' = Some (JArr stages) \<and>
     list_all canonical_stage stages \<and> map_of kvs ''version'' \<notin> {None, Some JNull} \<and> map_of kvs ''scheduling'' \<notin> {None, Some JNull})"

lemmas field_defs = with_field_def without_field_def str_field_def list_field_def stage_lifecycle_def config_stages_def

text \<open>Whatever it is given, the serialiser writes the canonical form.\<close>

lemma serialize_step_canonical: "canonical_step (serialize_step s)"
  by (auto simp: serialize_step_def canonical_step_def without_field_def Let_def)

lemma serialize_stage_canonical: "canonical_stage (serialize_stage d)"
proof -
  let ?rest = "jm_delete ''lifecycle'' (jm_delete ''_dndId'' (obj_kvs d))"
  have "''lifecycle'' \<notin> fst ` set ?rest" "''_dndId'' \<notin> fst ` set ?rest" by auto
  moreover from this have "serialize_stage d = JObj (?rest @ [(''lifecycle'', JArr (map serialize_step (stage_lifecycle d)))])"
    by (simp add: serialize_stage_def with_field_def without_field_def jm_set_fresh)
  moreover have "list_all canonical_step (map serialize_step (stage_lifecycle d))"
    by (simp add: list_all_iff serialize_step_canonical)
  ultimately show ?thesis unfolding canonical_stage_def by blast
qed

lemma or_else_not_null: "d \<noteq> JNull \<Longrightarrow> or_else v d \<noteq> JNull"
  by (auto simp: or_else_def split: option.split json.split)

lemma serialize_canonical: "canonical_config (serializePipeline draft remote)"
proof -
  have "list_all canonical_stage (map serialize_stage draft)" by (simp add: list_all_iff serialize_stage_canonical)
  then show ?thesis
    by (auto simp: serializePipeline_def canonical_config_def with_field_def Let_def or_else_not_null intro!: exI)
qed

text \<open>And from a canonical configuration, cloning and serialising gives it back.\<close>

lemma serialize_cloned_step:
  assumes "canonical_step s"
  shows "serialize_step (with_field ''_dndId'' v s) = s"
proof -
  obtain kvs where s: "s = JObj kvs" and fresh: "''_dndId'' \<notin> fst ` set kvs" using assms by (auto simp: canonical_step_def)
  have "without_field ''_dndId'' (with_field ''_dndId'' v s) = s"
    using fresh by (simp add: s with_field_def without_field_def jm_set_fresh jm_delete_fresh)
  then show ?thesis using assms by (auto simp: serialize_step_def canonical_step_def Let_def)
qed

lemma serialize_cloned_steps: "list_all canonical_step ss \<Longrightarrow> map serialize_step (fst (clone_steps ss n)) = ss"
  by (induction ss n rule: clone_steps.induct) (auto simp: serialize_cloned_step split: prod.split)

lemma serialize_cloned_stage:
  assumes "canonical_stage s"
  shows "serialize_stage (fst (clone_stage s n)) = s"
proof -
  obtain kvs steps where s: "s = JObj (kvs @ [(''lifecycle'', JArr steps)])"
    and fresh: "''lifecycle'' \<notin> fst ` set kvs" "''_dndId'' \<notin> fst ` set kvs" and ok: "list_all canonical_step steps"
    using assms unfolding canonical_stage_def by blast
  obtain steps' n' where cl: "clone_steps steps n = (steps', n')" by fastforce
  have m: "map_of kvs ''lifecycle'' = None" using fresh(1) by (simp add: map_of_eq_None_iff)
  have steps: "stage_lifecycle s = steps" using m by (simp add: s field_defs map_add_def)
  have set: "jm_set ''lifecycle'' v (kvs @ [(''lifecycle'', w)]) = kvs @ [(''lifecycle'', v)]" for v w
    using fresh(1) by (induction kvs) auto
  let ?d = "kvs @ [(''lifecycle'', JArr steps'), (''_dndId'', JStr (newDndId ''lcrole'' n'))]"
  have d: "fst (clone_stage s n) = JObj ?d"
    using fresh steps [unfolded s] by (simp add: clone_stage_def cl s with_field_def set jm_set_fresh)
  have "stage_lifecycle (JObj ?d) = steps'" using m by (simp add: field_defs map_add_def)
  moreover have "map serialize_step steps' = steps" using serialize_cloned_steps [OF ok, of n] cl by simp
  ultimately show ?thesis
    unfolding d using fresh by (simp add: serialize_stage_def with_field_def without_field_def jm_delete_fresh jm_set_fresh s)
qed

lemma serialize_cloned_stages: "list_all canonical_stage ss \<Longrightarrow> map serialize_stage (fst (clone_stages ss n)) = ss"
proof (induction ss n rule: clone_stages.induct)
  case (2 s ss n)
  then show ?case using serialize_cloned_stage [of s n] by (auto split: prod.split)
qed simp

lemma serialize_clone:
  assumes "canonical_config c"
  shows "serializePipeline (fst (cloneToDraft (Some c) n)) (Some c) = c"
proof -
  obtain kvs stages where c: "c = JObj kvs" and st: "map_of kvs ''stages'' = Some (JArr stages)" and ok: "list_all canonical_stage stages"
    and nn: "map_of kvs ''version'' \<notin> {None, Some JNull}" "map_of kvs ''scheduling'' \<notin> {None, Some JNull}"
    using assms unfolding canonical_config_def by blast
  have keep: "jm_set k (or_else (map_of kvs k) d) kvs = kvs" if "map_of kvs k \<notin> {None, Some JNull}" for k d
    using that by (intro jm_set_same) (auto simp: or_else_def split: option.split json.split)
  have "map serialize_stage (fst (cloneToDraft (Some c) n)) = stages"
    using serialize_cloned_stages [OF ok] st by (simp add: cloneToDraft_def c field_defs)
  then show ?thesis
    using nn by (simp add: serializePipeline_def c with_field_def keep jm_set_same st)
qed

text \<open>
  Right after the configuration has been loaded the editor reports no unsaved changes
  exactly when the configuration is in the form the editor writes; serialising the draft then
  gives the loaded configuration back, unknown keys and key order included.
\<close>

lemma fresh_draft_clean_iff:
  assumes "ds_remote st = Some r" and "wc_pipeline_config r = Some c" and "ds_draft st = None"
  shows "\<not> draft_dirty (hydrate st) \<longleftrightarrow> canonical_config c"
proof -
  obtain d n where d: "cloneToDraft (Some c) (ds_counter st) = (d, n)" by fastforce
  have "draft_dirty (hydrate st) \<longleftrightarrow> serializePipeline d (Some c) \<noteq> c"
    using assms by (auto simp: hydrate_def adopt_def draft_dirty_def d)
  then show ?thesis
    using serialize_clone [of c "ds_counter st"] serialize_canonical [of d "Some c"] d by auto
qed

definition sample_remote :: "json \<Rightarrow> draft_state" where
  "sample_remote c = \<lparr>ds_remote = Some \<lparr>wc_pipeline_config = Some c, wc_version = 1\<rparr>, ds_draft = None, ds_serverErrors = [],
     ds_conflict = None, ds_counter = 0\<rparr>"

definition sample_pipeline :: "(string \<times> json) list \<Rightarrow> json" where
  "sample_pipeline extra = JObj ([(''version'', JNum (Fin 3)), (''stages'', JArr [JObj [(''role'', JStr ''r''), (''lifecycle'', JArr [])]]),
     (''scheduling'', JObj [])] @ extra)"

text \<open>
  A loaded configuration with a stage that has no lifecycle, as older stored configurations
  have, is reported as having unsaved changes before anything was edited.
\<close>

lemma legacy_config_dirty:
  assumes "ds_remote st = Some r" and "wc_pipeline_config r = Some c" and "ds_draft st = None"
    and "s \<in> set (config_stages c)" and "jfield s ''lifecycle'' = None"
  shows "draft_dirty (hydrate st)"
proof -
  have "\<not> canonical_stage s" using assms(5) by (auto simp: canonical_stage_def map_add_def split: option.splits)
  then have "\<not> canonical_config c" using assms(4) by (auto simp: canonical_config_def field_defs list_all_iff)
  then have "serializePipeline (fst (cloneToDraft (Some c) (ds_counter st))) (Some c) \<noteq> c" using serialize_canonical by metis
  then show ?thesis using assms(1-3) by (auto simp: hydrate_def adopt_def draft_dirty_def split: prod.split)
qed

definition sample_legacy :: json where
  "sample_legacy = JObj [(''version'', JNum (Fin 2)), (''stages'', JArr [JObj [(''role'', JStr ''r'')]]), (''scheduling'', JObj [])]"

section \<open>Saving against a server that others write to\<close>

text \<open>
  The server keeps a configuration under a version that grows with every write, and accepts a
  save only if it expects the current version. A world is the server, everything it has ever
  held (a read may arrive late), the hook, the requests under way and the overwrites that wait
  for their refetch with the render they were started in.
\<close>

record draft_world =
  dw_server :: workspace_config
  dw_past :: "workspace_config list"
  dw_hook :: draft_state
  dw_saves :: "save_request list"
  dw_overwrites :: "save_request list"
  dw_refetches :: "draft_state list"

definition write_server :: "json option \<Rightarrow> draft_world \<Rightarrow> draft_world" where
  "write_server cfg w = (let s = \<lparr>wc_pipeline_config = cfg, wc_version = wc_version (dw_server w) + 1\<rparr> in
     w\<lparr>dw_server := s, dw_past := s # dw_past w\<rparr>)"

text \<open>The edits of the user.\<close>

inductive draft_edit :: "draft_state \<Rightarrow> draft_state \<Rightarrow> bool" where
  "draft_edit st (mutate (setStageSteps i steps) st)"
| "draft_edit st (mutate (setStageContextSources i sources) st)"
| "draft_edit st (mutate (setStageToolDeny i deny) st)"
| "draft_edit st (mutate (reorderRoles from_id to_id) st)"
| "draft_edit st (mutate (deleteRole i) st)"
| "draft_edit st (add_role name template st)"
| "draft_edit st (reset_draft st)"
| "draft_edit st (clearConflict st)"

inductive draft_step :: "draft_world \<Rightarrow> draft_world \<Rightarrow> bool" where
  edit: "draft_edit (dw_hook w) st \<Longrightarrow> draft_step w (w\<lparr>dw_hook := st\<rparr>)"
| read: "r \<in> set (dw_past w) \<Longrightarrow> draft_step w (w\<lparr>dw_hook := hydrate ((dw_hook w)\<lparr>ds_remote := Some r\<rparr>)\<rparr>)"
| press_save: "save (dw_hook w) = Some q \<Longrightarrow> draft_step w (w\<lparr>dw_saves := q # dw_saves w\<rparr>)"
| accept: "q \<in> set (dw_saves w) \<union> set (dw_overwrites w) \<Longrightarrow> sr_expected q = wc_version (dw_server w) \<Longrightarrow>
    draft_step w (write_server (Some (sr_payload q)) w)"
| succeeded: "fresh \<in> set (dw_past w) \<Longrightarrow> draft_step w (w\<lparr>dw_hook := save_succeeded fresh (dw_hook w)\<rparr>)"
| failed: "draft_step w (w\<lparr>dw_hook := save_failed err (dw_hook w)\<rparr>)"
| press_overwrite: "draft_step w (w\<lparr>dw_refetches := dw_hook w # dw_refetches w\<rparr>)"
| refetched: "captured \<in> set (dw_refetches w) \<Longrightarrow> fresh \<in> set (dw_past w) \<Longrightarrow> overwriteConflict captured fresh = Some q \<Longrightarrow>
    draft_step w (w\<lparr>dw_hook := (dw_hook w)\<lparr>ds_remote := Some fresh\<rparr>, dw_overwrites := q # dw_overwrites w\<rparr>)"
| other_writer: "draft_step w (write_server cfg w)"

inductive draft_reachable :: "draft_world \<Rightarrow> bool" where
  init: "dw_past w = [dw_server w] \<Longrightarrow> ds_remote (dw_hook w) = None \<Longrightarrow> ds_draft (dw_hook w) = None \<Longrightarrow> dw_saves w = [] \<Longrightarrow>
    dw_overwrites w = [] \<Longrightarrow> dw_refetches w = [] \<Longrightarrow> draft_reachable w"
| step: "draft_reachable w \<Longrightarrow> draft_step w w' \<Longrightarrow> draft_reachable w'"

text \<open>What the server has held, the newest first, under strictly falling versions; the hook has read one of them.\<close>

definition history_ok :: "draft_world \<Rightarrow> bool" where
  "history_ok w \<longleftrightarrow> (\<exists>older. dw_past w = dw_server w # older \<and> list_all (\<lambda>r. wc_version r < wc_version (dw_server w)) older)"

definition based_on_past :: "draft_world \<Rightarrow> save_request \<Rightarrow> bool" where
  "based_on_past w q \<longleftrightarrow> (\<exists>d. \<exists>r\<in>set (dw_past w). sr_expected q = wc_version r \<and> sr_payload q = serializePipeline d (wc_pipeline_config r))"

definition saves_ok :: "draft_world \<Rightarrow> bool" where
  "saves_ok w \<longleftrightarrow> history_ok w \<and> (\<forall>r. ds_remote (dw_hook w) = Some r \<longrightarrow> r \<in> set (dw_past w)) \<and> list_all (based_on_past w) (dw_saves w)"

lemma remote_kept [simp]:
  "ds_remote (adopt cfg st) = ds_remote st" "ds_remote (mutate f st) = ds_remote st" "ds_remote (add_role nm t st) = ds_remote st"
  "ds_remote (reset_draft st) = ds_remote st" "ds_remote (clearConflict st) = ds_remote st" "ds_remote (hydrate st) = ds_remote st"
  "ds_remote (save_succeeded fresh st) = ds_remote st" "ds_remote (save_failed err st) = ds_remote st"
  by (simp_all add: adopt_def mutate_def add_role_def reset_draft_def clearConflict_def hydrate_def save_succeeded_def save_failed_def
      split: prod.split option.split)

lemma edit_remote: "draft_edit st st' \<Longrightarrow> ds_remote st' = ds_remote st"
  by (cases rule: draft_edit.cases) auto

lemma write_server_ok: "saves_ok w \<Longrightarrow> saves_ok (write_server cfg w)"
  by (auto simp: saves_ok_def history_ok_def write_server_def Let_def based_on_past_def list_all_iff) force+

lemma based_on_past_unchanged [simp]:
  "based_on_past (w\<lparr>dw_hook := h\<rparr>) = based_on_past w" "based_on_past (w\<lparr>dw_saves := ss\<rparr>) = based_on_past w"
  "based_on_past (w\<lparr>dw_refetches := rs\<rparr>) = based_on_past w" "based_on_past (w\<lparr>dw_hook := h, dw_overwrites := os\<rparr>) = based_on_past w"
  by (simp_all add: based_on_past_def fun_eq_iff)

lemma save_based: "saves_ok w \<Longrightarrow> save (dw_hook w) = Some q \<Longrightarrow> based_on_past w q"
proof -
  assume ok: "saves_ok w" and "save (dw_hook w) = Some q"
  then obtain d r where "ds_remote (dw_hook w) = Some r" "q = \<lparr>sr_payload = serializePipeline d (wc_pipeline_config r), sr_expected = wc_version r\<rparr>"
    by (auto simp: save_def runSave_def split: option.splits)
  then show ?thesis using ok unfolding saves_ok_def based_on_past_def by (metis save_request.select_convs)
qed

lemma saves_ok_step: "draft_step w w' \<Longrightarrow> saves_ok w \<Longrightarrow> saves_ok w'"
proof (induction rule: draft_step.induct)
  case (press_save w q)
  then show ?case using save_based by (auto simp: saves_ok_def history_ok_def)
qed (auto simp: saves_ok_def history_ok_def edit_remote write_server_ok [unfolded saves_ok_def history_ok_def])

lemma reachable_saves_ok: "draft_reachable w \<Longrightarrow> saves_ok w"
proof (induction rule: draft_reachable.induct)
  case (step w w')
  then show ?case using saves_ok_step by blast
qed (simp add: saves_ok_def history_ok_def)

lemma serialize_foreign_key: "k \<notin> {''version'', ''stages'', ''scheduling''} \<Longrightarrow>
    jfield (serializePipeline d cfg) k = Option.bind cfg (\<lambda>c. jfield c k)"
  by (cases cfg) (auto simp: serializePipeline_def Let_def jfield_obj_kvs)

text \<open>
  C12. A plain save never reverts what others own: whenever the server is about to accept a save
  of the editor, every top-level key other than the stages, the version and the scheduling
  block has in the payload the value it has on the server at that moment.
\<close>

theorem save_preserves_policy:
  assumes "draft_reachable w" and "q \<in> set (dw_saves w)" and "sr_expected q = wc_version (dw_server w)"
    and "k \<notin> {''version'', ''stages'', ''scheduling''}"
  shows "jfield (sr_payload q) k = Option.bind (wc_pipeline_config (dw_server w)) (\<lambda>c. jfield c k)"
proof -
  have ok: "saves_ok w" using assms(1) by (rule reachable_saves_ok)
  then obtain d r where r: "r \<in> set (dw_past w)" "sr_expected q = wc_version r"
    and p: "sr_payload q = serializePipeline d (wc_pipeline_config r)"
    using assms(2) by (auto simp: saves_ok_def list_all_iff based_on_past_def)
  have "r = dw_server w" using ok r assms(3) by (auto simp: saves_ok_def history_ok_def list_all_iff)
  then show ?thesis using serialize_foreign_key [OF assms(4)] p by simp
qed

text \<open>A run in which another administrator locks the roles while the editor is open.\<close>

definition policy_config :: "bool \<Rightarrow> json" where
  "policy_config locked = sample_pipeline [(''lock_roles'', JBool locked)]"

definition draft_run0 :: draft_world where
  "draft_run0 = (let s = \<lparr>wc_pipeline_config = Some (policy_config False), wc_version = 1\<rparr> in
     \<lparr>dw_server = s, dw_past = [s],
      dw_hook = \<lparr>ds_remote = None, ds_draft = None, ds_serverErrors = [], ds_conflict = None, ds_counter = 0\<rparr>,
      dw_saves = [], dw_overwrites = [], dw_refetches = []\<rparr>)"

definition draft_run1 :: draft_world where
  "draft_run1 = draft_run0\<lparr>dw_hook := hydrate ((dw_hook draft_run0)\<lparr>ds_remote := Some (dw_server draft_run0)\<rparr>)\<rparr>"

definition draft_run2 :: draft_world where
  "draft_run2 = draft_run1\<lparr>dw_saves := [the (save (dw_hook draft_run1))]\<rparr>"

definition draft_run3 :: draft_world where
  "draft_run3 = write_server (Some (policy_config True)) draft_run2"

definition conflict_error :: save_error where
  "conflict_error = \<lparr>se_api_status = Some 409, se_detail = None, se_context = None, se_message_json = None\<rparr>"

definition draft_run4 :: draft_world where
  "draft_run4 = draft_run3\<lparr>dw_hook := save_failed conflict_error (dw_hook draft_run3)\<rparr>"

definition draft_run5 :: draft_world where
  "draft_run5 = draft_run4\<lparr>dw_refetches := [dw_hook draft_run4]\<rparr>"

definition draft_run6 :: draft_world where
  "draft_run6 = draft_run5\<lparr>dw_hook := (dw_hook draft_run5)\<lparr>ds_remote := Some (dw_server draft_run5)\<rparr>,
     dw_overwrites := [the (overwriteConflict (dw_hook draft_run4) (dw_server draft_run5))]\<rparr>"

lemma draft_run2_reachable: "draft_reachable draft_run2"
proof -
  have "draft_reachable draft_run0" by (rule draft_reachable.init) (simp_all add: draft_run0_def Let_def)
  moreover have "draft_step draft_run0 draft_run1"
    unfolding draft_run1_def by (rule draft_step.read) (simp add: draft_run0_def Let_def)
  moreover have "draft_step draft_run1 draft_run2"
  proof -
    have "save (dw_hook draft_run1) = Some (the (save (dw_hook draft_run1)))" "dw_saves draft_run1 = []" by code_simp+
    then show ?thesis using draft_step.press_save [of draft_run1] unfolding draft_run2_def by metis
  qed
  ultimately show ?thesis using draft_reachable.step by blast
qed

lemma draft_run6_reachable: "draft_reachable draft_run6"
proof -
  have "draft_step draft_run2 draft_run3" unfolding draft_run3_def by (rule draft_step.other_writer)
  moreover have "draft_step draft_run3 draft_run4" unfolding draft_run4_def by (rule draft_step.failed)
  moreover have "draft_step draft_run4 draft_run5"
  proof -
    have "dw_refetches draft_run4 = []" by code_simp
    then show ?thesis using draft_step.press_overwrite [of draft_run4] unfolding draft_run5_def by metis
  qed
  moreover have "draft_step draft_run5 draft_run6"
  proof -
    have "overwriteConflict (dw_hook draft_run4) (dw_server draft_run5) = Some (the (overwriteConflict (dw_hook draft_run4) (dw_server draft_run5)))"
      "dw_overwrites draft_run5 = []" "dw_server draft_run5 \<in> set (dw_past draft_run5)" by code_simp+
    moreover have "dw_hook draft_run4 \<in> set (dw_refetches draft_run5)" by (simp add: draft_run5_def)
    ultimately show ?thesis using draft_step.refetched [of "dw_hook draft_run4" draft_run5 "dw_server draft_run5"] unfolding draft_run6_def by metis
  qed
  ultimately show ?thesis using draft_run2_reachable draft_reachable.step by blast
qed

theorem save_preserves_policy_witness:
  "jfield (sr_payload (hd (dw_saves draft_run2))) ''lock_roles'' =
     Option.bind (wc_pipeline_config (dw_server draft_run2)) (\<lambda>c. jfield c ''lock_roles'')"
proof -
  have "hd (dw_saves draft_run2) \<in> set (dw_saves draft_run2)" "sr_expected (hd (dw_saves draft_run2)) = wc_version (dw_server draft_run2)"
    by code_simp+
  then show ?thesis using save_preserves_policy [OF draft_run2_reachable, of _ "''lock_roles''"] by simp
qed

text \<open>
  Overwriting after a conflict does revert it: the payload is built from the configuration
  the editor had read before the refetch, so the server can come to accept a payload in which
  the lock of the roles that another administrator has just set is undone.
\<close>

lemma overwrite_reverts_policy:
  "\<exists>w q. draft_reachable w \<and> q \<in> set (dw_overwrites w) \<and> sr_expected q = wc_version (dw_server w) \<and>
     jfield (sr_payload q) ''lock_roles'' = Some (JBool False) \<and>
     Option.bind (wc_pipeline_config (dw_server w)) (\<lambda>c. jfield c ''lock_roles'') = Some (JBool True)"
proof (intro exI conjI)
  show "draft_reachable draft_run6" by (rule draft_run6_reachable)
  show "hd (dw_overwrites draft_run6) \<in> set (dw_overwrites draft_run6)" by code_simp
  show "sr_expected (hd (dw_overwrites draft_run6)) = wc_version (dw_server draft_run6)" by code_simp
  show "jfield (sr_payload (hd (dw_overwrites draft_run6))) ''lock_roles'' = Some (JBool False)" by code_simp
  show "Option.bind (wc_pipeline_config (dw_server draft_run6)) (\<lambda>c. jfield c ''lock_roles'') = Some (JBool True)" by code_simp
qed


section \<open>The shape of a draft\<close>

text \<open>Every stage of a draft is an object with its lifecycle array and a role id of its own.\<close>

definition role_shape :: "nat \<Rightarrow> nat \<Rightarrow> json \<Rightarrow> bool" where
  "role_shape lo hi s \<longleftrightarrow> jarr (jfield s ''lifecycle'') \<noteq> None \<and>
     (\<exists>k. lo \<le> k \<and> k < hi \<and> jfield s ''_dndId'' = Some (JStr (newDndId ''lcrole'' k)))"

definition draft_shape :: "nat \<Rightarrow> nat \<Rightarrow> json list \<Rightarrow> bool" where
  "draft_shape lo hi d \<longleftrightarrow> list_all (role_shape lo hi) d \<and> distinct (map dnd_id d)"

lemma dnd_id_shape: "role_shape lo hi s \<Longrightarrow> \<exists>k. lo \<le> k \<and> k < hi \<and> dnd_id s = newDndId ''lcrole'' k"
  by (auto simp: role_shape_def dnd_id_def str_field_def)

lemma newDndId_inject [simp]: "newDndId p k = newDndId p l \<longleftrightarrow> k = l"
  by (simp add: newDndId_def)

lemma role_shape_mono: "role_shape lo hi s \<Longrightarrow> lo' \<le> lo \<Longrightarrow> hi \<le> hi' \<Longrightarrow> role_shape lo' hi' s"
  unfolding role_shape_def by (meson le_trans less_le_trans)

lemma draft_shape_append:
  assumes "draft_shape lo mid xs" and "draft_shape mid hi ys" and "lo \<le> mid" and "mid \<le> hi"
  shows "draft_shape lo hi (xs @ ys)"
proof -
  have "dnd_id x \<noteq> dnd_id y" if "x \<in> set xs" "y \<in> set ys" for x y
  proof -
    have "role_shape lo mid x" "role_shape mid hi y" using assms(1,2) that by (auto simp: draft_shape_def list_all_iff)
    then show ?thesis using dnd_id_shape [of lo mid x] dnd_id_shape [of mid hi y] by auto
  qed
  then show ?thesis using assms role_shape_mono unfolding draft_shape_def list_all_iff by fastforce
qed

lemma clone_steps_count: "snd (clone_steps ss n) = n + length ss"
  by (induction ss n rule: clone_steps.induct) (auto split: prod.splits)

lemma clone_stage_shape: "n < snd (clone_stage s n) \<and> draft_shape n (snd (clone_stage s n)) [fst (clone_stage s n)]"
proof -
  obtain steps n' where cl: "clone_steps (stage_lifecycle s) n = (steps, n')" by fastforce
  then have "n \<le> n'" using clone_steps_count [of "stage_lifecycle s" n] by simp
  then show ?thesis by (auto simp: clone_stage_def cl draft_shape_def role_shape_def)
qed

lemma clone_stages_shape: "n \<le> snd (clone_stages ss n) \<and> draft_shape n (snd (clone_stages ss n)) (fst (clone_stages ss n))"
proof (induction ss n rule: clone_stages.induct)
  case (2 s ss n)
  obtain d n1 where d: "clone_stage s n = (d, n1)" by fastforce
  obtain ds n2 where ds: "clone_stages ss n1 = (ds, n2)" by fastforce
  have "n \<le> n1" "draft_shape n n1 [d]" using clone_stage_shape [of n s] d by auto
  moreover have "n1 \<le> n2" "draft_shape n1 n2 ds" using 2 d ds by auto
  ultimately show ?case using draft_shape_append [of n n1 "[d]" n2 ds] d ds by simp
qed (simp add: draft_shape_def)

lemma edit_stage_shape:
  assumes "draft_shape lo hi d" and "\<And>s. role_shape lo hi s \<Longrightarrow> role_shape lo hi (f s) \<and> dnd_id (f s) = dnd_id s"
  shows "draft_shape lo hi (edit_stage i f d)"
proof (cases "i < length d")
  case True
  then have "role_shape lo hi (d ! i)" using assms(1) by (simp add: draft_shape_def list_all_length)
  then have f: "role_shape lo hi (f (d ! i))" "dnd_id (f (d ! i)) = dnd_id (d ! i)" using assms(2) by auto
  have "map dnd_id (d[i := f (d ! i)]) = map dnd_id d" using f(2) by (metis list_update_id map_update)
  then show ?thesis
    using True f assms(1) by (auto simp: edit_stage_def draft_shape_def list_all_iff dest!: subsetD [OF set_update_subset_insert])
qed (simp add: edit_stage_def assms(1))

lemma with_field_shape: "k \<notin> {''_dndId'', ''lifecycle''} \<or> k = ''lifecycle'' \<and> jarr (Some v) \<noteq> None \<Longrightarrow> role_shape lo hi s \<Longrightarrow>
    role_shape lo hi (with_field k v s) \<and> dnd_id (with_field k v s) = dnd_id s"
  by (auto simp: role_shape_def dnd_id_def str_field_def jfield_obj_kvs)

lemma splice_perm:
  assumes "i < length d"
  shows "mset (take j (take i d @ drop (i + 1) d) @ [d ! i] @ drop j (take i d @ drop (i + 1) d)) = mset d"
proof -
  define w where "w = take i d @ drop (i + 1) d"
  have "mset (take j w) + mset (drop j w) = mset w" by (metis append_take_drop_id mset_append)
  moreover have "mset d = add_mset (d ! i) (mset w)"
    using arg_cong [OF id_take_nth_drop [OF assms], of mset] by (simp add: w_def)
  ultimately show ?thesis unfolding w_def [symmetric] by simp
qed

lemma reorder_perm: "mset (reorderRoles a b d) = mset d"
proof (cases "js_findIndex (\<lambda>s. dnd_id s = a) d = None \<or> js_findIndex (\<lambda>s. dnd_id s = b) d = None")
  case False
  then obtain i j where "js_findIndex (\<lambda>s. dnd_id s = a) d = Some i" "js_findIndex (\<lambda>s. dnd_id s = b) d = Some j" by auto
  then show ?thesis using splice_perm [OF js_findIndex_less, of _ d i j] by (simp add: reorderRoles_def Let_def)
qed (auto simp: reorderRoles_def split: option.split)

lemma shape_mset: "draft_shape lo hi d \<Longrightarrow> mset d' = mset d \<Longrightarrow> draft_shape lo hi d'"
  using distinct_map_mset [of d' d dnd_id] mset_eq_setD [of d' d] by (simp add: draft_shape_def list_all_iff)

lemma delete_shape: "draft_shape lo hi d \<Longrightarrow> draft_shape lo hi (deleteRole i d)"
proof -
  assume ok: "draft_shape lo hi d"
  then have "set (take i (map dnd_id d)) \<inter> set (drop (i + 1) (map dnd_id d)) = {}"
    by (intro set_take_disj_set_drop_if_distinct) (simp_all add: draft_shape_def)
  moreover have "map dnd_id (deleteRole i d) = take i (map dnd_id d) @ drop (i + 1) (map dnd_id d)"
    by (simp add: deleteRole_def take_map drop_map)
  ultimately have "distinct (map dnd_id (deleteRole i d))" using ok by (simp add: draft_shape_def)
  moreover have "set (deleteRole i d) \<subseteq> set d" by (auto simp: deleteRole_def dest: in_set_takeD in_set_dropD)
  ultimately show ?thesis using ok by (auto simp: draft_shape_def list_all_iff)
qed

lemma addRole_shape:
  assumes "draft_shape 0 n d"
  shows "n \<le> snd (addRole nm t (Some d) n) \<and> draft_shape 0 (snd (addRole nm t (Some d) n)) (fst (addRole nm t (Some d) n))"
proof -
  obtain steps n' where cl: "clone_steps (buildLifecycleFromTemplate t) n = (steps, n')" by fastforce
  then have le: "n \<le> n'" using clone_steps_count [of "buildLifecycleFromTemplate t" n] by simp
  have "draft_shape n (n' + 1) [JObj ([(''role'', JStr nm)] @ buildEmptyStageLegacyBlocks @
      [(''lifecycle'', JArr steps), (''_dndId'', JStr (newDndId ''lcrole'' n'))])]"
    using le by (auto simp: draft_shape_def role_shape_def buildEmptyStageLegacyBlocks_def)
  then show ?thesis using draft_shape_append [OF assms] le by (simp add: addRole_def cl)
qed

definition hook_shape :: "draft_state \<Rightarrow> bool" where
  "hook_shape st \<longleftrightarrow> (\<forall>d. ds_draft st = Some d \<longrightarrow> draft_shape 0 (ds_counter st) d)"

lemma adopt_shape: "hook_shape (adopt cfg st)"
proof (cases cfg)
  case (Some c)
  have "draft_shape n (snd (clone_stages ss n)) (fst (clone_stages ss n))" for ss n using clone_stages_shape by blast
  then have "draft_shape 0 (snd (clone_stages ss n)) (fst (clone_stages ss n))" for ss n
    unfolding draft_shape_def list_all_iff using role_shape_mono [OF _ le0 order_refl] by meson
  then show ?thesis by (auto simp: Some hook_shape_def adopt_def cloneToDraft_def split: prod.split) (metis fst_conv snd_conv)
qed (simp add: hook_shape_def adopt_def cloneToDraft_def draft_shape_def)

lemma mutate_shape: "hook_shape st \<Longrightarrow> (\<And>lo hi d. draft_shape lo hi d \<Longrightarrow> draft_shape lo hi (f d)) \<Longrightarrow> hook_shape (mutate f st)"
  by (auto simp: hook_shape_def mutate_def)

lemma add_role_shape: "hook_shape st \<Longrightarrow> hook_shape (add_role nm t st)"
proof -
  assume ok: "hook_shape st"
  have none: "addRole nm t None n = addRole nm t (Some []) n" for n by (simp add: addRole_def)
  obtain d where d: "draft_shape 0 (ds_counter st) d" "addRole nm t (ds_draft st) (ds_counter st) = addRole nm t (Some d) (ds_counter st)"
  proof (cases "ds_draft st")
    case None
    then show ?thesis using that [of "[]"] none by (simp add: draft_shape_def)
  next
    case (Some d)
    then show ?thesis using that [of d] ok by (simp add: hook_shape_def)
  qed
  then show ?thesis using addRole_shape [OF d(1), of nm t] by (auto simp: hook_shape_def add_role_def split: prod.split)
qed

lemma edit_llm_shape: "role_shape lo hi s \<Longrightarrow> role_shape lo hi (edit_llm f s) \<and> dnd_id (edit_llm f s) = dnd_id s"
  unfolding edit_llm_def by (rule with_field_shape) simp_all

lemma draft_edit_shape: "draft_edit st st' \<Longrightarrow> hook_shape st \<Longrightarrow> hook_shape st'"
proof (induction rule: draft_edit.induct)
  case (1 st i steps)
  then show ?case unfolding setStageSteps_def by (intro mutate_shape edit_stage_shape with_field_shape) simp_all
next
  case (2 st i sources)
  then show ?case unfolding setStageContextSources_def by (intro mutate_shape edit_stage_shape edit_llm_shape) simp_all
next
  case (3 st i deny)
  then show ?case unfolding setStageToolDeny_def by (intro mutate_shape edit_stage_shape edit_llm_shape) simp_all
next
  case (4 st a b)
  then show ?case using shape_mset reorder_perm by (intro mutate_shape) blast+
next
  case (5 st i)
  then show ?case using delete_shape by (intro mutate_shape) blast+
next
  case (7 st)
  then show ?case using adopt_shape by (auto simp: reset_draft_def hook_shape_def split: option.split)
next
  case (8 st)
  then show ?case by (simp add: clearConflict_def hook_shape_def)
qed (rule add_role_shape)

text \<open>
  C13. However the draft was loaded, edited, reset or saved, each of its stages is an object with
  a lifecycle array and a drag-and-drop id, and no two stages share an id.
\<close>

theorem draft_wellformed:
  assumes "draft_reachable w" and "ds_draft (dw_hook w) = Some d"
  shows "list_all (\<lambda>s. jarr (jfield s ''lifecycle'') \<noteq> None \<and> jstr (jfield s ''_dndId'') \<noteq> None) d \<and> distinct (map dnd_id d)"
proof -
  have "hook_shape (dw_hook w)"
    using assms(1)
  proof (induction rule: draft_reachable.induct)
    case (step w w')
    from step(2,3) show ?case
    proof (induction rule: draft_step.induct)
      case (edit w st)
      then show ?case using draft_edit_shape by simp
    next
      case (read r w)
      then show ?case using adopt_shape by (auto simp: hydrate_def hook_shape_def split: option.split)
    next
      case (succeeded fresh w)
      then show ?case using adopt_shape by (auto simp: save_succeeded_def hook_shape_def)
    next
      case (failed w err)
      then show ?case by (auto simp: save_failed_def hook_shape_def split: option.splits)
    qed (auto simp: write_server_def Let_def hook_shape_def)
  qed (simp add: hook_shape_def)
  then have "draft_shape 0 (ds_counter (dw_hook w)) d" using assms(2) by (simp add: hook_shape_def)
  then show ?thesis by (auto simp: draft_shape_def list_all_iff role_shape_def)
qed

theorem draft_wellformed_witness:
  "distinct (map dnd_id (the (ds_draft (dw_hook draft_run6))))"
proof -
  have "ds_draft (dw_hook draft_run6) = Some (the (ds_draft (dw_hook draft_run6)))" by code_simp
  then show ?thesis using draft_wellformed [OF draft_run6_reachable] by blast
qed


section \<open>Local checks against the graph\<close>

text \<open>
  The editor's own check and the graph agree on dangling targets up to error routes: in a
  draft without local errors, a target that the graph reports as dangling is the error route of
  some step or an empty branch target, neither of which the local check looks at.
\<close>

lemma local_check_dangling:
  assumes "validateLocal draft = []" and "stage \<in> set draft" and "m \<in> set (la_danglingTargets (analyzeRoleLifecycle stage))"
  shows "m = [] \<or> (\<exists>step\<in>set (stage_lifecycle stage). step_on_failure step = m)"
proof -
  obtain n where "transition (stage_lifecycle stage) n m" and out: "m \<notin> step_name ` set (stage_lifecycle stage)"
    using assms(3) by (auto simp: dangling_targets)
  then obtain step where step: "step \<in> set (stage_lifecycle stage)" "m \<in> set (ways_out step)" by (auto simp: transition_ways)
  obtain i where i: "i < length draft" "draft ! i = stage" using assms(2) by (auto simp: in_set_conv_nth)
  then have "local_stage_errors i stage = []" using assms(1) by (auto simp: validateLocal_def)
  moreover obtain j where "j < length (stage_lifecycle stage)" "stage_lifecycle stage ! j = step"
    using step(1) by (auto simp: in_set_conv_nth)
  ultimately have "local_step_errors (map step_name (stage_lifecycle stage)) (repeated_names (stage_lifecycle stage))
      (indexed (indexed ''stages'' i @ ''.lifecycle'') j) step = []"
    by (auto simp: local_stage_errors_def Let_def)
  then show ?thesis
    using step out by (auto simp: local_step_errors_def ways_out_def filter_empty_conv split: if_splits)
qed

definition dangling_stage :: json where
  "dangling_stage = JObj [(''lifecycle'', JArr [JObj [(''name'', JStr ''a''), (''kind'', JStr ''end''), (''on_failure'', JStr ''gone'')]])]"

end
