(* ===== verification/Template_Draft.thy ===== *)
theory Template_Draft
  imports JS_Prelude
begin

text \<open>
  The autosaved draft of a loop template (\<open>features/loop-templates/hooks/useTemplateDraft.ts\<close>):
  hydration from the server row, edits at a dotted path, the debounced save under an optimistic
  lock token, flush and reload. The hook's refs are the state; the React state that mirrors them
  for rendering follows them and is left out, as are the toasts. Timestamps are natural numbers,
  which the code only compares. Whether the store is read-only (system template, or no admin
  role) is fixed while it is open. Requests, the answers under way and the server row are part
  of the modelled world, so a reader sees every interleaving of edits, timers and answers.
\<close>


section \<open>Paths\<close>

fun plain_object :: "json option \<Rightarrow> json" where
  "plain_object (Some (JObj kvs)) = JObj kvs"
| "plain_object _ = JObj []"

fun setPath :: "json \<Rightarrow> string list \<Rightarrow> json \<Rightarrow> json" where
  "setPath target [] v = with_field [] v target"
| "setPath target [h] v = with_field h v target"
| "setPath target (h # rest) v = with_field h (setPath (plain_object (jfield target h)) rest v) target"

text \<open>Reading at a path.\<close>

fun getPath :: "json \<Rightarrow> string list \<Rightarrow> json option" where
  "getPath target [] = Some target"
| "getPath target (h # rest) = Option.bind (jfield target h) (\<lambda>c. getPath c rest)"

lemma setPath_Cons: "rest \<noteq> [] \<Longrightarrow> setPath target (h # rest) v = with_field h (setPath (plain_object (jfield target h)) rest v) target"
  by (cases rest) auto

text \<open>Two paths of which neither continues the other.\<close>

fun diverge :: "string list \<Rightarrow> string list \<Rightarrow> bool" where
  "diverge (a # p) (b # q) = (a \<noteq> b \<or> diverge p q)"
| "diverge _ _ = False"

lemma getPath_plain: "q \<noteq> [] \<Longrightarrow> getPath (plain_object (Some c)) q = getPath c q"
  by (cases "Some c" rule: plain_object.cases; cases q) auto


section \<open>The store\<close>

record template_detail =
  dt_id :: string
  dt_name :: string
  dt_profile :: "(string \<times> json) list option"
  dt_content :: "(string \<times> json) list option"
  dt_draft_updated_at :: "nat option"
  dt_updated_at :: "nat option"

definition field_copy :: "(string \<times> json) list option \<Rightarrow> json" where
  "field_copy p = JObj (case p of Some kvs \<Rightarrow> kvs | None \<Rightarrow> [])"

definition toDraft :: "template_detail \<Rightarrow> json" where
  "toDraft d = JObj [(''name'', JStr (dt_name d)), (''profile'', field_copy (dt_profile d)), (''content'', field_copy (dt_content d))]"

definition hydration_stamp :: "template_detail \<Rightarrow> string \<times> nat option" where
  "hydration_stamp d = (dt_id d, case dt_draft_updated_at d of Some t \<Rightarrow> Some t | None \<Rightarrow> dt_updated_at d)"

text \<open>
  The refs of the hook. The draft carries an identity, fresh for every new object, since the
  save compares objects by reference.
\<close>

record template_store =
  ts_readOnly :: bool
  ts_draft :: "(nat \<times> json) option"
  ts_dirty :: bool
  ts_conflict :: bool
  ts_lockToken :: "nat option"
  ts_hydratedFrom :: "(string \<times> nat option) option"
  ts_timer :: bool
  ts_fresh :: nat

record template_request =
  tr_draft :: "nat \<times> json"
  tr_expected :: "nat option"

definition put_draft :: "json \<Rightarrow> template_store \<Rightarrow> template_store" where
  "put_draft d st = st\<lparr>ts_draft := Some (ts_fresh st, d), ts_fresh := ts_fresh st + 1\<rparr>"

definition hydrate_template :: "template_detail \<Rightarrow> template_store \<Rightarrow> template_store" where
  "hydrate_template detail st =
     (if ts_hydratedFrom st = Some (hydration_stamp detail) then st
      else if ts_dirty st \<or> ts_conflict st then st
      else (put_draft (toDraft detail) st)\<lparr>ts_hydratedFrom := Some (hydration_stamp detail), ts_lockToken := dt_draft_updated_at detail\<rparr>)"

definition persist :: "template_store \<Rightarrow> template_request option" where
  "persist st = (case ts_draft st of
     None \<Rightarrow> None
   | Some pending \<Rightarrow> if ts_readOnly st \<or> ts_conflict st then None
       else Some \<lparr>tr_draft = pending, tr_expected = ts_lockToken st\<rparr>)"

definition persisted :: "template_request \<Rightarrow> template_detail \<Rightarrow> template_store \<Rightarrow> template_store" where
  "persisted q saved st =
     st\<lparr>ts_lockToken := dt_draft_updated_at saved, ts_hydratedFrom := Some (hydration_stamp saved),
        ts_dirty := (if map_option fst (ts_draft st) = Some (fst (tr_draft q)) then False else ts_dirty st)\<rparr>"

text \<open>A 409 latches the conflict, any other failure leaves the store as it is.\<close>

definition persist_rejected :: "int option \<Rightarrow> template_store \<Rightarrow> template_store" where
  "persist_rejected status st = (if status = Some 409 then st\<lparr>ts_conflict := True\<rparr> else st)"

definition setField :: "string \<Rightarrow> json \<Rightarrow> template_store \<Rightarrow> template_store" where
  "setField path v st =
     (if ts_readOnly st \<or> ts_conflict st then st
      else case ts_draft st of
        None \<Rightarrow> st
      | Some (_, current) \<Rightarrow> (put_draft (setPath current (js_split CHR ''.'' path) v) st)\<lparr>ts_dirty := True, ts_timer := True\<rparr>)"

definition timer_fires :: "template_store \<Rightarrow> template_store \<times> template_request option" where
  "timer_fires st = (let st' = st\<lparr>ts_timer := False\<rparr> in (st', persist st'))"

definition flush :: "template_store \<Rightarrow> template_store \<times> template_request option" where
  "flush st = (let st' = st\<lparr>ts_timer := False\<rparr> in (st', if ts_dirty st' then persist st' else None))"

text \<open>Reload: what happens at once, and what the refetch adds when it brings a row.\<close>

definition reload_start :: "template_store \<Rightarrow> template_store" where
  "reload_start st = st\<lparr>ts_timer := False, ts_dirty := False, ts_conflict := False, ts_hydratedFrom := None\<rparr>"

definition reload_done :: "template_detail option \<Rightarrow> template_store \<Rightarrow> template_store" where
  "reload_done result st = (case result of None \<Rightarrow> st
     | Some detail \<Rightarrow> (put_draft (toDraft detail) st)\<lparr>ts_lockToken := dt_draft_updated_at detail, ts_hydratedFrom := Some (hydration_stamp detail)\<rparr>)"


section \<open>The store and its server\<close>

text \<open>
  The world: the store, the row the server holds first among all it has held, the saves sent and
  not yet decided, the one the server accepted whose answer is under way, and those it refused.
\<close>

record template_world =
  tw_store :: template_store
  tw_past :: "template_detail list"
  tw_inflight :: "template_request list"
  tw_accepted :: "(template_request \<times> template_detail) list"
  tw_refused :: nat

definition tw_server :: "template_world \<Rightarrow> template_detail" where
  "tw_server w = hd (tw_past w)"

text \<open>The row the server stores for a save.\<close>

definition stores :: "template_request \<Rightarrow> template_detail \<Rightarrow> bool" where
  "stores q row \<longleftrightarrow> jfield (snd (tr_draft q)) ''name'' = Some (JStr (dt_name row)) \<and>
     (\<exists>p c. dt_profile row = Some p \<and> jfield (snd (tr_draft q)) ''profile'' = Some (JObj p) \<and>
            dt_content row = Some c \<and> jfield (snd (tr_draft q)) ''content'' = Some (JObj c))"

definition send :: "template_store \<times> template_request option \<Rightarrow> template_world \<Rightarrow> template_world" where
  "send r w = w\<lparr>tw_store := fst r, tw_inflight := (case snd r of None \<Rightarrow> [] | Some q \<Rightarrow> [q]) @ tw_inflight w\<rparr>"

definition fresh_row :: "template_world \<Rightarrow> template_detail \<Rightarrow> bool" where
  "fresh_row w row \<longleftrightarrow> dt_draft_updated_at row \<notin> dt_draft_updated_at ` set (tw_past w)"

text \<open>Everything but another writer and the reload button.\<close>

inductive template_step :: "template_world \<Rightarrow> template_world \<Rightarrow> bool" where
  read_row: "row \<in> set (tw_past w) \<Longrightarrow> template_step w (w\<lparr>tw_store := hydrate_template row (tw_store w)\<rparr>)"
| edit_field: "template_step w (w\<lparr>tw_store := setField path v (tw_store w)\<rparr>)"
| autosave: "ts_timer (tw_store w) \<Longrightarrow> template_step w (send (timer_fires (tw_store w)) w)"
| flush_now: "template_step w (send (flush (tw_store w)) w)"
| accept: "tw_inflight w = xs @ q # ys \<Longrightarrow> tr_expected q = dt_draft_updated_at (tw_server w) \<Longrightarrow> stores q row \<Longrightarrow> fresh_row w row \<Longrightarrow>
    template_step w (w\<lparr>tw_past := row # tw_past w, tw_inflight := xs @ ys, tw_accepted := (q, row) # tw_accepted w\<rparr>)"
| refuse: "tw_inflight w = xs @ q # ys \<Longrightarrow> tr_expected q \<noteq> dt_draft_updated_at (tw_server w) \<Longrightarrow>
    template_step w (w\<lparr>tw_inflight := xs @ ys, tw_refused := tw_refused w + 1\<rparr>)"
| answer: "tw_accepted w = xs @ (q, row) # ys \<Longrightarrow>
    template_step w (w\<lparr>tw_accepted := xs @ ys, tw_store := persisted q row (tw_store w)\<rparr>)"
| answer_lost: "tw_accepted w = xs @ (q, row) # ys \<Longrightarrow> status \<noteq> Some 409 \<Longrightarrow>
    template_step w (w\<lparr>tw_accepted := xs @ ys, tw_store := persist_rejected status (tw_store w)\<rparr>)"
| request_lost: "tw_inflight w = xs @ q # ys \<Longrightarrow> status \<noteq> Some 409 \<Longrightarrow>
    template_step w (w\<lparr>tw_inflight := xs @ ys, tw_store := persist_rejected status (tw_store w)\<rparr>)"
| refusal: "tw_refused w = Suc n \<Longrightarrow>
    template_step w (w\<lparr>tw_refused := n, tw_store := persist_rejected (Some 409) (tw_store w)\<rparr>)"

inductive other_writer_step :: "template_world \<Rightarrow> template_world \<Rightarrow> bool" where
  "fresh_row w row \<Longrightarrow> other_writer_step w (w\<lparr>tw_past := row # tw_past w\<rparr>)"

inductive reload_step :: "template_world \<Rightarrow> template_world \<Rightarrow> bool" where
  "reload_step w (w\<lparr>tw_store := reload_start (tw_store w)\<rparr>)"
| "result = None \<or> (\<exists>row\<in>set (tw_past w). result = Some row) \<Longrightarrow> reload_step w (w\<lparr>tw_store := reload_done result (tw_store w)\<rparr>)"

definition template_start :: "template_world \<Rightarrow> bool" where
  "template_start w \<longleftrightarrow> tw_past w \<noteq> [] \<and> distinct (map dt_draft_updated_at (tw_past w)) \<and> tw_inflight w = [] \<and> tw_accepted w = [] \<and> tw_refused w = 0 \<and>
     ts_draft (tw_store w) = None \<and> \<not> ts_dirty (tw_store w) \<and> \<not> ts_conflict (tw_store w) \<and> \<not> ts_timer (tw_store w) \<and> ts_lockToken (tw_store w) = None"

text \<open>The worlds an editor reaches; the flags say whether others write and whether reload is pressed.\<close>

inductive template_reaches :: "bool \<Rightarrow> bool \<Rightarrow> template_world \<Rightarrow> bool" for others reloads :: bool where
  start: "template_start w \<Longrightarrow> template_reaches others reloads w"
| own: "template_reaches others reloads w \<Longrightarrow> template_step w w' \<Longrightarrow> template_reaches others reloads w'"
| other: "template_reaches others reloads w \<Longrightarrow> others \<Longrightarrow> other_writer_step w w' \<Longrightarrow> template_reaches others reloads w'"
| reload: "template_reaches others reloads w \<Longrightarrow> reloads \<Longrightarrow> reload_step w w' \<Longrightarrow> template_reaches others reloads w'"


section \<open>A clean draft is a revision of the server\<close>

definition shows_row :: "template_detail \<Rightarrow> json \<Rightarrow> bool" where
  "shows_row row d \<longleftrightarrow> jfield d ''name'' = Some (JStr (dt_name row)) \<and> jfield d ''profile'' = Some (field_copy (dt_profile row)) \<and>
     jfield d ''content'' = Some (field_copy (dt_content row))"

abbreviation stamps :: "template_world \<Rightarrow> nat option set" where
  "stamps w \<equiv> dt_draft_updated_at ` set (tw_past w)"

definition tokens :: "template_world \<Rightarrow> nat option set" where
  "tokens w = insert (ts_lockToken (tw_store w)) (tr_expected ` set (tw_inflight w))"

definition past_ok :: "template_world \<Rightarrow> bool" where
  "past_ok w \<longleftrightarrow> tw_past w \<noteq> [] \<and>
     (ts_draft (tw_store w) = None \<longrightarrow> tw_inflight w = [] \<and> tw_accepted w = []) \<and> (ts_draft (tw_store w) \<noteq> None \<longrightarrow> tokens w \<subseteq> stamps w)"

text \<open>
  At most one accepted save is unanswered; while it is, the store is dirty and no token it knows
  is the server's, so nothing else can be accepted. An undecided save with the server's token
  exists only while the store is dirty.
\<close>

definition saves_dirty :: "template_world \<Rightarrow> bool" where
  "saves_dirty w \<longleftrightarrow> length (tw_accepted w) \<le> 1 \<and>
     (tw_accepted w \<noteq> [] \<longrightarrow> ts_dirty (tw_store w) \<and> dt_draft_updated_at (tw_server w) \<notin> tokens w) \<and>
     (ts_dirty (tw_store w) \<or> dt_draft_updated_at (tw_server w) \<notin> tr_expected ` set (tw_inflight w)) \<and>
     (ts_timer (tw_store w) \<longrightarrow> ts_dirty (tw_store w)) \<and> (ts_dirty (tw_store w) \<longrightarrow> ts_draft (tw_store w) \<noteq> None)"

definition same_object :: "template_store \<Rightarrow> template_request \<Rightarrow> bool" where
  "same_object st q \<longleftrightarrow> fst (tr_draft q) < ts_fresh st \<and>
     (\<forall>d. ts_draft st = Some d \<longrightarrow> fst d = fst (tr_draft q) \<longrightarrow> d = tr_draft q)"

definition identity_ok :: "template_world \<Rightarrow> bool" where
  "identity_ok w \<longleftrightarrow> (\<forall>d. ts_draft (tw_store w) = Some d \<longrightarrow> fst d < ts_fresh (tw_store w)) \<and>
     (\<forall>q\<in>set (tw_inflight w). same_object (tw_store w) q) \<and>
     (\<forall>(q, row)\<in>set (tw_accepted w). same_object (tw_store w) q \<and> row \<in> set (tw_past w) \<and> stores q row)"

text \<open>While the debounce runs, the draft is an object no save has sent.\<close>

definition timer_ok :: "template_world \<Rightarrow> bool" where
  "timer_ok w \<longleftrightarrow> (ts_timer (tw_store w) \<longrightarrow>
     (\<forall>q\<in>set (tw_inflight w) \<union> fst ` set (tw_accepted w). map_option fst (ts_draft (tw_store w)) \<noteq> Some (fst (tr_draft q))))"

definition clean_ok :: "template_world \<Rightarrow> bool" where
  "clean_ok w \<longleftrightarrow> (\<forall>d. \<not> ts_dirty (tw_store w) \<longrightarrow> ts_draft (tw_store w) = Some d \<longrightarrow>
     (\<exists>row\<in>set (tw_past w). dt_draft_updated_at row = ts_lockToken (tw_store w) \<and> shows_row row (snd d)))"

definition template_ok :: "template_world \<Rightarrow> bool" where
  "template_ok w \<longleftrightarrow> past_ok w \<and> saves_dirty w \<and> identity_ok w \<and> timer_ok w \<and> clean_ok w"

lemmas template_defs = past_ok_def saves_dirty_def identity_ok_def timer_ok_def clean_ok_def tokens_def tw_server_def

lemma stores_shows: "stores q row \<Longrightarrow> shows_row row (snd (tr_draft q))"
  by (auto simp: stores_def shows_row_def field_copy_def)

lemma toDraft_shows: "shows_row row (toDraft row)"
  by (simp add: shows_row_def toDraft_def)

lemma same_object_put: "same_object st q \<Longrightarrow> same_object (put_draft d st) q"
  by (auto simp: same_object_def put_draft_def)

lemma put_draft_sel [simp]:
  "ts_draft (put_draft d st) = Some (ts_fresh st, d)" "ts_dirty (put_draft d st) = ts_dirty st" "ts_timer (put_draft d st) = ts_timer st"
  "ts_lockToken (put_draft d st) = ts_lockToken st" "ts_conflict (put_draft d st) = ts_conflict st" "ts_fresh (put_draft d st) = ts_fresh st + 1"
  by (simp_all add: put_draft_def)

lemma same_object_other [simp]:
  "same_object (st\<lparr>ts_dirty := b\<rparr>) = same_object st" "same_object (st\<lparr>ts_timer := b\<rparr>) = same_object st"
  "same_object (st\<lparr>ts_conflict := b\<rparr>) = same_object st" "same_object (st\<lparr>ts_lockToken := t\<rparr>) = same_object st"
  "same_object (st\<lparr>ts_hydratedFrom := h\<rparr>) = same_object st"
  by (simp_all add: same_object_def fun_eq_iff)

lemma template_okI: "past_ok w \<Longrightarrow> saves_dirty w \<Longrightarrow> identity_ok w \<Longrightarrow> timer_ok w \<Longrightarrow> clean_ok w \<Longrightarrow> template_ok w"
  by (simp add: template_ok_def)

lemma template_okD: "template_ok w \<Longrightarrow> past_ok w" "template_ok w \<Longrightarrow> saves_dirty w" "template_ok w \<Longrightarrow> identity_ok w"
    "template_ok w \<Longrightarrow> timer_ok w" "template_ok w \<Longrightarrow> clean_ok w"
  by (simp_all add: template_ok_def)

lemma ok_read:
  assumes ok: "template_ok w" and row: "row \<in> set (tw_past w)"
  shows "template_ok (w\<lparr>tw_store := hydrate_template row (tw_store w)\<rparr>)"
proof (cases "hydrate_template row (tw_store w) = tw_store w")
  case True
  then show ?thesis using ok by simp
next
  case False
  let ?st = "(put_draft (toDraft row) (tw_store w))\<lparr>ts_hydratedFrom := Some (hydration_stamp row), ts_lockToken := dt_draft_updated_at row\<rparr>"
  have clean: "\<not> ts_dirty (tw_store w)" and h: "hydrate_template row (tw_store w) = ?st"
    using False by (auto simp: hydrate_template_def split: if_splits)
  have acc: "tw_accepted w = []" and timer: "\<not> ts_timer (tw_store w)" using template_okD(2) [OF ok] clean by (auto simp: saves_dirty_def)
  have tok: "tr_expected ` set (tw_inflight w) \<subseteq> stamps w" using template_okD(1) [OF ok] by (auto simp: past_ok_def tokens_def split: if_splits)
  show ?thesis unfolding h
  proof (rule template_okI)
    show "past_ok (w\<lparr>tw_store := ?st\<rparr>)" using template_okD(1) [OF ok] tok row by (auto simp: past_ok_def tokens_def)
    show "saves_dirty (w\<lparr>tw_store := ?st\<rparr>)" using template_okD(2) [OF ok] acc timer clean by (simp add: saves_dirty_def tw_server_def)
    show "identity_ok (w\<lparr>tw_store := ?st\<rparr>)" using template_okD(3) [OF ok] acc by (simp add: identity_ok_def same_object_put)
    show "timer_ok (w\<lparr>tw_store := ?st\<rparr>)" using timer by (simp add: timer_ok_def)
    show "clean_ok (w\<lparr>tw_store := ?st\<rparr>)" using row toDraft_shows by (auto simp: clean_ok_def)
  qed
qed

lemma ok_edit:
  assumes ok: "template_ok w"
  shows "template_ok (w\<lparr>tw_store := setField path v (tw_store w)\<rparr>)"
proof (cases "setField path v (tw_store w) = tw_store w")
  case True
  then show ?thesis using ok by simp
next
  case False
  then obtain d where st: "setField path v (tw_store w) = (put_draft d (tw_store w))\<lparr>ts_dirty := True, ts_timer := True\<rparr>"
    and some: "ts_draft (tw_store w) \<noteq> None" by (auto simp: setField_def split: if_splits option.splits)
  let ?st = "(put_draft d (tw_store w))\<lparr>ts_dirty := True, ts_timer := True\<rparr>"
  have small: "fst (tr_draft q) < ts_fresh (tw_store w)" if "q \<in> set (tw_inflight w) \<union> fst ` set (tw_accepted w)" for q
    using template_okD(3) [OF ok] that by (auto simp: identity_ok_def same_object_def)
  show ?thesis unfolding st
  proof (rule template_okI)
    show "past_ok (w\<lparr>tw_store := ?st\<rparr>)" using template_okD(1) [OF ok] some by (simp add: past_ok_def tokens_def)
    show "saves_dirty (w\<lparr>tw_store := ?st\<rparr>)" using template_okD(2) [OF ok] by (simp add: saves_dirty_def tw_server_def tokens_def)
    show "identity_ok (w\<lparr>tw_store := ?st\<rparr>)" using template_okD(3) [OF ok] by (auto simp: identity_ok_def same_object_put)
    show "timer_ok (w\<lparr>tw_store := ?st\<rparr>)" using small by (fastforce simp: timer_ok_def)
    show "clean_ok (w\<lparr>tw_store := ?st\<rparr>)" by (simp add: clean_ok_def)
  qed
qed

lemma ok_timer_off:
  assumes "template_ok w"
  shows "template_ok (w\<lparr>tw_store := (tw_store w)\<lparr>ts_timer := False\<rparr>\<rparr>)"
  by (rule template_okI) (use template_okD [OF assms] in \<open>simp_all add: template_defs\<close>)

lemma ok_send:
  assumes ok: "template_ok w" and dirty: "ts_dirty (tw_store w)" and st: "st = (tw_store w)\<lparr>ts_timer := False\<rparr>"
  shows "template_ok (send (st, persist st) w)"
proof (cases "persist st")
  case None
  then have "send (st, persist st) w = w\<lparr>tw_store := st\<rparr>" by (simp add: send_def)
  then show ?thesis using ok_timer_off [OF ok] by (simp add: st)
next
  case (Some q)
  then have d: "ts_draft (tw_store w) = Some (tr_draft q)" and tok: "tr_expected q = ts_lockToken (tw_store w)"
    by (auto simp: persist_def st split: option.splits if_splits)
  let ?w = "w\<lparr>tw_store := st, tw_inflight := q # tw_inflight w\<rparr>"
  have w': "send (st, persist st) w = ?w" by (simp add: send_def Some)
  have same: "same_object (tw_store w) q" using template_okD(3) [OF ok] d by (simp add: same_object_def identity_ok_def)
  show ?thesis unfolding w'
  proof (rule template_okI)
    show "past_ok ?w" using template_okD(1) [OF ok] d tok by (simp add: past_ok_def tokens_def st)
    show "saves_dirty ?w" using template_okD(2) [OF ok] dirty d tok by (simp add: saves_dirty_def tokens_def st tw_server_def)
    show "identity_ok ?w" using template_okD(3) [OF ok] same by (simp add: identity_ok_def st)
    show "timer_ok ?w" by (simp add: timer_ok_def st)
    show "clean_ok ?w" using dirty by (simp add: clean_ok_def st)
  qed
qed

lemma ok_accept:
  assumes ok: "template_ok w" and fl: "tw_inflight w = xs @ q # ys" and cur: "tr_expected q = dt_draft_updated_at (tw_server w)"
    and st: "stores q row" and fr: "fresh_row w row"
  shows "template_ok (w\<lparr>tw_past := row # tw_past w, tw_inflight := xs @ ys, tw_accepted := (q, row) # tw_accepted w\<rparr>)"
proof -
  let ?w = "w\<lparr>tw_past := row # tw_past w, tw_inflight := xs @ ys, tw_accepted := (q, row) # tw_accepted w\<rparr>"
  have dirty: "ts_dirty (tw_store w)" and acc: "tw_accepted w = []"
    using template_okD(2) [OF ok] fl cur by (auto simp: saves_dirty_def tokens_def)
  have draft: "ts_draft (tw_store w) \<noteq> None" and known: "tokens w \<subseteq> stamps w"
    using template_okD(1) [OF ok] fl unfolding past_ok_def by auto
  have new: "dt_draft_updated_at row \<notin> tokens w" using known fr by (auto simp: fresh_row_def)
  have sub: "tokens ?w \<subseteq> tokens w" by (auto simp: tokens_def fl)
  show ?thesis
  proof (rule template_okI)
    show "past_ok ?w" using known sub draft by (auto simp: past_ok_def)
    show "saves_dirty ?w" using template_okD(2) [OF ok] dirty acc new sub by (auto simp: saves_dirty_def tw_server_def)
    show "identity_ok ?w" using template_okD(3) [OF ok] st acc by (auto simp: identity_ok_def fl)
    show "timer_ok ?w" using template_okD(4) [OF ok] acc by (auto simp: timer_ok_def fl)
    show "clean_ok ?w" using dirty by (simp add: clean_ok_def)
  qed
qed

lemma ok_past:
  assumes ok: "template_ok w" and fr: "fresh_row w row"
  shows "template_ok (w\<lparr>tw_past := row # tw_past w\<rparr>)"
proof -
  let ?w = "w\<lparr>tw_past := row # tw_past w\<rparr>"
  have tok: "tokens ?w = tokens w" by (simp add: tokens_def)
  have new: "dt_draft_updated_at row \<notin> tokens w" if "ts_draft (tw_store w) \<noteq> None"
    using template_okD(1) [OF ok] fr that by (auto simp: past_ok_def fresh_row_def)
  have none: "tw_inflight w = []" if "ts_draft (tw_store w) = None" using template_okD(1) [OF ok] that by (simp add: past_ok_def)
  show ?thesis
  proof (rule template_okI)
    show "past_ok ?w" using template_okD(1) [OF ok] by (auto simp: past_ok_def tok)
    have "dt_draft_updated_at row \<notin> tr_expected ` set (tw_inflight w)" using new none by (cases "ts_draft (tw_store w)") (auto simp: tokens_def)
    then show "saves_dirty ?w" using template_okD(2) [OF ok] new by (auto simp: saves_dirty_def tw_server_def tok)
    show "identity_ok ?w" using template_okD(3) [OF ok] by (auto simp: identity_ok_def)
    show "timer_ok ?w" using template_okD(4) [OF ok] by (simp add: timer_ok_def)
    show "clean_ok ?w" using template_okD(5) [OF ok] unfolding clean_ok_def by simp
  qed
qed

lemma ok_drop:
  assumes ok: "template_ok w" and fl: "tw_inflight w = xs @ q # ys"
  shows "template_ok (w\<lparr>tw_inflight := xs @ ys\<rparr>)"
proof (rule template_okI)
  let ?w = "w\<lparr>tw_inflight := xs @ ys\<rparr>"
  have sub: "tokens ?w \<subseteq> tokens w" "set (xs @ ys) \<subseteq> set (tw_inflight w)" by (auto simp: tokens_def fl)
  show "past_ok ?w" using template_okD(1) [OF ok] sub fl by (auto simp: past_ok_def split: if_splits)
  show "saves_dirty ?w" using template_okD(2) [OF ok] sub by (auto simp: saves_dirty_def tw_server_def)
  show "identity_ok ?w" using template_okD(3) [OF ok] sub by (auto simp: identity_ok_def)
  show "timer_ok ?w" using template_okD(4) [OF ok] sub by (auto simp: timer_ok_def)
  show "clean_ok ?w" using template_okD(5) [OF ok] by (simp add: clean_ok_def)
qed

lemma ok_conflict:
  assumes "template_ok w"
  shows "template_ok (w\<lparr>tw_store := persist_rejected s (tw_store w)\<rparr>)"
  by (rule template_okI) (use template_okD [OF assms] in \<open>simp_all add: template_defs persist_rejected_def\<close>)

lemma ok_refused: "template_ok w \<Longrightarrow> template_ok (w\<lparr>tw_refused := n\<rparr>)"
  by (simp add: template_ok_def template_defs)

lemma ok_lost:
  assumes ok: "template_ok w" and acc: "tw_accepted w = xs @ p # ys"
  shows "template_ok (w\<lparr>tw_accepted := xs @ ys\<rparr>)"
proof (rule template_okI)
  let ?w = "w\<lparr>tw_accepted := xs @ ys\<rparr>"
  have tok: "tokens ?w = tokens w" by (simp add: tokens_def)
  show "past_ok ?w" using template_okD(1) [OF ok] acc by (auto simp: past_ok_def tok split: if_splits)
  show "saves_dirty ?w" using template_okD(2) [OF ok] acc by (auto simp: saves_dirty_def tw_server_def tok)
  show "identity_ok ?w" using template_okD(3) [OF ok] acc by (auto simp: identity_ok_def)
  show "timer_ok ?w" using template_okD(4) [OF ok] acc by (auto simp: timer_ok_def)
  show "clean_ok ?w" using template_okD(5) [OF ok] by (simp add: clean_ok_def)
qed

lemma ok_answer:
  assumes ok: "template_ok w" and acc: "tw_accepted w = xs @ (q, row) # ys"
  shows "template_ok (w\<lparr>tw_accepted := xs @ ys, tw_store := persisted q row (tw_store w)\<rparr>)"
proof -
  let ?st = "persisted q row (tw_store w)"
  let ?w = "w\<lparr>tw_accepted := xs @ ys, tw_store := ?st\<rparr>"
  have row: "row \<in> set (tw_past w)" and st: "stores q row" and same: "same_object (tw_store w) q"
    using template_okD(3) [OF ok] acc by (auto simp: identity_ok_def)
  have one: "xs @ ys = []" and cur: "dt_draft_updated_at (tw_server w) \<notin> tr_expected ` set (tw_inflight w)"
    and dr: "ts_draft (tw_store w) \<noteq> None" and dirty: "ts_dirty (tw_store w)"
    using template_okD(2) [OF ok] acc by (auto simp: saves_dirty_def tokens_def)
  have sel: "ts_draft ?st = ts_draft (tw_store w)" "ts_lockToken ?st = dt_draft_updated_at row" "ts_timer ?st = ts_timer (tw_store w)"
    "ts_fresh ?st = ts_fresh (tw_store w)" "same_object ?st = same_object (tw_store w)"
    by (simp_all add: persisted_def)
  have timer: "ts_timer (tw_store w) \<Longrightarrow> ts_dirty ?st"
    using template_okD(4) [OF ok] acc dirty by (auto simp: timer_ok_def persisted_def)
  have synced: "shows_row row (snd d)" if "\<not> ts_dirty ?st" "ts_draft (tw_store w) = Some d" for d
  proof -
    have "fst d = fst (tr_draft q)" using that dirty unfolding persisted_def by (simp split: if_splits)
    then have "d = tr_draft q" using same that(2) by (auto simp: same_object_def)
    then show ?thesis using stores_shows [OF st] by simp
  qed
  show ?thesis
  proof (rule template_okI)
    show "past_ok ?w" using template_okD(1) [OF ok] row dr by (auto simp: past_ok_def tokens_def sel)
    show "saves_dirty ?w" using template_okD(2) [OF ok] one cur dr timer by (simp add: saves_dirty_def tw_server_def sel)
    show "identity_ok ?w" using template_okD(3) [OF ok] one by (simp add: identity_ok_def sel)
    show "timer_ok ?w" using template_okD(4) [OF ok] one by (auto simp: timer_ok_def sel)
    show "clean_ok ?w" using synced row unfolding clean_ok_def by (auto simp: sel)
  qed
qed

lemma template_step_ok: "template_step w w' \<Longrightarrow> template_ok w \<Longrightarrow> template_ok w'"
proof (induction rule: template_step.induct)
  case (autosave w)
  then have "ts_dirty (tw_store w)" using template_okD(2) [OF autosave(2)] by (simp add: saves_dirty_def)
  then show ?case using ok_send [OF autosave(2)] by (simp add: timer_fires_def Let_def)
next
  case (flush_now w)
  then show ?case
    using ok_send [OF flush_now] ok_timer_off [OF flush_now]
    by (cases "ts_dirty (tw_store w)") (simp_all add: flush_def Let_def send_def)
next
  case (refuse w xs q ys)
  then show ?case using ok_refused [OF ok_drop] by auto
next
  case (answer_lost w xs q row ys status)
  then show ?case using ok_conflict [OF ok_lost] by auto
next
  case (request_lost w xs q ys status)
  then show ?case using ok_conflict [OF ok_drop] by auto
next
  case (refusal w n)
  then show ?case using ok_conflict [OF ok_refused] by auto
qed (auto intro: ok_read ok_edit ok_accept ok_answer)

lemma template_reaches_ok: "template_reaches others False w \<Longrightarrow> template_ok w"
proof (induction rule: template_reaches.induct)
  case (start w)
  then show ?case by (simp add: template_ok_def template_defs template_start_def)
next
  case (own w w')
  then show ?case using template_step_ok by blast
next
  case (other w w')
  then show ?case using ok_past by (auto elim!: other_writer_step.cases)
qed auto


section \<open>Properties\<close>


definition sample_row_at :: "string \<Rightarrow> nat \<Rightarrow> template_detail" where
  "sample_row_at nm t = \<lparr>dt_id = ''t'', dt_name = nm, dt_profile = Some [], dt_content = Some [], dt_draft_updated_at = Some t, dt_updated_at = None\<rparr>"

definition template_run0 :: template_world where
  "template_run0 = \<lparr>tw_store = \<lparr>ts_readOnly = False, ts_draft = None, ts_dirty = False, ts_conflict = False, ts_lockToken = None,
     ts_hydratedFrom = None, ts_timer = False, ts_fresh = 0\<rparr>, tw_past = [sample_row_at ''old'' 1], tw_inflight = [], tw_accepted = [], tw_refused = 0\<rparr>"

definition template_run1 :: template_world where
  "template_run1 = template_run0\<lparr>tw_store := hydrate_template (sample_row_at ''old'' 1) (tw_store template_run0)\<rparr>"

lemma template_run1_reached: "template_reaches others reloads template_run1"
proof -
  have "template_reaches others reloads template_run0"
    by (rule template_reaches.start) (simp add: template_start_def template_run0_def)
  moreover have "template_step template_run0 template_run1"
    unfolding template_run1_def by (rule template_step.read_row) (simp add: template_run0_def)
  ultimately show ?thesis by (rule template_reaches.own)
qed


text \<open>Two edits whose saves overlap: the second is sent with the token of the first.\<close>

definition template_run2 :: template_world where
  "template_run2 = template_run1\<lparr>tw_store := setField ''name'' (JStr ''new'') (tw_store template_run1)\<rparr>"
definition template_run3 :: template_world where
  "template_run3 = send (timer_fires (tw_store template_run2)) template_run2"
definition template_run4 :: template_world where
  "template_run4 = template_run3\<lparr>tw_store := setField ''name'' (JStr ''newer'') (tw_store template_run3)\<rparr>"
definition template_run5 :: template_world where
  "template_run5 = send (timer_fires (tw_store template_run4)) template_run4"
definition template_run6 :: template_world where
  "template_run6 = template_run5\<lparr>tw_past := sample_row_at ''new'' 2 # tw_past template_run5, tw_inflight := [hd (tw_inflight template_run5)],
     tw_accepted := [(last (tw_inflight template_run5), sample_row_at ''new'' 2)]\<rparr>"
definition template_run7 :: template_world where
  "template_run7 = template_run6\<lparr>tw_inflight := [], tw_refused := 1\<rparr>"
definition template_run8 :: template_world where
  "template_run8 = template_run7\<lparr>tw_refused := 0, tw_store := persist_rejected (Some 409) (tw_store template_run7)\<rparr>"

lemma template_run5_steps:
  "template_step template_run1 template_run2" "template_step template_run2 template_run3"
  "template_step template_run3 template_run4" "template_step template_run4 template_run5"
  unfolding template_run2_def template_run3_def template_run4_def template_run5_def
  by (rule template_step.edit_field, rule template_step.autosave, code_simp, rule template_step.edit_field, rule template_step.autosave, code_simp)

lemma template_run6_step: "template_step template_run5 template_run6"
proof -
  have "tw_inflight template_run5 = [hd (tw_inflight template_run5)] @ last (tw_inflight template_run5) # []" "tw_accepted template_run5 = []"
    "tr_expected (last (tw_inflight template_run5)) = dt_draft_updated_at (tw_server template_run5)" by code_simp+
  moreover have "stores (last (tw_inflight template_run5)) (sample_row_at ''new'' 2)"
  proof -
    have "jfield (snd (tr_draft (last (tw_inflight template_run5)))) ''name'' = Some (JStr ''new'')"
      "jfield (snd (tr_draft (last (tw_inflight template_run5)))) ''profile'' = Some (JObj [])"
      "jfield (snd (tr_draft (last (tw_inflight template_run5)))) ''content'' = Some (JObj [])" by code_simp+
    then show ?thesis by (simp add: stores_def sample_row_at_def)
  qed
  moreover have "fresh_row template_run5 (sample_row_at ''new'' 2)" unfolding fresh_row_def by code_simp
  ultimately show ?thesis using template_step.accept [of template_run5] unfolding template_run6_def by (metis append_Nil2)
qed

lemma template_run8_steps: "template_step template_run6 template_run7" "template_step template_run7 template_run8"
proof -
  have "tw_inflight template_run6 = [] @ hd (tw_inflight template_run6) # []" "tw_refused template_run6 = 0"
    "tr_expected (hd (tw_inflight template_run6)) \<noteq> dt_draft_updated_at (tw_server template_run6)" by code_simp+
  then show "template_step template_run6 template_run7"
    using template_step.refuse [of template_run6] unfolding template_run7_def by (metis One_nat_def add.left_neutral append_Nil)
  have "tw_refused template_run7 = Suc 0" by (simp add: template_run7_def)
  then show "template_step template_run7 template_run8"
    using template_step.refusal unfolding template_run8_def by blast
qed


text \<open>
  After a reload whose refetch brought nothing, the draft still holds an edit the server
  never saw, and it is no longer marked dirty.
\<close>

lemma failed_reload_hides_edit:
  "\<exists>w i d. template_reaches False True w \<and> \<not> ts_dirty (tw_store w) \<and> \<not> ts_conflict (tw_store w) \<and>
     ts_draft (tw_store w) = Some (i, d) \<and> (\<nexists>row. row \<in> set (tw_past w) \<and> shows_row row d)"
proof (intro exI conjI)
  let ?w = "template_run2\<lparr>tw_store := reload_done None (reload_start (tw_store template_run2))\<rparr>"
  let ?m = "template_run2\<lparr>tw_store := reload_start (tw_store template_run2)\<rparr>"
  have "template_reaches False True template_run2" using template_run1_reached template_run5_steps(1) by (rule template_reaches.own)
  then have "template_reaches False True ?m" using reload_step.intros(1) template_reaches.reload [OF _ TrueI] by blast
  moreover have "reload_step ?m ?w" using reload_step.intros(2) [of None ?m] by simp
  ultimately show "template_reaches False True ?w" by (rule template_reaches.reload [OF _ TrueI])
  show "\<not> ts_dirty (tw_store ?w)" "\<not> ts_conflict (tw_store ?w)" by code_simp+
  show "ts_draft (tw_store ?w) = Some (1, JObj [(''name'', JStr ''new''), (''profile'', JObj []), (''content'', JObj [])])" by code_simp
  have "tw_past ?w = [sample_row_at ''old'' 1]" by (simp add: template_run2_def template_run1_def template_run0_def)
  then show "\<nexists>row. row \<in> set (tw_past ?w) \<and> shows_row row (JObj [(''name'', JStr ''new''), (''profile'', JObj []), (''content'', JObj [])])"
    by (auto simp: shows_row_def sample_row_at_def)
qed

text \<open>
  Writing at a dotted path is read back at that path and leaves every path that neither
  continues nor is continued by it as it was, so an autosave cannot clobber a field that was not
  edited.
\<close>

lemma setPath_local:
  assumes "p \<noteq> []"
  shows "getPath (setPath target p v) p = Some v \<and> (diverge p q \<longrightarrow> getPath (setPath target p v) q = getPath target q)"
  using assms
proof (induction p arbitrary: target q)
  case (Cons h rest)
  show ?case
  proof (cases rest)
    case Nil
    then show ?thesis by (cases q) (auto simp: jfield_obj_kvs)
  next
    case (Cons h' rest')
    let ?c = "plain_object (jfield target h)"
    have IH: "getPath (setPath ?c rest v) rest = Some v" "diverge rest q' \<Longrightarrow> getPath (setPath ?c rest v) q' = getPath ?c q'" for q'
      using Cons.IH [of ?c] Cons by auto
    have "getPath (setPath target (h # rest) v) q = getPath target q" if d: "diverge (h # rest) q"
    proof -
      obtain a q' where q: "q = a # q'" using d by (cases q) auto
      show ?thesis
      proof (cases "a = h")
        case True
        then have dq: "diverge rest q'" and "q' \<noteq> []" using d q by (auto elim: diverge.elims)
        have "getPath ?c q' = Option.bind (jfield target h) (\<lambda>c. getPath c q')"
        proof (cases "jfield target h")
          case None
          then show ?thesis using \<open>q' \<noteq> []\<close> by (cases q') auto
        next
          case (Some c)
          then show ?thesis using getPath_plain [OF \<open>q' \<noteq> []\<close>, of c] by simp
        qed
        then show ?thesis using True q IH(2) [OF dq] Cons by (simp add: setPath_Cons jfield_obj_kvs)
      qed (use q Cons in \<open>auto simp: setPath_Cons jfield_obj_kvs\<close>)
    qed
    then show ?thesis using IH(1) Cons by (simp add: setPath_Cons)
  qed
qed simp

end
