(* ===== verification/Refetchable.thy ===== *)
theory Refetchable
  imports JS_Prelude
begin

text \<open>
  The cached daemon resource of the companion app (\<open>stores/refetchable.ts\<close>): fetched on
  demand, replaced by pushed events, invalidated, forgotten. A fetch under way is a run with
  the generation it started in; a run that a \<open>forget\<close> orphaned still answers. The world adds a
  clock and, for every run, the moment it started, so that an answer can be compared with the
  change that asked for it. Store listeners are not modelled; the parser is a parameter.
\<close>


section \<open>The resource\<close>

record fetch_run =
  fr_runId :: nat
  fr_startedAt :: nat

record 'a refetchable =
  rf_store :: "'a option"
  rf_generation :: nat
  rf_currentRun :: nat
  rf_inFlight :: bool
  rf_fetchAgain :: bool
  rf_used :: bool
  rf_runs :: "fetch_run list"

definition createRefetchable :: "'a refetchable" where
  "createRefetchable = \<lparr>rf_store = None, rf_generation = 0, rf_currentRun = 0, rf_inFlight = False, rf_fetchAgain = False, rf_used = False, rf_runs = []\<rparr>"

definition run_fetch :: "'a refetchable \<Rightarrow> 'a refetchable" where
  "run_fetch r = (let runId = rf_currentRun r + 1 in
     r\<lparr>rf_currentRun := runId, rf_inFlight := True, rf_fetchAgain := False,
       rf_runs := rf_runs r @ [\<lparr>fr_runId = runId, fr_startedAt = rf_generation r\<rparr>]\<rparr>)"

text \<open>The answer of a run: \<open>None\<close> for a rejected or unparsable one. First the value, then the \<open>finally\<close> block.\<close>

definition store_answer :: "fetch_run \<Rightarrow> 'a option \<Rightarrow> 'a refetchable \<Rightarrow> 'a refetchable" where
  "store_answer run parsed r = (if parsed \<noteq> None \<and> fr_startedAt run = rf_generation r then r\<lparr>rf_store := parsed\<rparr> else r)"

definition settle_run :: "fetch_run \<Rightarrow> 'a refetchable \<Rightarrow> 'a refetchable" where
  "settle_run run r =
     (if fr_runId run \<noteq> rf_currentRun r then r
      else let r' = r\<lparr>rf_inFlight := False\<rparr> in if rf_fetchAgain r' then run_fetch r' else r')"

definition answer_run :: "fetch_run \<Rightarrow> 'a option \<Rightarrow> 'a refetchable \<Rightarrow> 'a refetchable" where
  "answer_run run parsed r = settle_run run (store_answer run parsed (r\<lparr>rf_runs := remove1 run (rf_runs r)\<rparr>))"

definition forget :: "'a refetchable \<Rightarrow> 'a refetchable" where
  "forget r = r\<lparr>rf_generation := rf_generation r + 1, rf_currentRun := rf_currentRun r + 1, rf_inFlight := False,
     rf_fetchAgain := False, rf_store := None\<rparr>"

definition invalidate :: "'a refetchable \<Rightarrow> 'a refetchable" where
  "invalidate r = (let r' = r\<lparr>rf_used := True\<rparr> in if rf_inFlight r' then r'\<lparr>rf_fetchAgain := True\<rparr> else run_fetch r')"

definition refresh :: "'a refetchable \<Rightarrow> 'a refetchable" where
  "refresh r = (let r' = r\<lparr>rf_used := True\<rparr> in if rf_inFlight r' then r' else run_fetch r')"

definition ensure :: "'a refetchable \<Rightarrow> 'a refetchable" where
  "ensure r = (let r' = r\<lparr>rf_used := True\<rparr> in if rf_store r' = None \<and> \<not> rf_inFlight r' then run_fetch r' else r')"

definition push_value :: "'a \<Rightarrow> 'a refetchable \<Rightarrow> 'a refetchable" where
  "push_value v r = r\<lparr>rf_generation := rf_generation r + 1, rf_store := Some v\<rparr>"

definition loaded :: "'a refetchable \<Rightarrow> bool" where
  "loaded r = (rf_store r \<noteq> None)"

definition refetchIfUsed :: "'a refetchable \<Rightarrow> 'a refetchable" where
  "refetchIfUsed r = (if rf_used r then invalidate r else r)"

definition reset_resource :: "'a refetchable \<Rightarrow> 'a refetchable" where
  "reset_resource r = (forget r)\<lparr>rf_used := False\<rparr>"

lemmas refetch_defs = run_fetch_def store_answer_def settle_run_def answer_run_def forget_def invalidate_def refresh_def ensure_def
  push_value_def refetchIfUsed_def reset_resource_def


section \<open>The resource over time\<close>

text \<open>
  The daemon's data has a revision that grows with every change. A run reads some revision not
  older than the one at its start; a push carries the revision it announces. The world records
  the revision at the start of each run, the starts of
  the runs that settled, and since the last \<open>forget\<close> the revision at the last \<open>invalidate\<close> and the
  last push. \<open>refetchIfUsed\<close> is \<open>invalidate\<close> or nothing, so it adds no step.
\<close>

record refetch_world =
  rw_resource :: "nat refetchable"
  rw_revision :: nat
  rw_starts :: "nat \<Rightarrow> nat"
  rw_demand :: "nat option"
  rw_settled :: "nat list"
  rw_pushed :: "nat option"

definition note_start :: "refetch_world \<Rightarrow> nat refetchable \<Rightarrow> refetch_world" where
  "note_start w r = w\<lparr>rw_resource := r, rw_starts := (if rf_currentRun r = rf_currentRun (rw_resource w) then rw_starts w
     else (rw_starts w)(rf_currentRun r := rw_revision w))\<rparr>"

inductive refetch_step :: "refetch_world \<Rightarrow> refetch_world \<Rightarrow> bool" where
  change: "refetch_step w (w\<lparr>rw_revision := rw_revision w + 1\<rparr>)"
| refresh: "refetch_step w (note_start w (refresh (rw_resource w)))"
| ensure: "refetch_step w (note_start w (ensure (rw_resource w)))"
| invalidate: "refetch_step w ((note_start w (invalidate (rw_resource w)))\<lparr>rw_demand := Some (rw_revision w)\<rparr>)"
| push: "v \<le> rw_revision w \<Longrightarrow> refetch_step w (w\<lparr>rw_resource := push_value v (rw_resource w), rw_pushed := Some v\<rparr>)"
| answer: "run \<in> set (rf_runs (rw_resource w)) \<Longrightarrow> parsed = None \<or> (\<exists>v. parsed = Some v \<and> rw_starts w (fr_runId run) \<le> v \<and> v \<le> rw_revision w) \<Longrightarrow>
    refetch_step w ((note_start w (answer_run run parsed (rw_resource w)))\<lparr>rw_settled :=
      (if fr_runId run = rf_currentRun (rw_resource w) then rw_starts w (fr_runId run) # rw_settled w else rw_settled w)\<rparr>)"
| forget: "refetch_step w (w\<lparr>rw_resource := forget (rw_resource w), rw_demand := None, rw_pushed := None\<rparr>)"
| reset: "refetch_step w (w\<lparr>rw_resource := reset_resource (rw_resource w), rw_demand := None, rw_pushed := None\<rparr>)"

inductive refetch_reachable :: "refetch_world \<Rightarrow> bool" where
  init: "refetch_reachable \<lparr>rw_resource = createRefetchable, rw_revision = n, rw_starts = s, rw_demand = None, rw_settled = [], rw_pushed = None\<rparr>"
| step: "refetch_reachable w \<Longrightarrow> refetch_step w w' \<Longrightarrow> refetch_reachable w'"

text \<open>
  Runs have distinct ids up to the current one; one is in flight exactly if the run with the
  current id has not answered; and a demand newer than what settled last is being served.
\<close>

definition runs_ok :: "'a refetchable \<Rightarrow> bool" where
  "runs_ok r \<longleftrightarrow> distinct (map fr_runId (rf_runs r)) \<and> (\<forall>run\<in>set (rf_runs r). fr_runId run \<le> rf_currentRun r \<and> fr_startedAt run \<le> rf_generation r) \<and>
     (rf_inFlight r \<longleftrightarrow> rf_currentRun r \<in> fr_runId ` set (rf_runs r)) \<and> (rf_fetchAgain r \<longrightarrow> rf_inFlight r)"

definition demand_ok :: "refetch_world \<Rightarrow> bool" where
  "demand_ok w \<longleftrightarrow> (\<forall>d. rw_demand w = Some d \<longrightarrow> d \<le> rw_revision w \<and>
     ((\<exists>s\<in>set (rw_settled w). d \<le> s) \<or> rf_inFlight (rw_resource w) \<and>
        (rf_fetchAgain (rw_resource w) \<or> d \<le> rw_starts w (rf_currentRun (rw_resource w)))))"

definition push_ok :: "refetch_world \<Rightarrow> bool" where
  "push_ok w \<longleftrightarrow> (\<forall>p. rw_pushed w = Some p \<longrightarrow> (\<exists>v. rf_store (rw_resource w) = Some v \<and> p \<le> v) \<and>
     (\<forall>run\<in>set (rf_runs (rw_resource w)). fr_startedAt run = rf_generation (rw_resource w) \<longrightarrow> p \<le> rw_starts w (fr_runId run)) \<and> p \<le> rw_revision w)"

definition refetch_ok :: "refetch_world \<Rightarrow> bool" where
  "refetch_ok w \<longleftrightarrow> runs_ok (rw_resource w) \<and> demand_ok w \<and> push_ok w"

text \<open>A world in which the resource may have started a new run.\<close>

lemma note_start_sel [simp]:
  "rw_resource (note_start w r) = r" "rw_revision (note_start w r) = rw_revision w" "rw_demand (note_start w r) = rw_demand w"
  "rw_settled (note_start w r) = rw_settled w" "rw_pushed (note_start w r) = rw_pushed w"
  by (simp_all add: note_start_def)

lemma run_fetch_runs_ok: "runs_ok r \<Longrightarrow> \<not> rf_inFlight r \<Longrightarrow> runs_ok (run_fetch r)"
  by (force simp: runs_ok_def run_fetch_def Let_def)

lemma run_fetch_sel [simp]:
  "rf_store (run_fetch r) = rf_store r" "rf_generation (run_fetch r) = rf_generation r" "rf_currentRun (run_fetch r) = rf_currentRun r + 1"
  "rf_inFlight (run_fetch r)" "\<not> rf_fetchAgain (run_fetch r)"
  "rf_runs (run_fetch r) = rf_runs r @ [\<lparr>fr_runId = rf_currentRun r + 1, fr_startedAt = rf_generation r\<rparr>]"
  by (simp_all add: run_fetch_def Let_def)

text \<open>Starting a run serves every demand so far, and reads nothing older than the last push.\<close>

lemma started_ok:
  assumes "runs_ok (rw_resource w)" and "push_ok w" and "\<And>d. rw_demand w = Some d \<Longrightarrow> d \<le> rw_revision w" and "\<not> rf_inFlight (rw_resource w)"
  shows "refetch_ok (note_start w (run_fetch (rw_resource w)))"
proof -
  let ?r = "rw_resource w"
  have starts: "rw_starts (note_start w (run_fetch ?r)) = (rw_starts w)(rf_currentRun ?r + 1 := rw_revision w)"
    by (simp add: note_start_def)
  have old: "fr_runId run \<noteq> rf_currentRun ?r + 1" if "run \<in> set (rf_runs ?r)" for run using assms(1) that by (auto simp: runs_ok_def)
  have "demand_ok (note_start w (run_fetch ?r))" using assms(3) by (simp add: demand_ok_def starts)
  moreover have "push_ok (note_start w (run_fetch ?r))" using assms(2) old by (auto simp: push_ok_def starts)
  ultimately show ?thesis using run_fetch_runs_ok [OF assms(1,4)] by (simp add: refetch_ok_def)
qed

lemma note_start_same: "rf_currentRun r = rf_currentRun (rw_resource w) \<Longrightarrow> note_start w r = w\<lparr>rw_resource := r\<rparr>"
  by (simp add: note_start_def)

lemma used_ok: "refetch_ok w \<Longrightarrow> refetch_ok (w\<lparr>rw_resource := (rw_resource w)\<lparr>rf_used := u\<rparr>\<rparr>)"
  by (auto simp: refetch_ok_def runs_ok_def demand_ok_def push_ok_def)

lemma start_or_keep:
  assumes ok: "refetch_ok w" and r: "r = (rw_resource w)\<lparr>rf_used := True\<rparr>"
  shows "refetch_ok (note_start w (if c \<and> \<not> rf_inFlight r then run_fetch r else r))"
proof (cases "c \<and> \<not> rf_inFlight r")
  case True
  let ?w = "w\<lparr>rw_resource := r\<rparr>"
  have "refetch_ok ?w" using used_ok [OF ok] r by simp
  then have "refetch_ok (note_start ?w (run_fetch r))"
    using started_ok [of ?w] True by (simp add: refetch_ok_def demand_ok_def)
  moreover have "note_start ?w (run_fetch r) = note_start w (run_fetch r)" by (simp add: note_start_def r)
  ultimately show ?thesis using True by simp
next
  case False
  then have "(if c \<and> \<not> rf_inFlight r then run_fetch r else r) = r" by auto
  then show ?thesis using used_ok [OF ok] note_start_same [of r w] r by simp
qed

lemma invalidate_ok:
  assumes ok: "refetch_ok w"
  shows "refetch_ok ((note_start w (invalidate (rw_resource w)))\<lparr>rw_demand := Some (rw_revision w)\<rparr>)"
proof (cases "rf_inFlight (rw_resource w)")
  case True
  then have "invalidate (rw_resource w) = (rw_resource w)\<lparr>rf_used := True, rf_fetchAgain := True\<rparr>" by (simp add: invalidate_def)
  then show ?thesis using ok True note_start_same [of "invalidate (rw_resource w)" w]
    by (simp add: refetch_ok_def runs_ok_def demand_ok_def push_ok_def)
next
  case False
  let ?w = "w\<lparr>rw_demand := Some (rw_revision w)\<rparr>"
  have "refetch_ok (note_start (?w\<lparr>rw_resource := (rw_resource w)\<lparr>rf_used := True\<rparr>\<rparr>) (run_fetch ((rw_resource w)\<lparr>rf_used := True\<rparr>)))"
    using started_ok [of "?w\<lparr>rw_resource := (rw_resource w)\<lparr>rf_used := True\<rparr>\<rparr>"] ok False
    by (simp add: refetch_ok_def runs_ok_def push_ok_def)
  then show ?thesis using False by (simp add: invalidate_def note_start_def Let_def refetch_ok_def demand_ok_def push_ok_def)
qed

lemma answer_store_ok:
  assumes ok: "refetch_ok w" and run: "run \<in> set (rf_runs (rw_resource w))"
    and read: "parsed = None \<or> (\<exists>v. parsed = Some v \<and> rw_starts w (fr_runId run) \<le> v)"
  shows "push_ok (w\<lparr>rw_resource := store_answer run parsed ((rw_resource w)\<lparr>rf_runs := remove1 run (rf_runs (rw_resource w))\<rparr>)\<rparr>)"
proof -
  have "run' \<in> set (remove1 run (rf_runs (rw_resource w))) \<Longrightarrow> run' \<in> set (rf_runs (rw_resource w))" for run' by (meson notin_set_remove1)
  then show ?thesis
    using ok run read by (fastforce simp: refetch_ok_def push_ok_def store_answer_def)
qed

lemma runs_ok_removed:
  assumes "runs_ok r" and "run \<in> set (rf_runs r)"
  shows "fr_runId run \<notin> fr_runId ` set (remove1 run (rf_runs r))" and "set (remove1 run (rf_runs r)) = set (rf_runs r) - {run}"
    and "distinct (map fr_runId (remove1 run (rf_runs r)))"
proof -
  have d: "distinct (rf_runs r)" and inj: "inj_on fr_runId (set (rf_runs r))" using assms(1) by (auto simp: runs_ok_def distinct_map)
  show s: "set (remove1 run (rf_runs r)) = set (rf_runs r) - {run}" using d by simp
  then show "fr_runId run \<notin> fr_runId ` set (remove1 run (rf_runs r))" using inj assms(2) by (auto simp: inj_on_def)
  show "distinct (map fr_runId (remove1 run (rf_runs r)))" using d inj s by (auto simp: distinct_map inj_on_def)
qed

lemma settled_commute:
  "w\<lparr>rw_settled := s, rw_resource := r, rw_starts := t\<rparr> = w\<lparr>rw_resource := r, rw_starts := t, rw_settled := s\<rparr>"
  by (cases w) simp

lemma answer_ok:
  assumes ok: "refetch_ok w" and run: "run \<in> set (rf_runs (rw_resource w))"
    and read: "parsed = None \<or> (\<exists>v. parsed = Some v \<and> rw_starts w (fr_runId run) \<le> v)"
  shows "refetch_ok ((note_start w (answer_run run parsed (rw_resource w)))\<lparr>rw_settled :=
      (if fr_runId run = rf_currentRun (rw_resource w) then rw_starts w (fr_runId run) # rw_settled w else rw_settled w)\<rparr>)"
proof -
  let ?r = "rw_resource w"
  define r1 where "r1 = store_answer run parsed (?r\<lparr>rf_runs := remove1 run (rf_runs ?r)\<rparr>)"
  have sel: "rf_currentRun r1 = rf_currentRun ?r" "rf_generation r1 = rf_generation ?r" "rf_inFlight r1 = rf_inFlight ?r"
    "rf_fetchAgain r1 = rf_fetchAgain ?r" "rf_runs r1 = remove1 run (rf_runs ?r)"
    by (simp_all add: r1_def store_answer_def)
  have runs: "runs_ok ?r" and dem: "demand_ok w" using ok by (simp_all add: refetch_ok_def)
  note gone = runs_ok_removed [OF runs run]
  have push: "push_ok (w\<lparr>rw_resource := r1\<rparr>)" unfolding r1_def by (rule answer_store_ok [OF ok run read])
  show ?thesis
  proof (cases "fr_runId run = rf_currentRun ?r")
    case False
    then have a: "answer_run run parsed ?r = r1" by (simp add: answer_run_def settle_run_def sel r1_def [symmetric])
    have "rf_currentRun ?r \<in> fr_runId ` set (rf_runs r1) \<longleftrightarrow> rf_currentRun ?r \<in> fr_runId ` set (rf_runs ?r)"
      using False gone(2) sel(5) by force
    then have "runs_ok r1" using runs gone(2,3) by (auto simp: runs_ok_def sel)
    then show ?thesis using False dem push by (simp add: a note_start_def refetch_ok_def demand_ok_def push_ok_def sel)
  next
    case True
    define r2 where "r2 = r1\<lparr>rf_inFlight := False\<rparr>"
    define s where "s = rw_starts w (rf_currentRun ?r) # rw_settled w"
    have "answer_run run parsed ?r = (if rf_fetchAgain ?r then run_fetch r2 else r2)"
      using True by (simp add: answer_run_def settle_run_def sel r1_def [symmetric] r2_def Let_def)
    moreover have r2: "runs_ok (r2\<lparr>rf_fetchAgain := False\<rparr>)"
      using runs gone True by (auto simp: runs_ok_def r2_def sel)
    moreover have push2: "push_ok (w\<lparr>rw_resource := r2, rw_settled := s\<rparr>)" using push by (simp add: push_ok_def r2_def)
    moreover have "refetch_ok (note_start (w\<lparr>rw_resource := r2\<lparr>rf_fetchAgain := False\<rparr>, rw_settled := s\<rparr>) (run_fetch (r2\<lparr>rf_fetchAgain := False\<rparr>)))"
      using started_ok [of "w\<lparr>rw_resource := r2\<lparr>rf_fetchAgain := False\<rparr>, rw_settled := s\<rparr>"] r2 push2 dem
      by (simp add: push_ok_def demand_ok_def r2_def)
    moreover have "run_fetch (r2\<lparr>rf_fetchAgain := False\<rparr>) = run_fetch r2" by (simp add: run_fetch_def Let_def)
    moreover have "refetch_ok (w\<lparr>rw_resource := r2, rw_settled := s\<rparr>)" if "\<not> rf_fetchAgain ?r"
      using r2 push2 dem that runs run True by (auto simp: refetch_ok_def runs_ok_def demand_ok_def r2_def sel s_def)
    ultimately show ?thesis
      using True by (auto simp: note_start_def s_def r2_def sel settled_commute)
  qed
qed

lemma forget_ok: "runs_ok r \<Longrightarrow> runs_ok (forget r)"
  by (fastforce simp: runs_ok_def forget_def)

lemma refetch_step_ok: "refetch_step w w' \<Longrightarrow> refetch_ok w \<Longrightarrow> refetch_ok w'"
proof (induction rule: refetch_step.induct)
  case (change w)
  then show ?case by (fastforce simp: refetch_ok_def demand_ok_def push_ok_def)
next
  case (refresh w)
  then show ?case using start_or_keep [OF refresh refl, of True] by (simp add: refresh_def Let_def if_distrib cong: if_cong)
next
  case (ensure w)
  then show ?case using start_or_keep [OF ensure refl, of "rf_store (rw_resource w) = None"] by (simp add: ensure_def Let_def)
next
  case (invalidate w)
  then show ?case by (rule invalidate_ok)
next
  case (push v w)
  have "fr_startedAt run \<le> rf_generation (rw_resource w)" if "run \<in> set (rf_runs (rw_resource w))" for run
    using push(2) that by (simp add: refetch_ok_def runs_ok_def)
  then show ?case using push by (fastforce simp: refetch_ok_def runs_ok_def demand_ok_def push_ok_def push_value_def)
next
  case (answer run w parsed)
  then show ?case using answer_ok by blast
next
  case (forget w)
  then show ?case using forget_ok [of "rw_resource w"] by (simp add: refetch_ok_def demand_ok_def push_ok_def)
next
  case (reset w)
  have "runs_ok (reset_resource (rw_resource w))"
    using forget_ok [of "rw_resource w"] reset by (auto simp: reset_resource_def runs_ok_def refetch_ok_def)
  then show ?case by (simp add: refetch_ok_def demand_ok_def push_ok_def)
qed

lemma refetch_reachable_ok: "refetch_reachable w \<Longrightarrow> refetch_ok w"
proof (induction rule: refetch_reachable.induct)
  case (init n s)
  then show ?case by (simp add: refetch_ok_def runs_ok_def demand_ok_def push_ok_def createRefetchable_def)
next
  case (step w w')
  then show ?case using refetch_step_ok by blast
qed


section \<open>Properties\<close>

text \<open>
  C29. A pushed value is never replaced by older data: after a push, and until the resource is
  forgotten, the cache holds a value at least as new as the pushed one, whatever fetches were
  under way when it arrived.
\<close>

theorem push_not_overwritten:
  assumes "refetch_reachable w" and "rw_pushed w = Some p"
  shows "\<exists>v. rf_store (rw_resource w) = Some v \<and> p \<le> v"
  using refetch_reachable_ok [OF assms(1)] assms(2) by (simp add: refetch_ok_def push_ok_def)

definition refetch_world0 :: refetch_world where
  "refetch_world0 = \<lparr>rw_resource = createRefetchable, rw_revision = 3, rw_starts = (\<lambda>_. 0), rw_demand = None, rw_settled = [], rw_pushed = None\<rparr>"

definition refetch_world1 :: refetch_world where
  "refetch_world1 = refetch_world0\<lparr>rw_resource := push_value 3 (rw_resource refetch_world0), rw_pushed := Some 3\<rparr>"

lemma refetch_world0_reachable: "refetch_reachable refetch_world0"
  unfolding refetch_world0_def by (rule refetch_reachable.init)

theorem push_not_overwritten_witness: "\<exists>v. rf_store (rw_resource refetch_world1) = Some v \<and> 3 \<le> v"
proof -
  have "refetch_step refetch_world0 refetch_world1"
    unfolding refetch_world1_def by (rule refetch_step.push) (simp add: refetch_world0_def)
  then have "refetch_reachable refetch_world1" using refetch_world0_reachable refetch_reachable.step by blast
  then show ?thesis by (rule push_not_overwritten) (simp add: refetch_world1_def)
qed

text \<open>
  C30. No change is missed: when nothing is being fetched, a fetch that started after the last
  invalidation has settled, even if that invalidation arrived while another fetch was running.
\<close>

theorem invalidation_served:
  assumes "refetch_reachable w" and "rw_demand w = Some d" and "\<not> rf_inFlight (rw_resource w)"
  shows "\<exists>s\<in>set (rw_settled w). d \<le> s"
  using refetch_reachable_ok [OF assms(1)] assms(2,3) by (auto simp: refetch_ok_def demand_ok_def)

definition refetch_world2 :: refetch_world where
  "refetch_world2 = (note_start refetch_world0 (invalidate (rw_resource refetch_world0)))\<lparr>rw_demand := Some 3\<rparr>"

definition refetch_world3 :: refetch_world where
  "refetch_world3 = (note_start refetch_world2 (answer_run \<lparr>fr_runId = 1, fr_startedAt = 0\<rparr> (Some 3) (rw_resource refetch_world2)))\<lparr>rw_settled := [3]\<rparr>"

theorem invalidation_served_witness: "\<exists>s\<in>set (rw_settled refetch_world3). 3 \<le> s"
proof -
  have "refetch_step refetch_world0 refetch_world2"
    using refetch_step.invalidate [of refetch_world0] by (simp add: refetch_world2_def refetch_world0_def)
  moreover have "refetch_step refetch_world2 refetch_world3"
  proof -
    have "\<lparr>fr_runId = 1, fr_startedAt = 0\<rparr> \<in> set (rf_runs (rw_resource refetch_world2))" "rf_currentRun (rw_resource refetch_world2) = 1"
      "rw_starts refetch_world2 1 = 3" "rw_revision refetch_world2 = 3" "rw_settled refetch_world2 = []"
      by (simp_all add: refetch_world2_def refetch_world0_def createRefetchable_def invalidate_def note_start_def Let_def run_fetch_def)
    then show ?thesis using refetch_step.answer [of "\<lparr>fr_runId = 1, fr_startedAt = 0\<rparr>" refetch_world2 "Some 3"] by (simp add: refetch_world3_def)
  qed
  ultimately have "refetch_reachable refetch_world3" using refetch_world0_reachable refetch_reachable.step by blast
  then show ?thesis
    by (rule invalidation_served)
      (simp_all add: refetch_world3_def refetch_world2_def refetch_world0_def createRefetchable_def refetch_defs note_start_def Let_def)
qed

end
