(* ===== verification/Companion_Sessions.thy ===== *)
theory Companion_Sessions
  imports JS_Date
begin

text \<open>
  The agent sessions of the companion app (\<open>stores/sessions.ts\<close>): the live sessions and those
  that ended today, folded from the daemon's events, enriched by what the server knows, and the
  scheduler that polls the server. An instant is its milliseconds since the epoch; the local date
  of an instant depends on the time zone of the host and is a parameter. \<open>ended_at\<close> is the ISO
  string of an instant and is kept as that instant. The hooks that only select from the store are
  left out.
\<close>


section \<open>Sessions\<close>

record session_tokens =
  tk_input :: jsnum
  tk_output :: jsnum
  tk_cache_read :: jsnum
  tk_cache_write :: jsnum

record local_session =
  native_session_id :: string
  ls_harness :: string
  ls_repo :: "string option"
  ls_mapping_id :: "string option"
  ls_started_at :: "string option"
  last_event_at :: "string option"
  ls_tokens :: "session_tokens option"
  ls_cost_estimated_usd :: "jsnum option"
  ls_cost_basis :: "string option"
  ls_auth_kind :: "string option"
  ls_history_deleted :: "string option"

record server_session_facts =
  sf_server_id :: string
  sf_cost_estimated_usd :: "jsnum option"
  sf_cost_reported_usd :: "jsnum option"
  sf_cost_basis :: "string option"
  sf_tokens :: "session_tokens option"
  sf_workspace_id :: "string option"
  sf_board_id :: "string option"
  sf_mapping_id :: "string option"

record tracked_session = local_session +
  ts_server_id :: "string option"
  ts_cost_reported_usd :: "jsnum option"
  ts_tokens_from_server :: bool
  ts_server_workspace_id :: "string option"
  ts_server_board_id :: "string option"
  ts_server_mapping_id :: "string option"

record ended_session = tracked_session +
  ended_at :: int

record sessions_state =
  ss_live :: "tracked_session list"
  ss_liveCount :: nat
  ss_endedToday :: "ended_session list"
  ss_server :: "(string, server_session_facts) jsmap"

record session_event =
  se_kind :: string
  se_session :: local_session

definition EMPTY_SESSIONS :: sessions_state where
  "EMPTY_SESSIONS = \<lparr>ss_live = [], ss_liveCount = 0, ss_endedToday = [], ss_server = []\<rparr>"

text \<open>An incoming session has none of the optional fields yet.\<close>

definition as_tracked :: "local_session \<Rightarrow> tracked_session" where
  "as_tracked s = local_session.extend s (tracked_session.fields None None False None None None)"

definition as_ended :: "tracked_session \<Rightarrow> int \<Rightarrow> ended_session" where
  "as_ended s t = tracked_session.extend s (ended_session.fields t)"

definition older_time :: "int option \<Rightarrow> int option \<Rightarrow> bool" where
  "older_time a b = (case (a, b) of (Some x, Some y) \<Rightarrow> x < y | _ \<Rightarrow> False)"

definition isOlder :: "'a local_session_scheme \<Rightarrow> 'b local_session_scheme \<Rightarrow> bool" where
  "isOlder incoming held =
     (if \<not> js_truthy (last_event_at incoming) \<or> \<not> js_truthy (last_event_at held) then False
      else older_time (date_parse (the (last_event_at incoming))) (date_parse (the (last_event_at held))))"

definition sameLocalDay :: "(int \<Rightarrow> 'd) \<Rightarrow> int \<Rightarrow> int \<Rightarrow> bool" where
  "sameLocalDay local_date a b = (local_date a = local_date b)"

definition or_null :: "'a option \<Rightarrow> 'a option \<Rightarrow> 'a option" where
  "or_null a b = (if a = None then b else a)"

definition withServerFacts :: "'a tracked_session_scheme \<Rightarrow> server_session_facts option \<Rightarrow> 'a tracked_session_scheme" where
  "withServerFacts s facts = (let
       streamTokens = (if ts_tokens_from_server s then None else ls_tokens s);
       tokens = or_null streamTokens (Option.bind facts sf_tokens)
     in s\<lparr>ts_server_id := map_option sf_server_id facts,
          ls_cost_estimated_usd := or_null (Option.bind facts sf_cost_estimated_usd) (ls_cost_estimated_usd s),
          ts_cost_reported_usd := Option.bind facts sf_cost_reported_usd,
          ls_cost_basis := or_null (Option.bind facts sf_cost_basis) (ls_cost_basis s),
          ls_tokens := tokens,
          ts_tokens_from_server := (streamTokens = None \<and> tokens \<noteq> None),
          ts_server_workspace_id := Option.bind facts sf_workspace_id,
          ts_server_board_id := Option.bind facts sf_board_id,
          ts_server_mapping_id := Option.bind facts sf_mapping_id\<rparr>)"

definition withLive :: "sessions_state \<Rightarrow> tracked_session list \<Rightarrow> sessions_state" where
  "withLive st live = st\<lparr>ss_live := live, ss_liveCount := length live\<rparr>"

text \<open>
  The fold of one event. \<open>held\<close> is an object of the live list, told from the others by
  reference, so it is the position of the first session with the id. The call that tells the
  enrichment about an ended session is in \<open>applySessionEvent\<close> below.
\<close>

definition store_event :: "(int \<Rightarrow> 'd) \<Rightarrow> session_event \<Rightarrow> int \<Rightarrow> sessions_state \<Rightarrow> sessions_state" where
  "store_event local_date event now st = (let
       incoming = se_session event;
       sid = native_session_id incoming;
       held = js_findIndex (\<lambda>s. native_session_id s = sid) (ss_live st);
       alreadyEnded = list_ex (\<lambda>s. native_session_id s = sid) (ss_endedToday st);
       tracked = withServerFacts (as_tracked incoming) (jm_get (ss_server st) sid)
     in
       if se_kind event = ''started'' \<or> se_kind event = ''updated'' then
         (if alreadyEnded then st
          else case held of
            Some i \<Rightarrow> if isOlder incoming (ss_live st ! i) then st else withLive st ((ss_live st)[i := tracked])
          | None \<Rightarrow> withLive st (tracked # ss_live st))
       else if se_kind event = ''ended'' then
         (let live = (case held of Some i \<Rightarrow> take i (ss_live st) @ drop (Suc i) (ss_live st) | None \<Rightarrow> ss_live st);
              ended = (if alreadyEnded then ss_endedToday st
                else as_ended tracked now # filter (\<lambda>s. sameLocalDay local_date (ended_at s) now) (ss_endedToday st))
          in (withLive st live)\<lparr>ss_endedToday := ended\<rparr>)
       else st)"

definition clearLiveSessions :: "sessions_state \<Rightarrow> sessions_state" where
  "clearLiveSessions st = (if length (ss_live st) > 0 then withLive st [] else st)"


section \<open>What the server knows\<close>

definition numberOrNull :: "json option \<Rightarrow> jsnum option" where
  "numberOrNull v = (case v of Some (JNum (Fin q)) \<Rightarrow> Some (Fin q) | _ \<Rightarrow> None)"

definition stringOrNull :: "json option \<Rightarrow> string option" where
  "stringOrNull v = (case v of Some (JStr s) \<Rightarrow> if s \<noteq> '''' then Some s else None | _ \<Rightarrow> None)"

definition serverTokens :: "json \<Rightarrow> session_tokens option" where
  "serverTokens item =
     (case (numberOrNull (jfield item ''input_tokens''), numberOrNull (jfield item ''output_tokens''),
            numberOrNull (jfield item ''cache_read_tokens''), numberOrNull (jfield item ''cache_creation_tokens'')) of
        (Some input, Some output, Some cacheRead, Some cacheWrite) \<Rightarrow>
          Some \<lparr>tk_input = input, tk_output = output, tk_cache_read = cacheRead, tk_cache_write = cacheWrite\<rparr>
      | _ \<Rightarrow> None)"

definition serverFacts :: "json \<Rightarrow> (string \<times> server_session_facts) option" where
  "serverFacts item =
     (case (jfield item ''id'', jfield item ''native_session_id'') of
        (Some (JStr server_id), Some (JStr native_id)) \<Rightarrow>
          Some (native_id, \<lparr>sf_server_id = server_id,
            sf_cost_estimated_usd = numberOrNull (jfield item ''cost_estimated_usd''),
            sf_cost_reported_usd = numberOrNull (jfield item ''cost_reported_usd''),
            sf_cost_basis = jstr (jfield item ''cost_basis''),
            sf_tokens = serverTokens item,
            sf_workspace_id = stringOrNull (jfield item ''workspace_id''),
            sf_board_id = stringOrNull (jfield item ''board_id''),
            sf_mapping_id = stringOrNull (jfield item ''mapping_id'')\<rparr>)
      | _ \<Rightarrow> None)"

definition held_ids :: "sessions_state \<Rightarrow> string list" where
  "held_ids st = map native_session_id (ss_live st) @ map native_session_id (ss_endedToday st)"

definition mergeServerSessions :: "json \<Rightarrow> sessions_state \<Rightarrow> sessions_state" where
  "mergeServerSessions page st =
     (case jfield page ''items'' of
        Some (JArr items) \<Rightarrow>
          (let held = held_ids st;
               fresh = filter (\<lambda>entry. fst entry \<in> set held) (List.map_filter serverFacts items)
           in if fresh = [] then st
              else let server = fold (\<lambda>(sid, facts). jm_set sid facts) fresh (filter (\<lambda>entry. fst entry \<in> set held) (ss_server st));
                       live = map (\<lambda>s. withServerFacts s (jm_get server (native_session_id s))) (ss_live st);
                       ended = map (\<lambda>s. (withServerFacts s (jm_get server (native_session_id s)))\<lparr>ended_at := ended_at s\<rparr>) (ss_endedToday st)
                   in (withLive st live)\<lparr>ss_endedToday := ended, ss_server := server\<rparr>)
      | _ \<Rightarrow> st)"

definition serverSessionId :: "string \<Rightarrow> sessions_state \<Rightarrow> string option" where
  "serverSessionId sid st = map_option sf_server_id (jm_get (ss_server st) sid)"


section \<open>Polling the server\<close>

text \<open>
  \<open>lastFetchAt\<close> is \<open>None\<close> for minus infinity. A trailing timer is the instant it is due, \<open>None\<close>
  when none is pending; the poll timer is whether it runs. Two fields count the requests under
  way and log the instants of all of them, the newest first.
\<close>

definition SERVER_SESSIONS_REFRESH_MS :: int where
  "SERVER_SESSIONS_REFRESH_MS = 20000"

record enrichment =
  en_lastFetchAt :: "int option"
  en_trailingTimer :: "int option"
  en_owed :: bool
  en_pollTimer :: bool
  en_stopped :: bool
  en_pending :: nat
  en_fetches :: "int list"

definition fetchNow :: "int \<Rightarrow> enrichment \<Rightarrow> enrichment" where
  "fetchNow now e = e\<lparr>en_lastFetchAt := Some now, en_owed := False, en_pending := en_pending e + 1, en_fetches := now # en_fetches e\<rparr>"

definition requestRefresh :: "int \<Rightarrow> enrichment \<Rightarrow> enrichment" where
  "requestRefresh now e =
     (if en_stopped e then e
      else case en_lastFetchAt e of
        None \<Rightarrow> fetchNow now (e\<lparr>en_trailingTimer := None\<rparr>)
      | Some last_fetch \<Rightarrow>
          (let wait = last_fetch + SERVER_SESSIONS_REFRESH_MS - now in
           if wait \<le> 0 then fetchNow now (e\<lparr>en_trailingTimer := None\<rparr>)
           else e\<lparr>en_trailingTimer := or_null (en_trailingTimer e) (Some (now + wait))\<rparr>))"

definition trailing_fires :: "int \<Rightarrow> enrichment \<Rightarrow> enrichment" where
  "trailing_fires now e = requestRefresh now (e\<lparr>en_trailingTimer := None\<rparr>)"

definition followVisibility :: "int \<Rightarrow> bool \<Rightarrow> enrichment \<Rightarrow> enrichment" where
  "followVisibility now visible e =
     (if visible \<and> \<not> en_pollTimer e then (requestRefresh now e)\<lparr>en_pollTimer := True\<rparr>
      else if \<not> visible then
        (let e' = e\<lparr>en_pollTimer := False\<rparr> in if \<not> en_owed e' then e'\<lparr>en_trailingTimer := None\<rparr> else e')
      else e)"

definition sessionEnded :: "int \<Rightarrow> enrichment \<Rightarrow> enrichment" where
  "sessionEnded now e = requestRefresh now (e\<lparr>en_owed := True\<rparr>)"

definition new_enrichment :: enrichment where
  "new_enrichment = \<lparr>en_lastFetchAt = None, en_trailingTimer = None, en_owed = False, en_pollTimer = False,
     en_stopped = False, en_pending = 0, en_fetches = []\<rparr>"

text \<open>The state of the module: the store and the enrichment that is active, with the clock.\<close>

record session_world =
  sw_now :: int
  sw_store :: sessions_state
  sw_active :: "enrichment option"

definition applySessionEvent :: "(int \<Rightarrow> 'd) \<Rightarrow> session_event \<Rightarrow> session_world \<Rightarrow> session_world" where
  "applySessionEvent local_date event w =
     w\<lparr>sw_active := (if se_kind event = ''ended'' then map_option (sessionEnded (sw_now w)) (sw_active w) else sw_active w),
       sw_store := store_event local_date event (sw_now w) (sw_store w)\<rparr>"

definition startSessionEnrichment :: "bool \<Rightarrow> session_world \<Rightarrow> session_world" where
  "startSessionEnrichment visible w =
     (case sw_active w of
        Some _ \<Rightarrow> w
      | None \<Rightarrow> w\<lparr>sw_active := Some (followVisibility (sw_now w) visible new_enrichment)\<rparr>)"

text \<open>A stopped enrichment has no timers and drops the answers of its requests, so nothing of it is left.\<close>

definition stop_enrichment :: "session_world \<Rightarrow> session_world" where
  "stop_enrichment w = w\<lparr>sw_active := None\<rparr>"

definition page_arrives :: "enrichment \<Rightarrow> json option \<Rightarrow> session_world \<Rightarrow> session_world" where
  "page_arrives e page w =
     w\<lparr>sw_active := Some (e\<lparr>en_pending := en_pending e - 1\<rparr>),
       sw_store := (case page of Some p \<Rightarrow> if \<not> en_stopped e then mergeServerSessions p (sw_store w) else sw_store w | None \<Rightarrow> sw_store w)\<rparr>"

definition with_active :: "(enrichment \<Rightarrow> enrichment) \<Rightarrow> session_world \<Rightarrow> session_world" where
  "with_active f w = w\<lparr>sw_active := map_option f (sw_active w)\<rparr>"

inductive session_step :: "(int \<Rightarrow> 'd) \<Rightarrow> session_world \<Rightarrow> session_world \<Rightarrow> bool" for local_date where
  time: "0 \<le> dt \<Longrightarrow> session_step local_date w (w\<lparr>sw_now := sw_now w + dt\<rparr>)"
| event: "session_step local_date w (applySessionEvent local_date ev w)"
| daemon_gone: "session_step local_date w (w\<lparr>sw_store := clearLiveSessions (sw_store w)\<rparr>)"
| start: "session_step local_date w (startSessionEnrichment visible w)"
| stop: "session_step local_date w (stop_enrichment w)"
| visibility: "session_step local_date w (with_active (followVisibility (sw_now w) visible) w)"
| trailing: "sw_active w = Some e \<Longrightarrow> en_trailingTimer e = Some due \<Longrightarrow> due \<le> sw_now w \<Longrightarrow>
    session_step local_date w (with_active (trailing_fires (sw_now w)) w)"
| poll: "sw_active w = Some e \<Longrightarrow> en_pollTimer e \<Longrightarrow> session_step local_date w (with_active (requestRefresh (sw_now w)) w)"
| page: "sw_active w = Some e \<Longrightarrow> 0 < en_pending e \<Longrightarrow> session_step local_date w (page_arrives e answer w)"

inductive session_steps :: "(int \<Rightarrow> 'd) \<Rightarrow> session_world \<Rightarrow> session_world \<Rightarrow> bool" for local_date where
  refl: "session_steps local_date w w"
| step: "session_steps local_date w w' \<Longrightarrow> session_step local_date w' w'' \<Longrightarrow> session_steps local_date w w''"

definition session_start :: "int \<Rightarrow> session_world" where
  "session_start now = \<lparr>sw_now = now, sw_store = EMPTY_SESSIONS, sw_active = None\<rparr>"



section \<open>Sessions are kept once\<close>

lemma withServerFacts_sel [simp]:
  "native_session_id (withServerFacts s f) = native_session_id s"
  "last_event_at (withServerFacts s f) = last_event_at s"
  "ended_at (withServerFacts e f) = ended_at e"
  by (simp_all add: withServerFacts_def Let_def)

lemma as_tracked_sel [simp]: "native_session_id (as_tracked s) = native_session_id s" "last_event_at (as_tracked s) = last_event_at s"
  by (simp_all add: as_tracked_def local_session.defs tracked_session.defs)

lemma as_ended_sel [simp]: "native_session_id (as_ended s t) = native_session_id s" "ended_at (as_ended s t) = t"
  by (simp_all add: as_ended_def tracked_session.defs ended_session.defs local_session.defs)

abbreviation live_ids :: "sessions_state \<Rightarrow> string list" where
  "live_ids st \<equiv> map native_session_id (ss_live st)"

abbreviation ended_ids :: "sessions_state \<Rightarrow> string list" where
  "ended_ids st \<equiv> map native_session_id (ss_endedToday st)"

definition sessions_ok :: "sessions_state \<Rightarrow> bool" where
  "sessions_ok st \<longleftrightarrow> distinct (live_ids st) \<and> distinct (ended_ids st) \<and> set (live_ids st) \<inter> set (ended_ids st) = {} \<and> ss_liveCount st = length (ss_live st)"

lemma EMPTY_SESSIONS_ok: "sessions_ok EMPTY_SESSIONS"
  by (simp add: sessions_ok_def EMPTY_SESSIONS_def)

lemma clearLiveSessions_ok: "sessions_ok st \<Longrightarrow> sessions_ok (clearLiveSessions st)"
  by (simp add: sessions_ok_def clearLiveSessions_def withLive_def)

lemma mergeServerSessions_sel [simp]:
  "live_ids (mergeServerSessions page st) = live_ids st"
  "ended_ids (mergeServerSessions page st) = ended_ids st"
  "map ended_at (ss_endedToday (mergeServerSessions page st)) = map ended_at (ss_endedToday st)"
  by (simp_all add: mergeServerSessions_def withLive_def Let_def o_def split: option.split json.split)

lemma mergeServerSessions_ok: "sessions_ok st \<Longrightarrow> sessions_ok (mergeServerSessions page st)"
  using arg_cong [OF mergeServerSessions_sel(1), of length page st]
  by (simp add: sessions_ok_def) (simp add: mergeServerSessions_def withLive_def Let_def split: option.split json.split)

text \<open>The three ways an event can change the store.\<close>

lemma update_held_ids:
  assumes "js_findIndex (\<lambda>s. native_session_id s = sid) live = Some i" and "native_session_id t = sid"
  shows "map native_session_id (live[i := t]) = map native_session_id live"
  using js_findIndex_Some [OF assms(1)] assms(2) by (simp add: map_update list_update_same_conv)

lemma remove_held_ids:
  assumes "js_findIndex (\<lambda>s. native_session_id s = sid) live = Some i"
  shows "map native_session_id (take i live @ drop (Suc i) live) = remove1 sid (map native_session_id live)"
  using assms by (induction live arbitrary: i) (auto split: if_splits)

lemma missing_held_ids:
  assumes "js_findIndex (\<lambda>s. native_session_id s = sid) live = None"
  shows "remove1 sid (map native_session_id live) = map native_session_id live"
  using assms by (intro remove1_idem) (auto simp: js_findIndex_None)

lemma list_ex_key: "list_ex (\<lambda>x. f x = k) xs \<longleftrightarrow> k \<in> set (map f xs)"
  by (induction xs) auto

lemma update_event_ids:
  assumes "se_kind ev = ''started'' \<or> se_kind ev = ''updated''"
  shows "ss_endedToday (store_event local_date ev now st) = ss_endedToday st"
    and "live_ids (store_event local_date ev now st) =
      (let sid = native_session_id (se_session ev) in
       if sid \<in> set (ended_ids st) \<or> sid \<in> set (live_ids st) then live_ids st else sid # live_ids st)"
proof -
  let ?sid = "native_session_id (se_session ev)"
  have ended: "list_ex (\<lambda>s. native_session_id s = ?sid) (ss_endedToday st) \<longleftrightarrow> ?sid \<in> set (ended_ids st)"
    by (rule list_ex_key)
  show "ss_endedToday (store_event local_date ev now st) = ss_endedToday st"
    using assms by (auto simp: store_event_def Let_def withLive_def split: option.split)
  show "live_ids (store_event local_date ev now st) = (let sid = ?sid in
       if sid \<in> set (ended_ids st) \<or> sid \<in> set (live_ids st) then live_ids st else sid # live_ids st)"
  proof (cases "js_findIndex (\<lambda>s. native_session_id s = ?sid) (ss_live st)")
    case None
    moreover from None have "?sid \<notin> set (live_ids st)" by (auto simp: js_findIndex_None)
    ultimately show ?thesis using assms ended by (simp add: store_event_def Let_def withLive_def)
  next
    case (Some i)
    then have "?sid \<in> set (live_ids st)" using js_findIndex_Some [OF Some] by (metis imageI list.set_map nth_mem)
    then show ?thesis using assms ended Some update_held_ids [OF Some] by (simp add: store_event_def Let_def withLive_def)
  qed
qed

lemma ended_event_live:
  assumes "se_kind ev = ''ended''"
  shows "live_ids (store_event local_date ev now st) = remove1 (native_session_id (se_session ev)) (live_ids st)"
proof (cases "js_findIndex (\<lambda>s. native_session_id s = native_session_id (se_session ev)) (ss_live st)")
  case None
  then show ?thesis using assms missing_held_ids [OF None] by (simp add: store_event_def Let_def withLive_def)
next
  case (Some i)
  then show ?thesis using assms remove_held_ids [OF Some] by (simp add: store_event_def Let_def withLive_def)
qed

lemma ended_event_ended:
  assumes "se_kind ev = ''ended''"
  shows "ss_endedToday (store_event local_date ev now st) =
      (if native_session_id (se_session ev) \<in> set (ended_ids st) then ss_endedToday st
       else as_ended (withServerFacts (as_tracked (se_session ev)) (jm_get (ss_server st) (native_session_id (se_session ev)))) now #
         filter (\<lambda>s. local_date (ended_at s) = local_date now) (ss_endedToday st))"
proof -
  have "list_ex (\<lambda>s. native_session_id s = sid) (ss_endedToday st) \<longleftrightarrow> sid \<in> set (ended_ids st)" for sid
    by (rule list_ex_key)
  then show ?thesis using assms by (simp add: store_event_def Let_def withLive_def sameLocalDay_def)
qed

lemma other_event: "se_kind ev \<noteq> ''started'' \<Longrightarrow> se_kind ev \<noteq> ''updated'' \<Longrightarrow> se_kind ev \<noteq> ''ended'' \<Longrightarrow> store_event local_date ev now st = st"
  by (simp add: store_event_def Let_def)

lemma store_event_count: "ss_liveCount st = length (ss_live st) \<Longrightarrow> ss_liveCount (store_event local_date ev now st) = length (ss_live (store_event local_date ev now st))"
  by (simp add: store_event_def Let_def withLive_def split: option.split)

lemma store_event_ok:
  assumes ok: "sessions_ok st"
  shows "sessions_ok (store_event local_date ev now st)"
proof -
  let ?st = "store_event local_date ev now st" and ?sid = "native_session_id (se_session ev)"
  have count: "ss_liveCount ?st = length (ss_live ?st)" using ok by (intro store_event_count) (simp add: sessions_ok_def)
  consider (upd) "se_kind ev = ''started'' \<or> se_kind ev = ''updated''" | (fin) "se_kind ev = ''ended''"
    | (none) "store_event local_date ev now st = st" using other_event by blast
  then show ?thesis
  proof cases
    case upd
    then show ?thesis using ok count update_event_ids [OF upd, of local_date now st] by (auto simp: sessions_ok_def Let_def)
  next
    case fin
    have live: "live_ids ?st = remove1 ?sid (live_ids st)" by (rule ended_event_live [OF fin])
    have "set (live_ids ?st) = set (live_ids st) - {?sid}" using ok unfolding live by (simp add: sessions_ok_def)
    moreover have "distinct (live_ids ?st)" using ok unfolding live by (simp add: sessions_ok_def)
    moreover have "distinct (ended_ids ?st)"
      using ok distinct_map_filter [of native_session_id "ss_endedToday st"] unfolding ended_event_ended [OF fin] sessions_ok_def by auto
    moreover have "set (ended_ids ?st) \<subseteq> insert ?sid (set (ended_ids st))" unfolding ended_event_ended [OF fin] by auto
    moreover have "set (live_ids st) \<inter> set (ended_ids st) = {}" using ok by (simp add: sessions_ok_def)
    ultimately show ?thesis unfolding sessions_ok_def using count by blast
  qed (simp add: ok)
qed



section \<open>An ended session stays ended for its day\<close>

text \<open>What the code relies on of the host's calendar: instants with the same local date are an interval.\<close>

locale calendar =
  fixes local_date :: "int \<Rightarrow> 'd"
  assumes day_interval: "a \<le> b \<Longrightarrow> b \<le> c \<Longrightarrow> local_date a = local_date c \<Longrightarrow> local_date b = local_date c"

text \<open>The UTC calendar, its days numbered from the epoch.\<close>

definition utc_date :: "int \<Rightarrow> int" where
  "utc_date t = t div 86400000"

interpretation utc: calendar utc_date
proof
  fix a b c :: int
  assume "a \<le> b" and "b \<le> c" and "utc_date a = utc_date c"
  then show "utc_date b = utc_date c" using zdiv_mono1 [of a b 86400000] zdiv_mono1 [of b c 86400000] by (simp add: utc_date_def)
qed

definition session_ends :: "sessions_state \<Rightarrow> (string \<times> int) list" where
  "session_ends st = map (\<lambda>s. (native_session_id s, ended_at s)) (ss_endedToday st)"

lemma session_ends_zip: "session_ends st = zip (ended_ids st) (map ended_at (ss_endedToday st))"
  by (simp add: session_ends_def zip_map_map zip_same_conv_map)

lemma session_ends_merge [simp]: "session_ends (mergeServerSessions page st) = session_ends st"
  by (simp add: session_ends_zip)

lemma session_ends_clear [simp]: "session_ends (clearLiveSessions st) = session_ends st"
  by (simp add: session_ends_def clearLiveSessions_def withLive_def)

lemma session_ends_event:
  "set (session_ends (store_event local_date ev now st)) \<subseteq> insert (native_session_id (se_session ev), now) (set (session_ends st))"
  "{p \<in> set (session_ends st). local_date (snd p) = local_date now} \<subseteq> set (session_ends (store_event local_date ev now st))"
proof -
  let ?st = "store_event local_date ev now st"
  consider (upd) "ss_endedToday ?st = ss_endedToday st" | (fin) "se_kind ev = ''ended''"
    using other_event update_event_ids(1) by metis
  then have "set (session_ends ?st) \<subseteq> insert (native_session_id (se_session ev), now) (set (session_ends st)) \<and>
    {p \<in> set (session_ends st). local_date (snd p) = local_date now} \<subseteq> set (session_ends ?st)"
  proof cases
    case fin
    then show ?thesis by (auto simp: session_ends_def ended_event_ended)
  qed (auto simp: session_ends_def)
  then show "set (session_ends ?st) \<subseteq> insert (native_session_id (se_session ev), now) (set (session_ends st))"
    and "{p \<in> set (session_ends st). local_date (snd p) = local_date now} \<subseteq> set (session_ends ?st)" by blast+
qed

text \<open>Every step moves the clock forward and does at most one operation on the store.\<close>

lemma session_step_now: "session_step local_date w w' \<Longrightarrow> sw_now w \<le> sw_now w'"
  by (induction rule: session_step.induct)
    (simp_all add: applySessionEvent_def startSessionEnrichment_def stop_enrichment_def with_active_def page_arrives_def split: option.split)

lemma session_step_store:
  assumes "session_step local_date w w'"
  obtains (same) "sw_store w' = sw_store w"
    | (event) ev where "sw_store w' = store_event local_date ev (sw_now w) (sw_store w)"
    | (clear) "sw_store w' = clearLiveSessions (sw_store w)"
    | (merge) page where "sw_store w' = mergeServerSessions page (sw_store w)"
  using assms
  by (cases rule: session_step.cases)
    (auto simp: applySessionEvent_def startSessionEnrichment_def stop_enrichment_def with_active_def page_arrives_def split: option.splits if_splits)

lemma session_step_ok: "session_step local_date w w' \<Longrightarrow> sessions_ok (sw_store w) \<Longrightarrow> sessions_ok (sw_store w')"
  by (erule session_step_store) (simp_all add: store_event_ok clearLiveSessions_ok mergeServerSessions_ok)

definition ends_past :: "session_world \<Rightarrow> bool" where
  "ends_past w \<longleftrightarrow> (\<forall>(sid, t)\<in>set (session_ends (sw_store w)). t \<le> sw_now w)"

lemma session_step_past:
  assumes "session_step local_date w w'" and "ends_past w"
  shows "ends_past w'"
proof -
  have "set (session_ends (sw_store w')) \<subseteq> set (session_ends (sw_store w)) \<union> {p. snd p = sw_now w}"
    using assms(1) session_ends_event(1) [of local_date] by (elim session_step_store) fastforce+
  then show ?thesis using assms(2) session_step_now [OF assms(1)] by (fastforce simp: ends_past_def)
qed

lemma session_steps_ok:
  assumes "session_steps local_date w w'" and "sessions_ok (sw_store w)" and "ends_past w"
  shows "sessions_ok (sw_store w') \<and> ends_past w'"
  using assms by (induction rule: session_steps.induct) (auto intro: session_step_ok session_step_past)

lemma session_start_ok: "sessions_ok (sw_store (session_start t))" "ends_past (session_start t)"
  by (simp_all add: session_start_def EMPTY_SESSIONS_ok ends_past_def session_ends_def) (simp add: EMPTY_SESSIONS_def)

context calendar
begin

lemma end_kept:
  assumes "session_steps local_date w w'" and "sessions_ok (sw_store w)" and "ends_past w" and "(sid, t) \<in> set (session_ends (sw_store w))"
    and "local_date t = local_date (sw_now w')"
  shows "(sid, t) \<in> set (session_ends (sw_store w'))"
  using assms
proof (induction rule: session_steps.induct)
  case (step w w' w'')
  have now: "sw_now w' \<le> sw_now w''" by (rule session_step_now [OF step.hyps(2)])
  have "session_steps local_date w w'' \<Longrightarrow> sw_now w \<le> sw_now w''" for w w''
    by (induction rule: session_steps.induct) (auto dest: session_step_now)
  then have "t \<le> sw_now w'" using step.hyps(1) step.prems(2,3) by (fastforce simp: ends_past_def)
  from day_interval [OF this now] step.prems(4) have day: "local_date t = local_date (sw_now w')" by simp
  then have kept: "(sid, t) \<in> set (session_ends (sw_store w'))" using step by blast
  from step.hyps(2) show ?case
  proof (cases rule: session_step_store)
    case (event ev)
    then show ?thesis using session_ends_event(2) [of "sw_store w'" local_date "sw_now w'" ev] kept day by auto
  qed (use kept in simp_all)
qed

end


section \<open>The scheduler\<close>

definition rate_ok :: "int list \<Rightarrow> bool" where
  "rate_ok fetches = successively (\<lambda>later earlier. earlier + SERVER_SESSIONS_REFRESH_MS \<le> later) fetches"

definition enrichment_ok :: "enrichment \<Rightarrow> bool" where
  "enrichment_ok e \<longleftrightarrow> \<not> en_stopped e \<and> en_lastFetchAt e = (case en_fetches e of [] \<Rightarrow> None | t # _ \<Rightarrow> Some t) \<and> rate_ok (en_fetches e) \<and>
     (\<forall>due. en_trailingTimer e = Some due \<longrightarrow> (\<exists>t. en_lastFetchAt e = Some t \<and> due = t + SERVER_SESSIONS_REFRESH_MS))"

definition owed_scheduled :: "enrichment \<Rightarrow> bool" where
  "owed_scheduled e \<longleftrightarrow> (en_owed e \<longrightarrow> en_trailingTimer e \<noteq> None)"

lemma fetchNow_ok:
  assumes "enrichment_ok e" and "\<And>t. en_lastFetchAt e = Some t \<Longrightarrow> t + SERVER_SESSIONS_REFRESH_MS \<le> now"
  shows "enrichment_ok (fetchNow now (e\<lparr>en_trailingTimer := None\<rparr>))"
  using assms by (cases "en_fetches e") (simp_all add: enrichment_ok_def fetchNow_def rate_ok_def)

lemma enrichment_okD:
  assumes "enrichment_ok e"
  shows "\<not> en_stopped e" and "en_trailingTimer e = Some due \<Longrightarrow> \<exists>t. en_lastFetchAt e = Some t \<and> due = t + SERVER_SESSIONS_REFRESH_MS"
  using assms unfolding enrichment_ok_def by blast+

lemma requestRefresh_ok:
  assumes "enrichment_ok e"
  shows "enrichment_ok (requestRefresh now e)" "owed_scheduled (requestRefresh now e)"
proof -
  consider (fetch) "requestRefresh now e = fetchNow now (e\<lparr>en_trailingTimer := None\<rparr>)" "\<And>t. en_lastFetchAt e = Some t \<Longrightarrow> t + SERVER_SESSIONS_REFRESH_MS \<le> now"
    | (wait) t where "en_lastFetchAt e = Some t" "requestRefresh now e = e\<lparr>en_trailingTimer := or_null (en_trailingTimer e) (Some (t + SERVER_SESSIONS_REFRESH_MS))\<rparr>"
    using enrichment_okD(1) [OF assms] by (cases "en_lastFetchAt e") (fastforce simp: requestRefresh_def Let_def algebra_simps split: if_splits)+
  then have "enrichment_ok (requestRefresh now e) \<and> owed_scheduled (requestRefresh now e)"
  proof cases
    case fetch
    then show ?thesis using fetchNow_ok [OF assms] by (simp add: owed_scheduled_def fetchNow_def)
  next
    case (wait t)
    then show ?thesis using assms by (cases "en_fetches e") (auto simp: enrichment_ok_def owed_scheduled_def or_null_def)
  qed
  then show "enrichment_ok (requestRefresh now e)" "owed_scheduled (requestRefresh now e)" by simp_all
qed

lemma enrichment_ok_update [simp]:
  "enrichment_ok (e\<lparr>en_owed := b\<rparr>) = enrichment_ok e" "enrichment_ok (e\<lparr>en_pollTimer := b\<rparr>) = enrichment_ok e"
  "enrichment_ok (e\<lparr>en_pending := n\<rparr>) = enrichment_ok e" "enrichment_ok e \<Longrightarrow> enrichment_ok (e\<lparr>en_trailingTimer := None\<rparr>)"
  by (simp_all add: enrichment_ok_def)

lemma new_enrichment_ok: "enrichment_ok new_enrichment" "owed_scheduled new_enrichment"
  by (simp_all add: enrichment_ok_def owed_scheduled_def new_enrichment_def rate_ok_def)

lemma owed_scheduled_poll [simp]: "owed_scheduled (e\<lparr>en_pollTimer := b\<rparr>) = owed_scheduled e" "owed_scheduled (e\<lparr>en_pending := n\<rparr>) = owed_scheduled e"
  by (simp_all add: owed_scheduled_def)

lemma followVisibility_ok:
  assumes "enrichment_ok e" and "owed_scheduled e"
  shows "enrichment_ok (followVisibility now visible e)" "owed_scheduled (followVisibility now visible e)"
  using assms requestRefresh_ok [OF assms(1)] by (simp_all add: followVisibility_def Let_def) (simp add: owed_scheduled_def)

lemma sessionEnded_ok: "enrichment_ok e \<Longrightarrow> enrichment_ok (sessionEnded now e) \<and> owed_scheduled (sessionEnded now e)"
  using requestRefresh_ok [of "e\<lparr>en_owed := True\<rparr>"] by (simp add: sessionEnded_def)

lemma trailing_fires_ok: "enrichment_ok e \<Longrightarrow> enrichment_ok (trailing_fires now e) \<and> owed_scheduled (trailing_fires now e)"
  using requestRefresh_ok [of "e\<lparr>en_trailingTimer := None\<rparr>"] by (simp add: trailing_fires_def)

definition active_ok :: "session_world \<Rightarrow> bool" where
  "active_ok w \<longleftrightarrow> (\<forall>e. sw_active w = Some e \<longrightarrow> enrichment_ok e \<and> owed_scheduled e)"

lemma session_step_active: "session_step local_date w w' \<Longrightarrow> active_ok w \<Longrightarrow> active_ok w'"
proof (induction rule: session_step.induct)
  case (start w visible)
  then show ?case using followVisibility_ok [OF new_enrichment_ok] by (simp add: active_ok_def startSessionEnrichment_def split: option.split)
next
  case (visibility w visible)
  then show ?case using followVisibility_ok by (auto simp: active_ok_def with_active_def)
next
  case (poll w e)
  then show ?case using requestRefresh_ok [of e] by (simp add: active_ok_def with_active_def)
qed (auto simp: active_ok_def applySessionEvent_def stop_enrichment_def with_active_def page_arrives_def dest: sessionEnded_ok trailing_fires_ok)

lemma session_steps_active: "session_steps local_date w w' \<Longrightarrow> active_ok w \<Longrightarrow> active_ok w'"
  by (induction rule: session_steps.induct) (auto intro: session_step_active)

lemma session_start_active: "active_ok (session_start t)"
  by (simp add: active_ok_def session_start_def)

text \<open>A trailing timer that fires when it is due leads to a fetch.\<close>

lemma due_timer_fetches:
  assumes "enrichment_ok e" and "en_trailingTimer e = Some due" and "due \<le> now"
  shows "en_fetches (trailing_fires now e) = now # en_fetches e"
proof -
  obtain t where "en_lastFetchAt e = Some t" "due = t + SERVER_SESSIONS_REFRESH_MS" using enrichment_okD(2) [OF assms(1,2)] by blast
  then show ?thesis using enrichment_okD(1) [OF assms(1)] assms(3) by (simp add: trailing_fires_def requestRefresh_def fetchNow_def Let_def)
qed


section \<open>Properties\<close>

text \<open>
  C31. In every state the store can reach each session is listed once, either as live or as ended,
  and a session that ended stays among the ended ones, and is not live, for the rest of its local
  day, whatever events are replayed or arrive late.
\<close>

theorem ended_session_stays_ended:
  assumes "calendar local_date" and "session_steps local_date (session_start t0) w" and "session_steps local_date w w'"
    and "e \<in> set (ss_endedToday (sw_store w))" and "local_date (ended_at e) = local_date (sw_now w')"
  shows "sessions_ok (sw_store w') \<and> native_session_id e \<in> set (ended_ids (sw_store w')) \<and> native_session_id e \<notin> set (live_ids (sw_store w'))"
proof -
  note ok = session_steps_ok [OF assms(2) session_start_ok]
  have ok': "sessions_ok (sw_store w')" using session_steps_ok [OF assms(3)] ok by simp
  have "(native_session_id e, ended_at e) \<in> set (session_ends (sw_store w))" using assms(4) by (simp add: session_ends_def)
  from calendar.end_kept [OF assms(1) assms(3) _ _ this assms(5)] ok
  have "(native_session_id e, ended_at e) \<in> set (session_ends (sw_store w'))" by simp
  then have "native_session_id e \<in> set (ended_ids (sw_store w'))" by (auto simp: session_ends_def)
  then show ?thesis using ok' unfolding sessions_ok_def by blast
qed

definition sample_session :: "string \<Rightarrow> local_session" where
  "sample_session sid = \<lparr>native_session_id = sid, ls_harness = ''claude'', ls_repo = None, ls_mapping_id = None, ls_started_at = None,
     last_event_at = Some ''2026-03-01T12:30:05Z'', ls_tokens = None, ls_cost_estimated_usd = None, ls_cost_basis = None,
     ls_auth_kind = None, ls_history_deleted = None\<rparr>"

definition sample_session_event :: "string \<Rightarrow> string \<Rightarrow> session_event" where
  "sample_session_event kind sid = \<lparr>se_kind = kind, se_session = sample_session sid\<rparr>"

definition one_ended :: session_world where
  "one_ended = applySessionEvent utc_date (sample_session_event ''ended'' ''a'') (session_start 0)"

lemma one_ended_steps: "session_steps utc_date (session_start 0) one_ended"
  unfolding one_ended_def by (rule session_steps.step [OF session_steps.refl session_step.event])

theorem ended_session_stays_ended_witness:
  "''a'' \<notin> set (live_ids (sw_store (applySessionEvent utc_date (sample_session_event ''updated'' ''a'') one_ended)))"
proof -
  let ?w = "applySessionEvent utc_date (sample_session_event ''updated'' ''a'') one_ended"
  have "session_steps utc_date one_ended ?w" by (rule session_steps.step [OF session_steps.refl session_step.event])
  moreover have "hd (ss_endedToday (sw_store one_ended)) \<in> set (ss_endedToday (sw_store one_ended))"
    "native_session_id (hd (ss_endedToday (sw_store one_ended))) = ''a''"
    "utc_date (ended_at (hd (ss_endedToday (sw_store one_ended)))) = utc_date (sw_now ?w)"
    by (simp_all add: one_ended_def applySessionEvent_def session_start_def EMPTY_SESSIONS_def sample_session_event_def ended_event_ended sample_session_def)
  ultimately show ?thesis using ended_session_stays_ended [OF utc.calendar_axioms one_ended_steps] by metis
qed

text \<open>
  An ended session can come back: once another session has ended on a later day, an update
  that is replayed, or that arrives late, makes the first one live again.
\<close>

lemma ended_session_returns:
  "\<exists>w w'. session_steps utc_date (session_start 0) w \<and> session_steps utc_date w w' \<and>
     ''a'' \<in> set (ended_ids (sw_store w)) \<and> ''a'' \<in> set (live_ids (sw_store w'))"
proof -
  define w1 where "w1 = one_ended\<lparr>sw_now := sw_now one_ended + 86400000\<rparr>"
  define w2 where "w2 = applySessionEvent utc_date (sample_session_event ''ended'' ''b'') w1"
  define w3 where "w3 = applySessionEvent utc_date (sample_session_event ''updated'' ''a'') w2"
  have "session_steps utc_date one_ended w1" unfolding w1_def by (rule session_steps.step [OF session_steps.refl session_step.time]) simp
  then have "session_steps utc_date one_ended w3" unfolding w3_def w2_def by (intro session_steps.step [OF _ session_step.event])
  moreover have "''a'' \<in> set (ended_ids (sw_store one_ended))" by code_simp
  moreover have "''a'' \<in> set (live_ids (sw_store w3))" unfolding w3_def w2_def w1_def by code_simp
  ultimately show ?thesis using one_ended_steps by blast
qed

text \<open>
  The poller asks the server at most once in 20 seconds, and never forgets the fetch owed to
  an ended session: while one is owed a timer is pending, due 20 seconds after the last fetch, and
  when it fires it fetches.
\<close>

lemma enrichment_rate:
  assumes "session_steps local_date (session_start t0) w" and "sw_active w = Some e"
  shows "successively (\<lambda>later earlier. earlier + SERVER_SESSIONS_REFRESH_MS \<le> later) (en_fetches e) \<and>
    (en_owed e \<longrightarrow> (\<exists>due. en_trailingTimer e = Some due \<and> due = hd (en_fetches e) + SERVER_SESSIONS_REFRESH_MS \<and>
       (\<forall>now. due \<le> now \<longrightarrow> en_fetches (trailing_fires now e) = now # en_fetches e)))"
proof -
  have ok: "enrichment_ok e" "owed_scheduled e" using session_steps_active [OF assms(1) session_start_active] assms(2) by (simp_all add: active_ok_def)
  then have "en_owed e \<Longrightarrow> \<exists>due. en_trailingTimer e = Some due \<and> due = hd (en_fetches e) + SERVER_SESSIONS_REFRESH_MS"
    by (cases "en_fetches e") (auto simp: enrichment_ok_def owed_scheduled_def)
  then show ?thesis using ok(1) due_timer_fetches [OF ok(1)] by (auto simp: enrichment_ok_def rate_ok_def)
qed

end
