(* ===== verification/Daemon_Stream.thy ===== *)
theory Daemon_Stream
  imports Refetchable Companion_Sessions
begin

text \<open>
  The stream of daemon events and the stores it feeds (\<open>companion/desktop/src/stores\<close>:
  \<open>daemon-stream.ts\<close>, \<open>agents.ts\<close>, \<open>agent-access.ts\<close>, \<open>pairing.ts\<close> and the resources of
  \<open>projects.ts\<close>). The cached values are the daemon's JSON, which the parsers check and pass on. Of
  the status only the fields the stream looks at are kept.
\<close>


section \<open>Parsers\<close>

text \<open>\<open>isRecord\<close> holds of arrays too, whose named fields are all undefined.\<close>

definition is_record :: "json option \<Rightarrow> bool" where
  "is_record v = (case v of Some (JObj _) \<Rightarrow> True | Some (JArr _) \<Rightarrow> True | _ \<Rightarrow> False)"

definition has_string :: "json \<Rightarrow> string \<Rightarrow> bool" where
  "has_string v k = (jstr (jfield v k) \<noteq> None)"

definition parseAgents :: "json \<Rightarrow> json option" where
  "parseAgents raw = (case raw of
     JArr entries \<Rightarrow> if list_all (\<lambda>e. is_record (Some e) \<and> has_string e ''id'') entries then Some raw else None
   | _ \<Rightarrow> None)"

definition parseOverview :: "json \<Rightarrow> json option" where
  "parseOverview raw =
     (case (jarr (jfield raw ''mappings''), jarr (jfield raw ''discovered''), jarr (jfield raw ''ignored'')) of
        (Some mappings, Some discovered, Some ignored) \<Rightarrow>
          if list_all (\<lambda>m. is_record (Some m) \<and> has_string m ''id'' \<and> has_string m ''workspace_id'') mappings \<and>
             list_all (\<lambda>p. is_record (Some p) \<and> has_string p ''root'') discovered \<and>
             list_all (\<lambda>p. jstr (Some p) \<noteq> None) ignored
          then Some (JObj [(''mappings'', JArr mappings), (''discovered'', JArr discovered), (''ignored'', JArr ignored)]) else None
      | _ \<Rightarrow> None)"

definition parseCatalog :: "json \<Rightarrow> json option" where
  "parseCatalog raw =
     (case jarr (jfield raw ''workspaces'') of
        Some workspaces \<Rightarrow>
          if list_all (\<lambda>w. is_record (Some w) \<and> has_string w ''id'' \<and> has_string w ''slug'' \<and> jarr (jfield w ''boards'') \<noteq> None) workspaces
          then Some raw else None
      | None \<Rightarrow> None)"

definition parseAgentAccess :: "json \<Rightarrow> json option" where
  "parseAgentAccess raw =
     (if is_record (jfield raw ''key'') \<and> is_record (jfield raw ''prerequisites'') then
        (case (jarr (jfield raw ''mappings''), jarr (jfield raw ''warnings'')) of
           (Some mappings, Some warnings) \<Rightarrow>
             if list_all (\<lambda>m. is_record (Some m) \<and> has_string m ''mapping_id'' \<and>
                  (\<exists>b \<in> {True, False}. jfield m ''enabled'' = Some (JBool b)) \<and> jarr (jfield m ''agents'') \<noteq> None) mappings \<and>
                list_all (\<lambda>w. is_record (Some w) \<and> has_string w ''entry_name'') warnings
             then Some raw else None
         | _ \<Rightarrow> None)
      else None)"


section \<open>The stores\<close>

datatype connection = Connecting | Connected | Unreachable string

record companion_status =
  st_installation_id :: string
  st_endpoint :: string
  st_connected :: bool
  st_web_origin :: "string option"

record daemon_stores =
  dt_connection :: connection
  dt_status :: "companion_status option"
  dt_attention :: json
  dt_pairing :: "json option"
  dt_sessions :: session_world
  dt_agents :: "json refetchable"
  dt_overview :: "json refetchable"
  dt_catalog :: "json refetchable"
  dt_access :: "json refetchable"
  dt_requested :: "(string, bool) jsmap"
  dt_latest :: "(string, nat) jsmap"
  dt_identity :: "string option"

datatype stream_message =
    DaemonConnected
  | DaemonUnreachable string
  | StatusMessage companion_status
  | AttentionMessage json
  | SessionMessage session_event
  | AgentsMessage json
  | ProjectsMessage json
  | PolicyChanged
  | PairingMessage json
  | AgentAccessMessage json

definition push_parsed :: "json option \<Rightarrow> json refetchable \<Rightarrow> json refetchable" where
  "push_parsed parsed r = (case parsed of Some v \<Rightarrow> push_value v r | None \<Rightarrow> r)"

definition applyAgentsEvent :: "json \<Rightarrow> daemon_stores \<Rightarrow> daemon_stores" where
  "applyAgentsEvent data st = st\<lparr>dt_agents := push_parsed (parseAgents data) (dt_agents st)\<rparr>"

definition applyProjectsEvent :: "json \<Rightarrow> daemon_stores \<Rightarrow> daemon_stores" where
  "applyProjectsEvent data st = st\<lparr>dt_overview := push_parsed (parseOverview data) (dt_overview st)\<rparr>"

definition applyAgentAccessEvent :: "json \<Rightarrow> daemon_stores \<Rightarrow> daemon_stores" where
  "applyAgentAccessEvent data st = st\<lparr>dt_access := push_parsed (parseAgentAccess data) (dt_access st)\<rparr>"

definition refreshAfterPolicyChange :: "daemon_stores \<Rightarrow> daemon_stores" where
  "refreshAfterPolicyChange st = st\<lparr>dt_overview := invalidate (dt_overview st), dt_catalog := invalidate (dt_catalog st)\<rparr>"

text \<open>The refresh functions of the three modules, and their forget functions, always called together.\<close>

definition refreshAfterReconnect :: "daemon_stores \<Rightarrow> daemon_stores" where
  "refreshAfterReconnect st = st\<lparr>dt_agents := refetchIfUsed (dt_agents st), dt_overview := refetchIfUsed (dt_overview st),
     dt_catalog := refetchIfUsed (dt_catalog st), dt_access := refetchIfUsed (dt_access st)\<rparr>"

definition forgetAll :: "daemon_stores \<Rightarrow> daemon_stores" where
  "forgetAll st = st\<lparr>dt_agents := forget (dt_agents st), dt_overview := forget (dt_overview st),
     dt_catalog := forget (dt_catalog st), dt_access := forget (dt_access st)\<rparr>"

definition identity_of :: "companion_status \<Rightarrow> string" where
  "identity_of s = st_installation_id s @ [CHR 0x0A] @ st_endpoint s @ [CHR 0x0A] @ (if st_connected s then ''true'' else ''false'')"

definition followAccount :: "companion_status \<Rightarrow> daemon_stores \<Rightarrow> daemon_stores" where
  "followAccount s st =
     (let st1 = (if dt_identity st \<noteq> None \<and> dt_identity st \<noteq> Some (identity_of s) then refreshAfterReconnect (forgetAll st) else st)
      in st1\<lparr>dt_identity := Some (identity_of s)\<rparr>)"

fun applyStreamMessage :: "(int \<Rightarrow> 'd) \<Rightarrow> stream_message \<Rightarrow> daemon_stores \<Rightarrow> daemon_stores" where
  "applyStreamMessage local_date DaemonConnected st = refreshAfterReconnect (st\<lparr>dt_connection := Connected\<rparr>)"
| "applyStreamMessage local_date (DaemonUnreachable reason) st =
     forgetAll (st\<lparr>dt_connection := Unreachable reason, dt_status := None,
       dt_sessions := (dt_sessions st)\<lparr>sw_store := clearLiveSessions (sw_store (dt_sessions st))\<rparr>\<rparr>)"
| "applyStreamMessage local_date (StatusMessage s) st = (followAccount s st)\<lparr>dt_status := Some s\<rparr>"
| "applyStreamMessage local_date (AttentionMessage items) st = st\<lparr>dt_attention := items\<rparr>"
| "applyStreamMessage local_date (SessionMessage ev) st = st\<lparr>dt_sessions := applySessionEvent local_date ev (dt_sessions st)\<rparr>"
| "applyStreamMessage local_date (AgentsMessage data) st = applyAgentsEvent data st"
| "applyStreamMessage local_date (ProjectsMessage data) st = applyProjectsEvent data st"
| "applyStreamMessage local_date PolicyChanged st = refreshAfterPolicyChange st"
| "applyStreamMessage local_date (PairingMessage event) st = st\<lparr>dt_pairing := Some event\<rparr>"
| "applyStreamMessage local_date (AgentAccessMessage data) st = applyAgentAccessEvent data st"


section \<open>Agent access switches\<close>

definition settleRequest :: "string \<Rightarrow> daemon_stores \<Rightarrow> daemon_stores" where
  "settleRequest mappingId st = st\<lparr>dt_requested := jm_delete mappingId (dt_requested st)\<rparr>"

text \<open>\<open>setAgentAccess\<close> up to the \<open>await\<close>, with the number of its request, and what its answer does.\<close>

definition setAgentAccess :: "string \<Rightarrow> bool \<Rightarrow> daemon_stores \<Rightarrow> nat \<times> daemon_stores" where
  "setAgentAccess mappingId enabled st =
     (let request = (case jm_get (dt_latest st) mappingId of Some n \<Rightarrow> n | None \<Rightarrow> 0) + 1
      in (request, st\<lparr>dt_latest := jm_set mappingId request (dt_latest st), dt_requested := jm_set mappingId enabled (dt_requested st)\<rparr>))"

definition access_answered :: "string \<Rightarrow> nat \<Rightarrow> json option \<Rightarrow> daemon_stores \<Rightarrow> daemon_stores" where
  "access_answered mappingId request result st =
     (if jm_get (dt_latest st) mappingId \<noteq> Some request then st
      else settleRequest mappingId (case result of Some v \<Rightarrow> st\<lparr>dt_access := push_value v (dt_access st)\<rparr> | None \<Rightarrow> st))"


section \<open>The subscription\<close>

definition DEFAULT_INITIAL_RETRY_MS :: nat where
  "DEFAULT_INITIAL_RETRY_MS = 250"

definition DEFAULT_MAX_RETRY_MS :: nat where
  "DEFAULT_MAX_RETRY_MS = 10000"

record subscription =
  sb_stopped :: bool
  sb_failedAttempts :: nat
  sb_retryTimer :: "nat option"

definition retry_delay :: "nat \<Rightarrow> nat \<Rightarrow> nat \<Rightarrow> nat" where
  "retry_delay initialRetryMs maxRetryMs failedAttempts = min (initialRetryMs * 2 ^ failedAttempts) maxRetryMs"

definition subscribed :: "subscription \<Rightarrow> subscription" where
  "subscribed s = s\<lparr>sb_failedAttempts := 0\<rparr>"

definition subscribe_failed :: "nat \<Rightarrow> nat \<Rightarrow> string \<Rightarrow> subscription \<times> daemon_stores \<Rightarrow> subscription \<times> daemon_stores" where
  "subscribe_failed initialRetryMs maxRetryMs reason = (\<lambda>(s, st).
     if sb_stopped s then (s, st)
     else (s\<lparr>sb_failedAttempts := sb_failedAttempts s + 1, sb_retryTimer := Some (retry_delay initialRetryMs maxRetryMs (sb_failedAttempts s))\<rparr>,
           st\<lparr>dt_connection := Unreachable reason\<rparr>))"

definition stop_stream :: "subscription \<Rightarrow> subscription" where
  "stop_stream s = s\<lparr>sb_stopped := True, sb_retryTimer := None\<rparr>"



section \<open>Whose data is cached\<close>

text \<open>
  The daemon serves one account after another, numbered; consecutive accounts have different
  identities, and the stream announces every one of them, in order, with a status. An answer is read
  at some moment between the start of its request and its arrival, and so is a pushed event after the
  last status. The world records the account the daemon serves, the account of the last status, and
  for every request the account at its start.
\<close>

definition held :: "(json \<Rightarrow> nat) \<Rightarrow> nat \<Rightarrow> (nat \<Rightarrow> nat) \<Rightarrow> json refetchable \<Rightarrow> bool" where
  "held account seen starts r \<longleftrightarrow> runs_ok r \<and> (\<forall>v. rf_store r = Some v \<longrightarrow> seen \<le> account v) \<and>
     (\<forall>run\<in>set (rf_runs r). fr_startedAt run = rf_generation r \<longrightarrow> seen \<le> starts (fr_runId run))"

definition note_run :: "nat \<Rightarrow> json refetchable \<Rightarrow> json refetchable \<Rightarrow> (nat \<Rightarrow> nat) \<Rightarrow> (nat \<Rightarrow> nat)" where
  "note_run acct r r' starts = (if rf_currentRun r' = rf_currentRun r then starts else starts(rf_currentRun r' := acct))"

lemma heldI:
  assumes "runs_ok r" and "\<And>v. rf_store r = Some v \<Longrightarrow> seen \<le> account v"
    and "\<And>run. run \<in> set (rf_runs r) \<Longrightarrow> fr_startedAt run = rf_generation r \<Longrightarrow> seen \<le> starts (fr_runId run)"
  shows "held account seen starts r"
  using assms unfolding held_def by blast

lemma heldD:
  assumes "held account seen starts r"
  shows "runs_ok r" and "rf_store r = Some v \<Longrightarrow> seen \<le> account v"
    and "run \<in> set (rf_runs r) \<Longrightarrow> fr_startedAt run = rf_generation r \<Longrightarrow> seen \<le> starts (fr_runId run)"
  using assms unfolding held_def by blast+

lemma held_note: "held account seen starts r' \<Longrightarrow> seen \<le> acct \<Longrightarrow> held account seen (note_run acct r r' starts) r'"
  by (simp add: held_def note_run_def)

lemma runs_ok_used: "runs_ok (r\<lparr>rf_used := u\<rparr>) = runs_ok r"
  by (simp add: runs_ok_def)

lemma held_used: "held account seen starts r \<Longrightarrow> held account seen starts (r\<lparr>rf_used := u\<rparr>)"
  by (simp add: held_def runs_ok_used)

lemma held_fetch:
  assumes "held account seen starts r" and "\<not> rf_inFlight r" and "seen \<le> acct" and "rf_currentRun r0 \<le> rf_currentRun r"
  shows "held account seen (note_run acct r0 (run_fetch r) starts) (run_fetch r)"
proof -
  have "note_run acct r0 (run_fetch r) starts = starts(Suc (rf_currentRun r) := acct)" using assms(4) by (simp add: note_run_def)
  then show ?thesis
    using run_fetch_runs_ok [OF heldD(1) [OF assms(1)] assms(2)] heldD(2,3) [OF assms(1)] assms(3) by (intro heldI) auto
qed

lemma held_invalidate:
  assumes "held account seen starts r" and "seen \<le> acct" and "rf_currentRun r0 \<le> rf_currentRun r"
  shows "held account seen (note_run acct r0 (invalidate r) starts) (invalidate r)"
proof (cases "rf_inFlight r")
  case True
  then have "held account seen starts (invalidate r)" using assms(1) by (simp add: held_def runs_ok_def invalidate_def)
  then show ?thesis using assms(2) by (rule held_note)
next
  case False
  then show ?thesis using held_fetch [OF held_used [OF assms(1)], of True acct r0] assms(2,3) by (simp add: invalidate_def)
qed

lemma held_refetchIfUsed:
  assumes "held account seen starts r" and "seen \<le> acct" and "rf_currentRun r0 \<le> rf_currentRun r"
  shows "held account seen (note_run acct r0 (refetchIfUsed r) starts) (refetchIfUsed r)"
  using held_invalidate [OF assms] held_note [OF assms(1,2)] by (simp add: refetchIfUsed_def)

lemma held_refresh:
  assumes "held account seen starts r" and "seen \<le> acct"
  shows "held account seen (note_run acct r (refresh r) starts) (refresh r)" "held account seen (note_run acct r (ensure r) starts) (ensure r)"
  using held_fetch [OF held_used [OF assms(1)], of True acct r] held_note [OF held_used [OF assms(1)] assms(2)] assms(2)
  by (simp_all add: refresh_def ensure_def Let_def)

lemma held_forget:
  assumes "runs_ok r"
  shows "held account seen starts (forget r)"
proof (rule heldI)
  show "runs_ok (forget r)" by (rule forget_ok [OF assms])
  show "seen \<le> starts (fr_runId run)" if "run \<in> set (rf_runs (forget r))" "fr_startedAt run = rf_generation (forget r)" for run
    using that assms by (auto simp: runs_ok_def forget_def)
qed (simp add: forget_def)

lemma held_push:
  assumes "held account seen starts r" and "seen \<le> account v"
  shows "held account seen starts (push_value v r)"
proof (rule heldI)
  show "runs_ok (push_value v r)" using heldD(1) [OF assms(1)] by (auto simp: runs_ok_def push_value_def)
  show "seen \<le> starts (fr_runId run)" if "run \<in> set (rf_runs (push_value v r))" "fr_startedAt run = rf_generation (push_value v r)" for run
    using that heldD(1) [OF assms(1)] by (auto simp: runs_ok_def push_value_def)
qed (use assms(2) in \<open>simp add: push_value_def\<close>)

lemma held_answer:
  assumes "held account seen starts r" and "run \<in> set (rf_runs r)" and "seen \<le> acct"
    and "\<And>v. parsed = Some v \<Longrightarrow> starts (fr_runId run) \<le> account v"
  shows "held account seen (note_run acct r (answer_run run parsed r) starts) (answer_run run parsed r)"
proof -
  let ?r1 = "r\<lparr>rf_runs := remove1 run (rf_runs r)\<rparr>"
  define r2 where "r2 = store_answer run parsed ?r1"
  have runs: "runs_ok r" by (rule heldD(1) [OF assms(1)])
  note gone = runs_ok_removed [OF runs assms(2)]
  have sel: "rf_currentRun r2 = rf_currentRun r" "rf_generation r2 = rf_generation r" "rf_inFlight r2 = rf_inFlight r"
    "rf_fetchAgain r2 = rf_fetchAgain r" "rf_runs r2 = remove1 run (rf_runs r)" by (simp_all add: r2_def store_answer_def)
  have "seen \<le> account v" if "rf_store r2 = Some v" for v
    using that heldD(2,3) [OF assms(1)] assms(2,4) unfolding r2_def store_answer_def by (auto split: if_splits intro: order_trans)
  moreover have "seen \<le> starts (fr_runId run')" if "run' \<in> set (rf_runs r2)" "fr_startedAt run' = rf_generation r2" for run'
    using that heldD(3) [OF assms(1), of run'] gone(2) by (simp add: sel)
  ultimately have held2: "runs_ok r' \<Longrightarrow> rf_store r' = rf_store r2 \<Longrightarrow> rf_runs r' = rf_runs r2 \<Longrightarrow> rf_generation r' = rf_generation r2 \<Longrightarrow> held account seen starts r'" for r'
    by (intro heldI) auto
  show ?thesis
  proof (cases "fr_runId run = rf_currentRun r")
    case False
    have "rf_currentRun r \<in> fr_runId ` set (remove1 run (rf_runs r)) \<longleftrightarrow> rf_currentRun r \<in> fr_runId ` set (rf_runs r)" using False gone(2) by force
    then have "runs_ok r2" using runs gone(2,3) by (auto simp: runs_ok_def sel)
    moreover have "answer_run run parsed r = r2" using False by (simp add: answer_run_def settle_run_def sel r2_def [symmetric])
    ultimately show ?thesis using held_note [OF held2 [of r2] assms(3)] by simp
  next
    case True
    have r3: "held account seen starts (r2\<lparr>rf_inFlight := False, rf_fetchAgain := False\<rparr>)"
      using runs gone True by (intro held2) (auto simp: runs_ok_def sel)
    have a: "answer_run run parsed r = (if rf_fetchAgain r then run_fetch (r2\<lparr>rf_inFlight := False, rf_fetchAgain := False\<rparr>) else r2\<lparr>rf_inFlight := False, rf_fetchAgain := False\<rparr>)"
      using True by (simp add: answer_run_def settle_run_def sel r2_def [symmetric] run_fetch_def Let_def)
    show ?thesis unfolding a using held_fetch [OF r3 _ assms(3), of r] held_note [OF r3 assms(3)] by (simp add: sel)
  qed
qed


record daemon_world =
  dw_stores :: daemon_stores
  dw_account :: nat
  dw_seen :: nat
  dw_agents_starts :: "nat \<Rightarrow> nat"
  dw_overview_starts :: "nat \<Rightarrow> nat"
  dw_catalog_starts :: "nat \<Rightarrow> nat"
  dw_toggles :: "(string \<times> nat \<times> nat) list"

definition with_stores :: "daemon_stores \<Rightarrow> daemon_world \<Rightarrow> daemon_world" where
  "with_stores st w = w\<lparr>dw_stores := st,
     dw_agents_starts := note_run (dw_account w) (dt_agents (dw_stores w)) (dt_agents st) (dw_agents_starts w),
     dw_overview_starts := note_run (dw_account w) (dt_overview (dw_stores w)) (dt_overview st) (dw_overview_starts w),
     dw_catalog_starts := note_run (dw_account w) (dt_catalog (dw_stores w)) (dt_catalog st) (dw_catalog_starts w)\<rparr>"

fun pushed_ok :: "(json \<Rightarrow> nat) \<Rightarrow> nat \<Rightarrow> stream_message \<Rightarrow> bool" where
  "pushed_ok account seen (AgentsMessage data) = (\<forall>v. parseAgents data = Some v \<longrightarrow> seen \<le> account v)"
| "pushed_ok account seen (ProjectsMessage data) = (\<forall>v. parseOverview data = Some v \<longrightarrow> seen \<le> account v)"
| "pushed_ok account seen (StatusMessage s) = False"
| "pushed_ok account seen m = True"

inductive daemon_step :: "(json \<Rightarrow> nat) \<Rightarrow> (nat \<Rightarrow> string) \<Rightarrow> (int \<Rightarrow> 'd) \<Rightarrow> daemon_world \<Rightarrow> daemon_world \<Rightarrow> bool"
  for account ident local_date where
  switch: "dt_identity (dw_stores w) \<noteq> None \<Longrightarrow> daemon_step account ident local_date w (w\<lparr>dw_account := dw_account w + 1\<rparr>)"
| status: "a = dw_seen w \<or> a = dw_seen w + 1 \<Longrightarrow> a \<le> dw_account w \<Longrightarrow> identity_of s = ident a \<Longrightarrow>
    daemon_step account ident local_date w ((with_stores (applyStreamMessage local_date (StatusMessage s) (dw_stores w)) w)\<lparr>dw_seen := a\<rparr>)"
| message: "pushed_ok account (dw_seen w) m \<Longrightarrow> daemon_step account ident local_date w (with_stores (applyStreamMessage local_date m (dw_stores w)) w)"
| use_agents: "f = ensure \<or> f = refresh \<or> f = invalidate \<Longrightarrow>
    daemon_step account ident local_date w (with_stores ((dw_stores w)\<lparr>dt_agents := f (dt_agents (dw_stores w))\<rparr>) w)"
| use_overview: "f = ensure \<or> f = refresh \<or> f = invalidate \<Longrightarrow>
    daemon_step account ident local_date w (with_stores ((dw_stores w)\<lparr>dt_overview := f (dt_overview (dw_stores w))\<rparr>) w)"
| use_catalog: "f = ensure \<or> f = refresh \<or> f = invalidate \<Longrightarrow>
    daemon_step account ident local_date w (with_stores ((dw_stores w)\<lparr>dt_catalog := f (dt_catalog (dw_stores w))\<rparr>) w)"
| agents_answer: "run \<in> set (rf_runs (dt_agents (dw_stores w))) \<Longrightarrow> (\<And>v. parsed = Some v \<Longrightarrow> dw_agents_starts w (fr_runId run) \<le> account v) \<Longrightarrow>
    daemon_step account ident local_date w (with_stores ((dw_stores w)\<lparr>dt_agents := answer_run run parsed (dt_agents (dw_stores w))\<rparr>) w)"
| overview_answer: "run \<in> set (rf_runs (dt_overview (dw_stores w))) \<Longrightarrow> (\<And>v. parsed = Some v \<Longrightarrow> dw_overview_starts w (fr_runId run) \<le> account v) \<Longrightarrow>
    daemon_step account ident local_date w (with_stores ((dw_stores w)\<lparr>dt_overview := answer_run run parsed (dt_overview (dw_stores w))\<rparr>) w)"
| catalog_answer: "run \<in> set (rf_runs (dt_catalog (dw_stores w))) \<Longrightarrow> (\<And>v. parsed = Some v \<Longrightarrow> dw_catalog_starts w (fr_runId run) \<le> account v) \<Longrightarrow>
    daemon_step account ident local_date w (with_stores ((dw_stores w)\<lparr>dt_catalog := answer_run run parsed (dt_catalog (dw_stores w))\<rparr>) w)"
| toggle: "setAgentAccess mappingId enabled (dw_stores w) = (request, st) \<Longrightarrow>
    daemon_step account ident local_date w ((with_stores st w)\<lparr>dw_toggles := (mappingId, request, dw_account w) # dw_toggles w\<rparr>)"
| toggle_answer: "(mappingId, request, acct) \<in> set (dw_toggles w) \<Longrightarrow> (\<And>v. result = Some v \<Longrightarrow> acct \<le> account v \<and> account v \<le> dw_account w) \<Longrightarrow>
    daemon_step account ident local_date w (with_stores (access_answered mappingId request result (dw_stores w)) w)"

definition stores_start :: daemon_stores where
  "stores_start = \<lparr>dt_connection = Connecting, dt_status = None, dt_attention = JArr [], dt_pairing = None, dt_sessions = session_start 0,
     dt_agents = createRefetchable, dt_overview = createRefetchable, dt_catalog = createRefetchable, dt_access = createRefetchable,
     dt_requested = [], dt_latest = [], dt_identity = None\<rparr>"

definition daemon_start :: daemon_world where
  "daemon_start = \<lparr>dw_stores = stores_start, dw_account = 0, dw_seen = 0, dw_agents_starts = (\<lambda>_. 0), dw_overview_starts = (\<lambda>_. 0),
     dw_catalog_starts = (\<lambda>_. 0), dw_toggles = []\<rparr>"

inductive daemon_reachable :: "(json \<Rightarrow> nat) \<Rightarrow> (nat \<Rightarrow> string) \<Rightarrow> (int \<Rightarrow> 'd) \<Rightarrow> daemon_world \<Rightarrow> bool"
  for account ident local_date where
  init: "daemon_reachable account ident local_date daemon_start"
| step: "daemon_reachable account ident local_date w \<Longrightarrow> daemon_step account ident local_date w w' \<Longrightarrow> daemon_reachable account ident local_date w'"

definition caches_ok :: "(json \<Rightarrow> nat) \<Rightarrow> daemon_world \<Rightarrow> bool" where
  "caches_ok account w \<longleftrightarrow> held account (dw_seen w) (dw_agents_starts w) (dt_agents (dw_stores w)) \<and>
     held account (dw_seen w) (dw_overview_starts w) (dt_overview (dw_stores w)) \<and>
     held account (dw_seen w) (dw_catalog_starts w) (dt_catalog (dw_stores w))"

definition account_ok :: "(nat \<Rightarrow> string) \<Rightarrow> daemon_world \<Rightarrow> bool" where
  "account_ok ident w \<longleftrightarrow> dw_seen w \<le> dw_account w \<and> (dt_identity (dw_stores w) = None \<longrightarrow> dw_seen w = dw_account w) \<and>
     (\<forall>i. dt_identity (dw_stores w) = Some i \<longrightarrow> i = ident (dw_seen w))"

lemma with_stores_sel [simp]:
  "dw_stores (with_stores st w) = st" "dw_account (with_stores st w) = dw_account w" "dw_seen (with_stores st w) = dw_seen w"
  by (simp_all add: with_stores_def)

text \<open>Each store keeps its invariant under what the step does to it.\<close>

lemma caches_okI:
  assumes "held account seen (note_run (dw_account w) (dt_agents (dw_stores w)) (dt_agents st) (dw_agents_starts w)) (dt_agents st)"
    and "held account seen (note_run (dw_account w) (dt_overview (dw_stores w)) (dt_overview st) (dw_overview_starts w)) (dt_overview st)"
    and "held account seen (note_run (dw_account w) (dt_catalog (dw_stores w)) (dt_catalog st) (dw_catalog_starts w)) (dt_catalog st)"
  shows "caches_ok account ((with_stores st w)\<lparr>dw_seen := seen\<rparr>)"
  using assms by (simp add: caches_ok_def with_stores_def)

lemma caches_okI':
  assumes "held account (dw_seen w) (note_run (dw_account w) (dt_agents (dw_stores w)) (dt_agents st) (dw_agents_starts w)) (dt_agents st)"
    and "held account (dw_seen w) (note_run (dw_account w) (dt_overview (dw_stores w)) (dt_overview st) (dw_overview_starts w)) (dt_overview st)"
    and "held account (dw_seen w) (note_run (dw_account w) (dt_catalog (dw_stores w)) (dt_catalog st) (dw_catalog_starts w)) (dt_catalog st)"
  shows "caches_ok account (with_stores st w)"
  using assms by (simp add: caches_ok_def with_stores_def)

lemma note_run_same [simp]: "note_run acct r r starts = starts"
  by (simp add: note_run_def)

lemma note_run_push [simp]: "note_run acct r (push_parsed p r) starts = starts"
  by (simp add: note_run_def push_parsed_def push_value_def split: option.split)

lemma held_push_parsed: "held account seen starts r \<Longrightarrow> (\<And>v. p = Some v \<Longrightarrow> seen \<le> account v) \<Longrightarrow> held account seen starts (push_parsed p r)"
  by (cases p) (simp_all add: push_parsed_def held_push)

lemma reconnect_held:
  assumes "runs_ok r" and "seen \<le> acct"
  shows "held account seen (note_run acct r (refetchIfUsed (forget r)) starts) (refetchIfUsed (forget r))"
  by (rule held_refetchIfUsed [OF held_forget [OF assms(1)] assms(2)]) (simp add: forget_def)

lemma use_held:
  assumes "f = ensure \<or> f = refresh \<or> f = invalidate" and "held account seen starts r" and "seen \<le> acct"
  shows "held account seen (note_run acct r (f r) starts) (f r)"
  using assms(1) held_refresh [OF assms(2,3)] held_invalidate [OF assms(2,3), of r] by auto

lemma message_caches:
  assumes ok: "caches_ok account w" and seen: "dw_seen w \<le> dw_account w" and p: "pushed_ok account (dw_seen w) m"
  shows "caches_ok account (with_stores (applyStreamMessage local_date m (dw_stores w)) w)"
proof -
  have h: "held account (dw_seen w) (dw_agents_starts w) (dt_agents (dw_stores w))" "held account (dw_seen w) (dw_overview_starts w) (dt_overview (dw_stores w))"
    "held account (dw_seen w) (dw_catalog_starts w) (dt_catalog (dw_stores w))" using ok by (simp_all add: caches_ok_def)
  note inv = h(1) [THEN held_invalidate] h(2) [THEN held_invalidate] h(3) [THEN held_invalidate]
  note refetch = h(1) [THEN held_refetchIfUsed] h(2) [THEN held_refetchIfUsed] h(3) [THEN held_refetchIfUsed]
  note runs = h [THEN heldD(1)]
  show ?thesis
    by (rule caches_okI') (use h p runs seen in \<open>cases m; simp add: forgetAll_def refreshAfterReconnect_def refreshAfterPolicyChange_def applyAgentsEvent_def
      applyProjectsEvent_def applyAgentAccessEvent_def held_push_parsed held_note held_forget inv refetch\<close>)+
qed


lemma status_ok:
  assumes ok: "caches_ok account w" "account_ok ident w" and a: "a = dw_seen w \<or> a = dw_seen w + 1" "a \<le> dw_account w" "identity_of s = ident a"
    and ident: "\<And>n. ident n \<noteq> ident (Suc n)"
  shows "caches_ok account ((with_stores (applyStreamMessage local_date (StatusMessage s) (dw_stores w)) w)\<lparr>dw_seen := a\<rparr>)"
    and "account_ok ident ((with_stores (applyStreamMessage local_date (StatusMessage s) (dw_stores w)) w)\<lparr>dw_seen := a\<rparr>)"
proof -
  let ?st = "applyStreamMessage local_date (StatusMessage s) (dw_stores w)"
  have h: "held account (dw_seen w) (dw_agents_starts w) (dt_agents (dw_stores w))" "held account (dw_seen w) (dw_overview_starts w) (dt_overview (dw_stores w))"
    "held account (dw_seen w) (dw_catalog_starts w) (dt_catalog (dw_stores w))" using ok(1) by (simp_all add: caches_ok_def)
  have id: "dt_identity ?st = Some (ident a)" by (simp add: followAccount_def Let_def a(3))
  then show "account_ok ident ((with_stores ?st w)\<lparr>dw_seen := a\<rparr>)" using a(2) by (simp add: account_ok_def del: applyStreamMessage.simps)
  show "caches_ok account ((with_stores ?st w)\<lparr>dw_seen := a\<rparr>)"
  proof (cases "a = dw_seen w")
    case True
    then have same: "dt_agents ?st = dt_agents (dw_stores w)" "dt_overview ?st = dt_overview (dw_stores w)" "dt_catalog ?st = dt_catalog (dw_stores w)"
      using ok(2) a(3) by (auto simp: followAccount_def Let_def account_ok_def)
    show ?thesis by (rule caches_okI) (simp_all only: same note_run_same True h)
  next
    case False
    then have Suc: "a = Suc (dw_seen w)" using a(1) by simp
    have "dt_identity (dw_stores w) = Some (ident (dw_seen w))" using ok(2) a(2) Suc by (cases "dt_identity (dw_stores w)") (auto simp: account_ok_def)
    then have "dt_identity (dw_stores w) \<noteq> None \<and> dt_identity (dw_stores w) \<noteq> Some (identity_of s)" using ident [of "dw_seen w"] a(3) Suc by simp
    then have new: "dt_agents ?st = refetchIfUsed (forget (dt_agents (dw_stores w)))" "dt_overview ?st = refetchIfUsed (forget (dt_overview (dw_stores w)))"
      "dt_catalog ?st = refetchIfUsed (forget (dt_catalog (dw_stores w)))"
      by (simp_all add: followAccount_def Let_def refreshAfterReconnect_def forgetAll_def)
    show ?thesis unfolding Suc
      by (rule caches_okI) (use h [THEN heldD(1), THEN reconnect_held] a(2) Suc in \<open>simp_all only: new\<close>)
  qed
qed

lemma message_identity: "pushed_ok account seen m \<Longrightarrow> dt_identity (applyStreamMessage local_date m st) = dt_identity st"
  by (cases m) (simp_all add: refreshAfterReconnect_def forgetAll_def applyAgentsEvent_def applyProjectsEvent_def refreshAfterPolicyChange_def applyAgentAccessEvent_def)

lemma access_answered_sel [simp]:
  "dt_agents (access_answered m r v st) = dt_agents st" "dt_overview (access_answered m r v st) = dt_overview st"
  "dt_catalog (access_answered m r v st) = dt_catalog st" "dt_identity (access_answered m r v st) = dt_identity st"
  by (simp_all add: access_answered_def settleRequest_def split: option.split)

lemma daemon_step_ok:
  assumes "daemon_step account ident local_date w w'" and ok: "caches_ok account w" "account_ok ident w" and ident: "\<And>n. ident n \<noteq> ident (Suc n)"
  shows "caches_ok account w' \<and> account_ok ident w'"
proof -
  have h: "held account (dw_seen w) (dw_agents_starts w) (dt_agents (dw_stores w))" "held account (dw_seen w) (dw_overview_starts w) (dt_overview (dw_stores w))"
    "held account (dw_seen w) (dw_catalog_starts w) (dt_catalog (dw_stores w))" using ok(1) by (simp_all add: caches_ok_def)
  have seen: "dw_seen w \<le> dw_account w" using ok(2) by (simp add: account_ok_def)
  have same_id: "account_ok ident (with_stores st w)" if "dt_identity st = dt_identity (dw_stores w)" for st using ok(2) that by (simp add: account_ok_def)
  from assms(1) show ?thesis
  proof cases
    case switch
    then show ?thesis using ok by (auto simp: caches_ok_def account_ok_def)
  next
    case (status a s)
    then show ?thesis using status_ok [OF ok status(2-4) ident] by simp
  next
    case (message m)
    then show ?thesis using message_caches [OF ok(1) seen message(2), of local_date] same_id [OF message_identity [OF message(2), of local_date]] by simp
  next
    case (use_agents f)
    then show ?thesis using same_id use_held [OF use_agents(2) h(1) seen] h by (auto intro!: caches_okI')
  next
    case (use_overview f)
    then show ?thesis using same_id use_held [OF use_overview(2) h(2) seen] h by (auto intro!: caches_okI')
  next
    case (use_catalog f)
    then show ?thesis using same_id use_held [OF use_catalog(2) h(3) seen] h by (auto intro!: caches_okI')
  next
    case (agents_answer run parsed)
    then show ?thesis using same_id held_answer [OF h(1) agents_answer(2) seen agents_answer(3)] h by (auto intro!: caches_okI')
  next
    case (overview_answer run parsed)
    then show ?thesis using same_id held_answer [OF h(2) overview_answer(2) seen overview_answer(3)] h by (auto intro!: caches_okI')
  next
    case (catalog_answer run parsed)
    then show ?thesis using same_id held_answer [OF h(3) catalog_answer(2) seen catalog_answer(3)] h by (auto intro!: caches_okI')
  next
    case (toggle mappingId enabled request st)
    have st: "dt_agents st = dt_agents (dw_stores w)" "dt_overview st = dt_overview (dw_stores w)" "dt_catalog st = dt_catalog (dw_stores w)"
      "dt_identity st = dt_identity (dw_stores w)" using toggle(2) by (auto simp: setAgentAccess_def Let_def)
    have "caches_ok account (with_stores st w)" by (rule caches_okI') (simp_all add: st h)
    then show ?thesis using same_id [OF st(4)] by (simp add: toggle(1) caches_ok_def account_ok_def)
  next
    case (toggle_answer mappingId request acct result)
    then show ?thesis using same_id h by (auto intro!: caches_okI')
  qed
qed

lemma daemon_reachable_ok:
  assumes "daemon_reachable account ident local_date w" and "\<And>n. ident n \<noteq> ident (Suc n)"
  shows "caches_ok account w \<and> account_ok ident w"
  using assms(1)
proof (induction rule: daemon_reachable.induct)
  case init
  then show ?case by (simp add: caches_ok_def account_ok_def held_def daemon_start_def stores_start_def createRefetchable_def runs_ok_def)
next
  case (step w w')
  then show ?case using daemon_step_ok assms(2) by blast
qed


text \<open>The delay before the subscription is tried again doubles up to its bound.\<close>

lemma retry_delay_bounds: "retry_delay i m n \<le> m" "retry_delay i m n \<le> retry_delay i m (Suc n)" "retry_delay i m (Suc n) \<le> 2 * retry_delay i m n"
  by (auto simp: retry_delay_def min_def)


section \<open>Properties\<close>


definition sample_status :: "nat \<Rightarrow> companion_status" where
  "sample_status n = \<lparr>st_installation_id = show_nat n, st_endpoint = ''https://b'', st_connected = True, st_web_origin = None\<rparr>"

definition sample_ident :: "nat \<Rightarrow> string" where
  "sample_ident n = identity_of (sample_status n)"

definition sample_account :: "json \<Rightarrow> nat" where
  "sample_account v = (if v = JArr [] then 1 else 0)"

lemma sample_ident_distinct: "sample_ident n \<noteq> sample_ident (Suc n)"
  by (simp add: sample_ident_def identity_of_def sample_status_def)

definition after_status :: "nat \<Rightarrow> daemon_world \<Rightarrow> daemon_world" where
  "after_status n w = (with_stores (applyStreamMessage utc_date (StatusMessage (sample_status n)) (dw_stores w)) w)\<lparr>dw_seen := n\<rparr>"

definition second_account :: "daemon_world \<Rightarrow> daemon_world" where
  "second_account w = after_status 1 (w\<lparr>dw_account := dw_account w + 1\<rparr>)"

lemma first_status: "daemon_reachable sample_account sample_ident utc_date (after_status 0 daemon_start)"
  unfolding after_status_def
  by (rule daemon_reachable.step [OF daemon_reachable.init daemon_step.status]) (simp_all add: daemon_start_def sample_ident_def)

lemma second_account_reachable:
  assumes "daemon_reachable sample_account sample_ident utc_date w" and "dt_identity (dw_stores w) \<noteq> None" and "dw_seen w = 0"
  shows "daemon_reachable sample_account sample_ident utc_date (second_account w)"
  unfolding second_account_def after_status_def
  by (rule daemon_reachable.step [OF daemon_reachable.step [OF assms(1) daemon_step.switch] daemon_step.status])
    (use assms(2,3) in \<open>simp_all add: sample_ident_def\<close>)

definition with_agents :: "daemon_world \<Rightarrow> daemon_world" where
  "with_agents w = with_stores (applyStreamMessage utc_date (AgentsMessage (JArr [])) (dw_stores w)) w"


text \<open>
  The agent access switches break that rule: the answer to a switch that was flipped before the
  account changed is cached afterwards, so the settings of the old account are shown.
\<close>

lemma late_switch_shows_old_account:
  "\<exists>w. daemon_reachable sample_account sample_ident utc_date w \<and>
     (\<exists>v. rf_store (dt_access (dw_stores w)) = Some v \<and> sample_account v < dw_seen w)"
proof -
  let ?w0 = "after_status 0 daemon_start"
  define st where "st = snd (setAgentAccess ''m'' True (dw_stores ?w0))"
  define w1 where "w1 = (with_stores st ?w0)\<lparr>dw_toggles := (''m'', 1, dw_account ?w0) # dw_toggles ?w0\<rparr>"
  define w2 where "w2 = second_account w1"
  define w3 where "w3 = with_stores (access_answered ''m'' 1 (Some JNull) (dw_stores w2)) w2"
  have set: "setAgentAccess ''m'' True (dw_stores ?w0) = (1, st)"
    by (simp add: st_def setAgentAccess_def after_status_def daemon_start_def stores_start_def followAccount_def Let_def)
  have w1: "daemon_reachable sample_account sample_ident utc_date w1"
    unfolding w1_def by (rule daemon_reachable.step [OF first_status daemon_step.toggle [OF set]])
  have st: "dt_identity st \<noteq> None" "jm_get (dt_latest st) ''m'' = Some 1"
    by (simp_all add: st_def setAgentAccess_def after_status_def followAccount_def Let_def stores_start_def daemon_start_def)
  have "dt_identity (dw_stores w1) \<noteq> None" "dw_seen w1 = 0" using st(1) by (simp_all add: w1_def after_status_def)
  then have w2: "daemon_reachable sample_account sample_ident utc_date w2" unfolding w2_def by (rule second_account_reachable [OF w1])
  have w2_sel: "dw_toggles w2 = (''m'', 1, 0) # []" "dw_account w2 = 1" "dw_seen w2 = 1" "jm_get (dt_latest (dw_stores w2)) ''m'' = Some 1"
    using st(2) by (simp_all add: w2_def w1_def second_account_def after_status_def with_stores_def daemon_start_def followAccount_def refreshAfterReconnect_def forgetAll_def Let_def)
  have "daemon_reachable sample_account sample_ident utc_date w3"
    unfolding w3_def by (rule daemon_reachable.step [OF w2 daemon_step.toggle_answer]) (simp_all add: w2_sel sample_account_def)
  moreover have "rf_store (dt_access (dw_stores w3)) = Some JNull" "dw_seen w3 = 1"
    using w2_sel by (simp_all add: w3_def access_answered_def settleRequest_def push_value_def)
  ultimately show ?thesis by (intro exI [of _ w3]) (simp add: sample_account_def)
qed

end
