(* ===== verification/Companion_Layers.thy ===== *)
theory Companion_Layers
  imports JS_Prelude
begin

text \<open>
  The layers above the companion's panel (\<open>shell/layers.ts\<close>): one sheet, one dialog and one toast at
  a time. Render functions, focus targets, callbacks and confirm actions are opaque references. The
  world adds what cannot be seen in the store: the promises that were resolved, the \<open>onClose\<close>
  callbacks that were called and the confirm actions that are running. The promise of a dialog is
  named by the dialog's id. Several operations change the store twice in a row; only the final
  store is kept.
\<close>


section \<open>The store\<close>

record sheet_spec =
  sp_title :: string
  sp_render :: nat
  sp_footer :: "nat option"
  sp_returnFocusTo :: "nat option"
  sp_onClose :: "nat option"

record confirm_options =
  co_title :: string
  co_body :: nat
  co_confirmLabel :: string
  co_cancelLabel :: "string option"
  co_tone :: "string option"
  co_returnFocusTo :: "nat option"
  co_onConfirm :: "nat option"

datatype sheet_entry = SpecSheet nat sheet_spec | CustomSheet nat nat "nat option"

record dialog_entry =
  dg_id :: nat
  dg_options :: confirm_options
  dg_confirming :: bool
  dg_error :: "string option"

record toast_entry =
  to_id :: nat
  to_message :: string
  to_tone :: string

record layers_state =
  la_sheet :: "sheet_entry option"
  la_dialog :: "dialog_entry option"
  la_toast :: "toast_entry option"

text \<open>
  \<open>lw_asked\<close> and \<open>lw_pressed\<close> are the ids of all dialogs that were asked, and of those whose confirm
  button started or settled them; \<open>lw_overlapped\<close> says that a dialog was asked while a confirm
  action was running.
\<close>

record layers_world =
  lw_state :: layers_state
  lw_nextLayerId :: nat
  lw_toastTimer :: "nat option"
  lw_resolved :: "(nat \<times> bool) list"
  lw_closed :: "nat list"
  lw_running :: "nat list"
  lw_asked :: "nat list"
  lw_pressed :: "nat list"
  lw_overlapped :: bool

definition EMPTY_LAYERS :: layers_state where
  "EMPTY_LAYERS = \<lparr>la_sheet = None, la_dialog = None, la_toast = None\<rparr>"

definition layers_start :: layers_world where
  "layers_start = \<lparr>lw_state = EMPTY_LAYERS, lw_nextLayerId = 0, lw_toastTimer = None, lw_resolved = [], lw_closed = [],
     lw_running = [], lw_asked = [], lw_pressed = [], lw_overlapped = False\<rparr>"

definition resolve :: "nat \<Rightarrow> bool \<Rightarrow> layers_world \<Rightarrow> layers_world" where
  "resolve d confirmed w = w\<lparr>lw_resolved := lw_resolved w @ [(d, confirmed)]\<rparr>"

definition put_dialog :: "dialog_entry option \<Rightarrow> layers_world \<Rightarrow> layers_world" where
  "put_dialog d w = w\<lparr>lw_state := (lw_state w)\<lparr>la_dialog := d\<rparr>\<rparr>"

abbreviation dialog_of :: "layers_world \<Rightarrow> dialog_entry option" where
  "dialog_of w \<equiv> la_dialog (lw_state w)"

abbreviation toast_of :: "layers_world \<Rightarrow> toast_entry option" where
  "toast_of w \<equiv> la_toast (lw_state w)"


section \<open>Sheets\<close>

fun sheetOnClose :: "sheet_entry \<Rightarrow> nat option" where
  "sheetOnClose (SpecSheet i spec) = sp_onClose spec"
| "sheetOnClose (CustomSheet i render onClose) = onClose"

definition openSheet :: "sheet_spec \<Rightarrow> layers_world \<Rightarrow> layers_world" where
  "openSheet spec w = (let i = lw_nextLayerId w + 1 in
     w\<lparr>lw_nextLayerId := i, lw_state := (lw_state w)\<lparr>la_sheet := Some (SpecSheet i spec)\<rparr>\<rparr>)"

definition presentSheet :: "nat \<Rightarrow> nat option \<Rightarrow> layers_world \<Rightarrow> layers_world" where
  "presentSheet render onClose w = (let i = lw_nextLayerId w + 1 in
     w\<lparr>lw_nextLayerId := i, lw_state := (lw_state w)\<lparr>la_sheet := Some (CustomSheet i render onClose)\<rparr>\<rparr>)"

definition closeSheet :: "layers_world \<Rightarrow> layers_world" where
  "closeSheet w = (case la_sheet (lw_state w) of
     None \<Rightarrow> w
   | Some sheet \<Rightarrow> w\<lparr>lw_state := (lw_state w)\<lparr>la_sheet := None\<rparr>,
       lw_closed := lw_closed w @ (case sheetOnClose sheet of Some f \<Rightarrow> [f] | None \<Rightarrow> [])\<rparr>)"


section \<open>Dialogs\<close>

definition confirmDialog :: "confirm_options \<Rightarrow> layers_world \<Rightarrow> layers_world" where
  "confirmDialog options w =
     (let w1 = (case dialog_of w of Some d \<Rightarrow> resolve (dg_id d) False w | None \<Rightarrow> w);
          i = lw_nextLayerId w1 + 1
      in (put_dialog (Some \<lparr>dg_id = i, dg_options = options, dg_confirming = False, dg_error = None\<rparr>) w1)
           \<lparr>lw_nextLayerId := i, lw_asked := lw_asked w1 @ [i], lw_overlapped := (lw_overlapped w1 \<or> lw_running w1 \<noteq> [])\<rparr>)"

text \<open>
  A rejection reason as the message it carries, \<open>None\<close> unless it is an error or an object with a
  text message. The apostrophe of the generic message is the typographic one in the source.
\<close>

definition GENERIC_FAILURE :: string where
  "GENERIC_FAILURE = ''That didn't work. Try again.''"

definition failureMessage :: "string option \<Rightarrow> string" where
  "failureMessage reason = (case reason of Some m \<Rightarrow> if m \<noteq> '''' then m else GENERIC_FAILURE | None \<Rightarrow> GENERIC_FAILURE)"

definition patchDialog :: "nat \<Rightarrow> (dialog_entry \<Rightarrow> dialog_entry) \<Rightarrow> layers_world \<Rightarrow> layers_world" where
  "patchDialog i patch w = (case dialog_of w of
     None \<Rightarrow> w
   | Some d \<Rightarrow> if dg_id d \<noteq> i then w else put_dialog (Some (patch d)) w)"

text \<open>The changes leave \<open>onConfirm\<close> out.\<close>

definition updateDialog :: "nat \<Rightarrow> (confirm_options \<Rightarrow> confirm_options) \<Rightarrow> layers_world \<Rightarrow> layers_world" where
  "updateDialog i changes w = (case dialog_of w of
     None \<Rightarrow> w
   | Some d \<Rightarrow> if dg_id d \<noteq> i then w
       else put_dialog (Some (d\<lparr>dg_options := (changes (dg_options d))\<lparr>co_onConfirm := co_onConfirm (dg_options d)\<rparr>\<rparr>)) w)"

definition settleDialog :: "bool \<Rightarrow> layers_world \<Rightarrow> layers_world" where
  "settleDialog confirmed w = (case dialog_of w of
     None \<Rightarrow> w
   | Some d \<Rightarrow> if dg_confirming d then w else resolve (dg_id d) confirmed (put_dialog None w))"

text \<open>The confirm button up to the \<open>await\<close>, and what follows once the action has settled.\<close>

definition confirmActiveDialog :: "layers_world \<Rightarrow> layers_world" where
  "confirmActiveDialog w = (case dialog_of w of
     None \<Rightarrow> w
   | Some d \<Rightarrow>
       if dg_confirming d then w
       else let w1 = w\<lparr>lw_pressed := lw_pressed w @ [dg_id d]\<rparr> in
         case co_onConfirm (dg_options d) of
           None \<Rightarrow> settleDialog True w1
         | Some action \<Rightarrow> (patchDialog (dg_id d) (\<lambda>d. d\<lparr>dg_confirming := True, dg_error := None\<rparr>) w1)
             \<lparr>lw_running := lw_running w1 @ [dg_id d]\<rparr>)"

definition action_failed :: "nat \<Rightarrow> string option \<Rightarrow> layers_world \<Rightarrow> layers_world" where
  "action_failed i reason w = patchDialog i (\<lambda>d. d\<lparr>dg_confirming := False, dg_error := Some (failureMessage reason)\<rparr>)
     (w\<lparr>lw_running := remove1 i (lw_running w)\<rparr>)"

definition action_succeeded :: "nat \<Rightarrow> layers_world \<Rightarrow> layers_world" where
  "action_succeeded i w = settleDialog True (patchDialog i (\<lambda>d. d\<lparr>dg_confirming := False\<rparr>)
     (w\<lparr>lw_running := remove1 i (lw_running w)\<rparr>))"


section \<open>Toasts\<close>

definition dismissToast :: "nat \<Rightarrow> layers_world \<Rightarrow> layers_world" where
  "dismissToast i w = (if map_option to_id (toast_of w) \<noteq> Some i then w else w\<lparr>lw_state := (lw_state w)\<lparr>la_toast := None\<rparr>\<rparr>)"

definition showToast :: "string \<Rightarrow> string option \<Rightarrow> layers_world \<Rightarrow> layers_world" where
  "showToast message tone w = (let i = lw_nextLayerId w + 1 in
     w\<lparr>lw_nextLayerId := i,
       lw_state := (lw_state w)\<lparr>la_toast := Some \<lparr>to_id = i, to_message = message, to_tone = (case tone of Some t \<Rightarrow> t | None \<Rightarrow> ''success'')\<rparr>\<rparr>,
       lw_toastTimer := Some i\<rparr>)"

definition toast_timer_fires :: "nat \<Rightarrow> layers_world \<Rightarrow> layers_world" where
  "toast_timer_fires i w = dismissToast i (w\<lparr>lw_toastTimer := None\<rparr>)"

definition modalLayerOpen :: "layers_world \<Rightarrow> bool" where
  "modalLayerOpen w = (la_sheet (lw_state w) \<noteq> None \<or> dialog_of w \<noteq> None)"


section \<open>Runs\<close>

inductive layers_step :: "layers_world \<Rightarrow> layers_world \<Rightarrow> bool" where
  open_sheet: "layers_step w (openSheet spec w)"
| present_sheet: "layers_step w (presentSheet render onClose w)"
| close_sheet: "layers_step w (closeSheet w)"
| ask: "layers_step w (confirmDialog options w)"
| cancel: "layers_step w (settleDialog False w)"
| press: "layers_step w (confirmActiveDialog w)"
| update: "i \<in> set (lw_running w) \<Longrightarrow> layers_step w (updateDialog i changes w)"
| fail: "i \<in> set (lw_running w) \<Longrightarrow> layers_step w (action_failed i reason w)"
| succeed: "i \<in> set (lw_running w) \<Longrightarrow> layers_step w (action_succeeded i w)"
| toast: "layers_step w (showToast message tone w)"
| dismiss: "layers_step w (dismissToast i w)"
| toast_timer: "lw_toastTimer w = Some i \<Longrightarrow> layers_step w (toast_timer_fires i w)"

inductive layers_reachable :: "layers_world \<Rightarrow> bool" where
  init: "layers_reachable layers_start"
| step: "layers_reachable w \<Longrightarrow> layers_step w w' \<Longrightarrow> layers_reachable w'"



section \<open>Every question is answered once\<close>

definition open_ids :: "layers_world \<Rightarrow> nat set" where
  "open_ids w = dg_id ` set_option (dialog_of w)"

definition promises_ok :: "layers_world \<Rightarrow> bool" where
  "promises_ok w \<longleftrightarrow> distinct (map fst (lw_resolved w)) \<and> set (lw_asked w) = fst ` set (lw_resolved w) \<union> open_ids w \<and>
     open_ids w \<inter> fst ` set (lw_resolved w) = {} \<and> (\<forall>i\<in>set (lw_asked w). i \<le> lw_nextLayerId w)"

definition confirm_ok :: "layers_world \<Rightarrow> bool" where
  "confirm_ok w \<longleftrightarrow>
     (lw_running w = [] \<or> (\<exists>d. dialog_of w = Some d \<and> dg_confirming d \<and> lw_running w = [dg_id d] \<and> dg_id d \<in> set (lw_pressed w))) \<and>
     (\<forall>i. (i, True) \<in> set (lw_resolved w) \<longrightarrow> i \<in> set (lw_pressed w))"

definition toast_ok :: "layers_world \<Rightarrow> bool" where
  "toast_ok w \<longleftrightarrow> (\<forall>t. toast_of w = Some t \<longrightarrow> lw_toastTimer w = Some (to_id t))"

lemma promises_ok_cong:
  assumes "promises_ok w" and "open_ids w' = open_ids w" and "lw_resolved w' = lw_resolved w" and "lw_asked w' = lw_asked w"
    and "lw_nextLayerId w \<le> lw_nextLayerId w'"
  shows "promises_ok w'"
proof -
  have "\<forall>i\<in>set (lw_asked w). i \<le> lw_nextLayerId w'" using assms(1,5) le_trans unfolding promises_ok_def by blast
  then show ?thesis using assms(1) unfolding promises_ok_def assms(2-4) by blast
qed

lemma open_ids_update [simp]: "open_ids (w\<lparr>lw_running := r\<rparr>) = open_ids w" "open_ids (w\<lparr>lw_pressed := p\<rparr>) = open_ids w"
  by (simp_all add: open_ids_def)

lemma patchDialog_open:
  "(\<And>d. dg_id (patch d) = dg_id d) \<Longrightarrow> open_ids (patchDialog i patch w) = open_ids w"
  by (auto simp: open_ids_def patchDialog_def put_dialog_def split: option.split)

lemma patchDialog_sel [simp]:
  "lw_resolved (patchDialog i patch w) = lw_resolved w" "lw_asked (patchDialog i patch w) = lw_asked w"
  "lw_nextLayerId (patchDialog i patch w) = lw_nextLayerId w" "lw_running (patchDialog i patch w) = lw_running w"
  "lw_pressed (patchDialog i patch w) = lw_pressed w" "lw_overlapped (patchDialog i patch w) = lw_overlapped w"
  "toast_of (patchDialog i patch w) = toast_of w" "lw_toastTimer (patchDialog i patch w) = lw_toastTimer w"
  by (simp_all add: patchDialog_def put_dialog_def split: option.split)

lemma settleDialog_sel [simp]:
  "lw_asked (settleDialog c w) = lw_asked w" "lw_nextLayerId (settleDialog c w) = lw_nextLayerId w" "lw_running (settleDialog c w) = lw_running w"
  "lw_pressed (settleDialog c w) = lw_pressed w" "lw_overlapped (settleDialog c w) = lw_overlapped w"
  "toast_of (settleDialog c w) = toast_of w" "lw_toastTimer (settleDialog c w) = lw_toastTimer w"
  by (simp_all add: settleDialog_def resolve_def put_dialog_def split: option.split)

lemma resolve_open_ok:
  assumes "promises_ok w" and "dialog_of w = Some d"
  shows "promises_ok (resolve (dg_id d) c (put_dialog None w))"
  using assms by (simp add: promises_ok_def resolve_def put_dialog_def open_ids_def)

lemma settleDialog_promises: "promises_ok w \<Longrightarrow> promises_ok (settleDialog c w)"
  using resolve_open_ok by (simp add: settleDialog_def split: option.split)

lemma confirmDialog_promises:
  assumes "promises_ok w"
  shows "promises_ok (confirmDialog options w)"
proof -
  define w1 where "w1 = (case dialog_of w of Some d \<Rightarrow> resolve (dg_id d) False (put_dialog None w) | None \<Rightarrow> w)"
  have ok: "promises_ok w1" "open_ids w1 = {}"
    using assms resolve_open_ok by (simp_all add: w1_def open_ids_def resolve_def put_dialog_def split: option.split)
  have w1: "lw_asked (confirmDialog options w) = lw_asked w1 @ [lw_nextLayerId w1 + 1]" "lw_resolved (confirmDialog options w) = lw_resolved w1"
    "lw_nextLayerId (confirmDialog options w) = lw_nextLayerId w1 + 1" "open_ids (confirmDialog options w) = {lw_nextLayerId w1 + 1}"
    by (simp_all add: confirmDialog_def w1_def Let_def put_dialog_def resolve_def open_ids_def split: option.split)
  have fresh: "lw_nextLayerId w1 + 1 \<notin> set (lw_asked w1)" using ok(1) unfolding promises_ok_def by fastforce
  have "set (lw_asked w1) = fst ` set (lw_resolved w1)" using ok unfolding promises_ok_def by simp
  moreover have "\<forall>i\<in>set (lw_asked w1 @ [lw_nextLayerId w1 + 1]). i \<le> lw_nextLayerId w1 + 1" using ok(1) unfolding promises_ok_def by fastforce
  moreover have "distinct (map fst (lw_resolved w1))" using ok(1) unfolding promises_ok_def by simp
  ultimately show ?thesis using fresh unfolding promises_ok_def w1 by auto
qed

lemma confirmActiveDialog_cases:
  obtains (nothing) "confirmActiveDialog w = w"
    | (settle) d where "dialog_of w = Some d" "\<not> dg_confirming d" "confirmActiveDialog w = settleDialog True (w\<lparr>lw_pressed := lw_pressed w @ [dg_id d]\<rparr>)"
    | (run) d where "dialog_of w = Some d" "\<not> dg_confirming d" "confirmActiveDialog w =
        (patchDialog (dg_id d) (\<lambda>d. d\<lparr>dg_confirming := True, dg_error := None\<rparr>) (w\<lparr>lw_pressed := lw_pressed w @ [dg_id d]\<rparr>))\<lparr>lw_running := lw_running w @ [dg_id d]\<rparr>"
proof (cases "dialog_of w")
  case None
  then show ?thesis using that(1) by (simp add: confirmActiveDialog_def)
next
  case (Some d)
  then show ?thesis
    using that(1) that(2) [of d] that(3) [of d] by (cases "dg_confirming d"; cases "co_onConfirm (dg_options d)") (simp_all add: confirmActiveDialog_def Let_def)
qed

lemma update_same_promises: "promises_ok (w\<lparr>lw_running := r\<rparr>) = promises_ok w" "promises_ok (w\<lparr>lw_pressed := p\<rparr>) = promises_ok w"
  by (simp_all add: promises_ok_def open_ids_def)

lemma confirmActiveDialog_promises: "promises_ok w \<Longrightarrow> promises_ok (confirmActiveDialog w)"
proof (cases rule: confirmActiveDialog_cases [of w])
  case (settle d)
  assume "promises_ok w"
  then show ?thesis using settle(3) settleDialog_promises update_same_promises(2) by simp
next
  case (run d)
  assume ok: "promises_ok w"
  show ?thesis unfolding run(3) update_same_promises
    by (rule promises_ok_cong [OF ok]) (simp_all add: patchDialog_open)
qed simp

lemma action_succeeded_promises:
  assumes "promises_ok w"
  shows "promises_ok (action_succeeded i w)"
proof -
  have "promises_ok (patchDialog i (\<lambda>d. d\<lparr>dg_confirming := False\<rparr>) (w\<lparr>lw_running := remove1 i (lw_running w)\<rparr>))"
    by (rule promises_ok_cong [OF assms]) (simp_all add: patchDialog_open)
  then show ?thesis unfolding action_succeeded_def by (rule settleDialog_promises)
qed

text \<open>Sheets and toasts leave the dialog alone.\<close>

definition dialog_kept :: "layers_world \<Rightarrow> layers_world \<Rightarrow> bool" where
  "dialog_kept w w' \<longleftrightarrow> dialog_of w' = dialog_of w \<and> lw_resolved w' = lw_resolved w \<and> lw_asked w' = lw_asked w \<and>
    lw_nextLayerId w \<le> lw_nextLayerId w' \<and> lw_running w' = lw_running w \<and> lw_pressed w' = lw_pressed w \<and> lw_overlapped w' = lw_overlapped w"

lemma other_layers:
  "dialog_kept w (openSheet spec w)" "dialog_kept w (presentSheet render onClose w)" "dialog_kept w (closeSheet w)"
  "dialog_kept w (showToast message tone w)" "dialog_kept w (dismissToast i w)" "dialog_kept w (toast_timer_fires i w)"
  by (simp_all add: dialog_kept_def openSheet_def presentSheet_def closeSheet_def showToast_def dismissToast_def
    toast_timer_fires_def Let_def split: option.split)

lemma dialog_kept_promises: "promises_ok w \<Longrightarrow> dialog_kept w w' \<Longrightarrow> promises_ok w'"
  by (erule promises_ok_cong) (simp_all add: dialog_kept_def open_ids_def)

lemma layers_step_promises:
  assumes "layers_step w w'" and ok: "promises_ok w"
  shows "promises_ok w'"
  using assms(1)
proof cases
  case (ask options)
  then show ?thesis using confirmDialog_promises [OF ok] by simp
next
  case cancel
  then show ?thesis using settleDialog_promises [OF ok] by simp
next
  case press
  then show ?thesis using confirmActiveDialog_promises [OF ok] by simp
next
  case (succeed i)
  then show ?thesis using action_succeeded_promises [OF ok] by simp
next
  case (fail i reason)
  show ?thesis unfolding fail action_failed_def by (rule promises_ok_cong [OF ok]) (simp_all add: patchDialog_open)
next
  case (update i changes)
  show ?thesis unfolding update
    by (rule promises_ok_cong [OF ok]) (simp_all add: updateDialog_def put_dialog_def open_ids_def split: option.split)
qed (use dialog_kept_promises [OF ok] other_layers in simp_all)


text \<open>While no dialog was asked over a running action, at most the open dialog's action runs.\<close>

lemma confirm_okI:
  assumes "lw_running w = [] \<or> (\<exists>d. dialog_of w = Some d \<and> dg_confirming d \<and> lw_running w = [dg_id d] \<and> dg_id d \<in> set (lw_pressed w))"
    and "\<And>i. (i, True) \<in> set (lw_resolved w) \<Longrightarrow> i \<in> set (lw_pressed w)"
  shows "confirm_ok w"
  using assms unfolding confirm_ok_def by blast

lemma confirm_ok_idle: "confirm_ok w \<Longrightarrow> dialog_of w = Some d \<Longrightarrow> \<not> dg_confirming d \<Longrightarrow> lw_running w = []"
  unfolding confirm_ok_def by (metis option.inject)

lemma confirm_ok_pressed: "confirm_ok w \<Longrightarrow> (i, True) \<in> set (lw_resolved w) \<Longrightarrow> i \<in> set (lw_pressed w)"
  unfolding confirm_ok_def by blast

lemma confirm_ok_running:
  assumes "confirm_ok w" and "i \<in> set (lw_running w)"
  obtains d where "dialog_of w = Some d" "dg_confirming d" "lw_running w = [i]" "dg_id d = i" "i \<in> set (lw_pressed w)"
  using assms unfolding confirm_ok_def by auto

lemma settleDialog_confirm:
  assumes "confirm_ok w" and "c \<Longrightarrow> open_ids w \<subseteq> set (lw_pressed w)"
  shows "confirm_ok (settleDialog c w)"
proof (cases "dialog_of w")
  case None
  then show ?thesis using assms(1) by (simp add: settleDialog_def)
next
  case (Some d)
  show ?thesis
  proof (cases "dg_confirming d")
    case True
    then show ?thesis using assms(1) Some by (simp add: settleDialog_def)
  next
    case False
    have "lw_running w = []" by (rule confirm_ok_idle [OF assms(1) Some False])
    moreover have "lw_resolved (settleDialog c w) = lw_resolved w @ [(dg_id d, c)]" using Some False by (simp add: settleDialog_def resolve_def put_dialog_def)
    ultimately show ?thesis using assms(2) confirm_ok_pressed [OF assms(1)] Some by (intro confirm_okI) (auto simp: open_ids_def)
  qed
qed

lemma confirmDialog_confirm:
  assumes "confirm_ok w" and "\<not> lw_overlapped (confirmDialog options w)"
  shows "confirm_ok (confirmDialog options w)"
proof -
  have "lw_running w = []" using assms(2) by (simp add: confirmDialog_def Let_def put_dialog_def resolve_def split: option.splits)
  then show ?thesis using confirm_ok_pressed [OF assms(1)]
    by (intro confirm_okI) (auto simp: confirmDialog_def Let_def put_dialog_def resolve_def split: option.splits)
qed

lemma confirmActiveDialog_confirm:
  assumes ok: "confirm_ok w"
  shows "confirm_ok (confirmActiveDialog w)"
proof (cases rule: confirmActiveDialog_cases [of w])
  case nothing
  then show ?thesis using ok by simp
next
  case (settle d)
  have "confirm_ok (w\<lparr>lw_pressed := lw_pressed w @ [dg_id d]\<rparr>)"
    using confirm_ok_idle [OF ok settle(1,2)] confirm_ok_pressed [OF ok] by (intro confirm_okI) auto
  then show ?thesis unfolding settle(3) by (rule settleDialog_confirm) (simp add: open_ids_def settle(1))
next
  case (run d)
  then show ?thesis using confirm_ok_idle [OF ok run(1,2)] confirm_ok_pressed [OF ok]
    by (intro confirm_okI) (auto simp: patchDialog_def put_dialog_def)
qed

lemma action_settled_confirm:
  assumes ok: "confirm_ok w" and "i \<in> set (lw_running w)"
  shows "confirm_ok (patchDialog i patch (w\<lparr>lw_running := remove1 i (lw_running w)\<rparr>))"
  using assms(2) confirm_ok_pressed [OF ok] by (elim confirm_ok_running [OF ok]) (intro confirm_okI, simp_all)

lemma action_succeeded_confirm:
  assumes ok: "confirm_ok w" and run: "i \<in> set (lw_running w)"
  shows "confirm_ok (action_succeeded i w)"
  unfolding action_succeeded_def
proof (rule settleDialog_confirm [OF action_settled_confirm [OF ok run]])
  show "open_ids (patchDialog i (\<lambda>d. d\<lparr>dg_confirming := False\<rparr>) (w\<lparr>lw_running := remove1 i (lw_running w)\<rparr>)) \<subseteq>
    set (lw_pressed (patchDialog i (\<lambda>d. d\<lparr>dg_confirming := False\<rparr>) (w\<lparr>lw_running := remove1 i (lw_running w)\<rparr>)))"
    using run by (elim confirm_ok_running [OF ok]) (simp add: patchDialog_open, simp add: open_ids_def)
qed

lemma updateDialog_confirm:
  assumes ok: "confirm_ok w" and run: "i \<in> set (lw_running w)"
  shows "confirm_ok (updateDialog i changes w)"
  using run confirm_ok_pressed [OF ok]
  by (elim confirm_ok_running [OF ok]) (intro confirm_okI, simp_all add: updateDialog_def put_dialog_def)

lemma dialog_kept_confirm: "confirm_ok w \<Longrightarrow> dialog_kept w w' \<Longrightarrow> confirm_ok w'"
  by (simp add: confirm_ok_def dialog_kept_def)

lemma layers_step_overlapped: "layers_step w w' \<Longrightarrow> lw_overlapped w \<Longrightarrow> lw_overlapped w'"
proof (induction rule: layers_step.induct)
  case (press w)
  then show ?case by (cases rule: confirmActiveDialog_cases [of w]) simp_all
qed (use other_layers in \<open>simp_all add: dialog_kept_def confirmDialog_def updateDialog_def put_dialog_def resolve_def
  action_failed_def action_succeeded_def Let_def split: option.split\<close>)

lemma layers_step_confirm:
  assumes "layers_step w w'" and ok: "confirm_ok w" and "\<not> lw_overlapped w'"
  shows "confirm_ok w'"
  using assms(1)
proof cases
  case (ask options)
  then show ?thesis using confirmDialog_confirm [OF ok] assms(3) by simp
next
  case cancel
  then show ?thesis using settleDialog_confirm [OF ok] by simp
next
  case press
  then show ?thesis using confirmActiveDialog_confirm [OF ok] by simp
next
  case (succeed i)
  then show ?thesis using action_succeeded_confirm [OF ok] by simp
next
  case (fail i reason)
  then show ?thesis using action_settled_confirm [OF ok] by (simp add: action_failed_def)
next
  case (update i changes)
  then show ?thesis using updateDialog_confirm [OF ok] by simp
qed (use dialog_kept_confirm [OF ok] other_layers in simp_all)

lemma layers_step_toast: "layers_step w w' \<Longrightarrow> toast_ok w \<Longrightarrow> toast_ok w'"
proof (induction rule: layers_step.induct)
  case (press w)
  then show ?case by (cases rule: confirmActiveDialog_cases [of w]) (simp_all add: toast_ok_def)
qed (auto simp: toast_ok_def openSheet_def presentSheet_def closeSheet_def confirmDialog_def put_dialog_def resolve_def updateDialog_def
  action_failed_def action_succeeded_def showToast_def dismissToast_def toast_timer_fires_def Let_def split: option.splits if_splits)

lemma layers_reachable_ok: "layers_reachable w \<Longrightarrow> promises_ok w \<and> (\<not> lw_overlapped w \<longrightarrow> confirm_ok w) \<and> toast_ok w"
proof (induction rule: layers_reachable.induct)
  case init
  then show ?case by (simp add: promises_ok_def confirm_ok_def toast_ok_def open_ids_def layers_start_def EMPTY_LAYERS_def)
next
  case (step w w')
  then show ?case using layers_step_promises layers_step_confirm layers_step_overlapped layers_step_toast by blast
qed



section \<open>Properties\<close>

text \<open>
  C32. Every question is answered exactly once or is the open one: no promise of a dialog is resolved
  twice, none is left behind by a dialog that closed or was replaced, and a toast on screen always
  has its timer pending. As long as no dialog was asked while a confirm action ran, a promise is
  resolved with true only for a dialog whose confirm button was pressed.
\<close>

theorem dialogs_answered_once:
  assumes "layers_reachable w"
  shows "distinct (map fst (lw_resolved w)) \<and> set (lw_asked w) = fst ` set (lw_resolved w) \<union> open_ids w \<and>
    open_ids w \<inter> fst ` set (lw_resolved w) = {} \<and>
    (\<forall>t. toast_of w = Some t \<longrightarrow> lw_toastTimer w = Some (to_id t)) \<and>
    (\<not> lw_overlapped w \<longrightarrow> {i. (i, True) \<in> set (lw_resolved w)} \<subseteq> set (lw_pressed w))"
  using layers_reachable_ok [OF assms] by (auto simp: promises_ok_def toast_ok_def dest: confirm_ok_pressed)

definition sample_question :: "nat option \<Rightarrow> confirm_options" where
  "sample_question action = \<lparr>co_title = ''Remove?'', co_body = 0, co_confirmLabel = ''Remove'', co_cancelLabel = None, co_tone = None,
     co_returnFocusTo = None, co_onConfirm = action\<rparr>"

theorem dialogs_answered_once_witness:
  "lw_resolved (settleDialog False (confirmDialog (sample_question None) layers_start)) = [(1, False)] \<and>
   set (lw_asked (settleDialog False (confirmDialog (sample_question None) layers_start))) =
     fst ` set (lw_resolved (settleDialog False (confirmDialog (sample_question None) layers_start))) \<union>
     open_ids (settleDialog False (confirmDialog (sample_question None) layers_start))"
proof -
  let ?w = "settleDialog False (confirmDialog (sample_question None) layers_start)"
  have "layers_reachable ?w"
    by (rule layers_reachable.step [OF layers_reachable.step [OF layers_reachable.init layers_step.ask] layers_step.cancel])
  moreover have "lw_resolved ?w = [(1, False)]" by code_simp
  ultimately show ?thesis using dialogs_answered_once [of ?w] by blast
qed

definition overlap_run :: layers_world where
  "overlap_run = action_succeeded 1 (confirmDialog (sample_question None) (confirmActiveDialog (confirmDialog (sample_question (Some 7)) layers_start)))"

text \<open>
  A dialog can be confirmed without its button: when the action of a dialog that was replaced
  succeeds, the dialog now open, which nobody confirmed, is resolved with true.
\<close>

lemma unconfirmed_dialog_resolves_true:
  "layers_reachable overlap_run \<and> (2, True) \<in> set (lw_resolved overlap_run) \<and> 2 \<notin> set (lw_pressed overlap_run)"
proof -
  let ?w1 = "confirmDialog (sample_question (Some 7)) layers_start"
  let ?w2 = "confirmActiveDialog ?w1"
  let ?w3 = "confirmDialog (sample_question None) ?w2"
  have "layers_reachable ?w3"
    by (rule layers_reachable.step [OF layers_reachable.step [OF layers_reachable.step [OF layers_reachable.init layers_step.ask] layers_step.press] layers_step.ask])
  moreover have "1 \<in> set (lw_running ?w3)" by code_simp
  ultimately have "layers_reachable overlap_run" unfolding overlap_run_def by (rule layers_reachable.step [OF _ layers_step.succeed])
  moreover have "(2, True) \<in> set (lw_resolved overlap_run)" "2 \<notin> set (lw_pressed overlap_run)" by code_simp+
  ultimately show ?thesis by simp
qed

end
