(* ===== verification/Companion_Service.thy ===== *)
theory Companion_Service
  imports Event_System Daemon_Stream
begin

text \<open>
  The companion's login service (\<open>companion/desktop/src/stores/companion-service.ts\<close>): starting it,
  on demand or once per run of the app, and removing Companion from the computer. The world adds the
  native calls that have not answered and a journal of all calls, each with the removal state it was
  made under. A rejection is an arbitrary value, \<open>None\<close> when it is undefined.
\<close>


section \<open>State\<close>

datatype start_failure = StartNotInApplications | StartNotBundled | StartFailed

datatype service_start = StartIdle | Starting | StartRefused start_failure

datatype removal_failure =
    FailedHooks | FailedService | FailedPurge | FailedLoginItem | Unconfirmed | NotInApplications | NotBundled

datatype removal =
    NotRemoving
  | Removing
  | Removed bool
  | RemovalIncomplete removal_failure "bool option"

datatype native_call = CallStart | CallLocation | CallUninstall

text \<open>
  A removal run is named by its attempt. \<open>sv_finishing\<close> are the runs that have settled but whose
  \<open>finally\<close> has not run yet.
\<close>

record service_world =
  sv_start :: service_start
  sv_autoStartAttempted :: bool
  sv_removal :: removal
  sv_runningRemoval :: "nat option"
  sv_latestAttempt :: nat
  sv_starts :: nat
  sv_locating :: nat
  sv_uninstalls :: "nat list"
  sv_finishing :: "nat list"
  sv_journal :: "(native_call \<times> removal) list"

definition service_init :: service_world where
  "service_init = \<lparr>sv_start = StartIdle, sv_autoStartAttempted = False, sv_removal = NotRemoving, sv_runningRemoval = None,
     sv_latestAttempt = 0, sv_starts = 0, sv_locating = 0, sv_uninstalls = [], sv_finishing = [], sv_journal = []\<rparr>"

definition call_native :: "native_call \<Rightarrow> service_world \<Rightarrow> service_world" where
  "call_native c w = w\<lparr>sv_journal := sv_journal w @ [(c, sv_removal w)]\<rparr>"


section \<open>Starting the service\<close>

text \<open>The kind of a rejection, when it is an object that has one.\<close>

definition rejection_kind :: "json option \<Rightarrow> json option" where
  "rejection_kind rejection = (if is_record rejection then jfield (the rejection) ''kind'' else None)"

definition failureOf :: "json option \<Rightarrow> start_failure" where
  "failureOf rejection = (let kind = rejection_kind rejection in
     if kind = Some (JStr ''ephemeral_location'') \<or> kind = Some (JStr ''not_in_applications'') then StartNotInApplications
     else if kind = Some (JStr ''not_bundled'') then StartNotBundled
     else StartFailed)"

definition removalUnderway :: "service_world \<Rightarrow> bool" where
  "removalUnderway w = (sv_removal w \<noteq> NotRemoving)"

definition startCompanionService :: "service_world \<Rightarrow> service_world" where
  "startCompanionService w =
     (if sv_start w = Starting \<or> removalUnderway w then w
      else (call_native CallStart w)\<lparr>sv_start := Starting, sv_starts := sv_starts w + 1\<rparr>)"

definition start_answered :: "json option option \<Rightarrow> service_world \<Rightarrow> service_world" where
  "start_answered rejection w = w\<lparr>sv_starts := sv_starts w - 1,
     sv_start := (case rejection of None \<Rightarrow> StartIdle | Some r \<Rightarrow> StartRefused (failureOf r))\<rparr>"

definition autoStartCompanionServiceOnce :: "service_world \<Rightarrow> service_world" where
  "autoStartCompanionServiceOnce w =
     (if sv_autoStartAttempted w \<or> removalUnderway w then w
      else (call_native CallLocation w)\<lparr>sv_autoStartAttempted := True, sv_locating := sv_locating w + 1\<rparr>)"

text \<open>A location that cannot be asked counts as outside the applications folder.\<close>

definition location_answered :: "bool option \<Rightarrow> service_world \<Rightarrow> service_world" where
  "location_answered inApplications w =
     (let w1 = w\<lparr>sv_locating := sv_locating w - 1\<rparr> in if inApplications = Some True then startCompanionService w1 else w1)"


section \<open>Removing Companion\<close>

definition FAILURE_FOR_STEP :: "string \<Rightarrow> removal_failure option" where
  "FAILURE_FOR_STEP = map_of [(''agents uninstall'', FailedHooks), (''service uninstall'', FailedService), (''uninstall --purge'', FailedPurge)]"

definition removalFailureOf :: "json option \<Rightarrow> removal_failure" where
  "removalFailureOf rejection =
     (if \<not> is_record rejection then Unconfirmed
      else let kind = jfield (the rejection) ''kind''; step = jfield (the rejection) ''step'' in
        if kind = Some (JStr ''not_in_applications'') \<or> kind = Some (JStr ''ephemeral_location'') then NotInApplications
        else if kind = Some (JStr ''not_bundled'') then NotBundled
        else if kind = Some (JStr ''login_item_failed'') then FailedLoginItem
        else if kind = Some (JStr ''companion_failed'') then
          (case jstr step of
             Some s \<Rightarrow> (case FAILURE_FOR_STEP s of Some f \<Rightarrow> f | None \<Rightarrow> Unconfirmed)
           | None \<Rightarrow> Unconfirmed)
        else Unconfirmed)"

definition NOTHING_RAN :: "removal_failure list" where
  "NOTHING_RAN = [NotInApplications, NotBundled]"

definition serverOutcomeOf :: "json option \<Rightarrow> bool option" where
  "serverOutcomeOf rejection =
     (if \<not> is_record rejection then None
      else if jfield (the rejection) ''kind'' \<noteq> Some (JStr ''login_item_failed'') then None
      else case jfield (the rejection) ''report'' of
          None \<Rightarrow> None
        | Some report \<Rightarrow> (case jfield report ''server_revoked'' of Some (JBool b) \<Rightarrow> Some b | _ \<Rightarrow> None))"

text \<open>The answer of an uninstall: the \<open>server_revoked\<close> of its report, or the rejection.\<close>

type_synonym uninstall_answer = "json option + bool"

fun settled_removal :: "uninstall_answer \<Rightarrow> removal" where
  "settled_removal (Inr serverRevoked) = Removed serverRevoked"
| "settled_removal (Inl rejection) =
     (let failure = removalFailureOf rejection in
      if failure \<in> set NOTHING_RAN then NotRemoving else RemovalIncomplete failure (serverOutcomeOf rejection))"

definition uninstall_answered :: "nat \<Rightarrow> uninstall_answer \<Rightarrow> service_world \<Rightarrow> service_world" where
  "uninstall_answered attempt answer w =
     (let w1 = w\<lparr>sv_uninstalls := remove1 attempt (sv_uninstalls w), sv_finishing := sv_finishing w @ [attempt]\<rparr>
      in if attempt = sv_latestAttempt w then w1\<lparr>sv_removal := settled_removal answer\<rparr> else w1)"

definition removal_finally :: "nat \<Rightarrow> service_world \<Rightarrow> service_world" where
  "removal_finally attempt w =
     (let w1 = w\<lparr>sv_finishing := remove1 attempt (sv_finishing w)\<rparr>
      in if sv_runningRemoval w = Some attempt then w1\<lparr>sv_runningRemoval := None\<rparr> else w1)"

definition removeCompanion :: "service_world \<Rightarrow> service_world" where
  "removeCompanion w =
     (if sv_runningRemoval w \<noteq> None then w
      else let attempt = sv_latestAttempt w + 1 in
        (call_native CallUninstall (w\<lparr>sv_latestAttempt := attempt, sv_removal := Removing\<rparr>))
          \<lparr>sv_uninstalls := sv_uninstalls w @ [attempt], sv_runningRemoval := Some attempt\<rparr>)"


section \<open>Events\<close>

datatype service_event =
    PressStart
  | AutoStart
  | PressRemove
  | StartAnswer "json option option"
  | LocationAnswer "bool option"
  | UninstallAnswer nat uninstall_answer
  | RemovalFinally nat

fun service_step :: "service_event \<Rightarrow> service_world \<Rightarrow> service_world option" where
  "service_step PressStart w = Some (startCompanionService w)"
| "service_step AutoStart w = Some (autoStartCompanionServiceOnce w)"
| "service_step PressRemove w = Some (removeCompanion w)"
| "service_step (StartAnswer rejection) w = given (0 < sv_starts w) (start_answered rejection w)"
| "service_step (LocationAnswer inApplications) w = given (0 < sv_locating w) (location_answered inApplications w)"
| "service_step (UninstallAnswer attempt answer) w = given (attempt \<in> set (sv_uninstalls w)) (uninstall_answered attempt answer w)"
| "service_step (RemovalFinally attempt) w = given (attempt \<in> set (sv_finishing w)) (removal_finally attempt w)"

lemmas service_ops = startCompanionService_def start_answered_def autoStartCompanionServiceOnce_def location_answered_def
  uninstall_answered_def removal_finally_def removeCompanion_def call_native_def removalUnderway_def Let_def


section \<open>One removal at a time, no start under it\<close>

definition calls :: "native_call \<Rightarrow> service_world \<Rightarrow> (native_call \<times> removal) list" where
  "calls c w = filter (\<lambda>j. fst j = c) (sv_journal w)"

definition starting_ok :: "service_world \<Rightarrow> bool" where
  "starting_ok w \<longleftrightarrow> sv_starts w = (if sv_start w = Starting then 1 else 0) \<and>
     length (calls CallLocation w) = (if sv_autoStartAttempted w then 1 else 0) \<and> sv_locating w \<le> length (calls CallLocation w)"

definition removing_ok :: "service_world \<Rightarrow> bool" where
  "removing_ok w \<longleftrightarrow>
     (case sv_runningRemoval w of
        None \<Rightarrow> sv_uninstalls w = [] \<and> sv_finishing w = []
      | Some a \<Rightarrow> a = sv_latestAttempt w \<and> (sv_uninstalls w, sv_finishing w) \<in> {([a], []), ([], [a])}) \<and>
     (sv_removal w = Removing \<longleftrightarrow> sv_uninstalls w \<noteq> [])"

definition outcome_ok :: "removal \<Rightarrow> bool" where
  "outcome_ok r = (case r of
     RemovalIncomplete f known \<Rightarrow> f \<notin> set NOTHING_RAN \<and> (known \<noteq> None \<longrightarrow> f = FailedLoginItem)
   | _ \<Rightarrow> True)"

fun call_ok :: "native_call \<times> removal \<Rightarrow> bool" where
  "call_ok (CallUninstall, r) = (r = Removing)"
| "call_ok (c, r) = (r = NotRemoving)"

definition service_ok :: "service_world \<Rightarrow> bool" where
  "service_ok w \<longleftrightarrow> starting_ok w \<and> removing_ok w \<and> outcome_ok (sv_removal w) \<and> list_all call_ok (sv_journal w)"

lemma settled_ok: "outcome_ok (settled_removal answer)"
proof (cases answer)
  case (Inl rejection)
  have "removalFailureOf rejection = FailedLoginItem" if "serverOutcomeOf rejection \<noteq> None"
    using that by (simp add: serverOutcomeOf_def removalFailureOf_def split: if_splits)
  then show ?thesis by (auto simp: Inl outcome_ok_def Let_def)
qed (simp add: outcome_ok_def)

lemma settled_not_removing: "settled_removal answer \<noteq> Removing"
  by (cases answer) (simp_all add: Let_def)

lemma starting_step: "starting_ok w \<Longrightarrow> service_step e w = Some w' \<Longrightarrow> starting_ok w'"
  by (cases e) (auto simp: starting_ok_def service_ops calls_def split: if_splits option.splits)

lemma removing_step: "removing_ok w \<Longrightarrow> service_step e w = Some w' \<Longrightarrow> removing_ok w'"
  by (cases e; cases "sv_runningRemoval w")
    (auto simp: removing_ok_def service_ops settled_not_removing split: if_splits)

lemma outcome_step: "outcome_ok (sv_removal w) \<Longrightarrow> service_step e w = Some w' \<Longrightarrow> outcome_ok (sv_removal w')"
  using settled_ok by (cases e) (auto simp: outcome_ok_def service_ops split: if_splits)

lemma journal_step: "list_all call_ok (sv_journal w) \<Longrightarrow> service_step e w = Some w' \<Longrightarrow> list_all call_ok (sv_journal w')"
  by (cases e) (auto simp: service_ops split: if_splits)

interpretation service: event_invariant service_step service_init service_ok
proof
  show "service_ok service_init" by (simp add: service_ok_def service_init_def starting_ok_def removing_ok_def outcome_ok_def calls_def)
next
  fix s s' e
  assume "service_ok s" and "service_step e s = Some s'"
  then show "service_ok s'"
    unfolding service_ok_def using starting_step removing_step outcome_step journal_step by blast
qed


section \<open>Removal is final\<close>

text \<open>An uninstall that is refused before it begins is the only way back to the initial removal state.\<close>

fun refused :: "service_event \<Rightarrow> bool" where
  "refused (UninstallAnswer attempt answer) = (settled_removal answer = NotRemoving)"
| "refused _ = False"

definition unrefused_step :: "service_event \<Rightarrow> service_world \<Rightarrow> service_world option" where
  "unrefused_step e w = (if refused e then None else service_step e w)"

definition stays_removed :: "service_world \<Rightarrow> service_world \<Rightarrow> bool" where
  "stays_removed w w' \<longleftrightarrow> (removalUnderway w \<longrightarrow> removalUnderway w' \<and> calls CallStart w' = calls CallStart w \<and> calls CallLocation w' = calls CallLocation w)"

interpretation removal: event_monotone unrefused_step service_init service_ok stays_removed
proof
  fix s s' e
  assume "service_ok s" and step: "unrefused_step e s = Some s'"
  then show "service_ok s'" using service.step_inv by (simp add: unrefused_step_def split: if_splits)
  show "stays_removed s s'" using step
    by (cases e) (auto simp: unrefused_step_def stays_removed_def service_ops calls_def split: if_splits)
qed (use service.start_inv in \<open>auto simp: stays_removed_def\<close>)

lemma unrefused_run: "list_all (\<lambda>e. \<not> refused e) es \<Longrightarrow> run_events unrefused_step es w = run_events service_step es w"
  by (induction es arbitrary: w) (auto simp: unrefused_step_def split: option.split)

definition remove_run :: "service_event list" where
  "remove_run = [AutoStart, LocationAnswer (Some True), StartAnswer None, PressRemove]"

definition purge_failed :: uninstall_answer where
  "purge_failed = Inl (Some (JObj [(''kind'', JStr ''companion_failed''), (''step'', JStr ''uninstall --purge'')]))"

definition refusal :: uninstall_answer where
  "refusal = Inl (Some (JObj [(''kind'', JStr ''not_in_applications'')]))"

definition removing_world :: service_world where
  "removing_world = \<lparr>sv_start = StartIdle, sv_autoStartAttempted = True, sv_removal = Removing, sv_runningRemoval = Some 1, sv_latestAttempt = 1,
     sv_starts = 0, sv_locating = 0, sv_uninstalls = [1], sv_finishing = [],
     sv_journal = [(CallLocation, NotRemoving), (CallStart, NotRemoving), (CallUninstall, Removing)]\<rparr>"

text \<open>
  C34. Removing Companion is final. In every run at most one uninstall and at most one start are
  under way, the automatic start is tried once, every start was asked for while no removal was going
  on, and the outcome of an incomplete removal names the server's answer only when every step but the
  login item had finished. Once a removal has begun, and as long as no uninstall is refused before its
  first step, nothing that is pressed and no late answer starts the service or ends the removal.
\<close>

theorem removal_final:
  assumes "run_events service_step es service_init = Some w"
  shows "sv_starts w \<le> 1 \<and> length (sv_uninstalls w) \<le> 1 \<and> length (calls CallLocation w) \<le> 1 \<and>
    (sv_removal w = Removing \<longleftrightarrow> sv_uninstalls w \<noteq> []) \<and>
    (\<forall>r. (CallStart, r) \<in> set (sv_journal w) \<longrightarrow> r = NotRemoving) \<and>
    (\<forall>f known. sv_removal w = RemovalIncomplete f (Some known) \<longrightarrow> f = FailedLoginItem) \<and>
    (removalUnderway w \<longrightarrow> (\<forall>fs w'. list_all (\<lambda>e. \<not> refused e) fs \<and> run_events service_step fs w = Some w' \<longrightarrow>
       removalUnderway w' \<and> calls CallStart w' = calls CallStart w))"
proof -
  have ok: "service_ok w" by (rule service.run_inv [OF assms])
  have "removalUnderway w' \<and> calls CallStart w' = calls CallStart w"
    if "removalUnderway w" "list_all (\<lambda>e. \<not> refused e) fs" "run_events service_step fs w = Some w'" for fs w'
    using removal.run_grows [OF ok, of fs w'] that by (simp add: unrefused_run stays_removed_def)
  moreover have "sv_starts w \<le> 1" "length (calls CallLocation w) \<le> 1" using ok by (simp_all add: service_ok_def starting_ok_def)
  moreover have "length (sv_uninstalls w) \<le> 1" "sv_removal w = Removing \<longleftrightarrow> sv_uninstalls w \<noteq> []"
    using ok by (auto simp: service_ok_def removing_ok_def split: option.splits)
  moreover have "r = NotRemoving" if "(CallStart, r) \<in> set (sv_journal w)" for r
    using ok that by (fastforce simp: service_ok_def list_all_iff)
  moreover have "f = FailedLoginItem" if "sv_removal w = RemovalIncomplete f (Some known)" for f known
    using ok that by (simp add: service_ok_def outcome_ok_def)
  ultimately show ?thesis by blast
qed

theorem removal_final_witness:
  "run_events service_step remove_run service_init = Some removing_world \<and>
   (\<exists>w. run_events service_step [UninstallAnswer 1 purge_failed, PressStart, AutoStart] removing_world = Some w \<and>
      sv_removal w = RemovalIncomplete FailedPurge None \<and> calls CallStart w = [(CallStart, NotRemoving)])"
proof -
  let ?fs = "[UninstallAnswer 1 purge_failed, PressStart, AutoStart]"
  have w: "run_events service_step remove_run service_init = Some removing_world" by code_simp
  have fs: "list_all (\<lambda>e. \<not> refused e) ?fs" "removalUnderway removing_world" "calls CallStart removing_world = [(CallStart, NotRemoving)]" by code_simp+
  have "map_option sv_removal (run_events service_step ?fs removing_world) = Some (RemovalIncomplete FailedPurge None)" by code_simp
  then obtain w' where w': "run_events service_step ?fs removing_world = Some w'" "sv_removal w' = RemovalIncomplete FailedPurge None" by blast
  have "calls CallStart w' = calls CallStart removing_world" using removal_final [OF w] fs(1,2) w'(1) by blast
  then show ?thesis using w w' fs(3) by auto
qed

text \<open>
  A refused retry undoes the removal state. When a first uninstall has stopped at its last step,
  and so has removed the hooks and the service, a retry that is refused puts the app back into the
  initial state, in which the service is started again. \<open>Removal\<close> is documented as terminal for the
  run of the app in every state but idle.
\<close>

lemma refused_retry_restarts:
  "\<exists>w. run_events service_step (remove_run @ [UninstallAnswer 1 purge_failed, RemovalFinally 1, PressRemove, UninstallAnswer 2 refusal, PressStart])
     service_init = Some w \<and> sv_removal w = NotRemoving \<and> sv_start w = Starting \<and>
     sv_journal w = [(CallLocation, NotRemoving), (CallStart, NotRemoving), (CallUninstall, Removing), (CallUninstall, Removing), (CallStart, NotRemoving)]"
  by (simp add: remove_run_def purge_failed_def refusal_def service_init_def service_ops removalFailureOf_def serverOutcomeOf_def is_record_def
    FAILURE_FOR_STEP_def NOTHING_RAN_def)

end
