(* ===== verification/Companion_Agents.thy ===== *)
theory Companion_Agents
  imports Daemon_Stream JS_Text JS_Date
begin

text \<open>
  What the companion shows about its agents and its connection: the daemon's status
  (\<open>ipc/bindings.ts\<close>), the agent rows (\<open>screens/agents/agent-model.ts\<close>,
  \<open>screens/shared/codex-restart.tsx\<close>, \<open>components/agent-identity.ts\<close>), the status header
  (\<open>shell/status-model.ts\<close>), and the glyph the native tray shows for the same status
  (\<open>src-tauri/src/tray_menu.rs\<close>). Typographic apostrophes are written as plain ones. Objects used as
  dictionaries are looked up by their own keys.
\<close>


section \<open>The daemon's status\<close>

record agent_integration =
  ai_state :: string
  ai_config_path :: string
  ai_problems :: "string list option"

record agent_status =
  as_id :: string
  as_state :: string
  as_installed :: bool
  as_configured :: bool
  as_receiving :: bool
  as_broken :: bool
  as_integration :: agent_integration

record agent_entry =
  ae_id :: string
  ae_presence :: "bool option"
  ae_integration :: "agent_integration option"

record capture_status =
  cp_state :: string
  cp_local_paused :: bool
  cp_policy_cached :: bool
  cp_enabled_agents :: "string list option"
  cp_auto_match_repos :: bool
  cp_exclude_globs :: "string list"

record device_status = companion_status +
  st_revoked :: bool
  st_capture :: capture_status
  st_agents :: "agent_status list"
  st_backing_off :: bool

record attention_item =
  at_code :: string
  at_severity :: string
  at_agent :: "string option"
  at_message :: string


section \<open>Agent names\<close>

definition KNOWN_AGENTS :: "(string \<times> string \<times> string) list" where
  "KNOWN_AGENTS = [(''claude_code'', ''Claude Code'', ''CC''), (''codex_cli'', ''Codex'', ''Cx''), (''codex_desktop'', ''Codex app'', ''Cx''), (''pi_cli'', ''Pi'', ''Pi'')]"

definition isKnownAgent :: "string \<Rightarrow> bool" where
  "isKnownAgent i = (map_of KNOWN_AGENTS i \<noteq> None)"

definition agentDisplayName :: "string \<Rightarrow> string" where
  "agentDisplayName i = (case map_of KNOWN_AGENTS i of Some (name, _) \<Rightarrow> name | None \<Rightarrow> i)"

definition agentIntegrationId :: "string \<Rightarrow> string" where
  "agentIntegrationId harness = (case map_of [(''codex_desktop'', ''codex_cli'')] harness of Some i \<Rightarrow> i | None \<Rightarrow> harness)"


section \<open>Agent rows\<close>

definition KNOWN_AGENT_IDS :: "string list" where
  "KNOWN_AGENT_IDS = [''claude_code'', ''codex_cli'', ''pi_cli'']"

datatype agent_row_kind =
    RowCapturing | RowIdle | RowDisabled | RowNotInstalled | RowBroken | RowOtelConflict | RowHooksDisabled | RowForeignExtension
  | RowNeedsTrust | RowInvalidConfig | RowRestartRequired | RowDaemonRestartRequired | RowUnknown

definition TOGGLEABLE_KINDS :: "agent_row_kind list" where
  "TOGGLEABLE_KINDS = [RowCapturing, RowIdle, RowDisabled, RowRestartRequired, RowDaemonRestartRequired]"

definition CAPTURING_STATES :: "string list" where
  "CAPTURING_STATES = [''receiving'', ''uploading'']"

definition QUIET_STATES :: "string list" where
  "QUIET_STATES = [''idle'', ''paused'', ''not_connected'', ''revoked'']"

definition UNREADABLE_FILE_PROBLEMS :: "string list" where
  "UNREADABLE_FILE_PROBLEMS = [''settings_invalid'', ''hooks_invalid'', ''config_invalid'', ''config_unreadable'', ''extension_unreadable'']"

text \<open>\<open>/^[A-Za-z]+:<ending>$/\<close>\<close>

definition hook_problem :: "string \<Rightarrow> string \<Rightarrow> bool" where
  "hook_problem ending problem =
     (let event = takeWhile (\<lambda>c. is_upper c \<or> is_lower c) problem in event \<noteq> [] \<and> drop (length event) problem = '':'' @ ending)"

definition isUnreadableFileProblem :: "string \<Rightarrow> bool" where
  "isUnreadableFileProblem problem = (problem \<in> set UNREADABLE_FILE_PROBLEMS \<or> hook_problem ''invalid'' problem)"

definition repairable_problem :: "string \<Rightarrow> bool" where
  "repairable_problem problem = (hook_problem ''missing'' problem \<or> hook_problem ''stale'' problem \<or> problem = ''companion_executable_missing'')"

definition RESTART_PROBLEMS :: "string list" where
  "RESTART_PROBLEMS = [''restart_required'', ''daemon_restart_required'']"

definition brokenKind :: "string list \<Rightarrow> agent_row_kind" where
  "brokenKind problems =
     (if \<exists>p\<in>set problems. isUnreadableFileProblem p then RowInvalidConfig
      else if ''conflict_existing_otel'' \<in> set problems then RowOtelConflict
      else if ''extension_not_owned'' \<in> set problems then RowForeignExtension
      else if ''hook_disabled_in_codex'' \<in> set problems then RowHooksDisabled
      else if \<exists>p\<in>set problems. \<not> repairable_problem p \<and> p \<notin> set RESTART_PROBLEMS then RowUnknown
      else RowBroken)"

definition codexRestart :: "string list option \<Rightarrow> agent_row_kind option" where
  "codexRestart problems = (case problems of
     None \<Rightarrow> None
   | Some ps \<Rightarrow> if ''restart_required'' \<in> set ps then Some RowRestartRequired
       else if ''daemon_restart_required'' \<in> set ps then Some RowDaemonRestartRequired else None)"

definition isKnownAgentId :: "string \<Rightarrow> bool" where
  "isKnownAgentId i = (i \<in> set KNOWN_AGENT_IDS)"

definition isAgentEnabled :: "string \<Rightarrow> string list option \<Rightarrow> bool" where
  "isAgentEnabled i enabledAgents = (case enabledAgents of None \<Rightarrow> True | Some xs \<Rightarrow> i \<in> set xs)"

definition agentRowKind :: "agent_status \<Rightarrow> string list option \<Rightarrow> agent_row_kind" where
  "agentRowKind agent enabledAgents =
     (if as_state agent = ''not_installed'' then RowNotInstalled
      else if as_state agent = ''not_configured'' \<or> \<not> isAgentEnabled (as_id agent) enabledAgents then RowDisabled
      else if as_state agent = ''broken'' then
        brokenKind (case ai_problems (as_integration agent) of Some ps \<Rightarrow> ps | None \<Rightarrow> [])
      else if as_state agent = ''needs_trust'' then RowNeedsTrust
      else if as_state agent = ''invalid_config'' then RowInvalidConfig
      else case codexRestart (ai_problems (as_integration agent)) of
          Some restart \<Rightarrow> restart
        | None \<Rightarrow>
            if as_state agent \<in> set CAPTURING_STATES then RowCapturing
            else if as_state agent \<in> set QUIET_STATES then RowIdle
            else RowUnknown)"

definition nextEnabledAgents :: "string list option \<Rightarrow> string \<Rightarrow> bool \<Rightarrow> string list \<Rightarrow> string list" where
  "nextEnabledAgents current i enable reportedIds =
     (let start = js_unique (case current of Some xs \<Rightarrow> xs | None \<Rightarrow> reportedIds);
          listed = (if enable then js_add i start else removeAll i start)
      in filter (\<lambda>k. k \<in> set listed) KNOWN_AGENT_IDS @ filter (\<lambda>k. \<not> isKnownAgentId k) listed)"

text \<open>The invisible characters below 256: the control characters and the soft hyphen.\<close>

definition invisible_char :: "char \<Rightarrow> bool" where
  "invisible_char c = (let n = of_char c :: nat in n \<le> 31 \<or> (127 \<le> n \<and> n \<le> 159) \<or> n = 173)"

definition configFileName :: "string option \<Rightarrow> string option" where
  "configFileName path =
     (if \<not> js_truthy path then None
      else let baseName = filter (\<lambda>c. \<not> invisible_char c) (rev (takeWhile (\<lambda>c. c \<noteq> CHR ''/'' \<and> c \<noteq> CHR 0x5C) (rev (the path))))
        in if baseName = '''' \<or> baseName = ''.'' \<or> baseName = ''..'' then None else Some baseName)"

definition formatAgo :: "string option \<Rightarrow> int \<Rightarrow> string option" where
  "formatAgo stamp now =
     (if \<not> js_truthy stamp then None
      else case date_parse (the stamp) of
          None \<Rightarrow> None
        | Some t \<Rightarrow> let elapsed = now - t in Some (
            if elapsed < 1000 then ''just now''
            else if elapsed < 60000 then show_nat (nat (elapsed div 1000)) @ '' s ago''
            else if elapsed < 3600000 then show_nat (nat (elapsed div 60000)) @ '' min ago''
            else if elapsed < 86400000 then show_nat (nat (elapsed div 3600000)) @ '' h ago''
            else show_nat (nat (elapsed div 86400000)) @ '' d ago''))"

definition entry_state :: "string \<Rightarrow> bool \<Rightarrow> string \<Rightarrow> string" where
  "entry_state istate installed state =
     (if istate = ''broken'' \<or> istate = ''needs_trust'' \<or> istate = ''invalid_config'' then istate
      else if istate = ''not_installed'' then (if installed then ''not_configured'' else ''not_installed'')
      else if state \<in> set (CAPTURING_STATES @ QUIET_STATES) then state else ''idle'')"

definition applyAgentEntry :: "agent_status \<Rightarrow> agent_entry \<Rightarrow> agent_status" where
  "applyAgentEntry agent entry = (case ae_integration entry of
     None \<Rightarrow> agent
   | Some integration \<Rightarrow>
       let installed = (case ae_presence entry of Some b \<Rightarrow> b | None \<Rightarrow> as_installed agent)
       in agent\<lparr>as_state := entry_state (ai_state integration) installed (as_state agent), as_installed := installed,
            as_configured := (ai_state integration = ''installed''), as_broken := (ai_state integration = ''broken''),
            as_integration := integration\<rparr>)"

text \<open>\<open>/^[a-z][a-z0-9_-]{0,39}$/\<close>\<close>

definition plain_agent_id :: "string \<Rightarrow> bool" where
  "plain_agent_id i = (i \<noteq> [] \<and> length i \<le> 40 \<and> is_lower (hd i) \<and>
     list_all (\<lambda>c. is_lower c \<or> is_digit c \<or> c = CHR ''_'' \<or> c = CHR ''-'') (tl i))"

definition orderedAgents :: "agent_status list \<Rightarrow> agent_status list" where
  "orderedAgents agents =
     (let plain = filter (\<lambda>a. plain_agent_id (as_id a)) agents
      in concat (map (\<lambda>i. take 1 (filter (\<lambda>a. as_id a = i) plain)) KNOWN_AGENT_IDS) @ filter (\<lambda>a. \<not> isKnownAgentId (as_id a)) plain)"



section \<open>The status header\<close>

text \<open>The words that name the computer, its file manager and its credential store, by platform.\<close>

record platform_copy =
  pc_thisDevice :: string
  pc_ThisDevice :: string
  pc_fileManagerFailed :: string
  pc_store_title :: string
  pc_store_body :: string

datatype status_tone = ToneSuccess | ToneWarning | ToneError | ToneNeutral
datatype pause_control = Pause | Resume | PauseDisabled | NoPause
datatype tray_glyph = TrayCapturing | TrayPaused | TrayAttention | TrayOffline | TrayDisconnected
datatype status_glyph = TrayGlyph tray_glyph | IconGlyph string

record status_model =
  sm_tone :: status_tone
  sm_glyph :: status_glyph
  sm_title :: string
  sm_sub :: string
  sm_pauseControl :: pause_control
  sm_pauseHint :: "string option"
  sm_showTabs :: bool
  sm_trayState :: tray_glyph

definition AGENT_PROBLEM_STATES :: "string list" where
  "AGENT_PROBLEM_STATES = [''needs_trust'', ''broken'', ''invalid_config'']"

definition agentsNeedingAttention :: "device_status \<Rightarrow> attention_item list \<Rightarrow> string list" where
  "agentsNeedingAttention status attention =
     js_unique (map as_id (filter (\<lambda>a. as_state a \<in> set AGENT_PROBLEM_STATES) (st_agents status)) @
       map (the \<circ> at_agent) (filter (\<lambda>item. js_truthy (at_agent item)) attention))"

definition plural :: "nat \<Rightarrow> string \<Rightarrow> string \<Rightarrow> string" where
  "plural n one many = (if n = 1 then one else many)"

definition withDevice :: "string \<Rightarrow> string option \<Rightarrow> string" where
  "withDevice line deviceName = (if js_truthy deviceName then line @ [CHR 0x20, CHR 0xB7, CHR 0x20] @ the deviceName else line)"

definition capturingSub :: "device_status \<Rightarrow> nat option \<Rightarrow> string option \<Rightarrow> string" where
  "capturingSub status liveSessions deviceName =
     (case liveSessions of
        Some (Suc n) \<Rightarrow> withDevice (show_nat (Suc n) @ '' live '' @ plural (Suc n) ''session'' ''sessions'') deviceName
      | _ \<Rightarrow>
          let receiving = filter as_receiving (st_agents status) in
          case receiving of
            [] \<Rightarrow> withDevice ''Waiting for a session'' deviceName
          | [only] \<Rightarrow> withDevice (''Receiving from '' @ agentDisplayName (as_id only)) deviceName
          | _ \<Rightarrow> withDevice (''Receiving from '' @ show_nat (length receiving) @ '' agents'') deviceName)"

definition localPauseControl :: "string \<Rightarrow> pause_control" where
  "localPauseControl state = (if state = ''paused_locally'' then Resume else if state = ''paused_by_server'' then PauseDisabled else Pause)"

definition underscores_to_spaces :: "string \<Rightarrow> string" where
  "underscores_to_spaces = map (\<lambda>c. if c = CHR ''_'' then CHR '' '' else c)"

definition attention_sub :: "string list \<Rightarrow> string" where
  "attention_sub needing = (if needing = [] then ''Something needs your attention''
     else if length needing = 1 then ''One agent needs your attention''
     else show_nat (length needing) @ '' agents need your attention'')"

definition statusModel :: "platform_copy \<Rightarrow> device_status \<Rightarrow> attention_item list \<Rightarrow> nat option \<Rightarrow> string option \<Rightarrow> status_model" where
  "statusModel copy status attention liveSessions deviceName =
     (let state = cp_state (st_capture status) in
      if st_revoked status \<or> state = ''revoked'' then
        \<lparr>sm_tone = ToneError, sm_glyph = IconGlyph ''power'', sm_title = ''Disconnected'', sm_sub = pc_ThisDevice copy @ '' needs to connect again'',
          sm_pauseControl = NoPause, sm_pauseHint = None, sm_showTabs = False, sm_trayState = TrayDisconnected\<rparr>
      else if \<not> st_connected status \<or> state = ''not_connected'' then
        \<lparr>sm_tone = ToneNeutral, sm_glyph = TrayGlyph TrayDisconnected, sm_title = ''Not connected'',
          sm_sub = ''Connect '' @ pc_thisDevice copy @ '' to start capturing'',
          sm_pauseControl = NoPause, sm_pauseHint = None, sm_showTabs = False, sm_trayState = TrayDisconnected\<rparr>
      else if state = ''policy_stale'' \<or> st_backing_off status then
        \<lparr>sm_tone = ToneWarning, sm_glyph = IconGlyph ''cloud-off'', sm_title = ''Can't reach Backplane'',
          sm_sub = ''Sessions are saved on '' @ pc_thisDevice copy @ '' for now'',
          sm_pauseControl = localPauseControl state, sm_pauseHint = None, sm_showTabs = True, sm_trayState = TrayOffline\<rparr>
      else if state = ''paused_locally'' then
        \<lparr>sm_tone = ToneNeutral, sm_glyph = IconGlyph ''pause'', sm_title = ''Paused'', sm_sub = ''Nothing is recorded until you resume'',
          sm_pauseControl = Resume, sm_pauseHint = None, sm_showTabs = True, sm_trayState = TrayPaused\<rparr>
      else if state = ''paused_by_server'' then
        \<lparr>sm_tone = ToneNeutral, sm_glyph = IconGlyph ''pause'', sm_title = ''Paused from Backplane'',
          sm_sub = ''Resume it from this device's page in Backplane'',
          sm_pauseControl = PauseDisabled, sm_pauseHint = Some ''Paused from Backplane'', sm_showTabs = True, sm_trayState = TrayPaused\<rparr>
      else if state \<noteq> ''active'' then
        \<lparr>sm_tone = ToneNeutral, sm_glyph = TrayGlyph TrayCapturing, sm_title = ''Companion'', sm_sub = ''Status: '' @ underscores_to_spaces state,
          sm_pauseControl = NoPause, sm_pauseHint = None, sm_showTabs = True, sm_trayState = TrayCapturing\<rparr>
      else let needing = agentsNeedingAttention status attention in
        if needing \<noteq> [] \<or> attention \<noteq> [] then
          \<lparr>sm_tone = ToneWarning, sm_glyph = IconGlyph ''alert'', sm_title = ''Capturing'', sm_sub = attention_sub needing,
            sm_pauseControl = Pause, sm_pauseHint = None, sm_showTabs = True, sm_trayState = TrayAttention\<rparr>
        else
          \<lparr>sm_tone = ToneSuccess, sm_glyph = TrayGlyph TrayCapturing, sm_title = ''Capturing'', sm_sub = capturingSub status liveSessions deviceName,
            sm_pauseControl = Pause, sm_pauseHint = None, sm_showTabs = True, sm_trayState = TrayCapturing\<rparr>)"

text \<open>The glyph of the native tray, and its pause item: \<open>Some True\<close> resumes, \<open>Some False\<close> pauses.\<close>

definition tray_icon_state :: "bool \<Rightarrow> device_status option \<Rightarrow> nat \<Rightarrow> tray_glyph" where
  "tray_icon_state daemon_connected status attention_items =
     (case (if daemon_connected then status else None) of
        None \<Rightarrow> TrayDisconnected
      | Some s \<Rightarrow> let capture = cp_state (st_capture s) in
          if \<not> st_connected s \<or> st_revoked s \<or> capture = ''revoked'' \<or> capture = ''not_connected'' then TrayDisconnected
          else if capture = ''policy_stale'' \<or> st_backing_off s then TrayOffline
          else if take 6 capture = ''paused'' then TrayPaused
          else if 0 < attention_items \<or> (\<exists>a\<in>set (st_agents s). as_state a \<in> set AGENT_PROBLEM_STATES) then TrayAttention
          else TrayCapturing)"

definition CAPTURE_STATES :: "string list" where
  "CAPTURE_STATES = [''revoked'', ''not_connected'', ''paused_locally'', ''paused_by_server'', ''policy_stale'', ''active'']"


section \<open>Toggles and rows\<close>

lemma KNOWN_AGENT_IDS_distinct: "distinct KNOWN_AGENT_IDS"
  by (simp add: KNOWN_AGENT_IDS_def)

lemma nextEnabledAgents_set:
  "set (nextEnabledAgents current i enable reported) =
     (let start = set (case current of Some xs \<Rightarrow> xs | None \<Rightarrow> reported) in if enable then insert i start else start - {i})"
  by (auto simp: nextEnabledAgents_def Let_def isKnownAgentId_def split: option.split)

lemma nextEnabledAgents_distinct: "distinct (nextEnabledAgents current i enable reported)"
  using KNOWN_AGENT_IDS_distinct by (auto simp: nextEnabledAgents_def Let_def isKnownAgentId_def distinct_removeAll split: option.split)

text \<open>A switch changes the agent it belongs to and no other that the daemon reports.\<close>

lemma toggle_changes_one:
  assumes "j \<in> set reported"
  shows "isAgentEnabled j (Some (nextEnabledAgents current i enable reported)) = (if j = i then enable else isAgentEnabled j current)"
  using assms by (auto simp: isAgentEnabled_def nextEnabledAgents_set Let_def split: option.split)

text \<open>Repair is offered exactly when every reported problem is one that it fixes, or a restart.\<close>

lemma hook_problem_unique: "hook_problem a p \<Longrightarrow> hook_problem b p \<Longrightarrow> a = b"
  by (auto simp: hook_problem_def Let_def)

lemma hook_problem_char: "hook_problem a p \<Longrightarrow> CHR '':'' \<in> set p"
proof -
  assume "hook_problem a p"
  then have "CHR '':'' \<in> set (drop (length (takeWhile (\<lambda>c. is_upper c \<or> is_lower c) p)) p)" by (simp add: hook_problem_def Let_def)
  then show ?thesis by (rule in_set_dropD)
qed

lemma repairable_not_special:
  assumes "repairable_problem p \<or> p \<in> set RESTART_PROBLEMS"
  shows "\<not> isUnreadableFileProblem p" "p \<noteq> ''conflict_existing_otel''" "p \<noteq> ''extension_not_owned''" "p \<noteq> ''hook_disabled_in_codex''"
  using assms hook_problem_char [of _ p] hook_problem_unique [of _ p]
  by (auto simp: repairable_problem_def RESTART_PROBLEMS_def isUnreadableFileProblem_def UNREADABLE_FILE_PROBLEMS_def)

lemma repair_offered_iff:
  "agentRowKind agent enabled = RowBroken \<longleftrightarrow> as_state agent = ''broken'' \<and> isAgentEnabled (as_id agent) enabled \<and>
     (\<forall>p\<in>set (case ai_problems (as_integration agent) of Some ps \<Rightarrow> ps | None \<Rightarrow> []). repairable_problem p \<or> p \<in> set RESTART_PROBLEMS)"
proof -
  have broken: "brokenKind ps = RowBroken \<longleftrightarrow> (\<forall>p\<in>set ps. repairable_problem p \<or> p \<in> set RESTART_PROBLEMS)" for ps
  proof -
    have "brokenKind ps = RowBroken" if ok: "\<forall>p\<in>set ps. repairable_problem p \<or> p \<in> set RESTART_PROBLEMS"
    proof -
      have "\<not> (\<exists>p\<in>set ps. isUnreadableFileProblem p)" "''conflict_existing_otel'' \<notin> set ps" "''extension_not_owned'' \<notin> set ps"
        "''hook_disabled_in_codex'' \<notin> set ps" "\<not> (\<exists>p\<in>set ps. \<not> repairable_problem p \<and> p \<notin> set RESTART_PROBLEMS)"
        using repairable_not_special [OF bspec [OF ok]] ok by blast+
      then show ?thesis by (simp only: brokenKind_def if_False)
    qed
    then show ?thesis by (auto simp: brokenKind_def split: if_splits)
  qed
  have restart: "codexRestart ps \<noteq> Some RowBroken" for ps by (simp add: codexRestart_def split: option.split)
  show ?thesis
    using restart by (auto simp: agentRowKind_def broken split: option.splits)
qed

text \<open>Folding an entry in is idempotent, and leaves the state consistent with the integration.\<close>

lemma entry_state_idem: "entry_state istate installed (entry_state istate installed state) = entry_state istate installed state"
  by (simp add: entry_state_def QUIET_STATES_def)

lemma entry_state_broken: "entry_state istate installed state = ''broken'' \<longleftrightarrow> istate = ''broken''"
  by (auto simp: entry_state_def CAPTURING_STATES_def QUIET_STATES_def)

lemma applyAgentEntry_idem: "applyAgentEntry (applyAgentEntry agent entry) entry = applyAgentEntry agent entry"
  by (simp add: applyAgentEntry_def Let_def entry_state_idem split: option.split)

lemma applyAgentEntry_broken:
  "ae_integration entry \<noteq> None \<Longrightarrow> as_broken (applyAgentEntry agent entry) \<longleftrightarrow> as_state (applyAgentEntry agent entry) = ''broken''"
  by (auto simp: applyAgentEntry_def Let_def entry_state_broken)

text \<open>The rows are the plain agents, each once when the daemon reports each once.\<close>

lemma orderedAgents_mset:
  assumes "distinct (map as_id agents)"
  shows "mset (orderedAgents agents) = mset (filter (\<lambda>a. plain_agent_id (as_id a)) agents)"
proof -
  let ?plain = "filter (\<lambda>a. plain_agent_id (as_id a)) agents"
  have d: "distinct (map as_id ?plain)" by (rule distinct_map_filter [OF assms])
  have one: "take 1 (filter (\<lambda>a. as_id a = i) ?plain) = filter (\<lambda>a. as_id a = i) ?plain" for i
  proof -
    have "length (filter (\<lambda>a. as_id a = i) xs) \<le> 1" if "distinct (map as_id xs)" for xs
      using that by (induction xs) (auto simp: filter_empty_conv image_iff)
    from this [OF d] show ?thesis by (rule take_all)
  qed
  have "mset (concat (map (\<lambda>i. filter (\<lambda>a. as_id a = i) ?plain) KNOWN_AGENT_IDS)) = mset (filter (\<lambda>a. as_id a \<in> set KNOWN_AGENT_IDS) ?plain)"
  proof -
    have "map (\<lambda>i. filter (\<lambda>a. as_id a = i) ?plain) KNOWN_AGENT_IDS =
        map (\<lambda>i. filter (\<lambda>a. as_id a = i) (filter (\<lambda>a. as_id a \<in> set KNOWN_AGENT_IDS) ?plain)) KNOWN_AGENT_IDS"
      by (intro map_cong refl) (auto intro: filter_cong)
    also have "mset (concat \<dots>) = mset (filter (\<lambda>a. as_id a \<in> set KNOWN_AGENT_IDS) ?plain)"
      by (rule mset_group [OF KNOWN_AGENT_IDS_distinct]) simp
    finally show ?thesis .
  qed
  then show ?thesis
    unfolding orderedAgents_def Let_def one mset_append using mset_filter_split [of "\<lambda>a. as_id a \<in> set KNOWN_AGENT_IDS" ?plain]
    by (simp add: isKnownAgentId_def)
qed



section \<open>The header and the tray\<close>

lemma needing_iff:
  "agentsNeedingAttention status attention \<noteq> [] \<or> attention \<noteq> [] \<longleftrightarrow>
     0 < length attention \<or> (\<exists>a\<in>set (st_agents status). as_state a \<in> set AGENT_PROBLEM_STATES)"
proof -
  have "agentsNeedingAttention status attention = [] \<longleftrightarrow> set (agentsNeedingAttention status attention) = {}" by simp
  also have "\<dots> \<longleftrightarrow> (\<forall>a\<in>set (st_agents status). as_state a \<notin> set AGENT_PROBLEM_STATES) \<and> (\<forall>item\<in>set attention. \<not> js_truthy (at_agent item))"
    unfolding agentsNeedingAttention_def by auto
  finally show ?thesis by (cases attention) auto
qed

definition sample_copy :: platform_copy where
  "sample_copy = \<lparr>pc_thisDevice = ''this Mac'', pc_ThisDevice = ''This Mac'', pc_fileManagerFailed = ''Finder couldn't show the file.'',
     pc_store_title = ''Your keychain isn't available'', pc_store_body = ''Nothing was stored.''\<rparr>"

definition sample_capture :: "string \<Rightarrow> capture_status" where
  "sample_capture state = \<lparr>cp_state = state, cp_local_paused = False, cp_policy_cached = True, cp_enabled_agents = None, cp_auto_match_repos = True,
     cp_exclude_globs = []\<rparr>"

definition sample_device :: "string \<Rightarrow> device_status" where
  "sample_device state = \<lparr>st_installation_id = ''i1'', st_endpoint = ''https://b'', st_connected = True, st_web_origin = None, st_revoked = False,
     st_capture = sample_capture state, st_agents = [], st_backing_off = False\<rparr>"

definition sample_attention :: attention_item where
  "sample_attention = \<lparr>at_code = ''disk_full'', at_severity = ''error'', at_agent = None, at_message = ''''\<rparr>"

text \<open>
  The popover and the tray say the same. In each of the capture states the daemon documents, the
  tray state the header is drawn for is the glyph that the native tray computes on its own from the
  same status and attention items; the panel's tabs are hidden exactly when that glyph is the
  disconnected one, and the pause button is offered only while connected.
\<close>

lemma header_matches_tray:
  assumes "cp_state (st_capture status) \<in> set CAPTURE_STATES"
  shows "sm_trayState (statusModel copy status attention liveSessions deviceName) = tray_icon_state True (Some status) (length attention) \<and>
    (sm_showTabs (statusModel copy status attention liveSessions deviceName) \<longleftrightarrow>
       tray_icon_state True (Some status) (length attention) \<noteq> TrayDisconnected) \<and>
    (sm_pauseControl (statusModel copy status attention liveSessions deviceName) = NoPause \<longleftrightarrow>
       tray_icon_state True (Some status) (length attention) = TrayDisconnected)"
proof -
  let ?state = "cp_state (st_capture status)"
  consider "?state = ''revoked''" | "?state = ''not_connected''" | "?state = ''paused_locally''" | "?state = ''paused_by_server''" | "?state = ''policy_stale''" | "?state = ''active''"
    using assms by (auto simp: CAPTURE_STATES_def)
  then show ?thesis
  proof cases
    case 6
    then show ?thesis using needing_iff [of status attention]
      by (simp add: statusModel_def tray_icon_state_def Let_def localPauseControl_def)
  qed (simp_all add: statusModel_def tray_icon_state_def Let_def localPauseControl_def)
qed

text \<open>
  In a capture state this build does not know, the two disagree as soon as something needs
  attention: the header is drawn for the capturing glyph while the tray shows the attention one.
\<close>

lemma unknown_state_disagrees:
  "sm_trayState (statusModel sample_copy (sample_device ''starting'') [sample_attention] None None) = TrayCapturing \<and>
   tray_icon_state True (Some (sample_device ''starting'')) (length [sample_attention]) = TrayAttention"
  by code_simp

end
