(* ===== verification/Written_Setting.thy ===== *)
theory Written_Setting
  imports Event_System Companion_Agents
begin

text \<open>
  The contract that the two setting queues of the companion share (\<open>screens/agents/settings-queue.ts\<close>
  and \<open>screens/projects/rules-store.ts\<close>). A setting is one value that every write replaces as a
  whole; the daemon reports it in its statuses, which may lag behind the answers to the writes. A module
  keeps the answer of its last write and trusts it over the statuses, until one of them reports the
  same value. The locale \<open>written_setting\<close> has the operations of such a module, with the value it
  still holds against the statuses as the abstraction of its state, and shows when the value a
  write builds on is the server's.
\<close>

fun opt_all :: "('v \<Rightarrow> bool) \<Rightarrow> 'v option \<Rightarrow> bool" where
  "opt_all P None = True"
| "opt_all P (Some v) = P v"

definition agrees :: "('v option \<Rightarrow> 'v \<Rightarrow> bool) \<Rightarrow> 'v option \<Rightarrow> 'v option \<Rightarrow> bool" where
  "agrees same a b = (case b of None \<Rightarrow> a = None | Some v \<Rightarrow> same a v)"

locale written_setting =
  fixes same :: "'v option \<Rightarrow> 'v \<Rightarrow> bool" and reported :: "'st \<Rightarrow> 'v option" and inst :: "'st \<Rightarrow> string"
    and observe :: "'st option \<Rightarrow> 'c \<Rightarrow> 'c" and remember :: "'v \<Rightarrow> 'st \<Rightarrow> 'c \<Rightarrow> 'c" and known :: "'st option \<Rightarrow> 'c \<Rightarrow> 'v option"
    and held :: "'c \<Rightarrow> ('v \<times> string) option" and ok :: "'v \<Rightarrow> bool"
  assumes same_None: "\<not> same None v"
    and same_refl: "ok v \<Longrightarrow> same (Some v) v"
    and same_sym: "ok v \<Longrightarrow> ok u \<Longrightarrow> same (Some u) v \<Longrightarrow> same (Some v) u"
    and same_trans: "ok u \<Longrightarrow> ok v \<Longrightarrow> ok w \<Longrightarrow> same (Some u) v \<Longrightarrow> same (Some v) w \<Longrightarrow> same (Some u) w"
    and remember_held: "held (remember v st c) = (if same (reported st) v then None else Some (v, inst st))"
    and observe_held: "held (observe ost c) = (case (held c, ost) of
          (Some (v, i), Some s) \<Rightarrow> if inst s \<noteq> i \<or> same (reported s) v then None else Some (v, i)
        | _ \<Rightarrow> None)"
    and known_held: "known ost c = (case held c of Some (v, _) \<Rightarrow> Some v | None \<Rightarrow> Option.bind ost reported)"
begin

text \<open>Statuses that report something else do not displace the answer of the write.\<close>

lemma stale_statuses_ignored:
  assumes "\<not> same (reported st) v" and "\<forall>s\<in>set ss. inst s = inst st \<and> \<not> same (reported s) v"
  shows "held (fold (\<lambda>s. observe (Some s)) ss (remember v st c)) = Some (v, inst st)"
proof -
  have "held (fold (\<lambda>s. observe (Some s)) ss d) = Some (v, inst st)" if "held d = Some (v, inst st)" for d
    using that assms(2) by (induction ss arbitrary: d) (auto simp: observe_held)
  then show ?thesis using assms(1) by (simp add: remember_held)
qed

lemma same_ok: "same a v \<Longrightarrow> \<exists>u. a = Some u"
  using same_None by (cases a) auto

text \<open>
  The server's successive values are \<open>hist\<close>, the last one its present value, and \<open>rep\<close> is the
  position of the value that the latest status reports. Statuses never go back to an older value than
  the one they reported last. A write moves to a value that differs from every one a status may still
  report.
\<close>

definition caught_up :: "'c \<Rightarrow> 'st \<Rightarrow> 'v option list \<Rightarrow> nat \<Rightarrow> bool" where
  "caught_up c st hist rep \<longleftrightarrow> (case held c of
     None \<Rightarrow> rep = length hist - 1
   | Some (v, i) \<Rightarrow> last hist = Some v \<and> i = inst st \<and> rep < length hist - 1 \<and>
       (\<forall>k. rep \<le> k \<longrightarrow> k < length hist - 1 \<longrightarrow> \<not> same (hist ! k) v))"

definition hist_ok :: "'st \<Rightarrow> 'v option list \<Rightarrow> nat \<Rightarrow> bool" where
  "hist_ok st hist rep \<longleftrightarrow> rep < length hist \<and> agrees same (reported st) (hist ! rep) \<and> list_all (opt_all ok) hist \<and> opt_all ok (reported st)"

lemma status_other:
  assumes "agrees same (reported s) b" and ok: "opt_all ok (reported s)" "opt_all ok b" "ok v" and "\<not> same b v"
  shows "\<not> same (reported s) v"
proof
  assume eq: "same (reported s) v"
  then obtain u where u: "reported s = Some u" using same_ok by blast
  then obtain w where w: "b = Some w" "same (Some u) w" using assms(1) by (cases b) (auto simp: agrees_def)
  have "same (Some w) u" using same_sym [of w u] ok u w by simp
  then have "same (Some w) v" using same_trans [of w u v] ok u w eq by simp
  then show False using assms(5) w(1) by simp
qed

text \<open>Both facts depend on the state only through the value held, and every step keeps them.\<close>

definition in_step :: "'c \<Rightarrow> 'st \<Rightarrow> 'v option list \<Rightarrow> nat \<Rightarrow> bool" where
  "in_step c st hist rep \<longleftrightarrow> hist_ok st hist rep \<and> caught_up c st hist rep"

lemma in_step_held: "held c' = held c \<Longrightarrow> in_step c' st hist rep = in_step c st hist rep"
  by (simp add: in_step_def caught_up_def)

lemma in_step_start:
  "held c = None \<Longrightarrow> agrees same (reported st) v \<Longrightarrow> opt_all ok v \<Longrightarrow> opt_all ok (reported st) \<Longrightarrow> in_step c st [v] 0"
  by (simp add: in_step_def hist_ok_def caught_up_def)

lemma in_step_status:
  assumes inv: "in_step c st hist rep" and k: "rep \<le> k" "k < length hist"
    and st': "agrees same (reported st') (hist ! k)" "opt_all ok (reported st')" "inst st' = inst st"
  shows "in_step (observe (Some st') c) st' hist k"
proof -
  have h: "hist_ok st' hist k" using inv k st' by (simp add: in_step_def hist_ok_def)
  have ok: "opt_all ok (hist ! k)" using inv k(2) by (simp add: in_step_def hist_ok_def list_all_length)
  show ?thesis
  proof (cases "held c")
    case None
    then show ?thesis using inv k h by (auto simp: in_step_def caught_up_def observe_held)
  next
    case (Some p)
    then obtain v where v: "held c = Some (v, inst st)" "last hist = Some v" "\<And>k. rep \<le> k \<Longrightarrow> k < length hist - 1 \<Longrightarrow> \<not> same (hist ! k) v"
      using inv by (cases p) (auto simp: in_step_def caught_up_def)
    have ne: "hist \<noteq> []" using k(2) by auto
    have "last hist \<in> set hist" using ne by simp
    then have okv: "ok v" using inv v(2) by (auto simp: in_step_def hist_ok_def list_all_iff)
    show ?thesis
    proof (cases "k = length hist - 1")
      case True
      then have "hist ! k = Some v" using v(2) ne by (simp add: last_conv_nth)
      then have "same (reported st') v" using st'(1) by (simp add: agrees_def)
      then show ?thesis using h True v(1) by (simp add: in_step_def caught_up_def observe_held)
    next
      case False
      then have before: "k < length hist - 1" using k(2) by simp
      have "\<not> same (reported st') v" by (rule status_other [OF st'(1,2) ok okv v(3) [OF k(1) before]])
      then show ?thesis using h before v k(1) st'(3) by (simp add: in_step_def caught_up_def observe_held)
    qed
  qed
qed

lemma in_step_wrote:
  assumes inv: "in_step c st hist rep" and "ok v" and fresh: "\<And>k. rep \<le> k \<Longrightarrow> k < length hist \<Longrightarrow> \<not> same (hist ! k) v"
  shows "in_step (remember v st c) st (hist @ [Some v]) rep"
proof -
  have h: "rep < length hist" "list_all (opt_all ok) hist" "opt_all ok (reported st)" "agrees same (reported st) (hist ! rep)"
    using inv by (simp_all add: in_step_def hist_ok_def)
  then have "opt_all ok (hist ! rep)" by (simp add: list_all_length)
  then have new: "\<not> same (reported st) v" using status_other [OF h(4,3) _ assms(2) fresh] h(1) by simp
  have "hist_ok st (hist @ [Some v]) rep" using h assms(2) by (simp add: hist_ok_def nth_append)
  moreover have "caught_up (remember v st c) st (hist @ [Some v]) rep"
    using h(1) new fresh by (simp add: caught_up_def remember_held nth_append)
  ultimately show ?thesis by (simp add: in_step_def)
qed

text \<open>The value the next write builds on is the one the server has.\<close>

lemma known_is_servers:
  assumes "in_step c st hist rep"
  shows "agrees same (known (Some st) c) (last hist)" "opt_all ok (known (Some st) c)" "opt_all ok (last hist)"
proof -
  have ok: "hist_ok st hist rep" "caught_up c st hist rep" using assms by (simp_all add: in_step_def)
  then have ne: "hist \<noteq> []" by (auto simp: hist_ok_def)
  show last: "opt_all ok (last hist)" using ok(1) last_in_set [OF ne] by (auto simp: hist_ok_def list_all_iff)
  consider "held c = None" | v where "held c = Some (v, inst st)" "last hist = Some v"
    using ok(2) by (cases "held c") (auto simp: caught_up_def)
  then show "agrees same (known (Some st) c) (last hist)" "opt_all ok (known (Some st) c)"
    using ok ne last same_refl by (cases; simp add: caught_up_def hist_ok_def known_held last_conv_nth agrees_def)+
qed

end

end
