(* ===== verification/Companion_Errors.thy ===== *)
theory Companion_Errors
  imports Daemon_Stream Companion_Agents
begin

text \<open>
  The errors of daemon calls (\<open>ipc/errors.ts\<close>, \<open>ipc/daemon.ts\<close>) and the fixed sentences the screens
  show for them (\<open>screens/projects/copy.ts\<close>, \<open>screens/onboarding/daemon-messages.ts\<close>,
  \<open>screens/onboarding/pairing-code.ts\<close>). A rejection is an \<open>Error\<close> object with its message or any
  other value, \<open>None\<close> when undefined. Typographic apostrophes are written as plain ones.
\<close>

datatype rejection = ErrorObject string | Rejected "json option"

datatype companion_error =
    ErrUnreachable string
  | ErrApi jsnum string string json
  | ErrProtocol string
  | ErrInvalidInput string
  | ErrLocal string
  | ErrTimeout
  | ErrResponseTooLarge jsnum
  | ErrIpc string

definition unrecognised :: companion_error where
  "unrecognised = ErrIpc ''unrecognised IPC error''"

definition with_message :: "(string \<Rightarrow> companion_error) \<Rightarrow> json option \<Rightarrow> companion_error" where
  "with_message mk message = (case jstr message of Some m \<Rightarrow> mk m | None \<Rightarrow> unrecognised)"

definition toCompanionError :: "rejection \<Rightarrow> companion_error" where
  "toCompanionError rejection = (case rejection of
     ErrorObject m \<Rightarrow> ErrIpc m
   | Rejected (Some (JStr s)) \<Rightarrow> ErrIpc s
   | Rejected v \<Rightarrow>
       if \<not> is_record v then unrecognised
       else let field = jfield (the v); kind = jstr (field ''kind'') in
         if kind = Some ''unreachable'' then with_message ErrUnreachable (field ''reason'')
         else if kind = Some ''api'' then
           (case (jnum (field ''status''), jstr (field ''code''), jstr (field ''message'')) of
              (Some status, Some code, Some message) \<Rightarrow>
                ErrApi status code message (case field ''detail'' of Some d \<Rightarrow> d | None \<Rightarrow> JNull)
            | _ \<Rightarrow> unrecognised)
         else if kind = Some ''protocol'' then with_message ErrProtocol (field ''message'')
         else if kind = Some ''invalid_input'' then with_message ErrInvalidInput (field ''message'')
         else if kind = Some ''local'' then with_message ErrLocal (field ''message'')
         else if kind = Some ''timeout'' then ErrTimeout
         else if kind = Some ''response_too_large'' then
           (case jnum (field ''limit_bytes'') of Some n \<Rightarrow> ErrResponseTooLarge n | None \<Rightarrow> unrecognised)
         else unrecognised)"

definition hasErrorCode :: "companion_error \<Rightarrow> string \<Rightarrow> bool" where
  "hasErrorCode error code = (case error of ErrApi _ c _ _ \<Rightarrow> c = code | _ \<Rightarrow> False)"

text \<open>\<open>DaemonResult\<close>: the error or the value. A call never throws.\<close>

type_synonym 'a daemon_result = "companion_error + 'a"

fun callDaemon :: "rejection + 'a \<Rightarrow> 'a daemon_result" where
  "callDaemon (Inr v) = Inr v"
| "callDaemon (Inl r) = Inl (toCompanionError r)"

text \<open>The value a Rust error is rejected with, as the bindings declare it.\<close>

fun error_json :: "companion_error \<Rightarrow> json" where
  "error_json (ErrUnreachable reason) = JObj [(''kind'', JStr ''unreachable''), (''reason'', JStr reason)]"
| "error_json (ErrApi status code message detail) =
     JObj [(''kind'', JStr ''api''), (''status'', JNum status), (''code'', JStr code), (''message'', JStr message), (''detail'', detail)]"
| "error_json (ErrProtocol message) = JObj [(''kind'', JStr ''protocol''), (''message'', JStr message)]"
| "error_json (ErrInvalidInput message) = JObj [(''kind'', JStr ''invalid_input''), (''message'', JStr message)]"
| "error_json (ErrLocal message) = JObj [(''kind'', JStr ''local''), (''message'', JStr message)]"
| "error_json ErrTimeout = JObj [(''kind'', JStr ''timeout'')]"
| "error_json (ErrResponseTooLarge n) = JObj [(''kind'', JStr ''response_too_large''), (''limit_bytes'', JNum n)]"
| "error_json (ErrIpc message) = JStr message"

text \<open>Every error the native side sends arrives as the error it was.\<close>

lemma error_roundtrip: "toCompanionError (Rejected (Some (error_json error))) = error"
  by (cases error) (simp_all add: toCompanionError_def with_message_def is_record_def Let_def)


section \<open>What a failure is\<close>

datatype failure_kind =
    DaemonDown | ServerUnreachable | UnauthorizedDevice | NotFound | Forbidden | Conflict | InvalidRequest | RichUnavailable | OtherFailure

definition upstreamStatus :: "json \<Rightarrow> jsnum option" where
  "upstreamStatus detail = jnum (jfield detail ''status'')"

definition upstreamCode :: "json \<Rightarrow> string option" where
  "upstreamCode detail = jstr (jfield detail ''error_code'')"

definition failureKind :: "companion_error \<Rightarrow> failure_kind" where
  "failureKind error = (case error of
     ErrUnreachable _ \<Rightarrow> DaemonDown
   | ErrTimeout \<Rightarrow> ServerUnreachable
   | ErrApi status code message detail \<Rightarrow>
       if upstreamCode detail = Some ''rich_capture_unavailable'' then RichUnavailable
       else if code = ''server_unreachable'' then ServerUnreachable
       else if code = ''unauthorized_device'' then UnauthorizedDevice
       else if code = ''not_found'' then NotFound
       else if code = ''conflict'' then Conflict
       else if code = ''invalid_request'' then InvalidRequest
       else if code = ''forbidden'' then Forbidden
       else if code = ''server_rejected'' then (if upstreamStatus detail = Some (Fin 403) then Forbidden else OtherFailure)
       else OtherFailure
   | _ \<Rightarrow> OtherFailure)"

definition RICH_CAPTURE_OFF :: string where
  "RICH_CAPTURE_OFF = ''Rich capture isn't enabled on this Backplane.''"

definition failureReason :: "platform_copy \<Rightarrow> companion_error \<Rightarrow> string" where
  "failureReason copy error = (case failureKind error of
     DaemonDown \<Rightarrow> ''The Companion service isn't running.''
   | ServerUnreachable \<Rightarrow> ''Backplane can't be reached right now.''
   | UnauthorizedDevice \<Rightarrow> ''Backplane disconnected '' @ pc_thisDevice copy @ ''.''
   | Forbidden \<Rightarrow> ''Backplane refused the change.''
   | NotFound \<Rightarrow> ''Backplane no longer has it.''
   | RichUnavailable \<Rightarrow> RICH_CAPTURE_OFF
   | _ \<Rightarrow> ''Try again in a moment.'')"

definition UNKNOWN_CONFLICT :: string where
  "UNKNOWN_CONFLICT = ''It's already bound to another board, so it can't be bound here too.''"

definition bindFailureMessage :: "platform_copy \<Rightarrow> companion_error \<Rightarrow> string \<Rightarrow> string" where
  "bindFailureMessage copy error folder = (case failureKind error of
     RichUnavailable \<Rightarrow> RICH_CAPTURE_OFF @ '' Nothing was bound; pick another level.''
   | NotFound \<Rightarrow> ''That board no longer exists, or you can no longer open it. Pick another board.''
   | Forbidden \<Rightarrow> ''You no longer have access to that workspace. Pick a board you can open.''
   | ServerUnreachable \<Rightarrow> ''Backplane can't be reached right now. Nothing was bound; try again in a moment.''
   | DaemonDown \<Rightarrow> ''The Companion service isn't running, so nothing was bound. Try again once it starts.''
   | UnauthorizedDevice \<Rightarrow> ''Backplane disconnected '' @ pc_thisDevice copy @ ''. Connect it again to bind folders.''
   | InvalidRequest \<Rightarrow> ''Backplane didn't accept this binding. Pick another board or try again.''
   | Conflict \<Rightarrow> UNKNOWN_CONFLICT
   | OtherFailure \<Rightarrow> ''Couldn't bind '' @ folder @ ''. Try again.'')"

definition agentAccessFailureReason :: "platform_copy \<Rightarrow> companion_error \<Rightarrow> string" where
  "agentAccessFailureReason copy error =
     (if hasErrorCode error ''not_connected'' then ''Connect '' @ pc_thisDevice copy @ '' to Backplane first.''
      else if hasErrorCode error ''mapping_root_unknown'' then pc_ThisDevice copy @ '' hasn't found this repository's folder yet.''
      else failureReason copy error)"



section \<open>What onboarding and the agents screen say\<close>

definition KEYCHAIN_UNAVAILABLE :: string where
  "KEYCHAIN_UNAVAILABLE = ''secure_credential_store_unavailable''"

definition isDaemonDown :: "companion_error \<Rightarrow> bool" where
  "isDaemonDown error = (case error of ErrUnreachable _ \<Rightarrow> True | _ \<Rightarrow> False)"

definition errorCode :: "companion_error \<Rightarrow> string option" where
  "errorCode error = (case error of ErrApi _ code _ _ \<Rightarrow> Some code | _ \<Rightarrow> None)"

definition SENTENCE_FOR_CODE :: "platform_copy \<Rightarrow> (string \<times> string) list" where
  "SENTENCE_FOR_CODE copy =
    [(''agent_config_invalid'', ''Its settings file isn't valid, so Companion left it alone. Fix the file, then try again.''),
     (''agent_config_symlink'', ''Its settings file is a link to another file, so Companion left it alone.''),
     (''agent_config_changed'', ''Its settings file changed while Companion was editing it. Try again.''),
     (''agent_config_not_owned'', ''Its settings already have a hook Companion didn't add, so Companion left it alone.''),
     (''unknown_agent'', ''Companion doesn't know this agent.''),
     (''auto_match_disabled'', ''Automatic matching is off for '' @ pc_thisDevice copy @ '' in Backplane.''),
     (''no_matching_board'', ''No board you can open in Backplane is linked to this repository.''),
     (''not_found'', ''That's no longer there. Refresh and try again.''),
     (''conflict'', ''That changed somewhere else at the same time. Try again.''),
     (''invalid_request'', ''Companion couldn't understand that request.''),
     (''not_connected'', pc_ThisDevice copy @ '' isn't connected to Backplane.''),
     (''server_unreachable'', ''Backplane can't be reached right now. Check your connection and try again.''),
     (''server_rejected'', ''Backplane turned the request down.''),
     (''unauthorized_device'', ''Backplane no longer accepts '' @ pc_thisDevice copy @ '''s sign-in.''),
     (KEYCHAIN_UNAVAILABLE, pc_store_body copy)]"

definition GENERIC_SENTENCE :: string where
  "GENERIC_SENTENCE = ''Something went wrong in Companion. Try again.''"

definition errorSentence :: "platform_copy \<Rightarrow> companion_error \<Rightarrow> string" where
  "errorSentence copy error = (case error of
     ErrApi _ code _ _ \<Rightarrow> (case map_of (SENTENCE_FOR_CODE copy) code of Some s \<Rightarrow> s | None \<Rightarrow> GENERIC_SENTENCE)
   | ErrTimeout \<Rightarrow> ''Companion took too long to answer. Try again.''
   | ErrUnreachable _ \<Rightarrow> ''Companion isn't answering.''
   | _ \<Rightarrow> GENERIC_SENTENCE)"

text \<open>A title and a body.\<close>

definition pairingStartExplanation :: "platform_copy \<Rightarrow> companion_error \<Rightarrow> string \<Rightarrow> string \<times> string" where
  "pairingStartExplanation copy error host =
     (let code = errorCode error in
      if code = Some ''server_unreachable'' then
        (''Can't reach '' @ host, ''No Backplane server answered at this address. Check it and your connection, then try again.'')
      else if code = Some ''server_rejected'' then
        (host @ '' didn't accept '' @ pc_thisDevice copy,
         ''The server answered but wouldn't start pairing. Check that this is the address your team signs in to.'')
      else if code = Some KEYCHAIN_UNAVAILABLE then (pc_store_title copy, pc_store_body copy)
      else if code = Some ''unauthorized_device'' then
        (pc_ThisDevice copy @ '''s old connection was revoked'',
         ''Backplane no longer accepts its previous sign-in. Start again to connect it with a new code.'')
      else (''Couldn't start pairing'', errorSentence copy error))"

datatype agent_action = Repair | Enable | EnableSetting | EnableSettingHookLeft | Disable | RemoveHook | Recheck | Reveal

definition RETRY_BODY :: string where
  "RETRY_BODY = ''Try again. If it keeps failing, save a diagnostics file from Settings.''"

definition actionTitle :: "platform_copy \<Rightarrow> agent_action \<Rightarrow> string \<Rightarrow> string" where
  "actionTitle copy action name = (case action of
     Repair \<Rightarrow> ''Couldn't repair '' @ name @ '''s hook.''
   | Enable \<Rightarrow> ''Couldn't add '' @ name @ '''s hook.''
   | EnableSetting \<Rightarrow> ''Couldn't turn '' @ name @ '' on.''
   | EnableSettingHookLeft \<Rightarrow> ''Couldn't turn '' @ name @ '' on.''
   | Disable \<Rightarrow> ''Couldn't turn '' @ name @ '' off.''
   | RemoveHook \<Rightarrow> ''Capture is off, but '' @ name @ '''s hook couldn't be removed.''
   | Recheck \<Rightarrow> ''Couldn't check '' @ name @ '' again.''
   | Reveal \<Rightarrow> pc_fileManagerFailed copy)"

record error_cause =
  ec_title :: string
  ec_detail :: string
  ec_unchanged :: bool

definition error_cause_of :: "platform_copy \<Rightarrow> companion_error \<Rightarrow> error_cause option" where
  "error_cause_of copy error = (case error of
     ErrUnreachable _ \<Rightarrow> Some \<lparr>ec_title = ''Couldn't reach the Companion.'', ec_detail = ''It may be restarting. Try again in a moment.'', ec_unchanged = False\<rparr>
   | ErrTimeout \<Rightarrow> Some \<lparr>ec_title = ''Couldn't reach the Companion.'', ec_detail = ''It may be restarting. Try again in a moment.'', ec_unchanged = False\<rparr>
   | ErrApi _ code _ _ \<Rightarrow>
       if code = ''server_unreachable'' then
         Some \<lparr>ec_title = ''Can't reach Backplane right now.'', ec_detail = ''Try again when '' @ pc_thisDevice copy @ '' is back online.'', ec_unchanged = True\<rparr>
       else if code = ''unauthorized_device'' then
         Some \<lparr>ec_title = pc_ThisDevice copy @ '' is no longer connected to Backplane.'', ec_detail = ''Connect it again from Settings.'', ec_unchanged = False\<rparr>
       else if code = ''server_rejected'' then
         Some \<lparr>ec_title = ''Backplane didn't accept the change.'', ec_detail = ''Try again in a moment.'', ec_unchanged = True\<rparr>
       else None
   | _ \<Rightarrow> None)"

definition PARTIAL_OUTCOME :: "agent_action \<Rightarrow> string option" where
  "PARTIAL_OUTCOME action = (case action of
     RemoveHook \<Rightarrow> Some ''Its sessions aren't captured.''
   | EnableSettingHookLeft \<Rightarrow> Some ''Its hook is installed, but capture is off.''
   | _ \<Rightarrow> None)"

definition describeAgentError :: "platform_copy \<Rightarrow> companion_error \<Rightarrow> agent_action \<Rightarrow> string \<Rightarrow> string \<times> string" where
  "describeAgentError copy error action name =
     (let known = error_cause_of copy error in case PARTIAL_OUTCOME action of
        Some outcome \<Rightarrow> (actionTitle copy action name, outcome @ '' '' @ (case known of Some c \<Rightarrow> ec_detail c | None \<Rightarrow> RETRY_BODY))
      | None \<Rightarrow> (case known of
          Some c \<Rightarrow> (ec_title c, if ec_unchanged c then ''Nothing was changed. '' @ ec_detail c else ec_detail c)
        | None \<Rightarrow> if action = Reveal then (actionTitle copy action name, ''Open it from your editor instead.'')
            else (actionTitle copy action name, RETRY_BODY)))"


section \<open>No text of the daemon reaches the screen\<close>

text \<open>An error without the free text it carries: of the detail only the server's status and code are left.\<close>

definition slim_detail :: "json \<Rightarrow> json" where
  "slim_detail detail = JObj ((case upstreamStatus detail of Some n \<Rightarrow> [(''status'', JNum n)] | None \<Rightarrow> []) @
     (case upstreamCode detail of Some c \<Rightarrow> [(''error_code'', JStr c)] | None \<Rightarrow> []))"

fun redacted :: "companion_error \<Rightarrow> companion_error" where
  "redacted (ErrUnreachable reason) = ErrUnreachable ''''"
| "redacted (ErrApi status code message detail) = ErrApi status code '''' (slim_detail detail)"
| "redacted (ErrProtocol message) = ErrProtocol ''''"
| "redacted (ErrInvalidInput message) = ErrInvalidInput ''''"
| "redacted (ErrLocal message) = ErrLocal ''''"
| "redacted ErrTimeout = ErrTimeout"
| "redacted (ErrResponseTooLarge n) = ErrResponseTooLarge n"
| "redacted (ErrIpc message) = ErrIpc ''''"

lemma slim_detail_upstream [simp]: "upstreamStatus (slim_detail d) = upstreamStatus d" "upstreamCode (slim_detail d) = upstreamCode d"
  by (simp_all add: slim_detail_def upstreamStatus_def upstreamCode_def split: option.split)

lemma redacted_simps [simp]:
  "failureKind (redacted error) = failureKind error" "errorCode (redacted error) = errorCode error" "hasErrorCode (redacted error) c = hasErrorCode error c"
  "isDaemonDown (redacted error) = isDaemonDown error" "errorSentence copy (redacted error) = errorSentence copy error"
  "error_cause_of copy (redacted error) = error_cause_of copy error"
  by (cases error; simp add: failureKind_def errorCode_def hasErrorCode_def isDaemonDown_def errorSentence_def error_cause_of_def)+

text \<open>
  No free text of the daemon or of the server reaches the screen. Every sentence that the
  projects, onboarding and agents screens show for a failed call is the same for the error without
  its message, its reason and its detail beyond the server's status and code, which may carry paths and
  command output.
\<close>

lemma error_text_hidden:
  "failureReason copy (redacted error) = failureReason copy error \<and>
   bindFailureMessage copy (redacted error) folder = bindFailureMessage copy error folder \<and>
   agentAccessFailureReason copy (redacted error) = agentAccessFailureReason copy error \<and>
   errorSentence copy (redacted error) = errorSentence copy error \<and>
   pairingStartExplanation copy (redacted error) host = pairingStartExplanation copy error host \<and>
   describeAgentError copy (redacted error) action name = describeAgentError copy error action name"
  by (simp add: failureReason_def bindFailureMessage_def agentAccessFailureReason_def pairingStartExplanation_def describeAgentError_def Let_def)

end
