(* ===== verification/Settings_Queue.thy ===== *)
theory Settings_Queue
  imports Written_Setting Companion_Errors
begin

text \<open>
  The switches of the agents screen (\<open>screens/agents/settings-queue.ts\<close>): every switch writes the
  whole list of enabled agents, so the writes run one at a time, each on the newest list known when it
  starts. The world holds the module's state, the two stores it reads, the writes that wait, and the
  update whose answer is pending; it also keeps the results the callers got.
\<close>


section \<open>The module\<close>

record saved_list =
  sl_enabledAgents :: "string list"
  sl_installationId :: string
  sl_caughtUp :: bool

record enabled_world =
  eq_lastSaved :: "saved_list option"
  eq_status :: "device_status option"
  eq_entryIds :: "string list"
  eq_queue :: "(string \<times> bool) list"
  eq_running :: "(string \<times> bool \<times> string list) option"
  eq_results :: "bool daemon_result list"

definition sameIds :: "string list option \<Rightarrow> string list \<Rightarrow> bool" where
  "sameIds a b = (case a of None \<Rightarrow> False | Some xs \<Rightarrow> length xs = length b \<and> list_all (\<lambda>i. i \<in> set xs) b)"

abbreviation status_list :: "device_status \<Rightarrow> string list option" where
  "status_list s \<equiv> cp_enabled_agents (st_capture s)"

definition observe_enabled :: "device_status option \<Rightarrow> saved_list option \<Rightarrow> saved_list option" where
  "observe_enabled status lastSaved = (case lastSaved of
     None \<Rightarrow> None
   | Some sl \<Rightarrow> (case status of
       None \<Rightarrow> None
     | Some s \<Rightarrow> if st_installation_id s \<noteq> sl_installationId sl then None
         else if sameIds (status_list s) (sl_enabledAgents sl) then Some (sl\<lparr>sl_caughtUp := True\<rparr>)
         else Some sl))"

definition known_enabled :: "device_status option \<Rightarrow> saved_list option \<Rightarrow> string list option" where
  "known_enabled status lastSaved = (case lastSaved of
     Some sl \<Rightarrow> if \<not> sl_caughtUp sl then Some (sl_enabledAgents sl) else Option.bind status status_list
   | None \<Rightarrow> Option.bind status status_list)"

definition knownEnabledAgents :: "enabled_world \<Rightarrow> string list option" where
  "knownEnabledAgents w = known_enabled (eq_status w) (eq_lastSaved w)"

definition status_changed :: "device_status option \<Rightarrow> enabled_world \<Rightarrow> enabled_world" where
  "status_changed status w = w\<lparr>eq_status := status, eq_lastSaved := observe_enabled status (eq_lastSaved w)\<rparr>"

definition reportedAgentIds :: "enabled_world \<Rightarrow> string list" where
  "reportedAgentIds w = js_unique ((case eq_status w of Some s \<Rightarrow> map as_id (st_agents s) | None \<Rightarrow> []) @ eq_entryIds w)"

definition json_strings :: "json list \<Rightarrow> string list option" where
  "json_strings xs = (if list_all (\<lambda>x. jstr (Some x) \<noteq> None) xs then Some (map (\<lambda>x. the (jstr (Some x))) xs) else None)"

definition savedList :: "json \<Rightarrow> string list \<Rightarrow> string list" where
  "savedList settings fallback = (case jarr (jfield settings ''enabled_agents'') of
     Some returned \<Rightarrow> (case json_strings returned of Some ids \<Rightarrow> ids | None \<Rightarrow> fallback)
   | None \<Rightarrow> fallback)"

definition remember_enabled :: "string list \<Rightarrow> device_status \<Rightarrow> saved_list option \<Rightarrow> saved_list option" where
  "remember_enabled enabledAgents s lastSaved = Some \<lparr>sl_enabledAgents = enabledAgents, sl_installationId = st_installation_id s,
     sl_caughtUp = sameIds (status_list s) enabledAgents\<rparr>"

text \<open>\<open>setAgentEnabled\<close> queues a write; the write up to its \<open>await\<close>; and what follows the answer.\<close>

definition setAgentEnabled :: "string \<Rightarrow> bool \<Rightarrow> enabled_world \<Rightarrow> enabled_world" where
  "setAgentEnabled i enable w = w\<lparr>eq_queue := eq_queue w @ [(i, enable)]\<rparr>"

definition start_write :: "string \<Rightarrow> bool \<Rightarrow> enabled_world \<Rightarrow> enabled_world" where
  "start_write i enable w =
     (let current = knownEnabledAgents w in
      if isAgentEnabled i current = enable then w\<lparr>eq_results := eq_results w @ [Inr False]\<rparr>
      else w\<lparr>eq_running := Some (i, enable, nextEnabledAgents current i enable (reportedAgentIds w))\<rparr>)"

definition write_answered :: "string list \<Rightarrow> json daemon_result \<Rightarrow> enabled_world \<Rightarrow> enabled_world" where
  "write_answered next result w = (case result of
     Inl error \<Rightarrow> w\<lparr>eq_running := None, eq_results := eq_results w @ [Inl error]\<rparr>
   | Inr settings \<Rightarrow> w\<lparr>eq_running := None, eq_results := eq_results w @ [Inr True],
       eq_lastSaved := (case eq_status w of Some s \<Rightarrow> remember_enabled (savedList settings next) s (eq_lastSaved w) | None \<Rightarrow> None)\<rparr>)"

definition enabled_init :: "device_status option \<Rightarrow> enabled_world" where
  "enabled_init status = \<lparr>eq_lastSaved = None, eq_status = status, eq_entryIds = [], eq_queue = [], eq_running = None, eq_results = []\<rparr>"


section \<open>The answer of the last write against late statuses\<close>

definition held_enabled :: "saved_list option \<Rightarrow> (string list \<times> string) option" where
  "held_enabled lastSaved = (case lastSaved of
     Some sl \<Rightarrow> if sl_caughtUp sl then None else Some (sl_enabledAgents sl, sl_installationId sl)
   | None \<Rightarrow> None)"

lemma sameIds_distinct: "distinct xs \<Longrightarrow> distinct ys \<Longrightarrow> sameIds (Some xs) ys \<longleftrightarrow> set xs = set ys"
proof -
  assume d: "distinct xs" "distinct ys"
  have "set ys = set xs" if "set ys \<subseteq> set xs" "length xs = length ys"
    using that d by (intro card_subset_eq) (simp_all add: distinct_card)
  moreover have "length xs = length ys" if "set xs = set ys" using that d by (metis distinct_card)
  ultimately show ?thesis by (auto simp: sameIds_def list_all_iff)
qed

interpretation enabled: written_setting sameIds status_list st_installation_id observe_enabled remember_enabled known_enabled held_enabled distinct
proof
  show "held_enabled (observe_enabled st c) = (case (held_enabled c, st) of
      (Some (v, i), Some s) \<Rightarrow> if st_installation_id s \<noteq> i \<or> sameIds (status_list s) v then None else Some (v, i) | _ \<Rightarrow> None)" for st c
    by (cases c; cases st) (simp_all add: held_enabled_def observe_enabled_def)
  show "\<not> sameIds None v" for v by (simp add: sameIds_def)
qed (auto simp: sameIds_distinct held_enabled_def remember_enabled_def known_enabled_def split: option.splits)



section \<open>With a server\<close>

text \<open>
  The module together with a server that stores the lists. \<open>es_hist\<close> are its successive lists,
  \<open>None\<close> for the initial \<open>null\<close> that enables every agent, \<open>es_rep\<close> the one that the latest status reports;
  \<open>es_applied\<close> are the switches whose write has been answered. A write that fails stores nothing. Every
  status reports at least the agents \<open>ids\<close>.
\<close>

record enabled_system =
  es_queue :: enabled_world
  es_hist :: "string list option list"
  es_rep :: nat
  es_applied :: "(string \<times> bool) list"

datatype enabled_event =
    Switch string bool
  | EntriesSeen "string list"
  | BeginWrite
  | Answered "json daemon_result"
  | StatusArrives device_status nat

definition covers :: "string list \<Rightarrow> device_status \<Rightarrow> bool" where
  "covers ids s = list_all (\<lambda>i. i \<in> as_id ` set (st_agents s)) ids"

text \<open>A new list differs from every one that a status may still report.\<close>

definition fresh_list :: "nat \<Rightarrow> string list option list \<Rightarrow> string list \<Rightarrow> bool" where
  "fresh_list rep hist v = list_all (\<lambda>k. \<not> sameIds (hist ! k) v) [rep..<length hist]"

definition begin_write :: "enabled_system \<Rightarrow> enabled_system option" where
  "begin_write w = (case (eq_running (es_queue w), eq_queue (es_queue w)) of
     (None, (i, enable) # rest) \<Rightarrow>
       (let q = start_write i enable ((es_queue w)\<lparr>eq_queue := rest\<rparr>)
        in Some (w\<lparr>es_queue := q, es_applied := (if eq_running q = None then es_applied w @ [(i, enable)] else es_applied w)\<rparr>))
   | _ \<Rightarrow> None)"

definition answer_write :: "(nat \<Rightarrow> string list option list \<Rightarrow> string list \<Rightarrow> bool) \<Rightarrow> json daemon_result \<Rightarrow> enabled_system \<Rightarrow> enabled_system option" where
  "answer_write new result w = (case (eq_running (es_queue w), result) of
     (Some (i, enable, next), Inl error) \<Rightarrow> Some (w\<lparr>es_queue := write_answered next result (es_queue w)\<rparr>)
   | (Some (i, enable, next), Inr settings) \<Rightarrow>
       (let v = savedList settings next
        in given (distinct v \<and> set v = set next \<and> new (es_rep w) (es_hist w) v)
          (w\<lparr>es_queue := write_answered next result (es_queue w), es_hist := es_hist w @ [Some v], es_applied := es_applied w @ [(i, enable)]\<rparr>))
   | _ \<Rightarrow> None)"

definition status_arrives :: "string list \<Rightarrow> device_status \<Rightarrow> nat \<Rightarrow> enabled_system \<Rightarrow> enabled_system option" where
  "status_arrives ids s k w = given (es_rep w \<le> k \<and> k < length (es_hist w) \<and> agrees sameIds (status_list s) (es_hist w ! k) \<and>
       opt_all distinct (status_list s) \<and> map_option st_installation_id (eq_status (es_queue w)) = Some (st_installation_id s) \<and> covers ids s)
     (w\<lparr>es_queue := status_changed (Some s) (es_queue w), es_rep := k\<rparr>)"

fun enabled_step :: "string list \<Rightarrow> (nat \<Rightarrow> string list option list \<Rightarrow> string list \<Rightarrow> bool) \<Rightarrow> enabled_event \<Rightarrow> enabled_system \<Rightarrow> enabled_system option" where
  "enabled_step ids new (Switch i enable) w = Some (w\<lparr>es_queue := setAgentEnabled i enable (es_queue w)\<rparr>)"
| "enabled_step ids new (EntriesSeen es) w = Some (w\<lparr>es_queue := (es_queue w)\<lparr>eq_entryIds := es\<rparr>\<rparr>)"
| "enabled_step ids new BeginWrite w = begin_write w"
| "enabled_step ids new (Answered result) w = answer_write new result w"
| "enabled_step ids new (StatusArrives s k) w = status_arrives ids s k w"

definition enabled_start :: "device_status \<Rightarrow> enabled_system" where
  "enabled_start s = \<lparr>es_queue = enabled_init (Some s), es_hist = [status_list s], es_rep = 0, es_applied = []\<rparr>"

text \<open>What the switches ask for: the last applied one of an agent, else the list at the start.\<close>

definition wanted :: "string list option \<Rightarrow> (string \<times> bool) list \<Rightarrow> string \<Rightarrow> bool" where
  "wanted initial applied j = fold (\<lambda>(i, enable) on. if i = j then enable else on) applied (isAgentEnabled j initial)"

lemma wanted_snoc: "wanted initial (applied @ [(i, enable)]) j = (if i = j then enable else wanted initial applied j)"
  by (simp add: wanted_def)

definition queue_ok :: "string list \<Rightarrow> enabled_system \<Rightarrow> bool" where
  "queue_ok ids w \<longleftrightarrow> (\<exists>st. eq_status (es_queue w) = Some st \<and> covers ids st \<and>
     enabled.in_step (eq_lastSaved (es_queue w)) st (es_hist w) (es_rep w))"

definition pending_ok :: "string list \<Rightarrow> enabled_system \<Rightarrow> bool" where
  "pending_ok ids w \<longleftrightarrow> (\<forall>i enable next. eq_running (es_queue w) = Some (i, enable, next) \<longrightarrow>
     (\<forall>j\<in>set ids. j \<in> set next \<longleftrightarrow> (if j = i then enable else isAgentEnabled j (last (es_hist w)))))"

definition applied_ok :: "string list \<Rightarrow> string list option \<Rightarrow> enabled_system \<Rightarrow> bool" where
  "applied_ok ids initial w \<longleftrightarrow> (\<forall>j\<in>set ids. isAgentEnabled j (last (es_hist w)) = wanted initial (es_applied w) j)"

definition enabled_ok :: "string list \<Rightarrow> string list option \<Rightarrow> enabled_system \<Rightarrow> bool" where
  "enabled_ok ids initial w \<longleftrightarrow> queue_ok ids w \<and> pending_ok ids w \<and> applied_ok ids initial w"

lemma agrees_enabled:
  assumes "agrees sameIds a b" and "opt_all distinct a" and "opt_all distinct b"
  shows "isAgentEnabled j a = isAgentEnabled j b"
  using assms sameIds_distinct by (cases a; cases b) (auto simp: agrees_def isAgentEnabled_def sameIds_def)

lemma known_enabled_list:
  assumes "queue_ok ids w"
  shows "isAgentEnabled j (knownEnabledAgents (es_queue w)) = isAgentEnabled j (last (es_hist w))" and "set ids \<subseteq> set (reportedAgentIds (es_queue w))"
proof -
  obtain st where st: "eq_status (es_queue w) = Some st" "covers ids st" "enabled.in_step (eq_lastSaved (es_queue w)) st (es_hist w) (es_rep w)"
    using assms by (auto simp: queue_ok_def)
  note server = enabled.known_is_servers [OF st(3)]
  show "isAgentEnabled j (knownEnabledAgents (es_queue w)) = isAgentEnabled j (last (es_hist w))"
    using agrees_enabled [OF server] by (simp add: knownEnabledAgents_def st(1))
  show "set ids \<subseteq> set (reportedAgentIds (es_queue w))"
    using st(1,2) by (auto simp: covers_def list_all_iff reportedAgentIds_def)
qed



section \<open>No switch is lost\<close>

lemma begin_write_ok:
  assumes "enabled_ok ids initial w" and "begin_write w = Some w'"
  shows "enabled_ok ids initial w'"
proof -
  obtain i enable rest where running: "eq_running (es_queue w) = None" and queue: "eq_queue (es_queue w) = (i, enable) # rest"
    using assms(2) by (auto simp: begin_write_def split: option.splits list.splits)
  let ?w = "w\<lparr>es_queue := (es_queue w)\<lparr>eq_queue := rest\<rparr>\<rparr>"
  have q: "queue_ok ids ?w" using assms(1) by (simp add: enabled_ok_def queue_ok_def)
  have a: "applied_ok ids initial w" using assms(1) by (simp add: enabled_ok_def)
  have known: "knownEnabledAgents ((es_queue w)\<lparr>eq_queue := rest\<rparr>) = knownEnabledAgents (es_queue w)" by (simp add: knownEnabledAgents_def)
  have known_list: "isAgentEnabled j (knownEnabledAgents (es_queue w)) = isAgentEnabled j (last (es_hist w))" for j
    using known_enabled_list(1) [OF q, of j] known by simp
  show ?thesis
  proof (cases "isAgentEnabled i (knownEnabledAgents (es_queue w)) = enable")
    case True
    then have w': "w' = w\<lparr>es_queue := (es_queue w)\<lparr>eq_queue := rest, eq_results := eq_results (es_queue w) @ [Inr False]\<rparr>, es_applied := es_applied w @ [(i, enable)]\<rparr>"
      using assms(2) running queue by (simp add: begin_write_def start_write_def known Let_def)
    have "wanted initial (es_applied w @ [(i, enable)]) j = wanted initial (es_applied w) j" if "j \<in> set ids" for j
      using a that True known_list by (auto simp: wanted_snoc applied_ok_def)
    then show ?thesis using assms(1) running by (simp add: w' enabled_ok_def queue_ok_def pending_ok_def applied_ok_def)
  next
    case False
    let ?next = "nextEnabledAgents (knownEnabledAgents (es_queue w)) i enable (reportedAgentIds ((es_queue w)\<lparr>eq_queue := rest\<rparr>))"
    have w': "w' = w\<lparr>es_queue := (es_queue w)\<lparr>eq_queue := rest, eq_running := Some (i, enable, ?next)\<rparr>\<rparr>"
      using False assms(2) running queue by (simp add: begin_write_def start_write_def known Let_def)
    have "j \<in> set ?next \<longleftrightarrow> (if j = i then enable else isAgentEnabled j (last (es_hist w)))" if "j \<in> set ids" for j
    proof -
      have "j \<in> set (reportedAgentIds ((es_queue w)\<lparr>eq_queue := rest\<rparr>))" using known_enabled_list(2) [OF q] that by auto
      then have "isAgentEnabled j (Some ?next) = (if j = i then enable else isAgentEnabled j (knownEnabledAgents (es_queue w)))" by (rule toggle_changes_one)
      then show ?thesis using known_list by (simp add: isAgentEnabled_def)
    qed
    then show ?thesis using assms(1) by (simp add: w' enabled_ok_def queue_ok_def pending_ok_def applied_ok_def)
  qed
qed

lemma answer_write_ok:
  assumes "enabled_ok ids initial w" and "answer_write fresh_list result w = Some w'"
  shows "enabled_ok ids initial w'"
proof -
  obtain i enable new where running: "eq_running (es_queue w) = Some (i, enable, new)"
    using assms(2) by (auto simp: answer_write_def split: option.splits)
  have ok: "queue_ok ids w" "pending_ok ids w" "applied_ok ids initial w" using assms(1) by (simp_all add: enabled_ok_def)
  then obtain st where st: "eq_status (es_queue w) = Some st" "covers ids st" "enabled.in_step (eq_lastSaved (es_queue w)) st (es_hist w) (es_rep w)"
    by (auto simp: queue_ok_def)
  show ?thesis
  proof (cases result)
    case (Inl error)
    then have w': "w' = w\<lparr>es_queue := (es_queue w)\<lparr>eq_running := None, eq_results := eq_results (es_queue w) @ [Inl error]\<rparr>\<rparr>"
      using assms(2) running by (simp add: answer_write_def write_answered_def)
    then show ?thesis using assms(1) by (simp add: w' enabled_ok_def queue_ok_def pending_ok_def applied_ok_def)
  next
    case (Inr settings)
    let ?v = "savedList settings new"
    have v: "distinct ?v" "set ?v = set new" "fresh_list (es_rep w) (es_hist w) ?v"
      and w': "w' = w\<lparr>es_queue := write_answered new result (es_queue w), es_hist := es_hist w @ [Some ?v], es_applied := es_applied w @ [(i, enable)]\<rparr>"
      using assms(2) running Inr by (simp_all add: answer_write_def Let_def)
    have "enabled.in_step (remember_enabled ?v st (eq_lastSaved (es_queue w))) st (es_hist w @ [Some ?v]) (es_rep w)"
      using v(1,3) by (intro enabled.in_step_wrote [OF st(3)]) (auto simp: fresh_list_def list_all_iff)
    then have "queue_ok ids w'" using st(1,2) by (simp add: queue_ok_def w' write_answered_def Inr)
    moreover have "j \<in> set ?v \<longleftrightarrow> wanted initial (es_applied w @ [(i, enable)]) j" if "j \<in> set ids" for j
      using ok(2,3) running v(2) that by (auto simp: pending_ok_def applied_ok_def wanted_snoc)
    ultimately show ?thesis by (simp add: enabled_ok_def w' pending_ok_def applied_ok_def write_answered_def Inr isAgentEnabled_def)
  qed
qed

lemma status_arrives_ok:
  assumes "enabled_ok ids initial w" and "status_arrives ids s k w = Some w'"
  shows "enabled_ok ids initial w'"
proof -
  have k: "es_rep w \<le> k" "k < length (es_hist w)" "agrees sameIds (status_list s) (es_hist w ! k)" "opt_all distinct (status_list s)"
    "map_option st_installation_id (eq_status (es_queue w)) = Some (st_installation_id s)" "covers ids s"
    and w': "w' = w\<lparr>es_queue := status_changed (Some s) (es_queue w), es_rep := k\<rparr>" using assms(2) by (simp_all add: status_arrives_def)
  obtain st where st: "eq_status (es_queue w) = Some st" "enabled.in_step (eq_lastSaved (es_queue w)) st (es_hist w) (es_rep w)"
    using assms(1) by (auto simp: enabled_ok_def queue_ok_def)
  have "enabled.in_step (observe_enabled (Some s) (eq_lastSaved (es_queue w))) s (es_hist w) k"
    using k st(1) by (intro enabled.in_step_status [OF st(2)]) auto
  then show ?thesis using assms(1) k(6) by (simp add: enabled_ok_def w' queue_ok_def pending_ok_def applied_ok_def status_changed_def)
qed

lemma enabled_step_ok:
  assumes "enabled_ok ids initial w" and "enabled_step ids fresh_list e w = Some w'"
  shows "enabled_ok ids initial w'"
proof (cases e)
  case BeginWrite
  then show ?thesis using begin_write_ok [OF assms(1)] assms(2) by simp
next
  case (Answered result)
  then show ?thesis using answer_write_ok [OF assms(1)] assms(2) by simp
next
  case (StatusArrives s k)
  then show ?thesis using status_arrives_ok [OF assms(1)] assms(2) by simp
qed (use assms in \<open>auto simp: enabled_ok_def queue_ok_def pending_ok_def applied_ok_def setAgentEnabled_def\<close>)

lemma enabled_start_ok:
  assumes "opt_all distinct (status_list s)" and "covers ids s"
  shows "enabled_ok ids (status_list s) (enabled_start s)"
proof -
  have "agrees sameIds (status_list s) (status_list s)" using assms(1) by (cases "status_list s") (simp_all add: agrees_def sameIds_distinct)
  then have "enabled.in_step None s [status_list s] 0" using assms(1) by (intro enabled.in_step_start) (simp_all add: held_enabled_def)
  then show ?thesis using assms(2)
    by (simp add: enabled_ok_def queue_ok_def pending_ok_def applied_ok_def enabled_start_def enabled_init_def wanted_def)
qed


lemma enabled_events:
  assumes "opt_all distinct (status_list s)" and "covers ids s"
  shows "event_invariant (enabled_step ids fresh_list) (enabled_start s) (enabled_ok ids (status_list s))"
  using enabled_start_ok [OF assms] enabled_step_ok by unfold_locales

definition agent_named :: "string \<Rightarrow> agent_status" where
  "agent_named i = \<lparr>as_id = i, as_state = ''idle'', as_installed = True, as_configured = True, as_receiving = False, as_broken = False,
     as_integration = \<lparr>ai_state = ''installed'', ai_config_path = '''', ai_problems = None\<rparr>\<rparr>"

definition three_ids :: "string list" where
  "three_ids = [''claude_code'', ''codex_cli'', ''pi_cli'']"

definition status_with :: "string list \<Rightarrow> device_status" where
  "status_with enabled = (sample_device ''active'')\<lparr>st_capture := (sample_capture ''active'')\<lparr>cp_enabled_agents := Some enabled\<rparr>,
     st_agents := map agent_named three_ids\<rparr>"

definition stored :: "string list \<Rightarrow> enabled_event" where
  "stored xs = Answered (Inr (JObj [(''enabled_agents'', JArr (map JStr xs))]))"

definition two_switches :: "enabled_event list" where
  "two_switches = [Switch ''codex_cli'' True, Switch ''pi_cli'' True, BeginWrite, stored [''codex_cli'', ''claude_code''],
     StatusArrives (status_with [''claude_code'']) 0, BeginWrite, stored [''claude_code'', ''codex_cli'', ''pi_cli''],
     StatusArrives (status_with [''claude_code'', ''codex_cli'']) 1]"



definition on_and_off :: "enabled_event list" where
  "on_and_off = [Switch ''codex_cli'' True, BeginWrite, stored [''claude_code'', ''codex_cli''],
     Switch ''codex_cli'' False, BeginWrite, stored [''claude_code''],
     StatusArrives (status_with [''claude_code'', ''codex_cli'']) 1,
     Switch ''pi_cli'' True, BeginWrite, stored [''claude_code'', ''codex_cli'', ''pi_cli'']]"

text \<open>
  Without that condition a switch is undone. An agent is turned on and off again before any status
  has reported the first write. The second answer equals what the last status said, so the module
  takes the statuses for caught up, and believes the status of the first write that arrives next. The
  following switch of another agent sends the list of that status, and the agent that was turned off
  is captured again.
\<close>

lemma switched_off_agent_returns:
  "\<exists>w. run_events (enabled_step three_ids (\<lambda>_ _ _. True)) on_and_off (enabled_start (status_with [''claude_code''])) = Some w \<and>
     es_applied w = [(''codex_cli'', True), (''codex_cli'', False), (''pi_cli'', True)] \<and>
     last (es_hist w) = Some [''claude_code'', ''codex_cli'', ''pi_cli'']"
proof -
  have "map_option (\<lambda>w. (es_applied w, last (es_hist w))) (run_events (enabled_step three_ids (\<lambda>_ _ _. True)) on_and_off (enabled_start (status_with [''claude_code'']))) =
    Some ([(''codex_cli'', True), (''codex_cli'', False), (''pi_cli'', True)], Some [''claude_code'', ''codex_cli'', ''pi_cli''])" by code_simp
  then show ?thesis by auto
qed

text \<open>
  A write that is answered after the app was connected to another installation is remembered for that
  installation: its list is shown, and built upon, in place of the one the new installation reports.
\<close>

lemma write_follows_installation:
  "let s1 = status_with [''claude_code'']; s2 = (status_with [''pi_cli''])\<lparr>st_installation_id := ''i2''\<rparr>;
       w1 = start_write ''codex_cli'' True (enabled_init (Some s1));
       w2 = write_answered [''claude_code'', ''codex_cli''] (Inr JNull) (status_changed (Some s2) w1)
   in eq_running w1 = Some (''codex_cli'', True, [''claude_code'', ''codex_cli'']) \<and> knownEnabledAgents w2 = Some [''claude_code'', ''codex_cli'']"
  by code_simp

end
