(* ===== verification/Rules_Store.thy ===== *)
theory Rules_Store
  imports Settings_Queue JS_Text
begin

text \<open>
  The capture rules of an installation (\<open>screens/projects/rules-store.ts\<close>): automatic matching and
  the excluded folders, written as a whole, with the confirmation of a write by the statuses, by a
  timer and by a status fetched directly; and the check of a typed rule
  (\<open>screens/projects/rules-validation.ts\<close>). Saved rules are compared by identity in the source:
  \<open>sr_ref\<close> is the identity of the object. The world adds the timers and the fetches that are pending.
\<close>


section \<open>Rules\<close>

record rules =
  ru_auto_match_repos :: bool
  ru_exclude_globs :: "string list"

record settings_update =
  su_auto_match_repos :: "bool option"
  su_exclude_globs :: "string list option"

record saved_rules =
  sr_ref :: nat
  sr_rules :: rules
  sr_installationId :: string
  sr_caughtUp :: bool
  sr_timedOut :: bool

record rules_cell =
  rc_saved :: "saved_rules option"
  rc_fresh :: nat
  rc_confirmTimer :: "nat option"
  rc_timers :: "(nat \<times> nat) list"
  rc_snapshots :: "nat list"
  rc_toasts :: nat

definition rulesFromStatus :: "device_status option \<Rightarrow> rules option" where
  "rulesFromStatus status = (case status of
     None \<Rightarrow> None
   | Some s \<Rightarrow> if \<not> cp_policy_cached (st_capture s) then None
       else Some \<lparr>ru_auto_match_repos = cp_auto_match_repos (st_capture s), ru_exclude_globs = cp_exclude_globs (st_capture s)\<rparr>)"

definition sameRules :: "rules option \<Rightarrow> rules \<Rightarrow> bool" where
  "sameRules a b = (case a of
     None \<Rightarrow> False
   | Some r \<Rightarrow> if ru_auto_match_repos r \<noteq> ru_auto_match_repos b then False
       else let wanted = js_unique (ru_exclude_globs b); reported = js_unique (ru_exclude_globs r)
         in length wanted = length reported \<and> list_all (\<lambda>g. g \<in> set reported) wanted)"


section \<open>The saved rules\<close>

text \<open>A new object in the store, a timer with a new handle, and \<open>clearTimeout(confirmTimer)\<close>.\<close>

definition put_saved :: "saved_rules \<Rightarrow> rules_cell \<Rightarrow> rules_cell" where
  "put_saved s c = c\<lparr>rc_saved := Some (s\<lparr>sr_ref := rc_fresh c\<rparr>), rc_fresh := rc_fresh c + 1\<rparr>"

definition set_confirm_timer :: "nat \<Rightarrow> rules_cell \<Rightarrow> rules_cell" where
  "set_confirm_timer ref c = c\<lparr>rc_confirmTimer := Some (rc_fresh c), rc_timers := rc_timers c @ [(rc_fresh c, ref)], rc_fresh := rc_fresh c + 1\<rparr>"

definition clear_confirm_timer :: "rules_cell \<Rightarrow> rules_cell" where
  "clear_confirm_timer c = c\<lparr>rc_timers := filter (\<lambda>t. Some (fst t) \<noteq> rc_confirmTimer c) (rc_timers c)\<rparr>"

definition forget_rules :: "rules_cell \<Rightarrow> rules_cell" where
  "forget_rules c = (clear_confirm_timer c)\<lparr>rc_saved := None\<rparr>"

definition markCaughtUp :: "rules_cell \<Rightarrow> rules_cell" where
  "markCaughtUp c = (case rc_saved c of
     None \<Rightarrow> c
   | Some s \<Rightarrow> if sr_caughtUp s then c else put_saved (s\<lparr>sr_caughtUp := True, sr_timedOut := False\<rparr>) (clear_confirm_timer c))"

definition observe_rules :: "device_status option \<Rightarrow> rules_cell \<Rightarrow> rules_cell" where
  "observe_rules status c = (case rc_saved c of
     None \<Rightarrow> c
   | Some s \<Rightarrow> (case status of
       None \<Rightarrow> forget_rules c
     | Some st \<Rightarrow> if st_installation_id st \<noteq> sr_installationId s then forget_rules c
         else if sameRules (rulesFromStatus status) (sr_rules s) then markCaughtUp c else c))"

text \<open>\<open>confirmBySnapshot\<close>: when its timer fires, up to the \<open>await\<close>; and what the fetched status does.\<close>

definition confirm_begins :: "nat \<Rightarrow> rules_cell \<Rightarrow> rules_cell" where
  "confirm_begins expected c = (case rc_saved c of
     None \<Rightarrow> c
   | Some s \<Rightarrow> if sr_ref s \<noteq> expected then c
       else if sr_timedOut s then c\<lparr>rc_snapshots := rc_snapshots c @ [expected]\<rparr>
       else (put_saved (s\<lparr>sr_timedOut := True\<rparr>) c)\<lparr>rc_snapshots := rc_snapshots c @ [rc_fresh c]\<rparr>)"

definition confirm_timer_fires :: "nat \<Rightarrow> nat \<Rightarrow> rules_cell \<Rightarrow> rules_cell" where
  "confirm_timer_fires handle expected c = confirm_begins expected (c\<lparr>rc_timers := remove1 (handle, expected) (rc_timers c)\<rparr>)"

definition confirm_fetched :: "nat \<Rightarrow> device_status daemon_result \<Rightarrow> rules_cell \<Rightarrow> rules_cell" where
  "confirm_fetched waiting fetched c0 =
     (let c = c0\<lparr>rc_snapshots := remove1 waiting (rc_snapshots c0)\<rparr> in case rc_saved c of
        None \<Rightarrow> c
      | Some s \<Rightarrow> if sr_ref s \<noteq> waiting then c
          else let snapshot = (case fetched of Inr st \<Rightarrow> Some st | Inl _ \<Rightarrow> None) in
            if snapshot \<noteq> None \<and> map_option st_installation_id snapshot \<noteq> Some (sr_installationId s) then forget_rules c
            else case rulesFromStatus snapshot of
                None \<Rightarrow> set_confirm_timer waiting c
              | Some r \<Rightarrow> if sameRules (Some r) (sr_rules s) then put_saved (s\<lparr>sr_timedOut := False\<rparr>) c
                  else (put_saved (s\<lparr>sr_rules := r, sr_timedOut := False\<rparr>) c)\<lparr>rc_toasts := rc_toasts c + 1\<rparr>)"

definition remember_rules :: "rules \<Rightarrow> device_status \<Rightarrow> rules_cell \<Rightarrow> rules_cell" where
  "remember_rules r st c0 =
     (let c = clear_confirm_timer c0; caughtUp = sameRules (rulesFromStatus (Some st)) r;
          written = \<lparr>sr_ref = 0, sr_rules = r, sr_installationId = st_installation_id st, sr_caughtUp = caughtUp, sr_timedOut = False\<rparr>;
          c1 = put_saved written c
      in if caughtUp then c1 else set_confirm_timer (rc_fresh c) c1)"

definition known_rules :: "device_status option \<Rightarrow> rules_cell \<Rightarrow> rules option" where
  "known_rules status c = (case rc_saved c of
     Some s \<Rightarrow> if \<not> sr_caughtUp s then Some (sr_rules s) else rulesFromStatus status
   | None \<Rightarrow> rulesFromStatus status)"

definition rulesAwaitingConfirmation :: "rules_cell \<Rightarrow> bool" where
  "rulesAwaitingConfirmation c = (case rc_saved c of Some s \<Rightarrow> \<not> sr_caughtUp s \<and> sr_timedOut s | None \<Rightarrow> False)"

definition answeredRules :: "json \<Rightarrow> rules \<Rightarrow> rules" where
  "answeredRules v sent =
     \<lparr>ru_auto_match_repos = (case jfield v ''auto_match_repos'' of Some (JBool b) \<Rightarrow> b | _ \<Rightarrow> ru_auto_match_repos sent),
      ru_exclude_globs = (case jarr (jfield v ''exclude_globs'') of
         Some globs \<Rightarrow> (case json_strings globs of Some gs \<Rightarrow> gs | None \<Rightarrow> ru_exclude_globs sent)
       | None \<Rightarrow> ru_exclude_globs sent)\<rparr>"


section \<open>Writes\<close>

text \<open>
  \<open>rw_running\<close> is the write whose answer is pending: the installation and the rules it was built on, and the
  rules it expects. A queued write is the function that builds its update.
\<close>

record rules_world =
  rw_cell :: rules_cell
  rw_status :: "device_status option"
  rw_queue :: "(rules \<Rightarrow> settings_update) list"
  rw_running :: "(string \<times> rules \<times> rules) option"
  rw_results :: "rules daemon_result list"

definition knownRules :: "rules_world \<Rightarrow> rules option" where
  "knownRules w = known_rules (rw_status w) (rw_cell w)"

definition NOT_WRITABLE :: companion_error where
  "NOT_WRITABLE = ErrLocal ''rules not known''"

definition queueRulesWrite :: "(rules \<Rightarrow> settings_update) \<Rightarrow> rules_world \<Rightarrow> rules_world" where
  "queueRulesWrite build w = w\<lparr>rw_queue := rw_queue w @ [build]\<rparr>"

definition expected_rules :: "settings_update \<Rightarrow> rules \<Rightarrow> rules" where
  "expected_rules update current =
     \<lparr>ru_auto_match_repos = (case su_auto_match_repos update of Some b \<Rightarrow> b | None \<Rightarrow> ru_auto_match_repos current),
      ru_exclude_globs = (case su_exclude_globs update of Some gs \<Rightarrow> gs | None \<Rightarrow> ru_exclude_globs current)\<rparr>"

definition start_rules_write :: "(rules \<Rightarrow> settings_update) \<Rightarrow> rules_world \<Rightarrow> rules_world" where
  "start_rules_write build w = (case (knownRules w, rw_status w) of
     (Some current, Some status) \<Rightarrow>
       if rulesAwaitingConfirmation (rw_cell w) then w\<lparr>rw_results := rw_results w @ [Inl NOT_WRITABLE]\<rparr>
       else w\<lparr>rw_running := Some (st_installation_id status, current, expected_rules (build current) current)\<rparr>
   | _ \<Rightarrow> w\<lparr>rw_results := rw_results w @ [Inl NOT_WRITABLE]\<rparr>)"

definition rules_answered :: "string \<Rightarrow> rules \<Rightarrow> json daemon_result \<Rightarrow> rules_world \<Rightarrow> rules_world" where
  "rules_answered installation expected result w = (case result of
     Inl error \<Rightarrow> w\<lparr>rw_running := None, rw_results := rw_results w @ [Inl error]\<rparr>
   | Inr v \<Rightarrow> let r = answeredRules v expected in
       w\<lparr>rw_running := None, rw_results := rw_results w @ [Inr r],
         rw_cell := (case rw_status w of
            Some latest \<Rightarrow> if st_installation_id latest = installation then remember_rules r latest (rw_cell w) else rw_cell w
          | None \<Rightarrow> rw_cell w)\<rparr>)"

definition rules_status_changed :: "device_status option \<Rightarrow> rules_world \<Rightarrow> rules_world" where
  "rules_status_changed status w = w\<lparr>rw_status := status, rw_cell := observe_rules status (rw_cell w)\<rparr>"

definition rules_unreachable :: "rules_world \<Rightarrow> rules_world" where
  "rules_unreachable w = w\<lparr>rw_cell := forget_rules (rw_cell w)\<rparr>"

definition rules_init :: rules_world where
  "rules_init = \<lparr>rw_cell = \<lparr>rc_saved = None, rc_fresh = 0, rc_confirmTimer = None, rc_timers = [], rc_snapshots = [], rc_toasts = 0\<rparr>,
     rw_status = None, rw_queue = [], rw_running = None, rw_results = []\<rparr>"

datatype rules_event =
    QueueWrite "rules \<Rightarrow> settings_update"
  | BeginRulesWrite
  | RulesAnswer "json daemon_result"
  | RulesStatus "device_status option"
  | RulesUnreachable
  | TimerFires nat nat
  | SnapshotAnswer nat "device_status daemon_result"

definition begin_rules_write :: "rules_world \<Rightarrow> rules_world option" where
  "begin_rules_write w = (case (rw_running w, rw_queue w) of
     (None, build # rest) \<Rightarrow> Some (start_rules_write build (w\<lparr>rw_queue := rest\<rparr>))
   | _ \<Rightarrow> None)"

definition answer_rules_write :: "json daemon_result \<Rightarrow> rules_world \<Rightarrow> rules_world option" where
  "answer_rules_write result w = (case rw_running w of
     Some (installation, current, expected) \<Rightarrow> Some (rules_answered installation expected result w)
   | None \<Rightarrow> None)"

fun rules_step :: "rules_event \<Rightarrow> rules_world \<Rightarrow> rules_world option" where
  "rules_step (QueueWrite build) w = Some (queueRulesWrite build w)"
| "rules_step BeginRulesWrite w = begin_rules_write w"
| "rules_step (RulesAnswer result) w = answer_rules_write result w"
| "rules_step (RulesStatus status) w = Some (rules_status_changed status w)"
| "rules_step RulesUnreachable w = Some (rules_unreachable w)"
| "rules_step (TimerFires handle expected) w =
     given ((handle, expected) \<in> set (rc_timers (rw_cell w))) (w\<lparr>rw_cell := confirm_timer_fires handle expected (rw_cell w)\<rparr>)"
| "rules_step (SnapshotAnswer waiting fetched) w =
     given (waiting \<in> set (rc_snapshots (rw_cell w))) (w\<lparr>rw_cell := confirm_fetched waiting fetched (rw_cell w)\<rparr>)"


section \<open>A typed rule\<close>

definition MAX_RULE_LENGTH :: nat where
  "MAX_RULE_LENGTH = 256"

definition MAX_RULES :: nat where
  "MAX_RULES = 50"

definition validateNewRule :: "string \<Rightarrow> string list \<Rightarrow> string + string" where
  "validateNewRule typed current =
     (if CHR 0x0D \<in> set typed \<or> CHR 0x0A \<in> set typed then Inl ''Keep the pattern on one line.''
      else let rule = js_trim typed in
        if rule = '''' then Inl ''Type a folder pattern, like ~/clients/**.''
        else if MAX_RULE_LENGTH < length rule then Inl (''Keep the pattern to '' @ show_nat MAX_RULE_LENGTH @ '' characters or fewer.'')
        else if rule \<in> set current then Inl ''That rule is already in the list.''
        else if MAX_RULES \<le> length current then Inl (''You can have up to '' @ show_nat MAX_RULES @ '' rules. Remove one first.'')
        else Inr rule)"



section \<open>A write that goes unconfirmed is always followed up\<close>

definition timers_ok :: "rules_cell \<Rightarrow> bool" where
  "timers_ok c \<longleftrightarrow> rc_timers c = [] \<or> (\<exists>h s. rc_timers c = [(h, sr_ref s)] \<and> rc_confirmTimer c = Some h \<and> rc_saved c = Some s \<and>
     \<not> sr_caughtUp s \<and> sr_ref s \<notin> set (rc_snapshots c))"

definition snapshots_ok :: "rules_cell \<Rightarrow> bool" where
  "snapshots_ok c \<longleftrightarrow> distinct (rc_snapshots c) \<and> (\<forall>r\<in>set (rc_snapshots c). r < rc_fresh c) \<and>
     (\<forall>s. rc_saved c = Some s \<longrightarrow> sr_ref s < rc_fresh c \<and> (sr_ref s \<in> set (rc_snapshots c) \<longrightarrow> sr_timedOut s))"

definition waiting_ok :: "rules_cell \<Rightarrow> bool" where
  "waiting_ok c \<longleftrightarrow> (\<forall>s. rc_saved c = Some s \<longrightarrow> sr_timedOut s \<longrightarrow> \<not> sr_caughtUp s \<and> (sr_ref s \<in> set (rc_snapshots c) \<or> rc_timers c \<noteq> []))"

definition cell_ok :: "rules_cell \<Rightarrow> bool" where
  "cell_ok c \<longleftrightarrow> timers_ok c \<and> snapshots_ok c \<and> waiting_ok c"

lemmas cell_defs = cell_ok_def timers_ok_def snapshots_ok_def waiting_ok_def

lemma cleared_timers: "timers_ok c \<Longrightarrow> rc_timers (clear_confirm_timer c) = []"
  by (auto simp: timers_ok_def clear_confirm_timer_def)

lemma clear_confirm_timer_sel [simp]:
  "rc_saved (clear_confirm_timer c) = rc_saved c" "rc_fresh (clear_confirm_timer c) = rc_fresh c" "rc_snapshots (clear_confirm_timer c) = rc_snapshots c"
  by (simp_all add: clear_confirm_timer_def)

lemma forget_rules_ok: "cell_ok c \<Longrightarrow> cell_ok (forget_rules c)"
  using cleared_timers by (auto simp: forget_rules_def cell_defs)

lemma fresh_snapshot: "snapshots_ok c \<Longrightarrow> rc_fresh c \<notin> set (rc_snapshots c)"
  by (auto simp: snapshots_ok_def)

lemma put_saved_ok:
  assumes "snapshots_ok c" and "rc_timers c = []" and "\<not> sr_timedOut s"
  shows "cell_ok (put_saved s c)"
  using assms fresh_snapshot [OF assms(1)] by (auto simp: put_saved_def cell_defs)

lemma markCaughtUp_ok:
  assumes "cell_ok c"
  shows "cell_ok (markCaughtUp c)"
proof -
  have "snapshots_ok (clear_confirm_timer c)" "rc_timers (clear_confirm_timer c) = []"
    using assms cleared_timers [of c] by (simp_all add: cell_ok_def snapshots_ok_def)
  then show ?thesis using assms put_saved_ok by (simp add: markCaughtUp_def split: option.split)
qed

lemma observe_rules_ok: "cell_ok c \<Longrightarrow> cell_ok (observe_rules status c)"
  using forget_rules_ok markCaughtUp_ok by (simp add: observe_rules_def split: option.split)

lemma remember_rules_ok:
  assumes "cell_ok c"
  shows "cell_ok (remember_rules r st c)"
proof -
  let ?c = "clear_confirm_timer c"
  define written where "written = \<lparr>sr_ref = 0, sr_rules = r, sr_installationId = st_installation_id st,
    sr_caughtUp = sameRules (rulesFromStatus (Some st)) r, sr_timedOut = False\<rparr>"
  have c: "snapshots_ok ?c" "rc_timers ?c = []" using assms cleared_timers [of c] by (simp_all add: cell_ok_def snapshots_ok_def)
  have put: "cell_ok (put_saved written ?c)" by (rule put_saved_ok [OF c]) (simp add: written_def)
  have "cell_ok (set_confirm_timer (rc_fresh ?c) (put_saved written ?c))" if "\<not> sr_caughtUp written"
    using put fresh_snapshot [OF c(1)] c(2) that by (auto simp: set_confirm_timer_def put_saved_def cell_defs)
  moreover have "remember_rules r st c = (if sr_caughtUp written then put_saved written ?c else set_confirm_timer (rc_fresh ?c) (put_saved written ?c))"
    by (simp add: remember_rules_def Let_def written_def)
  ultimately show ?thesis using put by simp
qed

lemma timer_fires_ok:
  assumes "cell_ok c" and "(h, expected) \<in> set (rc_timers c)"
  shows "cell_ok (confirm_timer_fires h expected c)"
proof -
  obtain s where s: "rc_timers c = [(h, expected)]" "rc_saved c = Some s" "sr_ref s = expected" "\<not> sr_caughtUp s" "expected \<notin> set (rc_snapshots c)"
    using assms by (auto simp: cell_ok_def timers_ok_def)
  have snap: "snapshots_ok c" using assms(1) by (simp add: cell_ok_def)
  show ?thesis
    using s snap fresh_snapshot [OF snap] by (auto simp: confirm_timer_fires_def confirm_begins_def put_saved_def cell_defs)
qed

lemma confirm_fetched_ok:
  assumes "cell_ok c" and "waiting \<in> set (rc_snapshots c)"
  shows "cell_ok (confirm_fetched waiting fetched c)"
proof -
  define c1 where "c1 = c\<lparr>rc_snapshots := remove1 waiting (rc_snapshots c)\<rparr>"
  have ok1: "snapshots_ok c1" "timers_ok c1" "waiting \<notin> set (rc_snapshots c1)"
    using assms by (auto simp: c1_def cell_defs)
  show ?thesis
  proof (cases "\<exists>s. rc_saved c = Some s \<and> sr_ref s = waiting")
    case False
    then have "confirm_fetched waiting fetched c = c1" by (auto simp: confirm_fetched_def c1_def Let_def split: option.split)
    moreover have "waiting_ok c1" using assms(1) False by (auto simp: c1_def cell_ok_def waiting_ok_def)
    ultimately show ?thesis using ok1 by (simp add: cell_ok_def)
  next
    case True
    then obtain s where s: "rc_saved c = Some s" "sr_ref s = waiting" by blast
    then have t: "sr_timedOut s" "\<not> sr_caughtUp s" "rc_timers c = []" using assms by (auto simp: cell_defs)
    have "cell_ok (forget_rules c1)" using ok1 cleared_timers [OF ok1(2)] by (auto simp: forget_rules_def cell_defs)
    moreover have "cell_ok (set_confirm_timer waiting c1)"
      using ok1 s t by (auto simp: set_confirm_timer_def cell_defs c1_def)
    moreover have "cell_ok (put_saved s' c1)" if "\<not> sr_timedOut s'" for s'
      using that t(3) by (intro put_saved_ok [OF ok1(1)]) (simp_all add: c1_def)
    moreover have "cell_ok ((put_saved s' c1)\<lparr>rc_toasts := n\<rparr>)" if "\<not> sr_timedOut s'" for s' n
      using put_saved_ok [OF ok1(1) _ that] t(3) by (simp add: cell_defs c1_def)
    moreover have "rc_saved c1 = Some s" using s by (simp add: c1_def)
    ultimately show ?thesis using s(2)
      by (simp add: confirm_fetched_def Let_def c1_def [symmetric] split: option.split)
  qed
qed

lemma rules_step_ok:
  assumes ok: "cell_ok (rw_cell w)" and "rules_step e w = Some w'"
  shows "cell_ok (rw_cell w')"
proof (cases e)
  case BeginRulesWrite
  then show ?thesis using assms by (auto simp: begin_rules_write_def start_rules_write_def split: option.splits list.splits if_splits)
next
  case (RulesAnswer result)
  then show ?thesis using assms remember_rules_ok [OF ok]
    by (auto simp: answer_rules_write_def rules_answered_def Let_def split: option.splits sum.splits if_splits)
next
  case (TimerFires h expected)
  then show ?thesis using assms timer_fires_ok [OF ok] by auto
next
  case (SnapshotAnswer waiting fetched)
  then show ?thesis using assms confirm_fetched_ok [OF ok] by auto
qed (use assms observe_rules_ok [OF ok] forget_rules_ok [OF ok] in \<open>auto simp: queueRulesWrite_def rules_status_changed_def rules_unreachable_def\<close>)

interpretation rules: event_invariant rules_step rules_init "\<lambda>w. cell_ok (rw_cell w)"
proof
  show "cell_ok (rw_cell rules_init)" by (simp add: rules_init_def cell_defs)
qed (rule rules_step_ok)



section \<open>A write builds on the server's rules\<close>

definition held_rules :: "rules_cell \<Rightarrow> (rules \<times> string) option" where
  "held_rules c = (case rc_saved c of
     Some s \<Rightarrow> if sr_caughtUp s then None else Some (sr_rules s, sr_installationId s)
   | None \<Rightarrow> None)"

lemma sameRules_iff: "sameRules (Some a) b \<longleftrightarrow> ru_auto_match_repos a = ru_auto_match_repos b \<and> set (ru_exclude_globs a) = set (ru_exclude_globs b)"
proof -
  have "length xs = length ys \<and> list_all (\<lambda>g. g \<in> set ys) xs \<longleftrightarrow> set ys = set xs" if "distinct xs" "distinct ys" for xs ys :: "string list"
    using sameIds_distinct [OF that(2,1)] by (auto simp: sameIds_def)
  from this [of "js_unique (ru_exclude_globs b)" "js_unique (ru_exclude_globs a)"] show ?thesis by (simp add: sameRules_def Let_def)
qed

lemma held_put_saved: "held_rules (put_saved s c) = (if sr_caughtUp s then None else Some (sr_rules s, sr_installationId s))"
  by (simp add: held_rules_def put_saved_def)

lemma held_set_timer [simp]: "held_rules (set_confirm_timer r c) = held_rules c"
  by (simp add: held_rules_def set_confirm_timer_def)

abbreviation status_rules :: "device_status \<Rightarrow> rules option" where
  "status_rules st \<equiv> rulesFromStatus (Some st)"

interpretation ruleset: written_setting sameRules status_rules st_installation_id observe_rules remember_rules known_rules held_rules "\<lambda>_. True"
proof
  show "held_rules (observe_rules st c) = (case (held_rules c, st) of
      (Some (v, i), Some s) \<Rightarrow> if st_installation_id s \<noteq> i \<or> sameRules (status_rules s) v then None else Some (v, i) | _ \<Rightarrow> None)" for st c
    by (cases "rc_saved c"; cases st) (simp_all add: observe_rules_def forget_rules_def markCaughtUp_def held_rules_def put_saved_def)
  show "held_rules (remember_rules v st c) = (if sameRules (status_rules st) v then None else Some (v, st_installation_id st))" for v st c
    by (simp add: remember_rules_def Let_def held_put_saved)
  show "known_rules st c = (case held_rules c of Some (v, _) \<Rightarrow> Some v | None \<Rightarrow> Option.bind st status_rules)" for st c
    by (cases st) (simp_all add: known_rules_def held_rules_def rulesFromStatus_def split: option.split)
  show "\<not> sameRules None v" for v by (simp add: sameRules_def)
qed (simp_all add: sameRules_iff)

record rules_system =
  ry_world :: rules_world
  ry_hist :: "rules option list"
  ry_rep :: nat

text \<open>
  The module with a server whose successive rules are \<open>ry_hist\<close>. A report is a status of the same
  installation with rules not older than those reported last. A fetched status, unless it fails or the
  daemon has no policy, has the present rules.
\<close>

datatype rules_system_event = Local rules_event | Report device_status nat

definition stored_rules :: "json \<Rightarrow> rules_world \<Rightarrow> rules option" where
  "stored_rules v w = (case rw_running w of Some (installation, current, expected) \<Rightarrow> Some (answeredRules v expected) | None \<Rightarrow> None)"

definition fresh_rules :: "nat \<Rightarrow> rules option list \<Rightarrow> rules \<Rightarrow> bool" where
  "fresh_rules rep hist r = list_all (\<lambda>k. \<not> sameRules (hist ! k) r) [rep..<length hist]"

definition present_snapshot :: "device_status \<Rightarrow> rules_system \<Rightarrow> bool" where
  "present_snapshot st y = (map_option st_installation_id (rw_status (ry_world y)) = Some (st_installation_id st) \<and>
     (status_rules st = None \<or> agrees sameRules (status_rules st) (last (ry_hist y))))"

fun honest :: "rules_event \<Rightarrow> rules_system \<Rightarrow> bool" where
  "honest (RulesStatus _) y = False"
| "honest RulesUnreachable y = False"
| "honest (RulesAnswer (Inr v)) y = (case stored_rules v (ry_world y) of Some r \<Rightarrow> fresh_rules (ry_rep y) (ry_hist y) r | None \<Rightarrow> False)"
| "honest (SnapshotAnswer waiting (Inr st)) y = present_snapshot st y"
| "honest _ y = True"

fun stored_history :: "rules_event \<Rightarrow> rules_system \<Rightarrow> rules option list" where
  "stored_history (RulesAnswer (Inr v)) y = ry_hist y @ [stored_rules v (ry_world y)]"
| "stored_history _ y = ry_hist y"

fun rules_system_step :: "rules_system_event \<Rightarrow> rules_system \<Rightarrow> rules_system option" where
  "rules_system_step (Local e) y = (if honest e y then map_option (\<lambda>w. y\<lparr>ry_world := w, ry_hist := stored_history e y\<rparr>) (rules_step e (ry_world y)) else None)"
| "rules_system_step (Report st k) y = given (ry_rep y \<le> k \<and> k < length (ry_hist y) \<and> agrees sameRules (status_rules st) (ry_hist y ! k) \<and>
       map_option st_installation_id (rw_status (ry_world y)) = Some (st_installation_id st))
     (y\<lparr>ry_world := rules_status_changed (Some st) (ry_world y), ry_rep := k\<rparr>)"

definition rules_system_start :: "device_status \<Rightarrow> rules_system" where
  "rules_system_start st = \<lparr>ry_world = rules_status_changed (Some st) rules_init, ry_hist = [status_rules st], ry_rep = 0\<rparr>"

definition system_ok :: "rules_system \<Rightarrow> bool" where
  "system_ok y \<longleftrightarrow> (\<exists>st. rw_status (ry_world y) = Some st \<and> ruleset.in_step (rw_cell (ry_world y)) st (ry_hist y) (ry_rep y) \<and>
     cell_ok (rw_cell (ry_world y)) \<and>
     (\<forall>i current expected. rw_running (ry_world y) = Some (i, current, expected) \<longrightarrow>
        i = st_installation_id st \<and> agrees sameRules (Some current) (last (ry_hist y))))"

lemma system_okI:
  assumes "rw_status (ry_world y) = Some st" and "ruleset.in_step (rw_cell (ry_world y)) st (ry_hist y) (ry_rep y)" and "cell_ok (rw_cell (ry_world y))"
    and "\<And>i current expected. rw_running (ry_world y) = Some (i, current, expected) \<Longrightarrow>
      i = st_installation_id st \<and> agrees sameRules (Some current) (last (ry_hist y))"
  shows "system_ok y"
  using assms unfolding system_ok_def by blast

lemma system_okE:
  assumes "system_ok y"
  obtains st where "rw_status (ry_world y) = Some st" and "ruleset.in_step (rw_cell (ry_world y)) st (ry_hist y) (ry_rep y)" and "cell_ok (rw_cell (ry_world y))"
    and "\<And>i current expected. rw_running (ry_world y) = Some (i, current, expected) \<Longrightarrow>
      i = st_installation_id st \<and> agrees sameRules (Some current) (last (ry_hist y))"
  using assms unfolding system_ok_def by blast


lemma held_timer_fires: "held_rules (confirm_timer_fires h expected c) = held_rules c"
  by (simp add: confirm_timer_fires_def confirm_begins_def held_rules_def put_saved_def split: option.split)

lemma held_confirm_fetched:
  assumes "cell_ok c" and "waiting \<in> set (rc_snapshots c)" and step: "ruleset.in_step c st hist rep"
    and present: "\<And>st'. fetched = Inr st' \<Longrightarrow> st_installation_id st' = st_installation_id st \<and> (status_rules st' = None \<or> agrees sameRules (status_rules st') (last hist))"
  shows "held_rules (confirm_fetched waiting fetched c) = held_rules c"
proof (cases "\<exists>s. rc_saved c = Some s \<and> sr_ref s = waiting")
  case False
  then show ?thesis by (auto simp: confirm_fetched_def held_rules_def Let_def split: option.split)
next
  case True
  then obtain s where s: "rc_saved c = Some s" "sr_ref s = waiting" by blast
  then have "\<not> sr_caughtUp s" using assms(1,2) by (auto simp: cell_defs)
  then have held: "held_rules c = Some (sr_rules s, sr_installationId s)" by (simp add: held_rules_def s(1))
  then have server: "last hist = Some (sr_rules s)" "sr_installationId s = st_installation_id st"
    using step by (simp_all add: ruleset.in_step_def ruleset.caught_up_def)
  show ?thesis
  proof (cases fetched)
    case (Inl error)
    then show ?thesis using s by (simp add: confirm_fetched_def Let_def rulesFromStatus_def) (simp add: held_rules_def)
  next
    case (Inr st')
    have "st_installation_id st' = sr_installationId s" "status_rules st' = None \<or> sameRules (status_rules st') (sr_rules s)"
      using present [OF Inr] server by (simp_all add: agrees_def)
    then show ?thesis using s held \<open>\<not> sr_caughtUp s\<close>
      by (auto simp: confirm_fetched_def Let_def Inr set_confirm_timer_def put_saved_def held_rules_def split: option.split)
  qed
qed

lemma local_step_ok:
  assumes "system_ok y" and honest: "honest e y" and step: "rules_step e (ry_world y) = Some w"
  shows "system_ok (y\<lparr>ry_world := w, ry_hist := stored_history e y\<rparr>)"
proof -
  let ?w = "ry_world y"
  obtain st where st: "rw_status ?w = Some st" "ruleset.in_step (rw_cell ?w) st (ry_hist y) (ry_rep y)" "cell_ok (rw_cell ?w)"
    and run: "\<And>i current expected. rw_running ?w = Some (i, current, expected) \<Longrightarrow> i = st_installation_id st \<and> agrees sameRules (Some current) (last (ry_hist y))"
    using system_okE [OF assms(1)] by blast
  have cell: "cell_ok (rw_cell w)" by (rule rules_step_ok [OF st(3) step])
  show ?thesis
  proof (cases e)
    case (QueueWrite build)
    then have "w = queueRulesWrite build ?w" using step by simp
    then show ?thesis using st run QueueWrite by (intro system_okI [of _ st]) (simp_all add: queueRulesWrite_def)
  next
    case BeginRulesWrite
    then obtain build rest where w: "w = start_rules_write build (?w\<lparr>rw_queue := rest\<rparr>)" "rw_running ?w = None"
      using step by (auto simp: begin_rules_write_def split: option.splits list.splits)
    have known: "agrees sameRules (known_rules (Some st) (rw_cell ?w)) (last (ry_hist y))" by (rule ruleset.known_is_servers(1) [OF st(2)])
    have "i = st_installation_id st \<and> agrees sameRules (Some current) (last (ry_hist y))" if "rw_running w = Some (i, current, expected)" for i current expected
      using that w st(1) known by (auto simp: start_rules_write_def knownRules_def split: option.splits if_splits)
    moreover have "rw_status w = Some st" "rw_cell w = rw_cell ?w" using w st(1) by (simp_all add: start_rules_write_def split: option.splits)
    ultimately show ?thesis using st BeginRulesWrite by (intro system_okI [of _ st]) simp_all
  next
    case (RulesAnswer result)
    then obtain i current expected where running: "rw_running ?w = Some (i, current, expected)" and w: "w = rules_answered i expected result ?w"
      using step by (auto simp: answer_rules_write_def split: option.splits)
    have i: "i = st_installation_id st" using run [OF running] by simp
    show ?thesis
    proof (cases result)
      case (Inl error)
      then show ?thesis using st RulesAnswer w by (intro system_okI [of _ st]) (simp_all add: rules_answered_def)
    next
      case (Inr v)
      have stored: "stored_rules v ?w = Some (answeredRules v expected)" by (simp add: stored_rules_def running)
      have fresh: "\<not> sameRules (ry_hist y ! k) (answeredRules v expected)" if "ry_rep y \<le> k" "k < length (ry_hist y)" for k
        using honest that by (simp add: RulesAnswer Inr stored fresh_rules_def list_all_iff)
      have "ruleset.in_step (remember_rules (answeredRules v expected) st (rw_cell ?w)) st (ry_hist y @ [Some (answeredRules v expected)]) (ry_rep y)"
        by (rule ruleset.in_step_wrote [OF st(2) TrueI fresh])
      then show ?thesis using cell st(1) RulesAnswer w i stored by (intro system_okI [of _ st]) (simp_all add: rules_answered_def Inr Let_def)
    qed
  next
    case (TimerFires h expected)
    then have w: "w = ?w\<lparr>rw_cell := confirm_timer_fires h expected (rw_cell ?w)\<rparr>" using step by simp
    show ?thesis using st run cell TimerFires ruleset.in_step_held [OF held_timer_fires, of h expected "rw_cell ?w" st "ry_hist y" "ry_rep y"] w
      by (intro system_okI [of _ st]) simp_all
  next
    case (SnapshotAnswer waiting fetched)
    then have w: "w = ?w\<lparr>rw_cell := confirm_fetched waiting fetched (rw_cell ?w)\<rparr>" and mem: "waiting \<in> set (rc_snapshots (rw_cell ?w))" using step by simp_all
    have "held_rules (confirm_fetched waiting fetched (rw_cell ?w)) = held_rules (rw_cell ?w)"
      using honest st(1) by (intro held_confirm_fetched [OF st(3) mem st(2)]) (simp add: SnapshotAnswer present_snapshot_def)
    from ruleset.in_step_held [OF this, of st "ry_hist y" "ry_rep y"] show ?thesis
      using st run cell SnapshotAnswer w by (intro system_okI [of _ st]) simp_all
  qed (use honest in simp_all)
qed

lemma rules_system_step_ok:
  assumes ok: "system_ok y" and "rules_system_step e y = Some y'"
  shows "system_ok y'"
proof (cases e)
  case (Local a)
  then show ?thesis using assms(2) local_step_ok [OF ok] by (auto split: if_splits)
next
  case (Report s k)
  then have k: "ry_rep y \<le> k" "k < length (ry_hist y)" "agrees sameRules (status_rules s) (ry_hist y ! k)"
    "map_option st_installation_id (rw_status (ry_world y)) = Some (st_installation_id s)"
    and y': "y' = y\<lparr>ry_world := rules_status_changed (Some s) (ry_world y), ry_rep := k\<rparr>" using assms(2) by simp_all
  obtain st where st: "rw_status (ry_world y) = Some st" "ruleset.in_step (rw_cell (ry_world y)) st (ry_hist y) (ry_rep y)" "cell_ok (rw_cell (ry_world y))"
    and run: "\<And>i current expected. rw_running (ry_world y) = Some (i, current, expected) \<Longrightarrow> i = st_installation_id st \<and> agrees sameRules (Some current) (last (ry_hist y))"
    using system_okE [OF ok] by blast
  have same: "st_installation_id s = st_installation_id st" using k(4) st(1) by simp
  have "opt_all (\<lambda>_. True) (status_rules s)" by (cases "status_rules s") simp_all
  then have "ruleset.in_step (observe_rules (Some s) (rw_cell (ry_world y))) s (ry_hist y) k" by (rule ruleset.in_step_status [OF st(2) k(1,2,3) _ same])
  then show ?thesis using observe_rules_ok [OF st(3)] run same by (intro system_okI [of _ s]) (simp_all add: y' rules_status_changed_def)
qed

lemma rules_system_start_ok: "status_rules st = Some r \<Longrightarrow> system_ok (rules_system_start st)"
proof (rule system_okI [of _ st])
  assume r: "status_rules st = Some r"
  have none: "rw_cell (ry_world (rules_system_start st)) = rw_cell rules_init"
    by (simp add: rules_system_start_def rules_status_changed_def observe_rules_def rules_init_def)
  show "ruleset.in_step (rw_cell (ry_world (rules_system_start st))) st (ry_hist (rules_system_start st)) (ry_rep (rules_system_start st))"
    using ruleset.in_step_start [of "rw_cell rules_init" st "status_rules st"] unfolding none
    by (simp add: rules_system_start_def held_rules_def rules_init_def agrees_def r sameRules_iff)
  show "cell_ok (rw_cell (ry_world (rules_system_start st)))" unfolding none by (rule rules.start_inv)
qed (simp_all add: rules_system_start_def rules_status_changed_def rules_init_def)

lemma rules_system_events:
  "status_rules st = Some r \<Longrightarrow> event_invariant rules_system_step (rules_system_start st) system_ok"
  using rules_system_start_ok rules_system_step_ok by unfold_locales


definition add_glob :: "string \<Rightarrow> rules \<Rightarrow> settings_update" where
  "add_glob g r = \<lparr>su_auto_match_repos = None, su_exclude_globs = Some (ru_exclude_globs r @ [g])\<rparr>"

definition two_globs :: "rules_system_event list" where
  "two_globs = [Local (QueueWrite (add_glob ''a'')), Local (QueueWrite (add_glob ''b'')), Local BeginRulesWrite, Local (RulesAnswer (Inr JNull)),
     Report (sample_device ''active'') 0, Local (TimerFires 1 0), Local (SnapshotAnswer 2 (Inl ErrTimeout)), Local (TimerFires 3 2),
     Report (sample_device ''active'') 0]"



text \<open>What a typed rule becomes once it is accepted: one line, not blank, new, and within both limits.\<close>

lemma validateNewRule_accepts:
  assumes "validateNewRule typed current = Inr rule"
  shows "rule = js_trim typed" and "rule \<noteq> []" and "length rule \<le> MAX_RULE_LENGTH" and "rule \<notin> set current" and "length (current @ [rule]) \<le> MAX_RULES"
  using assms by (auto simp: validateNewRule_def Let_def split: if_splits)

end
