(* ===== verification/Onboarding.thy ===== *)
theory Onboarding
  imports Event_System Companion_Errors
begin

text \<open>
  The companion's first run (\<open>screens/onboarding/onboarding-store.ts\<close>,
  \<open>screens/onboarding/pairing-actions.ts\<close>, \<open>screens/onboarding/pairing-code.ts\<close>): the step shown, the
  pairing code the user approves in Backplane, and the daemon calls that start, resume and cancel a
  pairing. The world adds to the module's state the calls that have not answered, named by the attempt
  they belong to, and the pairings the app has cancelled. The URL parser of the platform is an
  argument, \<open>origin_of\<close>; the clock is read through \<open>now\<close>.
\<close>


section \<open>State\<close>

datatype onboarding_step = Welcome | Server | Code | Agents | Projects | Done

datatype view_swap = SwapNone | SwapLeft | SwapRight | SwapPush | SwapPop | SwapFade

datatype code_state = CodeWaiting | CodeOffline | CodeExpired | CodeDenied | CodeFailed string string

record pairing_ticket =
  pt_pairing_id :: string
  pt_user_code :: string
  pt_verification_uri :: string
  pt_expires_at :: string
  pt_endpoint :: "string option"
  pt_issued_at :: "string option"

record pending_pairing =
  pp_ticket :: pairing_ticket
  pp_endpoint :: string
  pp_deviceName :: "string option"
  pp_issuedAt :: int
  pp_codeState :: code_state

datatype project_outcome = Bound string | Skipped

record projects_progress =
  pr_defaultLevel :: "string option"
  pr_rows :: "string list option"
  pr_outcomes :: "(string, project_outcome) jsmap"

record onboarding_state =
  ob_chosenStep :: "onboarding_step option"
  ob_pairing :: "pending_pairing option"
  ob_connectedByDaemon :: bool
  ob_transition :: view_swap
  ob_focusNewCode :: bool
  ob_startingAttempt :: "nat option"
  ob_projects :: projects_progress
  ob_deviceNameDraft :: "string option"

definition NO_PROJECT_PROGRESS :: projects_progress where
  "NO_PROJECT_PROGRESS = \<lparr>pr_defaultLevel = None, pr_rows = None, pr_outcomes = []\<rparr>"

definition ONBOARDING_INITIAL :: onboarding_state where
  "ONBOARDING_INITIAL = \<lparr>ob_chosenStep = None, ob_pairing = None, ob_connectedByDaemon = False, ob_transition = SwapNone, ob_focusNewCode = False,
     ob_startingAttempt = None, ob_projects = NO_PROJECT_PROGRESS, ob_deviceNameDraft = None\<rparr>"

datatype pairing_check = Unasked | Asking | CheckAnswered

record onboarding_world =
  ow_state :: onboarding_state
  ow_attempt :: nat
  ow_sawConnected :: bool
  ow_check :: pairing_check
  ow_connected :: "bool option"
  ow_starts :: "(nat \<times> string \<times> string option) list"
  ow_disconnects :: "(nat \<times> string \<times> string option) list"
  ow_currents :: "nat list"
  ow_cancelled :: "string list"
  ow_errors :: "companion_error list"

definition onboarding_init :: onboarding_world where
  "onboarding_init = \<lparr>ow_state = ONBOARDING_INITIAL, ow_attempt = 0, ow_sawConnected = False, ow_check = Unasked, ow_connected = None,
     ow_starts = [], ow_disconnects = [], ow_currents = [], ow_cancelled = [], ow_errors = []\<rparr>"

abbreviation pairing_of :: "onboarding_world \<Rightarrow> pending_pairing option" where
  "pairing_of w \<equiv> ob_pairing (ow_state w)"

definition pairing_id_of :: "onboarding_world \<Rightarrow> string option" where
  "pairing_id_of w = map_option (pt_pairing_id \<circ> pp_ticket) (pairing_of w)"


section \<open>The store\<close>

definition effectiveStep :: "onboarding_state \<Rightarrow> bool \<Rightarrow> bool \<Rightarrow> onboarding_step" where
  "effectiveStep state online finishedBefore =
     (if online \<or> ob_connectedByDaemon state then
        (case ob_chosenStep state of Some s \<Rightarrow> if s \<in> set [Agents, Projects, Done] then s else Agents | None \<Rightarrow> Agents)
      else if ob_pairing state \<noteq> None then Code
      else case ob_chosenStep state of
          Some s \<Rightarrow> if s \<in> set [Welcome, Server] then s else if finishedBefore then Server else Welcome
        | None \<Rightarrow> if finishedBefore then Server else Welcome)"

definition nextPairingAttempt :: "onboarding_world \<Rightarrow> onboarding_world" where
  "nextPairingAttempt w = w\<lparr>ow_attempt := ow_attempt w + 1\<rparr>"

definition put_onboarding :: "onboarding_state \<Rightarrow> onboarding_world \<Rightarrow> onboarding_world" where
  "put_onboarding s w = w\<lparr>ow_state := s\<rparr>"

definition goToStep :: "onboarding_step \<Rightarrow> view_swap \<Rightarrow> onboarding_world \<Rightarrow> onboarding_world" where
  "goToStep step transition w =
     put_onboarding ((ow_state w)\<lparr>ob_chosenStep := Some step, ob_transition := transition, ob_startingAttempt := None\<rparr>) (nextPairingAttempt w)"

definition startPairingAttempt :: "onboarding_world \<Rightarrow> onboarding_world" where
  "startPairingAttempt w = put_onboarding ((ow_state w)\<lparr>ob_startingAttempt := Some (ow_attempt w + 1)\<rparr>) (nextPairingAttempt w)"

definition settlePairingAttempt :: "nat \<Rightarrow> onboarding_world \<Rightarrow> onboarding_world" where
  "settlePairingAttempt attempt w =
     (if ob_startingAttempt (ow_state w) = Some attempt then put_onboarding ((ow_state w)\<lparr>ob_startingAttempt := None\<rparr>) w else w)"

definition setDeviceNameDraft :: "string \<Rightarrow> onboarding_world \<Rightarrow> onboarding_world" where
  "setDeviceNameDraft draft w = put_onboarding ((ow_state w)\<lparr>ob_deviceNameDraft := Some draft\<rparr>) w"

definition updateProjects :: "(projects_progress \<Rightarrow> projects_progress) \<Rightarrow> onboarding_world \<Rightarrow> onboarding_world" where
  "updateProjects change w = put_onboarding ((ow_state w)\<lparr>ob_projects := change (ob_projects (ow_state w))\<rparr>) w"

definition issuedAtOf :: "int \<Rightarrow> pairing_ticket \<Rightarrow> int" where
  "issuedAtOf now ticket = (case Option.bind (pt_issued_at ticket) date_parse of Some t \<Rightarrow> t | None \<Rightarrow> now)"

definition beginPairing :: "int \<Rightarrow> pairing_ticket \<Rightarrow> string \<Rightarrow> string option \<Rightarrow> onboarding_world \<Rightarrow> onboarding_world" where
  "beginPairing now ticket endpoint deviceName w =
     (let pairing = \<lparr>pp_ticket = ticket, pp_endpoint = endpoint, pp_deviceName = deviceName, pp_issuedAt = issuedAtOf now ticket, pp_codeState = CodeWaiting\<rparr>;
          replacing = (pairing_of w \<noteq> None)
      in put_onboarding ((ow_state w)\<lparr>ob_pairing := Some pairing, ob_chosenStep := Some Code, ob_transition := (if replacing then SwapFade else SwapPush),
           ob_focusNewCode := replacing, ob_startingAttempt := None\<rparr>) w)"

definition consumeFocusNewCode :: "onboarding_world \<Rightarrow> bool \<times> onboarding_world" where
  "consumeFocusNewCode w =
     (if \<not> ob_focusNewCode (ow_state w) then (False, w) else (True, put_onboarding ((ow_state w)\<lparr>ob_focusNewCode := False\<rparr>) w))"

definition setCodeState :: "string \<Rightarrow> code_state \<Rightarrow> onboarding_world \<Rightarrow> onboarding_world" where
  "setCodeState pairingId codeState w = (case pairing_of w of
     Some p \<Rightarrow> if pt_pairing_id (pp_ticket p) \<noteq> pairingId then w
       else put_onboarding ((ow_state w)\<lparr>ob_pairing := Some (p\<lparr>pp_codeState := codeState\<rparr>)\<rparr>) w
   | None \<Rightarrow> w)"

definition abandonPairing :: "onboarding_world \<Rightarrow> onboarding_world" where
  "abandonPairing w = put_onboarding ((ow_state w)\<lparr>ob_pairing := None, ob_chosenStep := Some Server, ob_transition := SwapPop, ob_startingAttempt := None\<rparr>)
     (nextPairingAttempt w)"

definition markConnected :: "onboarding_world \<Rightarrow> onboarding_world" where
  "markConnected w = put_onboarding ((ow_state w)\<lparr>ob_pairing := None, ob_connectedByDaemon := True, ob_chosenStep := Some Agents, ob_transition := SwapPush,
     ob_startingAttempt := None\<rparr>) w"

definition resetOnboarding :: "onboarding_world \<Rightarrow> onboarding_world" where
  "resetOnboarding w = put_onboarding ONBOARDING_INITIAL ((nextPairingAttempt w)\<lparr>ow_sawConnected := False, ow_check := Unasked\<rparr>)"

definition observeConnectedStatus :: "bool \<Rightarrow> onboarding_world \<Rightarrow> onboarding_world" where
  "observeConnectedStatus online w =
     (if online then w\<lparr>ow_sawConnected := True\<rparr>
      else if \<not> ow_sawConnected w then w
      else put_onboarding (ONBOARDING_INITIAL\<lparr>ob_transition := SwapPop\<rparr>) ((nextPairingAttempt w)\<lparr>ow_sawConnected := False\<rparr>))"

text \<open>The screen watches the status store; a missing status is a gap of the stream and observed by nobody.\<close>

definition status_observed :: "bool option \<Rightarrow> onboarding_world \<Rightarrow> onboarding_world" where
  "status_observed online w =
     (let w1 = w\<lparr>ow_connected := online\<rparr> in case online of Some c \<Rightarrow> observeConnectedStatus c w1 | None \<Rightarrow> w1)"

definition claimPendingPairingCheck :: "onboarding_world \<Rightarrow> onboarding_world option" where
  "claimPendingPairingCheck w = (if ow_check w \<noteq> Unasked then None else Some (w\<lparr>ow_check := Asking\<rparr>))"

definition settlePendingPairingCheck :: "bool \<Rightarrow> onboarding_world \<Rightarrow> onboarding_world" where
  "settlePendingPairingCheck answered w = (if ow_check w = Asking then w\<lparr>ow_check := (if answered then CheckAnswered else Unasked)\<rparr> else w)"

text \<open>The mark of a finished first run in the browser storage, which may be unavailable.\<close>

definition ONBOARDING_FINISHED_KEY :: string where
  "ONBOARDING_FINISHED_KEY = ''backplane.companion.onboarding.finished''"

definition readOnboardingFinished :: "(string, string) jsmap option \<Rightarrow> bool" where
  "readOnboardingFinished storage = (case storage of Some m \<Rightarrow> jm_get m ONBOARDING_FINISHED_KEY = Some ''1'' | None \<Rightarrow> False)"

definition markOnboardingFinished :: "(string, string) jsmap option \<Rightarrow> (string, string) jsmap option" where
  "markOnboardingFinished storage = map_option (jm_set ONBOARDING_FINISHED_KEY ''1'') storage"


section \<open>Pairing\<close>

definition pair_cancel :: "string \<Rightarrow> onboarding_world \<Rightarrow> onboarding_world" where
  "pair_cancel pairingId w = w\<lparr>ow_cancelled := ow_cancelled w @ [pairingId]\<rparr>"

definition startPairing :: "string \<Rightarrow> string option \<Rightarrow> onboarding_world \<Rightarrow> onboarding_world" where
  "startPairing endpoint deviceName w =
     (let w1 = startPairingAttempt w in w1\<lparr>ow_starts := ow_starts w1 @ [(ow_attempt w1, endpoint, deviceName)]\<rparr>)"

definition pair_start_answered ::
  "int \<Rightarrow> nat \<times> string \<times> string option \<Rightarrow> pairing_ticket daemon_result \<Rightarrow> onboarding_world \<Rightarrow> onboarding_world" where
  "pair_start_answered now call result w0 = (case call of (attempt, endpoint, deviceName) \<Rightarrow>
     let w = settlePairingAttempt attempt (w0\<lparr>ow_starts := remove1 call (ow_starts w0)\<rparr>) in
     if attempt \<noteq> ow_attempt w then (case result of Inr ticket \<Rightarrow> pair_cancel (pt_pairing_id ticket) w | Inl _ \<Rightarrow> w)
     else case result of
         Inr ticket \<Rightarrow> beginPairing now ticket endpoint deviceName w
       | Inl error \<Rightarrow> if hasErrorCode error ''already_connected'' then markConnected w else w\<lparr>ow_errors := ow_errors w @ [error]\<rparr>)"

definition disconnectThenPair :: "string \<Rightarrow> string option \<Rightarrow> onboarding_world \<Rightarrow> onboarding_world" where
  "disconnectThenPair endpoint deviceName w =
     (let w1 = startPairingAttempt w in w1\<lparr>ow_disconnects := ow_disconnects w1 @ [(ow_attempt w1, endpoint, deviceName)]\<rparr>)"

definition disconnect_answered ::
  "nat \<times> string \<times> string option \<Rightarrow> unit daemon_result \<Rightarrow> onboarding_world \<Rightarrow> onboarding_world" where
  "disconnect_answered call result w0 = (case call of (attempt, endpoint, deviceName) \<Rightarrow>
     let w = settlePairingAttempt attempt (w0\<lparr>ow_disconnects := remove1 call (ow_disconnects w0)\<rparr>) in
     if attempt \<noteq> ow_attempt w then w
     else case result of Inl error \<Rightarrow> w\<lparr>ow_errors := ow_errors w @ [error]\<rparr> | Inr _ \<Rightarrow> startPairing endpoint deviceName w)"

definition cancelPairing :: "onboarding_world \<Rightarrow> onboarding_world" where
  "cancelPairing w = (let w1 = abandonPairing w in case pairing_id_of w of Some i \<Rightarrow> pair_cancel i w1 | None \<Rightarrow> w1)"

definition untouched :: "onboarding_world \<Rightarrow> bool" where
  "untouched w = (pairing_of w = None \<and> ob_chosenStep (ow_state w) = None \<and> \<not> ob_connectedByDaemon (ow_state w))"

definition resumePendingPairing :: "onboarding_world \<Rightarrow> onboarding_world" where
  "resumePendingPairing w =
     (if \<not> untouched w then w
      else case claimPendingPairingCheck w of
          None \<Rightarrow> w
        | Some w1 \<Rightarrow> let w2 = nextPairingAttempt w1 in w2\<lparr>ow_currents := ow_currents w2 @ [ow_attempt w2]\<rparr>)"

definition pair_current_answered ::
  "(string \<Rightarrow> string option) \<Rightarrow> int \<Rightarrow> nat \<Rightarrow> pairing_ticket option daemon_result \<Rightarrow> onboarding_world \<Rightarrow> onboarding_world" where
  "pair_current_answered origin_of now attempt result w0 =
     (let w1 = w0\<lparr>ow_currents := remove1 attempt (ow_currents w0)\<rparr> in case result of
        Inl _ \<Rightarrow> settlePendingPairingCheck False w1
      | Inr pending \<Rightarrow> let w = settlePendingPairingCheck True w1 in case pending of
          None \<Rightarrow> w
        | Some ticket \<Rightarrow>
            if ow_connected w = Some True then w
            else if attempt \<noteq> ow_attempt w \<or> \<not> untouched w then
              (if pairing_id_of w \<noteq> Some (pt_pairing_id ticket) then pair_cancel (pt_pairing_id ticket) w else w)
            else case (case pt_endpoint ticket of Some e \<Rightarrow> Some e | None \<Rightarrow> origin_of (pt_verification_uri ticket)) of
                Some endpoint \<Rightarrow> if endpoint \<noteq> '''' then beginPairing now ticket endpoint None w else w
              | None \<Rightarrow> w)"



section \<open>What the code card says\<close>

definition PAIRING_FAILED :: code_state where
  "PAIRING_FAILED = CodeFailed ''Pairing didn't finish'' ''Nothing was connected. Get a new code and try again.''"

definition codeStateForPairingEvent :: "string \<Rightarrow> code_state option" where
  "codeStateForPairingEvent state =
     (if state = ''denied'' then Some CodeDenied
      else if state = ''expired'' then Some CodeExpired
      else if state = ''failed'' then Some PAIRING_FAILED
      else None)"

definition codeStateForPollError :: "platform_copy \<Rightarrow> companion_error \<Rightarrow> code_state option" where
  "codeStateForPollError copy error =
     (if isDaemonDown error then None
      else Some (let code = errorCode error in
        if code = Some ''pairing_pending'' then CodeWaiting
        else if code = Some ''server_unreachable'' then CodeOffline
        else if code = Some ''pairing_expired'' then CodeExpired
        else if code = Some ''pairing_denied'' then CodeDenied
        else if code = Some KEYCHAIN_UNAVAILABLE then CodeFailed (pc_store_title copy) (pc_store_body copy)
        else if code = Some ''not_found'' then
          CodeFailed ''This code is no longer valid'' ''A newer pairing replaced it, or Companion restarted. Get a new code to carry on.''
        else PAIRING_FAILED))"

lemma poll_message_hidden: "codeStateForPollError copy (redacted error) = codeStateForPollError copy error"
  by (simp add: codeStateForPollError_def)

text \<open>\<open>Math.ceil\<close> of the seconds left, as minutes and two digits of seconds.\<close>

definition formatCountdown :: "nat \<Rightarrow> string" where
  "formatCountdown remainingMs =
     (let seconds = (remainingMs + 999) div 1000; s = show_nat (seconds mod 60)
      in show_nat (seconds div 60) @ '':'' @ (if length s < 2 then ''0'' @ s else s))"

text \<open>The code step is shown exactly while a pairing is pending and nothing has connected yet.\<close>

lemma effectiveStep_code: "effectiveStep state online finishedBefore = Code \<longleftrightarrow> \<not> online \<and> \<not> ob_connectedByDaemon state \<and> ob_pairing state \<noteq> None"
  by (auto simp: effectiveStep_def split: option.splits if_splits)

lemma effectiveStep_setup:
  "effectiveStep state online finishedBefore \<in> {Agents, Projects, Done} \<longleftrightarrow> online \<or> ob_connectedByDaemon state"
  by (auto simp: effectiveStep_def split: option.splits if_splits)

lemma finished_roundtrip: "readOnboardingFinished (markOnboardingFinished (Some m))"
  by (simp add: readOnboardingFinished_def markOnboardingFinished_def)


section \<open>With the daemon\<close>

text \<open>
  The daemon holds at most one pairing, \<open>oy_current\<close>, possibly from an earlier run of the app. It issues
  a ticket with a new id for a \<open>pair_start\<close> call, reads the present pairing for a \<open>pair_current\<close>
  call and drops the pairing a cancel names, each at some moment before its answer arrives.
\<close>

type_synonym start_call = "nat \<times> string \<times> string option"

record onboarding_system =
  oy_world :: onboarding_world
  oy_current :: "pairing_ticket option"
  oy_issued :: "(start_call \<times> pairing_ticket) list"
  oy_read :: "(nat \<times> pairing_ticket option) list"
  oy_ids :: "string list"

datatype onboarding_event =
    GoTo onboarding_step view_swap
  | NameDraft string
  | ChangeProjects "projects_progress \<Rightarrow> projects_progress"
  | StartPair string "string option"
  | DisconnectPair string "string option"
  | CancelPair
  | Resume
  | CodeSettles string code_state
  | PairingConnected
  | FinishSetup
  | StatusSeen "bool option"
  | DaemonIssues start_call pairing_ticket
  | StartAnswers start_call
  | StartFails start_call companion_error
  | DisconnectAnswers start_call "unit daemon_result"
  | DaemonReads nat
  | CurrentAnswers nat
  | CurrentFails nat companion_error
  | CancelArrives string

definition daemon_issues :: "start_call \<Rightarrow> pairing_ticket \<Rightarrow> onboarding_system \<Rightarrow> onboarding_system option" where
  "daemon_issues call ticket y = given (call \<in> set (ow_starts (oy_world y)) \<and> call \<notin> fst ` set (oy_issued y) \<and> pt_pairing_id ticket \<notin> set (oy_ids y))
     (y\<lparr>oy_issued := oy_issued y @ [(call, ticket)], oy_current := Some ticket, oy_ids := pt_pairing_id ticket # oy_ids y\<rparr>)"

definition start_answers :: "int \<Rightarrow> start_call \<Rightarrow> onboarding_system \<Rightarrow> onboarding_system option" where
  "start_answers now call y = (case map_of (oy_issued y) call of
     Some ticket \<Rightarrow> Some (y\<lparr>oy_world := pair_start_answered now call (Inr ticket) (oy_world y), oy_issued := filter (\<lambda>i. fst i \<noteq> call) (oy_issued y)\<rparr>)
   | None \<Rightarrow> None)"

definition start_fails :: "int \<Rightarrow> start_call \<Rightarrow> companion_error \<Rightarrow> onboarding_system \<Rightarrow> onboarding_system option" where
  "start_fails now call error y = given (call \<in> set (ow_starts (oy_world y)) \<and> call \<notin> fst ` set (oy_issued y))
     (y\<lparr>oy_world := pair_start_answered now call (Inl error) (oy_world y)\<rparr>)"

definition daemon_reads :: "nat \<Rightarrow> onboarding_system \<Rightarrow> onboarding_system option" where
  "daemon_reads attempt y = given (attempt \<in> set (ow_currents (oy_world y)) \<and> attempt \<notin> fst ` set (oy_read y))
     (y\<lparr>oy_read := oy_read y @ [(attempt, oy_current y)]\<rparr>)"

definition current_answers :: "(string \<Rightarrow> string option) \<Rightarrow> int \<Rightarrow> nat \<Rightarrow> onboarding_system \<Rightarrow> onboarding_system option" where
  "current_answers origin_of now attempt y = (case map_of (oy_read y) attempt of
     Some pending \<Rightarrow> Some (y\<lparr>oy_world := pair_current_answered origin_of now attempt (Inr pending) (oy_world y), oy_read := filter (\<lambda>i. fst i \<noteq> attempt) (oy_read y)\<rparr>)
   | None \<Rightarrow> None)"

definition current_fails :: "(string \<Rightarrow> string option) \<Rightarrow> int \<Rightarrow> nat \<Rightarrow> companion_error \<Rightarrow> onboarding_system \<Rightarrow> onboarding_system option" where
  "current_fails origin_of now attempt error y = given (attempt \<in> set (ow_currents (oy_world y)))
     (y\<lparr>oy_world := pair_current_answered origin_of now attempt (Inl error) (oy_world y), oy_read := filter (\<lambda>i. fst i \<noteq> attempt) (oy_read y)\<rparr>)"

definition cancel_arrives :: "string \<Rightarrow> onboarding_system \<Rightarrow> onboarding_system option" where
  "cancel_arrives i y = given (i \<in> set (ow_cancelled (oy_world y)))
     (y\<lparr>oy_current := (if map_option pt_pairing_id (oy_current y) = Some i then None else oy_current y)\<rparr>)"

definition in_world :: "(onboarding_world \<Rightarrow> onboarding_world) \<Rightarrow> onboarding_system \<Rightarrow> onboarding_system option" where
  "in_world f y = Some (y\<lparr>oy_world := f (oy_world y)\<rparr>)"

fun onboarding_event_step :: "(string \<Rightarrow> string option) \<Rightarrow> int \<Rightarrow> onboarding_event \<Rightarrow> onboarding_system \<Rightarrow> onboarding_system option" where
  "onboarding_event_step origin_of now (GoTo s t) y = in_world (goToStep s t) y"
| "onboarding_event_step origin_of now (NameDraft d) y = in_world (setDeviceNameDraft d) y"
| "onboarding_event_step origin_of now (ChangeProjects f) y = in_world (updateProjects f) y"
| "onboarding_event_step origin_of now (StartPair e n) y = in_world (startPairing e n) y"
| "onboarding_event_step origin_of now (DisconnectPair e n) y = in_world (disconnectThenPair e n) y"
| "onboarding_event_step origin_of now CancelPair y = in_world cancelPairing y"
| "onboarding_event_step origin_of now Resume y = in_world resumePendingPairing y"
| "onboarding_event_step origin_of now (CodeSettles i c) y = in_world (setCodeState i c) y"
| "onboarding_event_step origin_of now PairingConnected y = in_world markConnected y"
| "onboarding_event_step origin_of now FinishSetup y = in_world resetOnboarding y"
| "onboarding_event_step origin_of now (StatusSeen c) y = in_world (status_observed c) y"
| "onboarding_event_step origin_of now (DaemonIssues call ticket) y = daemon_issues call ticket y"
| "onboarding_event_step origin_of now (StartAnswers call) y = start_answers now call y"
| "onboarding_event_step origin_of now (StartFails call error) y = start_fails now call error y"
| "onboarding_event_step origin_of now (DisconnectAnswers call result) y =
     (if call \<in> set (ow_disconnects (oy_world y)) then in_world (disconnect_answered call result) y else None)"
| "onboarding_event_step origin_of now (DaemonReads attempt) y = daemon_reads attempt y"
| "onboarding_event_step origin_of now (CurrentAnswers attempt) y = current_answers origin_of now attempt y"
| "onboarding_event_step origin_of now (CurrentFails attempt error) y = current_fails origin_of now attempt error y"
| "onboarding_event_step origin_of now (CancelArrives i) y = cancel_arrives i y"

definition onboarding_start :: "pairing_ticket option \<Rightarrow> onboarding_system" where
  "onboarding_start left = \<lparr>oy_world = onboarding_init, oy_current = left, oy_issued = [], oy_read = [],
     oy_ids = (case left of Some t \<Rightarrow> [pt_pairing_id t] | None \<Rightarrow> [])\<rparr>"

definition sample_ticket :: pairing_ticket where
  "sample_ticket = \<lparr>pt_pairing_id = ''p1'', pt_user_code = ''ABCD'', pt_verification_uri = ''https://b/pair'', pt_expires_at = '''', pt_endpoint = None,
     pt_issued_at = None\<rparr>"

definition crossing :: "onboarding_event list" where
  "crossing = [Resume, StartPair ''https://b'' None, DaemonIssues (2, ''https://b'', None) sample_ticket, DaemonReads 1, CurrentAnswers 1,
     StartAnswers (2, ''https://b'', None)]"

text \<open>
  The app cancels the code it shows. The question for a pending pairing is still open when the user
  presses Continue; the daemon issues the code before it answers the question, and the answer
  arrives first. The app does not yet know that the pairing is the one the user has just started, and
  cancels it; then the code arrives and is shown as waiting for an approval that cannot succeed.
\<close>

lemma shown_code_cancelled:
  "\<exists>y. run_events (onboarding_event_step (\<lambda>_. None) 0) crossing (onboarding_start None) = Some y \<and>
     map_option (\<lambda>p. (pt_pairing_id (pp_ticket p), pp_codeState p)) (pairing_of (oy_world y)) = Some (''p1'', CodeWaiting) \<and>
     ow_cancelled (oy_world y) = [''p1'']"
proof -
  have "map_option (\<lambda>y. (map_option (\<lambda>p. (pt_pairing_id (pp_ticket p), pp_codeState p)) (pairing_of (oy_world y)), ow_cancelled (oy_world y)))
    (run_events (onboarding_event_step (\<lambda>_. None) 0) crossing (onboarding_start None)) = Some (Some (''p1'', CodeWaiting), [''p1''])" by code_simp
  then show ?thesis by auto
qed



section \<open>A shown code stays valid\<close>

text \<open>
  Calls do not cross: a pairing is started only when no question for the pending pairing is open, and
  the question is asked only when no other call is open and the daemon has processed the cancels.
\<close>

fun calm :: "onboarding_event \<Rightarrow> onboarding_system \<Rightarrow> bool" where
  "calm (StartPair e n) y = (ow_currents (oy_world y) = [])"
| "calm (DisconnectPair e n) y = (ow_currents (oy_world y) = [])"
| "calm Resume y = (ow_starts (oy_world y) = [] \<and> ow_disconnects (oy_world y) = [] \<and> ow_currents (oy_world y) = [] \<and>
     (case oy_current y of Some t \<Rightarrow> pt_pairing_id t \<notin> set (ow_cancelled (oy_world y)) | None \<Rightarrow> True))"
| "calm _ y = True"

definition calm_step :: "(string \<Rightarrow> string option) \<Rightarrow> int \<Rightarrow> onboarding_event \<Rightarrow> onboarding_system \<Rightarrow> onboarding_system option" where
  "calm_step origin_of now e y = (if calm e y then onboarding_event_step origin_of now e y else None)"

definition calls_ok :: "onboarding_system \<Rightarrow> bool" where
  "calls_ok y \<longleftrightarrow> (let w = oy_world y in
     (ow_currents w = [] \<or> (length (ow_currents w) = 1 \<and> ow_starts w = [] \<and> ow_disconnects w = [] \<and> pairing_id_of w = None \<and>
        (\<forall>t. oy_current y = Some t \<longrightarrow> pt_pairing_id t \<notin> set (ow_cancelled w)))))"

definition ids_ok :: "onboarding_system \<Rightarrow> bool" where
  "ids_ok y \<longleftrightarrow> set (ow_cancelled (oy_world y)) \<subseteq> set (oy_ids y) \<and> (\<forall>t. oy_current y = Some t \<longrightarrow> pt_pairing_id t \<in> set (oy_ids y))"

definition shown_ok :: "onboarding_system \<Rightarrow> bool" where
  "shown_ok y \<longleftrightarrow> (\<forall>i. pairing_id_of (oy_world y) = Some i \<longrightarrow> i \<in> set (oy_ids y) \<and> i \<notin> set (ow_cancelled (oy_world y)))"

definition issued_ok :: "onboarding_system \<Rightarrow> bool" where
  "issued_ok y \<longleftrightarrow> distinct (map (pt_pairing_id \<circ> snd) (oy_issued y)) \<and> distinct (map fst (oy_issued y)) \<and>
     (\<forall>(call, t) \<in> set (oy_issued y). call \<in> set (ow_starts (oy_world y)) \<and> pt_pairing_id t \<in> set (oy_ids y) \<and>
        pt_pairing_id t \<notin> set (ow_cancelled (oy_world y)) \<and> pairing_id_of (oy_world y) \<noteq> Some (pt_pairing_id t))"

definition read_ok :: "onboarding_system \<Rightarrow> bool" where
  "read_ok y \<longleftrightarrow> (\<forall>(a, p) \<in> set (oy_read y). a \<in> set (ow_currents (oy_world y)) \<and>
     (\<forall>t. p = Some t \<longrightarrow> pt_pairing_id t \<in> set (oy_ids y) \<and> pt_pairing_id t \<notin> set (ow_cancelled (oy_world y))))"

definition pairs_ok :: "onboarding_system \<Rightarrow> bool" where
  "pairs_ok y \<longleftrightarrow> calls_ok y \<and> ids_ok y \<and> shown_ok y \<and> issued_ok y \<and> read_ok y"

lemmas pairs_defs = calls_ok_def ids_ok_def shown_ok_def issued_ok_def read_ok_def

text \<open>What an event that talks to the daemon only about the shown pairing leaves alone.\<close>

definition same_calls :: "onboarding_world \<Rightarrow> onboarding_world \<Rightarrow> bool" where
  "same_calls w w' \<longleftrightarrow> ow_starts w' = ow_starts w \<and> ow_disconnects w' = ow_disconnects w \<and> ow_currents w' = ow_currents w \<and>
     ow_cancelled w' = ow_cancelled w \<and> pairing_id_of w' \<in> {pairing_id_of w, None}"

lemma same_calls_ok:
  assumes "pairs_ok y" and "same_calls (oy_world y) w"
  shows "pairs_ok (y\<lparr>oy_world := w\<rparr>)"
proof -
  have eq: "ow_starts w = ow_starts (oy_world y)" "ow_disconnects w = ow_disconnects (oy_world y)" "ow_currents w = ow_currents (oy_world y)"
    "ow_cancelled w = ow_cancelled (oy_world y)" and p: "pairing_id_of w = pairing_id_of (oy_world y) \<or> pairing_id_of w = None"
    using assms(2) by (auto simp: same_calls_def)
  have "calls_ok (y\<lparr>oy_world := w\<rparr>)" using assms(1) p by (auto simp: pairs_ok_def calls_ok_def eq Let_def)
  moreover have "ids_ok (y\<lparr>oy_world := w\<rparr>)" using assms(1) by (simp add: pairs_ok_def ids_ok_def eq)
  moreover have "shown_ok (y\<lparr>oy_world := w\<rparr>)" using assms(1) p by (auto simp: pairs_ok_def shown_ok_def eq)
  moreover have "issued_ok (y\<lparr>oy_world := w\<rparr>)" using assms(1) p by (auto simp: pairs_ok_def issued_ok_def eq)
  moreover have "read_ok (y\<lparr>oy_world := w\<rparr>)" using assms(1) by (simp add: pairs_ok_def read_ok_def eq)
  ultimately show ?thesis by (simp add: pairs_ok_def)
qed

lemmas store_ops = goToStep_def setDeviceNameDraft_def updateProjects_def setCodeState_def markConnected_def resetOnboarding_def
  status_observed_def observeConnectedStatus_def put_onboarding_def nextPairingAttempt_def ONBOARDING_INITIAL_def

lemma store_same_calls:
  "same_calls w (goToStep s t w)" "same_calls w (setDeviceNameDraft d w)" "same_calls w (updateProjects f w)" "same_calls w (setCodeState i c w)"
  "same_calls w (markConnected w)" "same_calls w (resetOnboarding w)" "same_calls w (status_observed b w)"
  by (simp_all add: same_calls_def store_ops pairing_id_of_def Let_def split: option.split)

lemma settle_same_calls: "same_calls w (settlePairingAttempt a w)"
  by (simp add: same_calls_def settlePairingAttempt_def put_onboarding_def pairing_id_of_def)

lemma startPairing_sel:
  "ow_starts (startPairing e n w) = ow_starts w @ [(ow_attempt w + 1, e, n)]" "ow_disconnects (startPairing e n w) = ow_disconnects w"
  "ow_currents (startPairing e n w) = ow_currents w" "ow_cancelled (startPairing e n w) = ow_cancelled w" "pairing_id_of (startPairing e n w) = pairing_id_of w"
  by (simp_all add: startPairing_def startPairingAttempt_def nextPairingAttempt_def put_onboarding_def pairing_id_of_def Let_def)

lemma more_calls_ok:
  assumes "pairs_ok y" and "ow_currents (oy_world y) = []" and "set (ow_starts (oy_world y)) \<subseteq> set (ow_starts w)"
    and "ow_currents w = []" "ow_cancelled w = ow_cancelled (oy_world y)" "pairing_id_of w = pairing_id_of (oy_world y)"
  shows "pairs_ok (y\<lparr>oy_world := w\<rparr>)"
  using assms by (auto simp: pairs_ok_def pairs_defs Let_def)

lemma startPairing_pairs:
  assumes "pairs_ok y" and "ow_currents (oy_world y) = []"
  shows "pairs_ok (y\<lparr>oy_world := startPairing e n (oy_world y)\<rparr>)"
  by (rule more_calls_ok [OF assms]) (auto simp: startPairing_sel assms(2))

lemma disconnectThenPair_pairs:
  assumes "pairs_ok y" and "ow_currents (oy_world y) = []"
  shows "pairs_ok (y\<lparr>oy_world := disconnectThenPair e n (oy_world y)\<rparr>)"
  by (rule more_calls_ok [OF assms])
    (simp_all add: disconnectThenPair_def startPairingAttempt_def nextPairingAttempt_def put_onboarding_def pairing_id_of_def Let_def assms(2))

lemma disconnect_answered_pairs:
  assumes ok: "pairs_ok y" and call: "call \<in> set (ow_disconnects (oy_world y))"
  shows "pairs_ok (y\<lparr>oy_world := disconnect_answered call result (oy_world y)\<rparr>)"
proof -
  obtain a e n where c: "call = (a, e, n)" by (cases call)
  define w where "w = settlePairingAttempt a ((oy_world y)\<lparr>ow_disconnects := remove1 call (ow_disconnects (oy_world y))\<rparr>)"
  have none: "ow_currents (oy_world y) = []" using ok call by (auto simp: pairs_ok_def calls_ok_def Let_def)
  have "pairs_ok (y\<lparr>oy_world := (oy_world y)\<lparr>ow_disconnects := remove1 call (ow_disconnects (oy_world y))\<rparr>\<rparr>)"
    by (rule more_calls_ok [OF ok none]) (simp_all add: none pairing_id_of_def)
  then have "pairs_ok (y\<lparr>oy_world := w\<rparr>)"
    using same_calls_ok [OF _, of "y\<lparr>oy_world := (oy_world y)\<lparr>ow_disconnects := remove1 call (ow_disconnects (oy_world y))\<rparr>\<rparr>" w] settle_same_calls
    by (simp add: w_def)
  moreover have "ow_currents w = []" using none by (simp add: w_def settlePairingAttempt_def put_onboarding_def)
  ultimately have "pairs_ok (y\<lparr>oy_world := startPairing e n w\<rparr>)" "pairs_ok (y\<lparr>oy_world := w\<lparr>ow_errors := x\<rparr>\<rparr>)" "pairs_ok (y\<lparr>oy_world := w\<rparr>)" for x
    using startPairing_pairs [of "y\<lparr>oy_world := w\<rparr>" e n] same_calls_ok [of "y\<lparr>oy_world := w\<rparr>" "w\<lparr>ow_errors := x\<rparr>"]
    by (simp_all add: same_calls_def pairing_id_of_def)
  moreover have "disconnect_answered call result (oy_world y) =
      (if a \<noteq> ow_attempt w then w else case result of Inl error \<Rightarrow> w\<lparr>ow_errors := ow_errors w @ [error]\<rparr> | Inr _ \<Rightarrow> startPairing e n w)"
    by (cases result) (simp_all add: disconnect_answered_def c w_def Let_def)
  ultimately show ?thesis by (simp split: sum.split)
qed


text \<open>The three ways a pairing that is not shown is cancelled, and the one in which it is shown.\<close>

lemma pairing_id_updates [simp]:
  "pairing_id_of (w\<lparr>ow_starts := s\<rparr>) = pairing_id_of w" "pairing_id_of (w\<lparr>ow_currents := c\<rparr>) = pairing_id_of w"
  "pairing_id_of (w\<lparr>ow_cancelled := x\<rparr>) = pairing_id_of w" "pairing_id_of (w\<lparr>ow_errors := err\<rparr>) = pairing_id_of w"
  "pairing_id_of (w\<lparr>ow_check := ch\<rparr>) = pairing_id_of w" "pairing_id_of (w\<lparr>ow_attempt := n\<rparr>) = pairing_id_of w"
  by (simp_all add: pairing_id_of_def)

lemma settlePairingAttempt_sel [simp]:
  "ow_starts (settlePairingAttempt a w) = ow_starts w" "ow_disconnects (settlePairingAttempt a w) = ow_disconnects w"
  "ow_currents (settlePairingAttempt a w) = ow_currents w" "ow_cancelled (settlePairingAttempt a w) = ow_cancelled w"
  "pairing_id_of (settlePairingAttempt a w) = pairing_id_of w" "ow_attempt (settlePairingAttempt a w) = ow_attempt w"
  by (simp_all add: settlePairingAttempt_def put_onboarding_def pairing_id_of_def)

lemma beginPairing_sel [simp]:
  "ow_starts (beginPairing now t e n w) = ow_starts w" "ow_disconnects (beginPairing now t e n w) = ow_disconnects w"
  "ow_currents (beginPairing now t e n w) = ow_currents w" "ow_cancelled (beginPairing now t e n w) = ow_cancelled w"
  "pairing_id_of (beginPairing now t e n w) = Some (pt_pairing_id t)"
  by (simp_all add: beginPairing_def put_onboarding_def pairing_id_of_def Let_def)

lemma markConnected_sel [simp]:
  "ow_starts (markConnected w) = ow_starts w" "ow_disconnects (markConnected w) = ow_disconnects w"
  "ow_currents (markConnected w) = ow_currents w" "ow_cancelled (markConnected w) = ow_cancelled w" "pairing_id_of (markConnected w) = None"
  by (simp_all add: markConnected_def put_onboarding_def pairing_id_of_def)

lemma pair_cancel_sel [simp]:
  "ow_starts (pair_cancel i w) = ow_starts w" "ow_disconnects (pair_cancel i w) = ow_disconnects w"
  "ow_currents (pair_cancel i w) = ow_currents w" "ow_cancelled (pair_cancel i w) = ow_cancelled w @ [i]" "pairing_id_of (pair_cancel i w) = pairing_id_of w"
  by (simp_all add: pair_cancel_def pairing_id_of_def)

lemma cancelPairing_pairs:
  assumes "pairs_ok y"
  shows "pairs_ok (y\<lparr>oy_world := cancelPairing (oy_world y)\<rparr>)"
proof -
  define w where "w = abandonPairing (oy_world y)"
  have w: "same_calls (oy_world y) w" "pairing_id_of w = None"
    by (simp_all add: w_def same_calls_def abandonPairing_def put_onboarding_def nextPairingAttempt_def pairing_id_of_def)
  have ok: "pairs_ok (y\<lparr>oy_world := w\<rparr>)" by (rule same_calls_ok [OF assms w(1)])
  show ?thesis
  proof (cases "pairing_id_of (oy_world y)")
    case None
    then show ?thesis using ok by (simp add: cancelPairing_def w_def [symmetric])
  next
    case (Some i)
    have cancelled: "i \<in> set (oy_ids y)" "\<forall>(call, t)\<in>set (oy_issued y). pt_pairing_id t \<noteq> i" "ow_currents w = []"
      using assms Some w(1) by (auto simp: pairs_ok_def pairs_defs Let_def same_calls_def)
    have unread: "oy_read y = []" using ok cancelled(3) by (cases "oy_read y") (auto simp: pairs_ok_def read_ok_def)
    have "pairs_ok (y\<lparr>oy_world := pair_cancel i w\<rparr>)"
      using ok w(2) cancelled unread by (auto simp: pairs_ok_def pairs_defs Let_def)
    then show ?thesis using Some by (simp add: cancelPairing_def w_def [symmetric])
  qed
qed

lemma daemon_issues_pairs:
  assumes "pairs_ok y" and "daemon_issues call ticket y = Some y'"
  shows "pairs_ok y'"
  using assms by (auto simp: daemon_issues_def pairs_ok_def pairs_defs Let_def)

lemma issued_filter:
  assumes "distinct (map (pt_pairing_id \<circ> snd) xs)" and "distinct (map fst xs)" and "map_of xs call = Some ticket"
    and "(c, t) \<in> set (filter (\<lambda>i. fst i \<noteq> call) xs)"
  shows "pt_pairing_id t \<noteq> pt_pairing_id ticket"
proof
  assume eq: "pt_pairing_id t = pt_pairing_id ticket"
  have m: "(c, t) \<in> set xs" "c \<noteq> call" "(call, ticket) \<in> set xs" using assms(3,4) map_of_SomeD by auto
  have "inj_on (pt_pairing_id \<circ> snd) (set xs)" using assms(1) by (simp add: distinct_map)
  from inj_onD [OF this, of "(c, t)" "(call, ticket)"] have "(c, t) = (call, ticket)" using m eq by simp
  then show False using m(2) by simp
qed

lemma start_answers_pairs:
  assumes ok: "pairs_ok y" and "start_answers now call y = Some y'"
  shows "pairs_ok y'"
proof -
  obtain a e n where c: "call = (a, e, n)" by (cases call)
  obtain ticket where t: "map_of (oy_issued y) call = Some ticket"
    and y': "y' = y\<lparr>oy_world := pair_start_answered now call (Inr ticket) (oy_world y), oy_issued := filter (\<lambda>i. fst i \<noteq> call) (oy_issued y)\<rparr>"
    using assms(2) by (auto simp: start_answers_def split: option.splits)
  have mem: "(call, ticket) \<in> set (oy_issued y)" by (rule map_of_SomeD [OF t])
  then have ticket: "call \<in> set (ow_starts (oy_world y))" "pt_pairing_id ticket \<in> set (oy_ids y)" "pt_pairing_id ticket \<notin> set (ow_cancelled (oy_world y))"
    "pairing_id_of (oy_world y) \<noteq> Some (pt_pairing_id ticket)" using ok by (auto simp: pairs_ok_def issued_ok_def)
  then have none: "ow_currents (oy_world y) = []" using ok by (auto simp: pairs_ok_def calls_ok_def Let_def)
  then have unread: "oy_read y = []" using ok by (cases "oy_read y") (auto simp: pairs_ok_def read_ok_def)
  have dist: "distinct (map (pt_pairing_id \<circ> snd) (oy_issued y))" "distinct (map fst (oy_issued y))" using ok by (simp_all add: pairs_ok_def issued_ok_def)
  let ?rest = "filter (\<lambda>i. fst i \<noteq> call) (oy_issued y)"
  have rest: "distinct (map (pt_pairing_id \<circ> snd) ?rest)" "distinct (map fst ?rest)" using dist by (simp_all add: distinct_map_filter)
  have other: "c \<in> set (remove1 call (ow_starts (oy_world y))) \<and> pt_pairing_id t \<in> set (oy_ids y) \<and> pt_pairing_id t \<notin> set (ow_cancelled (oy_world y)) \<and>
      pairing_id_of (oy_world y) \<noteq> Some (pt_pairing_id t) \<and> pt_pairing_id t \<noteq> pt_pairing_id ticket" if "(c, t) \<in> set ?rest" for c t
    using that ok issued_filter [OF dist t that] by (auto simp: pairs_ok_def issued_ok_def)
  define w where "w = pair_start_answered now call (Inr ticket) (oy_world y)"
  have w: "ow_currents w = []" "ow_starts w = remove1 call (ow_starts (oy_world y))"
    "ow_cancelled w = ow_cancelled (oy_world y) \<and> pairing_id_of w = Some (pt_pairing_id ticket) \<or>
     ow_cancelled w = ow_cancelled (oy_world y) @ [pt_pairing_id ticket] \<and> pairing_id_of w = pairing_id_of (oy_world y)"
    using none by (simp_all add: w_def c pair_start_answered_def Let_def)
  have "ids_ok y'" using ok ticket(2) w(3) by (auto simp: y' w_def [symmetric] pairs_ok_def ids_ok_def)
  moreover have "shown_ok y'" using ok ticket w(3) by (auto simp: y' w_def [symmetric] pairs_ok_def shown_ok_def)
  moreover have "issued_ok y'" using rest other w(2,3) unfolding issued_ok_def by (fastforce simp: y' w_def [symmetric])
  moreover have "calls_ok y'" "read_ok y'" using w(1) unread by (simp_all add: y' w_def [symmetric] calls_ok_def read_ok_def Let_def)
  ultimately show ?thesis by (simp add: pairs_ok_def)
qed


lemma start_fails_pairs:
  assumes ok: "pairs_ok y" and "start_fails now call error y = Some y'"
  shows "pairs_ok y'"
proof -
  obtain a e n where c: "call = (a, e, n)" by (cases call)
  define w where "w = pair_start_answered now call (Inl error) (oy_world y)"
  have call: "call \<in> set (ow_starts (oy_world y))" "call \<notin> fst ` set (oy_issued y)" and y': "y' = y\<lparr>oy_world := w\<rparr>"
    using assms(2) by (simp_all add: start_fails_def w_def)
  have none: "ow_currents (oy_world y) = []" using ok call(1) by (auto simp: pairs_ok_def calls_ok_def Let_def)
  have w: "ow_starts w = remove1 call (ow_starts (oy_world y))" "ow_currents w = []" "ow_cancelled w = ow_cancelled (oy_world y)"
    "pairing_id_of w = pairing_id_of (oy_world y) \<or> pairing_id_of w = None" using none by (simp_all add: w_def c pair_start_answered_def Let_def)
  have "issued_ok y'" using ok call(2) w unfolding pairs_ok_def issued_ok_def by (fastforce simp: y' in_set_remove1 image_iff)
  moreover have "calls_ok y'" "ids_ok y'" "shown_ok y'" using ok w by (auto simp: y' pairs_ok_def pairs_defs Let_def)
  moreover have "read_ok y'" using ok none w(2,3) by (simp add: y' pairs_ok_def read_ok_def)
  ultimately show ?thesis by (simp add: pairs_ok_def)
qed

lemma resume_pairs:
  assumes ok: "pairs_ok y" and calm: "calm Resume y"
  shows "pairs_ok (y\<lparr>oy_world := resumePendingPairing (oy_world y)\<rparr>)"
proof -
  let ?w = "oy_world y"
  let ?w' = "(nextPairingAttempt (?w\<lparr>ow_check := Asking\<rparr>))\<lparr>ow_currents := [ow_attempt ?w + 1]\<rparr>"
  have none: "ow_starts ?w = []" "ow_disconnects ?w = []" "ow_currents ?w = []" "\<And>t. oy_current y = Some t \<Longrightarrow> pt_pairing_id t \<notin> set (ow_cancelled ?w)"
    using calm by (auto split: option.splits)
  have "pairs_ok (y\<lparr>oy_world := ?w'\<rparr>)" if "pairing_id_of ?w = None"
    using ok none that by (auto simp: pairs_ok_def pairs_defs Let_def nextPairingAttempt_def)
  moreover have "resumePendingPairing ?w = ?w \<or> pairing_id_of ?w = None \<and> resumePendingPairing ?w = ?w'"
    using none(3) by (simp add: resumePendingPairing_def claimPendingPairingCheck_def untouched_def pairing_id_of_def nextPairingAttempt_def Let_def)
  ultimately show ?thesis using ok by auto
qed

lemma daemon_reads_pairs:
  assumes "pairs_ok y" and "daemon_reads attempt y = Some y'"
  shows "pairs_ok y'"
  using assms by (auto simp: daemon_reads_def pairs_ok_def pairs_defs Let_def)

lemma settlePending_sel [simp]:
  "ow_starts (settlePendingPairingCheck b w) = ow_starts w" "ow_disconnects (settlePendingPairingCheck b w) = ow_disconnects w"
  "ow_currents (settlePendingPairingCheck b w) = ow_currents w" "ow_cancelled (settlePendingPairingCheck b w) = ow_cancelled w"
  "pairing_id_of (settlePendingPairingCheck b w) = pairing_id_of w"
  by (simp_all add: settlePendingPairingCheck_def)

text \<open>The only question is answered: no call is open, and its pairing is shown or cancelled, or neither.\<close>

lemma current_answered_pairs:
  assumes ok: "pairs_ok y" and a: "a \<in> set (ow_currents (oy_world y))"
    and ticket: "\<And>t. result = Inr (Some t) \<Longrightarrow> pt_pairing_id t \<in> set (oy_ids y) \<and> pt_pairing_id t \<notin> set (ow_cancelled (oy_world y))"
  shows "pairs_ok (y\<lparr>oy_world := pair_current_answered origin_of now a result (oy_world y), oy_read := filter (\<lambda>i. fst i \<noteq> a) (oy_read y)\<rparr>)"
proof -
  let ?w = "oy_world y"
  define w where "w = pair_current_answered origin_of now a result ?w"
  have only: "ow_currents ?w = [a]" "ow_starts ?w = []" "ow_disconnects ?w = []" "pairing_id_of ?w = None"
    using ok a by (auto simp: pairs_ok_def calls_ok_def Let_def length_Suc_conv)
  have unread: "filter (\<lambda>i. fst i \<noteq> a) (oy_read y) = []" using ok only(1) by (auto simp: pairs_ok_def read_ok_def filter_empty_conv)
  have "x \<notin> set (oy_issued y)" for x using ok only(2) by (cases x) (auto simp: pairs_ok_def issued_ok_def)
  then have unissued: "oy_issued y = []" using list.set_sel(1) [of "oy_issued y"] by blast
  have w: "ow_currents w = []"
    "(ow_cancelled w = ow_cancelled ?w \<and> pairing_id_of w = None) \<or>
     (\<exists>t. result = Inr (Some t) \<and> (ow_cancelled w = ow_cancelled ?w \<and> pairing_id_of w = Some (pt_pairing_id t) \<or>
        ow_cancelled w = ow_cancelled ?w @ [pt_pairing_id t] \<and> pairing_id_of w = None))"
    using only by (auto simp: w_def pair_current_answered_def Let_def split: sum.split option.split)
  let ?y = "y\<lparr>oy_world := w, oy_read := filter (\<lambda>i. fst i \<noteq> a) (oy_read y)\<rparr>"
  have "ids_ok ?y" using ok ticket w(2) by (auto simp: pairs_ok_def ids_ok_def)
  moreover have "shown_ok ?y" using ticket w(2) by (auto simp: shown_ok_def)
  moreover have "calls_ok ?y" "issued_ok ?y" "read_ok ?y" using w(1) unissued unread by (simp_all add: pairs_defs Let_def)
  ultimately show ?thesis by (simp add: pairs_ok_def w_def)
qed

lemma cancel_arrives_pairs:
  assumes "pairs_ok y" and "cancel_arrives i y = Some y'"
  shows "pairs_ok y'"
  using assms by (auto simp: cancel_arrives_def pairs_ok_def pairs_defs Let_def)

lemma calm_step_pairs:
  assumes ok: "pairs_ok y" and step: "calm_step origin_of now e y = Some y'"
  shows "pairs_ok y'"
proof -
  have s: "calm e y" "onboarding_event_step origin_of now e y = Some y'" using step by (simp_all add: calm_step_def split: if_splits)
  show ?thesis
  proof (cases e)
    case (StartPair u n)
    then show ?thesis using s startPairing_pairs [OF ok] by (auto simp: in_world_def)
  next
    case (DisconnectPair u n)
    then show ?thesis using s disconnectThenPair_pairs [OF ok] by (auto simp: in_world_def)
  next
    case CancelPair
    then show ?thesis using s cancelPairing_pairs [OF ok] by (auto simp: in_world_def)
  next
    case Resume
    then show ?thesis using s resume_pairs [OF ok] by (auto simp: in_world_def)
  next
    case (DisconnectAnswers call result)
    then show ?thesis using s disconnect_answered_pairs [OF ok, of call result] by (simp add: in_world_def split: if_splits)
  next
    case (CurrentAnswers a)
    then obtain p where p: "map_of (oy_read y) a = Some p"
      and y': "y' = y\<lparr>oy_world := pair_current_answered origin_of now a (Inr p) (oy_world y), oy_read := filter (\<lambda>i. fst i \<noteq> a) (oy_read y)\<rparr>"
      using s by (auto simp: current_answers_def split: option.splits)
    then show ?thesis using ok map_of_SomeD [OF p] unfolding y'
      by (intro current_answered_pairs) (auto simp: pairs_ok_def read_ok_def)
  next
    case (CurrentFails a error)
    then show ?thesis using s current_answered_pairs [OF ok, of a "Inl error"] by (auto simp: current_fails_def)
  qed (use s store_same_calls same_calls_ok [OF ok] daemon_issues_pairs [OF ok] start_answers_pairs [OF ok] start_fails_pairs [OF ok]
      daemon_reads_pairs [OF ok] cancel_arrives_pairs [OF ok] in \<open>auto simp: in_world_def\<close>)
qed



text \<open>The button that waits for an attempt waits for a call that is still open, in every run.\<close>

definition busy_ok :: "onboarding_world \<Rightarrow> bool" where
  "busy_ok w \<longleftrightarrow> (\<forall>a. ob_startingAttempt (ow_state w) = Some a \<longrightarrow> a \<in> fst ` set (ow_starts w @ ow_disconnects w))"

lemma settled_busy:
  assumes "busy_ok w" and "set (ow_starts w @ ow_disconnects w) - {(a, e, n)} \<subseteq> set (ow_starts w' @ ow_disconnects w')" and "ow_state w' = ow_state w"
  shows "busy_ok (settlePairingAttempt a w')"
proof -
  have "b \<in> fst ` set (ow_starts w' @ ow_disconnects w')" if "ob_startingAttempt (ow_state w) = Some b" "b \<noteq> a" for b
    using assms(1,2) that unfolding busy_ok_def by (force simp: image_iff)
  then show ?thesis using assms(3) by (auto simp: busy_ok_def settlePairingAttempt_def put_onboarding_def)
qed

lemma remove1_superset: "set xs - {x} \<subseteq> set (remove1 x xs)"
  by (induction xs) auto

lemmas onboarding_ops = store_ops startPairing_def startPairingAttempt_def disconnectThenPair_def cancelPairing_def abandonPairing_def
  resumePendingPairing_def claimPendingPairingCheck_def pair_cancel_def beginPairing_def Let_def

lemma start_answered_busy: "busy_ok w \<Longrightarrow> busy_ok (pair_start_answered now call result w)"
proof -
  assume ok: "busy_ok w"
  obtain a e n where c: "call = (a, e, n)" by (cases call)
  have "busy_ok (settlePairingAttempt a (w\<lparr>ow_starts := remove1 call (ow_starts w)\<rparr>))"
    using remove1_superset [of "ow_starts w" call] by (intro settled_busy [OF ok, of a e n]) (auto simp: c)
  then show ?thesis by (auto simp: pair_start_answered_def c Let_def busy_ok_def pair_cancel_def beginPairing_def markConnected_def put_onboarding_def split: sum.split)
qed

lemma disconnect_answered_busy: "busy_ok w \<Longrightarrow> busy_ok (disconnect_answered call result w)"
proof -
  assume ok: "busy_ok w"
  obtain a e n where c: "call = (a, e, n)" by (cases call)
  have "busy_ok (settlePairingAttempt a (w\<lparr>ow_disconnects := remove1 call (ow_disconnects w)\<rparr>))"
    using remove1_superset [of "ow_disconnects w" call] by (intro settled_busy [OF ok, of a e n]) (auto simp: c)
  then show ?thesis by (auto simp: disconnect_answered_def c Let_def busy_ok_def startPairing_def startPairingAttempt_def nextPairingAttempt_def put_onboarding_def split: sum.split)
qed

lemma current_answered_busy: "busy_ok w \<Longrightarrow> busy_ok (pair_current_answered origin_of now a result w)"
  by (simp add: pair_current_answered_def busy_ok_def settlePendingPairingCheck_def pair_cancel_def beginPairing_def put_onboarding_def Let_def split: sum.split option.split)

lemma store_busy:
  "busy_ok w \<Longrightarrow> busy_ok (goToStep s t w)" "busy_ok w \<Longrightarrow> busy_ok (setDeviceNameDraft d w)" "busy_ok w \<Longrightarrow> busy_ok (updateProjects f w)"
  "busy_ok w \<Longrightarrow> busy_ok (setCodeState i c w)" "busy_ok w \<Longrightarrow> busy_ok (markConnected w)" "busy_ok w \<Longrightarrow> busy_ok (resetOnboarding w)"
  "busy_ok w \<Longrightarrow> busy_ok (status_observed b w)" "busy_ok w \<Longrightarrow> busy_ok (startPairing e n w)" "busy_ok w \<Longrightarrow> busy_ok (disconnectThenPair e n w)"
  "busy_ok w \<Longrightarrow> busy_ok (cancelPairing w)" "busy_ok w \<Longrightarrow> busy_ok (resumePendingPairing w)"
  by (simp_all add: busy_ok_def onboarding_ops split: option.split)

lemma onboarding_step_busy:
  assumes ok: "busy_ok (oy_world y)" and "onboarding_event_step origin_of now e y = Some y'"
  shows "busy_ok (oy_world y')"
  using assms(2)
  by (cases e) (auto simp: in_world_def daemon_issues_def start_answers_def start_fails_def daemon_reads_def current_answers_def current_fails_def cancel_arrives_def
    ok store_busy start_answered_busy disconnect_answered_busy current_answered_busy split: option.splits if_splits)

lemma onboarding_start_ok: "pairs_ok (onboarding_start left) \<and> busy_ok (oy_world (onboarding_start left))"
  by (simp add: pairs_ok_def pairs_defs onboarding_start_def onboarding_init_def ONBOARDING_INITIAL_def pairing_id_of_def busy_ok_def split: option.split)

interpretation onboarding: event_invariant "calm_step origin_of now" "onboarding_start left" "\<lambda>y. pairs_ok y \<and> busy_ok (oy_world y)"
proof
  fix s s' e
  assume "pairs_ok s \<and> busy_ok (oy_world s)" and step: "calm_step origin_of now e s = Some s'"
  then show "pairs_ok s' \<and> busy_ok (oy_world s')"
    using calm_step_pairs [OF _ step] onboarding_step_busy [of s origin_of now e s'] by (simp add: calm_step_def split: if_splits)
qed (rule onboarding_start_ok)

definition resumed_then_started :: "onboarding_event list" where
  "resumed_then_started = [Resume, DaemonReads 1, CurrentAnswers 1, CancelPair, CancelArrives ''p1'', StartPair ''https://b'' None,
     DaemonIssues (3, ''https://b'', None) (sample_ticket\<lparr>pt_pairing_id := ''p2''\<rparr>), StartAnswers (3, ''https://b'', None)]"

text \<open>
  C37. The code on the screen can be approved. However the user moves, starts over, cancels, and whatever
  the daemon answers, fails or still holds from an earlier run, a code that is shown was never
  cancelled by the app, the pairings whose answers are on their way have not been cancelled
  either, and a button that waits for an attempt waits for a call that is open. This holds as
  long as the question for a pending pairing does not cross with a call that starts one.
\<close>

theorem shown_code_valid:
  assumes "run_events (calm_step origin_of now) es (onboarding_start left) = Some y"
  shows "(\<forall>p. pairing_of (oy_world y) = Some p \<longrightarrow> pt_pairing_id (pp_ticket p) \<notin> set (ow_cancelled (oy_world y))) \<and>
    (\<forall>(call, t) \<in> set (oy_issued y). pt_pairing_id t \<notin> set (ow_cancelled (oy_world y))) \<and>
    (\<forall>a. ob_startingAttempt (ow_state (oy_world y)) = Some a \<longrightarrow> a \<in> fst ` set (ow_starts (oy_world y) @ ow_disconnects (oy_world y)))"
proof -
  have ok: "pairs_ok y" "busy_ok (oy_world y)" using onboarding.run_inv [OF assms] by simp_all
  have "pt_pairing_id (pp_ticket p) \<notin> set (ow_cancelled (oy_world y))" if "pairing_of (oy_world y) = Some p" for p
    using ok(1) that by (simp add: pairs_ok_def shown_ok_def pairing_id_of_def)
  moreover have "\<forall>(call, t) \<in> set (oy_issued y). pt_pairing_id t \<notin> set (ow_cancelled (oy_world y))"
    using ok(1) by (auto simp: pairs_ok_def issued_ok_def)
  ultimately show ?thesis using ok(2) unfolding busy_ok_def by blast
qed

theorem shown_code_valid_witness:
  "\<exists>y. run_events (calm_step (\<lambda>_. Some ''https://b'') 0) resumed_then_started (onboarding_start (Some sample_ticket)) = Some y \<and>
     pairing_id_of (oy_world y) = Some ''p2'' \<and> ''p2'' \<notin> set (ow_cancelled (oy_world y)) \<and> ow_cancelled (oy_world y) = [''p1'']"
proof -
  let ?run = "run_events (calm_step (\<lambda>_. Some ''https://b'') 0) resumed_then_started (onboarding_start (Some sample_ticket))"
  have "map_option (\<lambda>y. (pairing_id_of (oy_world y), ow_cancelled (oy_world y))) ?run = Some (Some ''p2'', [''p1''])" by code_simp
  then obtain y where y: "?run = Some y" "pairing_id_of (oy_world y) = Some ''p2''" "ow_cancelled (oy_world y) = [''p1'']" by auto
  then obtain p where "pairing_of (oy_world y) = Some p" "pt_pairing_id (pp_ticket p) = ''p2''" by (auto simp: pairing_id_of_def)
  then have "''p2'' \<notin> set (ow_cancelled (oy_world y))" using shown_code_valid [OF y(1)] by force
  then show ?thesis using y by blast
qed

end
