(* ===== verification/Companion_Projects.thy ===== *)
theory Companion_Projects
  imports JS_Text
begin

text \<open>
  Which board a session belongs to (\<open>companion/desktop/src/stores/projects.ts\<close>): the mappings of the
  policy joined with the catalog of boards, the place of a repository, a mapping or a session, and
  the link to its kanban. The cached resources behind them are in \<open>Daemon_Stream\<close>.
\<close>


section \<open>Catalog and mappings\<close>

record board_summary =
  bo_id :: string
  bo_name :: string
  bo_repos :: "string list"

record workspace_boards =
  wb_id :: string
  wb_slug :: string
  wb_name :: string
  wb_boards :: "board_summary list"

type_synonym boards_overview = "workspace_boards list"

record raw_mapping =
  mp_id :: string
  mp_workspace_id :: string
  mp_board_id :: "string option"
  mp_root_path :: "string option"
  mp_repo_url_normalized :: "string option"
  mp_enabled :: bool

record project_mapping = raw_mapping +
  mp_board_name :: "string option"
  mp_workspace_name :: "string option"
  mp_workspace_slug :: "string option"

record board_place =
  pl_workspaceSlug :: string
  pl_boardId :: string
  pl_boardName :: string

record session_capture =
  sc_repo :: "string option"
  sc_mapping_id :: "string option"
  sc_server_workspace_id :: "string option"
  sc_server_board_id :: "string option"
  sc_server_mapping_id :: "string option"

definition findWorkspace :: "boards_overview \<Rightarrow> string \<Rightarrow> workspace_boards option" where
  "findWorkspace catalog workspaceId = find (\<lambda>w. wb_id w = workspaceId) catalog"

definition joinMapping :: "raw_mapping \<Rightarrow> boards_overview option \<Rightarrow> project_mapping" where
  "joinMapping mapping catalog =
     (let workspace = Option.bind catalog (\<lambda>c. findWorkspace c (mp_workspace_id mapping));
          board = Option.bind workspace (\<lambda>w. find (\<lambda>b. Some (bo_id b) = mp_board_id mapping) (wb_boards w))
      in raw_mapping.extend mapping (project_mapping.fields (map_option bo_name board) (map_option wb_name workspace) (map_option wb_slug workspace)))"

definition joinedMappings :: "raw_mapping list option \<Rightarrow> boards_overview option \<Rightarrow> project_mapping list" where
  "joinedMappings overview catalog = (case overview of Some ms \<Rightarrow> map (\<lambda>m. joinMapping m catalog) ms | None \<Rightarrow> [])"


section \<open>Places\<close>

fun first_place :: "string \<Rightarrow> workspace_boards list \<Rightarrow> board_place option" where
  "first_place boardId [] = None"
| "first_place boardId (w # ws) = (case find (\<lambda>b. bo_id b = boardId) (wb_boards w) of
     Some b \<Rightarrow> Some \<lparr>pl_workspaceSlug = wb_slug w, pl_boardId = boardId, pl_boardName = bo_name b\<rparr>
   | None \<Rightarrow> first_place boardId ws)"

definition placeOfBoard :: "boards_overview \<Rightarrow> string option \<Rightarrow> string option \<Rightarrow> board_place option" where
  "placeOfBoard catalog workspaceId boardId =
     (if \<not> js_truthy boardId then None
      else first_place (the boardId) (if js_truthy workspaceId then filter (\<lambda>w. Some (wb_id w) = workspaceId) catalog else catalog))"

definition repo_listing :: "boards_overview \<Rightarrow> string \<Rightarrow> board_place list" where
  "repo_listing catalog repo = concat (map (\<lambda>w. map (\<lambda>b. \<lparr>pl_workspaceSlug = wb_slug w, pl_boardId = bo_id b, pl_boardName = bo_name b\<rparr>)
     (filter (\<lambda>b. repo \<in> set (bo_repos b)) (wb_boards w))) catalog)"

definition placeOfRepo :: "boards_overview \<Rightarrow> raw_mapping list \<Rightarrow> string \<Rightarrow> board_place option" where
  "placeOfRepo catalog mappings repo =
     (case filter (\<lambda>m. mp_repo_url_normalized m = Some repo \<and> js_truthy (mp_board_id m)) mappings of
        firstMapped # others \<Rightarrow>
          (if list_all (\<lambda>m. mp_board_id m = mp_board_id firstMapped) (firstMapped # others)
           then placeOfBoard catalog (Some (mp_workspace_id firstMapped)) (mp_board_id firstMapped) else None)
      | [] \<Rightarrow> (case repo_listing catalog repo of [p] \<Rightarrow> Some p | _ \<Rightarrow> None))"

definition capturing_mapping :: "raw_mapping list \<Rightarrow> session_capture \<Rightarrow> raw_mapping option" where
  "capturing_mapping mappings session =
     (let mappingId = (if js_truthy (sc_mapping_id session) then sc_mapping_id session else sc_server_mapping_id session) in
      if js_truthy mappingId then find (\<lambda>m. Some (mp_id m) = mappingId) mappings else None)"

definition boardOfSession :: "boards_overview \<Rightarrow> raw_mapping list \<Rightarrow> session_capture \<Rightarrow> board_place option" where
  "boardOfSession catalog mappings session =
     (if js_truthy (sc_server_board_id session) then placeOfBoard catalog (sc_server_workspace_id session) (sc_server_board_id session)
      else case capturing_mapping mappings session of
        Some mapping \<Rightarrow> placeOfBoard catalog (Some (mp_workspace_id mapping)) (mp_board_id mapping)
      | None \<Rightarrow> if js_truthy (sc_repo session) then placeOfRepo catalog mappings (the (sc_repo session)) else None)"


section \<open>Links\<close>

definition drop_slashes :: "string \<Rightarrow> string" where
  "drop_slashes s = rev (dropWhile (\<lambda>c. c = CHR ''/'') (rev s))"

text \<open>The web origin of the account, or the endpoint, of the last status.\<close>

definition webOrigin :: "(string option \<times> string) option \<Rightarrow> string option" where
  "webOrigin status =
     (let origin = (case status of
          Some (web_origin, endpoint) \<Rightarrow> if js_truthy web_origin then the web_origin else endpoint
        | None \<Rightarrow> []);
          trimmed = drop_slashes origin
      in if trimmed = [] then None else Some trimmed)"

definition isPathSegment :: "string \<Rightarrow> bool" where
  "isPathSegment segment = (segment \<noteq> [] \<and> segment \<noteq> ''.'' \<and> segment \<noteq> ''..'')"

definition kanbanLink :: "(string option \<times> string) option \<Rightarrow> board_place option \<Rightarrow> string option" where
  "kanbanLink status place =
     (case (webOrigin status, place) of
        (Some origin, Some p) \<Rightarrow>
          if isPathSegment (pl_workspaceSlug p) \<and> isPathSegment (pl_boardId p)
          then Some (origin @ ''/'' @ encodeURIComponent (pl_workspaceSlug p) @ ''/boards/'' @ encodeURIComponent (pl_boardId p) @ ''/kanban'')
          else None
      | _ \<Rightarrow> None)"

datatype link_target = RepoTarget string | BoardTarget "string option" "string option"

definition boardLinkFor :: "(string option \<times> string) option \<Rightarrow> raw_mapping list option \<Rightarrow> boards_overview option \<Rightarrow> link_target option \<Rightarrow> string option" where
  "boardLinkFor status overview catalog target =
     (case (catalog, target) of
        (Some c, Some (RepoTarget repo)) \<Rightarrow>
          if repo = [] then None else kanbanLink status (placeOfRepo c (case overview of Some ms \<Rightarrow> ms | None \<Rightarrow> []) repo)
      | (Some c, Some (BoardTarget workspaceId boardId)) \<Rightarrow> kanbanLink status (placeOfBoard c workspaceId boardId)
      | _ \<Rightarrow> None)"

definition boardLinkForSession :: "(string option \<times> string) option \<Rightarrow> raw_mapping list option \<Rightarrow> boards_overview option \<Rightarrow> session_capture \<Rightarrow> string option" where
  "boardLinkForSession status overview catalog session =
     (case catalog of
        Some c \<Rightarrow> kanbanLink status (boardOfSession c (case overview of Some ms \<Rightarrow> ms | None \<Rightarrow> []) session)
      | None \<Rightarrow> None)"


section \<open>Where a session is filed\<close>

text \<open>A place is a board of the catalog.\<close>

definition listed :: "boards_overview \<Rightarrow> board_place \<Rightarrow> bool" where
  "listed catalog p \<longleftrightarrow> (\<exists>w\<in>set catalog. \<exists>b\<in>set (wb_boards w). p = \<lparr>pl_workspaceSlug = wb_slug w, pl_boardId = bo_id b, pl_boardName = bo_name b\<rparr>)"

lemma first_place_listed: "first_place boardId ws = Some p \<Longrightarrow> pl_boardId p = boardId \<and> listed ws p"
proof (induction ws)
  case (Cons w ws)
  show ?case
  proof (cases "find (\<lambda>b. bo_id b = boardId) (wb_boards w)")
    case None
    then show ?thesis using Cons by (auto simp: listed_def)
  next
    case (Some b)
    then have "b \<in> set (wb_boards w)" "bo_id b = boardId" using find_SomeD [OF Some] by simp_all
    then show ?thesis using Cons.prems Some by (auto simp: listed_def)
  qed
qed simp

lemma placeOfBoard_listed: "placeOfBoard catalog workspaceId boardId = Some p \<Longrightarrow> Some (pl_boardId p) = boardId \<and> listed catalog p"
  using first_place_listed [of "the boardId" catalog p] first_place_listed [of "the boardId" "filter (\<lambda>w. Some (wb_id w) = workspaceId) catalog" p]
  by (cases boardId) (auto simp: placeOfBoard_def listed_def split: if_splits)

lemma repo_listing_listed: "p \<in> set (repo_listing catalog repo) \<Longrightarrow> listed catalog p"
  by (auto simp: repo_listing_def listed_def)

lemma placeOfRepo_listed: "placeOfRepo catalog mappings repo = Some p \<Longrightarrow> listed catalog p"
  using repo_listing_listed [of p catalog repo]
  by (auto simp: placeOfRepo_def split: list.splits if_splits dest: placeOfBoard_listed)

text \<open>A repository whose mappings disagree, or that several boards list, has no place.\<close>

lemma ambiguous_repo:
  assumes "m1 \<in> set mappings" "m2 \<in> set mappings" "mp_repo_url_normalized m1 = Some repo" "mp_repo_url_normalized m2 = Some repo"
    "js_truthy (mp_board_id m1)" "js_truthy (mp_board_id m2)" "mp_board_id m1 \<noteq> mp_board_id m2"
  shows "placeOfRepo catalog mappings repo = None"
proof -
  let ?mapped = "filter (\<lambda>m. mp_repo_url_normalized m = Some repo \<and> js_truthy (mp_board_id m)) mappings"
  have m: "m1 \<in> set ?mapped" "m2 \<in> set ?mapped" using assms by simp_all
  then obtain f fs where f: "?mapped = f # fs" by (cases ?mapped) auto
  have "\<not> list_all (\<lambda>m. mp_board_id m = mp_board_id f) (f # fs)" using m assms(7) unfolding f list_all_iff by metis
  then show ?thesis by (simp add: placeOfRepo_def f)
qed


section \<open>Properties\<close>

text \<open>
  A session is only ever filed under a board of the catalog, and the stronger evidence decides:
  the board the server named, else the board of the mapping that captured it. When the catalog does
  not know that board the session has none, it is never guessed from the repository.
\<close>

lemma session_board_decided:
  assumes "boardOfSession catalog mappings session = Some p"
  shows "listed catalog p \<and> (js_truthy (sc_server_board_id session) \<longrightarrow> sc_server_board_id session = Some (pl_boardId p)) \<and>
    (\<not> js_truthy (sc_server_board_id session) \<longrightarrow>
       (\<forall>m. capturing_mapping mappings session = Some m \<longrightarrow> m \<in> set mappings \<and> mp_board_id m = Some (pl_boardId p)))"
proof (cases "js_truthy (sc_server_board_id session)")
  case True
  then show ?thesis using assms placeOfBoard_listed [of catalog "sc_server_workspace_id session" "sc_server_board_id session" p]
    by (simp add: boardOfSession_def)
next
  case False
  show ?thesis
  proof (cases "capturing_mapping mappings session")
    case None
    then show ?thesis using assms False placeOfRepo_listed by (auto simp: boardOfSession_def split: if_splits)
  next
    case (Some m)
    then have "m \<in> set mappings" using find_SomeD [of _ mappings m] by (auto simp: capturing_mapping_def Let_def split: if_splits)
    then show ?thesis using assms False Some placeOfBoard_listed [of catalog "Some (mp_workspace_id m)" "mp_board_id m" p]
      by (simp add: boardOfSession_def)
  qed
qed

definition sample_boards :: boards_overview where
  "sample_boards = [\<lparr>wb_id = ''w1'', wb_slug = ''acme'', wb_name = ''Acme'', wb_boards = [\<lparr>bo_id = ''b1'', bo_name = ''Board'', bo_repos = [''r'']\<rparr>]\<rparr>]"

end
