(* ===== verification/Bind_Flow.thy ===== *)
theory Bind_Flow
  imports Event_System Companion_Errors Companion_Projects
begin

text \<open>
  Binding a folder or repository to a board (\<open>screens/projects/bind-flow.ts\<close>), with the names and
  repositories it accepts (\<open>screens/projects/paths.ts\<close>, \<open>screens/projects/repo.ts\<close>). One call of
  \<open>bind\<close> is an event system: its events are the answers of the daemon and what the user does in the
  dialog that asks before an old binding is deleted. The dialog refuses to close while its action runs.
\<close>


section \<open>Names and repositories\<close>

definition folderName :: "string \<Rightarrow> string" where
  "folderName path =
     (let clean = filter (\<lambda>c. \<not> invisible_char c) path;
          segments = filter (\<lambda>s. s \<noteq> '''') (js_split CHR ''/'' (map (\<lambda>c. if c = CHR 0x5C then CHR ''/'' else c) clean))
      in case js_last segments of Some s \<Rightarrow> s | None \<Rightarrow> clean)"

definition MAX_REPO_LENGTH :: nat where
  "MAX_REPO_LENGTH = 255"

definition alnum :: "char \<Rightarrow> bool" where
  "alnum c = (is_upper c \<or> is_lower c \<or> is_digit c)"

definition host_segment :: "string \<Rightarrow> bool" where
  "host_segment s = (s \<noteq> '''' \<and> alnum (hd s) \<and> alnum (last s) \<and> list_all (\<lambda>c. alnum c \<or> c = CHR ''.'' \<or> c = CHR ''-'') s)"

definition name_segment :: "string \<Rightarrow> bool" where
  "name_segment s = (s \<noteq> '''' \<and> list_all (\<lambda>c. alnum c \<or> c = CHR ''.'' \<or> c = CHR ''_'' \<or> c = CHR ''-'') s)"

definition normalized_repo :: "string \<Rightarrow> bool" where
  "normalized_repo s = (case js_split CHR ''/'' s of [host, owner, repo] \<Rightarrow> host_segment host \<and> name_segment owner \<and> name_segment repo | _ \<Rightarrow> False)"

definition unsafeSegment :: "string \<Rightarrow> bool" where
  "unsafeSegment s = (s = ''.'' \<or> s = ''..'' \<or> take 1 s = ''-'')"

definition drop_git :: "string \<Rightarrow> string" where
  "drop_git s = (if drop (length s - 4) s = ''.git'' then take (length s - 4) s else s)"

definition safeRepo :: "string option \<Rightarrow> string option" where
  "safeRepo repo =
     (if \<not> js_truthy repo \<or> MAX_REPO_LENGTH < length (the repo) then None
      else let trimmed = drop_git (the repo) in
        if \<not> normalized_repo trimmed \<or> list_ex unsafeSegment (js_split CHR ''/'' trimmed) then None else Some trimmed)"

definition repoName :: "string \<Rightarrow> string" where
  "repoName repo = rev (takeWhile (\<lambda>c. c \<noteq> CHR ''/'') (rev repo))"


section \<open>What is bound\<close>

record board_candidate =
  bc_workspace_id :: string
  bc_board_id :: string

record discovered_project =
  dp_root :: string
  dp_repo_url :: "string option"
  dp_reason :: "string option"
  dp_candidates :: "board_candidate list option"

datatype bind_target =
    RepoTarget "string option" string string "string list"
  | FolderTarget string string "string list"

definition REASONS :: "string list" where
  "REASONS = [''not_bound'', ''auto_match_off'', ''ambiguous'', ''excluded'', ''no_origin'']"

definition reasonOf :: "discovered_project \<Rightarrow> string" where
  "reasonOf project = (if js_truthy (dp_reason project) \<and> the (dp_reason project) \<in> set REASONS then the (dp_reason project) else ''not_bound'')"

definition bindTargetFor :: "discovered_project \<Rightarrow> boards_overview option \<Rightarrow> bind_target" where
  "bindTargetFor project catalog =
     (let name = folderName (dp_root project); repo = safeRepo (dp_repo_url project) in
      if reasonOf project = ''no_origin'' \<or> \<not> js_truthy repo then FolderTarget (dp_root project) name []
      else let listed = (case catalog of
                 Some ws \<Rightarrow> concat (map (\<lambda>w. map bo_id (filter (\<lambda>b. the repo \<in> set (bo_repos b)) (wb_boards w))) ws)
               | None \<Rightarrow> []);
               candidates = (case dp_candidates project of Some cs \<Rightarrow> map bc_board_id cs | None \<Rightarrow> [])
        in RepoTarget (Some (dp_root project)) (the repo) name (js_unique (candidates @ listed)))"

fun target_name :: "bind_target \<Rightarrow> string" where
  "target_name (RepoTarget folder repo name linked) = name"
| "target_name (FolderTarget folder name linked) = name"

record board_choice =
  ch_workspaceId :: string
  ch_boardId :: string
  ch_boardName :: string

record mapping_create =
  mc_workspace_id :: string
  mc_board_id :: string
  mc_root_path :: "string option"
  mc_repo_url :: "string option"
  mc_content_level :: string

definition createRequest :: "bind_target \<Rightarrow> board_choice \<Rightarrow> string \<Rightarrow> mapping_create" where
  "createRequest target choice level = \<lparr>mc_workspace_id = ch_workspaceId choice, mc_board_id = ch_boardId choice,
     mc_root_path = (case target of FolderTarget folder _ _ \<Rightarrow> Some folder | RepoTarget _ _ _ _ \<Rightarrow> None),
     mc_repo_url = (case target of RepoTarget _ repo _ _ \<Rightarrow> Some repo | FolderTarget _ _ _ \<Rightarrow> None), mc_content_level = level\<rparr>"

fun existingBinding :: "bind_target \<Rightarrow> project_mapping list \<Rightarrow> project_mapping option" where
  "existingBinding (FolderTarget folder name linked) mappings = find (\<lambda>m. mp_root_path m = Some folder) mappings"
| "existingBinding (RepoTarget folder repo name linked) mappings =
     find (\<lambda>m. \<not> js_truthy (mp_root_path m) \<and> mp_repo_url_normalized m = Some repo) mappings"


section \<open>The flow\<close>

datatype bind_outcome = BindBound | BindFailed string | BindCancelled

datatype bind_phase =
    FirstCreate
  | Asking project_mapping
  | Deleting project_mapping
  | Retrying project_mapping
  | Finished bind_outcome

datatype daemon_call = CallCreate mapping_create | CallDelete string

text \<open>\<open>bf_pressed\<close> counts the presses of the confirm button, \<open>bf_refreshed\<close> the refreshes of the projects.\<close>

record bind_world =
  bf_phase :: bind_phase
  bf_oldDeleted :: bool
  bf_failedAfterDelete :: "string option"
  bf_confirmLabel :: string
  bf_error :: "string option"
  bf_calls :: "daemon_call list"
  bf_pressed :: nat
  bf_refreshed :: nat
  bf_toasts :: "string list"

record bind_input =
  bi_copy :: platform_copy
  bi_target :: bind_target
  bi_choice :: board_choice
  bi_level :: string
  bi_mappings :: "project_mapping list"

definition BOUND_TOAST :: "string \<Rightarrow> string \<Rightarrow> string" where
  "BOUND_TOAST folder board = ''Bound '' @ folder @ '' to '' @ board @ ''. New sessions there are captured.''"

abbreviation create_call :: "bind_input \<Rightarrow> daemon_call" where
  "create_call b \<equiv> CallCreate (createRequest (bi_target b) (bi_choice b) (bi_level b))"

definition bind_begin :: "bind_input \<Rightarrow> bind_world" where
  "bind_begin b = \<lparr>bf_phase = FirstCreate, bf_oldDeleted = False, bf_failedAfterDelete = None, bf_confirmLabel = ''Delete the old binding and bind here'',
     bf_error = None, bf_calls = [create_call b], bf_pressed = 0, bf_refreshed = 0, bf_toasts = []\<rparr>"

definition bind_bound :: "bind_input \<Rightarrow> bind_world \<Rightarrow> bind_world" where
  "bind_bound b w = w\<lparr>bf_phase := Finished BindBound, bf_refreshed := bf_refreshed w + 1,
     bf_toasts := bf_toasts w @ [BOUND_TOAST (target_name (bi_target b)) (ch_boardName (bi_choice b))]\<rparr>"

definition old_board :: "project_mapping \<Rightarrow> string" where
  "old_board old = (case mp_board_name old of Some n \<Rightarrow> n | None \<Rightarrow> ''another board'')"

definition first_answered :: "bind_input \<Rightarrow> unit daemon_result \<Rightarrow> bind_world \<Rightarrow> bind_world" where
  "first_answered b result w = (case result of
     Inr _ \<Rightarrow> bind_bound b w
   | Inl error \<Rightarrow>
       if failureKind error \<noteq> Conflict then w\<lparr>bf_phase := Finished (BindFailed (bindFailureMessage (bi_copy b) error (target_name (bi_target b))))\<rparr>
       else case existingBinding (bi_target b) (bi_mappings b) of
           None \<Rightarrow> w\<lparr>bf_phase := Finished (BindFailed UNKNOWN_CONFLICT)\<rparr>
         | Some old \<Rightarrow> w\<lparr>bf_phase := Asking old\<rparr>)"

definition confirm_pressed :: "bind_input \<Rightarrow> project_mapping \<Rightarrow> bind_world \<Rightarrow> bind_world" where
  "confirm_pressed b old w =
     (let w1 = w\<lparr>bf_error := None, bf_pressed := bf_pressed w + 1\<rparr> in
      if \<not> bf_oldDeleted w1 then w1\<lparr>bf_phase := Deleting old, bf_calls := bf_calls w1 @ [CallDelete (mp_id old)]\<rparr>
      else w1\<lparr>bf_phase := Retrying old, bf_calls := bf_calls w1 @ [create_call b]\<rparr>)"

definition delete_answered :: "bind_input \<Rightarrow> project_mapping \<Rightarrow> unit daemon_result \<Rightarrow> bind_world \<Rightarrow> bind_world" where
  "delete_answered b old result w =
     (let gone = w\<lparr>bf_oldDeleted := True, bf_refreshed := bf_refreshed w + 1, bf_phase := Retrying old, bf_calls := bf_calls w @ [create_call b]\<rparr> in
      case result of
        Inr _ \<Rightarrow> gone
      | Inl error \<Rightarrow> if failureKind error \<noteq> NotFound
          then w\<lparr>bf_phase := Asking old, bf_error := Some (bindFailureMessage (bi_copy b) error (target_name (bi_target b)))\<rparr> else gone)"

definition removed_message :: "bind_input \<Rightarrow> project_mapping \<Rightarrow> companion_error \<Rightarrow> string" where
  "removed_message b old error = ''The old binding to '' @ old_board old @ '' was removed, but binding here failed. '' @ failureReason (bi_copy b) error"

definition retry_answered :: "bind_input \<Rightarrow> project_mapping \<Rightarrow> unit daemon_result \<Rightarrow> bind_world \<Rightarrow> bind_world" where
  "retry_answered b old result w = (case result of
     Inr _ \<Rightarrow> bind_bound b w
   | Inl error \<Rightarrow> w\<lparr>bf_failedAfterDelete := Some (removed_message b old error), bf_confirmLabel := ''Bind here'', bf_phase := Asking old,
       bf_error := Some (removed_message b old error)\<rparr>)"

definition dialog_cancelled :: "bind_world \<Rightarrow> bind_world" where
  "dialog_cancelled w = w\<lparr>bf_phase := Finished (case bf_failedAfterDelete w of Some m \<Rightarrow> if m \<noteq> '''' then BindFailed m else BindCancelled | None \<Rightarrow> BindCancelled)\<rparr>"

datatype bind_event = DaemonAnswers "unit daemon_result" | PressConfirm | PressCancel

fun bind_step :: "bind_input \<Rightarrow> bind_event \<Rightarrow> bind_world \<Rightarrow> bind_world option" where
  "bind_step b (DaemonAnswers result) w = (case bf_phase w of
     FirstCreate \<Rightarrow> Some (first_answered b result w)
   | Deleting old \<Rightarrow> Some (delete_answered b old result w)
   | Retrying old \<Rightarrow> Some (retry_answered b old result w)
   | _ \<Rightarrow> None)"
| "bind_step b PressConfirm w = (case bf_phase w of Asking old \<Rightarrow> Some (confirm_pressed b old w) | _ \<Rightarrow> None)"
| "bind_step b PressCancel w = (case bf_phase w of Asking old \<Rightarrow> Some (dialog_cancelled w) | _ \<Rightarrow> None)"



section \<open>Nothing is deleted unasked, and a deletion is never hidden\<close>

definition deletes :: "bind_world \<Rightarrow> string list" where
  "deletes w = concat (map (\<lambda>c. case c of CallDelete i \<Rightarrow> [i] | CallCreate _ \<Rightarrow> []) (bf_calls w))"

definition removed_text :: "bind_input \<Rightarrow> string \<Rightarrow> bool" where
  "removed_text b m \<longleftrightarrow> (\<exists>old error. existingBinding (bi_target b) (bi_mappings b) = Some old \<and> m = removed_message b old error)"

definition phase_ok :: "bind_input \<Rightarrow> bind_world \<Rightarrow> bool" where
  "phase_ok b w = (case bf_phase w of
     FirstCreate \<Rightarrow> \<not> bf_oldDeleted w
   | Asking old \<Rightarrow> existingBinding (bi_target b) (bi_mappings b) = Some old \<and> (bf_oldDeleted w \<longrightarrow> bf_failedAfterDelete w \<noteq> None)
   | Deleting old \<Rightarrow> existingBinding (bi_target b) (bi_mappings b) = Some old \<and> \<not> bf_oldDeleted w
   | Retrying old \<Rightarrow> existingBinding (bi_target b) (bi_mappings b) = Some old \<and> bf_oldDeleted w
   | Finished BindCancelled \<Rightarrow> \<not> bf_oldDeleted w
   | Finished (BindFailed m) \<Rightarrow> bf_oldDeleted w \<longrightarrow> removed_text b m
   | Finished BindBound \<Rightarrow> True)"

definition calls_made_ok :: "bind_input \<Rightarrow> bind_world \<Rightarrow> bool" where
  "calls_made_ok b w \<longleftrightarrow> length (deletes w) \<le> bf_pressed w \<and> (bf_oldDeleted w \<longrightarrow> deletes w \<noteq> []) \<and>
     (\<forall>i\<in>set (deletes w). map_option mp_id (existingBinding (bi_target b) (bi_mappings b)) = Some i) \<and>
     (\<forall>m. bf_failedAfterDelete w = Some m \<longrightarrow> bf_oldDeleted w \<and> removed_text b m) \<and>
     (\<forall>old. bf_phase w = Deleting old \<longrightarrow> deletes w \<noteq> [])"

definition bind_ok :: "bind_input \<Rightarrow> bind_world \<Rightarrow> bool" where
  "bind_ok b w \<longleftrightarrow> phase_ok b w \<and> calls_made_ok b w"

lemmas bind_ops = first_answered_def bind_bound_def confirm_pressed_def delete_answered_def retry_answered_def dialog_cancelled_def Let_def

lemma removed_message_ne: "removed_message b old error \<noteq> []"
  by (simp add: removed_message_def)

lemma bind_phase_step:
  assumes "bind_ok b w" and "bind_step b e w = Some w'"
  shows "phase_ok b w'"
proof (cases e)
  case (DaemonAnswers result)
  then show ?thesis using assms
    by (cases "bf_phase w") (auto simp: bind_ok_def phase_ok_def calls_made_ok_def bind_ops split: sum.splits option.splits if_splits)
next
  case PressConfirm
  then show ?thesis using assms by (cases "bf_phase w") (auto simp: bind_ok_def phase_ok_def bind_ops)
next
  case PressCancel
  then show ?thesis using assms removed_message_ne
    by (cases "bf_phase w") (auto simp: bind_ok_def phase_ok_def calls_made_ok_def removed_text_def bind_ops split: option.splits)
qed

lemma deletes_calls [simp]:
  "deletes (w\<lparr>bf_calls := bf_calls w @ [CallDelete i]\<rparr>) = deletes w @ [i]" "deletes (w\<lparr>bf_calls := bf_calls w @ [CallCreate r]\<rparr>) = deletes w"
  by (simp_all add: deletes_def)

lemma bind_calls_step:
  assumes "bind_ok b w" and "bind_step b e w = Some w'"
  shows "calls_made_ok b w'"
proof (cases e)
  case (DaemonAnswers result)
  then show ?thesis using assms
    by (cases "bf_phase w")
      (auto simp: bind_ok_def phase_ok_def calls_made_ok_def bind_ops deletes_def removed_text_def split: sum.splits option.splits if_splits)
next
  case PressConfirm
  then show ?thesis using assms by (cases "bf_phase w") (auto simp: bind_ok_def phase_ok_def calls_made_ok_def bind_ops deletes_def)
next
  case PressCancel
  then show ?thesis using assms by (cases "bf_phase w") (auto simp: bind_ok_def calls_made_ok_def bind_ops deletes_def)
qed

lemma bind_begin_ok: "bind_ok b (bind_begin b)"
  by (simp add: bind_ok_def phase_ok_def calls_made_ok_def bind_begin_def deletes_def)

definition deleted_once :: "bind_world \<Rightarrow> bind_world \<Rightarrow> bool" where
  "deleted_once w w' \<longleftrightarrow> (bf_oldDeleted w \<longrightarrow> bf_oldDeleted w' \<and> deletes w' = deletes w)"

interpretation bind: event_monotone "bind_step b" "bind_begin b" "bind_ok b" deleted_once
proof
  fix s s' e
  assume "bind_ok b s" and step: "bind_step b e s = Some s'"
  then show "bind_ok b s'" using bind_phase_step bind_calls_step unfolding bind_ok_def [of b s'] by blast
  show "deleted_once s s'" using \<open>bind_ok b s\<close> step
    by (cases e; cases "bf_phase s")
      (auto simp: deleted_once_def bind_ops deletes_def bind_ok_def phase_ok_def split: sum.splits option.splits if_splits)
qed (use bind_begin_ok in \<open>auto simp: deleted_once_def\<close>)


definition bind_conflict :: companion_error where
  "bind_conflict = ErrApi (Fin 409) ''conflict'' '''' JNull"

definition sample_old :: project_mapping where
  "sample_old = \<lparr>mp_id = ''m1'', mp_workspace_id = ''w1'', mp_board_id = Some ''b1'', mp_root_path = Some ''/code/app'', mp_repo_url_normalized = None,
     mp_enabled = True, mp_board_name = Some ''Alpha'', mp_workspace_name = None, mp_workspace_slug = None\<rparr>"

definition sample_bind :: bind_input where
  "sample_bind = \<lparr>bi_copy = sample_copy, bi_target = FolderTarget ''/code/app'' ''app'' [],
     bi_choice = \<lparr>ch_workspaceId = ''w2'', ch_boardId = ''b2'', ch_boardName = ''Beta''\<rparr>, bi_level = ''metadata'', bi_mappings = [sample_old]\<rparr>"

definition lost_binding :: "bind_event list" where
  "lost_binding = [DaemonAnswers (Inl bind_conflict), PressConfirm, DaemonAnswers (Inr ()), DaemonAnswers (Inl ErrTimeout), PressConfirm,
     DaemonAnswers (Inl ErrTimeout), PressCancel]"



text \<open>
  A repository that is bound by its address is a plain \<open>host/owner/repo\<close>: no credentials, port, scheme,
  home folder or space, and no segment that climbs or reads as an option.
\<close>

lemma alnum_plain: "alnum c \<Longrightarrow> c \<notin> {CHR ''@'', CHR '':'', CHR ''~'', CHR '' '', CHR ''/''}"
  by (auto simp: alnum_def is_upper_def is_lower_def is_digit_def)

lemma safeRepo_plain:
  assumes "safeRepo repo = Some r"
  shows "length r \<le> MAX_REPO_LENGTH \<and> set r \<inter> {CHR ''@'', CHR '':'', CHR ''~'', CHR '' ''} = {} \<and>
    (\<exists>host owner name. r = host @ ''/'' @ owner @ ''/'' @ name \<and> list_all (\<lambda>s. s \<noteq> [] \<and> s \<noteq> ''.'' \<and> s \<noteq> ''..'' \<and> hd s \<noteq> CHR ''-'') [host, owner, name])"
proof -
  have r: "normalized_repo r" "\<not> list_ex unsafeSegment (js_split CHR ''/'' r)" "length r \<le> MAX_REPO_LENGTH"
    using assms by (auto simp: safeRepo_def Let_def drop_git_def split: if_splits)
  obtain host owner name where split: "js_split CHR ''/'' r = [host, owner, name]" and segs: "host_segment host" "name_segment owner" "name_segment name"
    using r(1) by (auto simp: normalized_repo_def split: list.splits)
  have j: "r = host @ ''/'' @ owner @ ''/'' @ name" using js_split_join [of "CHR ''/''" r] split by simp
  have "set host \<union> set owner \<union> set name \<subseteq> {c. alnum c \<or> c = CHR ''.'' \<or> c = CHR ''_'' \<or> c = CHR ''-''}"
    using segs by (auto simp: host_segment_def name_segment_def list_all_iff)
  then have "set r \<inter> {CHR ''@'', CHR '':'', CHR ''~'', CHR '' ''} = {}" using alnum_plain unfolding j by fastforce
  moreover have "list_all (\<lambda>s. s \<noteq> [] \<and> s \<noteq> ''.'' \<and> s \<noteq> ''..'' \<and> hd s \<noteq> CHR ''-'') [host, owner, name]"
    using segs r(2) split by (auto simp: host_segment_def name_segment_def unsafeSegment_def take_Suc)
  ultimately show ?thesis using r(3) j by blast
qed

end
