(* ===== verification/Home_View.thy ===== *)
theory Home_View
  imports Companion_Sessions Companion_Agents Bind_Flow JS_Sort
begin

text \<open>
  The home screen of the companion app (\<open>screens/home\<close>): which sessions match the filter and in
  which order (\<open>session-view.ts\<close>, \<open>format.ts\<close>, \<open>agent-label.ts\<close>), the stored sort and the filter
  of the toolbar, the order that holds still under the pointer (\<open>use-home-view.ts\<close>), and what the
  screen makes of them (\<open>index.tsx\<close>). The collation of \<open>localeCompare\<close> and the name of a session's
  board are parameters. A control key is compared as the value whose JSON text it is. A run of
  \<open>useStableOrder\<close> is a sequence of renders with new properties, of time that passes and of its
  timer; effects run after each render, as their dependencies say.
\<close>


section \<open>Rows\<close>

datatype home_session = LiveRow tracked_session | EndedRow ended_session

text \<open>The fields of a row without \<open>ended_at\<close>.\<close>

fun row_session :: "home_session \<Rightarrow> tracked_session" where
  "row_session (LiveRow s) = s"
| "row_session (EndedRow s) = tracked_session.truncate s"

definition idOf :: "home_session \<Rightarrow> string" where
  "idOf s = native_session_id (row_session s)"


section \<open>Costs, tokens and times\<close>

definition finiteOrNull :: "jsnum option \<Rightarrow> rat option" where
  "finiteOrNull usd = (case usd of Some (Fin x) \<Rightarrow> Some x | _ \<Rightarrow> None)"

definition isCostBasis :: "string option \<Rightarrow> bool" where
  "isCostBasis basis = (basis = Some ''api_equivalent'' \<or> basis = Some ''spend'')"

definition costOf :: "tracked_session \<Rightarrow> (rat \<times> string) option" where
  "costOf s = (let usd = or_null (finiteOrNull (ts_cost_reported_usd s)) (finiteOrNull (ls_cost_estimated_usd s)) in
     if usd = None \<or> \<not> isCostBasis (ls_cost_basis s) then None else Some (the usd, the (ls_cost_basis s)))"

definition totalTokens :: "session_tokens option \<Rightarrow> jsnum" where
  "totalTokens tokens = (case tokens of None \<Rightarrow> Fin 0
     | Some t \<Rightarrow> js_plus (js_plus (js_plus (tk_input t) (tk_output t)) (tk_cache_read t)) (tk_cache_write t))"

definition usagePending :: "tracked_session \<Rightarrow> bool" where
  "usagePending s = (js_eq (totalTokens (ls_tokens s)) (Fin 0) \<and> costOf s = None)"

definition pad2 :: "nat \<Rightarrow> string" where
  "pad2 v = (let s = show_nat v in replicate (2 - length s) CHR ''0'' @ s)"

definition nonNegative :: "jsnum \<Rightarrow> rat" where
  "nonNegative ms = (case ms of Fin x \<Rightarrow> max 0 x | _ \<Rightarrow> 0)"

definition formatElapsed :: "jsnum \<Rightarrow> string" where
  "formatElapsed elapsedMs =
     (let totalSeconds = nat \<lfloor>nonNegative elapsedMs / 1000\<rfloor>;
          hours = totalSeconds div 3600;
          minutes = totalSeconds mod 3600 div 60;
          seconds = totalSeconds mod 60
      in if 0 < hours then show_nat hours @ '':'' @ pad2 minutes @ '':'' @ pad2 seconds
         else show_nat minutes @ '':'' @ pad2 seconds)"

definition formatMinutes :: "jsnum \<Rightarrow> string" where
  "formatMinutes durationMs = show_nat (nat \<lfloor>nonNegative durationMs / 60000 + 1 / 2\<rfloor>) @ '' min''"


section \<open>Names\<close>

text \<open>The home screen has its own copy of the rule for repositories.\<close>

definition home_safeRepo :: "string option \<Rightarrow> string option" where
  "home_safeRepo repo =
     (if repo = None \<or> repo = Some '''' \<or> 255 < length (the repo) then None
      else let trimmed = drop_git (the repo) in
        if \<not> normalized_repo trimmed \<or> list_ex unsafeSegment (js_split CHR ''/'' trimmed) then None else Some trimmed)"

definition repoLabel :: "string option \<Rightarrow> string" where
  "repoLabel repo = (case home_safeRepo repo of
       Some safe \<Rightarrow> drop (Suc (length (takeWhile (\<lambda>c. c \<noteq> CHR ''/'') safe))) safe
     | None \<Rightarrow> ''No git remote'')"

definition DAEMON_AGENT_IDS :: "string list" where
  "DAEMON_AGENT_IDS = [''claude_code'', ''codex_cli'', ''codex_desktop'', ''pi_cli'']"

definition isRecognizedAgent :: "string \<Rightarrow> bool" where
  "isRecognizedAgent ident = (ident \<in> set DAEMON_AGENT_IDS \<or> isKnownAgent ident)"

definition agentLabel :: "string \<Rightarrow> string" where
  "agentLabel ident = (if isRecognizedAgent ident then agentDisplayName ident else ''Unknown agent'')"

definition agentTileId :: "string \<Rightarrow> string" where
  "agentTileId ident = (if isRecognizedAgent ident then ident else ''?'')"


section \<open>Filter and sort\<close>

datatype home_sort = Recent | Name | Cost

record session_filter =
  sf_query :: string
  sf_solo :: "string option"

definition soloKeyOf :: "string \<Rightarrow> string" where
  "soloKeyOf harness = agentTileId harness"

definition normalizedQuery :: "string \<Rightarrow> string" where
  "normalizedQuery query = js_toLowerCase (js_trim query)"

definition filterActive :: "session_filter \<Rightarrow> bool" where
  "filterActive flt = (normalizedQuery (sf_query flt) \<noteq> '''' \<or> sf_solo flt \<noteq> None)"

definition matchesQuery :: "home_session \<Rightarrow> string \<Rightarrow> (tracked_session \<Rightarrow> string option) \<Rightarrow> bool" where
  "matchesQuery row query boardOf =
     (let s = row_session row;
          board = boardOf (s\<lparr>ls_repo := home_safeRepo (ls_repo s)\<rparr>)
      in list_ex (\<lambda>name. js_indexOf query (js_toLowerCase name) \<noteq> None)
           [repoLabel (ls_repo s), (case board of Some b \<Rightarrow> b | None \<Rightarrow> ''''), agentLabel (ls_harness s)])"

definition filterSessions :: "home_session list \<Rightarrow> session_filter \<Rightarrow> (tracked_session \<Rightarrow> string option) \<Rightarrow> home_session list" where
  "filterSessions rows flt boardOf =
     (let query = normalizedQuery (sf_query flt) in
      if query = '''' \<and> sf_solo flt = None then rows
      else filter (\<lambda>row. (sf_solo flt = None \<or> Some (soloKeyOf (ls_harness (row_session row))) = sf_solo flt) \<and>
             (query = '''' \<or> matchesQuery row query boardOf)) rows)"

fun recencyOf :: "home_session \<Rightarrow> jsnum" where
  "recencyOf (EndedRow s) = Fin (of_int (ended_at s))"
| "recencyOf (LiveRow s) =
     (if js_truthy (last_event_at s)
      then (case date_parse (the (last_event_at s)) of Some ms \<Rightarrow> Fin (of_int ms) | None \<Rightarrow> NInf)
      else NInf)"

definition byRecency :: "home_session \<Rightarrow> home_session \<Rightarrow> jsnum" where
  "byRecency a b = js_minus (recencyOf b) (recencyOf a)"

definition row_repo :: "home_session \<Rightarrow> string option" where
  "row_repo row = ls_repo (row_session row)"

definition NO_REMOTE_LAST :: "home_session \<Rightarrow> home_session \<Rightarrow> jsnum" where
  "NO_REMOTE_LAST a b = Fin (of_bool (home_safeRepo (row_repo a) = None) - of_bool (home_safeRepo (row_repo b) = None))"

definition byName :: "(string \<Rightarrow> string \<Rightarrow> jsnum) \<Rightarrow> home_session \<Rightarrow> home_session \<Rightarrow> jsnum" where
  "byName collate a b =
     js_or (js_or (NO_REMOTE_LAST a b) (collate (repoLabel (row_repo a)) (repoLabel (row_repo b)))) (byRecency a b)"

definition byCost :: "home_session \<Rightarrow> home_session \<Rightarrow> jsnum" where
  "byCost a b =
     (let costA = map_option fst (costOf (row_session a)); costB = map_option fst (costOf (row_session b)) in
      if costA = None \<or> costB = None then js_or (Fin (of_bool (costA = None) - of_bool (costB = None))) (byRecency a b)
      else js_or (Fin (the costB - the costA)) (byRecency a b))"

fun COMPARATORS :: "(string \<Rightarrow> string \<Rightarrow> jsnum) \<Rightarrow> home_sort \<Rightarrow> home_session \<Rightarrow> home_session \<Rightarrow> jsnum" where
  "COMPARATORS collate Recent = byRecency"
| "COMPARATORS collate Name = byName collate"
| "COMPARATORS collate Cost = byCost"

definition sortSessions :: "(string \<Rightarrow> string \<Rightarrow> jsnum) \<Rightarrow> home_session list \<Rightarrow> home_sort \<Rightarrow> home_session list" where
  "sortSessions collate rows how = js_sort (COMPARATORS collate how) rows"

definition matchSummary :: "nat \<Rightarrow> nat \<Rightarrow> string" where
  "matchSummary shown_rows all_rows = ''Showing '' @ show_nat shown_rows @ '' of '' @ show_nat all_rows @ '' '' @ (if all_rows = 1 then ''session'' else ''sessions'')"

definition noResultDetail :: "session_filter \<Rightarrow> string" where
  "noResultDetail flt =
     (let query = js_trim (sf_query flt);
          origin = (case sf_solo flt of Some solo \<Rightarrow> '' from '' @ agentLabel solo | None \<Rightarrow> '''')
      in ''Nothing today'' @ origin @ (if query \<noteq> '''' then '' matches '' @ [CHR 0x22] @ query @ [CHR 0x22] else '''') @ ''.'')"


section \<open>The stored sort and the filter\<close>

text \<open>
  \<open>local_item\<close> is the result of \<open>localStorage.getItem\<close>: \<open>None\<close> when storage throws, \<open>Some None\<close>
  when nothing is stored. The two stores live as long as the app; only the sort is stored.
\<close>

fun sort_name :: "home_sort \<Rightarrow> string" where
  "sort_name Recent = ''recent''"
| "sort_name Name = ''name''"
| "sort_name Cost = ''cost''"

definition HOME_SORTS :: "home_sort list" where
  "HOME_SORTS = [Recent, Name, Cost]"

definition readStoredSort :: "string option option \<Rightarrow> home_sort" where
  "readStoredSort local_item =
     (case local_item of None \<Rightarrow> Recent
      | Some stored \<Rightarrow> (case find (\<lambda>s. Some (sort_name s) = stored) HOME_SORTS of Some s \<Rightarrow> s | None \<Rightarrow> Recent))"

record home_stores =
  hs_sort :: home_sort
  hs_filter :: session_filter
  hs_storage :: "string option option"

definition storeSort :: "home_sort \<Rightarrow> string option option \<Rightarrow> string option option" where
  "storeSort s storage = (case storage of None \<Rightarrow> None | Some _ \<Rightarrow> Some (Some (sort_name s)))"

definition EMPTY_FILTER :: session_filter where
  "EMPTY_FILTER = \<lparr>sf_query = '''', sf_solo = None\<rparr>"

definition home_start :: "string option option \<Rightarrow> home_stores" where
  "home_start storage = \<lparr>hs_sort = readStoredSort storage, hs_filter = EMPTY_FILTER, hs_storage = storage\<rparr>"

definition setSort :: "home_sort \<Rightarrow> home_stores \<Rightarrow> home_stores" where
  "setSort s w = w\<lparr>hs_sort := s, hs_storage := storeSort s (hs_storage w)\<rparr>"

definition setQuery :: "string \<Rightarrow> home_stores \<Rightarrow> home_stores" where
  "setQuery query w = w\<lparr>hs_filter := (hs_filter w)\<lparr>sf_query := query\<rparr>\<rparr>"

definition setSolo :: "string option \<Rightarrow> home_stores \<Rightarrow> home_stores" where
  "setSolo solo w = w\<lparr>hs_filter := (hs_filter w)\<lparr>sf_solo := solo\<rparr>\<rparr>"

definition clearFilter :: "home_stores \<Rightarrow> home_stores" where
  "clearFilter w = w\<lparr>hs_filter := EMPTY_FILTER\<rparr>"


section \<open>The order that holds still\<close>

definition HOME_RESORT_INTERVAL_MS :: int where
  "HOME_RESORT_INTERVAL_MS = 10000"

record held_order =
  ho_ids :: "string list"
  ho_controlKey :: json
  ho_generation :: nat
  ho_due :: bool

definition sameOrder :: "string list \<Rightarrow> string list \<Rightarrow> bool" where
  "sameOrder a b = (length a = length b \<and> list_all2 (=) a b)"

definition sameMembers :: "string list \<Rightarrow> string list \<Rightarrow> bool" where
  "sameMembers a b = (length a = length b \<and> list_all (\<lambda>ident. ident \<in> set a) b)"

text \<open>\<open>splice(min index length, 0, id)\<close>\<close>

definition splice_in :: "nat \<Rightarrow> 'a \<Rightarrow> 'a list \<Rightarrow> 'a list" where
  "splice_in i x xs = (let n = min i (length xs) in take n xs @ x # drop n xs)"

definition slot_one :: "string list \<Rightarrow> nat \<times> string \<Rightarrow> string list \<Rightarrow> string list" where
  "slot_one keptMembers entry kept =
     (if snd entry \<in> set keptMembers then kept else splice_in (fst entry) (snd entry) kept)"

definition slotIn :: "string list \<Rightarrow> string list \<Rightarrow> string list" where
  "slotIn hold fresh =
     (let kept = filter (\<lambda>ident. ident \<in> set fresh) hold
      in fold (slot_one kept) (enumerate 0 fresh) kept)"

text \<open>\<open>None\<close> is the very object that was passed, \<open>Some\<close> a new one.\<close>

definition reconcile :: "held_order \<Rightarrow> string list \<Rightarrow> json \<Rightarrow> bool \<Rightarrow> held_order option" where
  "reconcile order fresh controlKey hold =
     (if sameOrder (ho_ids order) fresh \<and> controlKey = ho_controlKey order then None
      else let resorted = \<lparr>ho_ids = fresh, ho_controlKey = controlKey, ho_generation = ho_generation order + 1, ho_due = False\<rparr> in
        if controlKey \<noteq> ho_controlKey order then Some resorted
        else let membershipChanged = \<not> sameMembers (ho_ids order) fresh in
          if \<not> hold \<and> (membershipChanged \<or> ho_due order) then Some resorted
          else if membershipChanged then Some (order\<lparr>ho_ids := slotIn (ho_ids order) fresh\<rparr>)
          else None)"

text \<open>
  \<open>setState\<close> while rendering renders again before anything is shown; after 25 such passes React
  gives up, which is \<open>None\<close>.
\<close>

definition RENDER_PASSES :: nat where
  "RENDER_PASSES = 25"

fun render_order :: "nat \<Rightarrow> held_order \<Rightarrow> string list \<Rightarrow> json \<Rightarrow> bool \<Rightarrow> held_order option" where
  "render_order 0 order fresh controlKey hold = None"
| "render_order (Suc passes) order fresh controlKey hold =
     (case reconcile order fresh controlKey hold of
        None \<Rightarrow> Some order
      | Some order' \<Rightarrow> render_order passes order' fresh controlKey hold)"

text \<open>
  The hook between two renders: its properties, its state, the instant of the last sort, the
  armed timer (when it is due and the generation its closure holds) and the dependencies the two
  effects saw last.
\<close>

record stable_hook =
  sh_sorted :: "home_session list"
  sh_controlKey :: json
  sh_held :: bool
  sh_order :: held_order
  sh_sortedAt :: int
  sh_timer :: "(int \<times> nat) option"
  sh_sortDeps :: nat
  sh_timerDeps :: "bool \<times> nat"
  sh_now :: int

abbreviation sorted_ids :: "stable_hook \<Rightarrow> string list" where
  "sorted_ids h \<equiv> map idOf (sh_sorted h)"

definition order_pending :: "stable_hook \<Rightarrow> bool" where
  "order_pending h = (\<not> ho_due (sh_order h) \<and> \<not> sameOrder (ho_ids (sh_order h)) (sorted_ids h))"

definition sort_effect :: "stable_hook \<Rightarrow> stable_hook" where
  "sort_effect h =
     (if sh_sortDeps h = ho_generation (sh_order h) then h
      else h\<lparr>sh_sortDeps := ho_generation (sh_order h), sh_sortedAt := sh_now h\<rparr>)"

definition timer_effect :: "stable_hook \<Rightarrow> stable_hook" where
  "timer_effect h =
     (let deps = (order_pending h, ho_generation (sh_order h)) in
      if sh_timerDeps h = deps then h
      else h\<lparr>sh_timerDeps := deps,
             sh_timer := (if order_pending h
               then Some (sh_now h + max 0 (sh_sortedAt h + HOME_RESORT_INTERVAL_MS - sh_now h), ho_generation (sh_order h))
               else None)\<rparr>)"

definition order_render :: "stable_hook \<Rightarrow> stable_hook" where
  "order_render h = (case render_order RENDER_PASSES (sh_order h) (sorted_ids h) (sh_controlKey h) (sh_held h) of
       None \<Rightarrow> h
     | Some order \<Rightarrow> timer_effect (sort_effect (h\<lparr>sh_order := order\<rparr>)))"

text \<open>The first render: the effects run for the first time.\<close>

definition order_init :: "int \<Rightarrow> home_session list \<Rightarrow> json \<Rightarrow> bool \<Rightarrow> stable_hook" where
  "order_init now rows controlKey hold =
     \<lparr>sh_sorted = rows, sh_controlKey = controlKey, sh_held = hold,
      sh_order = \<lparr>ho_ids = map idOf rows, ho_controlKey = controlKey, ho_generation = 0, ho_due = False\<rparr>,
      sh_sortedAt = now, sh_timer = None, sh_sortDeps = 0, sh_timerDeps = (False, 0), sh_now = now\<rparr>"

datatype order_event =
    Rendered "home_session list" json bool
  | TimePasses nat
  | TimerFires

definition resort_fires :: "stable_hook \<Rightarrow> stable_hook" where
  "resort_fires h = (case sh_timer h of
       None \<Rightarrow> h
     | Some (due_at, generation) \<Rightarrow>
         if sh_now h < due_at then h
         else order_render (h\<lparr>sh_timer := None,
                sh_order := (if ho_generation (sh_order h) = generation then (sh_order h)\<lparr>ho_due := True\<rparr> else sh_order h)\<rparr>))"

fun order_step :: "order_event \<Rightarrow> stable_hook \<Rightarrow> stable_hook" where
  "order_step (Rendered rows controlKey hold) h = order_render (h\<lparr>sh_sorted := rows, sh_controlKey := controlKey, sh_held := hold\<rparr>)"
| "order_step (TimePasses ms) h = h\<lparr>sh_now := sh_now h + int ms\<rparr>"
| "order_step TimerFires h = resort_fires h"

definition order_run :: "order_event list \<Rightarrow> stable_hook \<Rightarrow> stable_hook" where
  "order_run events h = fold order_step events h"

text \<open>The rows on the screen: the held order with the latest data of each session.\<close>

definition stable_rows :: "stable_hook \<Rightarrow> home_session list" where
  "stable_rows h =
     (let byId = jm_from idOf (\<lambda>s. s) (sh_sorted h) []
      in List.map_filter (jm_get byId) (ho_ids (sh_order h)))"



section \<open>The screen\<close>

datatype home_mode = Revoked | PausedByServer | PausedLocally | Unreachable | Capturing

definition homeMode :: "platform_copy \<Rightarrow> device_status option \<Rightarrow> home_mode option" where
  "homeMode copy status =
     (case status of None \<Rightarrow> None
      | Some st \<Rightarrow> let model = statusModel copy st [] None None in
          Some (case sm_trayState model of
              TrayDisconnected \<Rightarrow> Revoked
            | TrayOffline \<Rightarrow> Unreachable
            | TrayPaused \<Rightarrow> (if sm_pauseControl model = Resume then PausedLocally else PausedByServer)
            | _ \<Rightarrow> Capturing))"

definition toggle_expanded :: "string \<Rightarrow> string set \<Rightarrow> string set" where
  "toggle_expanded ident expanded = (if ident \<in> expanded then expanded - {ident} else insert ident expanded)"

definition AGENT_TILE_ORDER :: "string list" where
  "AGENT_TILE_ORDER = [''claude_code'', ''codex_cli'', ''codex_desktop'', ''pi_cli'']"

definition tile_rank :: "string \<Rightarrow> nat" where
  "tile_rank key = (case js_findIndex (\<lambda>k. k = key) AGENT_TILE_ORDER of Some i \<Rightarrow> i | None \<Rightarrow> length AGENT_TILE_ORDER)"

definition agentsSeen :: "home_session list \<Rightarrow> string list" where
  "agentsSeen rows =
     (let keys = js_unique (map (\<lambda>row. soloKeyOf (ls_harness (row_session row))) rows)
      in js_sort (\<lambda>a b. Fin (of_nat (tile_rank a) - of_nat (tile_rank b))) keys)"

definition HOME_TOOLBAR_MIN_SESSIONS :: nat where
  "HOME_TOOLBAR_MIN_SESSIONS = 4"

record home_view =
  hv_showToolbar :: bool
  hv_sort :: home_sort
  hv_filter :: session_filter
  hv_controlKey :: json
  hv_live :: "home_session list"
  hv_ended :: "home_session list"
  hv_agents :: "string list"
  hv_showAgents :: bool

definition control_key :: "home_sort \<Rightarrow> session_filter \<Rightarrow> json" where
  "control_key how flt = JArr [JStr (sort_name how), JStr (normalizedQuery (sf_query flt)), jopt (sf_solo flt)]"

definition home_view_of :: "(string \<Rightarrow> string \<Rightarrow> jsnum) \<Rightarrow> (tracked_session \<Rightarrow> string option) \<Rightarrow> home_mode \<Rightarrow>
    tracked_session list \<Rightarrow> ended_session list \<Rightarrow> home_stores \<Rightarrow> home_view" where
  "home_view_of collate boardOf mode live endedToday stores =
     (let flt = hs_filter stores;
          liveInScope = (if mode \<noteq> PausedLocally then map LiveRow live else []);
          endedRows = map EndedRow endedToday;
          sessionsInScope = length liveInScope + length endedRows;
          filtering = filterActive flt;
          showToolbar = (mode \<noteq> Revoked \<and> mode \<noteq> PausedByServer \<and> (filtering \<or> HOME_TOOLBAR_MIN_SESSIONS \<le> sessionsInScope));
          viewSort = (if showToolbar then hs_sort stores else Recent);
          viewFilter = (if showToolbar then flt else EMPTY_FILTER);
          seen = agentsSeen (liveInScope @ endedRows);
          agents = (case sf_solo flt of Some solo \<Rightarrow> (if solo \<in> set seen then seen else seen @ [solo]) | None \<Rightarrow> seen)
      in \<lparr>hv_showToolbar = showToolbar, hv_sort = viewSort, hv_filter = viewFilter,
          hv_controlKey = control_key viewSort viewFilter,
          hv_live = sortSessions collate (filterSessions liveInScope viewFilter boardOf) viewSort,
          hv_ended = sortSessions collate (filterSessions endedRows viewFilter boardOf) viewSort,
          hv_agents = agents,
          hv_showAgents = (2 \<le> length agents \<or> sf_solo flt \<noteq> None)\<rparr>)"

definition anyExpanded :: "home_view \<Rightarrow> string set \<Rightarrow> bool" where
  "anyExpanded view expanded = list_ex (\<lambda>row. idOf row \<in> expanded) (hv_live view @ hv_ended view)"

definition list_held :: "bool \<Rightarrow> bool \<Rightarrow> bool \<Rightarrow> bool" where
  "list_held pointerIn focusIn any_expanded = (pointerIn \<or> focusIn \<or> any_expanded)"

text \<open>
  Where focus goes when the live row that held it leaves: the row of the same session among the
  ended ones, the next live row that stayed or else the last one, the heading, the filter field.
  \<open>holds_focus\<close> says of a row of the last commit whether focus is in it, or was when it was dropped.
\<close>

datatype row_focus = EndedTrigger string | LiveTrigger string | LiveHeading | FilterField

definition focus_after :: "string list \<Rightarrow> string list \<Rightarrow> (string \<Rightarrow> bool) \<Rightarrow> (row_focus \<Rightarrow> bool) \<Rightarrow> row_focus option" where
  "focus_after previousIds currentIds holds_focus mounted =
     (case find (\<lambda>ident. ident \<notin> set currentIds \<and> holds_focus ident) previousIds of
        None \<Rightarrow> None
      | Some leftId \<Rightarrow>
          let later = tl (dropWhile (\<lambda>ident. ident \<noteq> leftId) previousIds);
              nextLiveId = or_null (find (\<lambda>ident. ident \<in> set currentIds) later) (js_last currentIds);
              targets = [EndedTrigger leftId] @ (case nextLiveId of Some n \<Rightarrow> if n = '''' then [] else [LiveTrigger n] | None \<Rightarrow> []) @ [LiveHeading, FilterField]
          in find mounted targets)"



section \<open>Names, sorts and the filter\<close>

lemma home_safeRepo_same: "home_safeRepo repo = safeRepo repo"
  by (cases repo) (auto simp: home_safeRepo_def safeRepo_def MAX_REPO_LENGTH_def)

lemma unknown_agent_hidden: "isRecognizedAgent harness \<or> (agentLabel harness = ''Unknown agent'' \<and> soloKeyOf harness = ''?'')"
  by (simp add: agentLabel_def soloKeyOf_def agentTileId_def)

lemma stored_sort_back: "readStoredSort (storeSort s (Some item)) = s"
  by (cases s) (simp_all add: readStoredSort_def storeSort_def HOME_SORTS_def)

text \<open>What a row is found by: not its host, nor anything the rule for repositories refuses.\<close>

lemma query_sees_safe_repo:
  assumes "row_session a = s\<lparr>ls_repo := r\<rparr>" and "row_session b = s\<lparr>ls_repo := r'\<rparr>" and "home_safeRepo r = None" "home_safeRepo r' = None"
  shows "matchesQuery a query boardOf = matchesQuery b query boardOf"
  using assms by (simp add: matchesQuery_def repoLabel_def Let_def)

lemma filterSessions_filter:
  "filterSessions rows flt boardOf = filter (\<lambda>row. (sf_solo flt = None \<or> Some (soloKeyOf (ls_harness (row_session row))) = sf_solo flt) \<and>
     (normalizedQuery (sf_query flt) = '''' \<or> matchesQuery row (normalizedQuery (sf_query flt)) boardOf)) rows"
  by (simp add: filterSessions_def Let_def)

lemma inactive_filter_shows_all: "\<not> filterActive flt \<Longrightarrow> filterSessions rows flt boardOf = rows"
  by (simp add: filterActive_def filterSessions_def)

text \<open>A comparator that asks a second one on a tie.\<close>

lemma js_pos_or: "js_pos (js_or x y) \<longleftrightarrow> js_pos x \<or> \<not> js_neg x \<and> js_pos y"
  by (cases x) auto

lemma tie_break_order:
  assumes "sort_order c ok" and "sort_order d ok" and swap: "\<And>a b. ok a \<Longrightarrow> ok b \<Longrightarrow> js_neg (c a b) = js_pos (c b a)"
  shows "sort_order (\<lambda>a b. js_or (c a b) (d a b)) ok"
proof -
  note refl = sort_order.cmp_refl [OF assms(1)] sort_order.cmp_refl [OF assms(2)]
  note linear = sort_order.cmp_total [OF assms(1)] sort_order.cmp_total [OF assms(2)]
  note trans_c = sort_order.cmp_trans [OF assms(1)] and trans_d = sort_order.cmp_trans [OF assms(2)]
  have le: "cmp_le (\<lambda>a b. js_or (c a b) (d a b)) a b \<longleftrightarrow> cmp_le c a b \<and> (cmp_le c b a \<longrightarrow> cmp_le d a b)"
    if "ok a" "ok b" for a b
    using swap [OF that] by (auto simp: cmp_le_def js_pos_or)
  show ?thesis
  proof
    fix x y z assume x: "ok x"
    show "cmp_le (\<lambda>a b. js_or (c a b) (d a b)) x x" using x by (simp add: le refl)
    assume y: "ok y"
    show "cmp_le (\<lambda>a b. js_or (c a b) (d a b)) y x" if "\<not> cmp_le (\<lambda>a b. js_or (c a b) (d a b)) x y"
      using that x y linear [of x y] by (auto simp: le)
    assume z: "ok z"
    show "cmp_le (\<lambda>a b. js_or (c a b) (d a b)) x z"
      if "cmp_le (\<lambda>a b. js_or (c a b) (d a b)) x y" "cmp_le (\<lambda>a b. js_or (c a b) (d a b)) y z"
      using that x y z trans_c [of x y z] trans_c [of z x y] trans_c [of y z x] trans_d [of x y z] by (auto simp: le)
  qed
qed


lemma recency_not_NaN: "recencyOf row \<noteq> NaN" "recencyOf row \<noteq> PInf"
  by (cases row rule: recencyOf.cases; auto split: option.splits)+

lemma byRecency_le: "cmp_le byRecency a b \<longleftrightarrow> \<not> js_less (recencyOf a) (recencyOf b)"
  using recency_not_NaN [of a] recency_not_NaN [of b] by (auto simp: cmp_le_def byRecency_def js_pos_minus)

interpretation by_recency: sort_order byRecency "\<lambda>_. True"
proof
  fix x y z
  show "cmp_le byRecency x x" by (simp add: byRecency_le)
  show "\<not> cmp_le byRecency x y \<Longrightarrow> cmp_le byRecency y x"
    by (auto simp: byRecency_le dest: js_less_asym)
  show "cmp_le byRecency x y \<Longrightarrow> cmp_le byRecency y z \<Longrightarrow> cmp_le byRecency x z"
    using js_less_total [of "recencyOf x" "recencyOf y"] js_less_trans [of "recencyOf x" "recencyOf z"] js_less_trans [of "recencyOf y" "recencyOf x"]
      recency_not_NaN by (auto simp: byRecency_le)
qed

definition by_rank :: "('a \<Rightarrow> rat) \<Rightarrow> 'a \<Rightarrow> 'a \<Rightarrow> jsnum" where
  "by_rank f a b = Fin (f a - f b)"

lemma by_rank_le: "cmp_le (by_rank f) a b \<longleftrightarrow> f a \<le> f b"
  by (simp add: cmp_le_def by_rank_def not_less)

lemma by_rank_order: "sort_order (by_rank f) ok"
  by unfold_locales (simp_all add: by_rank_le)

lemma by_rank_swap: "js_neg (by_rank f a b) = js_pos (by_rank f b a)"
  by (simp add: by_rank_def)

text \<open>What is assumed of a collation: it orders strings and swaps its sign.\<close>

definition collation :: "(string \<Rightarrow> string \<Rightarrow> jsnum) \<Rightarrow> bool" where
  "collation collate \<longleftrightarrow> sort_order collate (\<lambda>_. True) \<and> (\<forall>a b. js_neg (collate a b) = js_pos (collate b a))"

lemma collation_cmp3: "collation cmp3"
  unfolding collation_def by (intro conjI; unfold_locales?) (auto simp: cmp3_def)

lemma sort_order_on: "sort_order c (\<lambda>_. True) \<Longrightarrow> sort_order (\<lambda>a b. c (f a) (f b)) (\<lambda>_. True)"
  unfolding sort_order_def cmp_le_def by blast

lemma js_neg_or: "js_neg (js_or x y) \<longleftrightarrow> js_neg x \<or> \<not> js_pos x \<and> js_neg y"
  by (cases x) auto

lemma byName_order:
  assumes "collation collate"
  shows "sort_order (byName collate) (\<lambda>_. True)"
proof -
  let ?remote = "\<lambda>row. of_bool (home_safeRepo (row_repo row) = None) :: rat"
  let ?label = "\<lambda>a b. collate (repoLabel (row_repo a)) (repoLabel (row_repo b))"
  have remote: "NO_REMOTE_LAST = by_rank ?remote" by (intro ext) (simp add: NO_REMOTE_LAST_def by_rank_def)
  have label: "sort_order ?label (\<lambda>_. True)" using assms by (auto simp: collation_def intro: sort_order_on)
  have "sort_order (\<lambda>a b. js_or (by_rank ?remote a b) (?label a b)) (\<lambda>_. True)"
    by (rule tie_break_order [OF by_rank_order label by_rank_swap])
  then have "sort_order (\<lambda>a b. js_or (js_or (by_rank ?remote a b) (?label a b)) (byRecency a b)) (\<lambda>_. True)"
    by (rule tie_break_order [OF _ by_recency.sort_order_axioms]) (use assms in \<open>auto simp: js_neg_or js_pos_or by_rank_swap collation_def\<close>)
  then show ?thesis by (simp add: byName_def [abs_def] remote)
qed


definition cost_cmp :: "home_session \<Rightarrow> home_session \<Rightarrow> jsnum" where
  "cost_cmp a b = (case (costOf (row_session a), costOf (row_session b)) of
     (Some x, Some y) \<Rightarrow> Fin (fst y - fst x) | (None, Some _) \<Rightarrow> Fin 1 | (Some _, None) \<Rightarrow> Fin (-1) | (None, None) \<Rightarrow> Fin 0)"

lemma byCost_cmp: "byCost a b = js_or (cost_cmp a b) (byRecency a b)"
  by (auto simp: byCost_def cost_cmp_def split: option.splits)

lemma cost_cmp_le: "cmp_le cost_cmp a b \<longleftrightarrow> (case (costOf (row_session a), costOf (row_session b)) of
     (Some x, Some y) \<Rightarrow> fst y \<le> fst x | (None, Some _) \<Rightarrow> False | _ \<Rightarrow> True)"
  by (auto simp: cmp_le_def cost_cmp_def not_less split: option.splits)

lemma byCost_order: "sort_order byCost (\<lambda>_. True)"
proof -
  have "sort_order cost_cmp (\<lambda>_. True)"
  proof
    fix x y z
    show "cmp_le cost_cmp x x" by (cases "costOf (row_session x)") (simp_all add: cost_cmp_le)
    show "\<not> cmp_le cost_cmp x y \<Longrightarrow> cmp_le cost_cmp y x"
      by (cases "costOf (row_session x)"; cases "costOf (row_session y)") (simp_all add: cost_cmp_le)
    show "cmp_le cost_cmp x y \<Longrightarrow> cmp_le cost_cmp y z \<Longrightarrow> cmp_le cost_cmp x z"
      by (cases "costOf (row_session x)"; cases "costOf (row_session y)"; cases "costOf (row_session z)") (simp_all add: cost_cmp_le)
  qed
  then have "sort_order (\<lambda>a b. js_or (cost_cmp a b) (byRecency a b)) (\<lambda>_. True)"
    by (rule tie_break_order [OF _ by_recency.sort_order_axioms]) (auto simp: cost_cmp_def split: option.splits)
  then show ?thesis by (simp add: byCost_cmp [abs_def])
qed

lemma home_sort_order: "collation collate \<Longrightarrow> sort_order (COMPARATORS collate how) (\<lambda>_. True)"
  by (cases how) (simp_all add: byName_order byCost_order by_recency.sort_order_axioms)

text \<open>The list is a stable sorted permutation of the sessions, in every sort.\<close>

lemma sortSessions_sorts:
  assumes "collation collate"
  shows "mset (sortSessions collate rows how) = mset rows \<and>
    sorted_wrt (cmp_le (COMPARATORS collate how)) (sortSessions collate rows how) \<and>
    sortSessions collate (sortSessions collate rows how) how = sortSessions collate rows how"
proof -
  have "\<forall>x\<in>set rows. True" by simp
  then show ?thesis
    using sort_order.sort_sorted [OF home_sort_order [OF assms]] sort_order.sort_idem [OF home_sort_order [OF assms]]
    by (simp add: sortSessions_def)
qed

text \<open>A session whose cost is not known ranks after every one with a figure.\<close>

lemma unknown_cost_last:
  assumes "costOf (row_session a) = None" and "costOf (row_session b) \<noteq> None"
  shows "js_pos (byCost a b)"
  using assms by (auto simp: byCost_cmp cost_cmp_def)

text \<open>The tile of the agent that is filtered for is always there, so that it can be cleared.\<close>

lemma solo_tile_kept: "sf_solo (hs_filter stores) = Some solo \<Longrightarrow>
    solo \<in> set (hv_agents (home_view_of collate boardOf mode live endedToday stores))
    \<and> hv_showAgents (home_view_of collate boardOf mode live endedToday stores)"
  by (simp add: home_view_of_def Let_def)

text \<open>No filter and no order applies that the toolbar does not show.\<close>

lemma empty_filter [simp]: "filterSessions rows EMPTY_FILTER boardOf = rows"
  by (rule inactive_filter_shows_all) (simp add: filterActive_def EMPTY_FILTER_def normalizedQuery_def js_trim_def js_toLowerCase_def)

lemma hidden_toolbar_filters_nothing:
  fixes stores collate boardOf live endedToday mode
  defines "view \<equiv> home_view_of collate boardOf mode live endedToday stores"
  assumes hidden: "\<not> hv_showToolbar view" and "mode \<noteq> PausedLocally"
  shows "hv_sort view = Recent \<and> mset (hv_live view) = mset (map LiveRow live) \<and> mset (hv_ended view) = mset (map EndedRow endedToday)"
proof -
  have flt: "hv_filter view = (if hv_showToolbar view then hs_filter stores else EMPTY_FILTER)"
    unfolding view_def home_view_of_def Let_def home_view.simps by (simp only:)
  have "hv_sort view = (if hv_showToolbar view then hs_sort stores else Recent)"
    unfolding view_def home_view_of_def Let_def home_view.simps by (simp only:)
  moreover have "hv_live view = sortSessions collate (filterSessions (map LiveRow live) (hv_filter view) boardOf) (hv_sort view)"
    "hv_ended view = sortSessions collate (filterSessions (map EndedRow endedToday) (hv_filter view) boardOf) (hv_sort view)"
    using assms(3) by (simp_all add: view_def home_view_of_def Let_def)
  ultimately show ?thesis using hidden flt by (simp add: sortSessions_def)
qed

lemma active_filter_shows_toolbar:
  "mode \<noteq> Revoked \<Longrightarrow> mode \<noteq> PausedByServer \<Longrightarrow> filterActive (hs_filter stores) \<Longrightarrow>
     hv_showToolbar (home_view_of collate boardOf mode live endedToday stores)"
  by (simp add: home_view_of_def Let_def)



section \<open>Slotting in\<close>

lemma sameOrder_iff [simp]: "sameOrder a b \<longleftrightarrow> a = b"
  by (auto simp: sameOrder_def list.rel_eq)

lemma splice_in_mset [simp]: "mset (splice_in i x xs) = add_mset x (mset xs)"
proof -
  have "mset (take n xs) + mset (drop n xs) = mset xs" for n
    by (metis append_take_drop_id mset_append)
  then show ?thesis by (simp add: splice_in_def Let_def)
qed

lemma splice_in_length [simp]: "length (splice_in i x xs) = Suc (length xs)"
  by (simp add: splice_in_def Let_def)

lemma splice_in_filter: "\<not> P x \<Longrightarrow> filter P (splice_in i x xs) = filter P xs"
proof -
  have "filter P (take n xs) @ filter P (drop n xs) = filter P xs" for n
    by (metis append_take_drop_id filter_append)
  moreover assume "\<not> P x"
  ultimately show ?thesis by (simp add: splice_in_def Let_def)
qed

lemma splice_in_nth: "i \<le> length xs \<Longrightarrow> splice_in i x xs ! i = x" "j < i \<Longrightarrow> i \<le> length xs \<Longrightarrow> splice_in i x xs ! j = xs ! j"
  by (simp_all add: splice_in_def Let_def nth_append)

text \<open>
  After a prefix of the fresh order: the kept rows stay in order, each new one stands at its index
  in the fresh order. The index is never beyond the end, so \<open>Math.min\<close> never takes effect.
\<close>

lemma slotting:
  assumes "distinct pre"
  shows "mset (fold (slot_one kept) (enumerate 0 pre) kept) = mset kept + mset (filter (\<lambda>ident. ident \<notin> set kept) pre) \<and>
    filter (\<lambda>ident. ident \<in> set kept) (fold (slot_one kept) (enumerate 0 pre) kept) = kept \<and>
    length pre \<le> length (fold (slot_one kept) (enumerate 0 pre) kept) \<and>
    (\<forall>i<length pre. pre ! i \<notin> set kept \<longrightarrow> fold (slot_one kept) (enumerate 0 pre) kept ! i = pre ! i)"
  using assms
proof (induction pre rule: rev_induct)
  case Nil
  then show ?case by simp
next
  case (snoc x pre)
  let ?r = "fold (slot_one kept) (enumerate 0 pre) kept"
  let ?new = "\<lambda>ident. ident \<notin> set kept"
  have ih: "mset ?r = mset kept + mset (filter ?new pre)" "filter (\<lambda>ident. ident \<in> set kept) ?r = kept"
    "length pre \<le> length ?r" "\<forall>i<length pre. pre ! i \<notin> set kept \<longrightarrow> ?r ! i = pre ! i"
    using snoc by auto
  have split: "fold (slot_one kept) (enumerate 0 (pre @ [x])) kept = slot_one kept (length pre, x) ?r"
    by (simp add: enumerate_append_eq)
  show ?case
  proof (cases "x \<in> set kept")
    case True
    let ?old = "filter (\<lambda>ident. ident \<in> set kept) (pre @ [x])"
    have "card (set ?old) \<le> card (set kept)" by (rule card_mono) auto
    moreover have "card (set ?old) = length ?old" using snoc.prems by (intro distinct_card distinct_filter)
    ultimately have "length ?old \<le> length kept" using card_length [of kept] by simp
    then have "length (pre @ [x]) \<le> length kept + length (filter ?new pre)"
      using True sum_length_filter_compl [of "\<lambda>ident. ident \<in> set kept" pre] by simp
    also have "\<dots> = length ?r" using ih(1) by (metis size_mset size_union)
    finally have "length (pre @ [x]) \<le> length ?r" .
    moreover have "slot_one kept (length pre, x) ?r = ?r" using True by (simp add: slot_one_def)
    ultimately show ?thesis using True ih unfolding split by (auto simp: nth_append less_Suc_eq)
  next
    case False
    have r: "slot_one kept (length pre, x) ?r = splice_in (length pre) x ?r" using False by (simp add: slot_one_def)
    have "splice_in (length pre) x ?r ! i = (pre @ [x]) ! i" if "i < length (pre @ [x])" "(pre @ [x]) ! i \<notin> set kept" for i
      using that ih(3,4) by (cases "i < length pre") (auto simp: nth_append splice_in_nth less_Suc_eq)
    moreover have "filter (\<lambda>ident. ident \<in> set kept) (splice_in (length pre) x ?r) = kept"
      using ih(2) False splice_in_filter [of "\<lambda>ident. ident \<in> set kept" x] by simp
    moreover have "mset (splice_in (length pre) x ?r) = mset kept + mset (filter ?new (pre @ [x]))"
      using ih(1) False by simp
    ultimately show ?thesis using ih(3) unfolding split r by simp
  qed
qed

lemma slotIn_laws:
  assumes "distinct hold" and "distinct fresh"
  shows "mset (slotIn hold fresh) = mset fresh"
    and "filter (\<lambda>ident. ident \<in> set hold) (slotIn hold fresh) = filter (\<lambda>ident. ident \<in> set fresh) hold"
    and "i < length fresh \<Longrightarrow> fresh ! i \<notin> set hold \<Longrightarrow> slotIn hold fresh ! i = fresh ! i"
proof -
  let ?kept = "filter (\<lambda>ident. ident \<in> set fresh) hold"
  have eq: "slotIn hold fresh = fold (slot_one ?kept) (enumerate 0 fresh) ?kept" by (simp add: slotIn_def Let_def)
  note laws = slotting [OF assms(2), of ?kept, folded eq]
  have "mset ?kept = mset (filter (\<lambda>ident. ident \<in> set hold) fresh)"
    using assms by (intro iffD1 [OF set_eq_iff_mset_eq_distinct]) auto
  moreover have "filter (\<lambda>ident. ident \<notin> set ?kept) fresh = filter (\<lambda>ident. ident \<notin> set hold) fresh"
    by (rule filter_cong) auto
  ultimately show m: "mset (slotIn hold fresh) = mset fresh"
    using laws by (simp add: mset_filter_split)
  have "set (slotIn hold fresh) = set fresh" using m by (metis set_mset_mset)
  then have "filter (\<lambda>ident. ident \<in> set hold) (slotIn hold fresh) = filter (\<lambda>ident. ident \<in> set ?kept) (slotIn hold fresh)"
    by (intro filter_cong) auto
  then show "filter (\<lambda>ident. ident \<in> set hold) (slotIn hold fresh) = ?kept" using laws by simp
  show "i < length fresh \<Longrightarrow> fresh ! i \<notin> set hold \<Longrightarrow> slotIn hold fresh ! i = fresh ! i" using laws by auto
qed


lemma slotIn_members: "distinct hold \<Longrightarrow> distinct fresh \<Longrightarrow> set (slotIn hold fresh) = set fresh \<and> distinct (slotIn hold fresh)"
  using slotIn_laws(1) by (metis mset_eq_setD mset_eq_imp_distinct_iff)

lemma sameMembers_iff: "distinct a \<Longrightarrow> distinct b \<Longrightarrow> sameMembers a b \<longleftrightarrow> set a = set b"
proof -
  assume "distinct a" and "distinct b"
  then have len: "length a = card (set a)" "length b = card (set b)" by (simp_all add: distinct_card)
  have "sameMembers a b \<longleftrightarrow> card (set b) = card (set a) \<and> set b \<subseteq> set a"
    unfolding sameMembers_def list_all_iff len by auto
  also have "\<dots> \<longleftrightarrow> set a = set b" using card_subset_eq [of "set a" "set b"] by auto
  finally show ?thesis .
qed


section \<open>One render\<close>

abbreviation ids_of :: "stable_hook \<Rightarrow> string list" where
  "ids_of h \<equiv> ho_ids (sh_order h)"

text \<open>The order a render settles on, by cases.\<close>

datatype render_outcome = Untouched | Resorted | Slotted

definition outcome_of :: "held_order \<Rightarrow> string list \<Rightarrow> json \<Rightarrow> bool \<Rightarrow> render_outcome" where
  "outcome_of order fresh key hold =
     (if ho_ids order = fresh \<and> key = ho_controlKey order then Untouched
      else if key \<noteq> ho_controlKey order then Resorted
      else if \<not> hold \<and> (set (ho_ids order) \<noteq> set fresh \<or> ho_due order) then Resorted
      else if set (ho_ids order) \<noteq> set fresh then Slotted
      else Untouched)"

lemma reconcile_outcome:
  assumes "distinct (ho_ids order)" and "distinct fresh"
  shows "reconcile order fresh key hold = (case outcome_of order fresh key hold of
      Untouched \<Rightarrow> None
    | Resorted \<Rightarrow> Some \<lparr>ho_ids = fresh, ho_controlKey = key, ho_generation = ho_generation order + 1, ho_due = False\<rparr>
    | Slotted \<Rightarrow> Some (order\<lparr>ho_ids := slotIn (ho_ids order) fresh\<rparr>))"
  using assms by (simp add: reconcile_def outcome_of_def Let_def sameMembers_iff)

lemma reconcile_settles:
  assumes "distinct (ho_ids order)" and "distinct fresh" and changed: "reconcile order fresh key hold = Some order'"
  shows "reconcile order' fresh key hold = None"
proof (cases "outcome_of order fresh key hold")
  case Untouched
  then show ?thesis using changed by (simp add: reconcile_outcome [OF assms(1,2)])
next
  case Resorted
  then have "ho_ids order' = fresh" "ho_controlKey order' = key"
    using changed by (auto simp: reconcile_outcome [OF assms(1,2)])
  then show ?thesis by (simp add: reconcile_def)
next
  case Slotted
  then have "order' = order\<lparr>ho_ids := slotIn (ho_ids order) fresh\<rparr>" "hold" "ho_controlKey order = key"
    using changed by (auto simp: reconcile_outcome [OF assms(1,2)] outcome_of_def split: if_splits)
  moreover have "sameMembers (slotIn (ho_ids order) fresh) fresh"
    using slotIn_members [OF assms(1,2)] assms(2) by (simp add: sameMembers_iff)
  ultimately show ?thesis by (simp add: reconcile_def Let_def)
qed

lemma render_settles:
  assumes "distinct (ho_ids order)" and "distinct fresh"
  shows "render_order RENDER_PASSES order fresh key hold =
    Some (case reconcile order fresh key hold of None \<Rightarrow> order | Some order' \<Rightarrow> order')"
proof -
  have "render_order (Suc (Suc n)) order fresh key hold = Some (case reconcile order fresh key hold of None \<Rightarrow> order | Some order' \<Rightarrow> order')" for n
    using reconcile_settles [OF assms, of key hold] by (simp split: option.split)
  from this [of 23] show ?thesis by (simp add: RENDER_PASSES_def)
qed

text \<open>
  Two rows of the same session would never settle while they are held, and React would give up;
  the store of sessions lists each once (theory \<open>Companion_Sessions\<close>).
\<close>

lemma duplicate_rows_never_settle:
  assumes "ho_ids order = [a]" and "ho_controlKey order = key"
  shows "render_order n order [a, a] key True = None"
  using assms by (induction n arbitrary: order) (simp_all add: reconcile_def sameMembers_def slotIn_def slot_one_def)

text \<open>
  The hook is consistent: the order has the rows of the last render, and unless it shows them as
  sorted, or may not sort them, the timer of this generation is armed, not before ten seconds have
  passed since the last sort and not later than then or now.
\<close>

definition resort_ok :: "stable_hook \<Rightarrow> bool" where
  "resort_ok h \<longleftrightarrow> (if order_pending h
     then \<exists>due_at. sh_timer h = Some (due_at, ho_generation (sh_order h)) \<and>
            sh_sortedAt h + HOME_RESORT_INTERVAL_MS \<le> due_at \<and> due_at \<le> max (sh_now h) (sh_sortedAt h + HOME_RESORT_INTERVAL_MS)
     else sh_timer h = None)"

definition order_base :: "stable_hook \<Rightarrow> bool" where
  "order_base h \<longleftrightarrow> distinct (ids_of h) \<and> sh_sortDeps h = ho_generation (sh_order h) \<and> sh_sortedAt h \<le> sh_now h \<and>
     (ho_due (sh_order h) \<longrightarrow> sh_sortedAt h + HOME_RESORT_INTERVAL_MS \<le> sh_now h)"

definition order_ok :: "stable_hook \<Rightarrow> bool" where
  "order_ok h \<longleftrightarrow> order_base h \<and> resort_ok h \<and> sh_timerDeps h = (order_pending h, ho_generation (sh_order h)) \<and>
     set (ids_of h) = set (sorted_ids h) \<and> ho_controlKey (sh_order h) = sh_controlKey h \<and> distinct (sorted_ids h) \<and>
     (\<not> sh_held h \<longrightarrow> ho_due (sh_order h) \<longrightarrow> ids_of h = sorted_ids h)"

text \<open>What a timer may look like when a render begins: that of the last commit, or just fired.\<close>

definition timer_before :: "stable_hook \<Rightarrow> bool" where
  "timer_before h \<longleftrightarrow> (\<exists>p. sh_timerDeps h = (p, ho_generation (sh_order h)) \<and> (ho_due (sh_order h) \<and> p \<or>
     (if p then \<exists>due_at. sh_timer h = Some (due_at, ho_generation (sh_order h)) \<and>
            sh_sortedAt h + HOME_RESORT_INTERVAL_MS \<le> due_at \<and> due_at \<le> max (sh_now h) (sh_sortedAt h + HOME_RESORT_INTERVAL_MS)
      else sh_timer h = None)))"


lemma timer_effect_fields [simp]:
  "sh_order (timer_effect h) = sh_order h" "sh_sorted (timer_effect h) = sh_sorted h" "sh_controlKey (timer_effect h) = sh_controlKey h"
  "sh_held (timer_effect h) = sh_held h" "sh_sortedAt (timer_effect h) = sh_sortedAt h" "sh_sortDeps (timer_effect h) = sh_sortDeps h"
  "sh_now (timer_effect h) = sh_now h" "sh_timerDeps (timer_effect h) = (order_pending h, ho_generation (sh_order h))"
  by (simp_all add: timer_effect_def Let_def)

lemma sort_effect_fields [simp]:
  "sh_order (sort_effect h) = sh_order h" "sh_sorted (sort_effect h) = sh_sorted h" "sh_controlKey (sort_effect h) = sh_controlKey h"
  "sh_held (sort_effect h) = sh_held h" "sh_sortDeps (sort_effect h) = ho_generation (sh_order h)"
  "sh_now (sort_effect h) = sh_now h" "sh_timerDeps (sort_effect h) = sh_timerDeps h" "order_pending (sort_effect h) = order_pending h"
  by (simp_all add: sort_effect_def order_pending_def)

lemma pending_timer_effect [simp]: "order_pending (timer_effect h) = order_pending h"
  by (simp add: order_pending_def)

lemma timer_effect_ok:
  assumes "timer_before h"
  shows "resort_ok (timer_effect h)"
proof -
  have "order_pending h \<Longrightarrow> \<not> ho_due (sh_order h)" by (simp add: order_pending_def)
  then show ?thesis
    using assms
    by (cases "sh_timer h") (auto simp: resort_ok_def timer_before_def timer_effect_def Let_def order_pending_def split: if_splits)
qed

lemma rendered_order_ok:
  assumes base: "order_base h" and timer: "timer_before h" and rows: "distinct (sorted_ids h)"
  shows "order_ok (order_render h)"
proof -
  note render = reconcile_outcome [of "sh_order h", OF _ rows] render_settles [of "sh_order h", OF _ rows]
  have ids: "distinct (ids_of h)" and deps: "sh_sortDeps h = ho_generation (sh_order h)" using base by (simp_all add: order_base_def)
  have still: "sort_effect h = h" using deps by (simp add: sort_effect_def)
  show ?thesis
  proof (cases "outcome_of (sh_order h) (sorted_ids h) (sh_controlKey h) (sh_held h)")
    case Untouched
    then have "order_render h = timer_effect h" using ids still by (simp add: order_render_def render)
    then show ?thesis
      using base timer_effect_ok [OF timer] rows Untouched
      by (auto simp: order_ok_def order_base_def outcome_of_def split: if_splits)
  next
    case Slotted
    define h' where "h' = h\<lparr>sh_order := (sh_order h)\<lparr>ho_ids := slotIn (ids_of h) (sorted_ids h)\<rparr>\<rparr>"
    have "order_render h = timer_effect (sort_effect h')" using ids Slotted by (simp add: order_render_def render h'_def)
    also have "sort_effect h' = h'" using deps by (simp add: sort_effect_def h'_def)
    finally have r: "order_render h = timer_effect h'" .
    have "timer_before h' = timer_before h" by (simp add: timer_before_def h'_def)
    then have "timer_before h'" using timer by simp
    then show ?thesis
      using base timer_effect_ok [of h'] rows Slotted slotIn_members [OF ids rows]
      by (auto simp: r order_ok_def order_base_def outcome_of_def h'_def split: if_splits)
  next
    case Resorted
    define h' where "h' = h\<lparr>sh_order := \<lparr>ho_ids = sorted_ids h, ho_controlKey = sh_controlKey h, ho_generation = ho_generation (sh_order h) + 1, ho_due = False\<rparr>\<rparr>"
    have r: "order_render h = timer_effect (sort_effect h')" using ids Resorted by (simp add: order_render_def render h'_def)
    have "\<not> order_pending h'" by (simp add: h'_def order_pending_def)
    moreover have "sh_timerDeps h' \<noteq> (False, ho_generation (sh_order h'))" using timer by (auto simp: h'_def timer_before_def)
    ultimately have "sh_timer (timer_effect (sort_effect h')) = None"
      by (simp add: timer_effect_def [of "sort_effect h'"] Let_def)
    then have "resort_ok (timer_effect (sort_effect h'))" using \<open>\<not> order_pending h'\<close> by (simp add: resort_ok_def)
    then show ?thesis
      using base rows by (auto simp: r order_ok_def order_base_def h'_def sort_effect_def)
  qed
qed

lemma timer_before_render: "order_ok h \<Longrightarrow> timer_before (h\<lparr>sh_sorted := rows, sh_controlKey := key, sh_held := hold\<rparr>)"
  by (auto simp: order_ok_def resort_ok_def timer_before_def)

text \<open>The rows of a render are told apart by their session.\<close>

fun rows_distinct :: "order_event \<Rightarrow> bool" where
  "rows_distinct (Rendered rows _ _) = distinct (map idOf rows)"
| "rows_distinct _ = True"

lemma fired_ok:
  assumes "order_ok h" and "sh_timer h = Some (due_at, g)" and "due_at \<le> sh_now h"
  shows "g = ho_generation (sh_order h) \<and> order_base (h\<lparr>sh_timer := None, sh_order := (sh_order h)\<lparr>ho_due := True\<rparr>\<rparr>) \<and>
    timer_before (h\<lparr>sh_timer := None, sh_order := (sh_order h)\<lparr>ho_due := True\<rparr>\<rparr>)"
  using assms by (auto simp: order_ok_def order_base_def resort_ok_def timer_before_def split: if_splits)

lemma order_step_ok: "order_ok h \<Longrightarrow> rows_distinct e \<Longrightarrow> order_ok (order_step e h)"
proof (induction e)
  case (Rendered rows key hold)
  then have "order_base (h\<lparr>sh_sorted := rows, sh_controlKey := key, sh_held := hold\<rparr>)" by (simp add: order_ok_def order_base_def)
  then show ?case using rendered_order_ok timer_before_render Rendered by simp
next
  case (TimePasses ms)
  then show ?case by (auto simp: order_ok_def order_base_def resort_ok_def order_pending_def)
next
  case TimerFires
  show ?case
  proof (cases "sh_timer h")
    case None
    then show ?thesis using TimerFires by (simp add: resort_fires_def)
  next
    case (Some armed)
    obtain due_at g where armed: "armed = (due_at, g)" by fastforce
    show ?thesis
      using TimerFires(1) fired_ok [OF TimerFires(1), of due_at g] Some
        rendered_order_ok [of "h\<lparr>sh_timer := None, sh_order := (sh_order h)\<lparr>ho_due := True\<rparr>\<rparr>"]
      by (simp add: resort_fires_def armed not_less order_ok_def [of h])
  qed
qed

lemma order_run_ok: "order_ok h \<Longrightarrow> \<forall>e\<in>set es. rows_distinct e \<Longrightarrow> order_ok (order_run es h)"
  by (induction es arbitrary: h) (simp_all add: order_run_def order_step_ok)

lemma order_init_ok: "distinct (map idOf rows) \<Longrightarrow> order_ok (order_init now rows key hold)"
  by (simp add: order_init_def order_ok_def order_base_def resort_ok_def order_pending_def)



section \<open>What is on the screen\<close>

lemma row_of_id:
  assumes "distinct (map idOf rows)" and "row \<in> set rows"
  shows "jm_get (jm_from idOf (\<lambda>s. s) rows []) (idOf row) = Some row"
proof -
  obtain found where "find (\<lambda>r. idOf r = idOf row) (rev rows) = Some found"
    using assms(2) by (cases "find (\<lambda>r. idOf r = idOf row) (rev rows)") (auto simp: find_None_iff)
  moreover from this have "found = row"
    using assms by (auto dest!: find_SomeD simp: distinct_map inj_on_def)
  ultimately show ?thesis by (simp add: jm_from_get)
qed

lemma rows_of_ids:
  assumes "distinct (map idOf rows)" and "set some_rows \<subseteq> set rows"
  shows "List.map_filter (jm_get (jm_from idOf (\<lambda>s. s) rows [])) (map idOf some_rows) = some_rows"
  using assms(2) by (induction some_rows) (simp_all add: row_of_id [OF assms(1)] List.map_filter_simps)

lemma rows_shown:
  assumes "order_ok h"
  shows "mset (stable_rows h) = mset (sh_sorted h)"
    and "map idOf (stable_rows h) = ids_of h"
    and "ids_of h = sorted_ids h \<Longrightarrow> stable_rows h = sh_sorted h"
proof -
  have fresh: "distinct (sorted_ids h)" and ids: "set (ids_of h) = set (sorted_ids h)" "distinct (ids_of h)"
    using assms by (simp_all add: order_ok_def order_base_def)
  define rows where "rows = map (\<lambda>ident. the (jm_get (jm_from idOf (\<lambda>s. s) (sh_sorted h) []) ident)) (ids_of h)"
  have get: "\<exists>row\<in>set (sh_sorted h). ident = idOf row \<and> jm_get (jm_from idOf (\<lambda>s. s) (sh_sorted h) []) ident = Some row"
    if "ident \<in> set (ids_of h)" for ident
    using that ids(1) row_of_id [OF fresh] by auto
  have rows: "map idOf rows = ids_of h" "set rows \<subseteq> set (sh_sorted h)"
    unfolding rows_def by (auto dest!: get intro!: map_idI)
  have shown: "stable_rows h = rows"
    using rows_of_ids [OF fresh rows(2)] by (simp add: stable_rows_def rows(1))
  then show "map idOf (stable_rows h) = ids_of h" using rows by simp
  have inj: "inj_on idOf (set (sh_sorted h))" using fresh by (simp add: distinct_map)
  have "set rows = set (sh_sorted h)"
    using rows ids(1) inj by (metis inj_on_image_eq_iff list.set_map subset_refl)
  moreover have "distinct rows" "distinct (sh_sorted h)" using rows(1) ids(2) fresh by (metis distinct_map)+
  ultimately show "mset (stable_rows h) = mset (sh_sorted h)" unfolding shown by (simp add: set_eq_iff_mset_eq_distinct)
  show "ids_of h = sorted_ids h \<Longrightarrow> stable_rows h = sh_sorted h"
    using rows_of_ids [OF fresh subset_refl] by (simp add: stable_rows_def)
qed

text \<open>When the timer fires while nothing holds the rows, they are sorted.\<close>

lemma timer_sorts:
  assumes "order_ok h" and "sh_timer h = Some (due_at, g)" and "due_at \<le> sh_now h" and "\<not> sh_held h"
  shows "stable_rows (order_step TimerFires h) = sh_sorted h"
proof -
  let ?h = "h\<lparr>sh_timer := None, sh_order := (sh_order h)\<lparr>ho_due := True\<rparr>\<rparr>"
  have ok: "order_ok (order_render ?h)" and step: "order_step TimerFires h = order_render ?h"
    using fired_ok [OF assms(1-3)] rendered_order_ok [of ?h] assms by (simp_all add: resort_fires_def not_less order_ok_def [of h])
  have ids: "distinct (ids_of ?h)" "distinct (sorted_ids ?h)" "ho_controlKey (sh_order h) = sh_controlKey h"
    using assms(1) by (simp_all add: order_ok_def order_base_def)
  have "outcome_of (sh_order ?h) (sorted_ids ?h) (sh_controlKey ?h) (sh_held ?h) = (if ids_of h = sorted_ids h then Untouched else Resorted)"
    using ids(3) assms(4) by (simp add: outcome_of_def)
  then have "ids_of (order_render ?h) = sorted_ids h \<and> sh_sorted (order_render ?h) = sh_sorted h"
    using render_settles [OF ids(1,2)] reconcile_outcome [OF ids(1,2)]
    by (simp add: order_render_def split: if_splits)
  then show ?thesis using rows_shown(3) [OF ok] step by simp
qed

text \<open>How a render may move the rows that stay.\<close>

lemma render_moves:
  assumes "distinct (ids_of h)" and "distinct (sorted_ids h)"
  shows "filter (\<lambda>ident. ident \<in> set (ids_of (order_render h))) (ids_of h) = filter (\<lambda>ident. ident \<in> set (ids_of h)) (ids_of (order_render h))
     \<or> sh_controlKey h \<noteq> ho_controlKey (sh_order h)
     \<or> \<not> sh_held h \<and> (set (ids_of h) \<noteq> set (sorted_ids h) \<or> ho_due (sh_order h))"
proof (cases "outcome_of (sh_order h) (sorted_ids h) (sh_controlKey h) (sh_held h)")
  case Resorted
  then show ?thesis by (auto simp: outcome_of_def split: if_splits)
next
  case Untouched
  then show ?thesis using render_settles [OF assms] reconcile_outcome [OF assms] by (simp add: order_render_def)
next
  case Slotted
  then have "ids_of (order_render h) = slotIn (ids_of h) (sorted_ids h)"
    using render_settles [OF assms] reconcile_outcome [OF assms] by (simp add: order_render_def)
  then show ?thesis using slotIn_laws(2) [OF assms] slotIn_members [OF assms] by simp
qed


lemma step_moves:
  assumes ok: "order_ok h" and rows: "rows_distinct e"
  shows "filter (\<lambda>ident. ident \<in> set (ids_of (order_step e h))) (ids_of h) = filter (\<lambda>ident. ident \<in> set (ids_of h)) (ids_of (order_step e h))
     \<or> sh_controlKey (order_step e h) \<noteq> sh_controlKey h
     \<or> \<not> sh_held (order_step e h) \<and> (set (ids_of h) \<noteq> set (ids_of (order_step e h)) \<or> sh_sortedAt h + HOME_RESORT_INTERVAL_MS \<le> sh_now h)"
proof (cases e)
  case (TimePasses ms)
  then show ?thesis by simp
next
  case (Rendered new_rows key hold)
  let ?h = "h\<lparr>sh_sorted := new_rows, sh_controlKey := key, sh_held := hold\<rparr>"
  have laws: "distinct (ids_of ?h)" "distinct (sorted_ids ?h)" "ho_controlKey (sh_order h) = sh_controlKey h"
      "ho_due (sh_order h) \<Longrightarrow> sh_sortedAt h + HOME_RESORT_INTERVAL_MS \<le> sh_now h"
    using ok rows by (simp_all add: Rendered order_ok_def order_base_def)
  have props: "sh_sorted (order_render k) = sh_sorted k \<and> sh_controlKey (order_render k) = sh_controlKey k \<and> sh_held (order_render k) = sh_held k" for k
    by (simp add: order_render_def split: option.split)
  have "set (ids_of (order_render ?h)) = set (sorted_ids ?h)"
    using order_step_ok [OF ok, of e] rows props [of ?h] by (simp add: Rendered order_ok_def [of "order_render ?h"])
  then show ?thesis using render_moves [OF laws(1,2)] laws(3,4) props [of ?h] by (auto simp: Rendered)
next
  case TimerFires
  show ?thesis
  proof (cases "sh_timer h")
    case None
    then show ?thesis by (simp add: TimerFires resort_fires_def)
  next
    case (Some armed)
    obtain due_at g where armed: "armed = (due_at, g)" by fastforce
    show ?thesis
    proof (cases "sh_now h < due_at")
      case True
      then show ?thesis using Some by (simp add: TimerFires resort_fires_def armed)
    next
      case False
      let ?h = "h\<lparr>sh_timer := None, sh_order := (sh_order h)\<lparr>ho_due := True\<rparr>\<rparr>"
      have fired: "g = ho_generation (sh_order h)" "order_base ?h" using fired_ok [OF ok, of due_at g] Some armed False by simp_all
      have "sh_held (order_render ?h) = sh_held h" by (simp add: order_render_def split: option.split)
      moreover have "distinct (ids_of ?h)" "distinct (sorted_ids ?h)" "ho_controlKey (sh_order h) = sh_controlKey h"
        using ok by (simp_all add: order_ok_def order_base_def)
      moreover have "sh_sortedAt h + HOME_RESORT_INTERVAL_MS \<le> sh_now h" using fired(2) by (simp add: order_base_def)
      ultimately show ?thesis
        using render_moves [of ?h] Some False fired(1) by (auto simp: TimerFires resort_fires_def armed)
    qed
  qed
qed

text \<open>
  C39. The list of the home screen shows every matching session once, with its latest data. The rows
  that stay on the screen never change places, unless the user changed the sort or the filter, or
  nothing holds the list and a session came or went or ten seconds have passed since the last sort.
  A new order that waits is applied by a timer that is armed for no later than those ten seconds.
\<close>

theorem home_rows_hold_still:
  assumes "distinct (map idOf rows)" and "\<forall>e\<in>set es. rows_distinct e" and "rows_distinct e"
    and h: "h = order_run es (order_init now rows key hold)"
  shows "mset (stable_rows h) = mset (sh_sorted h) \<and>
    (filter (\<lambda>ident. ident \<in> idOf ` set (stable_rows (order_step e h))) (map idOf (stable_rows h)) =
       filter (\<lambda>ident. ident \<in> idOf ` set (stable_rows h)) (map idOf (stable_rows (order_step e h)))
     \<or> sh_controlKey (order_step e h) \<noteq> sh_controlKey h
     \<or> \<not> sh_held (order_step e h) \<and>
        (idOf ` set (stable_rows h) \<noteq> idOf ` set (stable_rows (order_step e h)) \<or> sh_sortedAt h + HOME_RESORT_INTERVAL_MS \<le> sh_now h)) \<and>
    (\<not> sh_held h \<and> stable_rows h \<noteq> sh_sorted h \<longrightarrow>
      (\<exists>due_at g. sh_timer h = Some (due_at, g) \<and> due_at \<le> max (sh_now h) (sh_sortedAt h + HOME_RESORT_INTERVAL_MS) \<and>
        (\<forall>ms. due_at \<le> sh_now h + int ms \<longrightarrow> stable_rows (order_step TimerFires (order_step (TimePasses ms) h)) = sh_sorted h)))"
proof (intro conjI impI)
  have ok: "order_ok h" using assms by (simp add: order_run_ok order_init_ok)
  have ok': "order_ok (order_step e h)" using order_step_ok [OF ok assms(3)] .
  show "mset (stable_rows h) = mset (sh_sorted h)" by (rule rows_shown(1) [OF ok])
  have ids: "idOf ` set (stable_rows k) = set (ids_of k)" if "order_ok k" for k
    using rows_shown(2) [OF that] by (metis list.set_map)
  show "filter (\<lambda>ident. ident \<in> idOf ` set (stable_rows (order_step e h))) (map idOf (stable_rows h)) =
       filter (\<lambda>ident. ident \<in> idOf ` set (stable_rows h)) (map idOf (stable_rows (order_step e h)))
     \<or> sh_controlKey (order_step e h) \<noteq> sh_controlKey h
     \<or> \<not> sh_held (order_step e h) \<and>
        (idOf ` set (stable_rows h) \<noteq> idOf ` set (stable_rows (order_step e h)) \<or> sh_sortedAt h + HOME_RESORT_INTERVAL_MS \<le> sh_now h)"
    unfolding ids [OF ok] ids [OF ok'] rows_shown(2) [OF ok] rows_shown(2) [OF ok'] by (rule step_moves [OF ok assms(3)])
  assume waits: "\<not> sh_held h \<and> stable_rows h \<noteq> sh_sorted h"
  then have "order_pending h" using rows_shown(3) [OF ok] ok by (auto simp: order_pending_def order_ok_def)
  then obtain due_at where armed: "sh_timer h = Some (due_at, ho_generation (sh_order h))"
      "due_at \<le> max (sh_now h) (sh_sortedAt h + HOME_RESORT_INTERVAL_MS)"
    using ok by (auto simp: order_ok_def resort_ok_def)
  have "stable_rows (order_step TimerFires (order_step (TimePasses ms) h)) = sh_sorted h" if "due_at \<le> sh_now h + int ms" for ms
    using timer_sorts [OF order_step_ok [OF ok, of "TimePasses ms"], of due_at "ho_generation (sh_order h)"] armed waits that by simp
  then show "\<exists>due_at g. sh_timer h = Some (due_at, g) \<and> due_at \<le> max (sh_now h) (sh_sortedAt h + HOME_RESORT_INTERVAL_MS) \<and>
        (\<forall>ms. due_at \<le> sh_now h + int ms \<longrightarrow> stable_rows (order_step TimerFires (order_step (TimePasses ms) h)) = sh_sorted h)"
    using armed by blast
qed

definition sample_home_row :: "string \<Rightarrow> home_session" where
  "sample_home_row ident = LiveRow (as_tracked
     \<lparr>native_session_id = ident, ls_harness = ''pi_cli'', ls_repo = None, ls_mapping_id = None, ls_started_at = None, last_event_at = None,
      ls_tokens = None, ls_cost_estimated_usd = None, ls_cost_basis = None, ls_auth_kind = None, ls_history_deleted = None\<rparr>)"

lemma sample_home_row_id [simp]: "idOf (sample_home_row ident) = ident"
  by (simp add: sample_home_row_def idOf_def)

text \<open>Two rows swap in the data while the list is held still: the swap shows when the ten seconds are over.\<close>

theorem home_rows_hold_still_witness:
  "map idOf (stable_rows (order_run [Rendered [sample_home_row ''b'', sample_home_row ''a''] JNull False, TimePasses 4000]
            (order_init 0 [sample_home_row ''a'', sample_home_row ''b''] JNull False))) = [''a'', ''b''] \<and>
         stable_rows (order_step TimerFires (order_step (TimePasses 6000)
            (order_run [Rendered [sample_home_row ''b'', sample_home_row ''a''] JNull False, TimePasses 4000]
               (order_init 0 [sample_home_row ''a'', sample_home_row ''b''] JNull False)))) = [sample_home_row ''b'', sample_home_row ''a'']"
proof -
  let ?es = "[Rendered [sample_home_row ''b'', sample_home_row ''a''] JNull False, TimePasses 4000]"
  let ?h = "order_run ?es (order_init 0 [sample_home_row ''a'', sample_home_row ''b''] JNull False)"
  have ids: "map idOf (stable_rows ?h) = [''a'', ''b'']" by code_simp
  have "sh_held ?h = False" by code_simp
  moreover have "sh_now ?h = 4000" by code_simp
  moreover have "sh_timer ?h = Some (10000, 0)" by code_simp
  moreover have rows: "sh_sorted ?h = [sample_home_row ''b'', sample_home_row ''a'']" by code_simp
  moreover have "stable_rows ?h \<noteq> sh_sorted ?h"
  proof
    assume "stable_rows ?h = sh_sorted ?h"
    then have "map idOf (stable_rows ?h) = [''b'', ''a'']" unfolding rows by simp
    then show False unfolding ids by simp
  qed
  ultimately have "stable_rows (order_step TimerFires (order_step (TimePasses 6000) ?h)) = [sample_home_row ''b'', sample_home_row ''a'']"
    using home_rows_hold_still [of "[sample_home_row ''a'', sample_home_row ''b'']" ?es TimerFires ?h 0 JNull False, THEN conjunct2, THEN conjunct2]
    by (simp del: order_step.simps)
  then show ?thesis using ids by blast
qed

end
