(* ===== verification/Companion_Shell.thy ===== *)
theory Companion_Shell
  imports Onboarding
begin

text \<open>
  The companion's navigation (\<open>shell/navigation.ts\<close>, \<open>shell/routes.ts\<close>) and the choice between the two
  sources of an agent's state, the status and the agents list (\<open>screens/agents/agent-entries.ts\<close>). An
  element of the page is its reference together with its focus key.
\<close>


section \<open>Navigation\<close>

datatype main_tab = HomeTab | ProjectsTab | AgentsTab

definition MAIN_TABS :: "main_tab list" where
  "MAIN_TABS = [HomeTab, ProjectsTab, AgentsTab]"

type_synonym page_element = "nat \<times> string option"

datatype focus_target = FocusElement "page_element option" "string option" | FocusBack | FocusActiveTab

record stack_entry =
  se_route :: string
  se_returnFocusTo :: "page_element option"

record navigation_state =
  nv_tab :: main_tab
  nv_stack :: "stack_entry list"
  nv_transition :: view_swap
  nv_onboarding :: bool
  nv_focusRequest :: "(nat \<times> focus_target) option"

record navigation_world =
  nw_state :: navigation_state
  nw_focusRequestId :: nat
  nw_registry :: "(string, string) jsmap"

definition NAVIGATION_INITIAL :: navigation_state where
  "NAVIGATION_INITIAL = \<lparr>nv_tab = HomeTab, nv_stack = [], nv_transition = SwapNone, nv_onboarding = False, nv_focusRequest = None\<rparr>"

definition navigation_init :: navigation_world where
  "navigation_init = \<lparr>nw_state = NAVIGATION_INITIAL, nw_focusRequestId = 0, nw_registry = []\<rparr>"

definition registerRoute :: "string \<Rightarrow> string \<Rightarrow> navigation_world \<Rightarrow> navigation_world" where
  "registerRoute i title w = w\<lparr>nw_registry := jm_set i title (nw_registry w)\<rparr>"

definition routeDefinition :: "navigation_world \<Rightarrow> string \<Rightarrow> string option" where
  "routeDefinition w i = jm_get (nw_registry w) i"

text \<open>\<open>set\<close> with a focus request, which takes the next id.\<close>

definition requestFocus :: "focus_target \<Rightarrow> navigation_state \<Rightarrow> navigation_world \<Rightarrow> navigation_world" where
  "requestFocus target s w = w\<lparr>nw_focusRequestId := nw_focusRequestId w + 1, nw_state := s\<lparr>nv_focusRequest := Some (nw_focusRequestId w + 1, target)\<rparr>\<rparr>"

definition tab_index :: "main_tab \<Rightarrow> nat" where
  "tab_index t = (case js_findIndex (\<lambda>u. u = t) MAIN_TABS of Some n \<Rightarrow> n | None \<Rightarrow> 0)"

definition selectTab :: "main_tab \<Rightarrow> navigation_world \<Rightarrow> navigation_world" where
  "selectTab tab w = (let s = nw_state w in
     if nv_tab s = tab \<and> nv_stack s = [] then w
     else w\<lparr>nw_state := s\<lparr>nv_tab := tab, nv_stack := [], nv_transition := (if tab_index (nv_tab s) \<le> tab_index tab then SwapRight else SwapLeft)\<rparr>\<rparr>)"

text \<open>\<open>returnFocusTo\<close> is the option the caller passes, \<open>focused\<close> the element that has the focus.\<close>

definition push_route :: "string \<Rightarrow> page_element option \<Rightarrow> page_element option \<Rightarrow> navigation_world \<Rightarrow> navigation_world" where
  "push_route route returnFocusTo focused w =
     (if routeDefinition w route = None then w
      else let s = nw_state w; opener = (case returnFocusTo of Some e \<Rightarrow> Some e | None \<Rightarrow> focused)
        in requestFocus FocusBack (s\<lparr>nv_stack := nv_stack s @ [\<lparr>se_route = route, se_returnFocusTo = opener\<rparr>], nv_transition := SwapPush\<rparr>) w)"

definition pop_route :: "navigation_world \<Rightarrow> navigation_world" where
  "pop_route w = (let s = nw_state w in case js_last (nv_stack s) of
     None \<Rightarrow> w
   | Some entry \<Rightarrow> requestFocus (FocusElement (se_returnFocusTo entry) (Option.bind (se_returnFocusTo entry) snd))
       (s\<lparr>nv_stack := butlast (nv_stack s), nv_transition := SwapPop\<rparr>) w)"

definition startOnboarding :: "navigation_world \<Rightarrow> navigation_world" where
  "startOnboarding w = (let s = nw_state w in
     if nv_onboarding s then w else w\<lparr>nw_state := s\<lparr>nv_onboarding := True, nv_stack := [], nv_transition := SwapPop\<rparr>\<rparr>)"

definition finishOnboarding :: "navigation_world \<Rightarrow> navigation_world" where
  "finishOnboarding w = requestFocus FocusActiveTab
     ((nw_state w)\<lparr>nv_onboarding := False, nv_tab := HomeTab, nv_stack := [], nv_transition := SwapPush\<rparr>) w"

definition current_route :: "navigation_world \<Rightarrow> string option" where
  "current_route w = map_option se_route (js_last (nv_stack (nw_state w)))"

datatype navigation_event =
    RegisterRoute string string
  | SelectTab main_tab
  | PushRoute string "page_element option" "page_element option"
  | PopRoute
  | StartOnboarding
  | FinishOnboarding

fun navigation_step :: "navigation_event \<Rightarrow> navigation_world \<Rightarrow> navigation_world option" where
  "navigation_step (RegisterRoute i title) w = Some (registerRoute i title w)"
| "navigation_step (SelectTab t) w = Some (selectTab t w)"
| "navigation_step (PushRoute r e f) w = Some (push_route r e f w)"
| "navigation_step PopRoute w = Some (pop_route w)"
| "navigation_step StartOnboarding w = Some (startOnboarding w)"
| "navigation_step FinishOnboarding w = Some (finishOnboarding w)"

lemmas navigation_ops = registerRoute_def selectTab_def push_route_def pop_route_def startOnboarding_def finishOnboarding_def requestFocus_def
  routeDefinition_def Let_def

text \<open>Every pushed screen is registered, and a focus request carries the latest id.\<close>

definition navigation_ok :: "navigation_world \<Rightarrow> bool" where
  "navigation_ok w \<longleftrightarrow> (\<forall>e\<in>set (nv_stack (nw_state w)). routeDefinition w (se_route e) \<noteq> None) \<and>
     (\<forall>i t. nv_focusRequest (nw_state w) = Some (i, t) \<longrightarrow> i = nw_focusRequestId w)"

lemma navigation_step_ok: "navigation_ok w \<Longrightarrow> navigation_step e w = Some w' \<Longrightarrow> navigation_ok w'"
  using in_set_butlastD [of _ "nv_stack (nw_state w)"]
  by (cases e) (auto simp: navigation_ok_def navigation_ops js_last_def split: option.splits if_splits)

definition ids_grow :: "navigation_world \<Rightarrow> navigation_world \<Rightarrow> bool" where
  "ids_grow w w' \<longleftrightarrow> nw_focusRequestId w \<le> nw_focusRequestId w' \<and>
     (nv_focusRequest (nw_state w') \<noteq> nv_focusRequest (nw_state w) \<longrightarrow> nw_focusRequestId w < nw_focusRequestId w')"

interpretation navigation: event_monotone navigation_step navigation_init navigation_ok ids_grow
proof
  show "navigation_ok navigation_init" by (simp add: navigation_ok_def navigation_init_def NAVIGATION_INITIAL_def)
  show "ids_grow s s'" if "navigation_step e s = Some s'" for s s' e
    using that by (cases e) (auto simp: ids_grow_def navigation_ops split: option.splits if_splits)
qed (auto simp: ids_grow_def intro: navigation_step_ok)

lemma js_last_snoc [simp]: "js_last (xs @ [x]) = Some x"
  by (simp add: js_last_def js_at_def)

text \<open>Back undoes a push: the screen below returns, and the focus goes to the element that opened it.\<close>

lemma pop_push:
  assumes "routeDefinition w route \<noteq> None"
  shows "nv_stack (nw_state (pop_route (push_route route e f w))) = nv_stack (nw_state w)"
    and "nv_tab (nw_state (pop_route (push_route route e f w))) = nv_tab (nw_state w)"
    and "nv_focusRequest (nw_state (pop_route (push_route route e f w))) =
      (let opener = (case e of Some x \<Rightarrow> Some x | None \<Rightarrow> f) in Some (nw_focusRequestId w + 2, FocusElement opener (Option.bind opener snd)))"
  using assms by (auto simp: push_route_def pop_route_def requestFocus_def Let_def split: option.split)


section \<open>The agents list against the status\<close>

text \<open>
  A status and a list are objects: each value in a store is named by a number. \<open>en_time\<close> says when
  what an object reports was read: a status and a pushed list when they arrive, an answer that is
  stamped when its request began.
\<close>

record entries_world =
  en_entries :: "nat option"
  en_status :: "nat option"
  en_arrival :: "nat option \<times> nat option"
  en_clock :: nat
  en_list_time :: "nat \<Rightarrow> nat"
  en_status_time :: "nat option \<Rightarrow> nat"

definition entries_init :: entries_world where
  "entries_init = \<lparr>en_entries = None, en_status = None, en_arrival = (None, None), en_clock = 0, en_list_time = (\<lambda>_. 0), en_status_time = (\<lambda>_. 0)\<rparr>"

definition agentEntriesNewerThan :: "nat option \<Rightarrow> entries_world \<Rightarrow> nat option" where
  "agentEntriesNewerThan status w =
     (if en_entries w \<noteq> None \<and> fst (en_arrival w) = en_entries w \<and> snd (en_arrival w) = status then en_entries w else None)"

text \<open>The new object is the next number of the clock.\<close>

definition entries_arrive :: "nat option \<Rightarrow> nat \<Rightarrow> entries_world \<Rightarrow> entries_world" where
  "entries_arrive stamp read w = w\<lparr>en_clock := en_clock w + 1, en_entries := Some (en_clock w), en_arrival := (Some (en_clock w), stamp),
     en_list_time := (en_list_time w)(en_clock w := read)\<rparr>"

definition entries_pushed :: "entries_world \<Rightarrow> entries_world" where
  "entries_pushed w = entries_arrive (en_status w) (en_clock w) w"

definition pushAgentEntries :: "nat option \<Rightarrow> entries_world \<Rightarrow> entries_world" where
  "pushAgentEntries requestedUnder w = entries_arrive requestedUnder (en_status_time w requestedUnder) w"

definition entries_forgotten :: "entries_world \<Rightarrow> entries_world" where
  "entries_forgotten w = w\<lparr>en_entries := None, en_arrival := (None, en_status w)\<rparr>"

definition status_arrives_at :: "entries_world \<Rightarrow> entries_world" where
  "status_arrives_at w = w\<lparr>en_clock := en_clock w + 1, en_status := Some (en_clock w), en_status_time := (en_status_time w)(Some (en_clock w) := en_clock w)\<rparr>"

definition status_lost :: "entries_world \<Rightarrow> entries_world" where
  "status_lost w = w\<lparr>en_status := None\<rparr>"

datatype entries_event = ListPushed | AnswerPushed "nat option" | ListForgotten | StatusCame | StatusGone

fun entries_step :: "entries_event \<Rightarrow> entries_world \<Rightarrow> entries_world option" where
  "entries_step ListPushed w = Some (entries_pushed w)"
| "entries_step (AnswerPushed requested) w = given (case requested of Some s \<Rightarrow> s < en_clock w | None \<Rightarrow> True) (pushAgentEntries requested w)"
| "entries_step ListForgotten w = Some (entries_forgotten w)"
| "entries_step StatusCame w = Some (status_arrives_at w)"
| "entries_step StatusGone w = Some (status_lost w)"

definition entries_ok :: "entries_world \<Rightarrow> bool" where
  "entries_ok w \<longleftrightarrow> fst (en_arrival w) = en_entries w \<and> (\<forall>s. en_status w = Some s \<longrightarrow> s < en_clock w) \<and>
     (\<forall>s. snd (en_arrival w) = Some s \<longrightarrow> s < en_clock w) \<and> (\<forall>e. en_entries w = Some e \<longrightarrow> e < en_clock w) \<and>
     (\<forall>s. en_status_time w s \<le> en_clock w) \<and> en_status_time w None = 0 \<and>
     (\<forall>e s. en_entries w = Some e \<longrightarrow> snd (en_arrival w) = s \<longrightarrow> en_status_time w s \<le> en_list_time w e)"

lemma entries_step_ok: "entries_ok w \<Longrightarrow> entries_step e w = Some w' \<Longrightarrow> entries_ok w'"
  by (cases e) (auto simp: entries_ok_def entries_pushed_def pushAgentEntries_def entries_arrive_def entries_forgotten_def status_arrives_at_def status_lost_def
    less_Suc_eq le_Suc_eq split: option.splits)

interpretation entries: event_invariant entries_step entries_init entries_ok
proof
  show "entries_ok entries_init" by (simp add: entries_ok_def entries_init_def)
qed (rule entries_step_ok)

text \<open>A list shown over the status was read no earlier than the status arrived.\<close>

lemma shown_entries_newer:
  assumes "run_events entries_step es entries_init = Some w" and "agentEntriesNewerThan (en_status w) w = Some e"
  shows "en_status_time w (en_status w) \<le> en_list_time w e"
  using entries.run_inv [OF assms(1)] assms(2) by (auto simp: entries_ok_def agentEntriesNewerThan_def split: if_splits)

end
