(* ===== verification/JS_Regex.thy ===== *)
theory JS_Regex
  imports JS_Text
begin

text \<open>
  The regular expressions of the language as far as the sources use them: character classes,
  sequence, ordered choice, greedy repetition and a negative lookahead of one character, with the
  backtracking order of the language, and the global replacement. A relation says what a match is;
  the matcher is sound and complete for it.
\<close>

datatype regex =
    Eps
  | Class "char \<Rightarrow> bool"
  | Both regex regex
  | Either regex regex
  | Greedy regex
  | NotNext "char \<Rightarrow> bool"


section \<open>Matching\<close>

text \<open>
  The lengths of the prefixes of the text that match, in the order in which backtracking tries
  them. An iteration that consumes nothing ends a repetition.
\<close>

function rx_ends :: "regex \<Rightarrow> string \<Rightarrow> nat list" where
  "rx_ends Eps s = [0]"
| "rx_ends (Class P) s = (case s of c # _ \<Rightarrow> if P c then [1] else [] | [] \<Rightarrow> [])"
| "rx_ends (Both r q) s = concat (map (\<lambda>n. map ((+) n) (rx_ends q (drop n s))) (rx_ends r s))"
| "rx_ends (Either r q) s = rx_ends r s @ rx_ends q s"
| "rx_ends (Greedy r) s = concat (map (\<lambda>n. if n = 0 \<or> s = [] then [] else map ((+) n) (rx_ends (Greedy r) (drop n s))) (rx_ends r s)) @ [0]"
| "rx_ends (NotNext P) s = (case s of c # _ \<Rightarrow> if P c then [] else [0] | [] \<Rightarrow> [0])"
  by pat_completeness auto
termination
  by (relation "measures [\<lambda>(r, s). length s, \<lambda>(r, s). size r]") auto

declare rx_ends.simps(5) [simp del]

text \<open>What it means for a prefix of the text, followed by the rest, to match.\<close>

inductive rx_match :: "regex \<Rightarrow> string \<Rightarrow> string \<Rightarrow> bool" where
  eps: "rx_match Eps [] rest"
| in_class: "P c \<Longrightarrow> rx_match (Class P) [c] rest"
| both: "rx_match r u (v @ rest) \<Longrightarrow> rx_match q v rest \<Longrightarrow> rx_match (Both r q) (u @ v) rest"
| left: "rx_match r u rest \<Longrightarrow> rx_match (Either r q) u rest"
| right: "rx_match q u rest \<Longrightarrow> rx_match (Either r q) u rest"
| stop: "rx_match (Greedy r) [] rest"
| again: "rx_match r u (v @ rest) \<Longrightarrow> u \<noteq> [] \<Longrightarrow> rx_match (Greedy r) v rest \<Longrightarrow> rx_match (Greedy r) (u @ v) rest"
| not_next: "(case rest of [] \<Rightarrow> True | c # _ \<Rightarrow> \<not> P c) \<Longrightarrow> rx_match (NotNext P) [] rest"

inductive_cases rx_EpsE: "rx_match Eps u rest"
inductive_cases rx_ClassE: "rx_match (Class P) u rest"
inductive_cases rx_BothE: "rx_match (Both r q) u rest"

lemma rx_ends_sound: "n \<in> set (rx_ends r s) \<Longrightarrow> n \<le> length s \<and> rx_match r (take n s) (drop n s)"
proof (induction r s arbitrary: n rule: rx_ends.induct)
  case (1 s)
  then show ?case by (auto intro: rx_match.intros)
next
  case (2 P s)
  then show ?case by (auto intro: rx_match.intros split: list.splits if_splits)
next
  case (3 r q s)
  then obtain a b where ab: "a \<in> set (rx_ends r s)" "b \<in> set (rx_ends q (drop a s))" "n = a + b" by auto
  have ra: "a \<le> length s" "rx_match r (take a s) (drop a s)" using 3(1) [OF ab(1)] by auto
  have qb: "b \<le> length s - a" "rx_match q (take b (drop a s)) (drop b (drop a s))" using 3(2) [OF ab(1,2)] by auto
  have "rx_match (Both r q) (take a s @ take b (drop a s)) (drop b (drop a s))"
    using ra(2) by (intro rx_match.both qb(2)) (simp del: drop_drop)
  then show ?case using ab(3) ra(1) qb(1) by (simp add: take_add add.commute)
next
  case (4 r q s)
  then show ?case by (auto intro: rx_match.intros)
next
  case (5 r s)
  show ?case
  proof (cases "n = 0")
    case True
    then show ?thesis by (simp add: rx_match.stop)
  next
    case False
    then obtain a b where ab: "a \<in> set (rx_ends r s)" "a \<noteq> 0" "s \<noteq> []" "b \<in> set (rx_ends (Greedy r) (drop a s))" "n = a + b"
      using 5(3) by (auto simp: rx_ends.simps(5) [of r s] split: if_splits)
    have ra: "a \<le> length s" "rx_match r (take a s) (drop a s)" using 5(1) [OF ab(1)] by auto
    have qb: "b \<le> length s - a" "rx_match (Greedy r) (take b (drop a s)) (drop b (drop a s))"
      using 5(2) [OF ab(1) _ ab(4)] ab(2,3) by auto
    have "rx_match (Greedy r) (take a s @ take b (drop a s)) (drop b (drop a s))"
      using ra(2) ab(2,3) by (intro rx_match.again qb(2)) (simp_all del: drop_drop)
    then show ?thesis using ab(5) ra(1) qb(1) by (simp add: take_add add.commute)
  qed
next
  case (6 P s)
  then show ?case by (auto intro: rx_match.intros split: list.splits if_splits)
qed

lemma rx_ends_first: "rx_ends r s = n # ns \<Longrightarrow> rx_match r (take n s) (drop n s)"
  by (rule rx_ends_sound [THEN conjunct2]) simp

lemma rx_ends_complete: "rx_match r u rest \<Longrightarrow> length u \<in> set (rx_ends r (u @ rest))"
proof (induction rule: rx_match.induct)
  case (both r u v rest q)
  then have "length u + length v \<in> (+) (length u) ` set (rx_ends q (drop (length u) (u @ v @ rest)))" by simp
  then show ?case using both.IH(1) by (auto simp del: drop_append)
next
  case (again r u v rest)
  then have "length u + length v \<in> (+) (length u) ` set (rx_ends (Greedy r) (drop (length u) (u @ v @ rest)))" by simp
  then show ?case using again by (auto simp: rx_ends.simps(5) [of r "u @ v @ rest"] simp del: drop_append)
next
  case (stop r rest)
  then show ?case by (simp add: rx_ends.simps(5) [of r rest])
qed (auto split: list.splits)

theorem rx_ends_iff: "n \<in> set (rx_ends r s) \<longleftrightarrow> n \<le> length s \<and> rx_match r (take n s) (drop n s)"
  using rx_ends_sound rx_ends_complete [of r "take n s" "drop n s" for n s] by fastforce


section \<open>Building blocks\<close>

definition one_of :: "string \<Rightarrow> regex" where
  "one_of cs = Class (\<lambda>c. c \<in> set cs)"

definition none_of :: "string \<Rightarrow> regex" where
  "none_of cs = Class (\<lambda>c. c \<notin> set cs)"

text \<open>A literal text, and one under the flag \<open>i\<close>, given in lower case.\<close>

fun lit :: "string \<Rightarrow> regex" where
  "lit [] = Eps"
| "lit (c # cs) = Both (Class (\<lambda>x. x = c)) (lit cs)"

fun lit_i :: "string \<Rightarrow> regex" where
  "lit_i [] = Eps"
| "lit_i (c # cs) = Both (Class (\<lambda>x. js_lower_char x = c)) (lit_i cs)"

fun any_of :: "regex list \<Rightarrow> regex" where
  "any_of [] = Class (\<lambda>_. False)"
| "any_of [r] = r"
| "any_of (r # q # rs) = Either r (any_of (q # rs))"

fun seq_of :: "regex list \<Rightarrow> regex" where
  "seq_of [] = Eps"
| "seq_of [r] = r"
| "seq_of (r # q # rs) = Both r (seq_of (q # rs))"

definition maybe :: "regex \<Rightarrow> regex" where
  "maybe r = Either r Eps"

definition at_least :: "nat \<Rightarrow> regex \<Rightarrow> regex" where
  "at_least n r = seq_of (replicate n r @ [Greedy r])"

definition exactly :: "nat \<Rightarrow> regex \<Rightarrow> regex" where
  "exactly n r = seq_of (replicate n r)"

definition word_char :: "char \<Rightarrow> bool" where
  "word_char c = (is_upper c \<or> is_lower c \<or> is_digit c \<or> c = CHR ''_'')"

text \<open>The assertion \<open>\b\<close> between the character before and the text ahead.\<close>

definition word_boundary :: "char option \<Rightarrow> string \<Rightarrow> bool" where
  "word_boundary prev s =
     ((case prev of None \<Rightarrow> False | Some c \<Rightarrow> word_char c) \<noteq> (case s of [] \<Rightarrow> False | c # _ \<Rightarrow> word_char c))"


section \<open>Replacement\<close>

text \<open>
  \<open>s.replace(pattern, replacement)\<close> with the flag \<open>g\<close>. A matcher is asked at every position, with the
  character before it, and answers with the length of its match and the text that takes its place.
  Every pattern of the sources consumes at least one character.
\<close>

type_synonym matcher = "char option \<Rightarrow> string \<Rightarrow> (nat \<times> string) option"

function replace_all :: "matcher \<Rightarrow> char option \<Rightarrow> string \<Rightarrow> string" where
  "replace_all mt prev [] = []"
| "replace_all mt prev (c # cs) = (case mt prev (c # cs) of
     Some (Suc n, new) \<Rightarrow> new @ replace_all mt (Some (last (c # take n cs))) (drop n cs)
   | _ \<Rightarrow> c # replace_all mt (Some c) cs)"
  by pat_completeness auto
termination
  by (relation "measure (\<lambda>(mt, prev, s). length s)") auto

text \<open>
  A pattern that keeps the match of its first part, its captured groups, and replaces that of its second
  part; \<open>bounded\<close> says that it starts with \<open>\b\<close>.
\<close>

definition keep_and_replace :: "bool \<Rightarrow> regex \<Rightarrow> regex \<Rightarrow> string \<Rightarrow> matcher" where
  "keep_and_replace bounded kept dropped new prev s =
     (if bounded \<and> \<not> word_boundary prev s then None
      else case concat (map (\<lambda>a. map (\<lambda>b. (a, b)) (rx_ends dropped (drop a s))) (rx_ends kept s)) of
          (a, b) # _ \<Rightarrow> Some (a + b, take a s @ new)
        | [] \<Rightarrow> None)"

text \<open>A pattern whose match is rewritten by a function.\<close>

definition rewrite_match :: "bool \<Rightarrow> regex \<Rightarrow> (string \<Rightarrow> string) \<Rightarrow> matcher" where
  "rewrite_match bounded r f prev s =
     (if bounded \<and> \<not> word_boundary prev s then None
      else case rx_ends r s of n # _ \<Rightarrow> Some (n, f (take n s)) | [] \<Rightarrow> None)"

text \<open>A text in which the pattern matches nowhere is left as it is.\<close>

lemma replace_all_none: "(\<And>prev s. mt prev s = None) \<Longrightarrow> replace_all mt b s = s"
  by (induction s arbitrary: b) auto


section \<open>Splitting at a class\<close>

text \<open>\<open>s.split(/[...]/)\<close> for a class of single characters.\<close>

fun split_class :: "(char \<Rightarrow> bool) \<Rightarrow> string \<Rightarrow> string list" where
  "split_class P [] = [[]]"
| "split_class P (x # xs) = (if P x then [] # split_class P xs
     else case split_class P xs of p # ps \<Rightarrow> (x # p) # ps | [] \<Rightarrow> [[x]])"

lemma split_class_ne [simp]: "split_class P s \<noteq> []"
  by (induction s) (auto split: list.split)

lemma split_class_parts: "\<forall>p\<in>set (split_class P s). \<forall>c\<in>set p. \<not> P c \<and> c \<in> set s"
  by (induction s) (auto split: list.splits if_splits)

definition ends_with :: "string \<Rightarrow> string \<Rightarrow> bool" where
  "ends_with s needle = (drop (length s - length needle) s = needle)"

definition starts_with :: "string \<Rightarrow> string \<Rightarrow> bool" where
  "starts_with s needle = (take (length needle) s = needle)"


section \<open>Where the preferred match ends\<close>

lemma concat_first:
  assumes "concat (map (\<lambda>a. map (g a) (f a)) xs) = y # ys"
  shows "\<exists>a b bs. a \<in> set xs \<and> f a = b # bs \<and> y = g a b"
  using assms
proof (induction xs)
  case (Cons x xs)
  then show ?case by (cases "f x") auto
qed simp

text \<open>After the match that backtracking finds first, the text does not go on with a character of the class.\<close>

definition ends_before :: "(char \<Rightarrow> bool) \<Rightarrow> regex \<Rightarrow> bool" where
  "ends_before P r \<longleftrightarrow> (\<forall>s n ns. rx_ends r s = n # ns \<longrightarrow> drop n s = [] \<or> \<not> P (hd (drop n s)))"

lemma ends_beforeD: "ends_before P r \<Longrightarrow> rx_ends r s = n # ns \<Longrightarrow> drop n s = [] \<or> \<not> P (hd (drop n s))"
  by (auto simp: ends_before_def)

lemma ends_before_Both: "ends_before P q \<Longrightarrow> ends_before P (Both r q)"
  unfolding ends_before_def
proof (intro allI impI)
  fix s n ns
  assume q: "\<forall>s n ns. rx_ends q s = n # ns \<longrightarrow> drop n s = [] \<or> \<not> P (hd (drop n s))" and "rx_ends (Both r q) s = n # ns"
  then obtain a b bs where "rx_ends q (drop a s) = b # bs" "n = a + b"
    using concat_first [of "\<lambda>a. (+) a" "\<lambda>a. rx_ends q (drop a s)" "rx_ends r s" n ns] by auto
  then show "drop n s = [] \<or> \<not> P (hd (drop n s))" using q [rule_format, of "drop a s" b bs] by (simp add: add.commute)
qed

lemma ends_before_seq: "ends_before P r \<Longrightarrow> ends_before P (seq_of (rs @ [r]))"
proof (induction rs)
  case (Cons x rs)
  then show ?case by (cases "rs @ [r]") (auto intro: ends_before_Both)
qed simp

lemma ends_before_NotNext: "ends_before P (NotNext P)"
  by (auto simp: ends_before_def split: list.splits if_splits)

lemma Greedy_ne [simp]: "rx_ends (Greedy r) s \<noteq> []"
  by (simp add: rx_ends.simps(5))

lemma Greedy_first:
  assumes r: "ends_before P r" and pos: "\<And>t. 0 \<notin> set (rx_ends r t)" and "rx_ends (Greedy r) s = n # ns"
  shows "n = 0 \<or> drop n s = [] \<or> \<not> P (hd (drop n s))"
  using assms(3)
proof (induction "length s" arbitrary: s n ns rule: less_induct)
  case less
  show ?case
  proof (cases "rx_ends r s = [] \<or> s = []")
    case True
    then show ?thesis using less(2) by (auto simp: rx_ends.simps(5) [of r s])
  next
    case False
    then obtain a as where a: "rx_ends r s = a # as" "s \<noteq> []" by (cases "rx_ends r s") auto
    then have "a \<noteq> 0" using pos [of s] by auto
    obtain b bs where b: "rx_ends (Greedy r) (drop a s) = b # bs" by (metis Greedy_ne neq_Nil_conv)
    have n: "n = a + b" using less(2) a b \<open>a \<noteq> 0\<close> by (simp add: rx_ends.simps(5) [of r s])
    have "b = 0 \<or> drop b (drop a s) = [] \<or> \<not> P (hd (drop b (drop a s)))" using less(1) [OF _ b] a(2) \<open>a \<noteq> 0\<close> by simp
    moreover have "drop a s = [] \<or> \<not> P (hd (drop a s))" using ends_beforeD [OF r a(1)] .
    ultimately show ?thesis using n by (auto simp: add.commute)
  qed
qed

lemma ends_before_Both_Greedy:
  assumes "ends_before P r" and "ends_before P q" and "\<And>t. 0 \<notin> set (rx_ends q t)"
  shows "ends_before P (Both r (Greedy q))"
  unfolding ends_before_def
proof (intro allI impI)
  fix s n ns
  assume n: "rx_ends (Both r (Greedy q)) s = n # ns"
  then obtain a as where a: "rx_ends r s = a # as" by (cases "rx_ends r s") auto
  obtain b bs where b: "rx_ends (Greedy q) (drop a s) = b # bs" by (metis Greedy_ne neq_Nil_conv)
  have "n = a + b" using n a b by simp
  then show "drop n s = [] \<or> \<not> P (hd (drop n s))"
    using Greedy_first [OF assms(2,3) b] ends_beforeD [OF assms(1) a] by (auto simp: add.commute)
qed

lemma Greedy_Class_first:
  "\<exists>ns. rx_ends (Greedy (Class P)) s = length (takeWhile P s) # ns"
proof (induction s)
  case (Cons c cs)
  then show ?case by (auto simp: rx_ends.simps(5) [of _ "c # cs"])
qed (simp add: rx_ends.simps(5))

lemma ends_before_Greedy_Class: "(\<And>c. P c \<Longrightarrow> Q c) \<Longrightarrow> ends_before P (Greedy (Class Q))"
  unfolding ends_before_def
proof (intro allI impI)
  fix s n ns
  assume PQ: "\<And>c. P c \<Longrightarrow> Q c" and "rx_ends (Greedy (Class Q)) s = n # ns"
  then have "n = length (takeWhile Q s)" using Greedy_Class_first [of Q s] by auto
  then have "drop n s = dropWhile Q s" by (simp add: dropWhile_eq_drop)
  then show "drop n s = [] \<or> \<not> P (hd (drop n s))" using PQ hd_dropWhile [of Q s] by auto
qed

lemma ends_before_at_least: "(\<And>c. P c \<Longrightarrow> Q c) \<Longrightarrow> ends_before P (at_least n (Class Q))"
  unfolding at_least_def by (intro ends_before_seq ends_before_Greedy_Class)


text \<open>Expressions that never match the empty text.\<close>

definition consumes :: "regex \<Rightarrow> bool" where
  "consumes r \<longleftrightarrow> (\<forall>s. 0 \<notin> set (rx_ends r s))"

lemma consumes_Class [simp]: "consumes (Class P)"
  by (auto simp: consumes_def split: list.split)

lemma consumes_Both [simp]: "consumes r \<or> consumes q \<Longrightarrow> consumes (Both r q)"
  by (auto simp: consumes_def)

lemma consumes_Either [simp]: "consumes r \<Longrightarrow> consumes q \<Longrightarrow> consumes (Either r q)"
  by (auto simp: consumes_def)

lemma rx_match_lit: "rx_match (lit p) p rest"
proof (induction p)
  case Nil
  show ?case by (simp add: rx_match.eps)
next
  case (Cons c cs)
  have "rx_match (Both (Class (\<lambda>x. x = c)) (lit cs)) ([c] @ cs) rest" by (intro rx_match.both rx_match.in_class Cons) simp
  then show ?case by simp
qed

lemma rx_match_at_least: "list_all P u \<Longrightarrow> rx_match (at_least (length u) (Class P)) u rest"
proof (induction u)
  case Nil
  show ?case by (simp add: at_least_def rx_match.stop)
next
  case (Cons c u)
  have "seq_of (Class P # replicate (length u) (Class P) @ [Greedy (Class P)]) = Both (Class P) (at_least (length u) (Class P))"
    by (cases "replicate (length u) (Class P) @ [Greedy (Class P)]") (auto simp: at_least_def)
  moreover have "rx_match (Both (Class P) (at_least (length u) (Class P))) ([c] @ u) rest"
    using Cons by (intro rx_match.both rx_match.in_class) auto
  ultimately show ?case by (simp add: at_least_def)
qed

lemma rx_ends_nonempty: "rx_match r u rest \<Longrightarrow> rx_ends r (u @ rest) \<noteq> []"
  using rx_ends_complete by force

end
