(* ===== verification/Observer_Frame.thy ===== *)
theory Observer_Frame
  imports JS_Regex
begin

text \<open>
  What the observer keeps of a delivered event: \<open>features/observer/utils/projectObserverFrame.ts\<close>. A
  bounded copy of the payload, from which the values under credential names and everything in the
  text that looks like a credential are taken out. The size of a printed number is a parameter. The ellipsis that
  marks a cut is outside the modelled characters and stands as character 133; a key
  \<open>__proto__\<close> is not told apart.
\<close>


section \<open>Frames and limits\<close>

record ws_frame =
  fe_event :: string
  fe_timestamp :: string
  fe_event_id :: string
  fe_payload :: "json option"

record observer_frame =
  of_event :: string
  of_timestamp :: string
  of_event_id :: string
  of_payload :: json
  of_redacted :: bool
  of_truncated :: bool

definition OBSERVER_FRAME_MAX_BYTES :: int where
  "OBSERVER_FRAME_MAX_BYTES = 16 * 1024"

definition REDACTED_VALUE :: string where
  "REDACTED_VALUE = ''[redacted]''"

definition TRUNCATED_VALUE :: string where
  "TRUNCATED_VALUE = ''[truncated]''"

record projection_limits =
  pl_maxStringChars :: nat
  pl_maxNodes :: nat

definition PROJECTION_ATTEMPTS :: "projection_limits list" where
  "PROJECTION_ATTEMPTS = [\<lparr>pl_maxStringChars = 2048, pl_maxNodes = 400\<rparr>, \<lparr>pl_maxStringChars = 256, pl_maxNodes = 100\<rparr>,
     \<lparr>pl_maxStringChars = 64, pl_maxNodes = 40\<rparr>]"

definition MAX_DEPTH :: nat where
  "MAX_DEPTH = 8"

definition MAX_ARRAY_ITEMS :: nat where
  "MAX_ARRAY_ITEMS = 50"

definition MAX_OBJECT_KEYS :: nat where
  "MAX_OBJECT_KEYS = 50"

definition MAX_ENVELOPE_CHARS :: nat where
  "MAX_ENVELOPE_CHARS = 256"

definition REDACTION_MARGIN_CHARS :: nat where
  "REDACTION_MARGIN_CHARS = 512"

definition ELLIPSIS :: char where
  "ELLIPSIS = char_of (133 :: nat)"


section \<open>Credentials\<close>

definition SENSITIVE_KEY_WORDS :: "string list" where
  "SENSITIVE_KEY_WORDS = [''authorization'', ''bearer'', ''cookie'', ''credential'', ''credentials'', ''passphrase'', ''passwd'',
     ''password'', ''secret'', ''signature'']"

definition token_char :: "char \<Rightarrow> bool" where
  "token_char c = (is_upper c \<or> is_lower c \<or> is_digit c \<or> c \<in> set ''_-'')"

abbreviation "spaces \<equiv> Greedy (Class js_space)"

definition scheme_prefix :: regex where
  "scheme_prefix = seq_of [Class (\<lambda>c. is_lower c \<or> is_upper c),
     Greedy (Class (\<lambda>c. is_lower c \<or> is_upper c \<or> is_digit c \<or> c \<in> set ''+.-'')), lit ''://'']"

text \<open>The nine patterns, each with what takes the place of its match.\<close>

definition authorization_header :: matcher where
  "authorization_header = keep_and_replace True
     (seq_of [lit_i ''authorization'', spaces, one_of '':='', spaces])
     (seq_of [maybe (seq_of [any_of [lit_i ''bearer'', lit_i ''basic'', lit_i ''token'', lit_i ''digest''], at_least 1 (Class js_space)]),
              at_least 1 (Class (\<lambda>c. \<not> js_space c \<and> c \<notin> set [CHR '','', CHR '';'', CHR 0x22, CHR 0x27]))])
     REDACTED_VALUE"

definition cookie_header :: matcher where
  "cookie_header = keep_and_replace True
     (seq_of [lit_i ''cookie'', Greedy (one_of [CHR '' '', CHR 0x09]), lit '':'', Greedy (one_of [CHR '' '', CHR 0x09])])
     (at_least 1 (none_of [CHR 0x0D, CHR 0x0A])) REDACTED_VALUE"

definition bearer_token :: matcher where
  "bearer_token = keep_and_replace True
     (seq_of [lit_i ''bearer'', at_least 1 (Class js_space)])
     (seq_of [at_least 8 (Class (\<lambda>c. is_upper c \<or> is_lower c \<or> is_digit c \<or> c \<in> set ''-._~+/'')), Greedy (one_of ''='')])
     REDACTED_VALUE"

definition json_web_token :: matcher where
  "json_web_token = keep_and_replace True Eps
     (seq_of [lit ''eyJ'', at_least 8 (Class token_char), Greedy (seq_of [lit ''.'', Greedy (Class token_char)])]) REDACTED_VALUE"

definition companion_token :: matcher where
  "companion_token = keep_and_replace True Eps (seq_of [lit ''bpc_'', exactly 43 (Class token_char), NotNext token_char]) REDACTED_VALUE"

definition token_prefix :: regex where
  "token_prefix = any_of (map lit [''vlr_'', ''ghp_'', ''gho_'', ''ghu_'', ''ghs_'', ''ghr_'', ''github_pat_'', ''glpat-''] @
     [seq_of [lit ''xox'', one_of ''abprs'', lit ''-''], lit ''sk-''])"

definition prefixed_token :: matcher where
  "prefixed_token = keep_and_replace True Eps (seq_of [token_prefix, at_least 8 (Class token_char)]) REDACTED_VALUE"

definition url_userinfo :: matcher where
  "url_userinfo = keep_and_replace True scheme_prefix
     (seq_of [at_least 1 (Class (\<lambda>c. \<not> js_space c \<and> c \<notin> set ''/@'')), lit ''@'']) (REDACTED_VALUE @ ''@'')"

definition query_value :: matcher where
  "query_value = keep_and_replace False
     (seq_of [one_of ''?&#;'', Greedy (Class (\<lambda>c. \<not> js_space c \<and> c \<notin> set ''=&#'')), lit ''=''])
     (Greedy (Class (\<lambda>c. \<not> js_space c \<and> c \<notin> set ''&#''))) REDACTED_VALUE"

definition url_query :: matcher where
  "url_query = rewrite_match True
     (seq_of [scheme_prefix, Greedy (Class (\<lambda>c. \<not> js_space c \<and> c \<notin> set ''?#'')), one_of ''?#'', Greedy (Class (\<lambda>c. \<not> js_space c))])
     (replace_all query_value None)"

definition credential_pair :: matcher where
  "credential_pair = keep_and_replace True
     (seq_of [any_of [
          seq_of [maybe (any_of [lit_i ''access'', lit_i ''refresh'', lit_i ''id'', lit_i ''auth'']), maybe (lit ''_''), lit_i ''token''],
          seq_of [lit_i ''api'', maybe (one_of ''_-''), lit_i ''key''],
          seq_of [lit_i ''client'', maybe (one_of ''_-''), lit_i ''secret''],
          seq_of [lit_i ''passw'', maybe (lit_i ''or''), lit_i ''d''],
          lit_i ''secret''],
        spaces, one_of ''=:'', spaces])
     (at_least 1 (Class (\<lambda>c. \<not> js_space c \<and> c \<notin> set [CHR ''&'', CHR 0x22, CHR 0x27, CHR '','', CHR '';'']))) REDACTED_VALUE"

definition SECRET_TEXT_PATTERNS :: "matcher list" where
  "SECRET_TEXT_PATTERNS = [authorization_header, cookie_header, bearer_token, json_web_token, companion_token, prefixed_token,
     url_userinfo, url_query, credential_pair]"

text \<open>The words of a key in camel, snake or kebab case.\<close>

definition split_camel :: "string \<Rightarrow> string" where
  "split_camel key = replace_all
     (rewrite_match False (Both (Class (\<lambda>c. is_lower c \<or> is_digit c)) (Class is_upper)) (\<lambda>m. [m ! 0, CHR '' '', m ! 1])) None key"

definition keyWords :: "string \<Rightarrow> string list" where
  "keyWords key = filter (\<lambda>w. w \<noteq> []) (split_class (\<lambda>c. \<not> (is_lower c \<or> is_digit c)) (js_toLowerCase (split_camel key)))"

definition isCredentialKey :: "string \<Rightarrow> bool" where
  "isCredentialKey key = (let words = keyWords key in
     list_ex (\<lambda>w. w \<in> set SENSITIVE_KEY_WORDS) words \<or> js_last words = Some ''token'' \<or>
     ends_with (concat words) ''apikey'' \<or> ends_with (concat words) ''privatekey'')"


section \<open>Projection\<close>

record projection_state =
  ps_maxStringChars :: nat
  ps_nodesLeft :: nat
  ps_redacted :: bool
  ps_truncated :: bool

definition redactText :: "string \<Rightarrow> projection_state \<Rightarrow> string \<times> projection_state" where
  "redactText str st = (let redacted = fold (\<lambda>p t. replace_all p None t) SECRET_TEXT_PATTERNS str in
     (redacted, if redacted \<noteq> str then st\<lparr>ps_redacted := True\<rparr> else st))"

definition projectString :: "string \<Rightarrow> projection_state \<Rightarrow> string \<times> projection_state" where
  "projectString value st0 =
     (let maxChars = ps_maxStringChars st0; scanned = take (maxChars + REDACTION_MARGIN_CHARS) value in
      case redactText scanned st0 of (redacted, st) \<Rightarrow>
        let visible = (if length scanned < length value then min maxChars (length redacted - REDACTION_MARGIN_CHARS) else maxChars) in
        if length redacted \<le> visible then (redacted, st)
        else (take visible redacted @ [ELLIPSIS], st\<lparr>ps_truncated := True\<rparr>))"

text \<open>A field whose value is withheld because of its name.\<close>

definition withheld :: "string \<Rightarrow> json \<Rightarrow> bool" where
  "withheld key field = (isCredentialKey key \<and> field \<noteq> JNull \<and> (\<forall>b\<in>{True, False}. field \<noteq> JBool b))"

fun projectValue :: "json \<Rightarrow> nat \<Rightarrow> projection_state \<Rightarrow> json \<times> projection_state"
  and project_items :: "nat \<Rightarrow> json list \<Rightarrow> nat \<Rightarrow> projection_state \<Rightarrow> json list \<times> projection_state"
  and project_fields :: "nat \<Rightarrow> (string \<times> json) list \<Rightarrow> nat \<Rightarrow> (string, json) jsmap \<Rightarrow> projection_state \<Rightarrow> (string, json) jsmap \<times> projection_state"
where
  "projectValue value depth st0 =
     (if ps_nodesLeft st0 = 0 then (JStr TRUNCATED_VALUE, st0\<lparr>ps_truncated := True\<rparr>)
      else let st = st0\<lparr>ps_nodesLeft := ps_nodesLeft st0 - 1\<rparr> in case value of
          JStr s \<Rightarrow> (case projectString s st of (t, st') \<Rightarrow> (JStr t, st'))
        | JArr xs \<Rightarrow> if depth \<ge> MAX_DEPTH then (JStr TRUNCATED_VALUE, st\<lparr>ps_truncated := True\<rparr>)
            else (case project_items MAX_ARRAY_ITEMS xs (depth + 1) st of (items, st') \<Rightarrow>
              if length xs > MAX_ARRAY_ITEMS then (JArr (items @ [JStr TRUNCATED_VALUE]), st'\<lparr>ps_truncated := True\<rparr>) else (JArr items, st'))
        | JObj kvs \<Rightarrow> if depth \<ge> MAX_DEPTH then (JStr TRUNCATED_VALUE, st\<lparr>ps_truncated := True\<rparr>)
            else (case project_fields MAX_OBJECT_KEYS kvs (depth + 1) [] st of (projected, st') \<Rightarrow> (JObj projected, st'))
        | _ \<Rightarrow> (value, st))"
| "project_items 0 xs depth st = ([], st)"
| "project_items (Suc n) [] depth st = ([], st)"
| "project_items (Suc n) (x # xs) depth st =
     (case projectValue x depth st of (y, st1) \<Rightarrow> case project_items n xs depth st1 of (ys, st2) \<Rightarrow> (y # ys, st2))"
| "project_fields n [] depth projected st = (projected, st)"
| "project_fields 0 (kv # kvs) depth projected st = (projected, st\<lparr>ps_truncated := True\<rparr>)"
| "project_fields (Suc n) ((key, field) # kvs) depth projected st =
     (case projectString key st of (projectedKey, st1) \<Rightarrow>
        if withheld key field then
          project_fields n kvs depth (jm_set projectedKey (JStr REDACTED_VALUE) projected) (st1\<lparr>ps_redacted := True\<rparr>)
        else case projectValue field depth st1 of (v, st2) \<Rightarrow> project_fields n kvs depth (jm_set projectedKey v projected) st2)"

declare projectValue.simps [simp del]


text \<open>The size of \<open>JSON.stringify\<close> in UTF-8; \<open>num_bytes\<close> is that of a printed number.\<close>

definition char_bytes :: "char \<Rightarrow> nat" where
  "char_bytes c = (let n = of_char c :: nat in
     if n \<in> set [8, 9, 10, 12, 13, 34, 92] then 2 else if n < 32 then 6 else if n < 128 then 1 else if c = ELLIPSIS then 3 else 2)"

definition string_bytes :: "string \<Rightarrow> nat" where
  "string_bytes s = 2 + sum_list (map char_bytes s)"

fun json_bytes :: "(jsnum \<Rightarrow> nat) \<Rightarrow> json \<Rightarrow> nat" where
  "json_bytes num_bytes JNull = 4"
| "json_bytes num_bytes (JBool b) = (if b then 4 else 5)"
| "json_bytes num_bytes (JNum n) = num_bytes n"
| "json_bytes num_bytes (JStr s) = string_bytes s"
| "json_bytes num_bytes (JArr xs) = 2 + (length xs - 1) + sum_list (map (json_bytes num_bytes) xs)"
| "json_bytes num_bytes (JObj kvs) = 2 + (length kvs - 1) + sum_list (map (\<lambda>kv. string_bytes (fst kv) + 1 + json_bytes num_bytes (snd kv)) kvs)"

definition frame_json :: "observer_frame \<Rightarrow> json" where
  "frame_json f = JObj [(''event'', JStr (of_event f)), (''timestamp'', JStr (of_timestamp f)), (''event_id'', JStr (of_event_id f)),
     (''payload'', of_payload f), (''projection'', JObj [(''redacted'', JBool (of_redacted f)), (''truncated'', JBool (of_truncated f))])]"

definition utf8ByteLength :: "(jsnum \<Rightarrow> nat) \<Rightarrow> observer_frame \<Rightarrow> nat" where
  "utf8ByteLength num_bytes f = json_bytes num_bytes (frame_json f)"

definition envelopeText :: "string \<Rightarrow> string" where
  "envelopeText str = (if length str > MAX_ENVELOPE_CHARS then take MAX_ENVELOPE_CHARS str else str)"

definition payload_or_empty :: "json option \<Rightarrow> json" where
  "payload_or_empty payload = (case payload of None \<Rightarrow> JObj [] | Some JNull \<Rightarrow> JObj [] | Some v \<Rightarrow> v)"

definition start_state :: "projection_limits \<Rightarrow> projection_state" where
  "start_state limits = \<lparr>ps_maxStringChars = pl_maxStringChars limits, ps_nodesLeft = pl_maxNodes limits, ps_redacted = False, ps_truncated = False\<rparr>"

definition with_payload :: "ws_frame \<Rightarrow> json \<Rightarrow> bool \<Rightarrow> bool \<Rightarrow> observer_frame" where
  "with_payload evt payload redacted truncated =
     \<lparr>of_event = envelopeText (fe_event evt), of_timestamp = envelopeText (fe_timestamp evt), of_event_id = envelopeText (fe_event_id evt),
       of_payload = payload, of_redacted = redacted, of_truncated = truncated\<rparr>"

definition projection_attempt :: "ws_frame \<Rightarrow> projection_limits \<Rightarrow> observer_frame" where
  "projection_attempt evt limits = (case projectValue (payload_or_empty (fe_payload evt)) 0 (start_state limits) of
     (payload, st) \<Rightarrow> with_payload evt payload (ps_redacted st) (ps_truncated st))"

definition projectObserverFrame :: "(jsnum \<Rightarrow> nat) \<Rightarrow> ws_frame \<Rightarrow> observer_frame \<times> nat" where
  "projectObserverFrame num_bytes evt =
     (let frame = (case find (\<lambda>f. int (utf8ByteLength num_bytes f) \<le> OBSERVER_FRAME_MAX_BYTES) (map (projection_attempt evt) PROJECTION_ATTEMPTS) of
          Some f \<Rightarrow> f
        | None \<Rightarrow> with_payload evt (JObj []) False True)
      in (frame, utf8ByteLength num_bytes frame))"


section \<open>A frame is small\<close>

lemma char_bytes_le: "char_bytes c \<le> 6"
  by (simp add: char_bytes_def Let_def)

lemma string_bytes_le: "string_bytes s \<le> 2 + 6 * length s"
proof -
  have "sum_list (map char_bytes s) \<le> 6 * length s"
    by (induction s) (use char_bytes_le in \<open>auto intro: add_mono\<close>)
  then show ?thesis by (simp add: string_bytes_def)
qed

lemma envelope_bytes: "string_bytes (envelopeText str) \<le> 1538"
  using string_bytes_le [of "envelopeText str"] by (simp add: envelopeText_def MAX_ENVELOPE_CHARS_def split: if_splits)

lemma key_bytes:
  "string_bytes ''event'' = 7" "string_bytes ''timestamp'' = 11" "string_bytes ''event_id'' = 10" "string_bytes ''payload'' = 9"
  "string_bytes ''projection'' = 12" "string_bytes ''redacted'' = 10" "string_bytes ''truncated'' = 11"
  by code_simp+

lemma empty_frame_bytes: "int (utf8ByteLength num_bytes (with_payload evt (JObj []) False True)) \<le> OBSERVER_FRAME_MAX_BYTES"
  using envelope_bytes [of "fe_event evt"] envelope_bytes [of "fe_timestamp evt"] envelope_bytes [of "fe_event_id evt"]
  by (simp add: utf8ByteLength_def frame_json_def with_payload_def key_bytes OBSERVER_FRAME_MAX_BYTES_def)

lemma frame_bytes:
  assumes "projectObserverFrame num_bytes evt = (frame, bytes)"
  shows "int bytes \<le> OBSERVER_FRAME_MAX_BYTES" "bytes = utf8ByteLength num_bytes frame" "0 < bytes"
proof -
  show "bytes = utf8ByteLength num_bytes frame" using assms by (auto simp: projectObserverFrame_def Let_def)
  then show "0 < bytes" by (simp add: utf8ByteLength_def frame_json_def)
  show "int bytes \<le> OBSERVER_FRAME_MAX_BYTES"
    using assms empty_frame_bytes
    by (auto simp: projectObserverFrame_def Let_def split: option.splits dest: find_SomeD)
qed

lemma frame_event_id:
  assumes "projectObserverFrame num_bytes evt = (frame, bytes)"
  shows "of_event_id frame = envelopeText (fe_event_id evt)"
  using assms
  by (auto simp: projectObserverFrame_def Let_def with_payload_def projection_attempt_def PROJECTION_ATTEMPTS_def split: option.splits prod.splits if_splits)


section \<open>Values under credential names do not matter\<close>

text \<open>The same value with every withheld field blanked.\<close>

fun blanked :: "json \<Rightarrow> json" where
  "blanked (JArr xs) = JArr (map blanked xs)"
| "blanked (JObj kvs) = JObj (map (\<lambda>kv. (fst kv, if withheld (fst kv) (snd kv) then JStr [] else blanked (snd kv))) kvs)"
| "blanked value = value"

abbreviation blank_field :: "string \<times> json \<Rightarrow> string \<times> json" where
  "blank_field kv \<equiv> (fst kv, if withheld (fst kv) (snd kv) then JStr [] else blanked (snd kv))"

lemma withheld_blanked: "withheld k (snd (blank_field (k, v))) = withheld k v"
  by (cases v) (auto simp: withheld_def)

lemma withheld_blank:
  "withheld k v \<Longrightarrow> withheld k (JStr [])" "\<not> withheld k v \<Longrightarrow> \<not> withheld k (blanked v)"
  using withheld_blanked [of k v] by (auto split: if_splits)

lemma project_blanked:
  "projectValue (blanked v) depth st = projectValue v depth st"
  "project_items n (map blanked xs) depth st = project_items n xs depth st"
  "project_fields n (map blank_field kvs) depth projected st = project_fields n kvs depth projected st"
proof (induction v depth st and n xs depth st and n kvs depth projected st rule: projectValue_project_items_project_fields.induct)
  case (1 v depth st)
  show ?case
  proof (cases "ps_nodesLeft st = 0")
    case False
    then show ?thesis
      using 1 by (cases v) (auto simp: projectValue.simps Let_def split: prod.splits)
  qed (simp add: projectValue.simps)
next
  case (7 n key field kvs depth projected st)
  then show ?case by (auto simp: withheld_blank split: prod.splits)
qed (auto split: prod.splits)

lemma attempt_blanked:
  "projection_attempt (evt\<lparr>fe_payload := map_option blanked (fe_payload evt)\<rparr>) limits = projection_attempt evt limits"
proof -
  have "payload_or_empty (map_option blanked p) = blanked (payload_or_empty p)" for p
    by (cases p) (auto simp: payload_or_empty_def split: json.splits)
  then show ?thesis by (simp add: projection_attempt_def project_blanked with_payload_def)
qed


section \<open>The shape of a projection\<close>

text \<open>
  A value nested at most \<open>d\<close> deep, with arrays and objects within their limits, whose texts and keys
  all satisfy a predicate.
\<close>

fun fits :: "(string \<Rightarrow> bool) \<Rightarrow> nat \<Rightarrow> json \<Rightarrow> bool" where
  "fits Q d (JStr s) = Q s"
| "fits Q d (JArr xs) = (0 < d \<and> length xs \<le> MAX_ARRAY_ITEMS + 1 \<and> list_all (fits Q (d - 1)) xs)"
| "fits Q d (JObj kvs) = (0 < d \<and> length kvs \<le> MAX_OBJECT_KEYS \<and> list_all (\<lambda>kv. Q (fst kv) \<and> fits Q (d - 1) (snd kv)) kvs)"
| "fits Q d v = True"

lemma fits_mono: "(\<And>s. Q s \<Longrightarrow> Q' s) \<Longrightarrow> fits Q d v \<Longrightarrow> fits Q' d v"
  by (induction Q d v rule: fits.induct) (auto simp: list_all_iff)

lemma projectString_limit: "ps_maxStringChars (snd (projectString s st)) = ps_maxStringChars st"
  by (auto simp: projectString_def redactText_def Let_def)

lemma length_jm_set: "length (jm_set k v m) \<le> Suc (length m)"
  by (induction k v m rule: jm_set.induct) auto

lemma list_all_jm_set: "list_all P m \<Longrightarrow> P (k, v) \<Longrightarrow> list_all P (jm_set k v m)"
  by (induction k v m rule: jm_set.induct) auto

text \<open>
  If every projected text satisfies the predicate, and so do the two markers, then so does everything in
  a projected value.
\<close>

lemma project_fits:
  assumes Q: "\<And>s st. ps_maxStringChars st = m \<Longrightarrow> Q (fst (projectString s st))" and marks: "Q TRUNCATED_VALUE" "Q REDACTED_VALUE"
  shows "ps_maxStringChars st = m \<Longrightarrow> projectValue v depth st = (v', st') \<Longrightarrow>
      fits Q (MAX_DEPTH - depth) v' \<and> ps_maxStringChars st' = m"
    and "ps_maxStringChars st = m \<Longrightarrow> project_items n xs depth st = (ys, st') \<Longrightarrow>
      list_all (fits Q (MAX_DEPTH - depth)) ys \<and> length ys \<le> n \<and> ps_maxStringChars st' = m"
    and "ps_maxStringChars st = m \<Longrightarrow> project_fields n kvs depth projected st = (ms, st') \<Longrightarrow>
      list_all (\<lambda>kv. Q (fst kv) \<and> fits Q (MAX_DEPTH - depth) (snd kv)) projected \<Longrightarrow>
      list_all (\<lambda>kv. Q (fst kv) \<and> fits Q (MAX_DEPTH - depth) (snd kv)) ms \<and> length ms \<le> length projected + n \<and> ps_maxStringChars st' = m"
proof (induction v depth st and n xs depth st and n kvs depth projected st
    arbitrary: v' st' and ys st' and ms st' rule: projectValue_project_items_project_fields.induct)
  case (1 v depth st)
  show ?case
  proof (cases "ps_nodesLeft st = 0")
    case True
    then show ?thesis using 1(3,4) marks by (auto simp: projectValue.simps)
  next
    case left: False
    let ?st = "st\<lparr>ps_nodesLeft := ps_nodesLeft st - 1\<rparr>"
    have lim: "ps_maxStringChars ?st = m" using 1(3) by simp
    show ?thesis
    proof (cases v)
      case (JStr s)
      then show ?thesis using 1(4) left Q [OF lim, of s] projectString_limit [of s ?st] lim
        by (auto simp: projectValue.simps split: prod.splits)
    next
      case (JArr xs)
      show ?thesis
      proof (cases "depth < MAX_DEPTH")
        case True
        obtain ys st1 where ys: "project_items MAX_ARRAY_ITEMS xs (depth + 1) ?st = (ys, st1)" by (metis prod.exhaust)
        have "list_all (fits Q (MAX_DEPTH - (depth + 1))) ys \<and> length ys \<le> MAX_ARRAY_ITEMS \<and> ps_maxStringChars st1 = m"
          using 1(1) [OF left refl JArr _ lim ys] True by simp
        then show ?thesis using 1(4) left JArr True ys marks by (auto simp: projectValue.simps split: if_splits)
      qed (use 1(4) left lim JArr marks in \<open>auto simp: projectValue.simps\<close>)
    next
      case (JObj kvs)
      show ?thesis
      proof (cases "depth < MAX_DEPTH")
        case True
        obtain ms st1 where ms: "project_fields MAX_OBJECT_KEYS kvs (depth + 1) [] ?st = (ms, st1)" by (metis prod.exhaust)
        have "list_all (\<lambda>kv. Q (fst kv) \<and> fits Q (MAX_DEPTH - (depth + 1)) (snd kv)) ms \<and> length ms \<le> MAX_OBJECT_KEYS \<and> ps_maxStringChars st1 = m"
          using 1(2) [OF left refl JObj _ lim ms] True by simp
        then show ?thesis using 1(4) left JObj True ms by (auto simp: projectValue.simps)
      qed (use 1(4) left lim JObj marks in \<open>auto simp: projectValue.simps\<close>)
    qed (use 1(4) left lim in \<open>auto simp: projectValue.simps\<close>)
  qed
next
  case (4 n x xs depth st)
  obtain y st1 where y: "projectValue x depth st = (y, st1)" by (metis prod.exhaust)
  obtain zs st2 where zs: "project_items n xs depth st1 = (zs, st2)" by (metis prod.exhaust)
  have Qy: "fits Q (MAX_DEPTH - depth) y" "ps_maxStringChars st1 = m" using 4(1) [OF 4(3) y] by auto
  show ?case using 4(2) [OF y [symmetric] Qy(2) zs] 4(4) y zs Qy by auto
next
  case (7 n key field kvs depth projected st)
  obtain k st1 where k: "projectString key st = (k, st1)" by (metis prod.exhaust)
  have Qk: "Q k" "ps_maxStringChars st1 = m"
    using Q [OF 7(4), of key] projectString_limit [of key st] 7(4) k by simp_all
  show ?case
  proof (cases "withheld key field")
    case True
    let ?next = "jm_set k (JStr REDACTED_VALUE) projected"
    have "project_fields n kvs depth ?next (st1\<lparr>ps_redacted := True\<rparr>) = (ms, st')" using 7(5) k True by simp
    moreover have "list_all (\<lambda>kv. Q (fst kv) \<and> fits Q (MAX_DEPTH - depth) (snd kv)) ?next"
      using 7(6) Qk marks by (intro list_all_jm_set) auto
    ultimately show ?thesis
      using 7(1) [OF k [symmetric] True, of ms st'] Qk length_jm_set [of k "JStr REDACTED_VALUE" projected] by auto
  next
    case False
    obtain w st2 where w: "projectValue field depth st1 = (w, st2)" by (metis prod.exhaust)
    have Qw: "fits Q (MAX_DEPTH - depth) w" "ps_maxStringChars st2 = m"
      using 7(2) [OF k [symmetric] False Qk(2) w] by auto
    have "project_fields n kvs depth (jm_set k w projected) st2 = (ms, st')" using 7(5) k False w by simp
    moreover have "list_all (\<lambda>kv. Q (fst kv) \<and> fits Q (MAX_DEPTH - depth) (snd kv)) (jm_set k w projected)"
      using 7(6) Qk Qw by (intro list_all_jm_set) auto
    ultimately show ?thesis
      using 7(3) [OF k [symmetric] False w [symmetric], of ms st'] Qw length_jm_set [of k w projected] by auto
  qed
qed auto


lemma projectString_length: "length (fst (projectString s st)) \<le> Suc (ps_maxStringChars st)"
  by (auto simp: projectString_def redactText_def Let_def)

end
