(* ===== verification/Observer_Redaction.thy ===== *)
theory Observer_Redaction
  imports Observer_Frame "HOL-Library.Sublist"
begin

text \<open>
  No token that is recognised by its prefix is ever shown by the observer: the two patterns
  for such tokens leave none behind, and the patterns that run after them create none. What a pattern
  must satisfy for this is stated as locales, which every pattern of the source interprets.
\<close>


section \<open>Tokens in a text\<close>

text \<open>A run of token characters that starts with one of the prefixes and goes on for eight more.\<close>

definition token_run :: "string list \<Rightarrow> string \<Rightarrow> bool" where
  "token_run ps u = list_ex (\<lambda>p. starts_with u p \<and> length p + 8 \<le> length u) ps"

abbreviation run :: "string \<Rightarrow> string" where
  "run s \<equiv> takeWhile token_char s"

text \<open>No such run starts at a word boundary of the text that follows the given character.\<close>

fun clean_from :: "string list \<Rightarrow> char option \<Rightarrow> string \<Rightarrow> bool" where
  "clean_from ps prev [] = True"
| "clean_from ps prev (c # cs) = (\<not> (word_boundary prev (c # cs) \<and> token_run ps (run (c # cs))) \<and> clean_from ps (Some c) cs)"

lemma token_run_short: "length u \<le> 7 \<Longrightarrow> \<not> token_run ps u"
  by (auto simp: token_run_def list_ex_iff)

lemma token_run_prefix: "token_run ps u \<Longrightarrow> Sublist.prefix u v \<Longrightarrow> token_run ps v"
proof -
  assume "token_run ps u" "Sublist.prefix u v"
  then obtain p w where "p \<in> set ps" "starts_with u p" "length p + 8 \<le> length u" "v = u @ w"
    by (auto simp: token_run_def list_ex_iff prefix_def)
  then show ?thesis by (auto simp: token_run_def list_ex_iff starts_with_def intro!: bexI [of _ p])
qed

lemma run_prefix: "Sublist.prefix (run x) (run (x @ y))"
  by (induction x) auto

lemma run_append_stop: "\<exists>x\<in>set u. \<not> token_char x \<Longrightarrow> run (u @ v) = run u"
  by (auto simp: takeWhile_append1)

lemma word_boundary_Cons: "word_boundary prev (c # x) = word_boundary prev [c]"
  by (simp add: word_boundary_def)

lemma clean_split:
  assumes "\<not> token_char c"
  shows "clean_from ps prev (x @ c # y) = (clean_from ps prev x \<and> clean_from ps (Some c) y)"
proof (induction x arbitrary: prev)
  case Nil
  then show ?case using assms by (simp add: token_run_short)
next
  case (Cons a x)
  have "run (a # x @ c # y) = run (a # x)" using assms by (simp add: takeWhile_tail)
  then show ?case using Cons word_boundary_Cons [of prev a "x @ c # y"] word_boundary_Cons [of prev a x]
    by (simp only: clean_from.simps append_Cons) blast
qed

lemma clean_prefix: "clean_from ps prev (x @ y) \<Longrightarrow> clean_from ps prev x"
proof (induction x arbitrary: prev)
  case (Cons a x)
  have "token_run ps (run (a # x)) \<Longrightarrow> token_run ps (run (a # x @ y))"
    using token_run_prefix run_prefix [of "a # x" y] by (metis append_Cons)
  then show ?case using Cons word_boundary_Cons [of prev a "x @ y"] word_boundary_Cons [of prev a x]
    by (simp only: clean_from.simps append_Cons) blast
qed simp

lemma clean_take: "clean_from ps prev s \<Longrightarrow> clean_from ps prev (take n s)"
  by (rule clean_prefix [of ps prev "take n s" "drop n s"]) simp

lemma clean_suffix: "clean_from ps prev (x @ y) \<Longrightarrow> x \<noteq> [] \<Longrightarrow> clean_from ps (Some (last x)) y"
  by (induction x arbitrary: prev) auto

definition in_word :: "char option \<Rightarrow> bool" where
  "in_word prev = (case prev of None \<Rightarrow> False | Some c \<Rightarrow> word_char c)"

lemma clean_context: "in_word p = in_word q \<Longrightarrow> clean_from ps p s = clean_from ps q s"
  by (cases s) (simp_all add: word_boundary_def in_word_def)

lemma clean_stop_context: "s = [] \<or> \<not> token_char (hd s) \<Longrightarrow> clean_from ps p s = clean_from ps q s"
  by (cases s) (auto simp: token_run_short)

text \<open>Joining two clean texts, where no run can go across the border.\<close>

definition border :: "char \<Rightarrow> char \<Rightarrow> string \<Rightarrow> bool" where
  "border l l' y = (y = [] \<or> \<not> token_char (hd y) \<or> \<not> token_char l' \<and> \<not> word_char l' \<and> \<not> word_char l)"

lemma clean_join:
  assumes x: "clean_from ps prev x" "x \<noteq> []" and y: "clean_from ps (Some l) y" and b: "border l (last x) y"
  shows "clean_from ps prev (x @ y)"
proof (cases "y = [] \<or> \<not> token_char (hd y)")
  case True
  show ?thesis
  proof (cases y)
    case (Cons c ys)
    then have "\<not> token_char c" using True by simp
    then show ?thesis using clean_split [of c ps prev x ys] x y Cons by simp
  qed (use x in simp)
next
  case False
  then have last: "\<not> token_char (last x)" "\<not> word_char (last x)" "\<not> word_char l" using b by (auto simp: border_def)
  obtain x' where x': "x = x' @ [last x]" using x(2) by (metis append_butlast_last_id)
  then have "clean_from ps prev x'" using clean_prefix x(1) by metis
  moreover have "clean_from ps (Some (last x)) y"
    using y clean_context [of "Some l" "Some (last x)" ps y] last by (simp add: in_word_def)
  ultimately have "clean_from ps prev (x' @ last x # y)" using clean_split last(1) by blast
  then show ?thesis using x' by (metis append_Cons append_Nil append_assoc)
qed


section \<open>Patterns that break runs\<close>

text \<open>
  The replacement holds a character that ends every run, keeps the run at its beginning or cuts it, and the
  text after the match does not continue one.
\<close>

locale breaking_matcher =
  fixes mt :: matcher
  assumes new_stops: "mt prev s = Some (Suc n, new) \<Longrightarrow> \<exists>x\<in>set new. \<not> token_char x"
    and new_run: "mt prev s = Some (Suc n, new) \<Longrightarrow> Sublist.prefix (run new) (run s)"
    and new_border: "mt prev s = Some (Suc n, new) \<Longrightarrow> s \<noteq> [] \<Longrightarrow> border (last (take (Suc n) s)) (last new) (drop (Suc n) s)"
begin

text \<open>One step of the replacement.\<close>

lemma replace_cases:
  obtains (hit) n new where "mt prev (c # cs) = Some (Suc n, new)" "new \<noteq> []"
      "replace_all mt prev (c # cs) = new @ replace_all mt (Some (last (take (Suc n) (c # cs)))) (drop (Suc n) (c # cs))"
  | (miss) "\<nexists>n new. mt prev (c # cs) = Some (Suc n, new)" "replace_all mt prev (c # cs) = c # replace_all mt (Some c) cs"
proof (cases "\<exists>n new. mt prev (c # cs) = Some (Suc n, new)")
  case True
  then obtain n new where m: "mt prev (c # cs) = Some (Suc n, new)" by blast
  then have "new \<noteq> []" using new_stops [OF m] by auto
  then show ?thesis using m by (intro hit) auto
next
  case False
  then have "replace_all mt prev (c # cs) = c # replace_all mt (Some c) cs" by (auto split: option.split prod.split nat.split)
  then show ?thesis using False by (intro miss)
qed

lemma replace_run: "Sublist.prefix (run (replace_all mt prev s)) (run s)"
proof (induction "length s" arbitrary: s prev rule: less_induct)
  case less
  show ?case
  proof (cases s)
    case (Cons c cs)
    show ?thesis
    proof (cases prev c cs rule: replace_cases)
      case (hit n new)
      then show ?thesis using new_run [OF hit(1)] run_append_stop [OF new_stops [OF hit(1)]] Cons by (simp only:)
    next
      case miss
      then show ?thesis using less [of cs "Some c"] Cons by simp
    qed
  qed simp
qed

lemma replace_stops: "\<exists>x\<in>set s. \<not> token_char x \<Longrightarrow> \<exists>x\<in>set (replace_all mt prev s). \<not> token_char x"
proof (induction "length s" arbitrary: s prev rule: less_induct)
  case less
  then obtain c cs where s: "s = c # cs" by (cases s) auto
  show ?case
  proof (cases prev c cs rule: replace_cases)
    case (hit n new)
    then show ?thesis using new_stops [OF hit(1)] unfolding s hit(3) by auto
  next
    case miss
    then show ?thesis using less s by auto
  qed
qed

lemma replace_border:
  assumes "border l l' s"
  shows "border l l' (replace_all mt prev s)"
proof (cases "s = [] \<or> \<not> token_char (hd s)")
  case True
  then have "run s = []" by (cases s) auto
  then have "run (replace_all mt prev s) = []" using replace_run [of prev s] by simp
  then show ?thesis by (cases "replace_all mt prev s") (auto simp: border_def split: if_splits)
qed (use assms in \<open>auto simp: border_def\<close>)

end

text \<open>A pattern whose replacement is clean if the text was, and one that finds every token.\<close>

locale preserving_matcher = breaking_matcher mt for mt :: matcher +
  fixes ps :: "string list"
  assumes new_clean: "mt prev s = Some (Suc n, new) \<Longrightarrow> clean_from ps prev s \<Longrightarrow> clean_from ps prev new"
begin

lemma replace_clean: "clean_from ps prev s \<Longrightarrow> clean_from ps prev (replace_all mt prev s)"
proof (induction "length s" arbitrary: s prev rule: less_induct)
  case less
  show ?case
  proof (cases s)
    case (Cons c cs)
    show ?thesis
    proof (cases prev c cs rule: replace_cases)
      case (hit n new)
      let ?u = "take (Suc n) s" and ?v = "drop (Suc n) s"
      have "clean_from ps (Some (last ?u)) ?v" using less(2) Cons by (intro clean_suffix [of ps prev ?u ?v]) auto
      then have "clean_from ps (Some (last ?u)) (replace_all mt (Some (last ?u)) ?v)" using less(1) Cons by simp
      moreover have "border (last ?u) (last new) (replace_all mt (Some (last ?u)) ?v)"
        using new_border [OF hit(1)] Cons by (intro replace_border) simp
      moreover have "clean_from ps prev new" using new_clean [OF hit(1)] less(2) Cons by simp
      ultimately show ?thesis using clean_join hit(2,3) Cons by metis
    next
      case miss
      have "clean_from ps (Some c) (replace_all mt (Some c) cs)" using less Cons by simp
      moreover have "Sublist.prefix (run (c # replace_all mt (Some c) cs)) (run (c # cs))" using replace_run by simp
      ultimately show ?thesis
        using less(2) Cons miss token_run_prefix word_boundary_Cons [of prev c cs] word_boundary_Cons [of prev c "replace_all mt (Some c) cs"]
        by (simp only: clean_from.simps) blast
    qed
  qed simp
qed

end

locale catching_matcher = breaking_matcher mt for mt :: matcher +
  fixes ps :: "string list"
  assumes catches: "word_boundary prev s \<Longrightarrow> token_run ps (run s) \<Longrightarrow> \<exists>n new. mt prev s = Some (Suc n, new)"
    and new_free: "mt prev s = Some (Suc n, new) \<Longrightarrow> clean_from ps prev new"
begin

lemma replace_catches: "clean_from ps prev (replace_all mt prev s)"
proof (induction "length s" arbitrary: s prev rule: less_induct)
  case less
  show ?case
  proof (cases s)
    case (Cons c cs)
    show ?thesis
    proof (cases prev c cs rule: replace_cases)
      case (hit n new)
      let ?u = "take (Suc n) s" and ?v = "drop (Suc n) s"
      have "clean_from ps (Some (last ?u)) (replace_all mt (Some (last ?u)) ?v)" using less Cons by simp
      moreover have "border (last ?u) (last new) (replace_all mt (Some (last ?u)) ?v)"
        using new_border [OF hit(1)] Cons by (intro replace_border) simp
      ultimately show ?thesis using clean_join new_free [OF hit(1)] hit(2,3) Cons by metis
    next
      case miss
      have "clean_from ps (Some c) (replace_all mt (Some c) cs)" using less Cons by simp
      moreover have "Sublist.prefix (run (c # replace_all mt (Some c) cs)) (run (c # cs))" using replace_run by simp
      ultimately show ?thesis
        using Cons miss catches [of prev "c # cs"] token_run_prefix word_boundary_Cons [of prev c cs] word_boundary_Cons [of prev c "replace_all mt (Some c) cs"]
        by (simp only: clean_from.simps) blast
    qed
  qed simp
qed

end


section \<open>The patterns of the source\<close>

lemma keep_and_replace_Some:
  assumes "keep_and_replace bounded kept dropped new prev s = Some (n, t)"
  obtains a b bs where "rx_ends dropped (drop a s) = b # bs" "a \<in> set (rx_ends kept s)" "n = a + b" "t = take a s @ new" "bounded \<Longrightarrow> word_boundary prev s"
proof -
  let ?pairs = "concat (map (\<lambda>a. map (\<lambda>b. (a, b)) (rx_ends dropped (drop a s))) (rx_ends kept s))"
  obtain a b ps where p: "?pairs = (a, b) # ps" "n = a + b" "t = take a s @ new"
    using assms by (auto simp: keep_and_replace_def split: if_splits list.splits)
  have "\<exists>bs. a \<in> set (rx_ends kept s) \<and> rx_ends dropped (drop a s) = b # bs" using concat_first [OF p(1)] by auto
  moreover have "bounded \<Longrightarrow> word_boundary prev s" using assms by (auto simp: keep_and_replace_def split: if_splits)
  ultimately show thesis using that p by blast
qed

lemma marker_chars: "\<not> token_char CHR ''[''" "\<not> token_char CHR '']''" "\<not> token_char CHR ''@''" "\<not> word_char CHR ''@''" "\<not> token_char CHR '':''" "\<not> token_char ELLIPSIS"
  by code_simp+

lemma run_marker: "run (x @ REDACTED_VALUE @ y) = run x"
  using marker_chars by (simp add: REDACTED_VALUE_def takeWhile_tail)

lemma clean_marker:
  assumes "[] \<notin> set ps" and "clean_from ps prev x" and "clean_from ps (Some CHR '']'') y"
  shows "clean_from ps prev (x @ REDACTED_VALUE @ y)"
proof -
  have short: "\<not> token_run ps u" if "length u \<le> 8" for u
  proof
    assume "token_run ps u"
    then obtain p where "p \<in> set ps" "length p + 8 \<le> length u" by (auto simp: token_run_def list_ex_iff)
    moreover from this that have "length p = 0" by linarith
    ultimately show False using assms(1) by simp
  qed
  have small: "clean_from ps q u" if "length u \<le> 8" for q u
    using that by (induction u arbitrary: q) (auto simp: short le_trans [OF length_takeWhile_le])
  have "clean_from ps (Some CHR ''['') ''redacted''" by (rule small) simp
  then have "clean_from ps (Some CHR ''['') (''redacted'' @ CHR '']'' # y)"
    using clean_split [OF marker_chars(2), of ps _ "''redacted''" y] assms(3) by blast
  then have "clean_from ps prev (x @ CHR ''['' # ''redacted'' @ CHR '']'' # y)"
    using clean_split [OF marker_chars(1), of ps prev x] assms(2) by blast
  then show ?thesis by (simp add: REDACTED_VALUE_def)
qed

lemma keep_breaking:
  assumes "ends_before token_char dropped"
  shows "breaking_matcher (keep_and_replace bounded kept dropped REDACTED_VALUE)"
proof
  fix prev s n new
  assume "keep_and_replace bounded kept dropped REDACTED_VALUE prev s = Some (Suc n, new)"
  then obtain a b bs where ab: "rx_ends dropped (drop a s) = b # bs" "Suc n = a + b" "new = take a s @ REDACTED_VALUE"
    by (rule keep_and_replace_Some)
  show "\<exists>x\<in>set new. \<not> token_char x" using ab(3) marker_chars by (auto simp: REDACTED_VALUE_def)
  show "Sublist.prefix (run new) (run s)"
    using ab(3) run_marker [of "take a s" "[]"] run_prefix [of "take a s" "drop a s"] by simp
  show "border (last (take (Suc n) s)) (last new) (drop (Suc n) s)"
    using ends_beforeD [OF assms ab(1)] ab(2) by (auto simp: border_def add.commute)
qed

lemma keep_preserving:
  assumes "ends_before token_char dropped" and "[] \<notin> set ps"
  shows "preserving_matcher (keep_and_replace bounded kept dropped REDACTED_VALUE) ps"
proof (intro preserving_matcher.intro keep_breaking [OF assms(1)], unfold_locales)
  fix prev s n new
  assume "keep_and_replace bounded kept dropped REDACTED_VALUE prev s = Some (Suc n, new)" and "clean_from ps prev s"
  moreover from this(1) obtain a where "new = take a s @ REDACTED_VALUE" by (rule keep_and_replace_Some)
  ultimately show "clean_from ps prev new" using clean_marker [OF assms(2) clean_take, of prev s "[]" a] by simp
qed

text \<open>The tokens known by their prefix.\<close>

definition TOKEN_PREFIXES :: "string list" where
  "TOKEN_PREFIXES = [''vlr_'', ''ghp_'', ''gho_'', ''ghu_'', ''ghs_'', ''ghr_'', ''github_pat_'', ''glpat-'',
     ''xoxa-'', ''xoxb-'', ''xoxp-'', ''xoxr-'', ''xoxs-'', ''sk-'']"

definition KNOWN_TOKENS :: "string list" where
  "KNOWN_TOKENS = ''eyJ'' # TOKEN_PREFIXES"

lemma known_tokens_ne: "[] \<notin> set KNOWN_TOKENS" "[] \<notin> set TOKEN_PREFIXES" "[] \<notin> set [''eyJ'']"
  by (simp_all add: KNOWN_TOKENS_def TOKEN_PREFIXES_def)

lemma known_tokens_split: "clean_from KNOWN_TOKENS prev s \<longleftrightarrow> clean_from [''eyJ''] prev s \<and> clean_from TOKEN_PREFIXES prev s"
  by (induction s arbitrary: prev) (auto simp: KNOWN_TOKENS_def token_run_def)

lemma token_not_space: "token_char c \<Longrightarrow> \<not> js_space c \<and> c \<notin> set [CHR ''&'', CHR 0x22, CHR 0x27, CHR '','', CHR '';'', CHR ''#'']"
  by (auto simp: token_char_def js_space_def is_upper_def is_lower_def is_digit_def)


lemma token_run_split:
  assumes "token_run ps (run s)"
  obtains p u rest where "p \<in> set ps" "s = p @ u @ rest" "length u = 8" "list_all token_char u"
proof -
  obtain p where p: "p \<in> set ps" "take (length p) (run s) = p" "length p + 8 \<le> length (run s)"
    using assms by (auto simp: token_run_def list_ex_iff starts_with_def)
  define w where "w = drop (length p) (run s)"
  have "run s = p @ w" unfolding w_def using p(2) by (metis append_take_drop_id)
  then have "s = p @ w @ dropWhile token_char s" by (metis append_assoc takeWhile_dropWhile_id)
  then have "s = p @ take 8 w @ (drop 8 w @ dropWhile token_char s)" by (metis append_assoc append_take_drop_id)
  moreover have "length (take 8 w) = 8" using p(3) by (simp add: w_def)
  moreover have "list_all token_char (take 8 w)"
    using \<open>run s = p @ w\<close> by (metis Un_iff in_set_takeD list_all_iff set_append set_takeWhileD)
  ultimately show thesis using p(1) that by blast
qed

lemma keep_catching:
  assumes "ends_before token_char dropped" and "[] \<notin> set ps" and "consumes dropped"
    and found: "\<And>s. token_run ps (run s) \<Longrightarrow> rx_ends dropped s \<noteq> []"
  shows "catching_matcher (keep_and_replace True Eps dropped REDACTED_VALUE) ps"
proof (intro catching_matcher.intro keep_breaking [OF assms(1)], unfold_locales)
  fix prev s
  assume "word_boundary prev s" and "token_run ps (run s)"
  moreover from this obtain b bs where b: "rx_ends dropped s = b # bs" using found by (metis neq_Nil_conv)
  moreover have "b \<noteq> 0" using assms(3) b by (metis consumes_def list.set_intros(1))
  ultimately show "\<exists>n new. keep_and_replace True Eps dropped REDACTED_VALUE prev s = Some (Suc n, new)"
    by (cases b) (auto simp: keep_and_replace_def)
next
  fix prev s n new
  assume "keep_and_replace True Eps dropped REDACTED_VALUE prev s = Some (Suc n, new)"
  then obtain a where "a \<in> set (rx_ends Eps s)" "new = take a s @ REDACTED_VALUE" by (rule keep_and_replace_Some)
  then show "clean_from ps prev new" using clean_marker [OF assms(2), of prev "[]" "[]"] by simp
qed

lemma jwt_found:
  "token_run [''eyJ''] (run s) \<Longrightarrow>
     rx_ends (seq_of [lit ''eyJ'', at_least 8 (Class token_char), Greedy (seq_of [lit ''.'', Greedy (Class token_char)])]) s \<noteq> []"
proof -
  assume "token_run [''eyJ''] (run s)"
  then obtain p u rest where s: "p \<in> set [''eyJ'']" "s = p @ u @ rest" "length u = 8" "list_all token_char u" by (rule token_run_split)
  have "rx_match (at_least 8 (Class token_char)) u ([] @ rest)" using rx_match_at_least [OF s(4)] s(3) by simp
  then have "rx_match (Both (lit ''eyJ'') (Both (at_least 8 (Class token_char)) (Greedy (seq_of [lit ''.'', Greedy (Class token_char)])))) (''eyJ'' @ u @ []) rest"
    by (intro rx_match.both rx_match.stop rx_match_lit)
  then show ?thesis using rx_ends_nonempty s(1,2) by fastforce
qed

interpretation jwt: catching_matcher json_web_token "[''eyJ'']"
  unfolding json_web_token_def
proof (rule keep_catching [OF _ known_tokens_ne(3) _ jwt_found])
  have "ends_before token_char (Both (lit ''.'') (Greedy (Class token_char)))"
    by (intro ends_before_Both ends_before_Greedy_Class)
  moreover have "consumes (Both (lit ''.'') (Greedy (Class token_char)))" by simp
  ultimately show "ends_before token_char (seq_of [lit ''eyJ'', at_least 8 (Class token_char), Greedy (seq_of [lit ''.'', Greedy (Class token_char)])])"
    unfolding seq_of.simps consumes_def
    by (intro ends_before_Both [of _ "Both (at_least _ _) _"] ends_before_Both_Greedy [of _ "at_least _ _"] ends_before_at_least) auto
qed simp_all

interpretation companion: preserving_matcher companion_token "[''eyJ'']"
  unfolding companion_token_def
proof (rule keep_preserving [OF _ known_tokens_ne(3)])
  show "ends_before token_char (seq_of [lit ''bpc_'', exactly 43 (Class token_char), NotNext token_char])"
    unfolding seq_of.simps by (intro ends_before_Both ends_before_NotNext)
qed

lemma any_of_match: "r \<in> set rs \<Longrightarrow> rx_match r u rest \<Longrightarrow> rx_match (any_of rs) u rest"
  by (induction rs rule: any_of.induct) (auto intro: rx_match.left rx_match.right)

lemma prefix_found: "p \<in> set TOKEN_PREFIXES \<Longrightarrow> rx_match token_prefix p rest"
proof -
  have xox: "rx_match (seq_of [lit ''xox'', one_of ''abprs'', lit ''-'']) (''xox'' @ [c] @ ''-'') rest" if "c \<in> set ''abprs''" for c
    unfolding seq_of.simps one_of_def by (intro rx_match.both rx_match_lit rx_match.in_class that)
  have parts: "p \<in> set (xs @ map f ys @ [z]) \<Longrightarrow> p \<in> set xs \<or> p = z \<or> (\<exists>c\<in>set ys. p = f c)"
    for xs :: "string list" and f :: "char \<Rightarrow> string" and ys z by auto
  have split: "TOKEN_PREFIXES = [''vlr_'', ''ghp_'', ''gho_'', ''ghu_'', ''ghs_'', ''ghr_'', ''github_pat_'', ''glpat-''] @
      map (\<lambda>c. ''xox'' @ [c] @ ''-'') ''abprs'' @ [''sk-'']"
    by (simp add: TOKEN_PREFIXES_def)
  assume "p \<in> set TOKEN_PREFIXES"
  then consider "p \<in> set [''vlr_'', ''ghp_'', ''gho_'', ''ghu_'', ''ghs_'', ''ghr_'', ''github_pat_'', ''glpat-'']" | "p = ''sk-''"
    | c where "c \<in> set ''abprs''" "p = ''xox'' @ [c] @ ''-''"
    unfolding split using parts by blast
  then show ?thesis
  proof cases
    case 1
    show ?thesis unfolding token_prefix_def by (rule any_of_match [OF _ rx_match_lit]) (unfold set_append set_map, intro UnI1 imageI 1)
  next
    case 2
    show ?thesis unfolding token_prefix_def 2
      by (rule any_of_match [OF _ rx_match_lit]) (unfold set_append list.set, intro UnI2 insertI2 insertI1)
  next
    case 3
    show ?thesis unfolding token_prefix_def 3(2)
      by (rule any_of_match [OF _ xox [OF 3(1)]]) (unfold set_append list.set, intro UnI2 insertI1)
  qed
qed

lemma consumes_prefix: "consumes token_prefix"
  by (simp add: token_prefix_def one_of_def)

lemma prefixed_found:
  "token_run TOKEN_PREFIXES (run s) \<Longrightarrow> rx_ends (seq_of [token_prefix, at_least 8 (Class token_char)]) s \<noteq> []"
proof -
  assume "token_run TOKEN_PREFIXES (run s)"
  then obtain p u rest where s: "p \<in> set TOKEN_PREFIXES" "s = p @ u @ rest" "length u = 8" "list_all token_char u" by (rule token_run_split)
  have "rx_match (at_least 8 (Class token_char)) u rest" using rx_match_at_least [OF s(4)] s(3) by simp
  then have "rx_match (Both token_prefix (at_least 8 (Class token_char))) (p @ u) rest"
    by (intro rx_match.both prefix_found [OF s(1)])
  from rx_ends_nonempty [OF this] show ?thesis unfolding s(2) seq_of.simps append_assoc .
qed

lemma prefixed_ends: "ends_before token_char (seq_of [token_prefix, at_least 8 (Class token_char)])"
  unfolding seq_of.simps by (intro ends_before_Both [of _ _ token_prefix] ends_before_at_least)

interpretation prefixed: catching_matcher prefixed_token TOKEN_PREFIXES
  unfolding prefixed_token_def
  by (rule keep_catching [OF prefixed_ends known_tokens_ne(2) _ prefixed_found]) (simp_all add: consumes_prefix)

interpretation prefixed_jwt: preserving_matcher prefixed_token "[''eyJ'']"
  unfolding prefixed_token_def by (rule keep_preserving [OF prefixed_ends known_tokens_ne(3)])

interpretation query: preserving_matcher query_value KNOWN_TOKENS
  unfolding query_value_def
  by (intro keep_preserving ends_before_Greedy_Class known_tokens_ne) (auto dest: token_not_space)

interpretation pair: preserving_matcher credential_pair KNOWN_TOKENS
  unfolding credential_pair_def
  by (intro keep_preserving ends_before_at_least known_tokens_ne) (auto dest: token_not_space)


text \<open>The user information of a URL ends with an at sign, before and after the replacement.\<close>

lemma rx_match_last: "rx_match (seq_of [r, lit [c]]) u rest \<Longrightarrow> u \<noteq> [] \<and> last u = c"
  by (auto elim!: rx_BothE rx_ClassE rx_EpsE)

abbreviation "userinfo \<equiv> seq_of [at_least 1 (Class (\<lambda>c. \<not> js_space c \<and> c \<notin> set ''/@'')), lit ''@'']"

lemma url_userinfo_Some:
  assumes "url_userinfo prev s = Some (n, new)"
  obtains a where "last (take n s) = CHR ''@''" "new = take a s @ REDACTED_VALUE @ ''@''"
proof -
  obtain a b bs where ab: "rx_ends userinfo (drop a s) = b # bs" "n = a + b" "new = take a s @ REDACTED_VALUE @ ''@''"
    using assms unfolding url_userinfo_def by (rule keep_and_replace_Some)
  have "rx_match userinfo (take b (drop a s)) (drop b (drop a s))" using ab(1) by (rule rx_ends_first)
  from rx_match_last [OF this] have "last (take n s) = CHR ''@''" unfolding ab(2) take_add by (metis last_append)
  then show thesis using that ab(3) by blast
qed

interpretation userinfo: preserving_matcher url_userinfo KNOWN_TOKENS
proof
  fix prev s n new
  assume "url_userinfo prev s = Some (Suc n, new)"
  then obtain a where a: "last (take (Suc n) s) = CHR ''@''" "new = take a s @ REDACTED_VALUE @ ''@''" by (rule url_userinfo_Some)
  show "\<exists>x\<in>set new. \<not> token_char x" using a(2) marker_chars by auto
  show "Sublist.prefix (run new) (run s)" using a(2) run_marker [of "take a s"] run_prefix [of "take a s" "drop a s"] by simp
  show "border (last (take (Suc n) s)) (last new) (drop (Suc n) s)" using a marker_chars by (simp add: border_def)
  show "clean_from KNOWN_TOKENS prev new" if "clean_from KNOWN_TOKENS prev s"
    unfolding a(2) using that marker_chars(3) by (intro clean_marker known_tokens_ne clean_take) (simp_all add: token_run_short)
qed

text \<open>The query of a URL is rewritten inside the match, which starts at a word boundary and ends before white space.\<close>

abbreviation "queried_url \<equiv> seq_of [scheme_prefix, Greedy (Class (\<lambda>c. \<not> js_space c \<and> c \<notin> set ''?#'')), one_of ''?#'', Greedy (Class (\<lambda>c. \<not> js_space c))]"

lemma scheme_match: "rx_match scheme_prefix u rest \<Longrightarrow> u \<noteq> [] \<and> word_char (hd u) \<and> CHR '':'' \<in> set u"
proof -
  assume "rx_match scheme_prefix u rest"
  then obtain c v w where "u = [c] @ v @ w" "is_lower c \<or> is_upper c" "rx_match (lit ''://'') w rest"
    unfolding scheme_prefix_def seq_of.simps
    by (elim rx_BothE [of "Class _"] rx_BothE [of "Greedy _"] rx_ClassE) blast
  moreover from this(3) have "CHR '':'' \<in> set w"
    by (auto elim!: rx_BothE rx_ClassE)
  ultimately show ?thesis by (auto simp: word_char_def)
qed


lemma rewrite_match_Some:
  assumes "rewrite_match True r f prev s = Some (n, new)"
  obtains ns where "rx_ends r s = n # ns" "new = f (take n s)" "word_boundary prev s"
  using assms by (auto simp: rewrite_match_def split: if_splits list.splits)

lemma url_query_Some:
  assumes "url_query prev s = Some (n, new)"
  shows "new = replace_all query_value None (take n s)" "drop n s = [] \<or> \<not> token_char (hd (drop n s))"
    "\<not> in_word prev" "CHR '':'' \<in> set (take n s)"
proof -
  obtain ns where n: "rx_ends queried_url s = n # ns" "new = replace_all query_value None (take n s)" "word_boundary prev s"
    using assms unfolding url_query_def by (rule rewrite_match_Some)
  show "new = replace_all query_value None (take n s)" using n(2) .
  have "ends_before token_char queried_url"
    unfolding seq_of.simps by (intro ends_before_Both ends_before_Greedy_Class) (simp add: token_not_space)
  then show "drop n s = [] \<or> \<not> token_char (hd (drop n s))" using n(1) by (rule ends_beforeD)
  have "rx_match queried_url (take n s) (drop n s)" using n(1) by (rule rx_ends_first)
  then obtain u v where uv: "take n s = u @ v" "rx_match scheme_prefix u (v @ drop n s)"
    unfolding seq_of.simps by (elim rx_BothE [of scheme_prefix]) blast
  from scheme_match [OF uv(2)] have u: "u \<noteq> []" "word_char (hd u)" "CHR '':'' \<in> set u" by auto
  then show "CHR '':'' \<in> set (take n s)" using uv(1) by simp
  have "s \<noteq> [] \<and> hd s = hd u" using uv(1) u(1) by (cases s; cases u; cases n) auto
  then show "\<not> in_word prev" using n(3) u(2) by (cases s) (auto simp: word_boundary_def in_word_def split: option.splits)
qed

interpretation query_of_url: preserving_matcher url_query KNOWN_TOKENS
proof
  fix prev s n new
  assume m: "url_query prev s = Some (Suc n, new)"
  note q = url_query_Some [OF m]
  show "\<exists>x\<in>set new. \<not> token_char x" unfolding q(1) using q(4) marker_chars(5) by (intro query.replace_stops) blast
  have "Sublist.prefix (run new) (run (take (Suc n) s))" unfolding q(1) by (rule query.replace_run)
  moreover have "Sublist.prefix (run (take (Suc n) s)) (run s)" using run_prefix [of "take (Suc n) s" "drop (Suc n) s"] by simp
  ultimately show "Sublist.prefix (run new) (run s)" by (rule prefix_order.trans)
  show "border (last (take (Suc n) s)) (last new) (drop (Suc n) s)" using q(2) by (auto simp: border_def)
  show "clean_from KNOWN_TOKENS prev new" if "clean_from KNOWN_TOKENS prev s"
  proof -
    have eq: "clean_from KNOWN_TOKENS prev t = clean_from KNOWN_TOKENS None t" for t
      using q(3) by (intro clean_context) (simp add: in_word_def)
    show ?thesis unfolding q(1) eq by (intro query.replace_clean) (use clean_take [OF that] eq in blast)
  qed
qed


section \<open>No known token is shown\<close>

lemma redacted_clean: "clean_from KNOWN_TOKENS None (fold (\<lambda>p t. replace_all p None t) SECRET_TEXT_PATTERNS str)"
proof -
  let ?headers = "fold (\<lambda>p t. replace_all p None t) [authorization_header, cookie_header, bearer_token] str"
  let ?jwt = "replace_all json_web_token None ?headers"
  let ?prefixed = "replace_all prefixed_token None (replace_all companion_token None ?jwt)"
  have "clean_from [''eyJ''] None ?prefixed"
    by (intro prefixed_jwt.replace_clean companion.replace_clean jwt.replace_catches)
  then have "clean_from KNOWN_TOKENS None ?prefixed"
    using prefixed.replace_catches [of None] by (simp only: known_tokens_split)
  then have "clean_from KNOWN_TOKENS None (replace_all credential_pair None (replace_all url_query None (replace_all url_userinfo None ?prefixed)))"
    by (intro pair.replace_clean query_of_url.replace_clean userinfo.replace_clean)
  then show ?thesis by (simp add: SECRET_TEXT_PATTERNS_def)
qed

lemma projectString_clean: "clean_from KNOWN_TOKENS None (fst (projectString s st))"
proof -
  let ?r = "fold (\<lambda>p t. replace_all p None t) SECRET_TEXT_PATTERNS (take (ps_maxStringChars st + REDACTION_MARGIN_CHARS) s)"
  have "clean_from KNOWN_TOKENS None (take n ?r @ ELLIPSIS # [])" for n
    using clean_split [OF marker_chars(6)] clean_take [OF redacted_clean] by simp
  then show ?thesis using redacted_clean by (auto simp: projectString_def redactText_def Let_def)
qed


lemma attempt_fits:
  assumes "limits \<in> set PROJECTION_ATTEMPTS"
  shows "fits (\<lambda>s. length s \<le> 2049 \<and> clean_from KNOWN_TOKENS None s) MAX_DEPTH (of_payload (projection_attempt evt limits))"
proof -
  let ?Q = "\<lambda>s. length s \<le> 2049 \<and> clean_from KNOWN_TOKENS None s"
  obtain v st where v: "projectValue (payload_or_empty (fe_payload evt)) 0 (start_state limits) = (v, st)" by (metis prod.exhaust)
  have lim: "pl_maxStringChars limits \<le> 2048" using assms by (auto simp: PROJECTION_ATTEMPTS_def)
  have "fits ?Q (MAX_DEPTH - 0) v \<and> ps_maxStringChars st = pl_maxStringChars limits"
  proof (rule project_fits(1) [OF _ _ _ _ v])
    show "?Q (fst (projectString s st))" if "ps_maxStringChars st = pl_maxStringChars limits" for s st
      using projectString_length [of s st] projectString_clean that lim by simp
    show "?Q TRUNCATED_VALUE" "?Q REDACTED_VALUE" by code_simp+
  qed (simp add: start_state_def)
  then show ?thesis using v by (simp add: projection_attempt_def with_payload_def)
qed



end
