(* ===== verification/Observer_Events.thy ===== *)
theory Observer_Events
  imports Observer_Redaction Event_System
begin

text \<open>
  The capture of the observer: \<open>features/observer/hooks/useObserverEvents.ts\<close>. The buffer and its
  state are one field, since every delivery sets both; the byte counts that the hook keeps beside the
  frames stand with their rows. Which events are kept, how many rows, and the size of a printed number
  are parameters. A render of the component that uses the hook brings its properties and runs the
  effects whose dependencies changed.
\<close>


section \<open>The hook\<close>

definition OBSERVER_BUFFER_MAX :: nat where
  "OBSERVER_BUFFER_MAX = 200"

definition OBSERVER_WIDE_BUFFER_MAX :: nat where
  "OBSERVER_WIDE_BUFFER_MAX = 1000"

definition OBSERVER_BUFFER_MAX_BYTES :: int where
  "OBSERVER_BUFFER_MAX_BYTES = 4 * 1024 * 1024"

definition OBSERVER_NAMESPACES :: "string list" where
  "OBSERVER_NAMESPACES = [''card'', ''agent'', ''execution'', ''approval'']"

definition isAgentic :: "string \<Rightarrow> bool" where
  "isAgentic eventType = list_ex (\<lambda>n. starts_with eventType (n @ ''.'')) OBSERVER_NAMESPACES"

definition namespaceOf :: "string \<Rightarrow> string option" where
  "namespaceOf eventType = find (\<lambda>n. starts_with eventType (n @ ''.'')) OBSERVER_NAMESPACES"

definition busNamespaceOf :: "string \<Rightarrow> string" where
  "busNamespaceOf eventType = (case js_indexOf ''.'' eventType of None \<Rightarrow> eventType | Some dot \<Rightarrow> take dot eventType)"

type_synonym observer_row = "observer_frame \<times> nat"

record observer_world =
  ov_buffer :: "observer_row list"
  ov_bufferBytes :: int
  ov_seenIds :: "string list"
  ov_frozen :: "observer_row list option"
  ov_captureStartedAt :: int
  ov_unseenArrivals :: nat
  ov_pendingArrivals :: nat
  ov_evictedCount :: nat
  ov_interrupted :: bool
  ov_accessRevoked :: bool
  ov_paused :: bool
  ov_viewing :: bool
  ov_sawConnected :: bool
  ov_viewDeps :: "(bool \<times> bool) option"
  ov_statusDep :: "string option"

definition observer_init :: "int \<Rightarrow> observer_world" where
  "observer_init now = \<lparr>ov_buffer = [], ov_bufferBytes = 0, ov_seenIds = [], ov_frozen = None, ov_captureStartedAt = now,
     ov_unseenArrivals = 0, ov_pendingArrivals = 0, ov_evictedCount = 0, ov_interrupted = False, ov_accessRevoked = False,
     ov_paused = False, ov_viewing = False, ov_sawConnected = False, ov_viewDeps = None, ov_statusDep = None\<rparr>"

text \<open>The loop that drops the oldest rows; the newest frame stays.\<close>

function keep_rows :: "nat \<Rightarrow> observer_row list \<Rightarrow> nat \<Rightarrow> int \<Rightarrow> nat \<times> int" where
  "keep_rows bufferMax rows keptRows retainedBytes =
     (if keptRows > bufferMax \<or> keptRows > 1 \<and> retainedBytes > OBSERVER_BUFFER_MAX_BYTES
      then keep_rows bufferMax rows (keptRows - 1) (retainedBytes - int (snd (rows ! (keptRows - 1))))
      else (keptRows, retainedBytes))"
  by pat_completeness auto
termination
  by (relation "measure (\<lambda>(_, _, k, _). k)") auto

declare keep_rows.simps [simp del]

definition arrive :: "nat \<Rightarrow> observer_row \<Rightarrow> observer_world \<Rightarrow> observer_world" where
  "arrive bufferMax row w =
     (let rows = row # ov_buffer w in
      case keep_rows bufferMax rows (length rows) (ov_bufferBytes w + int (snd row)) of (keptRows, retainedBytes) \<Rightarrow>
        let evicted = drop keptRows rows in
        w\<lparr>ov_seenIds := js_add (of_event_id (fst row)) (filter (\<lambda>i. i \<notin> set (map (of_event_id \<circ> fst) evicted)) (ov_seenIds w)),
          ov_buffer := take keptRows rows, ov_bufferBytes := retainedBytes,
          ov_evictedCount := ov_evictedCount w + length evicted,
          ov_pendingArrivals := (if ov_paused w then ov_pendingArrivals w + 1 else ov_pendingArrivals w),
          ov_unseenArrivals := (if ov_paused w \<or> \<not> ov_viewing w then ov_unseenArrivals w + 1 else ov_unseenArrivals w)\<rparr>)"

definition deliver :: "(string \<Rightarrow> bool) \<Rightarrow> nat \<Rightarrow> (jsnum \<Rightarrow> nat) \<Rightarrow> ws_frame \<Rightarrow> observer_world \<Rightarrow> observer_world" where
  "deliver accept bufferMax num_bytes evt w =
     (if \<not> accept (fe_event evt) then w
      else let row = projectObserverFrame num_bytes evt in
        if of_event_id (fst row) \<in> set (ov_seenIds w) then w else arrive bufferMax row w)"

definition markRead :: "observer_world \<Rightarrow> observer_world" where
  "markRead w = w\<lparr>ov_unseenArrivals := 0\<rparr>"

definition pause_capture :: "observer_world \<Rightarrow> observer_world" where
  "pause_capture w = w\<lparr>ov_paused := True, ov_frozen := Some (ov_buffer w), ov_pendingArrivals := 0\<rparr>"

definition resume_capture :: "observer_world \<Rightarrow> observer_world" where
  "resume_capture w = w\<lparr>ov_paused := False, ov_frozen := None, ov_pendingArrivals := 0\<rparr>"

definition clear_capture :: "int \<Rightarrow> observer_world \<Rightarrow> observer_world" where
  "clear_capture now w = w\<lparr>ov_seenIds := [], ov_buffer := [], ov_bufferBytes := 0, ov_captureStartedAt := now,
     ov_frozen := map_option (\<lambda>_. []) (ov_frozen w), ov_unseenArrivals := 0, ov_pendingArrivals := 0, ov_evictedCount := 0,
     ov_interrupted := False, ov_accessRevoked := False\<rparr>"

definition access_revoked :: "int \<Rightarrow> observer_world \<Rightarrow> observer_world" where
  "access_revoked now w = (clear_capture now w)\<lparr>ov_sawConnected := False, ov_accessRevoked := True\<rparr>"

definition view_effect :: "observer_world \<Rightarrow> observer_world" where
  "view_effect w =
     (let deps = (ov_viewing w, ov_frozen w \<noteq> None) in
      if ov_viewDeps w = Some deps then w
      else let w1 = (if ov_viewing w \<and> ov_frozen w = None then markRead w else w) in w1\<lparr>ov_viewDeps := Some deps\<rparr>)"

definition status_effect :: "string \<Rightarrow> observer_world \<Rightarrow> observer_world" where
  "status_effect status w =
     (if ov_statusDep w = Some status then w
      else let w1 = w\<lparr>ov_statusDep := Some status\<rparr> in
        if status = ''connected'' then w1\<lparr>ov_sawConnected := True\<rparr>
        else if status = ''reconnecting'' \<and> ov_sawConnected w then w1\<lparr>ov_interrupted := True\<rparr> else w1)"

definition rendered :: "bool \<Rightarrow> string \<Rightarrow> observer_world \<Rightarrow> observer_world" where
  "rendered viewing status w = status_effect status (view_effect (w\<lparr>ov_viewing := viewing\<rparr>))"

definition shown_events :: "observer_world \<Rightarrow> observer_row list" where
  "shown_events w = (case ov_frozen w of Some rows \<Rightarrow> rows | None \<Rightarrow> ov_buffer w)"

definition unreadCount :: "observer_world \<Rightarrow> nat" where
  "unreadCount w = min (ov_unseenArrivals w) (length (ov_buffer w))"

definition pendingCount :: "observer_world \<Rightarrow> nat" where
  "pendingCount w = (if ov_frozen w \<noteq> None then min (ov_pendingArrivals w) (length (ov_buffer w)) else 0)"


section \<open>Runs\<close>

text \<open>Beside the hook, the rows that were taken since the capture was last cleared, newest first.\<close>

record observer_system =
  os_world :: observer_world
  os_history :: "observer_row list"

datatype observer_event =
    Deliver ws_frame
  | MarkRead
  | PauseCapture
  | ResumeCapture
  | ClearCapture int
  | AccessRevoked int
  | Rendered bool string

definition taken :: "(string \<Rightarrow> bool) \<Rightarrow> (jsnum \<Rightarrow> nat) \<Rightarrow> ws_frame \<Rightarrow> observer_world \<Rightarrow> bool" where
  "taken accept num_bytes evt w = (accept (fe_event evt) \<and> of_event_id (fst (projectObserverFrame num_bytes evt)) \<notin> set (ov_seenIds w))"

fun observer_step :: "(string \<Rightarrow> bool) \<Rightarrow> nat \<Rightarrow> (jsnum \<Rightarrow> nat) \<Rightarrow> observer_event \<Rightarrow> observer_system \<Rightarrow> observer_system option" where
  "observer_step accept bufferMax num_bytes (Deliver evt) y = Some
     (y\<lparr>os_world := deliver accept bufferMax num_bytes evt (os_world y),
        os_history := (if taken accept num_bytes evt (os_world y) then projectObserverFrame num_bytes evt # os_history y else os_history y)\<rparr>)"
| "observer_step accept bufferMax num_bytes MarkRead y = Some (y\<lparr>os_world := markRead (os_world y)\<rparr>)"
| "observer_step accept bufferMax num_bytes PauseCapture y = Some (y\<lparr>os_world := pause_capture (os_world y)\<rparr>)"
| "observer_step accept bufferMax num_bytes ResumeCapture y = Some (y\<lparr>os_world := resume_capture (os_world y)\<rparr>)"
| "observer_step accept bufferMax num_bytes (ClearCapture now) y = Some (y\<lparr>os_world := clear_capture now (os_world y), os_history := []\<rparr>)"
| "observer_step accept bufferMax num_bytes (AccessRevoked now) y = Some (y\<lparr>os_world := access_revoked now (os_world y), os_history := []\<rparr>)"
| "observer_step accept bufferMax num_bytes (Rendered viewing status) y = Some (y\<lparr>os_world := rendered viewing status (os_world y)\<rparr>)"

definition observer_start :: "int \<Rightarrow> observer_system" where
  "observer_start now = \<lparr>os_world = observer_init now, os_history = []\<rparr>"


section \<open>The invariant\<close>

definition rows_bytes :: "observer_row list \<Rightarrow> int" where
  "rows_bytes rows = sum_list (map (int \<circ> snd) rows)"

abbreviation row_ids :: "observer_row list \<Rightarrow> string list" where
  "row_ids rows \<equiv> map (of_event_id \<circ> fst) rows"

text \<open>What is kept: the newest rows that were taken, within both limits, without repetition.\<close>

definition buffer_ok :: "nat \<Rightarrow> observer_system \<Rightarrow> bool" where
  "buffer_ok bufferMax y = (let w = os_world y in
     Sublist.prefix (ov_buffer w) (os_history y) \<and>
     length (ov_buffer w) \<le> bufferMax \<and> ov_bufferBytes w = rows_bytes (ov_buffer w) \<and>
     ov_bufferBytes w \<le> OBSERVER_BUFFER_MAX_BYTES \<and>
     distinct (row_ids (ov_buffer w)) \<and> set (ov_seenIds w) = set (row_ids (ov_buffer w)))"

definition rows_ok :: "(jsnum \<Rightarrow> nat) \<Rightarrow> observer_system \<Rightarrow> bool" where
  "rows_ok num_bytes y = list_all (\<lambda>row. \<exists>evt. row = projectObserverFrame num_bytes evt) (os_history y)"

text \<open>What is counted, and the snapshot of a pause: it lies directly behind the arrivals that are pending.\<close>

definition counts_ok :: "observer_system \<Rightarrow> bool" where
  "counts_ok y = (let w = os_world y in
     ov_evictedCount w + length (ov_buffer w) = length (os_history y) \<and> ov_unseenArrivals w \<le> length (os_history y) \<and>
     ov_paused w = (ov_frozen w \<noteq> None) \<and>
     (case ov_frozen w of None \<Rightarrow> ov_pendingArrivals w = 0
        | Some rows \<Rightarrow> ov_pendingArrivals w \<le> length (os_history y) \<and> Sublist.prefix rows (drop (ov_pendingArrivals w) (os_history y))))"

definition observer_ok :: "nat \<Rightarrow> (jsnum \<Rightarrow> nat) \<Rightarrow> observer_system \<Rightarrow> bool" where
  "observer_ok bufferMax num_bytes y = (buffer_ok bufferMax y \<and> rows_ok num_bytes y \<and> counts_ok y)"


lemma rows_bytes_take: "k \<noteq> 0 \<Longrightarrow> k \<le> length rows \<Longrightarrow> rows_bytes (take k rows) = rows_bytes (take (k - 1) rows) + int (snd (rows ! (k - 1)))"
  by (cases k) (simp_all add: rows_bytes_def take_Suc_conv_app_nth)

lemma keep_rows_spec:
  assumes "0 < bufferMax" and "0 < k" and "k \<le> length rows" and "keep_rows bufferMax rows k (rows_bytes (take k rows)) = (k', b)"
  shows "0 < k' \<and> k' \<le> k \<and> k' \<le> bufferMax \<and> b = rows_bytes (take k' rows) \<and> (b \<le> OBSERVER_BUFFER_MAX_BYTES \<or> k' = 1)"
  using assms
proof (induction k arbitrary: k' b)
  case (Suc k)
  show ?case
  proof (cases "Suc k > bufferMax \<or> Suc k > 1 \<and> rows_bytes (take (Suc k) rows) > OBSERVER_BUFFER_MAX_BYTES")
    case True
    then have "keep_rows bufferMax rows k (rows_bytes (take k rows)) = (k', b)"
      using Suc(5) rows_bytes_take [of "Suc k" rows] Suc(4) by (simp add: keep_rows.simps [of _ _ "Suc k"])
    moreover have "0 < k" using True Suc(2) by auto
    ultimately show ?thesis using Suc(1) [of k' b] Suc(2,4) by auto
  next
    case False
    then show ?thesis using Suc(5) by (auto simp: keep_rows.simps [of _ _ "Suc k"])
  qed
qed simp

text \<open>A row that is taken: how the capture changes.\<close>

lemma arrive_spec:
  assumes "0 < bufferMax" and "ov_bufferBytes w = rows_bytes (ov_buffer w)" and "int (snd row) \<le> OBSERVER_FRAME_MAX_BYTES"
  obtains k where "0 < k" "k \<le> Suc (length (ov_buffer w))" "k \<le> bufferMax" "ov_buffer (arrive bufferMax row w) = take k (row # ov_buffer w)"
    "ov_bufferBytes (arrive bufferMax row w) = rows_bytes (take k (row # ov_buffer w))"
    "ov_bufferBytes (arrive bufferMax row w) \<le> OBSERVER_BUFFER_MAX_BYTES"
    "ov_seenIds (arrive bufferMax row w) = js_add (of_event_id (fst row)) (filter (\<lambda>i. i \<notin> set (row_ids (drop k (row # ov_buffer w)))) (ov_seenIds w))"
    "ov_evictedCount (arrive bufferMax row w) = ov_evictedCount w + (Suc (length (ov_buffer w)) - k)"
proof -
  let ?rows = "row # ov_buffer w"
  obtain k b where kb: "keep_rows bufferMax ?rows (length ?rows) (ov_bufferBytes w + int (snd row)) = (k, b)" by (metis prod.exhaust)
  have "ov_bufferBytes w + int (snd row) = rows_bytes (take (length ?rows) ?rows)" using assms(2) by (simp add: rows_bytes_def)
  with kb have "keep_rows bufferMax ?rows (length ?rows) (rows_bytes (take (length ?rows) ?rows)) = (k, b)" by (simp only:)
  then have k: "0 < k \<and> k \<le> length ?rows \<and> k \<le> bufferMax \<and> b = rows_bytes (take k ?rows) \<and> (b \<le> OBSERVER_BUFFER_MAX_BYTES \<or> k = 1)"
    by (intro keep_rows_spec [OF assms(1)]) simp_all
  moreover have "b \<le> OBSERVER_BUFFER_MAX_BYTES"
    using k assms(3) by (auto simp: rows_bytes_def OBSERVER_BUFFER_MAX_BYTES_def OBSERVER_FRAME_MAX_BYTES_def)
  ultimately show thesis using kb by (intro that [of k]) (simp_all add: arrive_def Let_def)
qed

lemma arrive_buffer_ok:
  assumes ok: "buffer_ok bufferMax y" and "0 < bufferMax" and "int (snd row) \<le> OBSERVER_FRAME_MAX_BYTES"
    and new: "of_event_id (fst row) \<notin> set (ov_seenIds (os_world y))"
  shows "buffer_ok bufferMax (y\<lparr>os_world := arrive bufferMax row (os_world y), os_history := row # os_history y\<rparr>)"
proof -
  let ?w = "os_world y" and ?w' = "arrive bufferMax row (os_world y)"
  have bytes: "ov_bufferBytes ?w = rows_bytes (ov_buffer ?w)" using ok by (simp add: buffer_ok_def Let_def)
  obtain k where k: "0 < k" "k \<le> Suc (length (ov_buffer ?w))" "k \<le> bufferMax" "ov_buffer ?w' = take k (row # ov_buffer ?w)"
      "ov_bufferBytes ?w' = rows_bytes (take k (row # ov_buffer ?w))" "ov_bufferBytes ?w' \<le> OBSERVER_BUFFER_MAX_BYTES"
      "ov_seenIds ?w' = js_add (of_event_id (fst row)) (filter (\<lambda>i. i \<notin> set (row_ids (drop k (row # ov_buffer ?w)))) (ov_seenIds ?w))"
    using arrive_spec [OF assms(2) bytes assms(3)] by blast
  obtain j where j: "k = Suc j" "j \<le> length (ov_buffer ?w)" using k(1,2) by (cases k) auto
  let ?kept = "take j (ov_buffer ?w)" and ?gone = "drop j (ov_buffer ?w)"
  have ids: "distinct (row_ids (ov_buffer ?w))" "set (ov_seenIds ?w) = set (row_ids (ov_buffer ?w))" and hist: "Sublist.prefix (ov_buffer ?w) (os_history y)"
    using ok by (simp_all add: buffer_ok_def Let_def)
  have split: "row_ids (ov_buffer ?w) = row_ids ?kept @ row_ids ?gone" by (simp flip: map_append)
  have "set (ov_seenIds ?w') = insert (of_event_id (fst row)) (set (row_ids ?kept))"
    using k(7) ids j unfolding split by auto
  moreover have "distinct (row_ids (row # ?kept))" using ids new unfolding split by auto
  moreover have "Sublist.prefix ?kept (os_history y)" using hist by (metis append_prefixD append_take_drop_id)
  ultimately show ?thesis using k j by (simp add: buffer_ok_def Let_def)
qed

lemma arrive_counts_ok:
  assumes ok: "counts_ok y" and "buffer_ok bufferMax y" and "0 < bufferMax" and "int (snd row) \<le> OBSERVER_FRAME_MAX_BYTES"
  shows "counts_ok (y\<lparr>os_world := arrive bufferMax row (os_world y), os_history := row # os_history y\<rparr>)"
proof -
  let ?w = "os_world y" and ?w' = "arrive bufferMax row (os_world y)"
  have bytes: "ov_bufferBytes ?w = rows_bytes (ov_buffer ?w)" using assms(2) by (simp add: buffer_ok_def Let_def)
  obtain k where k: "0 < k" "k \<le> Suc (length (ov_buffer ?w))" "ov_buffer ?w' = take k (row # ov_buffer ?w)"
      "ov_evictedCount ?w' = ov_evictedCount ?w + (Suc (length (ov_buffer ?w)) - k)"
    using arrive_spec [OF assms(3) bytes assms(4)] by metis
  have "ov_evictedCount ?w' + length (ov_buffer ?w') = Suc (length (os_history y))"
    using k ok by (simp add: counts_ok_def Let_def min_def)
  moreover have "ov_frozen ?w' = ov_frozen ?w" "ov_paused ?w' = ov_paused ?w"
      "ov_pendingArrivals ?w' = (if ov_paused ?w then Suc (ov_pendingArrivals ?w) else ov_pendingArrivals ?w)"
      "ov_unseenArrivals ?w' \<le> Suc (ov_unseenArrivals ?w)"
    by (simp_all add: arrive_def Let_def split: prod.split)
  ultimately show ?thesis using ok by (auto simp: counts_ok_def Let_def split: option.splits)
qed

lemmas observer_ops = markRead_def pause_capture_def resume_capture_def clear_capture_def access_revoked_def view_effect_def
  status_effect_def rendered_def

text \<open>A render changes nothing but what was seen and what the effects remember.\<close>

lemma rendered_keeps:
  "ov_buffer (rendered viewing status w) = ov_buffer w" "ov_bufferBytes (rendered viewing status w) = ov_bufferBytes w"
  "ov_seenIds (rendered viewing status w) = ov_seenIds w" "ov_frozen (rendered viewing status w) = ov_frozen w"
  "ov_evictedCount (rendered viewing status w) = ov_evictedCount w" "ov_paused (rendered viewing status w) = ov_paused w"
  "ov_pendingArrivals (rendered viewing status w) = ov_pendingArrivals w"
  "ov_unseenArrivals (rendered viewing status w) \<le> ov_unseenArrivals w"
  by (simp_all add: observer_ops Let_def)

lemma observer_step_ok:
  assumes "0 < bufferMax" and ok: "observer_ok bufferMax num_bytes y" and step: "observer_step accept bufferMax num_bytes e y = Some y'"
  shows "observer_ok bufferMax num_bytes y'"
proof (cases e)
  case (Deliver evt)
  let ?row = "projectObserverFrame num_bytes evt"
  show ?thesis
  proof (cases "taken accept num_bytes evt (os_world y)")
    case True
    have small: "int (snd ?row) \<le> OBSERVER_FRAME_MAX_BYTES" using frame_bytes(1) by (metis prod.collapse)
    have y': "y' = y\<lparr>os_world := arrive bufferMax ?row (os_world y), os_history := ?row # os_history y\<rparr>"
      using step Deliver True by (simp add: deliver_def taken_def Let_def)
    have "buffer_ok bufferMax y'" "counts_ok y'"
      using ok True assms(1) small unfolding y' by (auto simp: observer_ok_def taken_def intro: arrive_buffer_ok arrive_counts_ok)
    moreover have "rows_ok num_bytes y'" using ok unfolding y' by (auto simp: observer_ok_def rows_ok_def)
    ultimately show ?thesis by (simp add: observer_ok_def)
  next
    case False
    then have "y' = y" using step Deliver by (auto simp: deliver_def taken_def Let_def)
    then show ?thesis using ok by simp
  qed
next
  case (Rendered viewing status)
  then have y': "y' = y\<lparr>os_world := rendered viewing status (os_world y)\<rparr>" using step by simp
  show ?thesis unfolding y' using ok rendered_keeps(8) [of viewing status "os_world y"]
    by (cases "ov_frozen (os_world y)") (simp_all add: observer_ok_def buffer_ok_def rows_ok_def counts_ok_def rendered_keeps(1-7) Let_def)
next
  case MarkRead
  then have y': "y' = y\<lparr>os_world := markRead (os_world y)\<rparr>" using step by simp
  show ?thesis unfolding y' using ok
    by (cases "ov_frozen (os_world y)") (simp_all add: observer_ok_def buffer_ok_def rows_ok_def counts_ok_def markRead_def Let_def)
next
  case PauseCapture
  then have y': "y' = y\<lparr>os_world := pause_capture (os_world y)\<rparr>" using step by simp
  show ?thesis unfolding y' using ok
    by (cases "ov_frozen (os_world y)") (simp_all add: observer_ok_def buffer_ok_def rows_ok_def counts_ok_def pause_capture_def Let_def)
next
  case ResumeCapture
  then have y': "y' = y\<lparr>os_world := resume_capture (os_world y)\<rparr>" using step by simp
  show ?thesis unfolding y' using ok
    by (cases "ov_frozen (os_world y)") (simp_all add: observer_ok_def buffer_ok_def rows_ok_def counts_ok_def resume_capture_def Let_def)
next
  case (ClearCapture now)
  then have y': "y' = y\<lparr>os_world := clear_capture now (os_world y), os_history := []\<rparr>" using step by simp
  show ?thesis unfolding y' using ok
    by (cases "ov_frozen (os_world y)") (simp_all add: observer_ok_def buffer_ok_def rows_ok_def counts_ok_def clear_capture_def rows_bytes_def OBSERVER_BUFFER_MAX_BYTES_def Let_def)
next
  case (AccessRevoked now)
  then have y': "y' = y\<lparr>os_world := access_revoked now (os_world y), os_history := []\<rparr>" using step by simp
  show ?thesis unfolding y' using ok
    by (cases "ov_frozen (os_world y)")
      (simp_all add: observer_ok_def buffer_ok_def rows_ok_def counts_ok_def access_revoked_def clear_capture_def rows_bytes_def OBSERVER_BUFFER_MAX_BYTES_def Let_def)
qed

lemma observer_start_ok: "observer_ok bufferMax num_bytes (observer_start now)"
  by (simp add: observer_ok_def buffer_ok_def rows_ok_def counts_ok_def observer_start_def observer_init_def rows_bytes_def OBSERVER_BUFFER_MAX_BYTES_def Let_def)


lemma observer_events: "0 < bufferMax \<Longrightarrow> event_invariant (observer_step accept bufferMax num_bytes) (observer_start now) (observer_ok bufferMax num_bytes)"
  by unfold_locales (auto intro: observer_start_ok observer_step_ok)

interpretation observer: event_invariant "observer_step isAgentic OBSERVER_BUFFER_MAX num_bytes" "observer_start now" "observer_ok OBSERVER_BUFFER_MAX num_bytes"
  by (rule observer_events) (simp add: OBSERVER_BUFFER_MAX_def)

definition sample_frame :: "string \<Rightarrow> ws_frame" where
  "sample_frame i = \<lparr>fe_event = ''card.moved'', fe_timestamp = ''t'', fe_event_id = i, fe_payload = None\<rparr>"

definition capture_run :: "observer_event list" where
  "capture_run = [Deliver (sample_frame ''a''), Deliver (sample_frame ''a''), Deliver (sample_frame ''b''), PauseCapture,
     Deliver (sample_frame ''c''), Rendered True ''connected'']"

text \<open>
  C23. The capture is bounded and loses only its oldest rows. In every run, the rows that are held are
  the newest of those that were taken since the capture was cleared, and those left out are counted as
  evicted; there are at most as many as the buffer may have, they hold at most 4 MiB, and no event
  occurs twice. While the display is paused it shows rows that directly precede the pending
  arrivals, and after a revoked access none that was taken before. The counts of unread and pending
  rows never exceed what is held.
\<close>

theorem observer_capture_bounded:
  assumes "0 < bufferMax" and "run_events (observer_step accept bufferMax num_bytes) es (observer_start now) = Some y"
  shows "buffer_ok bufferMax y \<and> counts_ok y \<and> unreadCount (os_world y) \<le> length (ov_buffer (os_world y)) \<and>
     pendingCount (os_world y) \<le> length (ov_buffer (os_world y)) \<and> list_all (\<lambda>row. int (snd row) \<le> OBSERVER_FRAME_MAX_BYTES) (shown_events (os_world y))"
proof -
  have ok: "observer_ok bufferMax num_bytes y" by (rule event_invariant.run_inv [OF observer_events [OF assms(1)] assms(2)])
  have "set (shown_events (os_world y)) \<subseteq> set (os_history y)"
    using ok unfolding observer_ok_def buffer_ok_def counts_ok_def shown_events_def Let_def
    by (auto split: option.splits dest!: set_mono_prefix dest: in_set_dropD)
  moreover have "int (snd row) \<le> OBSERVER_FRAME_MAX_BYTES" if "row \<in> set (os_history y)" for row
    using ok that frame_bytes(1) unfolding observer_ok_def rows_ok_def list_all_iff by (metis prod.collapse)
  ultimately show ?thesis using ok by (auto simp: observer_ok_def unreadCount_def pendingCount_def list_all_iff)
qed

theorem observer_capture_bounded_witness:
  "\<exists>y. run_events (observer_step isAgentic 2 (\<lambda>_. 1)) capture_run (observer_start 0) = Some y \<and>
     row_ids (ov_buffer (os_world y)) = [''c'', ''b''] \<and> ov_evictedCount (os_world y) = 1 \<and> row_ids (shown_events (os_world y)) = [''b'', ''a''] \<and>
     pendingCount (os_world y) = 1 \<and> buffer_ok 2 y"
proof -
  let ?run = "run_events (observer_step isAgentic 2 (\<lambda>_. 1)) capture_run (observer_start 0)"
  have eq: "map_option (\<lambda>y. (row_ids (ov_buffer (os_world y)), ov_evictedCount (os_world y), row_ids (shown_events (os_world y)), pendingCount (os_world y)))
      ?run = Some ([''c'', ''b''], 1, [''b'', ''a''], 1)"
    by code_simp
  show ?thesis
  proof (cases ?run)
    case None
    then show ?thesis using eq by (simp only: option.map option.distinct)
  next
    case (Some y)
    have a: "row_ids (ov_buffer (os_world y)) = [''c'', ''b''] \<and> ov_evictedCount (os_world y) = 1 \<and>
        row_ids (shown_events (os_world y)) = [''b'', ''a''] \<and> pendingCount (os_world y) = 1"
      using eq unfolding Some option.map option.inject prod.inject .
    have b: "buffer_ok 2 y" using observer_capture_bounded [OF zero_less_numeral Some] by (rule conjunct1)
    show ?thesis
      by (rule exI [of _ y], rule conjI [OF Some], rule conjI [OF a [THEN conjunct1]], rule conjI [OF a [THEN conjunct2, THEN conjunct1]],
        rule conjI [OF a [THEN conjunct2, THEN conjunct2, THEN conjunct1]], rule conjI [OF a [THEN conjunct2, THEN conjunct2, THEN conjunct2] b])
  qed
qed

end
