(* ===== verification/Session_Timeline.thy ===== *)
theory Session_Timeline
  imports JS_Text JS_Date JS_Sort
begin

text \<open>
  The timeline of an agent session, its transcript and its list by day:
  \<open>features/sessions/utils/timeline.ts\<close>, \<open>contents.ts\<close> and \<open>group-sessions.ts\<close>. Of a row only the fields are
  kept that these functions read. The day of a moment in the local calendar is a parameter.
\<close>


section \<open>Rows\<close>

datatype call_kind = PromptCall | ToolCall | McpCall | SubagentCall

record call_item =
  ci_key :: string
  ci_kind :: call_kind
  ci_turn_index :: int
  ci_name :: "string option"
  ci_started_at :: string
  ci_ended_at :: string
  ci_duration_ms :: "jsnum option"
  ci_outcome :: "string option"
  ci_work_refs :: "string list"
  ci_subagent_last_event :: "string option"

record session_turn =
  tu_turn_index :: int
  tu_figures :: json

datatype timeline_entry =
    CallEntry call_item
  | SubagentEntry call_item
  | RunEntry string "call_item list"
  | IdleEntry string jsnum

record timeline_turn =
  tt_turnIndex :: int
  tt_prompt :: "call_item option"
  tt_stats :: "session_turn option"
  tt_entries :: "timeline_entry list"


section \<open>The timeline\<close>

definition ROUTINE_TOOLS :: "string list" where
  "ROUTINE_TOOLS = [''read'', ''grep'', ''glob'', ''ls'', ''listdir'', ''list_dir'', ''listfiles'', ''list_files'', ''view'', ''search'', ''find'', ''rg'']"

definition ROUTINE_RUN_VISIBLE :: nat where
  "ROUTINE_RUN_VISIBLE = 3"

definition ROUTINE_RUN_KEEP :: nat where
  "ROUTINE_RUN_KEEP = 1"

definition IDLE_GAP_SECONDS :: rat where
  "IDLE_GAP_SECONDS = 5 * 60"

definition isRoutineCall :: "call_item \<Rightarrow> bool" where
  "isRoutineCall item = (ci_kind item = ToolCall \<and> ci_outcome item = Some ''succeeded'' \<and> ci_work_refs item = [] \<and>
     js_toLowerCase (case ci_name item of Some n \<Rightarrow> n | None \<Rightarrow> '''') \<in> set ROUTINE_TOOLS)"

definition flush_run :: "call_item list \<Rightarrow> timeline_entry list" where
  "flush_run run =
     (if length run > ROUTINE_RUN_VISIBLE then
        map CallEntry (take ROUTINE_RUN_KEEP run) @ [RunEntry (''run-'' @ ci_key (run ! ROUTINE_RUN_KEEP)) (drop ROUTINE_RUN_KEEP run)]
      else map CallEntry run)"

fun collapse_loop :: "timeline_entry list \<Rightarrow> timeline_entry list \<Rightarrow> call_item list \<Rightarrow> timeline_entry list" where
  "collapse_loop [] collapsed run = collapsed @ flush_run run"
| "collapse_loop (CallEntry item # rest) collapsed run =
     (if isRoutineCall item then collapse_loop rest collapsed (run @ [item])
      else collapse_loop rest (collapsed @ flush_run run @ [CallEntry item]) [])"
| "collapse_loop (entry # rest) collapsed run = collapse_loop rest (collapsed @ flush_run run @ [entry]) []"

definition collapseRoutineRuns :: "timeline_entry list \<Rightarrow> timeline_entry list" where
  "collapseRoutineRuns entries = collapse_loop entries [] []"

definition date_number :: "string \<Rightarrow> jsnum" where
  "date_number s = (case date_parse s of Some t \<Rightarrow> Fin (of_int t) | None \<Rightarrow> NaN)"

definition math_max :: "jsnum \<Rightarrow> jsnum \<Rightarrow> jsnum" where
  "math_max a b = (if a = NaN \<or> b = NaN then NaN else if js_less a b then b else a)"

definition busyUntil :: "call_item \<Rightarrow> jsnum" where
  "busyUntil item = (let start = date_number (ci_started_at item) in
     math_max (math_max (date_number (ci_ended_at item)) (case ci_duration_ms item of Some d \<Rightarrow> js_plus start d | None \<Rightarrow> start))
       (case ci_subagent_last_event item of Some t \<Rightarrow> date_number t | None \<Rightarrow> start))"

fun over_gap :: "jsnum \<Rightarrow> bool" where
  "over_gap (Fin ms) = (ms / 1000 > IDLE_GAP_SECONDS)"
| "over_gap x = (x = PInf)"

fun in_seconds :: "jsnum \<Rightarrow> jsnum" where
  "in_seconds (Fin ms) = Fin (ms / 1000)"
| "in_seconds x = x"

abbreviation push_entry :: "timeline_entry \<Rightarrow> timeline_turn \<Rightarrow> timeline_turn" where
  "push_entry e t \<equiv> t\<lparr>tt_entries := tt_entries t @ [e]\<rparr>"

text \<open>One round of the loop, on the turns so far and the end of the last busy stretch.\<close>

definition open_turn :: "(int, session_turn) jsmap \<Rightarrow> call_item \<Rightarrow> timeline_turn list \<Rightarrow> timeline_turn list" where
  "open_turn statsByTurn item turns =
     (if turns = [] \<or> tt_turnIndex (last turns) \<noteq> ci_turn_index item then
        turns @ [\<lparr>tt_turnIndex = ci_turn_index item, tt_prompt = None, tt_stats = jm_get statsByTurn (ci_turn_index item), tt_entries = []\<rparr>]
      else turns)"

definition add_idle :: "call_item \<Rightarrow> jsnum option \<Rightarrow> timeline_turn list \<Rightarrow> timeline_turn list" where
  "add_idle item previousEnd turns = (case previousEnd of
     None \<Rightarrow> turns
   | Some e \<Rightarrow> let gap = js_minus (date_number (ci_started_at item)) e;
         closing = (if ci_kind item = PromptCall \<and> length turns \<ge> 2 then length turns - 2 else length turns - 1)
       in if over_gap gap then turns[closing := push_entry (IdleEntry (''idle-'' @ ci_key item) (in_seconds gap)) (turns ! closing)] else turns)"

definition add_item :: "call_item \<Rightarrow> timeline_turn list \<Rightarrow> timeline_turn list" where
  "add_item item turns = (let i = length turns - 1 in turns[i :=
     (if ci_kind item = PromptCall then (turns ! i)\<lparr>tt_prompt := Some item\<rparr>
      else push_entry (if ci_kind item = SubagentCall then SubagentEntry item else CallEntry item) (turns ! i))])"

definition timeline_round :: "(int, session_turn) jsmap \<Rightarrow> call_item \<Rightarrow> timeline_turn list \<times> jsnum option \<Rightarrow> timeline_turn list \<times> jsnum option" where
  "timeline_round statsByTurn item s = (case s of (turns, previousEnd) \<Rightarrow>
     (add_item item (add_idle item previousEnd (open_turn statsByTurn item turns)),
      Some (math_max (case previousEnd of Some e \<Rightarrow> e | None \<Rightarrow> Fin 0) (busyUntil item))))"

definition buildTimeline :: "call_item list \<Rightarrow> session_turn list \<Rightarrow> timeline_turn list" where
  "buildTimeline items turnStats =
     map (\<lambda>t. t\<lparr>tt_entries := collapseRoutineRuns (tt_entries t)\<rparr>)
       (fst (fold (timeline_round (jm_from tu_turn_index id turnStats [])) items ([], None)))"

definition runToolCounts :: "call_item list \<Rightarrow> (string \<times> nat) list" where
  "runToolCounts items =
     js_sort (\<lambda>a b. js_minus (Fin (of_nat (snd b))) (Fin (of_nat (snd a))))
       (fold (\<lambda>item m. let n = (case ci_name item of Some n \<Rightarrow> n | None \<Rightarrow> '''') in
          jm_set n ((case jm_get m n of Some k \<Rightarrow> k | None \<Rightarrow> 0) + 1) m) items [])"

text \<open>The pages of calls, newest first, put together in order; a row that two pages hold counts once.\<close>

definition merge_item :: "call_item \<Rightarrow> call_item list \<times> string list \<Rightarrow> call_item list \<times> string list" where
  "merge_item item s = (case s of (items, seen) \<Rightarrow> if ci_key item \<in> set seen then s else (items @ [item], js_add (ci_key item) seen))"

definition mergeCallPages :: "(call_item list \<times> session_turn list) list \<Rightarrow> call_item list \<times> session_turn list" where
  "mergeCallPages pagesNewestFirst =
     (fst (fold (\<lambda>page. fold merge_item (fst page)) (rev pagesNewestFirst) ([], [])),
      jm_values (fold (\<lambda>page. jm_from tu_turn_index id (snd page)) (rev pagesNewestFirst) []))"


section \<open>The transcript\<close>

record session_content =
  sc_id :: string
  sc_call_id :: "string option"
  sc_channel :: string

datatype transcript_entry = MessageEntry session_content | CallParts string "session_content list"

text \<open>
  While the entries are gathered the parts of a call are an array that its entry and the map of calls share; an
  entry of a call is therefore its slot, and the array is read from the map at the end.
\<close>

datatype transcript_slot = MessageSlot session_content | CallSlot string

definition CALL_PARTS :: "string list" where
  "CALL_PARTS = [''tool_input'', ''tool_output'', ''command_output'', ''diff'', ''file_content'', ''error'']"

definition call_of :: "session_content \<Rightarrow> string option" where
  "call_of item = (case sc_call_id item of Some k \<Rightarrow> if k \<noteq> '''' \<and> sc_channel item \<in> set CALL_PARTS then Some k else None | None \<Rightarrow> None)"

type_synonym transcript_state = "transcript_slot list \<times> (string, session_content list) jsmap"

definition transcript_round :: "bool \<Rightarrow> session_content \<Rightarrow> transcript_state \<Rightarrow> transcript_state" where
  "transcript_round includeRaw item s = (case s of (entries, calls) \<Rightarrow>
     if sc_channel item = ''native_record'' \<and> \<not> includeRaw then s
     else case call_of item of
       Some k \<Rightarrow> (case jm_get calls k of
           Some parts \<Rightarrow> (entries, jm_set k (parts @ [item]) calls)
         | None \<Rightarrow> (entries @ [CallSlot k], jm_set k [item] calls))
     | None \<Rightarrow> (entries @ [MessageSlot item], calls))"

fun fill_slot :: "(string, session_content list) jsmap \<Rightarrow> transcript_slot \<Rightarrow> transcript_entry" where
  "fill_slot calls (MessageSlot item) = MessageEntry item"
| "fill_slot calls (CallSlot k) = CallParts k (case jm_get calls k of Some parts \<Rightarrow> parts | None \<Rightarrow> [])"

definition transcriptEntries :: "session_content list \<Rightarrow> bool \<Rightarrow> transcript_entry list" where
  "transcriptEntries items includeRaw =
     (case fold (transcript_round includeRaw) items ([], []) of (entries, calls) \<Rightarrow> map (fill_slot calls) entries)"


section \<open>Sessions by day\<close>

record session_row =
  sr_id :: string
  sr_display_state :: string
  sr_last_event_at :: string

datatype group_kind = LiveGroup | TodayGroup | YesterdayGroup | DayGroup | AllGroup

record session_group =
  sg_key :: string
  sg_kind :: group_kind
  sg_day :: "string option"
  sg_sessions :: "session_row list"

definition isLive :: "session_row \<Rightarrow> bool" where
  "isLive session = (sr_display_state session = ''active'')"

text \<open>\<open>localDayKey\<close> of a moment, and the keys of now and of a day before it, are parameters.\<close>

definition day_kind :: "string \<Rightarrow> string \<Rightarrow> string \<Rightarrow> group_kind" where
  "day_kind todayKey yesterdayKey key = (if key = todayKey then TodayGroup else if key = yesterdayKey then YesterdayGroup else DayGroup)"

definition group_round :: "(string \<Rightarrow> string) \<Rightarrow> string \<Rightarrow> string \<Rightarrow> session_row \<Rightarrow> session_row list \<times> (string, session_group) jsmap
    \<Rightarrow> session_row list \<times> (string, session_group) jsmap" where
  "group_round localDayKey todayKey yesterdayKey session s = (case s of (live, byDay) \<Rightarrow>
     if isLive session then (live @ [session], byDay)
     else let key = localDayKey (sr_last_event_at session);
              group = (case jm_get byDay key of Some g \<Rightarrow> g
                | None \<Rightarrow> \<lparr>sg_key = key, sg_kind = day_kind todayKey yesterdayKey key, sg_day = Some (sr_last_event_at session), sg_sessions = []\<rparr>)
       in (live, jm_set key (group\<lparr>sg_sessions := sg_sessions group @ [session]\<rparr>) byDay))"

definition groupSessionsByDay :: "(string \<Rightarrow> string) \<Rightarrow> string \<Rightarrow> string \<Rightarrow> session_row list \<Rightarrow> session_group list" where
  "groupSessionsByDay localDayKey todayKey yesterdayKey sessions =
     (case fold (group_round localDayKey todayKey yesterdayKey) sessions ([], []) of (live, byDay) \<Rightarrow>
       (if live \<noteq> [] then [\<lparr>sg_key = ''live'', sg_kind = LiveGroup, sg_day = None, sg_sessions = live\<rparr>] else []) @ jm_values byDay)"

definition ungrouped :: "session_row list \<Rightarrow> session_group list" where
  "ungrouped sessions = (if sessions \<noteq> [] then [\<lparr>sg_key = ''all'', sg_kind = AllGroup, sg_day = None, sg_sessions = sessions\<rparr>] else [])"


section \<open>Every call is shown once\<close>

fun entry_items :: "timeline_entry \<Rightarrow> call_item list" where
  "entry_items (CallEntry i) = [i]"
| "entry_items (SubagentEntry i) = [i]"
| "entry_items (RunEntry _ items) = items"
| "entry_items (IdleEntry _ _) = []"

definition turn_items :: "timeline_turn \<Rightarrow> call_item list" where
  "turn_items t = concat (map entry_items (tt_entries t))"

lemma flush_items: "concat (map entry_items (flush_run run)) = run"
proof -
  have calls: "concat (map entry_items (map CallEntry xs)) = xs" for xs by (induction xs) auto
  show ?thesis using calls [of run] calls [of "take ROUTINE_RUN_KEEP run"] by (simp add: flush_run_def)
qed

lemma collapse_items: "concat (map entry_items (collapse_loop entries collapsed run)) =
    concat (map entry_items collapsed) @ run @ concat (map entry_items entries)"
  by (induction entries collapsed run rule: collapse_loop.induct) (simp_all add: flush_items)

text \<open>The stretches of rows with the same turn, which the timeline is compared with.\<close>

definition block_add :: "call_item \<Rightarrow> call_item list list \<Rightarrow> call_item list list" where
  "block_add item bs = (if bs = [] \<or> ci_turn_index (hd (last bs)) \<noteq> ci_turn_index item then bs @ [[item]] else butlast bs @ [last bs @ [item]])"

definition turn_blocks :: "call_item list \<Rightarrow> call_item list list" where
  "turn_blocks items = fold block_add items []"

definition turn_of_block :: "call_item list \<Rightarrow> int \<times> call_item option \<times> call_item list" where
  "turn_of_block b = (ci_turn_index (hd b), find (\<lambda>i. ci_kind i = PromptCall) (rev b), filter (\<lambda>i. ci_kind i \<noteq> PromptCall) b)"

definition turn_shown :: "timeline_turn \<Rightarrow> int \<times> call_item option \<times> call_item list" where
  "turn_shown t = (tt_turnIndex t, tt_prompt t, turn_items t)"

lemma turn_shown_push: "turn_shown (push_entry e t) = (tt_turnIndex t, tt_prompt t, turn_items t @ entry_items e)"
  by (simp add: turn_shown_def turn_items_def)

lemma push_idle_shown: "map turn_shown (turns[i := push_entry (IdleEntry k g) (turns ! i)]) = map turn_shown turns"
proof (cases "i < length turns")
  case True
  then show ?thesis by (simp add: map_update turn_shown_push) (simp add: turn_shown_def [symmetric] list_update_same_conv)
next
  case False
  then show ?thesis by (simp add: list_update_beyond)
qed

lemma add_idle_shown: "map turn_shown (add_idle item previousEnd turns) = map turn_shown turns"
  by (simp add: add_idle_def Let_def push_idle_shown split: option.split)

lemma add_idle_length [simp]: "length (add_idle item previousEnd turns) = length turns"
  by (simp add: add_idle_def Let_def split: option.split)

lemma add_item_append: "add_item item (ts @ [t]) = ts @ [if ci_kind item = PromptCall then t\<lparr>tt_prompt := Some item\<rparr>
    else push_entry (if ci_kind item = SubagentCall then SubagentEntry item else CallEntry item) t]"
  by (simp add: add_item_def Let_def)

definition shown_item :: "call_item \<Rightarrow> int \<times> call_item option \<times> call_item list \<Rightarrow> int \<times> call_item option \<times> call_item list" where
  "shown_item item s = (case s of (i, p, xs) \<Rightarrow> if ci_kind item = PromptCall then (i, Some item, xs) else (i, p, xs @ [item]))"

lemma add_item_shown: "turns \<noteq> [] \<Longrightarrow> map turn_shown (add_item item turns) = butlast (map turn_shown turns) @ [shown_item item (last (map turn_shown turns))]"
  by (cases turns rule: rev_cases) (simp_all add: add_item_append shown_item_def turn_shown_def turn_items_def)

lemma block_add_turns: "b \<noteq> [] \<Longrightarrow> turn_of_block (b @ [item]) = shown_item item (turn_of_block b)"
  by (simp add: turn_of_block_def shown_item_def)

text \<open>The turns built so far show the stretches read so far.\<close>

lemma round_shown:
  assumes "map turn_shown turns = map turn_of_block bs" "[] \<notin> set bs"
  shows "map turn_shown (fst (timeline_round stats item (turns, previousEnd))) = map turn_of_block (block_add item bs) \<and> [] \<notin> set (block_add item bs)"
proof -
  let ?o = "open_turn stats item turns"
  have o: "?o \<noteq> []" by (simp add: open_turn_def)
  have shown: "map turn_shown (fst (timeline_round stats item (turns, previousEnd))) =
      butlast (map turn_shown ?o) @ [shown_item item (last (map turn_shown ?o))]"
    using o add_item_shown [of "add_idle item previousEnd ?o" item]
    by (simp add: timeline_round_def add_idle_shown flip: length_greater_0_conv)
  show ?thesis
  proof (cases bs rule: rev_cases)
    case Nil
    with assms show ?thesis unfolding shown
      by (simp add: open_turn_def block_add_def turn_shown_def turn_items_def shown_item_def turn_of_block_def)
  next
    case (snoc cs b)
    with assms(1) obtain us u where turns: "turns = us @ [u]" and us: "map turn_shown us = map turn_of_block cs"
      and u: "turn_shown u = turn_of_block b" by (cases turns rule: rev_cases) auto
    have b: "b \<noteq> []" using assms(2) snoc by auto
    have i: "tt_turnIndex u = ci_turn_index (hd b)" using u by (simp add: turn_shown_def turn_of_block_def)
    have fresh: "turn_shown \<lparr>tt_turnIndex = ci_turn_index item, tt_prompt = None, tt_stats = g, tt_entries = []\<rparr> = (ci_turn_index item, None, [])" for g
      by (simp add: turn_shown_def turn_items_def)
    have alone: "shown_item item (ci_turn_index item, None, []) = turn_of_block [item]"
      by (simp add: shown_item_def turn_of_block_def)
    show ?thesis unfolding shown using assms(2) b
      by (cases "ci_turn_index (hd b) = ci_turn_index item")
        (simp_all add: turns snoc i us u open_turn_def block_add_def block_add_turns butlast_append fresh alone)
  qed
qed

lemma turns_shown: "map turn_shown (fst (fold (timeline_round stats) items ([], None))) = map turn_of_block (turn_blocks items)
    \<and> [] \<notin> set (turn_blocks items)"
proof (induction items rule: rev_induct)
  case Nil
  show ?case by (simp add: turn_blocks_def)
next
  case (snoc item items)
  obtain turns e where "fold (timeline_round stats) items ([], None) = (turns, e)" by fastforce
  with snoc round_shown [of turns "turn_blocks items" stats item e] show ?case by (simp add: turn_blocks_def)
qed

lemma collapsed_shown: "turn_shown (t\<lparr>tt_entries := collapseRoutineRuns (tt_entries t)\<rparr>) = turn_shown t"
  by (simp add: turn_shown_def turn_items_def collapseRoutineRuns_def collapse_items)

lemma concat_blocks: "concat (turn_blocks items) = items"
proof (induction items rule: rev_induct)
  case Nil
  show ?case by (simp add: turn_blocks_def)
next
  case (snoc item items)
  have "concat (block_add item bs) = concat bs @ [item]" for bs by (cases bs rule: rev_cases) (auto simp: block_add_def)
  with snoc show ?case by (simp add: turn_blocks_def)
qed



section \<open>A call's parts stand together\<close>

text \<open>The transcript as one would say it: a call stands where its first part stands and holds all of its parts.\<close>

function gathered :: "session_content list \<Rightarrow> transcript_entry list" where
  "gathered [] = []"
| "gathered (item # rest) = (case call_of item of
     None \<Rightarrow> MessageEntry item # gathered rest
   | Some k \<Rightarrow> CallParts k (item # filter (\<lambda>i. call_of i = Some k) rest) # gathered (filter (\<lambda>i. call_of i \<noteq> Some k) rest))"
  by pat_completeness auto

termination
  by (relation "measure length") (simp_all add: le_imp_less_Suc)

definition kept_items :: "bool \<Rightarrow> session_content list \<Rightarrow> session_content list" where
  "kept_items includeRaw items = filter (\<lambda>i. sc_channel i \<noteq> ''native_record'' \<or> includeRaw) items"

lemma round_skips: "fold (transcript_round raw) items s = fold (transcript_round True) (kept_items raw items) s"
  by (induction items arbitrary: s) (auto simp: kept_items_def transcript_round_def split: prod.split)

definition call_seen :: "(string, session_content list) jsmap \<Rightarrow> session_content \<Rightarrow> bool" where
  "call_seen calls item = (case call_of item of Some k \<Rightarrow> jm_has calls k | None \<Rightarrow> False)"

fun with_rest :: "session_content list \<Rightarrow> (string, session_content list) jsmap \<Rightarrow> transcript_slot \<Rightarrow> transcript_entry" where
  "with_rest items calls (MessageSlot i) = MessageEntry i"
| "with_rest items calls (CallSlot k) =
     CallParts k ((case jm_get calls k of Some parts \<Rightarrow> parts | None \<Rightarrow> []) @ filter (\<lambda>i. call_of i = Some k) items)"

definition slots_known :: "transcript_slot list \<Rightarrow> (string, session_content list) jsmap \<Rightarrow> bool" where
  "slots_known slots calls = list_all (\<lambda>s. case s of CallSlot k \<Rightarrow> jm_has calls k | MessageSlot _ \<Rightarrow> True) slots"

lemma with_rest_message: "call_of item = None \<Longrightarrow> with_rest (item # items) calls slot = with_rest items calls slot"
  by (cases slot) simp_all

lemma with_rest_part: "call_of item = Some k \<Longrightarrow> jm_get calls k = Some parts \<Longrightarrow>
    with_rest (item # items) calls slot = with_rest items (jm_set k (parts @ [item]) calls) slot"
  by (cases slot) auto

lemma with_rest_start: "call_of item = Some k \<Longrightarrow> \<not> jm_has calls k \<Longrightarrow> slots_known slots calls \<Longrightarrow>
    map (with_rest (item # items) calls) slots = map (with_rest items (jm_set k [item] calls)) slots"
  by (induction slots) (auto simp: slots_known_def split: transcript_slot.splits)

lemma seen_filters:
  assumes "call_of item = Some k" "\<not> jm_has calls k"
  shows "filter (\<lambda>i. \<not> call_seen calls i \<and> call_of i = Some k) items = filter (\<lambda>i. call_of i = Some k) items"
    and "filter (\<lambda>i. \<not> call_seen calls i \<and> call_of i \<noteq> Some k) items = filter (\<lambda>i. \<not> call_seen (jm_set k ps calls) i) items"
  using assms by (induction items) (auto simp: call_seen_def split: option.splits)

lemma gathered_start:
  assumes "call_of item = Some k" "\<not> jm_has calls k"
  shows "gathered (filter (\<lambda>i. \<not> call_seen calls i) (item # items)) =
    CallParts k (item # filter (\<lambda>i. call_of i = Some k) items) # gathered (filter (\<lambda>i. \<not> call_seen (jm_set k ps calls) i) items)"
proof -
  have "\<not> call_seen calls item" using assms by (simp add: call_seen_def)
  then show ?thesis using assms by (simp add: seen_filters(1) [OF assms] seen_filters(2) [OF assms, where ps = ps])
qed

lemma rounds_gather:
  "slots_known slots calls \<Longrightarrow>
   (case fold (transcript_round True) items (slots, calls) of (entries, done_calls) \<Rightarrow> map (fill_slot done_calls) entries) =
     map (with_rest items calls) slots @ gathered (filter (\<lambda>i. \<not> call_seen calls i) items)"
proof (induction items arbitrary: slots calls)
  case Nil
  have "fill_slot calls s = with_rest [] calls s" for s by (cases s) simp_all
  then show ?case by simp
next
  case (Cons item items)
  show ?case
  proof (cases "call_of item")
    case None
    have "slots_known (slots @ [MessageSlot item]) calls" using Cons.prems by (simp add: slots_known_def)
    from Cons.IH [OF this] show ?thesis
      by (simp add: transcript_round_def None call_seen_def with_rest_message)
  next
    case (Some k)
    show ?thesis
    proof (cases "jm_get calls k")
      case None
      then have new: "\<not> jm_has calls k" by (simp add: jm_has_def)
      have "slots_known (slots @ [CallSlot k]) (jm_set k [item] calls)"
        using Cons.prems by (auto simp: slots_known_def list_all_iff split: transcript_slot.splits)
      from Cons.IH [OF this] show ?thesis using None Some new Cons.prems
        unfolding gathered_start [OF Some new, where ps = "[item]"] by (simp add: transcript_round_def with_rest_start)
    next
      case (Some parts)
      have seen: "call_seen (jm_set k (parts @ [item]) calls) = call_seen calls"
        using Some by (auto simp: call_seen_def jm_has_def fun_eq_iff split: option.splits)
      have "slots_known slots (jm_set k (parts @ [item]) calls)"
        using Cons.prems by (auto simp: slots_known_def list_all_iff split: transcript_slot.splits)
      from Cons.IH [OF this] show ?thesis using Some \<open>call_of item = Some k\<close>
        by (simp add: transcript_round_def seen with_rest_part) (simp add: call_seen_def jm_has_def)
    qed
  qed
qed

text \<open>
  C27. The transcript is the server's list with each call gathered: a row that is no part of a call is a message
  where it stands, and where the first part of a call stands the call stands, with all of its parts in order and no
  other. Records in an agent's own format are left out unless they are asked for, and nothing else is.
\<close>

theorem transcript_gathers_calls: "transcriptEntries items includeRaw = gathered (kept_items includeRaw items)"
  using rounds_gather [of "[]" "[]" "kept_items includeRaw items"]
  by (simp add: transcriptEntries_def round_skips [of includeRaw] slots_known_def call_seen_def option.case_eq_if)


section \<open>Every session has one place\<close>

text \<open>The groups as one would say them: one for each day that a session was last active in, in the order met.\<close>

definition day_group :: "(string \<Rightarrow> string) \<Rightarrow> string \<Rightarrow> string \<Rightarrow> session_row list \<Rightarrow> string \<Rightarrow> session_group" where
  "day_group localDayKey todayKey yesterdayKey sessions k =
     (let in_day = filter (\<lambda>s. localDayKey (sr_last_event_at s) = k) sessions
      in \<lparr>sg_key = k, sg_kind = day_kind todayKey yesterdayKey k, sg_day = Some (sr_last_event_at (hd in_day)), sg_sessions = in_day\<rparr>)"

definition days_of :: "(string \<Rightarrow> string) \<Rightarrow> session_row list \<Rightarrow> string list" where
  "days_of localDayKey sessions = js_unique (map (\<lambda>s. localDayKey (sr_last_event_at s)) sessions)"

lemma days_of_snoc: "days_of f (sessions @ [s]) = js_add (f (sr_last_event_at s)) (days_of f sessions)"
  by (simp add: days_of_def js_unique_def)

lemma set_days_of: "set (days_of f sessions) = (\<lambda>s. f (sr_last_event_at s)) ` set sessions"
  by (simp add: days_of_def js_unique_def)

lemma distinct_days_of: "distinct (days_of f sessions)"
  by (simp add: days_of_def js_unique_def)

lemma jm_set_table: "jm_set k v (map (\<lambda>j. (j, f j)) ks) = map (\<lambda>j. (j, if j = k then v else f j)) (js_add k ks)" if "distinct ks"
  using that by (induction ks) (auto simp: js_add_def)

lemma jm_get_table: "jm_get (map (\<lambda>j. (j, f j)) ks) k = (if k \<in> set ks then Some (f k) else None)"
  by (induction ks) auto

abbreviation day_table :: "(string \<Rightarrow> string) \<Rightarrow> string \<Rightarrow> string \<Rightarrow> session_row list \<Rightarrow> (string, session_group) jsmap" where
  "day_table f today yesterday sessions \<equiv> map (\<lambda>k. (k, day_group f today yesterday sessions k)) (days_of f sessions)"

lemma group_round_table:
  assumes "\<not> isLive s"
  shows "group_round f today yesterday s (live, day_table f today yesterday sessions) = (live, day_table f today yesterday (sessions @ [s]))"
proof -
  let ?k = "f (sr_last_event_at s)"
  have known: "filter (\<lambda>s'. f (sr_last_event_at s') = ?k) sessions \<noteq> [] \<longleftrightarrow> ?k \<in> set (days_of f sessions)"
    by (auto simp: set_days_of filter_empty_conv image_iff) metis
  have day: "day_group f today yesterday (sessions @ [s]) ?k =
      (let g = (if ?k \<in> set (days_of f sessions) then day_group f today yesterday sessions ?k
         else \<lparr>sg_key = ?k, sg_kind = day_kind today yesterday ?k, sg_day = Some (sr_last_event_at s), sg_sessions = []\<rparr>)
       in g\<lparr>sg_sessions := sg_sessions g @ [s]\<rparr>)"
    using known by (auto simp: day_group_def Let_def hd_append)
  have other: "k \<noteq> ?k \<Longrightarrow> day_group f today yesterday (sessions @ [s]) k = day_group f today yesterday sessions k" for k
    by (simp add: day_group_def)
  show ?thesis using assms
    by (simp add: group_round_def Let_def jm_get_table jm_set_table distinct_days_of days_of_snoc day other if_distrib)
qed

lemma group_round_live: "isLive s \<Longrightarrow> group_round f today yesterday s (live, byDay) = (live @ [s], byDay)"
  by (simp add: group_round_def)

lemma groups_fold: "fold (group_round f today yesterday) sessions ([], []) =
    (filter isLive sessions, day_table f today yesterday (filter (\<lambda>s. \<not> isLive s) sessions))"
proof (induction sessions rule: rev_induct)
  case Nil
  show ?case by (simp add: days_of_def js_unique_def)
next
  case (snoc s sessions)
  then show ?case by (cases "isLive s") (simp_all add: group_round_table group_round_live)
qed

text \<open>
  The list of sessions has the live ones first, if any, and then a group for each day in which another session was
  last active, in the order of the list, with exactly the sessions of that day in their order.
\<close>

lemma groups_of_days:
  "groupSessionsByDay f today yesterday sessions =
    (if filter isLive sessions \<noteq> [] then [\<lparr>sg_key = ''live'', sg_kind = LiveGroup, sg_day = None, sg_sessions = filter isLive sessions\<rparr>] else []) @
    map (day_group f today yesterday (filter (\<lambda>s. \<not> isLive s) sessions)) (days_of f (filter (\<lambda>s. \<not> isLive s) sessions))"
  by (simp add: groupSessionsByDay_def groups_fold jm_values_def comp_def)

end
