(* ===== verification/Session_Text.thy ===== *)
theory Session_Text
  imports JS_Regex
begin

text \<open>
  What the session screens make of texts: the arguments and output of a call (\<open>features/sessions/utils/presenter.ts\<close>,
  \<open>call-content.ts\<close>), the name of a download (\<open>contents.ts\<close>), and the filters in the address of the page
  (\<open>hooks/use-session-filters.ts\<close> and the families of agents in \<open>components/AgentMark.tsx\<close>).
\<close>


section \<open>Presented arguments\<close>

text \<open>A pattern between \<open>^\<close> and \<open>$\<close>.\<close>

definition rx_whole :: "regex \<Rightarrow> string \<Rightarrow> bool" where
  "rx_whole r s = (length s \<in> set (rx_ends r s))"

definition FILE_TOOL :: regex where
  "FILE_TOOL = any_of [lit_i ''edit'', lit_i ''write'', lit_i ''read'', lit_i ''view'', seq_of [lit_i ''multi'', maybe (lit_i ''_''), lit_i ''edit''],
     seq_of [lit_i ''notebook'', maybe (lit_i ''_''), lit_i ''edit''], lit_i ''str_replace'', lit_i ''cat'']"

definition SHELL_TOOL :: regex where
  "SHELL_TOOL = any_of [lit_i ''bash'', lit_i ''shell'', lit_i ''exec'', lit_i ''command'', lit_i ''run'', lit_i ''terminal'']"

definition path_char :: "char \<Rightarrow> bool" where
  "path_char c = (\<not> js_space c \<and> c \<notin> set [CHR 0x22, CHR 0x27, CHR ''{'', CHR ''}'', CHR ''['', CHR '']'', CHR ''=''])"

definition SINGLE_PATH :: regex where
  "SINGLE_PATH = at_least 1 (Class path_char)"

definition slash_or_backslash :: "char \<Rightarrow> bool" where
  "slash_or_backslash c = (c = CHR ''/'' \<or> c = CHR 0x5C)"

definition HOME_PREFIX :: regex where
  "HOME_PREFIX = Both (any_of
     [Both (lit ''/Users/'') (at_least 1 (Class (\<lambda>c. c \<noteq> CHR ''/'' \<and> \<not> js_space c))),
      Both (lit ''/home/'') (at_least 1 (Class (\<lambda>c. c \<noteq> CHR ''/'' \<and> \<not> js_space c))),
      Both (Class (\<lambda>c. is_upper c \<or> is_lower c)) (Both (lit ([CHR '':'', CHR 0x5C] @ ''Users'' @ [CHR 0x5C]))
        (at_least 1 (Class (\<lambda>c. c \<noteq> CHR 0x5C \<and> \<not> js_space c))))])
     (NotNext (\<lambda>c. \<not> slash_or_backslash c))"

definition tildeHome :: "string \<Rightarrow> string" where
  "tildeHome path = (case rx_ends HOME_PREFIX path of n # _ \<Rightarrow> ''~'' @ drop n path | [] \<Rightarrow> path)"

record presented_args =
  pa_visible :: string
  pa_hidden :: string

definition presentArgs :: "string option \<Rightarrow> string \<Rightarrow> presented_args" where
  "presentArgs toolName args =
     (let name = (case toolName of Some n \<Rightarrow> n | None \<Rightarrow> '''') in
      if rx_whole FILE_TOOL name \<and> rx_whole SINGLE_PATH args then \<lparr>pa_visible = tildeHome args, pa_hidden = ''''\<rparr>
      else if rx_whole SHELL_TOOL name then
        let verbEnd = js_findIndex js_space args;
            verb = (case verbEnd of None \<Rightarrow> args | Some n \<Rightarrow> take n args)
        in if CHR ''='' \<in> set verb then \<lparr>pa_visible = '''', pa_hidden = args\<rparr>
           else \<lparr>pa_visible = tildeHome verb, pa_hidden = (case verbEnd of None \<Rightarrow> '''' | Some n \<Rightarrow> dropWhile js_space (drop n args))\<rparr>
      else \<lparr>pa_visible = '''', pa_hidden = args\<rparr>)"


section \<open>The output of a call\<close>

definition OUTPUT_PATHS :: "string list" where
  "OUTPUT_PATHS = [''output'', ''gen_ai.output'', ''gen_ai.tool.call.result'', ''command.output'', ''command.stdout'', ''command.stderr'',
     ''tool.output'', ''tool.result'', ''tool.response'', ''tool.stdout'', ''tool.stderr'', ''mcp.result'', ''mcp.response'']"

definition COMPANION_DIGEST :: regex where
  "COMPANION_DIGEST = seq_of [lit ''[omitted '', at_least 1 (Class is_digit), lit '' bytes sha256:'',
     at_least 1 (Class (\<lambda>c. is_digit c \<or> c \<in> set ''abcdef'')), lit '']'']"

definition valueAt :: "json \<Rightarrow> string \<Rightarrow> json option" where
  "valueAt data path = fold (\<lambda>key node. case node of Some v \<Rightarrow> jfield v key | None \<Rightarrow> None) (js_split (CHR ''.'') path) (Some data)"

fun isPlaceholder :: "json \<Rightarrow> bool" where
  "isPlaceholder (JStr s) = rx_whole COMPANION_DIGEST s"
| "isPlaceholder (JObj kvs) = (length kvs = 2 \<and> ''bytes'' \<in> fst ` set kvs \<and> ''sha256'' \<in> fst ` set kvs)"
| "isPlaceholder _ = False"

text \<open>The text of a value that is no string, \<open>JSON.stringify(value, null, 2)\<close>, is a parameter.\<close>

definition asText :: "(json \<Rightarrow> string) \<Rightarrow> json \<Rightarrow> string" where
  "asText stringify v = (case v of JStr s \<Rightarrow> s | _ \<Rightarrow> stringify v)"

fun first_of :: "('a \<Rightarrow> 'b option) \<Rightarrow> 'a list \<Rightarrow> 'b option" where
  "first_of f [] = None"
| "first_of f (x # xs) = (case f x of Some y \<Rightarrow> Some y | None \<Rightarrow> first_of f xs)"

definition output_at :: "json \<Rightarrow> string \<Rightarrow> json option" where
  "output_at data path = (case valueAt data path of
     Some v \<Rightarrow> if v = JNull \<or> v = JStr '''' \<or> isPlaceholder v then None else Some v
   | None \<Rightarrow> None)"

definition callOutput :: "(json \<Rightarrow> string) \<Rightarrow> json list \<Rightarrow> string option" where
  "callOutput stringify events =
     map_option (asText stringify) (first_of (\<lambda>data. first_of (output_at data) OUTPUT_PATHS) (rev events))"

definition text_at :: "json \<Rightarrow> string \<Rightarrow> string option" where
  "text_at data path = (case valueAt data path of Some (JStr s) \<Rightarrow> if s \<noteq> '''' then Some s else None | _ \<Rightarrow> None)"

definition callError :: "json list \<Rightarrow> string option" where
  "callError events = first_of (\<lambda>data. first_of (text_at data) [''error'', ''error.message'']) (rev events)"


section \<open>The name of a download\<close>

definition ENCODED_FILENAME :: regex where
  "ENCODED_FILENAME = Both (lit_i (''filename*=utf-8'' @ [CHR 0x27, CHR 0x27])) (at_least 1 (none_of '';''))"

text \<open>The first match in a text, without the anchor, and its group after the seventeen characters of the prefix.\<close>

fun rx_first :: "regex \<Rightarrow> string \<Rightarrow> string option" where
  "rx_first r s = (case rx_ends r s of n # _ \<Rightarrow> Some (take n s) | [] \<Rightarrow> (case s of [] \<Rightarrow> None | _ # s' \<Rightarrow> rx_first r s'))"

definition unsafe_name_char :: "char \<Rightarrow> bool" where
  "unsafe_name_char c = (of_char c < (32 :: nat) \<or> of_char c = (127 :: nat) \<or> c \<in> set [CHR ''<'', CHR ''>'', CHR '':'', CHR 0x22, CHR ''|'', CHR ''?'', CHR ''*''])"

definition bare_name :: "string \<Rightarrow> string" where
  "bare_name decoded = js_trim (dropWhile (\<lambda>c. c = CHR ''.'') (filter (\<lambda>c. \<not> unsafe_name_char c) (last (split_class slash_or_backslash decoded))))"

text \<open>\<open>decodeURIComponent\<close>, which fails on a malformed escape, is a parameter.\<close>

definition downloadName :: "(string \<Rightarrow> string option) \<Rightarrow> string option \<Rightarrow> string \<Rightarrow> string" where
  "downloadName decode disposition fallback =
     (case (case disposition of Some d \<Rightarrow> map_option (drop 17) (rx_first ENCODED_FILENAME d) | None \<Rightarrow> None) of
        None \<Rightarrow> fallback
      | Some encoded \<Rightarrow> (case decode (js_trim encoded) of
            None \<Rightarrow> fallback
          | Some decoded \<Rightarrow> if bare_name decoded \<noteq> '''' then bare_name decoded else fallback))"

section \<open>Presented arguments hide\<close>

text \<open>The part of the arguments before the first white space.\<close>

lemma first_word: "(case js_findIndex P xs of None \<Rightarrow> xs | Some n \<Rightarrow> take n xs) = takeWhile (\<lambda>x. \<not> P x) xs"
  by (induction xs) (auto split: option.splits)

lemma after_first_word: "(case js_findIndex P xs of None \<Rightarrow> [] | Some n \<Rightarrow> dropWhile P (drop n xs)) = dropWhile P (dropWhile (\<lambda>x. \<not> P x) xs)"
  by (induction xs) (auto split: option.splits)

lemma presentArgs_shell:
  assumes "\<not> (rx_whole FILE_TOOL n \<and> rx_whole SINGLE_PATH args)" "rx_whole SHELL_TOOL n"
  shows "presentArgs (Some n) args = (if CHR ''='' \<in> set (takeWhile (\<lambda>c. \<not> js_space c) args) then \<lparr>pa_visible = '''', pa_hidden = args\<rparr>
    else \<lparr>pa_visible = tildeHome (takeWhile (\<lambda>c. \<not> js_space c) args), pa_hidden = dropWhile js_space (dropWhile (\<lambda>c. \<not> js_space c) args)\<rparr>)"
  using assms unfolding presentArgs_def Let_def first_word after_first_word by auto

lemma three_parts:
  "\<exists>verb gap. args = verb @ gap @ dropWhile js_space (dropWhile (\<lambda>c. \<not> js_space c) args) \<and> verb = takeWhile (\<lambda>c. \<not> js_space c) args \<and> list_all js_space gap"
  by (rule exI [of _ "takeWhile (\<lambda>c. \<not> js_space c) args"], rule exI [of _ "takeWhile js_space (dropWhile (\<lambda>c. \<not> js_space c) args)"])
    (auto simp: list_all_iff dest: set_takeWhileD)

lemma home_starts: "rx_ends HOME_PREFIX (CHR ''~'' # s) = []"
  by (simp add: HOME_PREFIX_def is_upper_def is_lower_def)

text \<open>A path that is shown starts with no home folder.\<close>

lemma tildeHome_hides: "rx_ends HOME_PREFIX (tildeHome path) = []"
  by (simp add: tildeHome_def home_starts split: list.split)

text \<open>
  Presenter mode shows nothing of the arguments of a call but the path of a file tool, when the arguments are one
  path, and the first word of a shell tool, when it assigns nothing; of both without the home folder they start with.
  What is not shown of a command is its rest, and otherwise everything is hidden.
\<close>

lemma presented_args_hide:
  "(let p = presentArgs toolName args in
     rx_ends HOME_PREFIX (pa_visible p) = []
     \<and> (pa_visible p = '''' \<and> pa_hidden p = args
        \<or> (\<exists>name. toolName = Some name \<and> rx_whole FILE_TOOL name) \<and> rx_whole SINGLE_PATH args
          \<and> pa_visible p = tildeHome args \<and> pa_hidden p = ''''
        \<or> (\<exists>name verb gap. toolName = Some name \<and> rx_whole SHELL_TOOL name \<and> args = verb @ gap @ pa_hidden p
          \<and> list_all (\<lambda>c. \<not> js_space c \<and> c \<noteq> CHR ''='') verb \<and> list_all js_space gap \<and> pa_visible p = tildeHome verb)))"
proof -
  have nothing [simp]: "rx_ends HOME_PREFIX [] = []" by (simp add: HOME_PREFIX_def)
  have unnamed: "\<not> rx_whole FILE_TOOL []" "\<not> rx_whole SHELL_TOOL []"
    by (simp_all add: rx_whole_def FILE_TOOL_def SHELL_TOOL_def)
  have rest: "\<not> (rx_whole FILE_TOOL n \<and> rx_whole SINGLE_PATH args) \<Longrightarrow> \<not> rx_whole SHELL_TOOL n \<Longrightarrow>
      presentArgs (Some n) args = \<lparr>pa_visible = '''', pa_hidden = args\<rparr>" for n
    by (auto simp: presentArgs_def)
  have without: "presentArgs None args = \<lparr>pa_visible = '''', pa_hidden = args\<rparr>" using unnamed by (simp add: presentArgs_def)
  consider (as_file) n where "toolName = Some n" "rx_whole FILE_TOOL n" "rx_whole SINGLE_PATH args"
    | (as_shell) n where "toolName = Some n" "\<not> (rx_whole FILE_TOOL n \<and> rx_whole SINGLE_PATH args)" "rx_whole SHELL_TOOL n"
    | (other) "presentArgs toolName args = \<lparr>pa_visible = '''', pa_hidden = args\<rparr>"
    using without rest by (cases toolName) blast+
  then show ?thesis
  proof cases
    case as_file
    then show ?thesis by (simp add: presentArgs_def tildeHome_hides)
  next
    case as_shell
    let ?verb = "takeWhile (\<lambda>c. \<not> js_space c) args"
    note shown = presentArgs_shell [OF as_shell(2,3)]
    show ?thesis
    proof (cases "CHR ''='' \<in> set ?verb")
      case True
      then show ?thesis unfolding as_shell(1) shown by simp
    next
      case False
      then have verb: "list_all (\<lambda>c. \<not> js_space c \<and> c \<noteq> CHR ''='') ?verb"
        by (auto simp: list_all_iff dest: set_takeWhileD)
      from three_parts [of args] obtain gap where
        gap: "args = ?verb @ gap @ dropWhile js_space (dropWhile (\<lambda>c. \<not> js_space c) args)" "list_all js_space gap" by blast
      have p: "presentArgs (Some n) args = \<lparr>pa_visible = tildeHome ?verb, pa_hidden = dropWhile js_space (dropWhile (\<lambda>c. \<not> js_space c) args)\<rparr>"
        unfolding shown using False by (rule if_not_P)
      show ?thesis unfolding as_shell(1) p Let_def presented_args.simps
        using tildeHome_hides verb gap as_shell(3) by (intro conjI disjI2 exI) blast+
    qed
  next
    case other
    then show ?thesis using nothing by simp
  qed
qed

text \<open>An output that is shown is never the placeholder of one that was withheld.\<close>

lemma first_of_Some: "first_of f xs = Some y \<Longrightarrow> \<exists>x\<in>set xs. f x = Some y"
  by (induction xs) (auto split: option.splits)

lemma call_output_no_placeholder:
  assumes "callOutput stringify events = Some t"
  shows "\<exists>data\<in>set events. \<exists>path\<in>set OUTPUT_PATHS. \<exists>v. valueAt data path = Some v \<and> \<not> isPlaceholder v \<and> v \<noteq> JNull \<and> v \<noteq> JStr '''' \<and> t = asText stringify v"
proof -
  from assms obtain v where v: "first_of (\<lambda>data. first_of (output_at data) OUTPUT_PATHS) (rev events) = Some v" "t = asText stringify v"
    by (auto simp: callOutput_def)
  from first_of_Some [OF v(1)] obtain data where data: "data \<in> set events" "first_of (output_at data) OUTPUT_PATHS = Some v" by auto
  from first_of_Some [OF data(2)] obtain path where "path \<in> set OUTPUT_PATHS" "output_at data path = Some v" by auto
  then show ?thesis using v(2) data(1) by (auto simp: output_at_def split: option.splits if_splits intro!: bexI)
qed


section \<open>A download stays in its folder\<close>

lemma js_trim_subset: "set (js_trim s) \<subseteq> set s"
  by (auto simp: js_trim_def dest!: set_dropWhileD)

text \<open>
  The name of a download is the fallback, or a text without path separators, control characters and the characters
  that file systems refuse.
\<close>

lemma download_name_safe:
  "downloadName decode disposition fallback = fallback \<or>
    (downloadName decode disposition fallback \<noteq> '''' \<and>
     (\<forall>c\<in>set (downloadName decode disposition fallback). \<not> slash_or_backslash c \<and> \<not> unsafe_name_char c))"
proof -
  have "\<not> slash_or_backslash c \<and> \<not> unsafe_name_char c" if "c \<in> set (bare_name d)" for c d
  proof -
    have "last (split_class slash_or_backslash d) \<in> set (split_class slash_or_backslash d)" by simp
    then have "\<forall>c\<in>set (last (split_class slash_or_backslash d)). \<not> slash_or_backslash c"
      using split_class_parts [of slash_or_backslash d] by blast
    moreover have "c \<in> set (filter (\<lambda>c. \<not> unsafe_name_char c) (last (split_class slash_or_backslash d)))"
      using that js_trim_subset unfolding bare_name_def by (meson set_dropWhileD subsetD)
    ultimately show ?thesis by simp
  qed
  then show ?thesis by (auto simp: downloadName_def split: option.split)
qed

text \<open>
  Leading dots are taken off before white space is, so that dots after a space stay: the name can still be
  \<open>..\<close>, the name of the parent folder.
\<close>

lemma download_name_can_be_parent:
  "downloadName (\<lambda>s. Some '' ..'') (Some (''filename*=UTF-8'' @ [CHR 0x27, CHR 0x27] @ ''%20..'')) ''file'' = ''..''"
proof -
  have "bare_name '' ..'' = ''..''"
    by (simp add: bare_name_def slash_or_backslash_def unsafe_name_char_def js_trim_def js_space_def)
  moreover have "rx_first ENCODED_FILENAME (''filename*=UTF-8'' @ [CHR 0x27, CHR 0x27] @ ''%20..'') \<noteq> None"
    by code_simp
  ultimately show ?thesis by (auto simp: downloadName_def simp del: rx_first.simps)
qed

section \<open>Families of agents\<close>

text \<open>
  The tables of \<open>AgentMark.tsx\<close> are plain objects, so that a lookup also finds what every object inherits. An agent
  key is a text, or such an inherited thing when the key came from the address of the page.
\<close>

datatype agent_key = KeyText string | KeyThing string

definition OBJECT_PROPERTIES :: "string list" where
  "OBJECT_PROPERTIES = [''constructor'', ''hasOwnProperty'', ''isPrototypeOf'', ''propertyIsEnumerable'', ''toLocaleString'', ''toString'', ''valueOf'',
     ''__proto__'', ''__defineGetter__'', ''__defineSetter__'', ''__lookupGetter__'', ''__lookupSetter__'']"

definition FAMILY_BY_HARNESS :: "(string \<times> string) list" where
  "FAMILY_BY_HARNESS = [(''claude_code'', ''claude''), (''codex_cli'', ''codex''), (''codex_desktop'', ''codex''), (''pi_cli'', ''pi'')]"

definition FAMILY_HARNESSES :: "(string \<times> string list) list" where
  "FAMILY_HARNESSES = [(''claude'', [''claude_code'']), (''codex'', [''codex_cli'', ''codex_desktop'']), (''pi'', [''pi_cli''])]"

definition agentFamily :: "string \<Rightarrow> agent_key" where
  "agentFamily harness = (case map_of FAMILY_BY_HARNESS harness of
     Some family \<Rightarrow> KeyText family
   | None \<Rightarrow> if harness \<in> set OBJECT_PROPERTIES then KeyThing harness else KeyText ''other'')"

definition agentKey :: "string \<Rightarrow> agent_key" where
  "agentKey harness = (if agentFamily harness = KeyText ''other'' then KeyText harness else agentFamily harness)"

definition normaliseAgentKey :: "string \<Rightarrow> agent_key" where
  "normaliseAgentKey value =
     (if map_of FAMILY_BY_HARNESS value \<noteq> None \<or> value \<in> set OBJECT_PROPERTIES then agentKey value else KeyText value)"

text \<open>An inherited thing is not a key of the table, whatever its text; an inherited name is, and leads to nothing.\<close>

fun serverHarnessFor :: "agent_key \<Rightarrow> agent_key option" where
  "serverHarnessFor (KeyThing n) = Some (KeyThing n)"
| "serverHarnessFor (KeyText k) = (case map_of FAMILY_HARNESSES k of
     Some harnesses \<Rightarrow> if length harnesses = 1 then Some (KeyText (hd harnesses)) else None
   | None \<Rightarrow> if k \<in> set OBJECT_PROPERTIES then None else Some (KeyText k))"


section \<open>The filters in the address\<close>

definition PERIODS :: "string list" where
  "PERIODS = [''today'', ''7d'', ''30d'']"

definition DEFAULT_PERIOD :: string where
  "DEFAULT_PERIOD = ''7d''"

definition STATE_FILTERS :: "string list" where
  "STATE_FILTERS = [''live'', ''idle'', ''ended'', ''incomplete'', ''paused'', ''disconnected'']"

definition displayStateFor :: "string \<Rightarrow> string" where
  "displayStateFor f = (if f = ''live'' then ''active'' else f)"

definition SESSION_SORTS :: "string list" where
  "SESSION_SORTS = [''recent'', ''started'', ''duration'', ''tokens'', ''cost'']"

definition DEFAULT_SORT :: string where
  "DEFAULT_SORT = ''recent''"

definition MAX_QUERY_LENGTH :: nat where
  "MAX_QUERY_LENGTH = 100"

record session_filters =
  sf_period :: string
  sf_agent :: "agent_key option"
  sf_state :: "string option"
  sf_board :: "string option"
  sf_linkedOnly :: bool
  sf_subagents :: bool
  sf_q :: string
  sf_sort :: string

type_synonym search_params = "(string, string) jsmap"

definition oneOf :: "string option \<Rightarrow> string list \<Rightarrow> string option" where
  "oneOf value allowed = (case value of Some v \<Rightarrow> if v \<in> set allowed then Some v else None | None \<Rightarrow> None)"

definition or_default :: "'a option \<Rightarrow> 'a \<Rightarrow> 'a" where
  "or_default opt d = (case opt of Some v \<Rightarrow> v | None \<Rightarrow> d)"

definition non_empty :: "string option \<Rightarrow> string option" where
  "non_empty opt = (case opt of Some v \<Rightarrow> if v \<noteq> '''' then Some v else None | None \<Rightarrow> None)"

definition parseSessionFilters :: "search_params \<Rightarrow> session_filters" where
  "parseSessionFilters params =
     \<lparr>sf_period = or_default (oneOf (jm_get params ''period'') PERIODS) DEFAULT_PERIOD,
      sf_agent = map_option normaliseAgentKey (non_empty (jm_get params ''agent'')),
      sf_state = oneOf (jm_get params ''state'') STATE_FILTERS,
      sf_board = non_empty (jm_get params ''board''),
      sf_linkedOnly = (jm_get params ''linked'' = Some ''1''),
      sf_subagents = (jm_get params ''subagents'' = Some ''1''),
      sf_q = take MAX_QUERY_LENGTH (or_default (jm_get params ''q'') ''''),
      sf_sort = or_default (oneOf (jm_get params ''sort'') SESSION_SORTS) DEFAULT_SORT\<rparr>"

text \<open>The text of an inherited thing is a parameter.\<close>

fun key_text :: "(string \<Rightarrow> string) \<Rightarrow> agent_key \<Rightarrow> string" where
  "key_text thing_text (KeyText k) = k"
| "key_text thing_text (KeyThing n) = thing_text n"

definition set_when :: "bool \<Rightarrow> string \<Rightarrow> string \<Rightarrow> search_params \<Rightarrow> search_params" where
  "set_when b k v params = (if b then jm_set k v params else params)"

definition toSearchParams :: "(string \<Rightarrow> string) \<Rightarrow> session_filters \<Rightarrow> search_params" where
  "toSearchParams thing_text filters =
     set_when (sf_sort filters \<noteq> DEFAULT_SORT) ''sort'' (sf_sort filters)
      (set_when (js_trim (sf_q filters) \<noteq> '''') ''q'' (js_trim (sf_q filters))
       (set_when (sf_subagents filters) ''subagents'' ''1''
        (set_when (sf_linkedOnly filters) ''linked'' ''1''
         (set_when (non_empty (sf_board filters) \<noteq> None) ''board'' (or_default (sf_board filters) '''')
          (set_when (non_empty (sf_state filters) \<noteq> None) ''state'' (or_default (sf_state filters) '''')
           (set_when (sf_agent filters \<noteq> None \<and> sf_agent filters \<noteq> Some (KeyText '''')) ''agent'' (case sf_agent filters of Some a \<Rightarrow> key_text thing_text a | None \<Rightarrow> '''')
            (set_when (sf_period filters \<noteq> DEFAULT_PERIOD) ''period'' (sf_period filters) [])))))))"

record list_query =
  lq_harness :: "agent_key option"
  lq_state :: "string option"
  lq_board_id :: "string option"
  lq_linked_only :: bool
  lq_q :: "string option"
  lq_root_only :: bool
  lq_since :: string
  lq_sort :: string

definition toListQuery :: "session_filters \<Rightarrow> string \<Rightarrow> list_query" where
  "toListQuery filters since =
     \<lparr>lq_harness = (case sf_agent filters of Some a \<Rightarrow> if a = KeyText '''' then None else
         (case serverHarnessFor a of Some (KeyText h) \<Rightarrow> if h \<noteq> '''' then Some (KeyText h) else None | h \<Rightarrow> h) | None \<Rightarrow> None),
      lq_state = map_option displayStateFor (non_empty (sf_state filters)), lq_board_id = non_empty (sf_board filters),
      lq_linked_only = sf_linkedOnly filters, lq_q = non_empty (Some (js_trim (sf_q filters))),
      lq_root_only = (\<not> sf_subagents filters), lq_since = since, lq_sort = sf_sort filters\<rparr>"

definition hasChosenFilters :: "session_filters \<Rightarrow> bool" where
  "hasChosenFilters filters = (sf_agent filters \<noteq> None \<and> sf_agent filters \<noteq> Some (KeyText '''') \<or> non_empty (sf_state filters) \<noteq> None \<or>
     non_empty (sf_board filters) \<noteq> None \<or> sf_linkedOnly filters \<or> js_trim (sf_q filters) \<noteq> '''')"

definition clearFilters :: "(string \<Rightarrow> string) \<Rightarrow> search_params \<Rightarrow> search_params" where
  "clearFilters thing_text current = toSearchParams thing_text
     ((parseSessionFilters current)\<lparr>sf_agent := None, sf_state := None, sf_board := None, sf_linkedOnly := False, sf_q := ''''\<rparr>)"

definition filters_typed :: "session_filters \<Rightarrow> bool" where
  "filters_typed f = (sf_period f \<in> set PERIODS \<and> sf_sort f \<in> set SESSION_SORTS \<and>
     (case sf_agent f of None \<Rightarrow> True | Some (KeyText k) \<Rightarrow> k \<noteq> '''' \<and> normaliseAgentKey k = KeyText k | Some (KeyThing _) \<Rightarrow> False) \<and>
     (case sf_state f of None \<Rightarrow> True | Some s \<Rightarrow> s \<in> set STATE_FILTERS) \<and> sf_board f \<noteq> Some '''')"

lemma set_when_get: "jm_get (set_when b k v m) k' = (if b \<and> k = k' then Some v else jm_get m k')"
  by (simp add: set_when_def)

lemma params_get:
  "jm_get (toSearchParams tt f) ''sort'' = (if sf_sort f \<noteq> DEFAULT_SORT then Some (sf_sort f) else None)"
  "jm_get (toSearchParams tt f) ''q'' = (if js_trim (sf_q f) \<noteq> '''' then Some (js_trim (sf_q f)) else None)"
  "jm_get (toSearchParams tt f) ''subagents'' = (if sf_subagents f then Some ''1'' else None)"
  "jm_get (toSearchParams tt f) ''linked'' = (if sf_linkedOnly f then Some ''1'' else None)"
  "jm_get (toSearchParams tt f) ''board'' = non_empty (sf_board f)"
  "jm_get (toSearchParams tt f) ''state'' = non_empty (sf_state f)"
  "jm_get (toSearchParams tt f) ''agent'' = (if sf_agent f \<noteq> None \<and> sf_agent f \<noteq> Some (KeyText '''') then
     Some (case sf_agent f of Some a \<Rightarrow> key_text tt a | None \<Rightarrow> '''') else None)"
  "jm_get (toSearchParams tt f) ''period'' = (if sf_period f \<noteq> DEFAULT_PERIOD then Some (sf_period f) else None)"
  by (simp_all add: toSearchParams_def set_when_get non_empty_def or_default_def split: option.split)

lemma one_of_default: "v \<in> set allowed \<Longrightarrow> or_default (oneOf (if v \<noteq> d then Some v else None) allowed) d = v"
  by (simp add: or_default_def oneOf_def)

lemma one_of_state: "(case s of None \<Rightarrow> True | Some v \<Rightarrow> v \<in> set allowed) \<Longrightarrow> '''' \<notin> set allowed \<Longrightarrow> oneOf (non_empty s) allowed = s"
  by (cases s) (auto simp: oneOf_def non_empty_def)

lemma agent_back:
  assumes "case a of None \<Rightarrow> True | Some (KeyText k) \<Rightarrow> k \<noteq> '''' \<and> normaliseAgentKey k = KeyText k | Some (KeyThing _) \<Rightarrow> False"
  shows "map_option normaliseAgentKey (non_empty (if a \<noteq> None \<and> a \<noteq> Some (KeyText '''') then
     Some (case a of Some a \<Rightarrow> key_text tt a | None \<Rightarrow> '''') else None)) = a"
  using assms by (cases a) (auto simp: non_empty_def split: agent_key.splits)

lemma no_empty_state: "'''' \<notin> set STATE_FILTERS"
  by (simp add: STATE_FILTERS_def)

lemma families: "list_all (\<lambda>(a, k). normaliseAgentKey a = KeyText k \<and> k \<in> set [''claude'', ''codex'', ''pi''] \<and> a \<notin> set OBJECT_PROPERTIES) FAMILY_BY_HARNESS"
  by code_simp

lemma normalise_family: "map_of FAMILY_BY_HARNESS a = Some k \<Longrightarrow> normaliseAgentKey a = KeyText k \<and> k \<in> set [''claude'', ''codex'', ''pi''] \<and> a \<notin> set OBJECT_PROPERTIES"
  using families map_of_SomeD [of FAMILY_BY_HARNESS a k] unfolding list_all_iff by blast

lemma family_names: "list_all (\<lambda>k. normaliseAgentKey k = KeyText k) [''claude'', ''codex'', ''pi'']"
  by code_simp

lemma family_fixed: "k \<in> set [''claude'', ''codex'', ''pi''] \<Longrightarrow> normaliseAgentKey k = KeyText k \<and> k \<noteq> ''''"
  using family_names by (auto simp: list_all_iff)

lemma normalise_back:
  assumes "a \<noteq> ''''"
  shows "(case normaliseAgentKey a of KeyText k \<Rightarrow> k \<noteq> '''' \<and> normaliseAgentKey k = KeyText k | KeyThing _ \<Rightarrow> False) \<longleftrightarrow> a \<notin> set OBJECT_PROPERTIES"
proof (cases "map_of FAMILY_BY_HARNESS a")
  case None
  show ?thesis
  proof (cases "a \<in> set OBJECT_PROPERTIES")
    case True
    then have "normaliseAgentKey a = KeyThing a" using None by (simp add: normaliseAgentKey_def agentKey_def agentFamily_def)
    then show ?thesis using True by simp
  next
    case False
    then have "normaliseAgentKey a = KeyText a" using None by (simp add: normaliseAgentKey_def)
    then show ?thesis using False assms by simp
  qed
next
  case (Some k)
  from normalise_family [OF Some] have k: "normaliseAgentKey a = KeyText k" "a \<notin> set OBJECT_PROPERTIES" "k \<in> set [''claude'', ''codex'', ''pi'']" by blast+
  show ?thesis using k(2) family_fixed [OF k(3)] unfolding k(1) by simp
qed

lemma no_empty_property: "'''' \<notin> set OBJECT_PROPERTIES"
  by (simp add: OBJECT_PROPERTIES_def)

text \<open>
  Filters written into the address of the page are read back as they were, with the query trimmed and cut to what
  the server accepts, whatever was chosen; and what is read from any address is such a choice, unless the address names
  an agent by a property that every object has.
\<close>

lemma filters_roundtrip:
  "(filters_typed f \<longrightarrow> parseSessionFilters (toSearchParams thing_text f) = f\<lparr>sf_q := take MAX_QUERY_LENGTH (js_trim (sf_q f))\<rparr>)
   \<and> (filters_typed (parseSessionFilters params) \<longleftrightarrow> (\<forall>a. jm_get params ''agent'' = Some a \<longrightarrow> a \<notin> set OBJECT_PROPERTIES))"
proof
  show "filters_typed f \<longrightarrow> parseSessionFilters (toSearchParams thing_text f) = f\<lparr>sf_q := take MAX_QUERY_LENGTH (js_trim (sf_q f))\<rparr>"
  proof
    assume f: "filters_typed f"
    have board: "non_empty (non_empty (sf_board f)) = sf_board f"
      using f by (cases "sf_board f") (auto simp: filters_typed_def non_empty_def)
    have q: "take MAX_QUERY_LENGTH (or_default (if js_trim (sf_q f) \<noteq> '''' then Some (js_trim (sf_q f)) else None) '''') = take MAX_QUERY_LENGTH (js_trim (sf_q f))"
      by (simp add: or_default_def)
    show "parseSessionFilters (toSearchParams thing_text f) = f\<lparr>sf_q := take MAX_QUERY_LENGTH (js_trim (sf_q f))\<rparr>"
      using f agent_back [of "sf_agent f" thing_text] one_of_default [of "sf_period f" PERIODS DEFAULT_PERIOD] one_of_default [of "sf_sort f" SESSION_SORTS DEFAULT_SORT]
        one_of_state [OF _ no_empty_state, of "sf_state f"]
      by (intro session_filters.equality) (simp_all add: parseSessionFilters_def params_get filters_typed_def board q del: not_None_eq)
  qed
next
  have in_default: "or_default (oneOf v allowed) d \<in> set allowed" if "d \<in> set allowed" for v allowed d
    using that by (auto simp: or_default_def oneOf_def split: option.split)
  have "DEFAULT_PERIOD \<in> set PERIODS" "DEFAULT_SORT \<in> set SESSION_SORTS"
    by (simp_all add: DEFAULT_PERIOD_def PERIODS_def DEFAULT_SORT_def SESSION_SORTS_def)
  moreover have "case oneOf v allowed of None \<Rightarrow> True | Some s \<Rightarrow> s \<in> set allowed" for v allowed
    by (auto simp: oneOf_def split: option.split)
  moreover have "non_empty v \<noteq> Some ''''" for v by (auto simp: non_empty_def split: option.split)
  ultimately have typed: "filters_typed (parseSessionFilters params) \<longleftrightarrow>
      (case map_option normaliseAgentKey (non_empty (jm_get params ''agent'')) of None \<Rightarrow> True
       | Some (KeyText k) \<Rightarrow> k \<noteq> '''' \<and> normaliseAgentKey k = KeyText k | Some (KeyThing _) \<Rightarrow> False)"
    by (simp add: filters_typed_def parseSessionFilters_def in_default)
  have key: "(case normaliseAgentKey a of KeyText k \<Rightarrow> k \<noteq> '''' \<and> normaliseAgentKey k = KeyText k | KeyThing _ \<Rightarrow> False) \<longleftrightarrow> a \<notin> set OBJECT_PROPERTIES"
    if "a \<noteq> ''''" for a
    using that normalise_back by blast
  show "filters_typed (parseSessionFilters params) \<longleftrightarrow> (\<forall>a. jm_get params ''agent'' = Some a \<longrightarrow> a \<notin> set OBJECT_PROPERTIES)"
    unfolding typed using key no_empty_property by (auto simp: non_empty_def split: option.splits)
qed

text \<open>The address can name a property of every object; the agent filter is then no text.\<close>

lemma agent_of_object_property:
  "sf_agent (parseSessionFilters [(''agent'', ''constructor'')]) = Some (KeyThing ''constructor'')"
  by code_simp

end
