(* ===== verification/Session_Excerpt.thy ===== *)
theory Session_Excerpt
  imports JS_Text
begin

text \<open>
  The Markdown document of an excerpt from a session, \<open>features/sessions/utils/excerpt.ts\<close>, and what a reader of
  Markdown finds in it. The translations and the origin of the page are parameters.
\<close>


section \<open>Rows and values\<close>

record excerpt_item =
  xi_id :: string
  xi_occurred_at :: string
  xi_role :: string
  xi_channel :: string
  xi_render :: string
  xi_source_kind :: string
  xi_source_order :: int
  xi_coverage :: string
  xi_coverage_reason :: "string option"
  xi_replacements :: int
  xi_filter_version :: string
  xi_original_byte_count :: "int option"

record excerpt_session =
  xs_id :: string
  xs_title :: "string option"
  xs_harness :: string
  xs_harness_display_name :: string

datatype field_value = TextValue string | NumberValue int | NullValue

definition show_int :: "int \<Rightarrow> string" where
  "show_int i = (if i < 0 then ''-'' @ show_nat (nat (- i)) else show_nat (nat i))"

fun field_text :: "field_value \<Rightarrow> string" where
  "field_text (TextValue s) = s"
| "field_text (NumberValue i) = show_int i"
| "field_text NullValue = ''''"

definition optional_text :: "string option \<Rightarrow> field_value" where
  "optional_text opt = (case opt of Some s \<Rightarrow> TextValue s | None \<Rightarrow> NullValue)"

definition canExcerpt :: "'a excerpt_item_scheme \<Rightarrow> bool" where
  "canExcerpt item = (xi_channel item \<noteq> ''attachment'' \<and> xi_render item = ''text'' \<and>
     xi_coverage item \<in> set [''captured'', ''truncated'', ''partially_redacted''])"

definition utf8Bytes :: "string \<Rightarrow> nat" where
  "utf8Bytes s = sum_list (map (\<lambda>c. if of_char c < (128 :: nat) then 1 else 2) s)"


section \<open>The document\<close>

abbreviation newline :: char where
  "newline \<equiv> CHR 0x0A"

abbreviation tick :: char where
  "tick \<equiv> CHR 0x60"

text \<open>The lengths of the runs of backticks, with the length of the run that is being read.\<close>

fun tick_runs :: "nat \<Rightarrow> string \<Rightarrow> nat list" where
  "tick_runs n [] = (if n > 0 then [n] else [])"
| "tick_runs n (c # cs) = (if c = tick then tick_runs (Suc n) cs else (if n > 0 then [n] else []) @ tick_runs 0 cs)"

definition longest_run :: "string \<Rightarrow> nat" where
  "longest_run s = fold max (tick_runs 0 s) 0"

definition delimiter :: "string \<Rightarrow> nat \<Rightarrow> string" where
  "delimiter s minimum = replicate (max minimum (longest_run s + 1)) tick"

definition one_line :: "string \<Rightarrow> string" where
  "one_line s = map (\<lambda>c. if c \<in> set [CHR 0x0D, newline, CHR 0x09] then CHR '' '' else c) s"

definition metadata :: "field_value \<Rightarrow> string" where
  "metadata v = (let line = one_line (field_text v); fence = delimiter line 1 in fence @ '' '' @ line @ '' '' @ fence)"

definition bodyBlock :: "string \<Rightarrow> string" where
  "bodyBlock s = (let fence = delimiter s 3 in fence @ ''text'' @ [newline] @ s @ [newline] @ fence)"

definition label_key :: "string \<Rightarrow> string" where
  "label_key key = ''sessions.contents.excerpt.document.'' @ key"

definition excerpt_field :: "(string \<Rightarrow> string) \<Rightarrow> string \<Rightarrow> field_value \<Rightarrow> string" where
  "excerpt_field t key v = ''- '' @ t (label_key key) @ '': '' @ metadata v"

definition excerpt_url :: "string \<Rightarrow> string \<Rightarrow> excerpt_session \<Rightarrow> string" where
  "excerpt_url origin slug session = origin @ ''/'' @ encodeURIComponent slug @ ''/sessions/'' @ encodeURIComponent (xs_id session)"

definition item_fields :: "(string \<Rightarrow> string) \<Rightarrow> string \<Rightarrow> excerpt_item \<Rightarrow> string \<Rightarrow> string list" where
  "item_fields t url item body =
     [excerpt_field t ''time'' (TextValue (xi_occurred_at item)), excerpt_field t ''role'' (TextValue (xi_role item)),
      excerpt_field t ''channel'' (TextValue (xi_channel item)), excerpt_field t ''source'' (TextValue (xi_source_kind item)),
      excerpt_field t ''order'' (NumberValue (xi_source_order item)), excerpt_field t ''coverage'' (TextValue (xi_coverage item))] @
     (case xi_coverage_reason item of Some r \<Rightarrow> if r \<noteq> '''' then [excerpt_field t ''reason'' (TextValue r)] else [] | None \<Rightarrow> []) @
     [excerpt_field t ''redactions'' (NumberValue (xi_replacements item))] @
     (if xi_filter_version item \<noteq> '''' then [excerpt_field t ''filter'' (TextValue (xi_filter_version item))] else []) @
     (case xi_original_byte_count item of Some n \<Rightarrow> [excerpt_field t ''originalBytes'' (NumberValue n)] | None \<Rightarrow> []) @
     [excerpt_field t ''capturedBytes'' (NumberValue (int (utf8Bytes body))),
      ''- '' @ t (label_key ''link'') @ '': <'' @ url @ ''#content-'' @ encodeURIComponent (xi_id item) @ ''>'']"

definition item_section :: "(string \<Rightarrow> string) \<Rightarrow> string \<Rightarrow> excerpt_item \<times> string \<Rightarrow> string" where
  "item_section t url ib = js_join [newline, newline]
     [''## '' @ t (label_key ''item'') @ '' '' @ metadata (TextValue (xi_id (fst ib))),
      js_join [newline] (item_fields t url (fst ib) (snd ib)),
      bodyBlock (snd ib)]"

definition formatExcerpt :: "(string \<Rightarrow> string) \<Rightarrow> string \<Rightarrow> string \<Rightarrow> excerpt_session \<Rightarrow> (excerpt_item \<times> string) list \<Rightarrow> string" where
  "formatExcerpt t origin slug session bodies = js_join [newline, newline]
     ([''# '' @ t ''sessions.contents.excerpt.title'',
       t (label_key ''scope''),
       js_join [newline]
         [excerpt_field t ''session'' (TextValue (xs_id session)), excerpt_field t ''title'' (optional_text (xs_title session)),
          excerpt_field t ''agent'' (TextValue (if xs_harness_display_name session \<noteq> '''' then xs_harness_display_name session else xs_harness session))]] @
      map (item_section t (excerpt_url origin slug session)) bodies @
      [t (label_key ''excluded''), ''''])"


section \<open>A reader of Markdown\<close>

text \<open>
  Fenced code blocks as CommonMark defines them: at most three spaces, a run of at least three backticks or tildes,
  and an information string (without backticks, after backticks); closed by a line with only a run of the same
  character that is at least as long, or by the document.
\<close>

definition run_length :: "char \<Rightarrow> string \<Rightarrow> nat" where
  "run_length c s = length (takeWhile (\<lambda>x. x = c) s)"

definition indented :: "string \<Rightarrow> string option" where
  "indented line = (if run_length (CHR '' '') line \<le> 3 then Some (dropWhile (\<lambda>x. x = CHR '' '') line) else None)"

definition open_fence :: "string \<Rightarrow> (char \<times> nat) option" where
  "open_fence line = (case indented line of
     None \<Rightarrow> None
   | Some l \<Rightarrow>
       if run_length tick l \<ge> 3 \<and> tick \<notin> set (drop (run_length tick l) l) then Some (tick, run_length tick l)
       else if run_length (CHR ''~'') l \<ge> 3 then Some (CHR ''~'', run_length (CHR ''~'') l)
       else None)"

definition closes_fence :: "char \<times> nat \<Rightarrow> string \<Rightarrow> bool" where
  "closes_fence f line = (case indented line of
     None \<Rightarrow> False
   | Some l \<Rightarrow> run_length (fst f) l \<ge> snd f \<and> set (drop (run_length (fst f) l) l) \<subseteq> {CHR '' '', CHR 0x09})"

fun code_blocks :: "((char \<times> nat) \<times> string list) option \<Rightarrow> string list \<Rightarrow> string list" where
  "code_blocks None [] = []"
| "code_blocks (Some (f, body)) [] = [js_join [newline] body]"
| "code_blocks None (line # rest) = code_blocks (map_option (\<lambda>f. (f, [])) (open_fence line)) rest"
| "code_blocks (Some (f, body)) (line # rest) =
     (if closes_fence f line then js_join [newline] body # code_blocks None rest else code_blocks (Some (f, body @ [line])) rest)"

definition blocks_of_markdown :: "string \<Rightarrow> string list" where
  "blocks_of_markdown document = code_blocks None (js_split newline document)"

section \<open>Runs of backticks\<close>

lemma fold_max_ge: "m \<le> fold max xs m \<and> (\<forall>r\<in>set xs. r \<le> fold max xs (m :: nat))"
proof (induction xs arbitrary: m)
  case (Cons x xs)
  from Cons.IH [of "max x m"] show ?case by auto
qed simp

lemma longest_run_ge: "r \<in> set (tick_runs 0 s) \<Longrightarrow> r \<le> longest_run s"
  using fold_max_ge by (simp add: longest_run_def)

lemma tick_runs_more: "\<exists>r\<in>set (tick_runs j s). n \<le> r \<Longrightarrow> j \<le> k \<Longrightarrow> \<exists>r\<in>set (tick_runs k s). n \<le> r"
proof (induction s arbitrary: j k)
  case Nil
  then show ?case by (auto split: if_splits)
next
  case (Cons c s)
  show ?case
  proof (cases "c = tick")
    case True
    then show ?thesis using Cons.IH [of "Suc j" "Suc k"] Cons.prems by simp
  next
    case False
    then show ?thesis using Cons.prems by (auto split: if_splits intro: order_trans)
  qed
qed

lemma tick_runs_start: "0 < k \<Longrightarrow> \<exists>r\<in>set (tick_runs k s). k \<le> r"
proof (induction s arbitrary: k)
  case (Cons c s)
  show ?case
  proof (cases "c = tick")
    case True
    have "\<exists>r\<in>set (tick_runs (Suc k) s). Suc k \<le> r" using Cons.IH by blast
    then show ?thesis using True by (auto intro: Suc_leD)
  next
    case False
    then show ?thesis using Cons.prems by simp
  qed
qed simp

lemma tick_runs_replicate: "tick_runs k (replicate n tick @ s) = tick_runs (k + n) s"
  by (induction n arbitrary: k) simp_all

lemma long_run_occurs: "occurs (replicate n tick) s \<Longrightarrow> n \<le> longest_run s"
proof (cases "n = 0")
  case False
  assume "occurs (replicate n tick) s"
  then obtain pre post where s: "s = pre @ replicate n tick @ post" by (auto simp: occurs_def)
  have "\<exists>r\<in>set (tick_runs 0 (pre @ replicate n tick @ post)). n \<le> r"
  proof (induction pre)
    case Nil
    show ?case using tick_runs_start [of n post] False by (simp add: tick_runs_replicate)
  next
    case (Cons c pre)
    then show ?case using tick_runs_more [of 0 "pre @ replicate n tick @ post" n "Suc 0"] by simp
  qed
  then show ?thesis using longest_run_ge s by (metis le_trans)
qed simp

lemma delimiter_not_inside: "\<not> occurs (delimiter s m) s"
  using long_run_occurs [of "max m (longest_run s + 1)" s] by (auto simp: delimiter_def)

section \<open>The document keeps the text apart\<close>

text \<open>A part of the document shows these code blocks and leaves the reader where it was, whatever follows.\<close>

definition reads :: "string \<Rightarrow> string list \<Rightarrow> bool" where
  "reads part blocks = (\<forall>rest. code_blocks None (js_split newline part @ rest) = blocks @ code_blocks None rest)"

lemma js_split_at: "js_split c (a @ c # b) = js_split c a @ js_split c b"
proof (induction a)
  case (Cons x a)
  then show ?case using js_split_ne [of c a] by (auto split: list.split)
qed simp

lemma js_split_single: "c \<notin> set s \<Longrightarrow> js_split c s = [s]"
  by (induction s) auto

lemma reads_append: "reads a xs \<Longrightarrow> reads b ys \<Longrightarrow> reads (a @ [newline] @ b) (xs @ ys)"
  by (simp add: reads_def js_split_at)

lemma reads_empty: "reads [] []"
  by (simp add: reads_def open_fence_def indented_def run_length_def)

lemma reads_join:
  assumes "list_all2 reads parts blocks" "parts \<noteq> []"
  shows "reads (js_join [newline] parts) (concat blocks)"
  using assms
proof (induction parts blocks rule: list_all2_induct)
  case (Cons p ps b bs)
  then show ?case by (cases ps) (auto dest: reads_append)
qed simp

lemma reads_join2:
  assumes "list_all2 reads parts blocks" "parts \<noteq> []"
  shows "reads (js_join [newline, newline] parts) (concat blocks)"
  using assms
proof (induction parts blocks rule: list_all2_induct)
  case (Cons p ps b bs)
  show ?case
  proof (cases ps)
    case Nil
    then show ?thesis using Cons by simp
  next
    case (Cons q qs)
    have "reads (js_join [newline, newline] ps) (concat bs)" using Cons.IH Cons by simp
    from reads_append [OF reads_empty this] have "reads (newline # js_join [newline, newline] ps) (concat bs)" by simp
    from reads_append [OF Cons.hyps(1) this] show ?thesis using Cons by simp
  qed
qed simp

text \<open>A line that starts with a character other than a space, a backtick and a tilde opens no block.\<close>

lemma open_fence_other: "c \<notin> set '' `~'' \<Longrightarrow> open_fence (c # cs) = None"
  by (simp add: open_fence_def indented_def run_length_def)

lemma open_fence_plain: "set line \<inter> set ''`~'' = {} \<Longrightarrow> open_fence line = None"
proof -
  assume line: "set line \<inter> set ''`~'' = {}"
  have "set (dropWhile (\<lambda>x. x = CHR '' '') line) \<inter> set ''`~'' = {}"
    using line set_dropWhileD by fastforce
  moreover have "set l \<inter> set ''`~'' = {} \<Longrightarrow> run_length tick l = 0 \<and> run_length (CHR ''~'') l = 0" for l
    by (cases l) (auto simp: run_length_def)
  ultimately show ?thesis by (simp add: open_fence_def indented_def)
qed

lemma reads_line: "newline \<notin> set line \<Longrightarrow> open_fence line = None \<Longrightarrow> reads line []"
  by (simp add: reads_def js_split_single)

lemma run_length_replicate: "run_length c (replicate n c @ s) = n + run_length c s"
  by (induction n) (simp_all add: run_length_def)

lemma indented_other: "c \<noteq> CHR '' '' \<Longrightarrow> indented (c # cs) = Some (c # cs)"
  by (simp add: indented_def run_length_def)

lemma indented_fence: "indented (replicate (Suc n) tick @ s) = Some (replicate (Suc n) tick @ s)"
  by (simp add: indented_other)

lemma opening_line: "3 \<le> n \<Longrightarrow> open_fence (replicate n tick @ ''text'') = Some (tick, n)"
proof -
  assume "3 \<le> n"
  then obtain m where n: "n = Suc m" by (cases n) auto
  have "run_length tick (replicate n tick @ ''text'') = n" by (simp only: run_length_replicate) (simp add: run_length_def)
  moreover have "indented (replicate n tick @ ''text'') = Some (replicate n tick @ ''text'')" unfolding n by (rule indented_fence)
  ultimately show ?thesis using \<open>3 \<le> n\<close> by (simp add: open_fence_def)
qed

lemma closing_line: "0 < n \<Longrightarrow> closes_fence (tick, n) (replicate n tick)"
proof -
  assume "0 < n"
  then obtain m where n: "n = Suc m" by (cases n) auto
  have "run_length tick (replicate n tick @ []) = n" by (simp only: run_length_replicate) (simp add: run_length_def)
  moreover have "indented (replicate n tick @ []) = Some (replicate n tick @ [])" unfolding n by (rule indented_fence)
  ultimately show ?thesis by (simp add: closes_fence_def)
qed

lemma takeWhile_same: "takeWhile (\<lambda>x. x = c) s = replicate (run_length c s) c"
  by (induction s) (simp_all add: run_length_def)

text \<open>A line that closes a block holds a run of backticks of the length of its fence.\<close>

lemma closes_occurs: "closes_fence (tick, n) line \<Longrightarrow> occurs (replicate n tick) line"
proof -
  assume "closes_fence (tick, n) line"
  then obtain l where l: "indented line = Some l" "n \<le> run_length tick l"
    by (auto simp: closes_fence_def split: option.splits)
  have "replicate (run_length tick l) tick = replicate n tick @ replicate (run_length tick l - n) tick"
    using l(2) by (simp flip: replicate_add)
  then have run: "l = replicate n tick @ replicate (run_length tick l - n) tick @ dropWhile (\<lambda>x. x = tick) l"
    using takeWhile_dropWhile_id [of "\<lambda>x. x = tick" l] takeWhile_same [of tick l] by (metis append.assoc)
  have "line = takeWhile (\<lambda>x. x = CHR '' '') line @ l"
    using l(1) by (simp add: indented_def split: if_splits) (metis takeWhile_dropWhile_id)
  with run show ?thesis unfolding occurs_def by (metis append.assoc)
qed

lemma split_line_occurs: "line \<in> set (js_split c s) \<Longrightarrow> occurs line s"
proof (induction s arbitrary: line)
  case Nil
  then show ?case by (simp add: occurs_def)
next
  case (Cons x s)
  obtain p ps where ps: "js_split c s = p # ps" using js_split_ne [of c s] by (cases "js_split c s") auto
  have first: "\<exists>rest. s = p @ rest" using js_join_head [of "js_split c s" "[c]"] js_split_join [of c s] ps by simp
  have inner: "line \<in> set (js_split c s) \<Longrightarrow> occurs line (x # s)"
    using Cons.IH unfolding occurs_def by (metis append_Cons)
  consider "x = c" "line = []" | "line \<in> set (js_split c s)" | "x \<noteq> c" "line = x # p"
    using Cons.prems ps by (auto split: if_splits)
  then show ?case
  proof cases
    case 1
    then show ?thesis unfolding occurs_def by (metis append_Nil)
  next
    case 2
    then show ?thesis by (rule inner)
  next
    case 3
    then show ?thesis using first unfolding occurs_def by (metis append_Cons append_Nil)
  qed
qed

lemma occurs_trans: "occurs a b \<Longrightarrow> occurs b c \<Longrightarrow> occurs a c"
  unfolding occurs_def by (metis append.assoc)

lemma body_lines: "list_all (\<lambda>l. \<not> closes_fence f l) lines \<Longrightarrow> closes_fence f last_line \<Longrightarrow>
    code_blocks (Some (f, body)) (lines @ last_line # rest) = js_join [newline] (body @ lines) # code_blocks None rest"
  by (induction lines arbitrary: body) simp_all

lemma newline_delimiter: "newline \<notin> set (delimiter s m)"
  by (simp add: delimiter_def)

lemma reads_body: "reads (bodyBlock s) [s]"
proof -
  obtain n where fence: "delimiter s 3 = replicate n tick" and n: "3 \<le> n"
    using that [of "max 3 (longest_run s + 1)"] by (simp only: delimiter_def)
  have "bodyBlock s = (replicate n tick @ ''text'') @ newline # s @ newline # replicate n tick"
    by (simp add: bodyBlock_def fence Let_def)
  then have lines: "js_split newline (bodyBlock s) = (replicate n tick @ ''text'') # js_split newline s @ [replicate n tick]"
    by (simp only: js_split_at) (simp add: js_split_single)
  have "\<not> closes_fence (tick, n) l" if "l \<in> set (js_split newline s)" for l
    using that closes_occurs split_line_occurs occurs_trans delimiter_not_inside [of s 3] unfolding fence by blast
  then have open_lines: "list_all (\<lambda>l. \<not> closes_fence (tick, n) l) (js_split newline s)" by (simp add: list_all_iff)
  have "closes_fence (tick, n) (replicate n tick)" by (rule closing_line) (use n in simp)
  from body_lines [OF open_lines this]
  have "code_blocks (Some ((tick, n), [])) (js_split newline s @ replicate n tick # rest) = s # code_blocks None rest" for rest
    by (simp add: js_split_join)
  then show ?thesis unfolding reads_def lines by (simp add: opening_line [OF n])
qed

definition plain :: "string \<Rightarrow> bool" where
  "plain s = (set s \<inter> set [newline, tick, CHR ''~''] = {})"

lemma reads_plain: "plain s \<Longrightarrow> reads s []"
  by (rule reads_line) (auto simp: plain_def intro!: open_fence_plain)

lemma newline_metadata: "newline \<notin> set (metadata v)"
  by (auto simp: metadata_def Let_def newline_delimiter one_line_def)

lemma newline_encoded: "newline \<notin> set (encodeURIComponent s)"
proof
  assume "newline \<in> set (encodeURIComponent s)"
  from encodeURIComponent_chars [OF this] show False by (simp add: unreserved_def)
qed

lemma reads_dash: "newline \<notin> set line \<Longrightarrow> reads (CHR ''-'' # line) []"
  by (rule reads_line) (simp_all add: open_fence_other)

lemma reads_hash: "newline \<notin> set line \<Longrightarrow> reads (CHR ''#'' # line) []"
  by (rule reads_line) (simp_all add: open_fence_other)

lemma reads_field: "plain (t (label_key key)) \<Longrightarrow> reads (excerpt_field t key v) []"
  using newline_metadata [of v] by (auto simp: excerpt_field_def plain_def intro!: reads_dash)

lemma concat_nothing: "concat (map (\<lambda>_. []) xs) = []"
  by (induction xs) simp_all

lemma reads_silent: "list_all (\<lambda>p. reads p []) parts \<Longrightarrow> parts \<noteq> [] \<Longrightarrow> reads (js_join [newline] parts) []"
  using reads_join [of parts "map (\<lambda>_. []) parts"] by (simp add: list_all2_map2 list_all2_same list_all_iff concat_nothing)

lemma reads_section:
  assumes t: "\<And>k. plain (t k)" and url: "newline \<notin> set url"
  shows "reads (item_section t url ib) [snd ib]"
proof -
  have link: "reads (''- '' @ t (label_key ''link'') @ '': <'' @ url @ ''#content-'' @ encodeURIComponent (xi_id item) @ ''>'') []" for item
    using t [of "label_key ''link''"] url newline_encoded [of "xi_id item"] by (auto simp: plain_def intro!: reads_dash)
  have rows: "list_all (\<lambda>p. reads p []) (item_fields t url item body)" for item body
    using t link [of item] by (simp add: item_fields_def reads_field split: option.split)
  have header: "reads (''## '' @ t (label_key ''item'') @ '' '' @ metadata v) []" for v
    using t [of "label_key ''item''"] newline_metadata [of v] by (auto simp: plain_def intro!: reads_hash)
  have "list_all2 reads
      [''## '' @ t (label_key ''item'') @ '' '' @ metadata (TextValue (xi_id (fst ib))), js_join [newline] (item_fields t url (fst ib) (snd ib)), bodyBlock (snd ib)]
      [[], [], [snd ib]]"
    using header reads_silent [OF rows] reads_body by (simp add: item_fields_def)
  from reads_join2 [OF this] show ?thesis by (simp add: item_section_def)
qed


definition sample_excerpt_item :: excerpt_item where
  "sample_excerpt_item = \<lparr>xi_id = ''1`'', xi_occurred_at = ''2026-01-01T00:00:00Z'', xi_role = ''tool'', xi_channel = ''tool_output'', xi_render = ''text'',
     xi_source_kind = ''hook'', xi_source_order = 1, xi_coverage = ''captured'', xi_coverage_reason = None, xi_replacements = 0, xi_filter_version = '''', xi_original_byte_count = None\<rparr>"


end
