(* ===== verification/Handoff_Drafts.thy ===== *)
theory Handoff_Drafts
  imports Session_Excerpt Event_System
begin

text \<open>
  The drafts of notes made from excerpts, \<open>features/sessions/hooks/use-handoff-drafts.tsx\<close>: a store in memory that
  outlives the pages, with limits on what it retains, and the events that empty it. A draft has an identity, since the
  code compares drafts by reference; of the form of a draft only the texts that count as retained are told apart from
  the rest.
\<close>


section \<open>State\<close>

record handoff_item = excerpt_item +
  hi_preview :: "string option"

record excerpt_draft =
  ed_ref :: nat
  ed_fingerprint :: string
  ed_bodies :: "(handoff_item \<times> string) list"
  ed_document :: string

record handoff_form =
  hf_title :: string
  hf_content :: string
  hf_request :: "string option option"
  hf_other :: json

type_synonym selection = "(string, handoff_item) jsmap"

record handoff_session =
  hs_selected :: selection
  hs_draft :: "excerpt_draft option"
  hs_form :: "handoff_form option"

definition EMPTY_SESSION :: handoff_session where
  "EMPTY_SESSION = \<lparr>hs_selected = [], hs_draft = None, hs_form = None\<rparr>"

definition HANDOFF_MAX_DRAFTS :: nat where
  "HANDOFF_MAX_DRAFTS = 5"

definition HANDOFF_MAX_BYTES :: nat where
  "HANDOFF_MAX_BYTES = 32 * 1024 * 1024"

definition HANDOFF_MAX_SELECTIONS :: nat where
  "HANDOFF_MAX_SELECTIONS = 1024"

definition MAX_SESSION_SELECTIONS :: nat where
  "MAX_SESSION_SELECTIONS = 20"

record draft_store =
  ds_sessions :: "(string, handoff_session) jsmap"
  ds_revision :: nat
  ds_active :: bool

definition new_store :: draft_store where
  "new_store = \<lparr>ds_sessions = [], ds_revision = 0, ds_active = True\<rparr>"


section \<open>The store\<close>

definition retained_texts :: "handoff_session \<Rightarrow> string list" where
  "retained_texts state =
     (case hs_draft state of Some d \<Rightarrow> ed_document d # map snd (ed_bodies d) | None \<Rightarrow> []) @
     (case hs_form state of Some f \<Rightarrow> [hf_content f, hf_title f] @
        (case hf_request f of Some content \<Rightarrow> [case content of Some s \<Rightarrow> s | None \<Rightarrow> ''''] | None \<Rightarrow> []) | None \<Rightarrow> [])"

definition retainedBytes :: "handoff_session \<Rightarrow> nat" where
  "retainedBytes state = sum_list (map utf8Bytes (js_unique (retained_texts state)))"

definition read_session :: "draft_store \<Rightarrow> string \<Rightarrow> handoff_session" where
  "read_session store key = (case jm_get (ds_sessions store) key of Some s \<Rightarrow> s | None \<Rightarrow> EMPTY_SESSION)"

definition current_draft :: "draft_store \<Rightarrow> string \<Rightarrow> excerpt_draft \<Rightarrow> bool" where
  "current_draft store key draft = (ds_active store \<and> map_option ed_ref (hs_draft (read_session store key)) = Some (ed_ref draft))"

definition hasDrafts :: "draft_store \<Rightarrow> bool" where
  "hasDrafts store = list_ex (\<lambda>s. hs_draft s \<noteq> None) (jm_values (ds_sessions store))"

definition stored_bytes :: "draft_store \<Rightarrow> nat" where
  "stored_bytes store = sum_list (map retainedBytes (jm_values (ds_sessions store)))"

definition store_changed :: "draft_store \<Rightarrow> draft_store" where
  "store_changed store = store\<lparr>ds_revision := ds_revision store + 1\<rparr>"

definition write_session :: "string \<Rightarrow> handoff_session \<Rightarrow> draft_store \<Rightarrow> bool \<times> draft_store" where
  "write_session key state store =
     (let others = map snd (filter (\<lambda>kv. fst kv \<noteq> key) (ds_sessions store)) in
      if \<not> ds_active store then (False, store)
      else if length (hs_selected state) > HANDOFF_MAX_SELECTIONS then (False, store)
      else if \<not> jm_has (ds_sessions store) key \<and> length others \<ge> MAX_SESSION_SELECTIONS then (False, store)
      else if hs_draft state \<noteq> None \<and> length (filter (\<lambda>s. hs_draft s \<noteq> None) others) \<ge> HANDOFF_MAX_DRAFTS then (False, store)
      else if retainedBytes state + sum_list (map retainedBytes others) > HANDOFF_MAX_BYTES then (False, store)
      else (True, store_changed (store\<lparr>ds_sessions :=
        (if hs_draft state = None \<and> hs_selected state = [] then jm_delete key (ds_sessions store)
         else jm_set key state (ds_sessions store))\<rparr>)))"

definition clear_session :: "string \<Rightarrow> draft_store \<Rightarrow> draft_store" where
  "clear_session key store =
     (if jm_has (ds_sessions store) key then store_changed (store\<lparr>ds_sessions := jm_delete key (ds_sessions store)\<rparr>) else store)"

definition dispose_store :: "draft_store \<Rightarrow> draft_store" where
  "dispose_store store = store_changed (store\<lparr>ds_active := False, ds_sessions := []\<rparr>)"

definition activate_store :: "draft_store \<Rightarrow> draft_store" where
  "activate_store store = store\<lparr>ds_active := True\<rparr>"


section \<open>What the pages do\<close>

definition without_preview :: "handoff_item \<Rightarrow> handoff_item" where
  "without_preview item = item\<lparr>hi_preview := None\<rparr>"

definition select_items :: "string \<Rightarrow> selection \<Rightarrow> draft_store \<Rightarrow> bool \<times> draft_store" where
  "select_items key selected store =
     write_session key ((read_session store key)\<lparr>hs_selected := map (\<lambda>(i, item). (i, without_preview item)) selected\<rparr>) store"

definition setDraft :: "string \<Rightarrow> excerpt_draft option \<Rightarrow> draft_store \<Rightarrow> bool \<times> draft_store" where
  "setDraft key draft store = (let current = read_session store key in
     if map_option ed_ref draft = map_option ed_ref (hs_draft current) then (True, store)
     else write_session key (current\<lparr>hs_draft := draft, hs_form := None\<rparr>) store)"

definition setForm :: "string \<Rightarrow> excerpt_draft \<Rightarrow> handoff_form \<Rightarrow> draft_store \<Rightarrow> bool \<times> draft_store" where
  "setForm key draft form store =
     (if current_draft store key draft then write_session key ((read_session store key)\<lparr>hs_form := Some form\<rparr>) store else (False, store))"

definition getForm :: "string \<Rightarrow> excerpt_draft \<Rightarrow> draft_store \<Rightarrow> handoff_form option" where
  "getForm key draft store = (if current_draft store key draft then hs_form (read_session store key) else None)"


section \<open>What the query cache and the account do\<close>

datatype query_data = NoData | NullData | MetadataOf "string list option" "handoff_item list option" | OtherData

record query_update =
  qu_key :: "json list"
  qu_error_status :: "int option"
  qu_succeeded :: bool
  qu_data :: query_data

definition source_ids :: "handoff_session \<Rightarrow> string list" where
  "source_ids retained = map fst (hs_selected retained) @
     (case hs_draft retained of Some d \<Rightarrow> map (xi_id \<circ> fst) (ed_bodies d) | None \<Rightarrow> [])"

definition key_at :: "query_update \<Rightarrow> nat \<Rightarrow> string option" where
  "key_at q i = (if i < length (qu_key q) then jstr (Some (qu_key q ! i)) else None)"

definition withdrawn :: "handoff_session \<Rightarrow> query_data \<Rightarrow> bool" where
  "withdrawn retained data = (case data of
     MetadataOf unavailable items \<Rightarrow>
       (case unavailable of Some is \<Rightarrow> list_ex (\<lambda>i. i \<in> set (source_ids retained)) is | None \<Rightarrow> False) \<or>
       (case items of Some rows \<Rightarrow> list_ex (\<lambda>item. xi_id item \<in> set (source_ids retained) \<and> \<not> canExcerpt item) rows | None \<Rightarrow> False)
   | _ \<Rightarrow> False)"

definition query_updated :: "query_update \<Rightarrow> draft_store \<Rightarrow> draft_store" where
  "query_updated q store =
     (if key_at q 0 \<noteq> Some ''sessions'' \<or> key_at q 2 \<noteq> Some ''detail'' then store
      else case (key_at q 1, key_at q 3) of
        (Some slug, Some session) \<Rightarrow>
          let sessionDetail = (length (qu_key q) = 4);
              selectedMetadata = (key_at q 4 = Some ''contents'' \<and> key_at q 5 = Some ''selected-metadata'');
              denied = (case qu_error_status q of Some status \<Rightarrow> status \<in> set [401, 403, 404] | None \<Rightarrow> False);
              removed = (sessionDetail \<and> qu_succeeded q \<and> qu_data q = NullData);
              identity = slug @ ''/'' @ session;
              gone = (selectedMetadata \<and> withdrawn (read_session store identity) (qu_data q))
          in if \<not> sessionDetail \<and> \<not> selectedMetadata then store
             else if denied \<or> removed \<or> gone then clear_session identity store else store
      | _ \<Rightarrow> store)"

text \<open>
  \<open>HandoffDraftProvider\<close>: the account whose drafts these are. A change of account renders with a new store; the
  effect of the rendered scope then activates or disposes it, and the store of the scope before is disposed.
\<close>

record handoff_world =
  hw_ownerId :: "string option"
  hw_generation :: nat
  hw_store :: draft_store

definition owner_effect :: "string option \<Rightarrow> draft_store \<Rightarrow> draft_store" where
  "owner_effect ownerId store = (if ownerId \<noteq> None \<and> ownerId \<noteq> Some '''' then activate_store store else dispose_store store)"

definition handoff_start :: "string option \<Rightarrow> handoff_world" where
  "handoff_start ownerId = \<lparr>hw_ownerId = ownerId, hw_generation = 0, hw_store = owner_effect ownerId new_store\<rparr>"

definition render_owner :: "string option \<Rightarrow> handoff_world \<Rightarrow> handoff_world" where
  "render_owner ownerId w =
     (if hw_ownerId w \<noteq> ownerId then
        let initialHydration = (hw_ownerId w = None \<and> hw_generation w = 0)
        in \<lparr>hw_ownerId = ownerId, hw_generation = hw_generation w + (if initialHydration then 0 else 1), hw_store = owner_effect ownerId new_store\<rparr>
      else w)"

datatype handoff_event =
    SelectItems string selection
  | SetDraft string "excerpt_draft option"
  | SetForm string excerpt_draft handoff_form
  | ClearSession string
  | QueryUpdated query_update
  | RenderOwner "string option"

fun handoff_step :: "handoff_event \<Rightarrow> handoff_world \<Rightarrow> handoff_world option" where
  "handoff_step (SelectItems key selected) w = given (distinct (map fst selected)) (w\<lparr>hw_store := snd (select_items key selected (hw_store w))\<rparr>)"
| "handoff_step (SetDraft key draft) w = Some (w\<lparr>hw_store := snd (setDraft key draft (hw_store w))\<rparr>)"
| "handoff_step (SetForm key draft form) w = Some (w\<lparr>hw_store := snd (setForm key draft form (hw_store w))\<rparr>)"
| "handoff_step (ClearSession key) w = Some (w\<lparr>hw_store := clear_session key (hw_store w)\<rparr>)"
| "handoff_step (QueryUpdated q) w = Some (w\<lparr>hw_store := query_updated q (hw_store w)\<rparr>)"
| "handoff_step (RenderOwner ownerId) w = Some (render_owner ownerId w)"

section \<open>What is retained is bounded\<close>

text \<open>A sum over the entries after one was set.\<close>

lemma sum_jm_set: "jm_ok m \<Longrightarrow> sum_list (map f (jm_values (jm_set k v m))) = (f v :: nat) + sum_list (map f (map snd (filter (\<lambda>kv. fst kv \<noteq> k) m)))"
proof (induction k v m rule: jm_set.induct)
  case (2 k v k' v' m)
  have "k = k' \<Longrightarrow> filter (\<lambda>kv. fst kv \<noteq> k') m = m"
    using "2.prems" by (intro filter_True) (auto simp: jm_ok_def image_iff)
  then show ?case using 2 by (auto simp: jm_ok_def jm_values_def)
qed (simp add: jm_values_def)

lemma length_filter_sum: "length (filter P xs) = sum_list (map (\<lambda>x. if P x then 1 else 0) xs)"
  by (induction xs) simp_all

lemma length_sum: "length xs = sum_list (map (\<lambda>_. 1) xs)"
  by (induction xs) simp_all

lemma length_jm_set_has: "jm_has m k \<Longrightarrow> length (jm_set k v m) = length m"
  by (induction k v m rule: jm_set.induct) (auto simp: jm_has_def split: if_splits)

lemma set_jm_set: "set (jm_set k v m) \<subseteq> insert (k, v) (set m)"
  by (induction k v m rule: jm_set.induct) auto

definition session_ok :: "handoff_session \<Rightarrow> bool" where
  "session_ok s = (length (hs_selected s) \<le> HANDOFF_MAX_SELECTIONS \<and> list_all (\<lambda>kv. hi_preview (snd kv) = None) (hs_selected s) \<and>
     (hs_draft s = None \<longrightarrow> hs_form s = None))"

definition store_ok :: "draft_store \<Rightarrow> bool" where
  "store_ok store = (jm_ok (ds_sessions store) \<and> length (ds_sessions store) \<le> MAX_SESSION_SELECTIONS \<and>
     list_all (\<lambda>kv. session_ok (snd kv)) (ds_sessions store) \<and>
     length (filter (\<lambda>s. hs_draft s \<noteq> None) (jm_values (ds_sessions store))) \<le> HANDOFF_MAX_DRAFTS \<and>
     stored_bytes store \<le> HANDOFF_MAX_BYTES \<and>
     (\<not> ds_active store \<longrightarrow> ds_sessions store = []))"

lemma new_store_ok: "store_ok new_store"
  by (simp add: store_ok_def new_store_def stored_bytes_def jm_values_def jm_ok_def)

lemma EMPTY_ok [simp]: "session_ok EMPTY_SESSION"
  by (simp add: session_ok_def EMPTY_SESSION_def)

lemma read_ok: "store_ok store \<Longrightarrow> session_ok (read_session store key)"
  by (auto simp: store_ok_def read_session_def list_all_iff split: option.split dest!: map_of_SomeD)

lemma others_le: "sum_list (map f (map snd (filter P m))) \<le> (sum_list (map f (jm_values m)) :: nat)"
  by (induction m) (simp_all add: jm_values_def)

lemma delete_ok:
  assumes "store_ok store"
  shows "store_ok (store\<lparr>ds_sessions := jm_delete key (ds_sessions store), ds_revision := r\<rparr>)"
proof -
  let ?m = "ds_sessions store" and ?d = "jm_delete key (ds_sessions store)"
  have le: "sum_list (map f (jm_values ?d)) \<le> (sum_list (map f (jm_values ?m)) :: nat)" for f
    using others_le [of f "\<lambda>kv. fst kv \<noteq> key" ?m] by (simp add: jm_delete_def jm_values_def)
  have len: "length ?d \<le> length ?m" by (simp add: jm_delete_def)
  have drafts: "length (filter (\<lambda>s. hs_draft s \<noteq> None) (jm_values ?d)) \<le> length (filter (\<lambda>s. hs_draft s \<noteq> None) (jm_values ?m))"
    unfolding length_filter_sum by (rule le)
  have subset: "set ?d \<subseteq> set ?m" by (auto simp: jm_delete_def)
  show ?thesis using assms le [of retainedBytes] len drafts subset
    by (auto simp: store_ok_def stored_bytes_def list_all_iff)
qed

lemma set_ok:
  assumes "store_ok store" "session_ok state" "ds_active store"
    and others: "others = map snd (filter (\<lambda>kv. fst kv \<noteq> key) (ds_sessions store))"
    and room: "jm_has (ds_sessions store) key \<or> length others < MAX_SESSION_SELECTIONS"
    and drafts: "hs_draft state = None \<or> length (filter (\<lambda>s. hs_draft s \<noteq> None) others) < HANDOFF_MAX_DRAFTS"
    and bytes: "retainedBytes state + sum_list (map retainedBytes others) \<le> HANDOFF_MAX_BYTES"
  shows "store_ok (store\<lparr>ds_sessions := jm_set key state (ds_sessions store), ds_revision := r\<rparr>)"
proof -
  let ?m = "ds_sessions store"
  have ok: "jm_ok ?m" using assms(1) by (simp add: store_ok_def)
  note sum = sum_jm_set [OF ok, of _ key state, folded others]
  have "length (jm_values (jm_set key state ?m)) = 1 + length others" unfolding length_sum by (rule sum)
  moreover have "jm_has ?m key \<Longrightarrow> length (jm_set key state ?m) = length ?m" by (rule length_jm_set_has)
  ultimately have len: "length (jm_set key state ?m) \<le> MAX_SESSION_SELECTIONS"
    using room assms(1) by (auto simp: jm_values_def store_ok_def)
  have "length (filter (\<lambda>s. hs_draft s \<noteq> None) (jm_values (jm_set key state ?m))) =
      (if hs_draft state \<noteq> None then 1 else 0) + length (filter (\<lambda>s. hs_draft s \<noteq> None) others)"
    unfolding length_filter_sum by (rule sum)
  moreover have "length (filter (\<lambda>s. hs_draft s \<noteq> None) others) \<le> HANDOFF_MAX_DRAFTS"
    using assms(1) others_le [of "\<lambda>s. if hs_draft s \<noteq> None then 1 else 0" "\<lambda>kv. fst kv \<noteq> key" ?m]
    unfolding others store_ok_def length_filter_sum by linarith
  ultimately have few: "length (filter (\<lambda>s. hs_draft s \<noteq> None) (jm_values (jm_set key state ?m))) \<le> HANDOFF_MAX_DRAFTS"
    using drafts by auto
  have all: "list_all (\<lambda>kv. session_ok (snd kv)) (jm_set key state ?m)"
    using assms(1,2) set_jm_set [of key state ?m] by (auto simp: store_ok_def list_all_iff)
  show ?thesis using ok len few all bytes sum [of retainedBytes] assms(3)
    by (simp add: store_ok_def stored_bytes_def)
qed

definition write_allowed :: "string \<Rightarrow> handoff_session \<Rightarrow> draft_store \<Rightarrow> handoff_session list \<Rightarrow> bool" where
  "write_allowed key state store others = (ds_active store \<and> length (hs_selected state) \<le> HANDOFF_MAX_SELECTIONS \<and>
     (jm_has (ds_sessions store) key \<or> length others < MAX_SESSION_SELECTIONS) \<and>
     (hs_draft state = None \<or> length (filter (\<lambda>s. hs_draft s \<noteq> None) others) < HANDOFF_MAX_DRAFTS) \<and>
     retainedBytes state + sum_list (map retainedBytes others) \<le> HANDOFF_MAX_BYTES)"

lemma write_session_eq:
  assumes "others = map snd (filter (\<lambda>kv. fst kv \<noteq> key) (ds_sessions store))"
  shows "write_session key state store = (if write_allowed key state store others then
      (True, store\<lparr>ds_sessions := (if hs_draft state = None \<and> hs_selected state = [] then jm_delete key (ds_sessions store)
         else jm_set key state (ds_sessions store)), ds_revision := ds_revision store + 1\<rparr>) else (False, store))"
  unfolding write_session_def write_allowed_def Let_def assms [symmetric] by (simp add: store_changed_def not_le not_less)

lemma write_ok:
  assumes "store_ok store" "length (hs_selected state) \<le> HANDOFF_MAX_SELECTIONS \<Longrightarrow> session_ok state"
  shows "store_ok (snd (write_session key state store))"
proof -
  obtain others where others: "others = map snd (filter (\<lambda>kv. fst kv \<noteq> key) (ds_sessions store))" by simp
  show ?thesis
  proof (cases "write_allowed key state store others")
    case True
    then have "session_ok state" using assms(2) by (simp add: write_allowed_def)
    from set_ok [OF assms(1) this _ others] True
    have "store_ok (store\<lparr>ds_sessions := jm_set key state (ds_sessions store), ds_revision := ds_revision store + 1\<rparr>)"
      by (simp add: write_allowed_def)
    with True show ?thesis using delete_ok [OF assms(1)] unfolding write_session_eq [OF others] by simp
  next
    case False
    with assms(1) show ?thesis unfolding write_session_eq [OF others] by simp
  qed
qed

lemma clear_ok: "store_ok store \<Longrightarrow> store_ok (clear_session key store)"
  by (simp add: clear_session_def store_changed_def delete_ok)

lemma dispose_ok: "store_ok (dispose_store store)"
  by (simp add: dispose_store_def store_changed_def store_ok_def stored_bytes_def jm_values_def jm_ok_def)

lemma activate_ok: "store_ok store \<Longrightarrow> store_ok (activate_store store)"
  by (simp add: activate_store_def store_ok_def stored_bytes_def)

lemma owner_effect_ok: "store_ok store \<Longrightarrow> store_ok (owner_effect ownerId store)"
  by (simp add: owner_effect_def activate_ok dispose_ok)

lemma select_ok: "store_ok store \<Longrightarrow> store_ok (snd (select_items key selected store))"
  using read_ok [of store key] unfolding select_items_def
  by (intro write_ok) (auto simp: session_ok_def without_preview_def list_all_iff)

lemma setDraft_ok: "store_ok store \<Longrightarrow> store_ok (snd (setDraft key draft store))"
  using read_ok [of store key] unfolding setDraft_def Let_def
  by (simp split: if_split) (auto simp: session_ok_def intro!: write_ok)

lemma setForm_ok: "store_ok store \<Longrightarrow> store_ok (snd (setForm key draft form store))"
  using read_ok [of store key] unfolding setForm_def
  by (simp split: if_split) (auto simp: session_ok_def current_draft_def intro!: write_ok)

lemma query_ok: "store_ok store \<Longrightarrow> store_ok (query_updated q store)"
  by (simp add: query_updated_def Let_def clear_ok split: option.split)

definition signed_in :: "handoff_world \<Rightarrow> bool" where
  "signed_in w = (hw_ownerId w \<noteq> None \<and> hw_ownerId w \<noteq> Some '''')"

definition handoff_ok :: "handoff_world \<Rightarrow> bool" where
  "handoff_ok w = (store_ok (hw_store w) \<and> ds_active (hw_store w) = signed_in w)"

lemma write_active [simp]: "ds_active (snd (write_session key state store)) = ds_active store"
  by (simp add: write_session_eq [OF refl])

lemma step_active [simp]:
  "ds_active (snd (select_items key selected store)) = ds_active store"
  "ds_active (snd (setDraft key draft store)) = ds_active store"
  "ds_active (snd (setForm key d form store)) = ds_active store"
  "ds_active (clear_session key store) = ds_active store"
  "ds_active (query_updated q store) = ds_active store"
  by (simp_all add: select_items_def setDraft_def setForm_def clear_session_def store_changed_def query_updated_def Let_def split: option.split)

lemma effect_active: "ds_active (owner_effect ownerId store) = (ownerId \<noteq> None \<and> ownerId \<noteq> Some '''')"
  by (simp add: owner_effect_def activate_store_def dispose_store_def store_changed_def)

lemma render_ok: "handoff_ok w \<Longrightarrow> handoff_ok (render_owner ownerId w)"
  by (simp add: handoff_ok_def render_owner_def Let_def owner_effect_ok new_store_ok effect_active signed_in_def)

interpretation handoff: event_invariant handoff_step "handoff_start ownerId" handoff_ok for ownerId
proof unfold_locales
  show "handoff_ok (handoff_start ownerId)"
    by (simp add: handoff_ok_def handoff_start_def owner_effect_ok new_store_ok effect_active signed_in_def)
next
  fix w e w'
  assume "handoff_ok w" "handoff_step e w = Some w'"
  then show "handoff_ok w'"
    by (cases e) (auto simp: render_ok, auto simp: handoff_ok_def signed_in_def select_ok setDraft_ok setForm_ok clear_ok query_ok)
qed


definition sample_handoff :: handoff_item where
  "sample_handoff = \<lparr>xi_id = ''1'', xi_occurred_at = '''', xi_role = ''tool'', xi_channel = ''tool_output'', xi_render = ''text'',
     xi_source_kind = ''hook'', xi_source_order = 1, xi_coverage = ''captured'', xi_coverage_reason = None, xi_replacements = 0,
     xi_filter_version = '''', xi_original_byte_count = None, hi_preview = Some ''x''\<rparr>"

lemma sample_handoff_run: "\<exists>w. run_events handoff_step [RenderOwner (Some ''u''), SelectItems ''w/s'' [(''1'', sample_handoff)]] (handoff_start None) = Some w"
  by simp


text \<open>A detail or a selected row that the server denies or withdraws empties that session and no other.\<close>

lemma read_cleared: "read_session (clear_session key store) k = (if k = key then EMPTY_SESSION else read_session store k)"
  by (auto simp: read_session_def clear_session_def store_changed_def jm_has_def split: option.split)

lemma denied_session_cleared:
  assumes "qu_key q = [JStr ''sessions'', JStr slug, JStr ''detail'', JStr session]" "qu_error_status q = Some status" "status \<in> {401, 403, 404}"
  shows "read_session (query_updated q store) k = (if k = slug @ ''/'' @ session then EMPTY_SESSION else read_session store k)"
  using assms by (auto simp: query_updated_def key_at_def jstr.simps read_cleared)

lemma withdrawn_source_cleared:
  assumes "qu_key q = [JStr ''sessions'', JStr slug, JStr ''detail'', JStr session, JStr ''contents'', JStr ''selected-metadata'']"
    "qu_data q = MetadataOf (Some gone) rows" "i \<in> set gone" "i \<in> set (source_ids (read_session store (slug @ ''/'' @ session)))"
  shows "read_session (query_updated q store) k = (if k = slug @ ''/'' @ session then EMPTY_SESSION else read_session store k)"
proof -
  have "withdrawn (read_session store (slug @ ''/'' @ session)) (qu_data q)" using assms by (auto simp: withdrawn_def list_ex_iff)
  then show ?thesis using assms by (simp add: query_updated_def key_at_def read_cleared)
qed

end
