(* ===== verification/Csv_Preview.thy ===== *)
theory Csv_Preview
  imports JS_Text
begin

text \<open>
  The table preview of CSV files: \<open>features/resources/utils/parse-csv.ts\<close>, and the printer that its
  comment describes as the format it reads.
\<close>


section \<open>The parser\<close>

definition QUOTE :: char where
  "QUOTE = CHR 0x22"

definition COMMA :: char where
  "COMMA = CHR '',''"

definition LINE_FEED :: char where
  "LINE_FEED = CHR 0x0A"

definition CARRIAGE_RETURN :: char where
  "CARRIAGE_RETURN = CHR 0x0D"

lemma csv_chars [simp]:
  "QUOTE \<noteq> COMMA" "QUOTE \<noteq> LINE_FEED" "QUOTE \<noteq> CARRIAGE_RETURN" "COMMA \<noteq> LINE_FEED" "COMMA \<noteq> CARRIAGE_RETURN" "LINE_FEED \<noteq> CARRIAGE_RETURN"
  "COMMA \<noteq> QUOTE" "LINE_FEED \<noteq> QUOTE" "CARRIAGE_RETURN \<noteq> QUOTE" "LINE_FEED \<noteq> COMMA" "CARRIAGE_RETURN \<noteq> COMMA" "CARRIAGE_RETURN \<noteq> LINE_FEED"
  by (simp_all add: QUOTE_def COMMA_def LINE_FEED_def CARRIAGE_RETURN_def)

text \<open>The loop from the position where the rest of the text starts, with its four variables.\<close>

function csv_loop :: "string \<Rightarrow> string list list \<Rightarrow> string list \<Rightarrow> string \<Rightarrow> bool \<Rightarrow> string list list" where
  "csv_loop [] rows row field inQuotes = (if field \<noteq> [] \<or> row \<noteq> [] then rows @ [row @ [field]] else rows)"
| "csv_loop (ch # rest) rows row field inQuotes =
     (if inQuotes then
        if ch = QUOTE then
          if rest \<noteq> [] \<and> hd rest = QUOTE then csv_loop (tl rest) rows row (field @ [QUOTE]) True
          else csv_loop rest rows row field False
        else csv_loop rest rows row (field @ [ch]) True
      else if ch = QUOTE then csv_loop rest rows row field True
      else if ch = COMMA then csv_loop rest rows (row @ [field]) [] False
      else if ch = LINE_FEED \<or> ch = CARRIAGE_RETURN then
        csv_loop (if ch = CARRIAGE_RETURN \<and> rest \<noteq> [] \<and> hd rest = LINE_FEED then tl rest else rest) (rows @ [row @ [field]]) [] [] False
      else csv_loop rest rows row (field @ [ch]) False)"
  by pat_completeness auto
termination
  by (relation "measure (\<lambda>(rest, _). length rest)") (auto simp: less_Suc_eq_le)

definition parseCsv :: "string \<Rightarrow> string list list" where
  "parseCsv str = csv_loop str [] [] [] False"


section \<open>The printer\<close>

definition doubled :: "string \<Rightarrow> string" where
  "doubled s = concat (map (\<lambda>c. if c = QUOTE then [QUOTE, QUOTE] else [c]) s)"

definition csv_field :: "(string \<Rightarrow> bool) \<Rightarrow> string \<Rightarrow> string" where
  "csv_field quoted s = (if quoted s then QUOTE # doubled s @ [QUOTE] else s)"

definition csv_row :: "(string \<Rightarrow> bool) \<Rightarrow> string list \<Rightarrow> string" where
  "csv_row quoted fields = js_join [COMMA] (map (csv_field quoted) fields)"

definition csv_print :: "(string \<Rightarrow> bool) \<Rightarrow> string \<Rightarrow> string list list \<Rightarrow> string" where
  "csv_print quoted eol rows = concat (map (\<lambda>r. csv_row quoted r @ eol) rows)"

text \<open>A field that may stand without quotes.\<close>

definition plain_field :: "string \<Rightarrow> bool" where
  "plain_field s = list_all (\<lambda>c. c \<noteq> QUOTE \<and> c \<noteq> COMMA \<and> c \<noteq> LINE_FEED \<and> c \<noteq> CARRIAGE_RETURN) s"

definition line_breaks :: "string list" where
  "line_breaks = [[LINE_FEED], [CARRIAGE_RETURN, LINE_FEED], [CARRIAGE_RETURN]]"

text \<open>What may follow a field.\<close>

definition stops_field :: "string \<Rightarrow> bool" where
  "stops_field rest = (rest = [] \<or> hd rest \<noteq> QUOTE)"

lemma loop_quoted: "stops_field rest \<Longrightarrow> csv_loop (doubled s @ QUOTE # rest) rows row field True = csv_loop rest rows row (field @ s) False"
  by (induction s arbitrary: field) (auto simp: doubled_def stops_field_def)

lemma loop_plain: "plain_field s \<Longrightarrow> csv_loop (s @ rest) rows row field False = csv_loop rest rows row (field @ s) False"
  by (induction s arbitrary: field) (auto simp: plain_field_def)

lemma loop_field:
  assumes "quoted s \<or> plain_field s" and "stops_field rest"
  shows "csv_loop (csv_field quoted s @ rest) rows row [] False = csv_loop rest rows row s False"
proof (cases "quoted s")
  case True
  then show ?thesis using loop_quoted [OF assms(2), of s rows row "[]"] by (simp add: csv_field_def)
next
  case False
  then show ?thesis using assms(1) loop_plain [of s rest rows row "[]"] by (simp add: csv_field_def)
qed

lemma loop_eol:
  assumes "eol \<in> set line_breaks" and "eol = [CARRIAGE_RETURN] \<Longrightarrow> rest = [] \<or> hd rest \<noteq> LINE_FEED"
  shows "csv_loop (eol @ rest) rows row field False = csv_loop rest (rows @ [row @ [field]]) [] [] False"
  using assms by (auto simp: line_breaks_def)

lemma loop_row:
  assumes "fields \<noteq> []" and "\<forall>s\<in>set fields. quoted s \<or> plain_field s" and "eol \<in> set line_breaks"
    and "eol = [CARRIAGE_RETURN] \<Longrightarrow> rest = [] \<or> hd rest \<noteq> LINE_FEED"
  shows "csv_loop (csv_row quoted fields @ eol @ rest) rows row [] False = csv_loop rest (rows @ [row @ fields]) [] [] False"
  using assms(1,2)
proof (induction fields arbitrary: row)
  case (Cons s fields)
  have eol: "stops_field (eol @ rest)" using assms(3) by (auto simp: stops_field_def line_breaks_def)
  show ?case
  proof (cases fields)
    case Nil
    then show ?thesis using loop_field [OF _ eol, of quoted s rows row] loop_eol [OF assms(3,4), of rows row s] Cons.prems
      by (simp add: csv_row_def)
  next
    case (Cons t ts)
    have "csv_loop (csv_row quoted (s # fields) @ eol @ rest) rows row [] False =
        csv_loop (csv_field quoted s @ COMMA # csv_row quoted fields @ eol @ rest) rows row [] False"
      by (simp add: csv_row_def Cons)
    also have "\<dots> = csv_loop (COMMA # csv_row quoted fields @ eol @ rest) rows row s False"
      using Cons.prems by (intro loop_field) (simp_all add: stops_field_def)
    also have "\<dots> = csv_loop (csv_row quoted fields @ eol @ rest) rows (row @ [s]) [] False" by simp
    also have "\<dots> = csv_loop rest (rows @ [(row @ [s]) @ fields]) [] [] False"
      using Cons.IH Cons.prems Cons by simp
    finally show ?thesis by simp
  qed
qed simp

text \<open>No row starts with a line feed, so a carriage return that ends the row before it stands alone.\<close>

lemma row_head:
  assumes "list_all (\<lambda>s. quoted s \<or> plain_field s) fields"
  shows "hd (csv_row quoted fields @ CARRIAGE_RETURN # rest) \<noteq> LINE_FEED"
proof (cases fields)
  case (Cons s ss)
  then obtain t where t: "csv_row quoted fields @ CARRIAGE_RETURN # rest = csv_field quoted s @ t" "t \<noteq> []" "hd t \<noteq> LINE_FEED"
    by (cases ss) (auto simp: csv_row_def)
  show ?thesis
  proof (cases "csv_field quoted s")
    case (Cons c cs)
    then have "c \<noteq> LINE_FEED" using assms \<open>fields = s # ss\<close> by (auto simp: csv_field_def plain_field_def split: if_splits)
    then show ?thesis using t Cons by simp
  qed (use t in simp)
qed (simp add: csv_row_def)

lemma loop_print:
  assumes eol: "eol \<in> set line_breaks" and rows: "list_all (\<lambda>row. row \<noteq> [] \<and> list_all (\<lambda>s. quoted s \<or> plain_field s) row) rows"
  shows "csv_loop (csv_print quoted eol rows) acc [] [] False = acc @ rows"
  using rows
proof (induction rows arbitrary: acc)
  case (Cons r rows)
  have rest: "csv_print quoted eol rows = [] \<or> hd (csv_print quoted eol rows) \<noteq> LINE_FEED" if "eol = [CARRIAGE_RETURN]"
  proof (cases rows)
    case (Cons r' rows')
    then show ?thesis using row_head [of quoted r'] Cons.prems that by (simp add: csv_print_def)
  qed (simp add: csv_print_def)
  have "csv_loop (csv_row quoted r @ eol @ csv_print quoted eol rows) acc [] [] False = csv_loop (csv_print quoted eol rows) (acc @ [[] @ r]) [] [] False"
    using Cons.prems rest by (intro loop_row eol) (simp_all add: list_all_iff)
  then show ?case using Cons by (simp add: csv_print_def)
qed (simp add: csv_print_def)

text \<open>
  C28. A printed table is read back. Whatever the cells hold, with commas, quotes and line breaks in
  the quoted ones, the parser returns exactly the rows that were written, one cell or more in each, for
  the three line breaks and every choice of the cells that are quoted though they need not be.
\<close>

theorem csv_roundtrip:
  assumes "eol \<in> set line_breaks" and "list_all (\<lambda>row. row \<noteq> [] \<and> list_all (\<lambda>s. quoted s \<or> plain_field s) row) rows"
  shows "parseCsv (csv_print quoted eol rows) = rows"
  using loop_print [OF assms, of "[]"] by (simp add: parseCsv_def)

theorem csv_roundtrip_witness:
  "parseCsv (csv_print (\<lambda>s. \<not> plain_field s) [CARRIAGE_RETURN, LINE_FEED] [[''a'', [QUOTE, COMMA]], [[], [LINE_FEED]]]) = [[''a'', [QUOTE, COMMA]], [[], [LINE_FEED]]]"
  by (rule csv_roundtrip) (simp_all add: line_breaks_def)

text \<open>Without a line break at its end, a last row that is one empty cell is lost, quoted or not.\<close>

lemma csv_last_empty_cell: "parseCsv [QUOTE, QUOTE] = []" "parseCsv [QUOTE, QUOTE, LINE_FEED] = [[[]]]"
  by code_simp+

end
