(* ===== verification/Notifications.thy ===== *)
theory Notifications
  imports JS_Text
begin

text \<open>
  Notifications (\<open>features/notifications\<close>): marking rows read optimistically with a rollback, the
  live badge (\<open>api/use-notifications.ts\<close>), and the route a notification leads to
  (\<open>utils/link-to-route.ts\<close>). The query client's cache is two maps, from the key of an inbox (its
  scope and its filter) to the loaded pages and from a scope to the unread count; a query that has no
  data yet is not in the map. The request itself and the invalidations that follow it are left out,
  as are the toast and the browser notification.
\<close>


section \<open>The cache\<close>

record notification_link =
  nl_kind :: string
  nl_workspace_slug :: "string option"
  nl_board_id :: "string option"
  nl_card_id :: "string option"
  nl_note_id :: "string option"

record notification_row =
  nt_id :: string
  nt_read_at :: "string option"
  nt_created_at :: string
  nt_link :: "notification_link option"

record notification_cache =
  nc_inbox :: "(string \<times> string, notification_row list list) jsmap"
  nc_unread :: "(string, int) jsmap"

text \<open>Both key makers put the rollup over all workspaces under \<open>all\<close>.\<close>

definition scope_key :: "string option \<Rightarrow> string" where
  "scope_key slug = (case slug of Some s \<Rightarrow> s | None \<Rightarrow> ''all'')"

type_synonym count_snapshots = "(string \<times> int) list"
type_synonym inbox_snapshots = "((string \<times> string) \<times> notification_row list list) list"

definition adjust_key :: "(int \<Rightarrow> int) \<Rightarrow> string \<Rightarrow> count_snapshots \<times> notification_cache \<Rightarrow> count_snapshots \<times> notification_cache" where
  "adjust_key mutate key = (\<lambda>(snapshots, cache). case jm_get (nc_unread cache) key of
     None \<Rightarrow> (snapshots, cache)
   | Some prev \<Rightarrow> (snapshots @ [(key, prev)], cache\<lparr>nc_unread := jm_set key (mutate prev) (nc_unread cache)\<rparr>))"

definition adjustUnreadCaches :: "string option \<Rightarrow> (int \<Rightarrow> int) \<Rightarrow> notification_cache \<Rightarrow> count_snapshots \<times> notification_cache" where
  "adjustUnreadCaches slug mutate cache = fold (adjust_key mutate) [scope_key slug, scope_key None] ([], cache)"

definition decrementUnreadCaches :: "string option \<Rightarrow> int \<Rightarrow> notification_cache \<Rightarrow> count_snapshots \<times> notification_cache" where
  "decrementUnreadCaches slug by_n = adjustUnreadCaches slug (\<lambda>prev. max 0 (prev - by_n))"

definition incrementUnreadCaches :: "string option \<Rightarrow> int \<Rightarrow> notification_cache \<Rightarrow> count_snapshots \<times> notification_cache" where
  "incrementUnreadCaches slug by_n = adjustUnreadCaches slug (\<lambda>prev. prev + by_n)"

definition zeroUnreadCaches :: "string option \<Rightarrow> notification_cache \<Rightarrow> count_snapshots \<times> notification_cache" where
  "zeroUnreadCaches slug = adjustUnreadCaches slug (\<lambda>_. 0)"

definition restore_counts :: "count_snapshots \<Rightarrow> notification_cache \<Rightarrow> notification_cache" where
  "restore_counts snapshots cache = cache\<lparr>nc_unread := fold (\<lambda>(key, v). jm_set key v) snapshots (nc_unread cache)\<rparr>"

definition restore_inboxes :: "inbox_snapshots \<Rightarrow> notification_cache \<Rightarrow> notification_cache" where
  "restore_inboxes snapshots cache = cache\<lparr>nc_inbox := fold (\<lambda>(key, v). jm_set key v) snapshots (nc_inbox cache)\<rparr>"

text \<open>\<open>getQueriesData\<close> and \<open>setQueriesData\<close> on the inboxes of a scope, whatever their filter.\<close>

definition inbox_queries :: "string option \<Rightarrow> notification_cache \<Rightarrow> inbox_snapshots" where
  "inbox_queries slug cache = filter (\<lambda>(key, data). fst key = scope_key slug) (nc_inbox cache)"

definition map_inboxes :: "string option \<Rightarrow> (notification_row \<Rightarrow> notification_row) \<Rightarrow> notification_cache \<Rightarrow> notification_cache" where
  "map_inboxes slug f cache = cache\<lparr>nc_inbox :=
     map (\<lambda>(key, pages). (key, if fst key = scope_key slug then map (map f) pages else pages)) (nc_inbox cache)\<rparr>"

definition set_read :: "string \<Rightarrow> notification_row \<Rightarrow> notification_row" where
  "set_read readAt n = n\<lparr>nt_read_at := (case nt_read_at n of None \<Rightarrow> Some readAt | some \<Rightarrow> some)\<rparr>"

definition was_unread :: "string option \<Rightarrow> string \<Rightarrow> notification_cache \<Rightarrow> bool" where
  "was_unread slug nid cache =
     list_ex (\<lambda>(key, pages). list_ex (list_ex (\<lambda>n. nt_id n = nid \<and> nt_read_at n = None)) pages) (inbox_queries slug cache)"


section \<open>Marking as read\<close>

record mark_context =
  mc_inboxSnapshots :: inbox_snapshots
  mc_countSnapshots :: count_snapshots

definition mark_read :: "string option \<Rightarrow> string \<Rightarrow> string \<Rightarrow> notification_cache \<Rightarrow> mark_context \<times> notification_cache" where
  "mark_read slug nid readAt cache =
     (let inboxSnapshots = inbox_queries slug cache;
          wasUnread = was_unread slug nid cache;
          cache1 = map_inboxes slug (\<lambda>n. if nt_id n \<noteq> nid then n else set_read readAt n) cache;
          (countSnapshots, cache2) = (if wasUnread then decrementUnreadCaches slug 1 cache1 else ([], cache1))
      in (\<lparr>mc_inboxSnapshots = inboxSnapshots, mc_countSnapshots = countSnapshots\<rparr>, cache2))"

definition mark_all_read :: "string option \<Rightarrow> string \<Rightarrow> notification_cache \<Rightarrow> mark_context \<times> notification_cache" where
  "mark_all_read slug readAt cache =
     (let inboxSnapshots = inbox_queries slug cache;
          cache1 = map_inboxes slug (set_read readAt) cache;
          (countSnapshots, cache2) = zeroUnreadCaches slug cache1
      in (\<lparr>mc_inboxSnapshots = inboxSnapshots, mc_countSnapshots = countSnapshots\<rparr>, cache2))"

definition mark_failed :: "mark_context \<Rightarrow> notification_cache \<Rightarrow> notification_cache" where
  "mark_failed context cache = restore_counts (mc_countSnapshots context) (restore_inboxes (mc_inboxSnapshots context) cache)"


section \<open>Arrivals\<close>

definition PAGE_SIZE :: nat where
  "PAGE_SIZE = 50"

definition getNextPageParam :: "notification_row list \<Rightarrow> string option" where
  "getNextPageParam lastPage = (if length lastPage = PAGE_SIZE then map_option nt_created_at (js_last lastPage) else None)"

record arrival =
  ar_recipient_user_id :: "string option"
  ar_unread_delta :: "int option"

text \<open>The handler of \<open>notification.created\<close>: the cache and whether the inbox refetch timer is pending.\<close>

definition notification_created :: "string option \<Rightarrow> string option \<Rightarrow> arrival \<Rightarrow> notification_cache \<times> bool \<Rightarrow> notification_cache \<times> bool" where
  "notification_created me slug payload = (\<lambda>(cache, timer).
     if me \<noteq> None \<and> js_truthy (ar_recipient_user_id payload) \<and> ar_recipient_user_id payload \<noteq> me then (cache, timer)
     else (snd (incrementUnreadCaches slug (case ar_unread_delta payload of Some d \<Rightarrow> d | None \<Rightarrow> 1) cache), True))"


section \<open>Routes\<close>

definition linkToRoute :: "notification_link option \<Rightarrow> string option \<Rightarrow> string option" where
  "linkToRoute link fallbackSlug =
     (case link of
        None \<Rightarrow> None
      | Some l \<Rightarrow>
          (let slug = (if nl_workspace_slug l = None then fallbackSlug else nl_workspace_slug l) in
           if \<not> js_truthy slug then None
           else let workspacePath = ''/'' @ encodeURIComponent (the slug) in
             if nl_kind l = ''card'' then
               (if \<not> js_truthy (nl_board_id l) then None
                else let base = workspacePath @ ''/boards/'' @ the (nl_board_id l) in
                  Some (if js_truthy (nl_card_id l) then base @ ''?card='' @ the (nl_card_id l) else base))
             else if nl_kind l = ''board'' then
               (if \<not> js_truthy (nl_board_id l) then None else Some (workspacePath @ ''/boards/'' @ the (nl_board_id l)))
             else if nl_kind l = ''note'' then
               (if \<not> js_truthy (nl_note_id l) then None
                else let base = (if js_truthy (nl_board_id l) then workspacePath @ ''/boards/'' @ the (nl_board_id l) @ ''/notes''
                                 else workspacePath @ ''/notes'')
                     in Some (base @ ''?note='' @ the (nl_note_id l)))
             else if nl_kind l = ''approval'' then Some (workspacePath @ ''/approvals'')
             else if nl_kind l = ''workspace'' then Some workspacePath
             else None))"



section \<open>Rolling back\<close>

lemma jm_set_twice [simp]: "jm_set k v (jm_set k v' m) = jm_set k v m"
  by (induction m) auto

lemma jm_set_commute: "k1 \<in> fst ` set m \<Longrightarrow> k1 \<noteq> k2 \<Longrightarrow> jm_set k1 v1 (jm_set k2 v2 m) = jm_set k2 v2 (jm_set k1 v1 m)"
  by (induction m) force+

lemma jm_set_hit: "k \<notin> fst ` set ys \<Longrightarrow> jm_set k v (ys @ (k, v') # zs) = ys @ (k, v) # zs"
  by (induction ys) auto

lemma fold_set_undo:
  assumes "distinct (map fst (ys @ zs))" and "\<And>p. fst (g p) = fst p" and "\<And>p. \<not> P p \<Longrightarrow> g p = p"
  shows "fold (\<lambda>(k, v). jm_set k v) (filter P zs) (ys @ map g zs) = ys @ zs"
  using assms(1)
proof (induction zs arbitrary: ys)
  case (Cons z zs)
  have "(case z of (k, v) \<Rightarrow> jm_set k v) (ys @ g z # map g zs) = ys @ z # map g zs"
    using Cons.prems assms(2) [of z] jm_set_hit [of "fst z" ys "snd z" "snd (g z)" "map g zs"] by (cases z; cases "g z") auto
  moreover have "fold (\<lambda>(k, v). jm_set k v) (filter P zs) ((ys @ [z]) @ map g zs) = (ys @ [z]) @ zs"
    using Cons.prems by (intro Cons.IH) simp
  ultimately show ?case using assms(3) [of z] by (cases "P z") simp_all
qed simp

lemma adjust_two:
  assumes "s \<noteq> ''all''"
  shows "fold (\<lambda>(key, v). jm_set key v) (fst (adjustUnreadCaches (Some s) f cache)) (nc_unread (snd (adjustUnreadCaches (Some s) f cache))) = nc_unread cache"
    and "jm_get (nc_unread (snd (adjustUnreadCaches (Some s) f cache))) key =
      (if key = s \<or> key = ''all'' then map_option f (jm_get (nc_unread cache) key) else jm_get (nc_unread cache) key)"
proof -
  have mem: "jm_get (nc_unread cache) s = Some v \<Longrightarrow> s \<in> fst ` set (jm_set ''all'' u (nc_unread cache))" for v u
    by (simp add: jm_set_keys) (metis domI dom_map_of_conv_image_fst)
  show "fold (\<lambda>(key, v). jm_set key v) (fst (adjustUnreadCaches (Some s) f cache)) (nc_unread (snd (adjustUnreadCaches (Some s) f cache))) = nc_unread cache"
    using assms mem by (cases "jm_get (nc_unread cache) s"; cases "jm_get (nc_unread cache) ''all''")
      (auto simp: adjustUnreadCaches_def adjust_key_def scope_key_def jm_set_same jm_set_commute jm_set_keys dest: map_of_SomeD)
  show "jm_get (nc_unread (snd (adjustUnreadCaches (Some s) f cache))) key =
      (if key = s \<or> key = ''all'' then map_option f (jm_get (nc_unread cache) key) else jm_get (nc_unread cache) key)"
    using assms by (auto simp: adjustUnreadCaches_def adjust_key_def scope_key_def split: option.split)
qed

lemma adjust_inbox [simp]: "nc_inbox (snd (adjustUnreadCaches slug f cache)) = nc_inbox cache"
  by (simp add: adjustUnreadCaches_def adjust_key_def split: option.split)

lemma inboxes_undo:
  assumes "jm_ok (nc_inbox cache)"
  shows "fold (\<lambda>(key, v). jm_set key v) (inbox_queries slug cache) (nc_inbox (map_inboxes slug f cache)) = nc_inbox cache"
proof -
  let ?g = "\<lambda>(key :: string \<times> string, pages). (key, if fst key = scope_key slug then map (map f) pages else pages)"
  let ?P = "\<lambda>(key :: string \<times> string, data :: notification_row list list). fst key = scope_key slug"
  have "distinct (map fst (nc_inbox cache))" using assms by (simp add: jm_ok_def)
  then have "fold (\<lambda>(key, v). jm_set key v) (filter ?P (nc_inbox cache)) ([] @ map ?g (nc_inbox cache)) = [] @ nc_inbox cache"
    by (intro fold_set_undo) (auto split: prod.splits)
  then show ?thesis by (simp add: inbox_queries_def map_inboxes_def)
qed

lemma map_inboxes_unread [simp]: "nc_unread (map_inboxes slug f cache) = nc_unread cache"
  by (simp add: map_inboxes_def)

lemma failed_restores:
  assumes "jm_ok (nc_inbox cache)" and "s \<noteq> ''all''"
  shows "mark_failed \<lparr>mc_inboxSnapshots = inbox_queries (Some s) cache, mc_countSnapshots = fst (adjustUnreadCaches (Some s) f (map_inboxes (Some s) g cache))\<rparr>
      (snd (adjustUnreadCaches (Some s) f (map_inboxes (Some s) g cache))) = cache"
  using inboxes_undo [OF assms(1), of "Some s" g] adjust_two(1) [OF assms(2), of f "map_inboxes (Some s) g cache"]
  by (simp add: mark_failed_def restore_counts_def restore_inboxes_def)

lemma failed_restores_inbox:
  assumes "jm_ok (nc_inbox cache)"
  shows "mark_failed \<lparr>mc_inboxSnapshots = inbox_queries slug cache, mc_countSnapshots = []\<rparr> (map_inboxes slug g cache) = cache"
  using inboxes_undo [OF assms, of slug g] by (simp add: mark_failed_def restore_counts_def restore_inboxes_def)


section \<open>Encoding\<close>

lemma linkToRoute_shape:
  assumes "linkToRoute link fallbackSlug = Some url"
  obtains slug rest where "url = ''/'' @ encodeURIComponent slug @ rest" "slug \<noteq> []" "rest = [] \<or> hd rest = CHR ''/''"
    "Option.bind link nl_workspace_slug = Some slug \<or> Option.bind link nl_workspace_slug = None \<and> fallbackSlug = Some slug"
proof -
  obtain l where l: "link = Some l" using assms by (cases link) (simp_all add: linkToRoute_def)
  define slug where "slug = (if nl_workspace_slug l = None then fallbackSlug else nl_workspace_slug l)"
  have truthy: "js_truthy slug" using assms by (cases "js_truthy slug") (simp_all add: linkToRoute_def l slug_def [symmetric] Let_def)
  then obtain s where s: "slug = Some s" "s \<noteq> []" by (cases slug) auto
  have "\<exists>rest. url = ''/'' @ encodeURIComponent s @ rest \<and> (rest = [] \<or> hd rest = CHR ''/'')"
    using assms truthy s by (auto simp: linkToRoute_def l slug_def [symmetric] Let_def split: if_splits)
  moreover have "Option.bind link nl_workspace_slug = Some s \<or> Option.bind link nl_workspace_slug = None \<and> fallbackSlug = Some s"
    using s(1) l by (auto simp: slug_def split: if_splits)
  ultimately show ?thesis using that s(2) by blast
qed



section \<open>Properties\<close>

lemma mark_read_undone:
  assumes "jm_ok (nc_inbox cache)" and "s \<noteq> ''all''"
  shows "case mark_read (Some s) nid readAt cache of (context, cache') \<Rightarrow> mark_failed context cache' = cache \<and>
      (\<forall>key. jm_get (nc_unread cache') key = (if was_unread (Some s) nid cache \<and> (key = s \<or> key = ''all'')
         then map_option (\<lambda>v. max 0 (v - 1)) (jm_get (nc_unread cache) key) else jm_get (nc_unread cache) key))"
proof (cases "was_unread (Some s) nid cache")
  case True
  then show ?thesis using failed_restores [OF assms] adjust_two(2) [OF assms(2)]
    by (simp add: mark_read_def decrementUnreadCaches_def Let_def split_beta)
next
  case False
  then show ?thesis using failed_restores_inbox [OF assms(1)] by (simp add: mark_read_def Let_def)
qed


definition sample_notification :: notification_row where
  "sample_notification = \<lparr>nt_id = ''n1'', nt_read_at = None, nt_created_at = ''2026-03-01'', nt_link = None\<rparr>"

definition sample_cache :: "string \<Rightarrow> notification_cache" where
  "sample_cache scope = \<lparr>nc_inbox = [((scope, ''all''), [[sample_notification]])], nc_unread = [(''all'', 3)]\<rparr>"


text \<open>
  In the view over all workspaces the two counts are one cache entry: reading one row lowers
  the count by two, and the rollback of a failed request leaves it one too low.
\<close>

lemma rollup_counted_twice:
  assumes "was_unread None nid cache" and "jm_get (nc_unread cache) ''all'' = Some v"
  shows "case mark_read None nid readAt cache of (context, cache') \<Rightarrow> jm_get (nc_unread cache') ''all'' = Some (max 0 (v - 2)) \<and>
      jm_get (nc_unread (mark_failed context cache')) ''all'' = Some (max 0 (v - 1))"
  using assms by (simp add: mark_read_def decrementUnreadCaches_def adjustUnreadCaches_def adjust_key_def scope_key_def Let_def
    mark_failed_def restore_counts_def restore_inboxes_def)

text \<open>
  A notification never leads out of the application: its route is one slash followed by the
  percent-encoded workspace slug, which is not empty and contains no separator, and the slug is the
  link's own where it has one.
\<close>

lemma route_stays_inside:
  assumes "linkToRoute link fallbackSlug = Some url"
  shows "\<exists>slug rest. url = ''/'' @ encodeURIComponent slug @ rest \<and> encodeURIComponent slug \<noteq> [] \<and>
    list_all (\<lambda>c. unreserved c \<or> c = CHR ''%'') (encodeURIComponent slug) \<and> (rest = [] \<or> hd rest = CHR ''/'') \<and>
    (Option.bind link nl_workspace_slug = Some slug \<or> Option.bind link nl_workspace_slug = None \<and> fallbackSlug = Some slug)"
proof -
  obtain slug rest where url: "url = ''/'' @ encodeURIComponent slug @ rest" "slug \<noteq> []" "rest = [] \<or> hd rest = CHR ''/''"
    "Option.bind link nl_workspace_slug = Some slug \<or> Option.bind link nl_workspace_slug = None \<and> fallbackSlug = Some slug"
    by (rule linkToRoute_shape [OF assms])
  have "list_all (\<lambda>c. unreserved c \<or> c = CHR ''%'') (encodeURIComponent slug)" unfolding list_all_iff using encodeURIComponent_chars by blast
  then show ?thesis using url encodeURIComponent_nonempty [OF url(2)] by blast
qed

end
