(* ===== verification/Activity_Stream.thy ===== *)
theory Activity_Stream
  imports JS_Text
begin

text \<open>
  The activity feed (\<open>features/activity/utils/group-activity-stream.ts\<close>): runs of scheduler churn on
  one card are collapsed into a cycle, state transitions are tagged, and a cycle is marked resolved
  by the transition above it. Rows come newest first.
\<close>


section \<open>Words\<close>

text \<open>\<open>summary.trim().toLowerCase().split(/\s+/, 1)[0] ?? ""\<close>: no white space is left in front.\<close>

definition leading_verb :: "string \<Rightarrow> string" where
  "leading_verb summary = takeWhile (\<lambda>c. \<not> js_space c) (js_toLowerCase (js_trim summary))"


section \<open>Rows\<close>

record activity =
  av_id :: string
  av_agent_id :: "string option"
  av_entity_id :: string
  av_action :: string
  av_summary :: string
  av_created_at :: string

definition MIN_CYCLES_TO_COLLAPSE :: nat where
  "MIN_CYCLES_TO_COLLAPSE = 2"

definition CHURN_VERBS :: "string list" where
  "CHURN_VERBS = [''reserved'', ''claimed'', ''unassigned'', ''released'', ''shed'',
     ''reserv'' @ [CHR 0xF3], ''reservada'', ''reclam'' @ [CHR 0xF3], ''liber'' @ [CHR 0xF3], ''desasign'' @ [CHR 0xF3]]"

definition TRANSITION_VERBS :: "string list" where
  "TRANSITION_VERBS = [''parked'', ''approved'', ''merged'', ''rejected'', ''aprob'' @ [CHR 0xF3], ''fusion'' @ [CHR 0xF3], ''rechaz'' @ [CHR 0xF3]]"

definition churnVerb :: "string \<Rightarrow> string option" where
  "churnVerb summary = (let first = leading_verb summary in if first \<in> set CHURN_VERBS then Some first else None)"

definition isChurn :: "activity \<Rightarrow> bool" where
  "isChurn a = (js_truthy (av_agent_id a) \<and> churnVerb (av_summary a) \<noteq> None)"

definition isStateTransition :: "activity \<Rightarrow> bool" where
  "isStateTransition a =
     (if isChurn a then False
      else if av_action a \<in> set [''created'', ''deleted'', ''moved'', ''archived''] then True
      else leading_verb (av_summary a) \<in> set TRANSITION_VERBS)"

definition is_reserve :: "activity \<Rightarrow> bool" where
  "is_reserve a = (churnVerb (av_summary a) \<in> set [Some ''reserved'', Some (''reserv'' @ [CHR 0xF3]), Some ''reservada''])"

definition countCycles :: "activity list \<Rightarrow> nat" where
  "countCycles run = (let reserves = length (filter is_reserve run) in if reserves > 0 then reserves else length run)"

record stream_cycle =
  cy_entityId :: string
  cy_count :: nat
  cy_items :: "activity list"
  cy_startedAt :: string
  cy_endedAt :: string
  cy_resolved :: bool
  cy_resolvedBy :: "activity option"

datatype stream_item = Cycle stream_cycle | Event activity bool


section \<open>Grouping\<close>

definition same_run :: "activity \<Rightarrow> activity \<Rightarrow> bool" where
  "same_run current a = (isChurn a \<and> av_entity_id a = av_entity_id current)"

text \<open>What is pushed for a maximal run of churn on one card. The default sort of strings is by code unit.\<close>

definition resolver :: "activity option \<Rightarrow> string \<Rightarrow> activity option" where
  "resolver lastTransitionAbove entityId = (case lastTransitionAbove of
     Some t \<Rightarrow> if av_entity_id t = entityId then Some t else None
   | None \<Rightarrow> None)"

definition run_items :: "activity option \<Rightarrow> string \<Rightarrow> activity list \<Rightarrow> stream_item list" where
  "run_items lastTransitionAbove entityId run =
     (let cycles = countCycles run in
      if cycles \<ge> MIN_CYCLES_TO_COLLAPSE then
        (let timestamps = sort (map av_created_at run) in
         [Cycle \<lparr>cy_entityId = entityId, cy_count = cycles, cy_items = run, cy_startedAt = hd timestamps, cy_endedAt = last timestamps,
            cy_resolved = (resolver lastTransitionAbove entityId \<noteq> None), cy_resolvedBy = resolver lastTransitionAbove entityId\<rparr>])
      else map (\<lambda>a. Event a False) run)"

text \<open>The loop over the rows that are left, with the last transition it has passed.\<close>

function group_rows :: "activity option \<Rightarrow> activity list \<Rightarrow> stream_item list" where
  "group_rows lastTransitionAbove [] = []"
| "group_rows lastTransitionAbove (current # rest) =
     (if isChurn current then
        (let run = takeWhile (same_run current) (current # rest) in
         run_items lastTransitionAbove (av_entity_id current) run @
         group_rows lastTransitionAbove (drop (length run) (current # rest)))
      else let transition = isStateTransition current in
         Event current transition # group_rows (if transition then Some current else lastTransitionAbove) rest)"
  by pat_completeness auto
termination
  by (relation "measure (length \<circ> snd)") (auto simp: same_run_def)

definition groupActivityStream :: "activity list \<Rightarrow> stream_item list" where
  "groupActivityStream activities = group_rows None activities"

definition lastMeaningfulTransition :: "activity list \<Rightarrow> activity option" where
  "lastMeaningfulTransition activities = find isStateTransition activities"


section \<open>What the stream promises\<close>

fun item_rows :: "stream_item \<Rightarrow> activity list" where
  "item_rows (Cycle c) = cy_items c"
| "item_rows (Event a t) = [a]"

text \<open>A cycle collapses a run of churn on its card, seen from the rows above it.\<close>

definition cycle_spec :: "activity list \<Rightarrow> stream_cycle \<Rightarrow> bool" where
  "cycle_spec newer c \<longleftrightarrow>
     (\<forall>a\<in>set (cy_items c). isChurn a \<and> av_entity_id a = cy_entityId c \<and> cy_startedAt c \<le> av_created_at a \<and> av_created_at a \<le> cy_endedAt c) \<and>
     {cy_startedAt c, cy_endedAt c} \<subseteq> av_created_at ` set (cy_items c) \<and>
     cy_count c = countCycles (cy_items c) \<and> 2 \<le> cy_count c \<and>
     cy_resolvedBy c = resolver (find isStateTransition (rev newer)) (cy_entityId c) \<and>
     cy_resolved c = (cy_resolvedBy c \<noteq> None)"

fun item_spec :: "activity list \<Rightarrow> stream_item \<Rightarrow> bool" where
  "item_spec newer (Cycle c) = cycle_spec newer c"
| "item_spec newer (Event a t) = (t = isStateTransition a)"

fun stream_spec :: "activity list \<Rightarrow> stream_item list \<Rightarrow> bool" where
  "stream_spec newer [] = True"
| "stream_spec newer (item # items) = (item_spec newer item \<and> stream_spec (newer @ item_rows item) items)"

lemma stream_spec_append: "stream_spec newer (xs @ ys) \<longleftrightarrow> stream_spec newer xs \<and> stream_spec (newer @ concat (map item_rows xs)) ys"
  by (induction xs arbitrary: newer) auto

lemma sort_bounds:
  fixes xs :: "'a::linorder list"
  assumes "xs \<noteq> []"
  shows "hd (sort xs) \<in> set xs" "last (sort xs) \<in> set xs" "x \<in> set xs \<Longrightarrow> hd (sort xs) \<le> x \<and> x \<le> last (sort xs)"
proof -
  have ne: "sort xs \<noteq> []" using assms by (metis set_empty set_sort)
  show "hd (sort xs) \<in> set xs" using hd_in_set [OF ne] by simp
  show "last (sort xs) \<in> set xs" using last_in_set [OF ne] by simp
  assume "x \<in> set xs"
  then have x: "x \<in> set (sort xs)" by simp
  obtain a b where a: "sort xs = a # b" using ne by (cases "sort xs") auto
  have "sorted (a # b)" using a sorted_sort [of xs] by simp
  then have "hd (sort xs) \<le> x" using x a by auto
  moreover have "sorted (butlast (sort xs) @ [last (sort xs)])" "x \<in> set (butlast (sort xs) @ [last (sort xs)])"
    unfolding append_butlast_last_id [OF ne] using x by simp_all
  then have "x \<le> last (sort xs)" by (auto simp: sorted_append)
  ultimately show "hd (sort xs) \<le> x \<and> x \<le> last (sort xs)" ..
qed


lemma churn_no_transition: "isChurn a \<Longrightarrow> \<not> isStateTransition a"
  by (simp add: isStateTransition_def)

lemma churn_keeps_transition:
  assumes "\<forall>a\<in>set run. isChurn a"
  shows "find isStateTransition (rev (newer @ run)) = find isStateTransition (rev newer)"
proof -
  have "find isStateTransition (xs @ ys) = find isStateTransition ys" if "\<forall>a\<in>set xs. isChurn a" for xs ys
    using that churn_no_transition by (induction xs) auto
  then show ?thesis using assms by simp
qed

lemma run_items_rows: "concat (map item_rows (run_items lt e run)) = run"
proof -
  have "concat (map (\<lambda>a. [a]) run) = run" by (induction run) auto
  then show ?thesis by (simp add: run_items_def Let_def o_def)
qed

lemma run_items_spec:
  assumes "run \<noteq> []" and "\<forall>a\<in>set run. isChurn a \<and> av_entity_id a = e"
  shows "stream_spec newer (run_items (find isStateTransition (rev newer)) e run)"
proof (cases "countCycles run \<ge> MIN_CYCLES_TO_COLLAPSE")
  case True
  have "map av_created_at run \<noteq> []" using assms(1) by simp
  note bounds = sort_bounds [OF this]
  have "{hd (sort (map av_created_at run)), last (sort (map av_created_at run))} \<subseteq> av_created_at ` set run" using bounds(1,2) by simp
  moreover have "\<forall>a\<in>set run. hd (sort (map av_created_at run)) \<le> av_created_at a \<and> av_created_at a \<le> last (sort (map av_created_at run))"
    using bounds(3) by simp
  ultimately show ?thesis using True assms(2) by (simp add: run_items_def Let_def cycle_spec_def MIN_CYCLES_TO_COLLAPSE_def)
next
  case False
  have "stream_spec newer (map (\<lambda>a. Event a False) as)" if "\<forall>a\<in>set as. isChurn a" for as newer
    using that churn_no_transition by (induction as arbitrary: newer) auto
  then show ?thesis using False assms(2) by (simp add: run_items_def Let_def)
qed

lemma group_rows_spec:
  "stream_spec newer (group_rows (find isStateTransition (rev newer)) rows) \<and> concat (map item_rows (group_rows (find isStateTransition (rev newer)) rows)) = rows"
proof (induction "length rows" arbitrary: newer rows rule: less_induct)
  case less
  show ?case
  proof (cases rows)
    case (Cons current rest)
    show ?thesis
    proof (cases "isChurn current")
      case True
      let ?lt = "find isStateTransition (rev newer)"
      define run where "run = takeWhile (same_run current) (current # rest)"
      define after where "after = drop (length run) (current # rest)"
      have split: "run @ after = rows" unfolding run_def after_def Cons by (metis append_take_drop_id takeWhile_eq_take)
      have churn: "\<forall>a\<in>set run. isChurn a \<and> av_entity_id a = av_entity_id current" unfolding run_def by (auto simp: same_run_def dest: set_takeWhileD)
      have ne: "run \<noteq> []" using True by (simp add: run_def same_run_def)
      then have "length after < length rows" using split by (metis add_diff_cancel_left' diff_less length_append length_greater_0_conv trans_less_add1)
      from less.hyps [OF this, of "newer @ run"] churn_keeps_transition [of run newer] churn
      have IH: "stream_spec (newer @ run) (group_rows ?lt after)" "concat (map item_rows (group_rows ?lt after)) = after" by simp_all
      have "group_rows ?lt rows = run_items ?lt (av_entity_id current) run @ group_rows ?lt after"
        using True unfolding Cons run_def after_def by (simp add: Let_def)
      then show ?thesis using IH run_items_spec [OF ne churn] split by (simp add: stream_spec_append run_items_rows)
    next
      case False
      have "find isStateTransition (rev (newer @ [current])) = (if isStateTransition current then Some current else find isStateTransition (rev newer))" by simp
      then show ?thesis using less.hyps [of rest "newer @ [current]"] False by (simp add: Cons Let_def del: rev_append)
    qed
  qed simp
qed


section \<open>Properties\<close>

text \<open>
  Grouping the feed loses, repeats and reorders no row; every cycle is a run of at least two
  churn cycles on one card with its earliest and latest time, resolved exactly if the nearest
  state transition above it is on that card; and rows are tagged as the transitions they are.
\<close>

lemma activity_stream_faithful:
  "concat (map item_rows (groupActivityStream activities)) = activities \<and> stream_spec [] (groupActivityStream activities)"
  using group_rows_spec [of "[]" activities] by (simp add: groupActivityStream_def)

definition sample_activity :: "string \<Rightarrow> string \<Rightarrow> string \<Rightarrow> activity" where
  "sample_activity entity action summary = \<lparr>av_id = [], av_agent_id = Some ''agent'', av_entity_id = entity, av_action = action,
     av_summary = summary, av_created_at = ''2026-03-01''\<rparr>"

text \<open>
  The comment over the grouping promises that a burst is resolved when a later transition for that
  card closed it; a transition of another card between the two hides it.
\<close>

lemma other_transition_hides_resolution:
  "map (\<lambda>item. case item of Cycle c \<Rightarrow> cy_resolved c | Event a t \<Rightarrow> t)
     (groupActivityStream [sample_activity ''a'' ''moved'' ''moved'', sample_activity ''b'' ''moved'' ''moved'',
        sample_activity ''a'' ''updated'' ''Reserved card'', sample_activity ''a'' ''updated'' ''Reserved card'']) = [True, True, False]"
  by code_simp

end
