(* ===== verification/Template_Slots.thy ===== *)
theory Template_Slots
  imports JS_Text
begin

text \<open>
  Slots of a loop template: marking a prompt (\<open>loop-templates/lib/slot-marking.ts\<close>), the live
  checks of the prompts (\<open>lib/prompt-validation.ts\<close>), the slot catalog of a draft
  (\<open>lib/slot-catalog.ts\<close>) and the form that binds a template to a board
  (\<open>kanban/components/loop-template/bind-model.ts\<close>). The regular expressions of the sources are
  scanners. Text offsets are naturals; the decimal form of a number is a parameter.
\<close>


section \<open>Marking\<close>

record text_range =
  rg_start :: nat
  rg_end :: nat

definition slotToken :: "string \<Rightarrow> string" where
  "slotToken name = ''<<'' @ name @ ''>>''"

definition isUsableRange :: "string \<Rightarrow> int \<Rightarrow> int \<Rightarrow> bool" where
  "isUsableRange str a b = (a \<ge> 0 \<and> b \<le> int (length str) \<and> a < b)"

definition replaceRange :: "string \<Rightarrow> int \<Rightarrow> int \<Rightarrow> string \<Rightarrow> string" where
  "replaceRange str a b name =
     (if \<not> isUsableRange str a b then str else take (nat a) str @ slotToken name @ drop (nat b) str)"

definition replaceAll :: "string \<Rightarrow> string \<Rightarrow> string \<Rightarrow> string \<times> nat" where
  "replaceAll str needle name =
     (if needle = [] then (str, 0) else let parts = split_on needle str in (js_join (slotToken name) parts, length parts - 1))"

definition countOccurrences :: "string \<Rightarrow> string \<Rightarrow> nat" where
  "countOccurrences str needle = (if needle = [] then 0 else length (split_on needle str) - 1)"

definition deriveKind :: "string \<Rightarrow> string" where
  "deriveKind selected = (if CHR 0x0A \<in> set selected then ''block'' else ''scalar'')"

definition line_start :: "string list \<Rightarrow> nat \<Rightarrow> nat" where
  "line_start lines n = foldl (\<lambda>total each. total + length each + 1) 0 (take n lines)"

definition findMatchRange :: "string \<Rightarrow> string \<Rightarrow> int \<Rightarrow> text_range option" where
  "findMatchRange str needle line =
     (if needle = [] then None
      else let lines = js_split (CHR 0x0A) str;
               fallback = (case js_indexOf needle str of
                   None \<Rightarrow> None
                 | Some i \<Rightarrow> Some \<lparr>rg_start = i, rg_end = i + length needle\<rparr>)
           in if 1 \<le> line \<and> line \<le> int (length lines) then
                (case js_indexOf needle (lines ! nat (line - 1)) of
                   Some column \<Rightarrow> (let s = line_start lines (nat (line - 1)) in
                     Some \<lparr>rg_start = s + column, rg_end = s + column + length needle\<rparr>)
                 | None \<Rightarrow> fallback)
              else fallback)"


section \<open>Prompt checks\<close>

definition slot_char :: "char \<Rightarrow> bool" where
  "slot_char c = (is_upper c \<or> is_digit c \<or> c = CHR ''_'')"

definition ident_char :: "char \<Rightarrow> bool" where
  "ident_char c = (is_upper c \<or> is_lower c \<or> is_digit c \<or> c = CHR ''_'')"

text \<open>\<open>SLOT_TOKEN\<close> at the head of a text: the name and the text behind the token.\<close>

definition match_slot :: "string \<Rightarrow> (string \<times> string) option" where
  "match_slot str =
     (if take 2 str = ''<<'' then
        (let name = takeWhile slot_char (drop 2 str); rest = drop (2 + length name) str in
         if name \<noteq> [] \<and> is_upper (hd name) \<and> take 2 rest = ''>>'' then Some (name, drop 2 rest) else None)
      else None)"

definition skip_char :: "char \<Rightarrow> string \<Rightarrow> string" where
  "skip_char c str = (case str of d # rest \<Rightarrow> if d = c then rest else str | [] \<Rightarrow> str)"

text \<open>\<open>RUNNER_TOKEN\<close> at the head of a text.\<close>

definition match_runner :: "string \<Rightarrow> (string \<times> string) option" where
  "match_runner str =
     (if take 2 str = ''{{'' then
        (let t1 = dropWhile js_space (skip_char (CHR ''-'') (drop 2 str)) in
         if take 1 t1 = ''.'' then
           (let name = takeWhile ident_char (drop 1 t1);
                t2 = skip_char (CHR ''-'') (dropWhile js_space (drop (1 + length name) t1)) in
            if name \<noteq> [] \<and> \<not> is_digit (hd name) \<and> take 2 t2 = ''}}'' then Some (name, drop 2 t2) else None)
         else None)
      else None)"

text \<open>\<open>matchAll\<close> of a token: the names in the order of their matches.\<close>

lemma length_skip_char: "length (skip_char c str) \<le> length str"
  by (auto simp: skip_char_def split: list.split)

lemma match_slot_shorter: "match_slot str = Some (name, rest) \<Longrightarrow> length rest < length str"
  by (cases str) (auto simp: match_slot_def Let_def split: if_splits)

lemma match_runner_shorter:
  assumes "match_runner str = Some (name, rest)"
  shows "length rest < length str"
proof -
  define t1 where "t1 = dropWhile js_space (skip_char (CHR ''-'') (drop 2 str))"
  define t2 where "t2 = skip_char (CHR ''-'') (dropWhile js_space (drop (1 + length (takeWhile ident_char (drop 1 t1))) t1))"
  have "take 2 str = ''{{''" "rest = drop 2 t2" using assms by (auto simp: match_runner_def Let_def t1_def t2_def split: if_splits)
  moreover have "length t1 \<le> length str" unfolding t1_def
    by (rule order_trans [OF length_dropWhile_le order_trans [OF length_skip_char]]) simp
  moreover have "length t2 \<le> length t1" unfolding t2_def
    by (rule order_trans [OF length_skip_char order_trans [OF length_dropWhile_le]]) simp
  ultimately show ?thesis by (cases str; cases t2) auto
qed

function scan_slots :: "string \<Rightarrow> string list" where
  "scan_slots [] = []"
| "scan_slots (c # cs) = (case match_slot (c # cs) of Some (name, rest) \<Rightarrow> name # scan_slots rest | None \<Rightarrow> scan_slots cs)"
  by pat_completeness auto
termination by (relation "measure length") (auto dest: match_slot_shorter)

function scan_runner :: "string \<Rightarrow> string list" where
  "scan_runner [] = []"
| "scan_runner (c # cs) = (case match_runner (c # cs) of Some (name, rest) \<Rightarrow> name # scan_runner rest | None \<Rightarrow> scan_runner cs)"
  by pat_completeness auto
termination by (relation "measure length") (auto dest: match_runner_shorter)

definition referencedSlots :: "string list \<Rightarrow> string list" where
  "referencedSlots texts = fold js_add (concat (map scan_slots texts)) []"

definition referencedRunnerVars :: "string list \<Rightarrow> string list" where
  "referencedRunnerVars texts = fold js_add (concat (map scan_runner texts)) []"

datatype prompt_issue = UnknownSlot string | UnusedSlot string | NonRunnerVar string

definition validatePrompts :: "string \<Rightarrow> string \<Rightarrow> string list \<Rightarrow> string list \<Rightarrow> string list \<Rightarrow> prompt_issue list" where
  "validatePrompts systemPrompt loopPrompt slotNames variantFills runnerVars =
     (let prompts = [systemPrompt, loopPrompt];
          usedAnywhere = referencedSlots (prompts @ variantFills)
      in map UnknownSlot (filter (\<lambda>n. n \<notin> set slotNames) (referencedSlots prompts)) @
         map UnusedSlot (filter (\<lambda>n. n \<notin> set usedAnywhere) slotNames) @
         map NonRunnerVar (filter (\<lambda>n. n \<notin> set runnerVars) (referencedRunnerVars prompts)))"

definition insertAtCaret :: "string \<Rightarrow> string \<Rightarrow> nat \<Rightarrow> nat \<Rightarrow> string \<times> nat" where
  "insertAtCaret str token a b = (take a str @ token @ drop b str, a + length token)"



section \<open>The slot catalog\<close>

definition SLOT_KINDS :: "string list" where
  "SLOT_KINDS = [''scalar'', ''block'', ''enum'', ''variant'', ''list'']"

definition PROMPT_FIELDS :: "string list" where
  "PROMPT_FIELDS = [''system_prompt'', ''loop_prompt'']"

record slot_variant =
  sv_id :: string
  sv_label :: string
  sv_fills :: "(string, string) jsmap"
  sv_tools_extra :: "string list"
  sv_rails :: json

record catalog_slot =
  ct_name :: string
  ct_kind :: string
  ct_required :: bool
  ct_label :: string
  ct_help :: string
  ct_example :: string
  ct_default :: json
  ct_enum_values :: "string list"
  ct_items :: "json option"
  ct_join :: string
  ct_variants :: "slot_variant list"
  ct_autofill :: "string option"
  ct_deprecated :: bool

fun isRecord :: "json \<Rightarrow> bool" where
  "isRecord (JObj kvs) = True"
| "isRecord _ = False"

definition record_or :: "json \<Rightarrow> json option \<Rightarrow> json" where
  "record_or dflt v = (case v of Some (JObj kvs) \<Rightarrow> JObj kvs | _ \<Rightarrow> dflt)"

definition asString :: "string \<Rightarrow> json option \<Rightarrow> string" where
  "asString fallback v = (case v of Some (JStr s) \<Rightarrow> s | _ \<Rightarrow> fallback)"

definition asStringList :: "json option \<Rightarrow> string list" where
  "asStringList v = (case v of Some (JArr xs) \<Rightarrow> List.map_filter (\<lambda>x. jstr (Some x)) xs | _ \<Rightarrow> [])"

definition asKind :: "json option \<Rightarrow> string" where
  "asKind v = (case v of Some (JStr s) \<Rightarrow> if s \<in> set SLOT_KINDS then s else ''scalar'' | _ \<Rightarrow> ''scalar'')"

definition records_of :: "json option \<Rightarrow> json list" where
  "records_of v = (case v of Some (JArr xs) \<Rightarrow> filter isRecord xs | _ \<Rightarrow> [])"

definition readVariant :: "json \<Rightarrow> slot_variant" where
  "readVariant raw = \<lparr>sv_id = asString [] (jfield raw ''id''), sv_label = asString [] (jfield raw ''label''),
     sv_fills = map (\<lambda>(target, v). (target, asString [] (Some v))) (obj_kvs (record_or (JObj []) (jfield raw ''fills''))),
     sv_tools_extra = asStringList (jfield raw ''tools_extra''), sv_rails = record_or (JObj []) (jfield raw ''rails'')\<rparr>"

definition read_slot :: "json \<Rightarrow> catalog_slot option" where
  "read_slot entry =
     (let name = asString [] (jfield entry ''name'') in
      if name = [] then None
      else Some \<lparr>ct_name = name, ct_kind = asKind (jfield entry ''kind''), ct_required = (jfield entry ''required'' = Some (JBool True)),
        ct_label = asString [] (jfield entry ''label''), ct_help = asString [] (jfield entry ''help''), ct_example = asString [] (jfield entry ''example''),
        ct_default = (case jfield entry ''default'' of Some v \<Rightarrow> v | None \<Rightarrow> JNull),
        ct_enum_values = asStringList (jfield entry ''enum_values''),
        ct_items = (case jfield entry ''items'' of Some (JObj kvs) \<Rightarrow> Some (JObj kvs) | _ \<Rightarrow> None),
        ct_join = asString [CHR 0x0A] (jfield entry ''join''),
        ct_variants = map readVariant (records_of (jfield entry ''variants'')),
        ct_autofill = jstr (jfield entry ''autofill''),
        ct_deprecated = (jfield entry ''deprecated'' = Some (JBool True))\<rparr>)"

definition readCatalog :: "json \<Rightarrow> catalog_slot list" where
  "readCatalog content = List.map_filter read_slot (records_of (jfield content ''slots''))"

definition blankSlot :: "string \<Rightarrow> catalog_slot" where
  "blankSlot name = \<lparr>ct_name = name, ct_kind = ''scalar'', ct_required = False, ct_label = [], ct_help = [], ct_example = [], ct_default = JNull,
     ct_enum_values = [], ct_items = None, ct_join = [CHR 0x0A], ct_variants = [], ct_autofill = None, ct_deprecated = False\<rparr>"

text \<open>\<open>SLOT_NAME_PATTERN\<close>, anchored at both ends.\<close>

definition slot_name_ok :: "string \<Rightarrow> bool" where
  "slot_name_ok name = (name \<noteq> [] \<and> is_upper (hd name) \<and> list_all slot_char name)"

datatype slot_name_problem = Empty | Grammar | Duplicate

definition validateSlotName :: "string \<Rightarrow> catalog_slot list \<Rightarrow> nat \<Rightarrow> slot_name_problem option" where
  "validateSlotName proposed slots index =
     (if proposed = [] then Some Empty
      else if \<not> slot_name_ok proposed then Some Grammar
      else if list_ex (\<lambda>(position, slot). position \<noteq> index \<and> ct_name slot = proposed) (enumerate 0 slots) then Some Duplicate
      else None)"

definition catalogFills :: "catalog_slot list \<Rightarrow> string list" where
  "catalogFills slots = concat (map (\<lambda>slot. concat (map (\<lambda>variant. map snd (sv_fills variant)) (ct_variants slot))) slots)"

text \<open>
  The number of matches of \<open>new RegExp("<<" + name + ">>", "g")\<close>. A name of the slot grammar has no
  special characters, so the matches are the literal occurrences; for other names the pattern is not
  modelled.
\<close>

definition token_count :: "string \<Rightarrow> string \<Rightarrow> nat option" where
  "token_count str name = (if slot_name_ok name then Some (length (split_on (slotToken name) str) - 1) else None)"

record slot_usage =
  su_fields :: "string list"
  su_promptOccurrences :: nat
  su_usedAnywhere :: bool

definition slot_usage_of :: "catalog_slot list \<Rightarrow> (string \<Rightarrow> string) \<Rightarrow> catalog_slot \<Rightarrow> slot_usage option" where
  "slot_usage_of slots prompts slot =
     (if slot_name_ok (ct_name slot) then
        (let count = (\<lambda>f. the (token_count (prompts f) (ct_name slot)));
             used_fields = filter (\<lambda>f. count f > 0) PROMPT_FIELDS
         in Some \<lparr>su_fields = used_fields, su_promptOccurrences = foldl (\<lambda>total f. total + count f) 0 PROMPT_FIELDS,
              su_usedAnywhere = (length used_fields > 0 \<or> ct_name slot \<in> set (referencedSlots (catalogFills slots)))\<rparr>)
      else None)"

definition deriveUsage :: "catalog_slot list \<Rightarrow> (string \<Rightarrow> string) \<Rightarrow> (string, slot_usage option) jsmap" where
  "deriveUsage slots prompts = fold (\<lambda>slot. jm_set (ct_name slot) (slot_usage_of slots prompts slot)) slots []"


section \<open>Binding\<close>

record bind_variant =
  bv_id :: string
  bv_label :: string
  bv_fills :: json
  bv_tools_extra :: "string list"
  bv_rails :: json

record bind_slot =
  bs_name :: string
  bs_kind :: string
  bs_required :: bool
  bs_label :: string
  bs_help :: string
  bs_example :: string
  bs_enum_values :: "string list"
  bs_variants :: "bind_variant list"
  bs_autofill :: "string option"
  bs_default :: "json option"

definition read_bind_variant :: "json \<Rightarrow> bind_variant option" where
  "read_bind_variant variant =
     (let vid = asString [] (jfield variant ''id'') in
      if vid = [] then None
      else Some \<lparr>bv_id = vid, bv_label = asString vid (jfield variant ''label''), bv_fills = record_or (JObj []) (jfield variant ''fills''),
        bv_tools_extra = asStringList (jfield variant ''tools_extra''), bv_rails = record_or (JObj []) (jfield variant ''rails'')\<rparr>)"

definition readVariants :: "json option \<Rightarrow> bind_variant list" where
  "readVariants raw = List.map_filter read_bind_variant (records_of raw)"

definition read_bind_slot :: "json \<Rightarrow> bind_slot option" where
  "read_bind_slot entry =
     (let name = asString [] (jfield entry ''name'') in
      if name = [] then None
      else Some \<lparr>bs_name = name, bs_kind = asKind (jfield entry ''kind''), bs_required = (jfield entry ''required'' = Some (JBool True)),
        bs_label = asString name (jfield entry ''label''), bs_help = asString [] (jfield entry ''help''), bs_example = asString [] (jfield entry ''example''),
        bs_enum_values = asStringList (jfield entry ''enum_values''), bs_variants = readVariants (jfield entry ''variants''),
        bs_autofill = jstr (jfield entry ''autofill''), bs_default = jfield entry ''default''\<rparr>)"

definition readBindSlots :: "json \<Rightarrow> bind_slot list" where
  "readBindSlots content = List.map_filter read_bind_slot (records_of (jfield content ''slots''))"

definition isFreeText :: "bind_slot \<Rightarrow> bool" where
  "isFreeText slot = (bs_kind slot \<noteq> ''variant'')"

text \<open>\<open>String(value)\<close>, where an array joins its elements with commas and leaves null elements empty.\<close>

fun js_String :: "(jsnum \<Rightarrow> string) \<Rightarrow> json \<Rightarrow> string" where
  "js_String num JNull = ''null''"
| "js_String num (JBool b) = (if b then ''true'' else ''false'')"
| "js_String num (JNum n) = num n"
| "js_String num (JStr s) = s"
| "js_String num (JArr xs) = js_join '','' (map (\<lambda>x. if x = JNull then [] else js_String num x) xs)"
| "js_String num (JObj kvs) = ''[object Object]''"

fun asFormText :: "(jsnum \<Rightarrow> string) \<Rightarrow> json \<Rightarrow> string" where
  "asFormText num (JArr xs) = js_join [CHR 0x0A] (map (\<lambda>x. if x = JNull then [] else js_String num x) xs)"
| "asFormText num v = js_String num v"

text \<open>The autofill of a slot is the value the fit service proposes for it.\<close>

definition initial_value :: "(jsnum \<Rightarrow> string) \<Rightarrow> (string, json) jsmap \<Rightarrow> bind_slot \<Rightarrow> string" where
  "initial_value num autofill slot =
     (if bs_kind slot = ''variant'' then (case bs_variants slot of v # _ \<Rightarrow> bv_id v | [] \<Rightarrow> [])
      else case jm_get autofill (bs_name slot) of
        Some v \<Rightarrow> if v \<noteq> JNull then asFormText num v
          else (case bs_default slot of Some d \<Rightarrow> if d \<noteq> JNull then asFormText num d else [] | None \<Rightarrow> [])
      | None \<Rightarrow> (case bs_default slot of Some d \<Rightarrow> if d \<noteq> JNull then asFormText num d else [] | None \<Rightarrow> []))"

definition initialSlotValues :: "(jsnum \<Rightarrow> string) \<Rightarrow> bind_slot list \<Rightarrow> (string, json) jsmap \<Rightarrow> (string, string) jsmap" where
  "initialSlotValues num slots autofill = fold (\<lambda>slot. jm_set (bs_name slot) (initial_value num autofill slot)) slots []"

datatype wire_value = WText string | WList "string list"

definition value_text :: "(string, string) jsmap \<Rightarrow> string \<Rightarrow> string" where
  "value_text values name = (case jm_get values name of Some v \<Rightarrow> v | None \<Rightarrow> [])"

definition wire_value_of :: "(string, string) jsmap \<Rightarrow> bind_slot \<Rightarrow> wire_value" where
  "wire_value_of values slot =
     (let str = value_text values (bs_name slot) in
      if bs_kind slot \<noteq> ''list'' then WText str else WList (filter (\<lambda>line. js_trim line \<noteq> []) (js_split (CHR 0x0A) str)))"

definition slotValuesForWire :: "bind_slot list \<Rightarrow> (string, string) jsmap \<Rightarrow> (string, wire_value) jsmap" where
  "slotValuesForWire slots values = fold (\<lambda>slot. jm_set (bs_name slot) (wire_value_of values slot)) slots []"

definition missingRequired :: "bind_slot list \<Rightarrow> (string, string) jsmap \<Rightarrow> string list" where
  "missingRequired slots values =
     map bs_name (filter (\<lambda>slot. bs_required slot \<and> isFreeText slot \<and> js_trim (value_text values (bs_name slot)) = []) slots)"

definition spread :: "(string \<times> json) list \<Rightarrow> (string, json) jsmap \<Rightarrow> (string, json) jsmap" where
  "spread kvs acc = fold (\<lambda>(k, v). jm_set k v) kvs acc"

definition variant_rails :: "(string, string) jsmap \<Rightarrow> bind_slot \<Rightarrow> (string, json) jsmap \<Rightarrow> (string, json) jsmap" where
  "variant_rails values slot acc =
     (if bs_kind slot \<noteq> ''variant'' then acc
      else case find (\<lambda>v. Some (bv_id v) = jm_get values (bs_name slot)) (bs_variants slot) of
        Some chosen \<Rightarrow> spread (obj_kvs (bv_rails chosen)) acc
      | None \<Rightarrow> acc)"

definition resolveRails :: "json \<Rightarrow> bind_slot list \<Rightarrow> (string, string) jsmap \<Rightarrow> (string, json) jsmap" where
  "resolveRails content slots values =
     spread (fold (variant_rails values) slots []) (obj_kvs (record_or (JObj []) (jfield content ''rails_defaults'')))"

definition SLOT_FIELD_PREFIX :: string where
  "SLOT_FIELD_PREFIX = ''slot_values.''"

text \<open>The slot an item of a rejected request names, and its message.\<close>

definition slot_error :: "json \<Rightarrow> (string \<times> string) option" where
  "slot_error item =
     (if \<not> isRecord item then None
      else case jfield item ''loc'' of
        Some (JArr loc) \<Rightarrow>
          (case js_findIndex (\<lambda>x. x = JStr ''slot_values'') loc of
             Some i \<Rightarrow> (case (if i + 1 < length loc then jstr (Some (loc ! (i + 1))) else None, jstr (jfield item ''msg'')) of
                 (Some name, Some msg) \<Rightarrow> Some (name, msg)
               | _ \<Rightarrow> None)
           | None \<Rightarrow> None)
      | _ \<Rightarrow> (case (jstr (jfield item ''field''), jstr (jfield item ''message'')) of
            (Some f, Some message) \<Rightarrow>
              if take (length SLOT_FIELD_PREFIX) f = SLOT_FIELD_PREFIX then Some (drop (length SLOT_FIELD_PREFIX) f, message) else None
          | _ \<Rightarrow> None))"

definition slotErrorsFromDetail :: "json \<Rightarrow> (string, string) jsmap" where
  "slotErrorsFromDetail detail = (case detail of
     JArr items \<Rightarrow> fold (\<lambda>(name, message). jm_set name message) (List.map_filter slot_error items) []
   | _ \<Rightarrow> [])"



section \<open>Finding text\<close>

text \<open>Replacing keeps everything around the occurrences: putting the needle back gives the text.\<close>

lemma replaceAll_parts:
  assumes "needle \<noteq> []"
  shows "\<exists>parts. fst (replaceAll str needle name) = js_join (slotToken name) parts \<and> js_join needle parts = str \<and>
    snd (replaceAll str needle name) = length parts - 1 \<and> snd (replaceAll str needle name) = countOccurrences str needle"
  using assms split_on_join [OF assms] by (auto simp: replaceAll_def countOccurrences_def Let_def)


section \<open>Lines\<close>

lemma line_start_length: "line_start lines k = length (concat (map (\<lambda>p. p @ [c]) (take k lines)))"
proof -
  have "foldl (\<lambda>total each. total + length each + 1) n ls = n + length (concat (map (\<lambda>p. p @ [c]) ls))" for n and ls :: "string list"
    by (induction ls arbitrary: n) auto
  then show ?thesis by (simp add: line_start_def)
qed

text \<open>A line stands in the text at its start.\<close>

lemma line_in_text:
  assumes "k < length (js_split c s)"
  obtains rest where "drop (line_start (js_split c s) k) s = (js_split c s ! k) @ rest"
proof -
  let ?lines = "js_split c s"
  have "s = concat (map (\<lambda>p. p @ [c]) (take k ?lines)) @ js_join [c] (drop k ?lines)"
    using js_join_drop [OF assms, of "[c]"] js_split_join [of c s] by simp
  then have "drop (line_start ?lines k) s = js_join [c] (drop k ?lines)"
    unfolding line_start_length [of ?lines k c] by (metis append_eq_conv_conj)
  moreover obtain rest where "js_join [c] (drop k ?lines) = hd (drop k ?lines) @ rest"
    using js_join_head [of "drop k ?lines" "[c]"] assms by auto
  ultimately show ?thesis using that assms by (simp add: hd_drop_conv_nth)
qed

lemma line_match:
  assumes "k < length (js_split c s)" and "js_indexOf needle (js_split c s ! k) = Some i" and "needle \<noteq> []"
  shows "js_slice s (line_start (js_split c s) k + i) (line_start (js_split c s) k + i + length needle) = needle"
    and "line_start (js_split c s) k + i + length needle \<le> length s" and "occurs needle s"
proof -
  let ?line = "js_split c s ! k" and ?start = "line_start (js_split c s) k"
  obtain rest where d: "drop ?start s = ?line @ rest" by (rule line_in_text [OF assms(1)])
  have line: "take (length needle) (drop i ?line) = needle" "i + length needle \<le> length ?line"
    using js_indexOf_slice [OF assms(2)] by (simp_all add: js_slice_def)
  have "drop (?start + i) s = drop i ?line @ rest" 
  proof -
    have "drop (?start + i) s = drop i (drop ?start s)" by (simp add: add.commute)
    then show ?thesis unfolding d using line(2) by simp
  qed
  then show slice: "js_slice s (?start + i) (?start + i + length needle) = needle" using line by (simp add: js_slice_def)
  have "?start + length ?line \<le> length s"
  proof (rule ccontr)
    assume "\<not> ?thesis"
    moreover have "length ?line \<le> length s - ?start" using arg_cong [OF d, of length] by simp
    ultimately have "length ?line = 0" by arith
    then show False using line(2) assms(3) by simp
  qed
  then show "?start + i + length needle \<le> length s" using line(2) by simp
  have "s = take (?start + i) s @ needle @ drop (?start + i + length needle) s"

  proof -
    have "drop (?start + i) s = needle @ drop (?start + i + length needle) s"
      using slice append_take_drop_id [of "length needle" "drop (?start + i) s"] by (simp add: js_slice_def add.commute)
    then show ?thesis using append_take_drop_id [of "?start + i" s] by simp
  qed
  then show "occurs needle s" unfolding occurs_def by blast
qed



section \<open>Slot tokens\<close>

lemma slot_char_not_bracket: "slot_char c \<Longrightarrow> c \<noteq> CHR ''<'' \<and> c \<noteq> CHR ''>''"
  by (auto simp: slot_char_def is_upper_def is_digit_def)

lemma match_slot_Some: "match_slot str = Some (name, rest) \<Longrightarrow> str = slotToken name @ rest \<and> slot_name_ok name"
proof -
  assume m: "match_slot str = Some (name, rest)"
  define r where "r = drop (2 + length name) str"
  have t: "take 2 str = ''<<''" "name = takeWhile slot_char (drop 2 str)" "name \<noteq> []" "is_upper (hd name)" "take 2 r = ''>>''" "rest = drop 2 r"
    using m by (auto simp: match_slot_def Let_def r_def split: if_splits)
  have "str = ''<<'' @ drop 2 str" using t(1) by (metis append_take_drop_id)
  also have "drop 2 str = name @ r"
    using t(2) by (metis add.commute append_take_drop_id drop_drop r_def takeWhile_eq_take)
  also have "r = ''>>'' @ rest" using t(5,6) by (metis append_take_drop_id)
  finally have "str = slotToken name @ rest" by (simp add: slotToken_def)
  moreover have "list_all slot_char name" using t(2) by (auto simp: list_all_iff dest: set_takeWhileD)
  ultimately show ?thesis using t(3,4) by (simp add: slot_name_ok_def)
qed

lemma match_slot_token:
  assumes "slot_name_ok name"
  shows "match_slot (slotToken name @ rest) = Some (name, rest)"
proof -
  have "takeWhile slot_char (name @ ''>>'' @ rest) = name"
    using assms slot_char_not_bracket [of "CHR ''>''"] by (subst takeWhile_append2) (auto simp: slot_name_ok_def list_all_iff)
  then show ?thesis using assms by (simp add: match_slot_def slotToken_def Let_def slot_name_ok_def)
qed

text \<open>Inside a token no other one starts.\<close>

lemma token_no_overlap:
  assumes "slot_name_ok name" and "slot_name_ok name'" and "slotToken name' @ rest = pre @ slotToken name @ post" and "pre \<noteq> []"
  shows "length (slotToken name') \<le> length pre"
proof (rule ccontr)
  assume "\<not> length (slotToken name') \<le> length pre"
  then have short: "length pre < length name' + 4" by (simp add: slotToken_def)
  let ?s = "slotToken name' @ rest"
  have two: "?s ! length pre = CHR ''<''" "?s ! Suc (length pre) = CHR ''<''"
    unfolding assms(3) by (simp_all add: slotToken_def nth_append)
  have s: "?s = CHR ''<'' # CHR ''<'' # name' @ CHR ''>'' # CHR ''>'' # rest" by (simp add: slotToken_def)
  have ok: "slot_char (name' ! i)" if "i < length name'" for i using assms(2) that by (simp add: slot_name_ok_def list_all_length)
  obtain n where n: "length pre = Suc n" using assms(4) by (cases pre) auto
  show False
  proof (cases n)
    case 0
    have "name' \<noteq> []" using assms(2) by (simp add: slot_name_ok_def)
    then have "?s ! 2 = name' ! 0" unfolding s by (simp add: nth_append numeral_2_eq_2)
    then show ?thesis using two(2) n 0 ok [of 0] slot_char_not_bracket \<open>name' \<noteq> []\<close> by (simp add: numeral_2_eq_2)
  next
    case (Suc m)
    have "?s ! length pre = (name' @ CHR ''>'' # CHR ''>'' # rest) ! m" unfolding s n Suc by simp
    moreover have "m < length name' + 2" using short n Suc by simp
    ultimately show ?thesis using two(1) ok [of m] slot_char_not_bracket
      by (cases "m < length name'"; cases "m = length name'") (auto simp: nth_append nth_Cons' split: if_splits)
  qed
qed

lemma scan_slots_iff:
  assumes "slot_name_ok name"
  shows "name \<in> set (scan_slots str) \<longleftrightarrow> occurs (slotToken name) str"
proof (induction str rule: scan_slots.induct)
  case 1
  then show ?case by (simp add: occurs_def slotToken_def)
next
  case (2 c cs)
  show ?case
  proof (cases "match_slot (c # cs)")
    case None
    then have "take (length (slotToken name)) (c # cs) \<noteq> slotToken name"
      using match_slot_token [OF assms] by (metis append_take_drop_id option.distinct(1))
    then show ?thesis using 2(1) [OF None] None by (simp add: occurs_Cons)
  next
    case (Some p)
    obtain name' rest where p: "p = (name', rest)" by (cases p)
    have m: "c # cs = slotToken name' @ rest" "slot_name_ok name'" using match_slot_Some [of "c # cs" name' rest] Some p by simp_all
    have IH: "name \<in> set (scan_slots rest) \<longleftrightarrow> occurs (slotToken name) rest" using 2(2) [OF Some p [symmetric]] by simp
    have "occurs (slotToken name) (c # cs) \<longleftrightarrow> name = name' \<or> occurs (slotToken name) rest"
    proof
      assume "occurs (slotToken name) (c # cs)"
      then obtain pre post where s: "slotToken name' @ rest = pre @ slotToken name @ post" unfolding m(1) occurs_def by blast
      show "name = name' \<or> occurs (slotToken name) rest"
      proof (cases "pre = []")
        case True
        then show ?thesis using s match_slot_token [OF assms, of post] match_slot_token [OF m(2), of rest] by simp
      next
        case False
        have "length (slotToken name') \<le> length pre" by (rule token_no_overlap [OF assms m(2) s False])
        then have "rest = drop (length (slotToken name')) pre @ slotToken name @ post"
          using arg_cong [OF s, of "drop (length (slotToken name'))"] by simp
        then show ?thesis unfolding occurs_def by blast
      qed
    next
      assume "name = name' \<or> occurs (slotToken name) rest"
      then show "occurs (slotToken name) (c # cs)" unfolding m(1) occurs_def by (metis append_Nil append_assoc)
    qed
    then show ?thesis using IH Some p by simp
  qed
qed

lemma set_fold_js_add: "set (fold js_add xs ys) = set xs \<union> set ys"
  by (induction xs arbitrary: ys) auto

lemma referencedSlots_iff: "slot_name_ok name \<Longrightarrow> name \<in> set (referencedSlots texts) \<longleftrightarrow> (\<exists>str\<in>set texts. occurs (slotToken name) str)"
  by (simp add: referencedSlots_def set_fold_js_add scan_slots_iff)

lemma token_count_iff: "slot_name_ok name \<Longrightarrow> 0 < the (token_count str name) \<longleftrightarrow> occurs (slotToken name) str"
  using split_on_count [of "slotToken name" str] by (simp add: token_count_def slotToken_def)



section \<open>Reading and sending\<close>

text \<open>A text that is not blank has a line that is not blank.\<close>

lemma nonblank_line:
  assumes "js_trim s \<noteq> []"
  shows "\<exists>line\<in>set (js_split (CHR 0x0A) s). js_trim line \<noteq> []"
proof -
  obtain x where x: "x \<in> set s" "\<not> js_space x" using assms js_trim_empty by auto
  then have "x \<noteq> CHR 0x0A" by (auto simp: js_space_def)
  then show ?thesis using js_split_chars [OF x(1)] x(2) js_trim_empty by blast
qed

lemma fold_set_distinct:
  assumes "distinct (map key xs)" and "x \<in> set xs"
  shows "map_of (fold (\<lambda>x. jm_set (key x) (val x)) xs m) (key x) = Some (val x)"
proof -
  have other: "key x \<notin> key ` set ys \<Longrightarrow> map_of (fold (\<lambda>x. jm_set (key x) (val x)) ys m) (key x) = map_of m (key x)" for ys m
    by (induction ys arbitrary: m) auto
  show ?thesis using assms by (induction xs arbitrary: m) (auto simp: other)
qed

definition fill_json :: "(string, string) jsmap \<Rightarrow> json" where
  "fill_json fills = JObj (map (\<lambda>(k, v). (k, JStr v)) fills)"

text \<open>The rows as the draft stores them.\<close>

definition variant_json :: "slot_variant \<Rightarrow> json" where
  "variant_json v = JObj [(''id'', JStr (sv_id v)), (''label'', JStr (sv_label v)), (''fills'', fill_json (sv_fills v)),
     (''tools_extra'', JArr (map JStr (sv_tools_extra v))), (''rails'', sv_rails v)]"

definition slot_json :: "catalog_slot \<Rightarrow> json" where
  "slot_json s = JObj ([(''name'', JStr (ct_name s)), (''kind'', JStr (ct_kind s)), (''required'', JBool (ct_required s)), (''label'', JStr (ct_label s)),
     (''help'', JStr (ct_help s)), (''example'', JStr (ct_example s)), (''default'', ct_default s),
     (''enum_values'', JArr (map JStr (ct_enum_values s))), (''items'', case ct_items s of Some v \<Rightarrow> v | None \<Rightarrow> JNull), (''join'', JStr (ct_join s)),
     (''variants'', JArr (map variant_json (ct_variants s))), (''autofill'', jopt (ct_autofill s))] @
     (if ct_deprecated s then [(''deprecated'', JBool True)] else []))"

definition catalog_slot_ok :: "catalog_slot \<Rightarrow> bool" where
  "catalog_slot_ok s \<longleftrightarrow> ct_name s \<noteq> [] \<and> ct_kind s \<in> set SLOT_KINDS \<and> (\<forall>v. ct_items s = Some v \<longrightarrow> isRecord v) \<and>
     list_all (\<lambda>v. isRecord (sv_rails v)) (ct_variants s)"

lemma isRecord_obj: "isRecord v \<longleftrightarrow> (\<exists>kvs. v = JObj kvs)"
  by (cases v) auto

lemma asStringList_json: "asStringList (Some (JArr (map JStr xs))) = xs"
  by (induction xs) (simp_all add: asStringList_def List.map_filter_simps)

lemma map_filter_all: "(\<And>x. x \<in> set xs \<Longrightarrow> f (g x) = Some x) \<Longrightarrow> List.map_filter f (map g xs) = xs"
  by (induction xs) (simp_all add: List.map_filter_simps)

lemma readVariant_json: "isRecord (sv_rails v) \<Longrightarrow> readVariant (variant_json v) = v"
  by (cases v) (auto simp: readVariant_def variant_json_def asString_def asStringList_json fill_json_def record_or_def isRecord_obj o_def split_beta)

lemma read_slot_json:
  assumes "catalog_slot_ok s"
  shows "read_slot (slot_json s) = Some s"
proof -
  have variants: "map readVariant (records_of (Some (JArr (map variant_json (ct_variants s))))) = ct_variants s"
  proof -
    have "filter isRecord (map variant_json vs) = map variant_json vs" for vs by (induction vs) (simp_all add: variant_json_def)
    moreover have "map readVariant (map variant_json vs) = vs" if "list_all (\<lambda>v. isRecord (sv_rails v)) vs" for vs
      using that by (induction vs) (simp_all add: readVariant_json)
    ultimately show ?thesis using assms by (simp add: records_of_def catalog_slot_ok_def)
  qed
  have items: "(case Some (case ct_items s of Some v \<Rightarrow> v | None \<Rightarrow> JNull) of Some (JObj kvs) \<Rightarrow> Some (JObj kvs) | _ \<Rightarrow> None) = ct_items s"
    using assms by (auto simp: catalog_slot_ok_def isRecord_obj split: option.split)
  have autofill: "jstr (Some (jopt (ct_autofill s))) = ct_autofill s" by (cases "ct_autofill s") simp_all
  show ?thesis using assms variants items autofill
    by (cases s) (simp add: read_slot_def slot_json_def asString_def asKind_def asStringList_json catalog_slot_ok_def Let_def)
qed

lemma readCatalog_json:
  assumes "list_all catalog_slot_ok slots"
  shows "readCatalog (with_field ''slots'' (JArr (map slot_json slots)) content) = slots"
proof -
  have "filter isRecord (map slot_json slots) = map slot_json slots" by (induction slots) (simp_all add: slot_json_def)
  then show ?thesis using assms map_filter_all [of slots read_slot slot_json] read_slot_json
    by (simp add: readCatalog_def records_of_def list_all_iff)
qed



section \<open>Properties\<close>

text \<open>
  The shortcut from a finding to a selection selects the finding: the range it returns lies in
  the prompt and holds exactly the reported text, it lies on the reported line whenever the text
  occurs there, and no range is returned exactly if the text is empty or occurs nowhere.
\<close>

lemma findMatchRange_exact:
  "(findMatchRange str needle line = None \<longleftrightarrow> needle = [] \<or> \<not> occurs needle str) \<and>
   (\<forall>r. findMatchRange str needle line = Some r \<longrightarrow> js_slice str (rg_start r) (rg_end r) = needle \<and> rg_end r \<le> length str \<and>
     (\<forall>k. line = int k + 1 \<and> k < length (js_split (CHR 0x0A) str) \<and> occurs needle (js_split (CHR 0x0A) str ! k) \<longrightarrow>
        line_start (js_split (CHR 0x0A) str) k \<le> rg_start r \<and>
        rg_end r \<le> line_start (js_split (CHR 0x0A) str) k + length (js_split (CHR 0x0A) str ! k)))"
proof (cases "needle = []")
  case True
  then show ?thesis by (simp add: findMatchRange_def)
next
  case False
  let ?lines = "js_split (CHR 0x0A) str"
  define k where "k = nat (line - 1)"
  define fallback where "fallback = map_option (\<lambda>i. \<lparr>rg_start = i, rg_end = i + length needle\<rparr>) (js_indexOf needle str)"
  have fb: "fallback = None \<longleftrightarrow> \<not> occurs needle str" "\<And>r. fallback = Some r \<Longrightarrow> js_slice str (rg_start r) (rg_end r) = needle \<and> rg_end r \<le> length str"
    using js_indexOf_None [of needle str] js_indexOf_slice [of needle str] by (auto simp: fallback_def)
  show ?thesis
  proof (cases "1 \<le> line \<and> line \<le> int (length ?lines) \<and> js_indexOf needle (?lines ! k) \<noteq> None")
    case True
    then obtain i where i: "js_indexOf needle (?lines ! k) = Some i" by auto
    have k: "k < length ?lines" using True by (auto simp: k_def)
    have "findMatchRange str needle line = Some \<lparr>rg_start = line_start ?lines k + i, rg_end = line_start ?lines k + i + length needle\<rparr>"
      using True False i by (simp add: findMatchRange_def Let_def k_def)
    then show ?thesis using False line_match [OF k i False] js_indexOf_bound [OF i] by (auto simp: k_def)
  next
    case no_line: False
    have "findMatchRange str needle line = fallback"
      using no_line False by (auto simp: findMatchRange_def Let_def k_def fallback_def split: option.split)
    moreover have "\<not> (line = int k' + 1 \<and> k' < length ?lines \<and> occurs needle (?lines ! k'))" for k'
      using no_line js_indexOf_None [of needle "?lines ! k"] by (auto simp: k_def)
    ultimately show ?thesis using fb False by auto
  qed
qed

definition sample_prompt :: string where
  "sample_prompt = ''ab'' @ [CHR 0x0A] @ ''xab''"

text \<open>
  The slots tab and the prompt checks agree on what is used: for a slot whose name is of the slot
  grammar, the usage derived for its row says it is used nowhere exactly if the live checks report
  it as unused.
\<close>

lemma slot_usage_agrees:
  assumes "slot \<in> set slots" and "slot_usage_of slots prompts slot = Some u"
  shows "UnusedSlot (ct_name slot) \<in> set (validatePrompts (prompts ''system_prompt'') (prompts ''loop_prompt'') (map ct_name slots) (catalogFills slots) runnerVars)
    \<longleftrightarrow> \<not> su_usedAnywhere u"
proof -
  have ok: "slot_name_ok (ct_name slot)" using assms(2) by (simp add: slot_usage_of_def split: if_splits)
  have "su_usedAnywhere u \<longleftrightarrow> (\<exists>str\<in>set ([prompts ''system_prompt'', prompts ''loop_prompt''] @ catalogFills slots). occurs (slotToken (ct_name slot)) str)"
    using assms(2) ok token_count_iff [OF ok] referencedSlots_iff [OF ok]
    by (auto simp: slot_usage_of_def PROMPT_FIELDS_def Let_def split: if_splits)
  then show ?thesis using assms(1) referencedSlots_iff [OF ok] by (auto simp: validatePrompts_def Let_def)
qed

text \<open>
  A form without missing required slots sends them: every required slot that is not a choice of
  variants goes out with a text that is not blank, a list slot with at least one item and no blank
  items.
\<close>

lemma required_slots_sent:
  assumes "missingRequired slots values = []" and "distinct (map bs_name slots)" and "slot \<in> set slots" and "bs_required slot" and "isFreeText slot"
  shows "\<exists>w. jm_get (slotValuesForWire slots values) (bs_name slot) = Some w \<and>
    (case w of WText t \<Rightarrow> bs_kind slot \<noteq> ''list'' \<and> js_trim t \<noteq> [] | WList ls \<Rightarrow> bs_kind slot = ''list'' \<and> ls \<noteq> [] \<and> list_all (\<lambda>l. js_trim l \<noteq> []) ls)"
proof -
  have "jm_get (slotValuesForWire slots values) (bs_name slot) = Some (wire_value_of values slot)"
    unfolding slotValuesForWire_def by (rule fold_set_distinct [OF assms(2,3)])
  moreover have "js_trim (value_text values (bs_name slot)) \<noteq> []" using assms(1,3-5) by (auto simp: missingRequired_def filter_empty_conv)
  ultimately show ?thesis using nonblank_line [of "value_text values (bs_name slot)"]
    by (auto simp: wire_value_of_def Let_def list_all_iff filter_empty_conv)
qed

definition sample_bind_slot :: bind_slot where
  "sample_bind_slot = \<lparr>bs_name = ''KEYS'', bs_kind = ''list'', bs_required = True, bs_label = ''KEYS'', bs_help = [], bs_example = [], bs_enum_values = [],
     bs_variants = [], bs_autofill = None, bs_default = None\<rparr>"

text \<open>
  The slots tab loses nothing: rows it writes into the draft are read back unchanged, whatever
  else the draft holds, if they have a name, a known kind, and objects for their item schema and
  their rails.
\<close>

lemma catalog_roundtrip:
  assumes "list_all catalog_slot_ok slots"
  shows "readCatalog (with_field ''slots'' (JArr (map slot_json slots)) content) = slots"
  by (rule readCatalog_json [OF assms])

end
